(* ===== verification/Prelude.thy ===== *)
theory Prelude
  imports Main "HOL-Library.Multiset" "HOL-Library.Char_ord" "HOL-Library.List_Lexorder"
begin

section \<open>The JavaScript values the engine computes with\<close>

text \<open>
  What the components share: results of code that may throw, array slots that may be a hole or
  \<open>null\<close>, plain objects and \<open>Map\<close>s as association lists in insertion order, \<open>Set\<close>s as distinct
  lists in insertion order, array updates past the end, the stable sort, and decimal printing.
  The collection \<open>js_simps\<close> holds the lookup and update laws; \<open>js_split\<close> the case splits.
\<close>

named_theorems js_simps \<open>lookup, update and enumeration laws of the JavaScript containers\<close>

subsection \<open>Errors as values\<close>

text \<open>One constructor per class of error the modelled code throws, with its message.\<close>

datatype js_error =
    AssertionError
  | TypeError
  | ApplicationError string
  | UserError string
  | UnexpectedError string
  | OperationalError string
  | PlainError string
  | WorkflowHasIssuesError

fun bindE :: "'e + 'a \<Rightarrow> ('a \<Rightarrow> 'e + 'b) \<Rightarrow> 'e + 'b" where
  "bindE (Inl e) f = Inl e"
| "bindE (Inr x) f = f x"

lemma bindE_eq_Inr: "bindE r f = Inr y \<longleftrightarrow> (\<exists>x. r = Inr x \<and> f x = Inr y)"
  by (cases r) auto

lemma bindE_eq_Inl: "bindE r f = Inl e \<longleftrightarrow> r = Inl e \<or> (\<exists>x. r = Inr x \<and> f x = Inl e)"
  by (cases r) auto

lemma bindE_cong [fundef_cong]:
  "r = r' \<Longrightarrow> (\<And>x. r' = Inr x \<Longrightarrow> f x = f' x) \<Longrightarrow> bindE r f = bindE r' f'"
  by (cases r') auto

definition assertE :: "bool \<Rightarrow> js_error + unit" where
  "assertE b = (if b then Inr () else Inl AssertionError)"

lemma assertE_eq_Inr [simp]: "assertE b = Inr u \<longleftrightarrow> b"
  by (simp add: assertE_def)

lemma assertE_True [simp]: "assertE True = Inr ()"
  by (simp add: assertE_def)

text \<open>\<open>map\<close> with a function that may throw.\<close>

fun mapE :: "('a \<Rightarrow> 'e + 'b) \<Rightarrow> 'a list \<Rightarrow> 'e + 'b list" where
  "mapE f [] = Inr []"
| "mapE f (x # xs) = bindE (f x) (\<lambda>y. bindE (mapE f xs) (\<lambda>ys. Inr (y # ys)))"

lemma mapE_Inr: "mapE f xs = Inr ys \<Longrightarrow> list_all2 (\<lambda>x y. f x = Inr y) xs ys"
  by (induction xs arbitrary: ys) (auto simp: bindE_eq_Inr)

text \<open>A \<open>for \<dots> of\<close> loop whose body may throw.\<close>

fun foldE :: "('a \<Rightarrow> 's \<Rightarrow> 'e + 's) \<Rightarrow> 'a list \<Rightarrow> 's \<Rightarrow> 'e + 's" where
  "foldE f [] s = Inr s"
| "foldE f (x # xs) s = bindE (f x s) (foldE f xs)"

lemma foldE_append: "foldE f (xs @ ys) s = bindE (foldE f xs s) (foldE f ys)"
proof (induction xs arbitrary: s)
  case (Cons x xs)
  then show ?case by (cases "f x s") simp_all
qed simp

lemma foldE_cong [fundef_cong]:
  "xs = ys \<Longrightarrow> s = t \<Longrightarrow> (\<And>x s. x \<in> set ys \<Longrightarrow> f x s = g x s) \<Longrightarrow> foldE f xs s = foldE g ys t"
proof (induction xs arbitrary: ys s t)
  case (Cons x xs)
  then show ?case by (cases "g x t") auto
qed simp

lemma foldE_invariant:
  assumes "foldE f xs s = Inr t" "P s"
    and "\<And>x s t. x \<in> set xs \<Longrightarrow> P s \<Longrightarrow> f x s = Inr t \<Longrightarrow> P t"
  shows "P t"
  using assms
proof (induction xs arbitrary: s)
  case (Cons x xs)
  from Cons.prems(1) obtain u where "f x s = Inr u" "foldE f xs u = Inr t"
    by (auto simp: bindE_eq_Inr)
  with Cons.IH [of u] Cons.prems(2,3) show ?case by (metis list.set_intros)
qed simp

text \<open>What the body establishes for one element and never undoes holds at the end.\<close>

lemma foldE_establishes:
  assumes "foldE f xs s = Inr t" "x \<in> set xs"
    and "\<And>s t. f x s = Inr t \<Longrightarrow> P t" "\<And>y s t. P s \<Longrightarrow> f y s = Inr t \<Longrightarrow> P t"
  shows "P t"
  using assms(1,2)
proof (induction xs arbitrary: s)
  case (Cons y xs)
  then obtain u where u: "f y s = Inr u" "foldE f xs u = Inr t" by (auto simp: bindE_eq_Inr)
  show ?case
  proof (cases "x = y")
    case True
    with u(1) assms(3) have "P u" by blast
    with u(2) show ?thesis by (rule foldE_invariant [where P = P]) (rule assms(4))
  qed (use Cons u(2) in auto)
qed simp

text \<open>A loop whose body succeeds in every state of an invariant ends without an error.\<close>

lemma foldE_total:
  assumes "P s"
    and "\<And>x s. x \<in> set xs \<Longrightarrow> P s \<Longrightarrow> \<exists>t. f x s = Inr t \<and> P t"
  shows "\<exists>t. foldE f xs s = Inr t \<and> P t"
  using assms
proof (induction xs arbitrary: s)
  case (Cons x xs)
  from Cons.prems(2) [of x s] Cons.prems(1) obtain u where "f x s = Inr u" "P u"
    by auto
  with Cons.IH [of u] Cons.prems(2) show ?case by auto
qed simp

subsection \<open>Array slots: value, null, or a hole\<close>

text \<open>
  An array element typed \<open>T | null\<close> can also be missing: writing past the end leaves holes that
  read as \<open>undefined\<close>. The three are told apart where the code compares with \<open>=== null\<close>.
\<close>

datatype 'a jsval = JsUndef | JsNull | JsVal 'a

fun jsval_opt :: "'a jsval \<Rightarrow> 'a option" where
  "jsval_opt (JsVal x) = Some x"
| "jsval_opt _ = None"

definition arr_get :: "'a jsval list \<Rightarrow> nat \<Rightarrow> 'a jsval" where
  "arr_get xs i = (if i < length xs then xs ! i else JsUndef)"

definition arr_set :: "'a jsval list \<Rightarrow> nat \<Rightarrow> 'a jsval \<Rightarrow> 'a jsval list" where
  "arr_set xs i v =
     (if i < length xs then xs[i := v]
      else xs @ replicate (i - length xs) JsUndef @ [v])"

lemma length_arr_set [js_simps]: "length (arr_set xs i v) = max (length xs) (Suc i)"
  by (simp add: arr_set_def)

lemma arr_get_set [js_simps]: "arr_get (arr_set xs i v) j = (if j = i then v else arr_get xs j)"
  by (auto simp: arr_get_def arr_set_def nth_append nth_Cons')

text \<open>\<open>xs.at(i)\<close> on a list: negative indices count from the end.\<close>

definition js_at :: "'a list \<Rightarrow> int \<Rightarrow> 'a option" where
  "js_at xs i =
     (let j = (if i < 0 then int (length xs) + i else i)
      in if 0 \<le> j \<and> j < int (length xs) then Some (xs ! nat j) else None)"

lemma js_at_nat: "js_at xs (int i) = (if i < length xs then Some (xs ! i) else None)"
  by (simp add: js_at_def)

lemma js_at_last: "xs \<noteq> [] \<Longrightarrow> js_at xs (-1) = Some (last xs)"
proof -
  assume "xs \<noteq> []"
  then have "0 < length xs" by simp
  then show ?thesis by (simp add: js_at_def last_conv_nth nat_diff_distrib' Let_def)
qed

text \<open>Reading an element that may be out of range.\<close>

definition idx :: "'a list \<Rightarrow> nat \<Rightarrow> 'a option" where
  "idx xs i = (if i < length xs then Some (xs ! i) else None)"

lemma idx_Some_iff: "idx xs i = Some x \<longleftrightarrow> i < length xs \<and> xs ! i = x"
  by (simp add: idx_def)

lemma idx_Cons_simps [simp]: "idx [] i = None" "idx (x # xs) 0 = Some x"
    "idx (x # xs) (Suc i) = idx xs i"
  by (simp_all add: idx_def)

end
