(* ===== verification/JsObjects.thy ===== *)
theory JsObjects
  imports Prelude
begin

section \<open>Objects, maps, sets and sorting\<close>

text \<open>
  A plain object or a \<open>Map\<close> is the list of its entries in insertion order, with distinct keys:
  writing an existing key keeps its position. A \<open>Set\<close> is a distinct list. \<open>obj_entries\<close> is the
  enumeration order of a plain object, in which keys that are array indices come first.
  The locale \<open>js_map\<close> states what the clients rely on; it is interpreted on the entry lists.
\<close>

type_synonym ('k, 'v) jsmap = "('k \<times> 'v) list"
type_synonym 'v obj = "(string, 'v) jsmap"

abbreviation obj_get :: "('k, 'v) jsmap \<Rightarrow> 'k \<Rightarrow> 'v option" where
  "obj_get \<equiv> map_of"

fun obj_set :: "'k \<Rightarrow> 'v \<Rightarrow> ('k, 'v) jsmap \<Rightarrow> ('k, 'v) jsmap" where
  "obj_set k v [] = [(k, v)]"
| "obj_set k v ((k', v') # o') = (if k' = k then (k, v) # o' else (k', v') # obj_set k v o')"

definition obj_del :: "'k \<Rightarrow> ('k, 'v) jsmap \<Rightarrow> ('k, 'v) jsmap" where
  "obj_del k o' = filter (\<lambda>p. fst p \<noteq> k) o'"

definition obj_has :: "'k \<Rightarrow> ('k, 'v) jsmap \<Rightarrow> bool" where
  "obj_has k o' \<longleftrightarrow> k \<in> set (map fst o')"

definition wf_obj :: "('k, 'v) jsmap \<Rightarrow> bool" where
  "wf_obj o' \<longleftrightarrow> distinct (map fst o')"

lemma obj_get_set [js_simps]: "obj_get (obj_set k v o') k' = (if k' = k then Some v else obj_get o' k')"
  by (induction o') auto

lemma obj_get_del [js_simps]: "obj_get (obj_del k o') k' = (if k' = k then None else obj_get o' k')"
  by (induction o') (auto simp: obj_del_def)

lemma keys_obj_set [js_simps]: "set (map fst (obj_set k v o')) = insert k (set (map fst o'))"
proof (induction o')
  case (Cons p o')
  then show ?case by (cases p) (auto simp: insert_commute)
qed simp

lemma keys_obj_del [js_simps]: "set (map fst (obj_del k o')) = set (map fst o') - {k}"
  by (auto simp: obj_del_def)

lemma wf_obj_Nil [simp]: "wf_obj []"
  by (simp add: wf_obj_def)

lemma wf_obj_set [simp]: "wf_obj o' \<Longrightarrow> wf_obj (obj_set k v o')"
proof (induction o')
  case (Cons p o')
  obtain a b where [simp]: "p = (a, b)" by (cases p)
  from Cons have "wf_obj (obj_set k v o')" and "a \<notin> set (map fst o')"
    by (simp_all add: wf_obj_def)
  then show ?case using Cons.prems keys_obj_set [of k v o']
    by (auto simp: wf_obj_def simp del: set_map)
qed (simp add: wf_obj_def)

lemma wf_obj_filter [simp]: "wf_obj o' \<Longrightarrow> wf_obj (filter P o')"
  by (simp add: wf_obj_def distinct_map_filter)

lemma wf_obj_del [simp]: "wf_obj o' \<Longrightarrow> wf_obj (obj_del k o')"
  by (simp add: obj_del_def)

lemma obj_has_iff: "obj_has k o' \<longleftrightarrow> obj_get o' k \<noteq> None"
  by (simp add: obj_has_def map_of_eq_None_iff)

lemma obj_get_mem: "obj_get o' k = Some v \<Longrightarrow> (k, v) \<in> set o'"
  by (rule map_of_SomeD)

lemma obj_mem_get: "wf_obj o' \<Longrightarrow> (k, v) \<in> set o' \<Longrightarrow> obj_get o' k = Some v"
  by (simp add: wf_obj_def)

lemma obj_mem_iff: "wf_obj o' \<Longrightarrow> (k, v) \<in> set o' \<longleftrightarrow> obj_get o' k = Some v"
  by (blast intro: obj_mem_get obj_get_mem)

lemma set_obj_set: "wf_obj o' \<Longrightarrow> set (obj_set k v o') = insert (k, v) (set o' - {k} \<times> UNIV)"
proof -
  assume wf: "wf_obj o'"
  then have "p \<in> set (obj_set k v o') \<longleftrightarrow> p \<in> insert (k, v) (set o' - {k} \<times> UNIV)" for p
    by (cases p) (auto simp: obj_mem_iff obj_get_set split: if_splits)
  then show ?thesis by blast
qed

lemma obj_set_values: "snd ` set (obj_set k v o') \<subseteq> insert v (snd ` set o')"
proof (induction o')
  case (Cons p o')
  then show ?case by (cases p) auto
qed simp

subsection \<open>Enumeration order of a plain object\<close>

fun digit_value :: "char \<Rightarrow> nat" where
  "digit_value c = of_char c - 48"

definition is_digit_char :: "char \<Rightarrow> bool" where
  "is_digit_char c \<longleftrightarrow> 48 \<le> (of_char c :: nat) \<and> (of_char c :: nat) \<le> 57"

definition nat_of_digits :: "string \<Rightarrow> nat" where
  "nat_of_digits s = foldl (\<lambda>n c. 10 * n + digit_value c) 0 s"

text \<open>A canonical array index: decimal digits, no leading zero, below $2^{32} - 1$.\<close>

definition is_array_index :: "string \<Rightarrow> bool" where
  "is_array_index s \<longleftrightarrow>
     s \<noteq> [] \<and> list_all is_digit_char s \<and> (hd s = CHR ''0'' \<longrightarrow> length s = 1)
     \<and> nat_of_digits s < 4294967295"

definition obj_entries :: "'v obj \<Rightarrow> 'v obj" where
  "obj_entries o' =
     sort_key (\<lambda>p. nat_of_digits (fst p)) (filter (\<lambda>p. is_array_index (fst p)) o')
     @ filter (\<lambda>p. \<not> is_array_index (fst p)) o'"

definition obj_keys :: "'v obj \<Rightarrow> string list" where
  "obj_keys o' = map fst (obj_entries o')"

definition obj_values :: "'v obj \<Rightarrow> 'v list" where
  "obj_values o' = map snd (obj_entries o')"

lemma set_obj_entries [simp]: "set (obj_entries o') = set o'"
  by (auto simp: obj_entries_def)

lemma mset_obj_entries: "mset (obj_entries o') = mset o'"
  by (simp add: obj_entries_def)

lemma wf_obj_mset: "mset o1 = mset o2 \<Longrightarrow> wf_obj o1 \<longleftrightarrow> wf_obj o2"
  unfolding wf_obj_def by (metis mset_eq_imp_distinct_iff mset_map)

lemma wf_obj_entries [simp]: "wf_obj (obj_entries o') \<longleftrightarrow> wf_obj o'"
  by (rule wf_obj_mset) (rule mset_obj_entries)

lemma set_obj_keys [simp]: "set (obj_keys o') = set (map fst o')"
  by (simp add: obj_keys_def)

lemma set_obj_values [simp]: "set (obj_values o') = set (map snd o')"
  by (simp add: obj_values_def)

lemma distinct_obj_keys: "wf_obj o' \<Longrightarrow> distinct (obj_keys o')"
  using wf_obj_entries [of o'] by (simp add: obj_keys_def wf_obj_def)

lemma obj_entries_plain:
  "list_all (\<lambda>p. \<not> is_array_index (fst p)) o' \<Longrightarrow> obj_entries o' = o'"
proof -
  assume plain: "list_all (\<lambda>p. \<not> is_array_index (fst p)) o'"
  then have "filter (\<lambda>p. is_array_index (fst p)) o' = []"
    and "filter (\<lambda>p. \<not> is_array_index (fst p)) o' = o'"
    by (simp_all add: filter_empty_conv list_all_iff)
  then show ?thesis by (simp add: obj_entries_def)
qed

subsection \<open>Objects keyed by numbers\<close>

text \<open>\<open>Object.keys\<close> of an object with number keys enumerates them in ascending order.\<close>

definition num_keys :: "(nat, 'v) jsmap \<Rightarrow> nat list" where
  "num_keys o' = sort (map fst o')"

lemma set_num_keys [simp]: "set (num_keys o') = set (map fst o')"
  by (simp add: num_keys_def)

lemma sorted_num_keys [simp]: "sorted (num_keys o')"
  by (simp add: num_keys_def)

lemma length_num_keys [simp]: "length (num_keys o') = length o'"
  by (simp add: num_keys_def)

subsection \<open>The contract of a map, and its interpretation\<close>

locale js_map =
  fixes lookup :: "'m \<Rightarrow> 'k \<Rightarrow> 'v option"
    and update :: "'k \<Rightarrow> 'v \<Rightarrow> 'm \<Rightarrow> 'm"
    and delete :: "'k \<Rightarrow> 'm \<Rightarrow> 'm"
    and ok :: "'m \<Rightarrow> bool"
  assumes lookup_update: "ok m \<Longrightarrow> lookup (update k v m) k' = (if k' = k then Some v else lookup m k')"
    and lookup_delete: "ok m \<Longrightarrow> lookup (delete k m) k' = (if k' = k then None else lookup m k')"
    and ok_update: "ok m \<Longrightarrow> ok (update k v m)"
    and ok_delete: "ok m \<Longrightarrow> ok (delete k m)"
begin

lemma ok_fold_update: "ok m \<Longrightarrow> ok (fold (\<lambda>x. update (key x) (val x)) xs m)"
  by (induction xs arbitrary: m) (simp_all add: ok_update)

lemma ok_fold_delete: "ok m \<Longrightarrow> ok (fold delete ks m)"
  by (induction ks arbitrary: m) (simp_all add: ok_delete)

lemma lookup_fold_delete:
  "ok m \<Longrightarrow> lookup (fold delete ks m) k = (if k \<in> set ks then None else lookup m k)"
  by (induction ks arbitrary: m) (simp_all add: ok_delete lookup_delete)

text \<open>A key written by the fold holds a value some element wrote; any other is untouched.\<close>

lemma lookup_fold_update_notin:
  "ok m \<Longrightarrow> k \<notin> key ` set xs \<Longrightarrow> lookup (fold (\<lambda>x. update (key x) (val x)) xs m) k = lookup m k"
  by (induction xs arbitrary: m) (simp_all add: ok_update lookup_update)

lemma lookup_fold_update_in:
  "ok m \<Longrightarrow> k \<in> key ` set xs \<Longrightarrow>
     \<exists>x \<in> set xs. key x = k \<and> lookup (fold (\<lambda>x. update (key x) (val x)) xs m) k = Some (val x)"
proof (induction xs arbitrary: m)
  case (Cons x xs)
  show ?case
  proof (cases "k \<in> key ` set xs")
    case True
    then show ?thesis using Cons.IH [of "update (key x) (val x) m"] Cons.prems(1)
      by (auto simp: ok_update)
  next
    case False
    with Cons.prems show ?thesis
      by (auto simp: ok_update lookup_update lookup_fold_update_notin)
  qed
qed simp

lemma lookup_fold_update_inj:
  assumes "ok m" "inj_on key (set xs)" "x \<in> set xs"
  shows "lookup (fold (\<lambda>x. update (key x) (val x)) xs m) (key x) = Some (val x)"
  using lookup_fold_update_in [OF assms(1), of "key x" key xs val] assms(2,3)
  by (auto dest: inj_onD)

end

interpretation jsobj: js_map obj_get obj_set obj_del wf_obj
  by unfold_locales (simp_all add: js_simps)

subsection \<open>Sets\<close>

definition set_add :: "'a \<Rightarrow> 'a list \<Rightarrow> 'a list" where
  "set_add x s = (if x \<in> set s then s else s @ [x])"

definition set_del :: "'a \<Rightarrow> 'a list \<Rightarrow> 'a list" where
  "set_del x s = removeAll x s"

definition mk_set :: "'a list \<Rightarrow> 'a list" where
  "mk_set xs = fold set_add xs []"

lemma set_set_add [simp]: "set (set_add x s) = insert x (set s)"
  by (auto simp: set_add_def)

lemma distinct_set_add [simp]: "distinct s \<Longrightarrow> distinct (set_add x s)"
  by (simp add: set_add_def)

lemma set_set_del [simp]: "set (set_del x s) = set s - {x}"
  by (simp add: set_del_def)

lemma distinct_set_del [simp]: "distinct s \<Longrightarrow> distinct (set_del x s)"
  by (simp add: set_del_def distinct_removeAll)

lemma set_fold_set_add [simp]: "set (fold set_add xs s) = set s \<union> set xs"
  by (induction xs arbitrary: s) auto

lemma distinct_fold_set_add [simp]: "distinct s \<Longrightarrow> distinct (fold set_add xs s)"
  by (induction xs arbitrary: s) auto

lemma set_mk_set [simp]: "set (mk_set xs) = set xs"
  by (simp add: mk_set_def)

lemma distinct_mk_set [simp]: "distinct (mk_set xs)"
  by (simp add: mk_set_def)

subsection \<open>Sorting with a comparator\<close>

text \<open>
  \<open>Array.prototype.sort\<close> is a stable sort. Elements are inserted from left to right, each one
  moving left past the elements it compares below.
\<close>

fun insert_back :: "('a \<Rightarrow> 'a \<Rightarrow> int) \<Rightarrow> 'a \<Rightarrow> 'a list \<Rightarrow> 'a list" where
  "insert_back c x [] = [x]"
| "insert_back c x (y # ys) = (if c x y < 0 then y # insert_back c x ys else x # y # ys)"

definition js_sort :: "('a \<Rightarrow> 'a \<Rightarrow> int) \<Rightarrow> 'a list \<Rightarrow> 'a list" where
  "js_sort c xs = rev (fold (insert_back c) xs [])"

lemma mset_insert_back [simp]: "mset (insert_back c x ys) = add_mset x (mset ys)"
  by (induction ys) auto

lemma mset_fold_insert_back: "mset (fold (insert_back c) xs ys) = mset xs + mset ys"
  by (induction xs arbitrary: ys) auto

lemma mset_js_sort [simp]: "mset (js_sort c xs) = mset xs"
  by (simp add: js_sort_def mset_fold_insert_back)

lemma set_js_sort [simp]: "set (js_sort c xs) = set xs"
  by (metis mset_js_sort set_mset_mset)

lemma length_js_sort [simp]: "length (js_sort c xs) = length xs"
  by (metis mset_js_sort size_mset)

lemma distinct_js_sort [simp]: "distinct (js_sort c xs) \<longleftrightarrow> distinct xs"
  by (metis mset_eq_imp_distinct_iff mset_js_sort)

text \<open>A comparator is consistent when it is total, antisymmetric in sign and transitive.\<close>

definition consistent_cmp :: "('a \<Rightarrow> 'a \<Rightarrow> int) \<Rightarrow> bool" where
  "consistent_cmp c \<longleftrightarrow>
     (\<forall>x y. c x y < 0 \<longrightarrow> 0 \<le> c y x) \<and> (\<forall>x y. 0 \<le> c x y \<longrightarrow> c y x \<le> 0)
     \<and> (\<forall>x y z. c x y \<le> 0 \<longrightarrow> c y z \<le> 0 \<longrightarrow> c x z \<le> 0)"

lemma set_insert_back [simp]: "set (insert_back c x ys) = insert x (set ys)"
  by (induction ys) auto

lemma sorted_insert_back:
  assumes "consistent_cmp c" "sorted_wrt (\<lambda>a b. c b a \<le> 0) ys"
  shows "sorted_wrt (\<lambda>a b. c b a \<le> 0) (insert_back c x ys)"
  using assms(2)
proof (induction ys)
  case (Cons y ys)
  show ?case
  proof (cases "c x y < 0")
    case True
    with Cons show ?thesis by auto
  next
    case False
    then have yx: "c y x \<le> 0" using assms(1) by (auto simp: consistent_cmp_def)
    moreover have "c z x \<le> 0" if "z \<in> set ys" for z
      using that yx Cons.prems assms(1) unfolding consistent_cmp_def by (metis sorted_wrt.simps(2))
    ultimately show ?thesis using False Cons.prems by auto
  qed
qed simp

lemma sorted_js_sort:
  assumes "consistent_cmp c"
  shows "sorted_wrt (\<lambda>a b. c a b \<le> 0) (js_sort c xs)"
proof -
  have "sorted_wrt (\<lambda>a b. c b a \<le> 0) (fold (insert_back c) xs ys)"
    if "sorted_wrt (\<lambda>a b. c b a \<le> 0) ys" for ys
    using that by (induction xs arbitrary: ys) (simp_all add: sorted_insert_back [OF assms])
  from this [of "[]"] show ?thesis by (simp add: js_sort_def sorted_wrt_rev)
qed

subsection \<open>Decimal printing of an index\<close>

fun nat_str :: "nat \<Rightarrow> string" where
  "nat_str n = (if n < 10 then [char_of (48 + n)] else nat_str (n div 10) @ [char_of (48 + n mod 10)])"

declare nat_str.simps [simp del]

lemma nat_str_digits: "list_all is_digit_char (nat_str n)"
proof (induction n rule: nat_str.induct)
  case (1 n)
  have d: "is_digit_char (char_of (48 + k))" if "k < 10" for k :: nat
    using that by (simp add: is_digit_char_def)
  show ?case
  proof (cases "n < 10")
    case True
    then show ?thesis by (subst nat_str.simps) (simp add: d)
  next
    case False
    with 1 show ?thesis by (subst nat_str.simps) (simp add: d)
  qed
qed

lemma nat_of_digits_snoc: "nat_of_digits (s @ [c]) = 10 * nat_of_digits s + digit_value c"
  by (simp add: nat_of_digits_def)

lemma nat_of_digits_nat_str [simp]: "nat_of_digits (nat_str n) = n"
proof (induction n rule: nat_str.induct)
  case (1 n)
  show ?case
  proof (cases "n < 10")
    case True
    then show ?thesis by (subst nat_str.simps) (simp add: nat_of_digits_def)
  next
    case False
    with 1 show ?thesis
      by (subst nat_str.simps) (simp add: nat_of_digits_snoc)
  qed
qed

lemma inj_nat_str: "inj nat_str"
  by (metis injI nat_of_digits_nat_str)

lemma nat_str_eq_iff [simp]: "nat_str m = nat_str n \<longleftrightarrow> m = n"
  using inj_nat_str by (auto dest: injD)

end
