(* ===== verification/Interfaces.thy ===== *)
theory Interfaces
  imports Complex_Main JsObjects
begin

section \<open>The data model\<close>

text \<open>
  The interfaces of \<open>packages/workflow/src/interfaces.ts\<close> that the workflow graph and the
  execution engine read and write. Optional fields are \<open>option\<close>s; the fields the modelled code
  only carries along stand in one \<open>_rest\<close> field; a number is \<open>nat\<close> where it is an index or a
  count and \<open>int\<close> otherwise. A node is a value: the engine compares node objects by reference,
  and two nodes of one workflow differ in their name.
\<close>

datatype ctype =
    AiAgent | AiChain | AiDocument | AiEmbedding | AiLanguageModel | AiMemory | AiOutputParser
  | AiRetriever | AiReranker | AiTextSplitter | AiTool | AiVectorStore | Main

fun ctype_name :: "ctype \<Rightarrow> string" where
  "ctype_name AiAgent = ''ai_agent''"
| "ctype_name AiChain = ''ai_chain''"
| "ctype_name AiDocument = ''ai_document''"
| "ctype_name AiEmbedding = ''ai_embedding''"
| "ctype_name AiLanguageModel = ''ai_languageModel''"
| "ctype_name AiMemory = ''ai_memory''"
| "ctype_name AiOutputParser = ''ai_outputParser''"
| "ctype_name AiRetriever = ''ai_retriever''"
| "ctype_name AiReranker = ''ai_reranker''"
| "ctype_name AiTextSplitter = ''ai_textSplitter''"
| "ctype_name AiTool = ''ai_tool''"
| "ctype_name AiVectorStore = ''ai_vectorStore''"
| "ctype_name Main = ''main''"

lemma ctype_name_eq_iff [simp]: "ctype_name a = ctype_name b \<longleftrightarrow> a = b"
  by (cases a; cases b) simp_all

lemma ctype_name_nonempty [simp]: "ctype_name a \<noteq> []"
  by (cases a) simp_all

text \<open>Connection types sort as the strings they are.\<close>

instantiation ctype :: linorder
begin

definition less_eq_ctype :: "ctype \<Rightarrow> ctype \<Rightarrow> bool" where
  "less_eq_ctype a b \<longleftrightarrow> ctype_name a \<le> ctype_name b"

definition less_ctype :: "ctype \<Rightarrow> ctype \<Rightarrow> bool" where
  "less_ctype a b \<longleftrightarrow> ctype_name a < ctype_name b"

instance
proof
  fix a b c :: ctype
  show "a < b \<longleftrightarrow> a \<le> b \<and> \<not> b \<le> a"
    unfolding less_eq_ctype_def less_ctype_def by (rule less_le_not_le)
  show "a \<le> a"
    by (simp add: less_eq_ctype_def)
  show "a \<le> b \<Longrightarrow> b \<le> c \<Longrightarrow> a \<le> c"
    unfolding less_eq_ctype_def by (rule order_trans)
  show "a \<le> b \<Longrightarrow> b \<le> a \<Longrightarrow> a = b"
    unfolding less_eq_ctype_def by (metis ctype_name_eq_iff order_antisym)
  show "a \<le> b \<or> b \<le> a"
    by (auto simp: less_eq_ctype_def)
qed

end

datatype json =
    JNull | JBool bool | JNum rat | JStr string | JArr "json list" | JObj "(string \<times> json) list"

fun truthy :: "json \<Rightarrow> bool" where
  "truthy JNull = False"
| "truthy (JBool b) = b"
| "truthy (JNum n) = (n \<noteq> 0)"
| "truthy (JStr s) = (s \<noteq> [])"
| "truthy (JArr xs) = True"
| "truthy (JObj kvs) = True"

subsection \<open>Connections\<close>

record conn =
  c_node :: string
  c_type :: ctype
  c_index :: nat

type_synonym node_inputs = "conn list option list"
type_synonym node_conns = "(ctype, node_inputs) jsmap"
type_synonym conns = "node_conns obj"

record node_connection =
  sourceIndex :: nat
  destinationIndex :: nat

record connected_node =
  cn_name :: string
  cn_indicies :: "nat list"
  cn_depth :: nat

datatype on_error = ContinueErrorOutput | ContinueRegularOutput | StopWorkflow

record credential =
  cr_id :: "string option"
  cr_name :: string

record inode =
  n_id :: string
  n_name :: string
  n_typeVersion :: rat
  n_type :: string
  n_position :: "int \<times> int"
  n_disabled :: "bool option"
  n_retryOnFail :: "bool option"
  n_maxTries :: "int option"
  n_waitBetweenTries :: "int option"
  n_alwaysOutputData :: "bool option"
  n_executeOnce :: "bool option"
  n_onError :: "on_error option"
  n_continueOnFail :: "bool option"
  n_parameters :: "json obj"
  n_credentials :: "credential obj option"
  n_webhookId :: "string option"
  n_rewireOutputLogTo :: "ctype option"
  n_forceCustomOperation :: "(string \<times> string) option"

subsection \<open>Items and task data\<close>

record source_data =
  previousNode :: string
  previousNodeOutput :: "nat option"
  previousNodeRun :: "nat option"

record paired_data =
  pd_item :: nat
  pd_input :: "nat option"
  pd_sourceOverwrite :: "source_data option"

datatype paired_item = POne paired_data | PMany "paired_data list" | PIndex nat

record node_error =
  err_name :: string
  err_message :: string
  err_stack :: string

record item =
  i_json :: "json obj"
  i_error :: "node_error option"
  i_pairedItem :: "paired_item option"
  i_rest :: "json obj"

type_synonym items = "item list"
type_synonym task_conns = "(ctype, items jsval list) jsmap"
type_synonym source_conns = "(ctype, source_data jsval list) jsmap"

record engine_action =
  ea_nodeName :: string
  ea_input :: "json obj"
  ea_type :: ctype
  ea_id :: string
  ea_itemIndex :: "nat option"

record engine_request =
  er_actions :: "engine_action list"
  er_metadata :: json

record sub_node_action =
  sn_nodeName :: string
  sn_runIndex :: nat
  sn_action :: engine_action

record task_metadata =
  tm_subNodeExecutionData :: "(sub_node_action list \<times> json) option"
  tm_preserveSourceOverwrite :: "bool option"
  tm_nodeWasResumed :: "bool option"
  tm_rest :: "json obj"

datatype execution_status =
    Canceled | Crashed | ErrorStatus | NewStatus | Running | Success | UnknownStatus | Waiting

record task_data =
  td_startTime :: int
  td_executionIndex :: "nat option"
  td_source :: "source_data jsval list"
  td_hints :: "string list"
  td_executionTime :: int
  td_executionStatus :: "execution_status option"
  td_data :: "task_conns option"
  td_inputOverride :: "task_conns option"
  td_error :: "node_error option"
  td_metadata :: "task_metadata option"

type_synonym run_data = "task_data list obj"
type_synonym pin_data = "items obj"

record execute_data =
  ed_data :: task_conns
  ed_metadata :: "task_metadata option"
  ed_node :: inode
  ed_source :: "source_conns option"
  ed_runIndex :: "nat option"

type_synonym waiting_execution = "(nat, task_conns) jsmap obj"
type_synonym waiting_source = "(nat, source_conns) jsmap obj"

datatype destination_mode = Inclusive | Exclusive

record destination_node =
  dn_nodeName :: string
  dn_mode :: destination_mode

subsection \<open>Node types\<close>

text \<open>
  What the engine reads of an \<open>INodeType\<close>. Node types come from packages loaded at run time; the
  registry \<open>nodeTypes.getByNameAndVersion\<close> is a field of the workflow.
\<close>

datatype required_inputs = RequiredIndexes "nat list" | RequiredCount nat | RequiredExpression string

datatype node_output = PlainOutput ctype | ConfiguredOutput ctype

record node_type =
  nt_name :: string
  nt_group :: "string list"
  nt_inputs :: "ctype list"
  nt_outputs :: "node_output list"
  nt_requiredInputs :: "required_inputs option"
  nt_requestDefaults :: bool
  nt_execute :: bool
  nt_poll :: bool
  nt_trigger :: bool
  nt_webhook :: bool
  nt_customOperations :: "(string \<times> string) list option"

type_synonym node_types = "string \<Rightarrow> rat \<Rightarrow> node_type option"

end
