(* ===== verification/GraphSearch.thy ===== *)
theory GraphSearch
  imports JsObjects
begin

section \<open>Depth-first search that may throw\<close>

text \<open>
  The traversals of the engine share one shape: a list of pending nodes, a growing set of seen
  ones, and a successor function that asserts that its argument belongs to the graph. The locale
  \<open>err_search\<close> states the two equations of such a traversal and derives, once, what it returns:
  the seen set grows, keeps its distinctness, is closed under successors and holds exactly what
  is reachable; and the traversal ends without an error when every successor call does.
\<close>

subsection \<open>Reachability that avoids a set\<close>

definition avoid :: "('n \<times> 'n) set \<Rightarrow> 'n set \<Rightarrow> ('n \<times> 'n) set" where
  "avoid E S = {(a, b). (a, b) \<in> E \<and> b \<notin> S}"

lemma avoid_mono: "S \<subseteq> T \<Longrightarrow> avoid E T \<subseteq> avoid E S"
  by (auto simp: avoid_def)

lemma avoid_trancl_notin: "(a, b) \<in> (avoid E S)\<^sup>+ \<Longrightarrow> b \<notin> S"
  by (induction rule: trancl.induct) (auto simp: avoid_def)

lemma avoid_empty [simp]: "avoid E {} = E"
  by (auto simp: avoid_def)

lemma avoid_trancl_le: "(a, b) \<in> (avoid E S)\<^sup>+ \<Longrightarrow> (a, b) \<in> E\<^sup>+"
  by (rule trancl_mono) (auto simp: avoid_def)

text \<open>Whatever is reachable is reachable without coming back to the start.\<close>

lemma avoid_start:
  "(a, b) \<in> (avoid E S)\<^sup>+ \<Longrightarrow> b = a \<or> (a, b) \<in> (avoid E (insert a S))\<^sup>+"
proof (induction rule: trancl.induct)
  case (r_into_trancl a b)
  then show ?case by (auto simp: avoid_def)
next
  case (trancl_into_trancl a b c)
  from trancl_into_trancl.hyps(2) have bc: "(b, c) \<in> E" "c \<notin> S" by (auto simp: avoid_def)
  show ?case
  proof (cases "c = a")
    case False
    with bc have "(b, c) \<in> avoid E (insert a S)" by (auto simp: avoid_def)
    with trancl_into_trancl.IH show ?thesis
      by (metis r_into_trancl trancl.trancl_into_trancl)
  qed simp
qed

lemma avoid_unfold:
  "(n, m) \<in> (avoid E S)\<^sup>+ \<longleftrightarrow>
     (\<exists>v. (n, v) \<in> E \<and> v \<notin> S \<and> (m = v \<or> (v, m) \<in> (avoid E (insert v S))\<^sup>+))"
proof
  assume "(n, m) \<in> (avoid E S)\<^sup>+"
  then obtain v where "(n, v) \<in> avoid E S" "m = v \<or> (v, m) \<in> (avoid E S)\<^sup>+"
    by (metis tranclD rtrancl_eq_or_trancl)
  then show "\<exists>v. (n, v) \<in> E \<and> v \<notin> S \<and> (m = v \<or> (v, m) \<in> (avoid E (insert v S))\<^sup>+)"
    using avoid_start by (fastforce simp: avoid_def)
next
  assume "\<exists>v. (n, v) \<in> E \<and> v \<notin> S \<and> (m = v \<or> (v, m) \<in> (avoid E (insert v S))\<^sup>+)"
  then obtain v where v: "(n, v) \<in> avoid E S" and m: "m = v \<or> (v, m) \<in> (avoid E (insert v S))\<^sup>+"
    by (auto simp: avoid_def)
  from m have "m = v \<or> (v, m) \<in> (avoid E S)\<^sup>+"
    using trancl_mono [OF _ avoid_mono [of S "insert v S" E]] by blast
  with v show "(n, m) \<in> (avoid E S)\<^sup>+"
    by (auto intro: trancl_into_trancl2)
qed

lemma chain_subset: "r \<subseteq> r' \<union> A \<Longrightarrow> r' \<subseteq> insert x (s \<union> Y) \<Longrightarrow> Y \<subseteq> X \<Longrightarrow> x \<in> X \<Longrightarrow> r \<subseteq> s \<union> (X \<union> A)"
  by blast

subsection \<open>The traversal\<close>

locale err_search =
  fixes step :: "'n \<Rightarrow> 'e + 'n list"
    and visit :: "'n list \<Rightarrow> 'n list \<Rightarrow> 'e + 'n list"
    and universe :: "'n set"
  assumes finite_universe: "finite universe"
    and step_universe: "step x = Inr ys \<Longrightarrow> set ys \<subseteq> universe"
    and visit_Nil: "visit [] seen = Inr seen"
    and visit_Cons: "visit (x # xs) seen =
      (if x \<in> set seen then visit xs seen
       else bindE (step x) (\<lambda>ys. bindE (visit ys (seen @ [x])) (visit xs)))"
begin

definition succs :: "('n \<times> 'n) set" where
  "succs = {(x, y). \<exists>ys. step x = Inr ys \<and> y \<in> set ys}"

definition measure_of :: "'n list \<times> 'n list \<Rightarrow> nat \<times> nat" where
  "measure_of = (\<lambda>(xs, seen). (card ((universe \<union> set xs) - set seen), length xs))"

lemma visit_induct [case_names Nil Seen New]:
  assumes Nil: "\<And>seen. P [] seen"
    and Seen: "\<And>x xs seen. x \<in> set seen \<Longrightarrow> P xs seen \<Longrightarrow> P (x # xs) seen"
    and New: "\<And>x xs seen. x \<notin> set seen \<Longrightarrow>
      (\<And>ys. step x = Inr ys \<Longrightarrow> P ys (seen @ [x])) \<Longrightarrow>
      (\<And>r. insert x (set seen) \<subseteq> set r \<Longrightarrow> P xs r) \<Longrightarrow> P (x # xs) seen"
  shows "P xs seen"
proof (induction "(xs, seen)" arbitrary: xs seen
    rule: wf_induct [OF wf_inv_image [OF wf_lex_prod [OF wf_less_than wf_less_than]], where f1 = measure_of])
  case 1
  note IH = "1.hyps" [unfolded in_inv_image in_lex_prod measure_of_def, simplified]
  have fin: "finite ((universe \<union> set ys) - set s)" for ys s
    by (simp add: finite_universe)
  show ?case
  proof (cases xs)
    case Nil
    then show ?thesis by (simp add: assms(1))
  next
    case (Cons x xs')
    show ?thesis
    proof (cases "x \<in> set seen")
      case True
      have "card ((universe \<union> set xs') - set seen) \<le> card ((universe \<union> set xs) - set seen)"
        by (rule card_mono [OF fin]) (auto simp: Cons)
      then have "P xs' seen" using IH Cons by (auto simp: le_less)
      with True Cons show ?thesis by (simp add: Seen)
    next
      case False
      have "P ys (seen @ [x])" if "step x = Inr ys" for ys
      proof -
        have "(universe \<union> set ys) - set (seen @ [x]) \<subset> (universe \<union> set xs) - set seen"
          using step_universe [OF that] False Cons by auto
        then show ?thesis using IH psubset_card_mono [OF fin] by auto
      qed
      moreover have "P xs' r" if "insert x (set seen) \<subseteq> set r" for r
      proof -
        have "(universe \<union> set xs') - set r \<subset> (universe \<union> set xs) - set seen"
          using that False Cons by auto
        then show ?thesis using IH psubset_card_mono [OF fin] by auto
      qed
      ultimately show ?thesis using False Cons New by simp
    qed
  qed
qed

lemma visit_grows: "visit xs seen = Inr r \<Longrightarrow> set seen \<union> set xs \<subseteq> set r"
proof (induction xs seen arbitrary: r rule: visit_induct)
  case (New x xs seen)
  from New.prems New.hyps obtain ys r' where
    "step x = Inr ys" "visit ys (seen @ [x]) = Inr r'" "visit xs r' = Inr r"
    by (auto simp: visit_Cons bindE_eq_Inr)
  with New.IH(1) [of ys r'] New.IH(2) [of r' r] show ?case by auto
qed (auto simp: visit_Nil visit_Cons)

lemma visit_distinct: "visit xs seen = Inr r \<Longrightarrow> distinct seen \<Longrightarrow> distinct r"
proof (induction xs seen arbitrary: r rule: visit_induct)
  case (New x xs seen)
  from New.prems New.hyps obtain ys r' where
    *: "step x = Inr ys" "visit ys (seen @ [x]) = Inr r'" "visit xs r' = Inr r"
    by (auto simp: visit_Cons bindE_eq_Inr)
  from New.IH(1) [OF *(1,2)] New.prems New.hyps have "distinct r'" by simp
  with New.IH(2) [OF _ *(3)] visit_grows [OF *(2)] show ?case by auto
qed (auto simp: visit_Nil visit_Cons)

text \<open>Every node added was expanded, and its successors are in the result.\<close>

lemma visit_closed:
  "visit xs seen = Inr r \<Longrightarrow> x \<in> set r - set seen \<Longrightarrow> \<exists>ys. step x = Inr ys \<and> set ys \<subseteq> set r"
proof (induction xs seen arbitrary: r rule: visit_induct)
  case (New z xs seen)
  from New.prems New.hyps obtain ys r' where
    *: "step z = Inr ys" "visit ys (seen @ [z]) = Inr r'" "visit xs r' = Inr r"
    by (auto simp: visit_Cons bindE_eq_Inr)
  note grow = visit_grows [OF *(2)] visit_grows [OF *(3)]
  consider "x \<notin> set r'" | "x = z" | "x \<in> set r' - set (seen @ [z])"
    using New.prems(2) by auto
  then show ?case
  proof cases
    case 1
    with New.IH(2) [OF _ *(3)] New.prems(2) grow show ?thesis by auto
  next
    case 2
    with *(1) grow show ?thesis by auto
  next
    case 3
    with New.IH(1) [OF *(1,2)] grow show ?thesis by auto
  qed
qed (auto simp: visit_Nil visit_Cons)

lemma visit_sound:
  "visit xs seen = Inr r \<Longrightarrow> set r \<subseteq> set seen \<union> succs\<^sup>* `` set xs"
proof (induction xs seen arbitrary: r rule: visit_induct)
  case (New x xs seen)
  from New.prems New.hyps obtain ys r' where
    *: "step x = Inr ys" "visit ys (seen @ [x]) = Inr r'" "visit xs r' = Inr r"
    by (auto simp: visit_Cons bindE_eq_Inr)
  have ys: "succs\<^sup>* `` set ys \<subseteq> succs\<^sup>* `` {x}"
    using *(1) by (auto simp: succs_def intro: converse_rtrancl_into_rtrancl)
  have r': "set r' \<subseteq> insert x (set seen \<union> succs\<^sup>* `` set ys)"
    using New.IH(1) [OF *(1,2)] by simp
  have r: "set r \<subseteq> set r' \<union> succs\<^sup>* `` set xs"
    using New.IH(2) [OF _ *(3)] visit_grows [OF *(2)] by simp
  have "succs\<^sup>* `` set (x # xs) = succs\<^sup>* `` {x} \<union> succs\<^sup>* `` set xs"
    unfolding Image_Un [symmetric] by simp
  then show ?case
    using chain_subset [OF r r' ys ImageI [OF rtrancl.rtrancl_refl singletonI]] by simp
qed (auto simp: visit_Nil visit_Cons)

lemma visit_reachable:
  assumes "visit xs [] = Inr r"
  shows "set r = succs\<^sup>* `` set xs"
proof
  show "set r \<subseteq> succs\<^sup>* `` set xs"
    using visit_sound [OF assms] by simp
  have closed: "y \<in> set r" if "x \<in> set r" "(x, y) \<in> succs" for x y
    using visit_closed [OF assms, of x] that by (auto simp: succs_def)
  have "y \<in> set r" if "(x, y) \<in> succs\<^sup>*" "x \<in> set xs" for x y
    using that
  proof (induction rule: rtrancl_induct)
    case base
    then show ?case using visit_grows [OF assms] by auto
  next
    case (step y z)
    then show ?case using closed by blast
  qed
  then show "succs\<^sup>* `` set xs \<subseteq> set r" by auto
qed

lemma visit_total:
  assumes "\<And>x. x \<in> ok \<Longrightarrow> \<exists>ys. step x = Inr ys \<and> set ys \<subseteq> ok" and "set xs \<subseteq> ok"
  shows "\<exists>r. visit xs seen = Inr r"
  using assms(2)
proof (induction xs seen rule: visit_induct)
  case (New x xs seen)
  from assms(1) [of x] New.prems obtain ys where ys: "step x = Inr ys" "set ys \<subseteq> ok" by auto
  with New.IH(1) obtain r' where r': "visit ys (seen @ [x]) = Inr r'" by auto
  from New.IH(2) [of r'] visit_grows [OF r'] New.prems obtain r where "visit xs r' = Inr r"
    by auto
  with ys r' New.hyps show ?case by (simp add: visit_Cons)
qed (auto simp: visit_Nil visit_Cons)

end

end
