(* ===== verification/Connections.thy ===== *)
theory Connections
  imports Interfaces GraphSearch
begin

section \<open>Workflow connections\<close>

text \<open>
  \<open>packages/workflow/src/common\<close>: the index of the connections by destination, and the node
  searches along connections. A hole of a connection array (\<open>toIConnections\<close> can leave one) and
  a \<open>null\<close> behave alike for every reader, so both are \<open>None\<close>.
\<close>

fun opt_list :: "'a list option \<Rightarrow> 'a list" where
  "opt_list None = []"
| "opt_list (Some xs) = xs"

subsection \<open>mapConnectionsByDestination\<close>

definition push_by_destination :: "string \<Rightarrow> ctype \<Rightarrow> nat \<Rightarrow> conn \<Rightarrow> conns \<Rightarrow> conns" where
  "push_by_destination sourceNode type inputIndex connectionInfo ret =
     (let byType = (case obj_get ret (c_node connectionInfo) of None \<Rightarrow> [] | Some t \<Rightarrow> t);
          slots = (case obj_get byType (c_type connectionInfo) of None \<Rightarrow> [] | Some a \<Rightarrow> a);
          padded = slots @ replicate (Suc (c_index connectionInfo) - length slots) (Some []);
          new = \<lparr>c_node = sourceNode, c_type = type, c_index = inputIndex\<rparr>;
          slots' = padded[c_index connectionInfo :=
                     map_option (\<lambda>cs. cs @ [new]) (padded ! c_index connectionInfo)]
      in obj_set (c_node connectionInfo) (obj_set (c_type connectionInfo) slots' byType) ret)"

definition mapConnectionsByDestination :: "conns \<Rightarrow> conns" where
  "mapConnectionsByDestination connections =
     fold (\<lambda>(sourceNode, byType).
       fold (\<lambda>(type, inputs).
         fold (\<lambda>(inputIndex, cs). fold (push_by_destination sourceNode type inputIndex) (opt_list cs))
           (enumerate 0 inputs)) byType) (obj_entries connections) []"

text \<open>A connection stands at an output (or input) slot of a node.\<close>

definition conn_at :: "conns \<Rightarrow> string \<Rightarrow> ctype \<Rightarrow> nat \<Rightarrow> conn \<Rightarrow> bool" where
  "conn_at C n t i c \<longleftrightarrow>
     (case obj_get C n of None \<Rightarrow> False | Some byType \<Rightarrow>
       (case obj_get byType t of None \<Rightarrow> False | Some slots \<Rightarrow>
         i < length slots \<and> c \<in> set (opt_list (slots ! i))))"

definition wf_conns :: "conns \<Rightarrow> bool" where
  "wf_conns C \<longleftrightarrow> wf_obj C \<and> (\<forall>(n, byType) \<in> set C. wf_obj byType)"

definition conn_tuples :: "conns \<Rightarrow> (string \<times> ctype \<times> nat \<times> conn) list" where
  "conn_tuples C =
     concat (map (\<lambda>(n, byType). concat (map (\<lambda>(t, inputs).
       concat (map (\<lambda>(i, cs). map (\<lambda>c. (n, t, i, c)) (opt_list cs)) (enumerate 0 inputs)))
       byType)) (obj_entries C))"

lemma fold_concat_map: "fold f (concat (map g xs)) = fold (\<lambda>x. fold f (g x)) xs"
  by (induction xs) (simp_all add: fun_eq_iff)

lemma fold_map_fun: "fold f (map g xs) = fold (\<lambda>x. f (g x)) xs"
  by (induction xs) (simp_all add: fun_eq_iff)

lemma in_concat_map: "y \<in> set (concat (map f xs)) \<longleftrightarrow> (\<exists>x \<in> set xs. y \<in> set (f x))"
  by auto

lemma mapConnectionsByDestination_tuples:
  "mapConnectionsByDestination C = fold (\<lambda>(n, t, i, c). push_by_destination n t i c) (conn_tuples C) []"
proof -
  have "fold (\<lambda>(n, t, i, c). push_by_destination n t i c) (conn_tuples C) R =
     fold (\<lambda>(sourceNode, byType).
       fold (\<lambda>(type, inputs).
         fold (\<lambda>(inputIndex, cs). fold (push_by_destination sourceNode type inputIndex) (opt_list cs))
           (enumerate 0 inputs)) byType) (obj_entries C) R" for R
    unfolding conn_tuples_def
    by (simp add: fold_concat_map fold_map_fun case_prod_beta' split_def)
  then show ?thesis by (simp add: mapConnectionsByDestination_def)
qed

lemma conn_tuples_iff:
  assumes "wf_conns C"
  shows "(n, t, i, c) \<in> set (conn_tuples C) \<longleftrightarrow> conn_at C n t i c"
proof -
  have inner: "wf_obj byType" if "(n, byType) \<in> set C" for byType
    using assms that by (auto simp: wf_conns_def)
  have "(n, t, i, c) \<in> set (conn_tuples C) \<longleftrightarrow>
    (\<exists>byType slots. (n, byType) \<in> set C \<and> (t, slots) \<in> set byType \<and> i < length slots
       \<and> c \<in> set (opt_list (slots ! i)))"
    unfolding conn_tuples_def in_concat_map by (fastforce simp: in_set_enumerate_eq)
  also have "\<dots> \<longleftrightarrow> conn_at C n t i c"
    using assms inner
    by (fastforce simp: conn_at_def obj_mem_iff wf_conns_def split: option.splits)
  finally show ?thesis .
qed

lemma wf_push: "wf_conns R \<Longrightarrow> wf_conns (push_by_destination n t i c R)"
proof -
  assume wf: "wf_conns R"
  then have "wf_obj (case obj_get R (c_node c) of None \<Rightarrow> [] | Some x \<Rightarrow> x)"
    by (auto simp: wf_conns_def dest: obj_get_mem split: option.splits)
  with wf show ?thesis
    by (auto simp: wf_conns_def push_by_destination_def Let_def set_obj_set)
qed

text \<open>No slot of the index is \<open>null\<close>, so the optional chaining of the push never skips.\<close>

definition no_null :: "conns \<Rightarrow> bool" where
  "no_null R \<longleftrightarrow> (\<forall>n byType t slots. obj_get R n = Some byType \<longrightarrow> obj_get byType t = Some slots
     \<longrightarrow> None \<notin> set slots)"

lemma no_null_push:
  assumes "no_null R"
  shows "no_null (push_by_destination n t i c R)"
proof -
  define byType where "byType = (case obj_get R (c_node c) of None \<Rightarrow> [] | Some x \<Rightarrow> x)"
  define slots where "slots = (case obj_get byType (c_type c) of None \<Rightarrow> [] | Some x \<Rightarrow> x)"
  define padded where "padded = slots @ replicate (Suc (c_index c) - length slots) (Some [])"
  have byT: "None \<notin> set s" if "obj_get byType t' = Some s" for t' s
    using assms that by (auto simp: byType_def no_null_def split: option.splits)
  have "None \<notin> set slots"
    using byT by (auto simp: slots_def split: option.splits)
  then have "None \<notin> set padded"
    by (auto simp: padded_def)
  moreover have "c_index c < length padded"
    by (simp add: padded_def)
  ultimately have "padded ! c_index c \<noteq> None"
    by (metis nth_mem)
  then have "None \<notin> set (padded[c_index c := map_option (\<lambda>cs. cs @ [x]) (padded ! c_index c)])" for x
    using \<open>None \<notin> set padded\<close> by (auto dest!: set_update_subset_insert [THEN subsetD])
  with byT assms show ?thesis
    unfolding no_null_def push_by_destination_def Let_def byType_def [symmetric] slots_def [symmetric]
      padded_def [symmetric]
    by (auto simp: js_simps split: if_splits)
qed

lemma opt_list_map_option: "x \<noteq> None \<Longrightarrow> opt_list (map_option (\<lambda>cs. cs @ [c]) x) = opt_list x @ [c]"
  by (cases x) auto

lemma conn_at_push:
  assumes "no_null R"
  shows "conn_at (push_by_destination n t i c R) a s j d \<longleftrightarrow>
    conn_at R a s j d
    \<or> (a = c_node c \<and> s = c_type c \<and> j = c_index c \<and> d = \<lparr>c_node = n, c_type = t, c_index = i\<rparr>)"
proof -
  define byType where "byType = (case obj_get R (c_node c) of None \<Rightarrow> [] | Some x \<Rightarrow> x)"
  define slots where "slots = (case obj_get byType (c_type c) of None \<Rightarrow> [] | Some x \<Rightarrow> x)"
  define padded where "padded = slots @ replicate (Suc (c_index c) - length slots) (Some [])"
  define new where "new = \<lparr>c_node = n, c_type = t, c_index = i\<rparr>"
  have len: "c_index c < length padded" by (simp add: padded_def)
  have "None \<notin> set slots"
    using assms by (auto simp: slots_def byType_def no_null_def split: option.splits)
  then have "None \<notin> set padded"
    by (auto simp: padded_def)
  then have nn: "padded ! c_index c \<noteq> None"
    using nth_mem [OF len] by metis
  have mem: "j < length (padded[c_index c := map_option (\<lambda>cs. cs @ [new]) (padded ! c_index c)])
      \<and> d \<in> set (opt_list (padded[c_index c := map_option (\<lambda>cs. cs @ [new]) (padded ! c_index c)] ! j))
    \<longleftrightarrow> (j < length slots \<and> d \<in> set (opt_list (slots ! j))) \<or> (j = c_index c \<and> d = new)" for j
    using len nn
    by (auto simp: nth_list_update opt_list_map_option padded_def nth_append split: if_splits)
  have slots: "j < length slots \<and> d \<in> set (opt_list (slots ! j)) \<longleftrightarrow> conn_at R (c_node c) (c_type c) j d" for j
    by (auto simp: slots_def byType_def conn_at_def split: option.splits)
  show ?thesis
  proof (cases "a = c_node c \<and> s = c_type c")
    case True
    then show ?thesis
      using mem [of j] slots [of j]
      unfolding push_by_destination_def Let_def byType_def [symmetric] slots_def [symmetric]
        padded_def [symmetric] new_def [symmetric]
      by (simp add: conn_at_def [of "obj_set x y R" for x y] js_simps)
  next
    case False
    then show ?thesis
      by (auto simp: conn_at_def push_by_destination_def Let_def js_simps split: option.splits)
  qed
qed

lemma fold_push_wf:
  "no_null R \<Longrightarrow> wf_conns R \<Longrightarrow> wf_conns (fold (\<lambda>(n, t, i, c). push_by_destination n t i c) xs R)"
  by (induction xs arbitrary: R) (auto simp: no_null_push wf_push)

lemma fold_push_conn_at:
  assumes "no_null R"
  shows "conn_at (fold (\<lambda>(n, t, i, c). push_by_destination n t i c) xs R) a s j d \<longleftrightarrow>
      conn_at R a s j d
      \<or> (c_node d, c_type d, c_index d, \<lparr>c_node = a, c_type = s, c_index = j\<rparr>) \<in> set xs"
  using assms
proof (induction xs arbitrary: R)
  case (Cons x xs)
  obtain n t i c where x: "x = (n, t, i, c)" by (cases x)
  have "d = \<lparr>c_node = n, c_type = t, c_index = i\<rparr> \<and> a = c_node c \<and> s = c_type c \<and> j = c_index c
      \<longleftrightarrow> (c_node d, c_type d, c_index d, \<lparr>c_node = a, c_type = s, c_index = j\<rparr>) = x"
    unfolding x by (cases c; cases d) auto
  with Cons.IH [OF no_null_push [OF Cons.prems, of n t i c]]
    conn_at_push [OF Cons.prems, of n t i c a s j d]
  show ?case by (auto simp: x)
qed simp

lemma no_null_Nil [simp]: "no_null []"
  by (simp add: no_null_def)

lemma wf_conns_Nil [simp]: "wf_conns []"
  by (simp add: wf_conns_def)

lemma wf_mapConnectionsByDestination: "wf_conns (mapConnectionsByDestination C)"
  by (simp add: mapConnectionsByDestination_tuples fold_push_wf)

lemma conn_at_Nil [simp]: "\<not> conn_at [] n t i c"
  by (simp add: conn_at_def)

text \<open>The index by destination holds exactly the reversed connections.\<close>

lemma conn_at_mapConnectionsByDestination:
  assumes "wf_conns C"
  shows "conn_at (mapConnectionsByDestination C) a s j d \<longleftrightarrow>
    conn_at C (c_node d) (c_type d) (c_index d) \<lparr>c_node = a, c_type = s, c_index = j\<rparr>"
  by (simp add: mapConnectionsByDestination_tuples fold_push_conn_at conn_tuples_iff [OF assms])

end
