(* ===== verification/ConnectedNodes.thy ===== *)
theory ConnectedNodes
  imports Connections
begin

section \<open>Searches along connections\<close>

text \<open>
  \<open>getConnectedNodes\<close> and its two wrappers, over the connections by source or by destination.
  The recursion carries the nodes of the current path; it ends because each level adds a node
  that has connections. A depth of \<open>-1\<close> is no limit.
\<close>

datatype conn_selector = OfType ctype | AllTypes | AllNonMain

fun selected_types :: "conn_selector \<Rightarrow> node_conns \<Rightarrow> ctype list" where
  "selected_types AllTypes byType = map fst byType"
| "selected_types AllNonMain byType = filter (\<lambda>t. t \<noteq> Main) (map fst byType)"
| "selected_types (OfType t) byType = [t]"

text \<open>A found node moves to the front of the result.\<close>

definition move_to_front :: "string \<Rightarrow> string list \<Rightarrow> string list" where
  "move_to_front name returnNodes = name # remove1 name returnNodes"

lemma keys_shrink:
  "obj_get C n = Some x \<Longrightarrow> n \<notin> S \<Longrightarrow> fst ` set C - insert n S \<subset> fst ` set C - S"
  by (force dest: obj_get_mem)

function getConnectedNodes ::
    "conns \<Rightarrow> string \<Rightarrow> conn_selector \<Rightarrow> int \<Rightarrow> string list \<Rightarrow> string list" where
  "getConnectedNodes connections nodeName connectionType depth checkedIncoming =
     (if depth = 0 then []
      else case obj_get connections nodeName of None \<Rightarrow> []
      | Some byType \<Rightarrow>
          fold (\<lambda>type returnNodes.
            case obj_get byType type of None \<Rightarrow> returnNodes
            | Some slots \<Rightarrow>
                if nodeName \<in> set checkedIncoming then returnNodes
                else fold (\<lambda>connection returnNodes.
                    if c_node connection \<in> set (checkedIncoming @ [nodeName]) then returnNodes
                    else fold move_to_front
                      (rev (getConnectedNodes connections (c_node connection) connectionType
                        (if depth = -1 then depth else depth - 1) (checkedIncoming @ [nodeName])))
                      (c_node connection # returnNodes))
                  (concat (map opt_list slots)) returnNodes)
          (selected_types connectionType byType) [])"
  by pat_completeness auto
termination
  by (relation "measure (\<lambda>(C, n, sel, d, checked). card (set (map fst C) - set checked))")
    (auto intro!: psubset_card_mono keys_shrink split: if_splits)

declare getConnectedNodes.simps [simp del]

definition getChildNodes :: "conns \<Rightarrow> string \<Rightarrow> conn_selector \<Rightarrow> int \<Rightarrow> string list" where
  "getChildNodes connectionsBySourceNode nodeName type depth =
     getConnectedNodes connectionsBySourceNode nodeName type depth []"

definition getParentNodes :: "conns \<Rightarrow> string \<Rightarrow> conn_selector \<Rightarrow> int \<Rightarrow> string list" where
  "getParentNodes connectionsByDestinationNode nodeName type depth =
     getConnectedNodes connectionsByDestinationNode nodeName type depth []"

definition getNodeByName :: "inode list + inode obj \<Rightarrow> string \<Rightarrow> inode option" where
  "getNodeByName nodes name =
     (case nodes of Inl ns \<Rightarrow> find (\<lambda>n. n_name n = name) ns | Inr o' \<Rightarrow> obj_get o' name)"

subsection \<open>What a search finds\<close>

definition edges :: "conn_selector \<Rightarrow> conns \<Rightarrow> (string \<times> string) set" where
  "edges sel C = {(a, b). \<exists>byType t slots c. obj_get C a = Some byType \<and> t \<in> set (selected_types sel byType)
     \<and> obj_get byType t = Some slots \<and> c \<in> set (concat (map opt_list slots)) \<and> c_node c = b}"

lemma set_move_to_front [simp]: "set (move_to_front x xs) = insert x (set xs)"
  by (cases "x \<in> set xs") (auto simp: move_to_front_def dest: notin_set_remove1 in_set_remove1 [THEN iffD2, rotated])

lemma set_fold_move_to_front [simp]: "set (fold move_to_front xs ys) = set xs \<union> set ys"
  by (induction xs arbitrary: ys) auto

lemma set_fold_union:
  "(\<And>x s. x \<in> set xs \<Longrightarrow> set (f x s) = F x \<union> set s) \<Longrightarrow> set (fold f xs s) = (\<Union>x \<in> set xs. F x) \<union> set s"
proof (induction xs arbitrary: s)
  case (Cons x xs)
  have "set (fold f xs (f x s)) = (\<Union>x \<in> set xs. F x) \<union> set (f x s)"
    using Cons.prems by (intro Cons.IH) simp
  then show ?case using Cons.prems [of x s] by auto
qed simp

lemma in_UN_option:
  "x \<in> (\<Union>t \<in> A. case f t of None \<Rightarrow> {} | Some s \<Rightarrow> H s) \<longleftrightarrow> (\<exists>t \<in> A. \<exists>s. f t = Some s \<and> x \<in> H s)"
  by (force split: option.splits)

lemma edges_iff:
  "obj_get C n = Some byType \<Longrightarrow> (n, b) \<in> edges sel C \<longleftrightarrow>
    (\<exists>t \<in> set (selected_types sel byType). \<exists>slots. obj_get byType t = Some slots
       \<and> (\<exists>c \<in> set (concat (map opt_list slots)). c_node c = b))"
  by (auto simp: edges_def)

lemma edges_None: "obj_get C n = None \<Longrightarrow> (n, b) \<notin> edges sel C"
  by (auto simp: edges_def)

lemma set_getConnectedNodes:
  "n \<notin> set checked \<Longrightarrow>
   set (getConnectedNodes C n sel (-1) checked) = {m. (n, m) \<in> (avoid (edges sel C) (insert n (set checked)))\<^sup>+}"
proof (induction C n sel "-1 :: int" checked rule: getConnectedNodes.induct)
  case (1 C n sel checked)
  let ?S = "insert n (set checked)"
  define R where "R v = {m. (v, m) \<in> (avoid (edges sel C) (insert v ?S))\<^sup>+}" for v
  show ?case
  proof (cases "obj_get C n")
    case None
    then show ?thesis
      by (subst getConnectedNodes.simps) (auto simp: avoid_unfold [of n] edges_None)
  next
    case (Some byType)
    have rec: "set (getConnectedNodes C (c_node c) sel (-1) (checked @ [n])) = R (c_node c)"
      if "t \<in> set (selected_types sel byType)" "obj_get byType t = Some slots"
        "c \<in> set (concat (map opt_list slots))" "c_node c \<notin> ?S" for t slots c
      using "1.hyps" [OF _ Some that(1,2) _ that(3)] that(4) "1.prems"
      by (simp add: R_def Un_insert_right insert_commute)
    define G where "G (c :: conn) = (if c_node c \<in> ?S then {} else insert (c_node c) (R (c_node c)))" for c
    define inner where "inner = (\<lambda>(c :: conn) ret. if c_node c \<in> set (checked @ [n]) then ret
      else fold move_to_front (rev (getConnectedNodes C (c_node c) sel (-1) (checked @ [n]))) (c_node c # ret))"
    have "set (fold inner (concat (map opt_list slots)) ret) = (\<Union>c \<in> set (concat (map opt_list slots)). G c) \<union> set ret"
      if "t \<in> set (selected_types sel byType)" "obj_get byType t = Some slots" for t slots ret
    proof (rule set_fold_union)
      fix c ret assume c: "c \<in> set (concat (map opt_list slots))"
      show "set (inner c ret) = G c \<union> set ret"
        using rec [OF that c] by (auto simp: inner_def G_def simp del: set_concat)
    qed
    then have "set (fold (\<lambda>t ret. case obj_get byType t of None \<Rightarrow> ret
          | Some slots \<Rightarrow> fold inner (concat (map opt_list slots)) ret) (selected_types sel byType) []) =
        (\<Union>t \<in> set (selected_types sel byType). case obj_get byType t of None \<Rightarrow> {}
          | Some slots \<Rightarrow> \<Union>c \<in> set (concat (map opt_list slots)). G c) \<union> set []"
      by (intro set_fold_union) (auto split: option.splits)
    moreover have "getConnectedNodes C n sel (-1) checked =
        fold (\<lambda>t ret. case obj_get byType t of None \<Rightarrow> ret
          | Some slots \<Rightarrow> fold inner (concat (map opt_list slots)) ret) (selected_types sel byType) []"
      using Some "1.prems" by (subst getConnectedNodes.simps) (simp add: inner_def cong: option.case_cong)
    ultimately have "set (getConnectedNodes C n sel (-1) checked) =
        (\<Union>t \<in> set (selected_types sel byType). case obj_get byType t of None \<Rightarrow> {}
          | Some slots \<Rightarrow> \<Union>c \<in> set (concat (map opt_list slots)). G c)"
      by simp
    then have "m \<in> set (getConnectedNodes C n sel (-1) checked) \<longleftrightarrow>
        (\<exists>t \<in> set (selected_types sel byType). \<exists>slots. obj_get byType t = Some slots
          \<and> (\<exists>c \<in> set (concat (map opt_list slots)). m \<in> G c))" for m
      by (simp only: in_UN_option) (simp del: set_concat)
    moreover have "m \<in> G c \<longleftrightarrow> c_node c \<notin> ?S \<and> (m = c_node c \<or> m \<in> R (c_node c))" for m c
      by (simp add: G_def)
    ultimately have "m \<in> set (getConnectedNodes C n sel (-1) checked) \<longleftrightarrow>
        (\<exists>v. (n, v) \<in> edges sel C \<and> v \<notin> ?S \<and> (m = v \<or> m \<in> R v))" for m
      unfolding edges_iff [OF Some] by (simp del: set_concat) blast
    then show ?thesis
      unfolding avoid_unfold [of n] by (simp add: R_def set_eq_iff)
  qed
qed

text \<open>With no depth limit the search finds the nodes reachable from the start, except the start.\<close>

lemma getConnectedNodes_reachable:
  "set (getConnectedNodes C n sel (-1) []) = {m. m \<noteq> n \<and> (n, m) \<in> (edges sel C)\<^sup>+}"
proof -
  have "(n, m) \<in> (avoid (edges sel C) {n})\<^sup>+ \<longleftrightarrow> m \<noteq> n \<and> (n, m) \<in> (edges sel C)\<^sup>+" for m
    using avoid_start [of n m "edges sel C" "{}"] avoid_trancl_notin [of n m "edges sel C" "{n}"]
      avoid_trancl_le [of n m "edges sel C" "{n}"] by auto
  then show ?thesis by (simp add: set_getConnectedNodes)
qed

lemma getConnectedNodes_depth_0 [simp]: "getConnectedNodes C n sel 0 checked = []"
  by (subst getConnectedNodes.simps) simp

lemma getParentNodes_reachable:
  "set (getParentNodes C n sel (-1)) = {m. m \<noteq> n \<and> (n, m) \<in> (edges sel C)\<^sup>+}"
  by (simp add: getParentNodes_def getConnectedNodes_reachable)

lemma getChildNodes_reachable:
  "set (getChildNodes C n sel (-1)) = {m. m \<noteq> n \<and> (n, m) \<in> (edges sel C)\<^sup>+}"
  by (simp add: getChildNodes_def getConnectedNodes_reachable)

end
