(* ===== verification/WorkflowModel.thy ===== *)
theory WorkflowModel
  imports ConnectedNodes
begin

section \<open>The Workflow class\<close>

text \<open>
  \<open>packages/workflow/src/workflow.ts\<close>: the workflow's state and its graph queries. The registry
  of node types is a field, as in the class. \<open>NodeHelpers.getNodeParameters\<close>, which fills in
  parameter defaults, and the rewriting of node references inside one string
  (\<open>applyAccessPatterns\<close>) are arguments of the definitions that call them.
\<close>

record workflow =
  w_id :: string
  w_name :: "string option"
  w_nodes :: "inode obj"
  w_connectionsBySourceNode :: conns
  w_connectionsByDestinationNode :: conns
  w_nodeTypes :: node_types
  w_active :: bool
  w_settings :: "json obj"
  w_pinData :: "pin_data option"

record workflow_parameters =
  wp_id :: string
  wp_name :: "string option"
  wp_nodes :: "inode list"
  wp_connections :: conns
  wp_active :: bool
  wp_nodeTypes :: node_types
  wp_settings :: "json obj option"
  wp_pinData :: "pin_data option"

definition setNodes :: "inode list \<Rightarrow> workflow \<Rightarrow> workflow" where
  "setNodes ns w = w\<lparr>w_nodes := fold (\<lambda>n. obj_set (n_name n) n) ns []\<rparr>"

definition setConnections :: "conns \<Rightarrow> workflow \<Rightarrow> workflow" where
  "setConnections C w = w\<lparr>w_connectionsBySourceNode := C,
     w_connectionsByDestinationNode := mapConnectionsByDestination C\<rparr>"

definition setPinData :: "pin_data option \<Rightarrow> workflow \<Rightarrow> workflow" where
  "setPinData p w = w\<lparr>w_pinData := p\<rparr>"

definition setSettings :: "json obj \<Rightarrow> workflow \<Rightarrow> workflow" where
  "setSettings s w = w\<lparr>w_settings := s\<rparr>"

text \<open>The constructor: defaults for the nodes of a known type, then the setters.\<close>

definition withDefaults ::
    "(node_type \<Rightarrow> inode \<Rightarrow> json obj option) \<Rightarrow> node_types \<Rightarrow> inode \<Rightarrow> inode" where
  "withDefaults getNodeParameters nodeTypes node =
     (case nodeTypes (n_type node) (n_typeVersion node) of
        None \<Rightarrow> node
      | Some nodeType \<Rightarrow>
          node\<lparr>n_parameters := (case getNodeParameters nodeType node of None \<Rightarrow> [] | Some p \<Rightarrow> p)\<rparr>)"

definition newWorkflow ::
    "(node_type \<Rightarrow> inode \<Rightarrow> json obj option) \<Rightarrow> workflow_parameters \<Rightarrow> workflow" where
  "newWorkflow getNodeParameters ps =
     setSettings (case wp_settings ps of None \<Rightarrow> [] | Some s \<Rightarrow> s)
      (setPinData (wp_pinData ps)
       (setConnections (wp_connections ps)
        (setNodes (map (withDefaults getNodeParameters (wp_nodeTypes ps)) (wp_nodes ps))
          \<lparr>w_id = wp_id ps, w_name = wp_name ps, w_nodes = [], w_connectionsBySourceNode = [],
           w_connectionsByDestinationNode = [], w_nodeTypes = wp_nodeTypes ps,
           w_active = wp_active ps, w_settings = [], w_pinData = None\<rparr>)))"

definition isLegacyExecutionOrder :: "workflow \<Rightarrow> bool" where
  "isLegacyExecutionOrder w \<longleftrightarrow> obj_get (w_settings w) ''executionOrder'' \<noteq> Some (JStr ''v1'')"

subsection \<open>Queries over the nodes\<close>

definition queryNodes :: "workflow \<Rightarrow> (node_type \<Rightarrow> bool) \<Rightarrow> inode list" where
  "queryNodes w checkFunction =
     fold (\<lambda>nodeName returnNodes.
       case obj_get (w_nodes w) nodeName of None \<Rightarrow> returnNodes
       | Some node \<Rightarrow>
           if n_disabled node = Some True then returnNodes
           else case w_nodeTypes w (n_type node) (n_typeVersion node) of
                  None \<Rightarrow> returnNodes
                | Some nodeType \<Rightarrow> if checkFunction nodeType then returnNodes @ [node] else returnNodes)
       (obj_keys (w_nodes w)) []"

definition getTriggerNodes :: "workflow \<Rightarrow> inode list" where
  "getTriggerNodes w = queryNodes w nt_trigger"

definition getPollNodes :: "workflow \<Rightarrow> inode list" where
  "getPollNodes w = queryNodes w nt_poll"

definition getNode :: "workflow \<Rightarrow> string \<Rightarrow> inode option" where
  "getNode w nodeName = obj_get (w_nodes w) nodeName"

definition getNodes :: "workflow \<Rightarrow> string list \<Rightarrow> inode list" where
  "getNodes w nodeNames = List.map_filter (getNode w) nodeNames"

definition getPinDataOfNode :: "workflow \<Rightarrow> string \<Rightarrow> items option" where
  "getPinDataOfNode w nodeName = (case w_pinData w of None \<Rightarrow> None | Some p \<Rightarrow> obj_get p nodeName)"

definition main_inputs :: "conns \<Rightarrow> string \<Rightarrow> node_inputs option" where
  "main_inputs C nodeName =
     (case obj_get C nodeName of None \<Rightarrow> None | Some byType \<Rightarrow> obj_get byType Main)"

text \<open>\<open>workflow.getParentNodes\<close> and \<open>workflow.getChildNodes\<close> with their default arguments.\<close>

definition parentNodes :: "workflow \<Rightarrow> string \<Rightarrow> string list" where
  "parentNodes w nodeName = getParentNodes (w_connectionsByDestinationNode w) nodeName (OfType Main) (-1)"

definition childNodes :: "workflow \<Rightarrow> string \<Rightarrow> string list" where
  "childNodes w nodeName = getChildNodes (w_connectionsBySourceNode w) nodeName (OfType Main) (-1)"

subsection \<open>renameNode\<close>

text \<open>
  Two details of the code are kept: \<open>typeof null\<close> is \<open>'object'\<close>, so \<open>null\<close> takes the object
  branch, and the elements of an array are renamed without \<open>hasRenamableContent\<close>.
\<close>

fun renameNodeInParameterValue ::
    "(string \<Rightarrow> string \<Rightarrow> string \<Rightarrow> string) \<Rightarrow> string \<Rightarrow> string \<Rightarrow> bool \<Rightarrow> json \<Rightarrow> json" where
  "renameNodeInParameterValue apply currentName newName renamable (JStr s) =
     (if (s \<noteq> [] \<and> hd s = CHR ''='') \<or> renamable then JStr (apply s currentName newName) else JStr s)"
| "renameNodeInParameterValue apply currentName newName renamable (JArr xs) =
     JArr (map (renameNodeInParameterValue apply currentName newName False) xs)"
| "renameNodeInParameterValue apply currentName newName renamable (JObj kvs) =
     JObj (map (\<lambda>(k, v). (k, renameNodeInParameterValue apply currentName newName renamable v)) kvs)"
| "renameNodeInParameterValue apply currentName newName renamable JNull = JObj []"
| "renameNodeInParameterValue apply currentName newName renamable v = v"

definition restrictedKeys :: "string list" where
  "restrictedKeys = [''hasOwnProperty'', ''isPrototypeOf'', ''propertyIsEnumerable'',
     ''toLocaleString'', ''toString'', ''valueOf'', ''constructor'', ''prototype'', ''__proto__'',
     ''__defineGetter__'', ''__defineSetter__'', ''__lookupGetter__'', ''__lookupSetter__'']"

definition to_lower_char :: "char \<Rightarrow> char" where
  "to_lower_char c = (if 65 \<le> (of_char c :: nat) \<and> (of_char c :: nat) \<le> 90 then char_of (of_char c + 32 :: nat) else c)"

definition to_lower :: "string \<Rightarrow> string" where
  "to_lower s = map to_lower_char s"

definition is_restricted_name :: "string \<Rightarrow> bool" where
  "is_restricted_name newName \<longleftrightarrow> to_lower newName \<in> set (map to_lower restrictedKeys)"

definition codeNodeTypes :: "string list" where
  "codeNodeTypes = [''n8n-nodes-base.code'', ''n8n-nodes-base.function'',
     ''n8n-nodes-base.functionItem'', ''n8n-nodes-base.aiTransform'']"

definition formNodeTypes :: "string list" where
  "formNodeTypes = [''n8n-nodes-base.form'']"

definition htmlNodeTypes :: "string list" where
  "htmlNodeTypes = [''n8n-nodes-base.mailgun'', ''n8n-nodes-base.html'']"

definition rename_field :: "(json \<Rightarrow> json) \<Rightarrow> string \<Rightarrow> json obj \<Rightarrow> json obj" where
  "rename_field f key ps =
     (case obj_get ps key of None \<Rightarrow> ps | Some v \<Rightarrow> obj_set key (f v) ps)"

text \<open>\<open>renameFormFields\<close>: the \<open>html\<close> of the form fields of type \<open>html\<close>.\<close>

fun renameFormField :: "(json \<Rightarrow> json) \<Rightarrow> json \<Rightarrow> json" where
  "renameFormField f (JObj kvs) =
     (if obj_get kvs ''fieldType'' = Some (JStr ''html'') then JObj (rename_field f ''html'' kvs)
      else JObj kvs)"
| "renameFormField f v = v"

definition renameFormFields :: "(json \<Rightarrow> json) \<Rightarrow> json obj \<Rightarrow> json obj" where
  "renameFormFields f ps =
     (case obj_get ps ''formFields'' of
        Some (JObj ff) \<Rightarrow>
          (case obj_get ff ''values'' of
             Some (JArr vs) \<Rightarrow>
               obj_set ''formFields'' (JObj (obj_set ''values'' (JArr (map (renameFormField f) vs)) ff)) ps
           | _ \<Rightarrow> ps)
      | _ \<Rightarrow> ps)"

definition renameInNode ::
    "(string \<Rightarrow> string \<Rightarrow> string \<Rightarrow> string) \<Rightarrow> string \<Rightarrow> string \<Rightarrow> inode \<Rightarrow> inode" where
  "renameInNode apply currentName newName node =
     (let f = renameNodeInParameterValue apply currentName newName True;
          ps0 = map (\<lambda>(k, v). (k, renameNodeInParameterValue apply currentName newName False v))
                  (n_parameters node);
          ps1 = (if n_type node \<in> set codeNodeTypes then rename_field f ''jsCode'' ps0 else ps0);
          ps2 = (if n_type node \<in> set htmlNodeTypes then rename_field f ''html'' ps1 else ps1);
          ps3 = (if n_type node \<in> set formNodeTypes then renameFormFields f ps2 else ps2)
      in node\<lparr>n_parameters := ps3\<rparr>)"

definition renameTarget :: "string \<Rightarrow> string \<Rightarrow> conn \<Rightarrow> conn" where
  "renameTarget currentName newName c = (if c_node c = currentName then c\<lparr>c_node := newName\<rparr> else c)"

definition renameTargets :: "string \<Rightarrow> string \<Rightarrow> conns \<Rightarrow> conns" where
  "renameTargets currentName newName C =
     map (\<lambda>(n, byType). (n, map (\<lambda>(t, slots).
       (t, map (map_option (map (renameTarget currentName newName))) slots)) byType)) C"

definition move_key :: "string \<Rightarrow> string \<Rightarrow> 'v obj \<Rightarrow> 'v obj" where
  "move_key currentName newName o' =
     (case obj_get o' currentName of None \<Rightarrow> o'
      | Some v \<Rightarrow> obj_del currentName (obj_set newName v o'))"

definition renameNode ::
    "(string \<Rightarrow> string \<Rightarrow> string \<Rightarrow> string) \<Rightarrow> string \<Rightarrow> string \<Rightarrow> workflow \<Rightarrow> js_error + workflow" where
  "renameNode apply currentName newName w =
     (if is_restricted_name newName then Inl (UserError ''restricted name'')
      else
        let moved = (case obj_get (w_nodes w) currentName of None \<Rightarrow> w_nodes w
              | Some node \<Rightarrow> obj_del currentName (obj_set newName (node\<lparr>n_name := newName\<rparr>) (w_nodes w)));
            renamed = map (\<lambda>(k, node). (k, renameInNode apply currentName newName node)) moved
        in Inr (w\<lparr>w_nodes := renamed,
             w_connectionsBySourceNode :=
               renameTargets currentName newName (move_key currentName newName (w_connectionsBySourceNode w))\<rparr>))"

end
