(* ===== verification/DirectedGraph.thy ===== *)
theory DirectedGraph
  imports WorkflowModel
begin

section \<open>The DirectedGraph class\<close>

text \<open>
  \<open>partial-execution-utils/directed-graph.ts\<close>: nodes and connections in two \<open>Map\<close>s, the second
  one keyed by a string made of the connection's parts. A recursive method that runs over the
  connections of a node is one function over the list still to be visited. Sets of nodes and of
  connections are distinct lists in insertion order.
\<close>

record gconn =
  g_from :: inode
  g_to :: inode
  g_type :: ctype
  g_out :: nat
  g_in :: nat

record dgraph =
  g_nodes :: "(string, inode) jsmap"
  g_conns :: "(string, gconn) jsmap"

definition emptyGraph :: dgraph where
  "emptyGraph = \<lparr>g_nodes = [], g_conns = []\<rparr>"

definition hasNode :: "dgraph \<Rightarrow> string \<Rightarrow> bool" where
  "hasNode g nodeName = obj_has nodeName (g_nodes g)"

definition getNodesByNames :: "dgraph \<Rightarrow> string list \<Rightarrow> inode list" where
  "getNodesByNames g names = mk_set (List.map_filter (obj_get (g_nodes g)) names)"

definition graph_nodes :: "dgraph \<Rightarrow> inode list" where
  "graph_nodes g = map snd (g_nodes g)"

definition graph_conns :: "dgraph \<Rightarrow> gconn list" where
  "graph_conns g = map snd (g_conns g)"

definition getConnections :: "dgraph \<Rightarrow> inode option \<Rightarrow> gconn list" where
  "getConnections g filterTo =
     filter (\<lambda>c. case filterTo of None \<Rightarrow> True | Some n \<Rightarrow> g_to c = n) (graph_conns g)"

definition makeKey :: "gconn \<Rightarrow> string" where
  "makeKey c = n_name (g_from c) @ ''-'' @ ctype_name (g_type c) @ ''-'' @ nat_str (g_out c)
     @ ''-'' @ nat_str (g_in c) @ ''-'' @ n_name (g_to c)"

definition addNode :: "inode \<Rightarrow> dgraph \<Rightarrow> dgraph" where
  "addNode node g = g\<lparr>g_nodes := obj_set (n_name node) node (g_nodes g)\<rparr>"

definition addNodes :: "inode list \<Rightarrow> dgraph \<Rightarrow> dgraph" where
  "addNodes ns g = fold addNode ns g"

definition node_exists :: "dgraph \<Rightarrow> inode \<Rightarrow> bool" where
  "node_exists g node \<longleftrightarrow> obj_get (g_nodes g) (n_name node) = Some node"

definition set_conn :: "gconn \<Rightarrow> dgraph \<Rightarrow> dgraph" where
  "set_conn c g = g\<lparr>g_conns := obj_set (makeKey c) c (g_conns g)\<rparr>"

definition addConnection ::
    "inode \<Rightarrow> inode \<Rightarrow> ctype option \<Rightarrow> nat option \<Rightarrow> nat option \<Rightarrow> dgraph \<Rightarrow> js_error + dgraph" where
  "addConnection from' to type outputIndex inputIndex g =
     bindE (assertE (node_exists g from')) (\<lambda>_.
     bindE (assertE (node_exists g to)) (\<lambda>_.
       Inr (set_conn \<lparr>g_from = from', g_to = to,
         g_type = (case type of None \<Rightarrow> Main | Some t \<Rightarrow> t),
         g_out = (case outputIndex of None \<Rightarrow> 0 | Some i \<Rightarrow> i),
         g_in = (case inputIndex of None \<Rightarrow> 0 | Some i \<Rightarrow> i)\<rparr> g)))"

definition addConnections :: "gconn list \<Rightarrow> dgraph \<Rightarrow> js_error + dgraph" where
  "addConnections cs g =
     foldE (\<lambda>c. addConnection (g_from c) (g_to c) (Some (g_type c)) (Some (g_out c)) (Some (g_in c))) cs g"

definition getDirectChildConnections :: "dgraph \<Rightarrow> inode \<Rightarrow> js_error + gconn list" where
  "getDirectChildConnections g node =
     bindE (assertE (node_exists g node)) (\<lambda>_. Inr (filter (\<lambda>c. g_from c = node) (graph_conns g)))"

definition getDirectParentConnections :: "dgraph \<Rightarrow> inode \<Rightarrow> js_error + gconn list" where
  "getDirectParentConnections g node =
     bindE (assertE (node_exists g node)) (\<lambda>_. Inr (filter (\<lambda>c. g_to c = node) (graph_conns g)))"

definition getConnection :: "dgraph \<Rightarrow> inode \<Rightarrow> nat \<Rightarrow> ctype \<Rightarrow> nat \<Rightarrow> inode \<Rightarrow> gconn option" where
  "getConnection g from' outputIndex type inputIndex to =
     obj_get (g_conns g)
       (makeKey \<lparr>g_from = from', g_to = to, g_type = type, g_out = outputIndex, g_in = inputIndex\<rparr>)"

subsection \<open>removeNode\<close>

definition drop_node :: "inode \<Rightarrow> dgraph \<Rightarrow> dgraph" where
  "drop_node node g = g\<lparr>g_conns := filter (\<lambda>(k, c). \<not> (g_to c = node \<or> g_from c = node)) (g_conns g)\<rparr>"

definition bridge :: "gconn \<Rightarrow> gconn \<Rightarrow> gconn" where
  "bridge incoming outgoing = incoming\<lparr>g_to := g_to outgoing, g_in := g_in outgoing\<rparr>"

definition bridges :: "(gconn \<Rightarrow> bool) \<Rightarrow> gconn list \<Rightarrow> gconn list \<Rightarrow> gconn list" where
  "bridges skip incomings outgoings =
     concat (map (\<lambda>i. map (bridge i) (filter (\<lambda>c. \<not> skip c) outgoings)) (filter (\<lambda>c. \<not> skip c) incomings))"

definition removeNode :: "inode \<Rightarrow> dgraph \<Rightarrow> dgraph" where
  "removeNode node g = (drop_node node g)\<lparr>g_nodes := obj_del (n_name node) (g_nodes g)\<rparr>"

definition removeNodeReconnect ::
    "(gconn \<Rightarrow> bool) \<Rightarrow> inode \<Rightarrow> dgraph \<Rightarrow> js_error + gconn list \<times> dgraph" where
  "removeNodeReconnect skip node g =
     bindE (getDirectParentConnections g node) (\<lambda>incomings.
     bindE (getDirectChildConnections g node) (\<lambda>outgoings.
       let new = bridges skip incomings outgoings;
           g1 = fold set_conn new (drop_node node g)
       in Inr (new, g1\<lparr>g_nodes := obj_del (n_name node) (g_nodes g1)\<rparr>)))"

subsection \<open>Children and parents\<close>

definition child_targets :: "dgraph \<Rightarrow> inode \<Rightarrow> js_error + inode list" where
  "child_targets g node = bindE (getDirectChildConnections g node) (\<lambda>cs. Inr (map g_to cs))"

definition parents_of :: "dgraph \<Rightarrow> gconn \<Rightarrow> js_error + gconn list" where
  "parents_of g c = getDirectParentConnections g (g_from c)"

lemma child_targets_universe: "child_targets g x = Inr ys \<Longrightarrow> set ys \<subseteq> g_to ` set (graph_conns g)"
  by (auto simp: child_targets_def getDirectChildConnections_def bindE_eq_Inr)

lemma parents_of_universe: "parents_of g x = Inr ys \<Longrightarrow> set ys \<subseteq> set (graph_conns g)"
  by (auto simp: parents_of_def getDirectParentConnections_def bindE_eq_Inr)

function children_loop :: "dgraph \<Rightarrow> inode list \<Rightarrow> inode list \<Rightarrow> js_error + inode list" where
  "children_loop g [] children = Inr children"
| "children_loop g (child # rest) children =
     (if child \<in> set children then children_loop g rest children
      else bindE (child_targets g child) (\<lambda>ys.
           bindE (children_loop g ys (children @ [child])) (children_loop g rest)))"
  by pat_completeness auto

lemma children_loop_grows:
  "children_loop_dom (g, xs, s) \<Longrightarrow> children_loop g xs s = Inr r \<Longrightarrow> set s \<union> set xs \<subseteq> set r"
proof (induction arbitrary: r rule: children_loop.pinduct)
  case (2 g x xs s)
  show ?case
  proof (cases "x \<in> set s")
    case True
    with 2 show ?thesis by (auto simp: children_loop.psimps)
  next
    case False
    with "2.prems" "2.hyps" obtain ys r' where
      *: "child_targets g x = Inr ys" "children_loop g ys (s @ [x]) = Inr r'" "children_loop g xs r' = Inr r"
      by (auto simp: children_loop.psimps bindE_eq_Inr)
    with "2.IH"(2) [OF False *(1,2)] "2.IH"(3) [OF False *(1,2,3)] show ?thesis by auto
  qed
qed (simp add: children_loop.psimps)

lemma card_shrink:
  "finite U \<Longrightarrow> x \<notin> set s \<Longrightarrow> insert x (set s) \<subseteq> T \<Longrightarrow> set ys \<subseteq> U \<union> set xs \<Longrightarrow>
   card ((U \<union> set ys) - T) < card ((U \<union> set (x # xs)) - set s)"
  by (rule psubset_card_mono) auto

lemma card_keep: "finite U \<Longrightarrow> card ((U \<union> set xs) - S) \<le> card ((U \<union> set (x # xs)) - S)"
  by (rule card_mono) auto

termination children_loop
proof (relation "measures [\<lambda>(g, xs, s). card ((g_to ` set (graph_conns g) \<union> set xs) - set s),
    \<lambda>(g, xs, s). length xs]", goal_cases)
  case (2 g x xs s)
  have "card (g_to ` set (graph_conns g) \<union> set xs - set s) \<le> card (g_to ` set (graph_conns g) \<union> set (x # xs) - set s)"
    by (rule card_keep) simp
  then show ?case by (simp add: le_less)
next
  case (3 g x xs s ys)
  have "card (g_to ` set (graph_conns g) \<union> set ys - set (s @ [x])) < card (g_to ` set (graph_conns g) \<union> set (x # xs) - set s)"
    by (rule card_shrink) (use 3 child_targets_universe [OF 3(2)] in auto)
  then show ?case by simp
next
  case (4 g x xs s ys r)
  have "card (g_to ` set (graph_conns g) \<union> set xs - set r) < card (g_to ` set (graph_conns g) \<union> set (x # xs) - set s)"
    by (rule card_shrink) (use 4 children_loop_grows [OF 4(4,3)] in auto)
  then show ?case by simp
qed simp

declare children_loop.simps [simp del]

definition getChildren :: "dgraph \<Rightarrow> inode \<Rightarrow> js_error + inode list" where
  "getChildren g node = bindE (child_targets g node) (\<lambda>ys. children_loop g ys [])"

function parents_loop :: "dgraph \<Rightarrow> gconn list \<Rightarrow> gconn list \<Rightarrow> js_error + gconn list" where
  "parents_loop g [] connections = Inr connections"
| "parents_loop g (c # rest) connections =
     (if c \<in> set connections then parents_loop g rest connections
      else bindE (parents_of g c) (\<lambda>ys.
           bindE (parents_loop g ys (connections @ [c])) (parents_loop g rest)))"
  by pat_completeness auto

lemma parents_loop_grows:
  "parents_loop_dom (g, xs, s) \<Longrightarrow> parents_loop g xs s = Inr r \<Longrightarrow> set s \<union> set xs \<subseteq> set r"
proof (induction arbitrary: r rule: parents_loop.pinduct)
  case (2 g x xs s)
  show ?case
  proof (cases "x \<in> set s")
    case True
    with 2 show ?thesis by (auto simp: parents_loop.psimps)
  next
    case False
    with "2.prems" "2.hyps" obtain ys r' where
      *: "parents_of g x = Inr ys" "parents_loop g ys (s @ [x]) = Inr r'" "parents_loop g xs r' = Inr r"
      by (auto simp: parents_loop.psimps bindE_eq_Inr)
    with "2.IH"(2) [OF False *(1,2)] "2.IH"(3) [OF False *(1,2,3)] show ?thesis by auto
  qed
qed (simp add: parents_loop.psimps)

termination parents_loop
proof (relation "measures [\<lambda>(g, xs, s). card ((set (graph_conns g) \<union> set xs) - set s),
    \<lambda>(g, xs, s). length xs]", goal_cases)
  case (2 g x xs s)
  have "card (set (graph_conns g) \<union> set xs - set s) \<le> card (set (graph_conns g) \<union> set (x # xs) - set s)"
    by (rule card_keep) simp
  then show ?case by (simp add: le_less)
next
  case (3 g x xs s ys)
  have "card (set (graph_conns g) \<union> set ys - set (s @ [x])) < card (set (graph_conns g) \<union> set (x # xs) - set s)"
    by (rule card_shrink) (use 3 parents_of_universe [OF 3(2)] in auto)
  then show ?case by simp
next
  case (4 g x xs s ys r)
  have "card (set (graph_conns g) \<union> set xs - set r) < card (set (graph_conns g) \<union> set (x # xs) - set s)"
    by (rule card_shrink) (use 4 parents_loop_grows [OF 4(4,3)] in auto)
  then show ?case by simp
qed simp

declare parents_loop.simps [simp del]

definition getParentConnections :: "dgraph \<Rightarrow> inode \<Rightarrow> js_error + gconn list" where
  "getParentConnections g node = bindE (getDirectParentConnections g node) (\<lambda>cs. parents_loop g cs [])"

text \<open>Both loops are instances of the shared traversal.\<close>

interpretation child_search: err_search "child_targets g" "children_loop g" "g_to ` set (graph_conns g)" for g
  by unfold_locales (simp_all add: child_targets_universe children_loop.simps)

interpretation parent_search: err_search "parents_of g" "parents_loop g" "set (graph_conns g)" for g
  by unfold_locales (simp_all add: parents_of_universe parents_loop.simps)

subsection \<open>getStronglyConnectedComponents\<close>

record scc_state =
  sc_id :: nat
  sc_visited :: "inode list"
  sc_ids :: "(inode, nat) jsmap"
  sc_low :: "(inode, nat) jsmap"
  sc_stack :: "inode list"
  sc_sccs :: "inode list list"

definition scc_start :: scc_state where
  "scc_start = \<lparr>sc_id = 0, sc_visited = [], sc_ids = [], sc_low = [], sc_stack = [], sc_sccs = []\<rparr>"

definition scc_enter :: "inode \<Rightarrow> scc_state \<Rightarrow> scc_state" where
  "scc_enter node st = st\<lparr>sc_visited := sc_visited st @ [node],
     sc_low := obj_set node (sc_id st) (sc_low st), sc_ids := obj_set node (sc_id st) (sc_ids st),
     sc_id := Suc (sc_id st), sc_stack := sc_stack st @ [node]\<rparr>"

text \<open>After a child was followed: if it is on the stack, its low link lowers the node's.\<close>

definition scc_update :: "inode \<Rightarrow> inode \<Rightarrow> scc_state \<Rightarrow> js_error + scc_state" where
  "scc_update node child st =
     (if child \<in> set (sc_stack st)
      then (case (obj_get (sc_low st) child, obj_get (sc_low st) node) of
          (Some childLow, Some ownLow) \<Rightarrow> Inr (st\<lparr>sc_low := obj_set node (min childLow ownLow) (sc_low st)\<rparr>)
        | _ \<Rightarrow> Inl AssertionError)
      else Inr st)"

text \<open>The stack without its longest suffix of nodes with this low link, and that suffix popped.\<close>

definition scc_pop :: "nat \<Rightarrow> (inode, nat) jsmap \<Rightarrow> inode list \<Rightarrow> inode list \<times> inode list" where
  "scc_pop ownId low stack =
     (rev (dropWhile (\<lambda>n. obj_get low n = Some ownId) (rev stack)),
      mk_set (takeWhile (\<lambda>n. obj_get low n = Some ownId) (rev stack)))"

definition scc_close :: "inode \<Rightarrow> scc_state \<Rightarrow> js_error + scc_state" where
  "scc_close node st =
     (case (obj_get (sc_ids st) node, obj_get (sc_low st) node) of
        (Some ownId, Some ownLow) \<Rightarrow>
          if ownId = ownLow
          then (case scc_pop ownId (sc_low st) (sc_stack st) of
              (stack, scc) \<Rightarrow> Inr (st\<lparr>sc_stack := stack,
                sc_sccs := (if scc \<noteq> [] then sc_sccs st @ [scc] else sc_sccs st)\<rparr>))
          else Inr st
      | _ \<Rightarrow> Inl AssertionError)"

definition scc_return :: "inode option \<Rightarrow> inode \<Rightarrow> scc_state \<Rightarrow> js_error + scc_state" where
  "scc_return parent child st =
     (case parent of None \<Rightarrow> Inr st | Some node \<Rightarrow> scc_update node child st)"

text \<open>
  \<open>followNode\<close> on a list of nodes: the children of \<open>parent\<close>, or all nodes of the graph when
  there is no parent.
\<close>

function followNodes ::
    "dgraph \<Rightarrow> inode option \<Rightarrow> inode list \<Rightarrow> scc_state \<Rightarrow> js_error + scc_state" where
  "followNodes g parent [] st = Inr st"
| "followNodes g parent (node # rest) st =
     (if node \<in> set (sc_visited st)
      then bindE (scc_return parent node st) (followNodes g parent rest)
      else bindE (child_targets g node) (\<lambda>ys.
           bindE (followNodes g (Some node) ys (scc_enter node st)) (\<lambda>st1.
           bindE (bindE (scc_close node st1) (scc_return parent node)) (followNodes g parent rest))))"
  by pat_completeness auto

lemma scc_update_visited [simp]: "scc_update n c st = Inr st' \<Longrightarrow> sc_visited st' = sc_visited st"
  by (auto simp: scc_update_def split: if_splits option.splits)

lemma scc_return_visited [simp]: "scc_return p c st = Inr st' \<Longrightarrow> sc_visited st' = sc_visited st"
  by (auto simp: scc_return_def split: option.splits)

lemma scc_close_visited [simp]: "scc_close n st = Inr st' \<Longrightarrow> sc_visited st' = sc_visited st"
  by (auto simp: scc_close_def scc_pop_def Let_def split: if_splits option.splits)

lemma scc_enter_visited [simp]: "sc_visited (scc_enter n st) = sc_visited st @ [n]"
  by (simp add: scc_enter_def)

lemma scc_leave_visited:
  "bindE (scc_close n st) (scc_return p n) = Inr st' \<Longrightarrow> sc_visited st' = sc_visited st"
  by (auto simp: bindE_eq_Inr)

lemma followNodes_grows:
  "followNodes_dom (g, p, xs, st) \<Longrightarrow> followNodes g p xs st = Inr st' \<Longrightarrow>
   set (sc_visited st) \<union> set xs \<subseteq> set (sc_visited st')"
proof (induction arbitrary: st' rule: followNodes.pinduct)
  case (2 g p x xs st)
  show ?case
  proof (cases "x \<in> set (sc_visited st)")
    case True
    with "2.prems" "2.hyps" obtain st1 where *: "scc_return p x st = Inr st1" "followNodes g p xs st1 = Inr st'"
      by (auto simp: followNodes.psimps bindE_eq_Inr)
    with "2.IH"(1) [OF True *] True show ?thesis by auto
  next
    case False
    with "2.prems" "2.hyps" obtain ys st1 st2 where
      *: "child_targets g x = Inr ys" "followNodes g (Some x) ys (scc_enter x st) = Inr st1"
      "bindE (scc_close x st1) (scc_return p x) = Inr st2" "followNodes g p xs st2 = Inr st'"
      by (auto simp: followNodes.psimps bindE_eq_Inr)
    with "2.IH"(2) [OF False *(1,2)] "2.IH"(3) [OF False *(1,2,3,4)] scc_leave_visited [OF *(3)]
    show ?thesis by auto
  qed
qed (simp add: followNodes.psimps)

termination followNodes
proof (relation "measures [\<lambda>(g, p, xs, st). card ((g_to ` set (graph_conns g) \<union> set xs) - set (sc_visited st)),
    \<lambda>(g, p, xs, st). length xs]", goal_cases)
  case (2 g p x xs st st1)
  have "card (g_to ` set (graph_conns g) \<union> set xs - set (sc_visited st))
      \<le> card (g_to ` set (graph_conns g) \<union> set (x # xs) - set (sc_visited st))"
    by (rule card_keep) simp
  then show ?case using 2 by (simp add: le_less)
next
  case (3 g p x xs st ys)
  have "card (g_to ` set (graph_conns g) \<union> set ys - set (sc_visited (scc_enter x st)))
      < card (g_to ` set (graph_conns g) \<union> set (x # xs) - set (sc_visited st))"
    by (rule card_shrink) (use 3 child_targets_universe [OF 3(2)] in auto)
  then show ?case by simp
next
  case (4 g p x xs st ys st1 st2)
  have "card (g_to ` set (graph_conns g) \<union> set xs - set (sc_visited st2))
      < card (g_to ` set (graph_conns g) \<union> set (x # xs) - set (sc_visited st))"
    by (rule card_shrink) (use 4 followNodes_grows [OF 4(5,3)] scc_leave_visited [OF 4(4)] in auto)
  then show ?case by simp
qed simp

declare followNodes.simps [simp del]

definition getStronglyConnectedComponents :: "dgraph \<Rightarrow> js_error + inode list list" where
  "getStronglyConnectedComponents g =
     bindE (followNodes g None (graph_nodes g) scc_start) (\<lambda>st. Inr (sc_sccs st))"

subsection \<open>depthFirstSearch\<close>

text \<open>The search from each node of a list in turn, and the nodes seen.\<close>

function dfs_loop ::
    "dgraph \<Rightarrow> (inode \<Rightarrow> bool) \<Rightarrow> inode list \<Rightarrow> inode list \<Rightarrow> js_error + inode option \<times> inode list" where
  "dfs_loop g fn [] seen = Inr (None, seen)"
| "dfs_loop g fn (from' # rest) seen =
     (if from' \<in> set seen then dfs_loop g fn rest seen
      else if fn from' then Inr (Some from', seen @ [from'])
      else bindE (child_targets g from') (\<lambda>ys.
           bindE (dfs_loop g fn ys (seen @ [from'])) (\<lambda>(found, seen').
             case found of Some r \<Rightarrow> Inr (Some r, seen') | None \<Rightarrow> dfs_loop g fn rest seen')))"
  by pat_completeness auto

lemma dfs_loop_grows:
  "dfs_loop_dom (g, fn, xs, s) \<Longrightarrow> dfs_loop g fn xs s = Inr (None, r) \<Longrightarrow> set s \<union> set xs \<subseteq> set r"
proof (induction arbitrary: r rule: dfs_loop.pinduct)
  case (2 g fn x xs s)
  consider "x \<in> set s" | "x \<notin> set s" "fn x" | "x \<notin> set s" "\<not> fn x" by blast
  then show ?case
  proof cases
    case 1
    with 2 show ?thesis by (auto simp: dfs_loop.psimps)
  next
    case 2
    with "2.prems" "2.hyps" show ?thesis by (simp add: dfs_loop.psimps)
  next
    case 3
    with "2.prems" "2.hyps" obtain ys r' where
      *: "child_targets g x = Inr ys" "dfs_loop g fn ys (s @ [x]) = Inr (None, r')" "dfs_loop g fn xs r' = Inr (None, r)"
      by (auto simp: dfs_loop.psimps bindE_eq_Inr split: option.splits)
    with "2.IH"(2) [OF 3 *(1,2)] "2.IH"(3) [OF 3 *(1,2) refl refl *(3)] show ?thesis by auto
  qed
qed (simp add: dfs_loop.psimps)

termination dfs_loop
proof (relation "measures [\<lambda>(g, fn, xs, s). card ((g_to ` set (graph_conns g) \<union> set xs) - set s),
    \<lambda>(g, fn, xs, s). length xs]", goal_cases)
  case (2 g fn x xs s)
  have "card (g_to ` set (graph_conns g) \<union> set xs - set s) \<le> card (g_to ` set (graph_conns g) \<union> set (x # xs) - set s)"
    by (rule card_keep) simp
  then show ?case by (simp add: le_less)
next
  case (3 g fn x xs s ys)
  have "card (g_to ` set (graph_conns g) \<union> set ys - set (s @ [x])) < card (g_to ` set (graph_conns g) \<union> set (x # xs) - set s)"
    by (rule card_shrink) (use 3 child_targets_universe [OF 3(3)] in auto)
  then show ?case by simp
next
  case (4 g fn x xs s ys p found s')
  then have "set (s @ [x]) \<subseteq> set s'" using dfs_loop_grows by fastforce
  then have "card (g_to ` set (graph_conns g) \<union> set xs - set s') < card (g_to ` set (graph_conns g) \<union> set (x # xs) - set s)"
    using 4 by (intro card_shrink) auto
  then show ?case by simp
qed simp

declare dfs_loop.simps [simp del]

definition depthFirstSearch :: "dgraph \<Rightarrow> inode \<Rightarrow> (inode \<Rightarrow> bool) \<Rightarrow> js_error + inode option" where
  "depthFirstSearch g from' fn = bindE (dfs_loop g fn [from'] []) (\<lambda>(found, seen). Inr found)"

subsection \<open>Conversions\<close>

text \<open>Shared by \<open>fromWorkflow\<close> and \<open>fromNodesAndConnections\<close>, which differ in how a name is looked up.\<close>

definition assertSome :: "'a option \<Rightarrow> js_error + 'a" where
  "assertSome x = (case x of None \<Rightarrow> Inl AssertionError | Some y \<Rightarrow> Inr y)"

definition add_iconnection ::
    "(string \<Rightarrow> inode option) \<Rightarrow> inode \<Rightarrow> ctype \<Rightarrow> nat \<Rightarrow> conn \<Rightarrow> dgraph \<Rightarrow> js_error + dgraph" where
  "add_iconnection getNode' from' outputType outputIndex c g =
     bindE (assertSome (getNode' (c_node c))) (\<lambda>to.
       addConnection from' to (Some outputType) (Some outputIndex) (Some (c_index c)) g)"

definition add_iconnections :: "(string \<Rightarrow> inode option) \<Rightarrow> conns \<Rightarrow> dgraph \<Rightarrow> js_error + dgraph" where
  "add_iconnections getNode' connections =
     foldE (\<lambda>(fromNodeName, byType) g.
       bindE (assertSome (getNode' fromNodeName)) (\<lambda>from'.
         foldE (\<lambda>(outputType, outputs).
           foldE (\<lambda>(outputIndex, cs). foldE (add_iconnection getNode' from' outputType outputIndex) (opt_list cs))
             (enumerate 0 outputs)) byType g)) (obj_entries connections)"

definition fromWorkflow :: "workflow \<Rightarrow> js_error + dgraph" where
  "fromWorkflow w = add_iconnections (getNode w) (w_connectionsBySourceNode w)
     (addNodes (obj_values (w_nodes w)) emptyGraph)"

definition fromNodesAndConnections :: "inode list \<Rightarrow> conns \<Rightarrow> js_error + dgraph" where
  "fromNodesAndConnections nodes connections =
     (let nodeMap = fold (\<lambda>n. obj_set (n_name n) n) nodes []
      in add_iconnections (obj_get nodeMap) connections (addNodes nodes emptyGraph))"

definition clone :: "dgraph \<Rightarrow> js_error + dgraph" where
  "clone g = addConnections (getConnections g None) (addNodes (graph_nodes g) emptyGraph)"

text \<open>
  Only the first connection of a node creates the array of its type: a second type is read as
  \<open>undefined\<close> and indexing it throws.
\<close>

definition push_iconnection :: "gconn \<Rightarrow> conns \<Rightarrow> js_error + conns" where
  "push_iconnection c result =
     (let byType = (case obj_get result (n_name (g_from c)) of None \<Rightarrow> [(g_type c, [])] | Some b \<Rightarrow> b)
      in case obj_get byType (g_type c) of
           None \<Rightarrow> Inl TypeError
         | Some slots \<Rightarrow>
             let padded = slots @ replicate (Suc (g_out c) - length slots) None;
                 group = opt_list (padded ! g_out c) @ [\<lparr>c_node = n_name (g_to c), c_type = g_type c, c_index = g_in c\<rparr>]
             in Inr (obj_set (n_name (g_from c)) (obj_set (g_type c) (padded[g_out c := Some group]) byType) result))"

definition toIConnections :: "dgraph \<Rightarrow> js_error + conns" where
  "toIConnections g = foldE push_iconnection (graph_conns g) []"

definition toWorkflow ::
    "(node_type \<Rightarrow> inode \<Rightarrow> json obj option) \<Rightarrow> workflow_parameters \<Rightarrow> dgraph \<Rightarrow> js_error + workflow" where
  "toWorkflow getNodeParameters parameters g =
     bindE (toIConnections g) (\<lambda>C.
       Inr (newWorkflow getNodeParameters (parameters\<lparr>wp_nodes := graph_nodes g, wp_connections := C\<rparr>)))"

end
