(* ===== verification/StartNodes.thy ===== *)
theory StartNodes
  imports DirectedGraph
begin

section \<open>Start nodes and run data of a partial execution\<close>

text \<open>
  \<open>get-incoming-data.ts\<close>, \<open>run-data-utils.ts\<close>, \<open>find-start-nodes.ts\<close>, \<open>clean-run-data.ts\<close>,
  \<open>filter-disabled-nodes.ts\<close> and \<open>handle-cycles.ts\<close>. Run data maps a node name to its runs.
  Optional arguments that default to \<open>{}\<close> are the empty object.
\<close>

subsection \<open>Incoming data\<close>

text \<open>The type is indexed without a check: task data without that type throws.\<close>

definition getIncomingData ::
    "run_data \<Rightarrow> string \<Rightarrow> int \<Rightarrow> ctype \<Rightarrow> nat \<Rightarrow> js_error + items option" where
  "getIncomingData runData nodeName runIndex connectionType outputIndex =
     (case obj_get runData nodeName of None \<Rightarrow> Inr None
      | Some runs \<Rightarrow> (case js_at runs runIndex of None \<Rightarrow> Inr None
        | Some task \<Rightarrow> (case td_data task of None \<Rightarrow> Inr None
          | Some data \<Rightarrow> (case obj_get data connectionType of None \<Rightarrow> Inl TypeError
            | Some outputs \<Rightarrow> Inr (jsval_opt (arr_get outputs outputIndex))))))"

definition getRunIndexLength :: "run_data \<Rightarrow> string \<Rightarrow> nat" where
  "getRunIndexLength runData nodeName =
     (case obj_get runData nodeName of None \<Rightarrow> 0 | Some runs \<Rightarrow> length runs)"

fun first_run ::
    "run_data \<Rightarrow> string \<Rightarrow> ctype \<Rightarrow> nat \<Rightarrow> nat list \<Rightarrow> js_error + (items \<times> nat) option" where
  "first_run runData nodeName connectionType outputIndex [] = Inr None"
| "first_run runData nodeName connectionType outputIndex (runIndex # rest) =
     bindE (getIncomingData runData nodeName (int runIndex) connectionType outputIndex) (\<lambda>data.
       case data of
         Some d \<Rightarrow> if d \<noteq> [] then Inr (Some (d, runIndex))
                  else first_run runData nodeName connectionType outputIndex rest
       | None \<Rightarrow> first_run runData nodeName connectionType outputIndex rest)"

definition getIncomingDataFromAnyRun ::
    "run_data \<Rightarrow> string \<Rightarrow> ctype \<Rightarrow> nat \<Rightarrow> js_error + (items \<times> nat) option" where
  "getIncomingDataFromAnyRun runData nodeName connectionType outputIndex =
     first_run runData nodeName connectionType outputIndex [0..<getRunIndexLength runData nodeName]"

definition getNextExecutionIndex :: "run_data \<Rightarrow> nat" where
  "getNextExecutionIndex runData =
     (let previousIndices = List.map_filter td_executionIndex (concat (obj_values runData))
      in if previousIndices = [] then 0 else Suc (Max (set previousIndices)))"

subsection \<open>findStartNodes\<close>

definition isDirty :: "inode \<Rightarrow> run_data \<Rightarrow> pin_data \<Rightarrow> bool" where
  "isDirty node runData pinData \<longleftrightarrow> \<not> obj_has (n_name node) pinData \<and> \<not> obj_has (n_name node) runData"

definition isALoop :: "dgraph \<Rightarrow> inode \<Rightarrow> js_error + bool" where
  "isALoop g node = bindE (getChildren g node) (\<lambda>children. Inr (node \<in> set children))"

text \<open>The three reasons to stop at a node and to take it as a start node.\<close>

definition isStartNode :: "dgraph \<Rightarrow> run_data \<Rightarrow> pin_data \<Rightarrow> inode \<Rightarrow> inode \<Rightarrow> js_error + bool" where
  "isStartNode g runData pinData destination current =
     (if isDirty current runData pinData then Inr True
      else if current = destination then Inr True
      else if n_type current = ''n8n-nodes-base.splitInBatches''
      then bindE (isALoop g current) (\<lambda>loop.
           bindE (getIncomingData runData (n_name current) (-1) Main (if loop then 0 else 1)) (\<lambda>data.
             Inr (case data of None \<Rightarrow> True | Some d \<Rightarrow> d = [])))
      else Inr False)"

definition follows :: "run_data \<Rightarrow> pin_data \<Rightarrow> gconn \<Rightarrow> js_error + bool" where
  "follows runData pinData c =
     bindE (getIncomingDataFromAnyRun runData (n_name (g_from c)) (g_type c) (g_out c)) (\<lambda>nodeRunData.
       Inr (\<not> ((case nodeRunData of None \<Rightarrow> True | Some (d, _) \<Rightarrow> d = [])
                \<and> \<not> obj_has (n_name (g_from c)) pinData)))"

lemma card_path:
  "(c :: gconn) \<in> set (graph_conns g) \<Longrightarrow> x \<notin> set s \<Longrightarrow>
   card (insert (g_to c) (g_to ` set (graph_conns g)) - insert x (set s)) < card (insert x (g_to ` set (graph_conns g)) - set s)"
  by (rule psubset_card_mono) auto

lemma direct_child_mem: "getDirectChildConnections g n = Inr cs \<Longrightarrow> c \<in> set cs \<Longrightarrow> c \<in> set (graph_conns g)"
  by (auto simp: getDirectChildConnections_def bindE_eq_Inr)

lemma direct_parent_mem: "getDirectParentConnections g n = Inr cs \<Longrightarrow> c \<in> set cs \<Longrightarrow> c \<in> set (graph_conns g) \<and> g_to c = n"
  by (auto simp: getDirectParentConnections_def bindE_eq_Inr)

function findStartNodesRecursive ::
    "dgraph \<Rightarrow> run_data \<Rightarrow> pin_data \<Rightarrow> inode \<Rightarrow> inode \<Rightarrow> inode list \<Rightarrow> inode list \<Rightarrow> js_error + inode list" where
  "findStartNodesRecursive g runData pinData destination current seen startNodes =
     bindE (isStartNode g runData pinData destination current) (\<lambda>start.
       if start then Inr (set_add current startNodes)
       else if current \<in> set seen then Inr startNodes
       else bindE (getDirectChildConnections g current) (\<lambda>outGoing.
         foldE (\<lambda>c startNodes. bindE (follows runData pinData c) (\<lambda>follow.
             if follow
             then findStartNodesRecursive g runData pinData destination (g_to c) (set_add current seen) startNodes
             else Inr startNodes))
           outGoing startNodes))"
  by pat_completeness auto
termination
  by (relation "measure (\<lambda>(g, r, p, d, current, seen, s).
      card (insert current (g_to ` set (graph_conns g)) - set seen))")
    (auto intro!: card_path dest: direct_child_mem)

declare findStartNodesRecursive.simps [simp del]

definition findStartNodes ::
    "dgraph \<Rightarrow> inode \<Rightarrow> inode \<Rightarrow> pin_data \<Rightarrow> run_data \<Rightarrow> js_error + inode list" where
  "findStartNodes g trigger destination pinData runData =
     findStartNodesRecursive g runData pinData destination trigger [] []"

subsection \<open>cleanRunData\<close>

definition cleanNode :: "dgraph \<Rightarrow> inode \<Rightarrow> run_data \<Rightarrow> js_error + run_data" where
  "cleanNode g node runData =
     bindE (getParentConnections g node) (\<lambda>subNodeConnections.
       Inr (fold (\<lambda>c. if g_type c = Main then id else obj_del (n_name (g_from c)))
              subNodeConnections (obj_del (n_name node) runData)))"

definition cleanRunData :: "run_data \<Rightarrow> dgraph \<Rightarrow> inode list \<Rightarrow> js_error + run_data" where
  "cleanRunData runData g nodesToClean =
     bindE (foldE (\<lambda>nodeToClean newRunData.
         bindE (getChildren g nodeToClean) (\<lambda>children.
           foldE (cleanNode g) (nodeToClean # children) (obj_del (n_name nodeToClean) newRunData)))
       nodesToClean runData)
     (\<lambda>newRunData. Inr (fold (\<lambda>nodeName. if hasNode g nodeName then id else obj_del nodeName)
         (obj_keys newRunData) newRunData))"

subsection \<open>filterDisabledNodes and handleCycles\<close>

definition isDisabled :: "inode \<Rightarrow> bool" where
  "isDisabled node \<longleftrightarrow> n_disabled node = Some True"

definition removeDisabled :: "inode \<Rightarrow> dgraph \<Rightarrow> js_error + dgraph" where
  "removeDisabled node g =
     (if isDisabled node
      then bindE (removeNodeReconnect (\<lambda>c. g_type c \<noteq> Main) node g) (\<lambda>(new, g'). Inr g')
      else Inr g)"

definition filterDisabledNodes :: "dgraph \<Rightarrow> js_error + dgraph" where
  "filterDisabledNodes g =
     bindE (clone g) (\<lambda>filteredGraph. foldE removeDisabled (graph_nodes filteredGraph) filteredGraph)"

definition replaceByCycle ::
    "dgraph \<Rightarrow> inode \<Rightarrow> inode \<Rightarrow> inode list \<Rightarrow> inode list \<Rightarrow> js_error + inode list" where
  "replaceByCycle g trigger startNode cycle newStartNodes =
     (if startNode \<in> set cycle
      then bindE (bindE (depthFirstSearch g trigger (\<lambda>node. node \<in> set cycle)) assertSome) (\<lambda>firstNode.
             Inr (set_add firstNode (set_del startNode newStartNodes)))
      else Inr newStartNodes)"

definition handleCycles :: "dgraph \<Rightarrow> inode list \<Rightarrow> inode \<Rightarrow> js_error + inode list" where
  "handleCycles g startNodes trigger =
     bindE (getStronglyConnectedComponents g) (\<lambda>sccs.
       let cycles = filter (\<lambda>cycle. 1 \<le> length cycle) sccs
       in foldE (\<lambda>startNode. foldE (replaceByCycle g trigger startNode) cycles) startNodes startNodes)"

end
