(* ===== verification/Subgraph.thy ===== *)
theory Subgraph
  imports StartNodes
begin

section \<open>The subgraph and the trigger of a partial execution\<close>

text \<open>\<open>find-subgraph.ts\<close>, \<open>find-trigger-for-partial-execution.ts\<close> and \<open>rewire-graph.ts\<close>.\<close>

subsection \<open>findSubgraph\<close>

definition keepConnection :: "gconn \<Rightarrow> dgraph \<Rightarrow> js_error + dgraph" where
  "keepConnection c g =
     addConnection (g_from c) (g_to c) (Some (g_type c)) (Some (g_out c)) (Some (g_in c))
       (addNodes [g_from c, g_to c] g)"

lemma card_branch:
  "(c :: gconn) \<in> set (graph_conns g) \<Longrightarrow> g_to c \<notin> g_to ` set branch \<Longrightarrow>
   card (g_to ` set (graph_conns g) - insert (g_to c) (g_to ` set branch)) < card (g_to ` set (graph_conns g) - g_to ` set branch)"
  by (rule psubset_card_mono) auto

function findSubgraphRecursive ::
    "dgraph \<Rightarrow> inode \<Rightarrow> inode \<Rightarrow> inode \<Rightarrow> dgraph \<Rightarrow> gconn list \<Rightarrow> js_error + dgraph" where
  "findSubgraphRecursive g destinationNode current trigger newGraph currentBranch =
     (if current = trigger then foldE keepConnection currentBranch (addNode trigger newGraph)
      else bindE (getDirectParentConnections g current) (\<lambda>parentConnections.
        if parentConnections = [] then Inr newGraph
        else if current = destinationNode \<and> destinationNode \<in> g_to ` set currentBranch then Inr newGraph
        else if current \<in> g_to ` set currentBranch then foldE keepConnection currentBranch newGraph
        else foldE (\<lambda>parentConnection newGraph.
            if g_type parentConnection \<noteq> Main then Inr newGraph
            else findSubgraphRecursive g destinationNode (g_from parentConnection) trigger newGraph
                   (currentBranch @ [parentConnection]))
          parentConnections newGraph))"
  by pat_completeness auto
termination
proof (relation "measure (\<lambda>(g, d, current, t, G, branch). card (g_to ` set (graph_conns g) - g_to ` set branch))", goal_cases)
  case (2 g d current t G branch ps p G')
  then have "p \<in> set (graph_conns g)" "g_to p = current"
    using direct_parent_mem by blast+
  with card_branch [of p g branch] 2 show ?case by simp
qed simp

declare findSubgraphRecursive.simps [simp del]

definition addUtilityParents :: "dgraph \<Rightarrow> inode \<Rightarrow> dgraph \<Rightarrow> js_error + dgraph" where
  "addUtilityParents g node subgraph =
     bindE (getParentConnections g node) (\<lambda>parentConnections.
       foldE (\<lambda>c subgraph. if g_type c = Main then Inr subgraph else keepConnection c subgraph)
         parentConnections subgraph)"

definition findSubgraph :: "dgraph \<Rightarrow> inode \<Rightarrow> inode \<Rightarrow> js_error + dgraph" where
  "findSubgraph g destination trigger =
     bindE (findSubgraphRecursive g destination destination trigger emptyGraph []) (\<lambda>subgraph.
       foldE (addUtilityParents g) (graph_nodes subgraph) subgraph)"

subsection \<open>findTriggerForPartialExecution\<close>

definition isTriggerNode :: "node_type \<Rightarrow> bool" where
  "isTriggerNode nodeType \<longleftrightarrow> ''trigger'' \<in> set (nt_group nodeType)"

definition typeOf :: "workflow \<Rightarrow> inode \<Rightarrow> node_type option" where
  "typeOf w node = w_nodeTypes w (n_type node) (n_typeVersion node)"

text \<open>A node type the registry does not know is read as \<open>undefined\<close>.\<close>

definition nodeIsTrigger :: "workflow \<Rightarrow> inode \<Rightarrow> js_error + bool" where
  "nodeIsTrigger w node =
     (case typeOf w node of None \<Rightarrow> Inl TypeError | Some nodeType \<Rightarrow> Inr (isTriggerNode nodeType))"

fun filterE :: "('a \<Rightarrow> 'e + bool) \<Rightarrow> 'a list \<Rightarrow> 'e + 'a list" where
  "filterE p [] = Inr []"
| "filterE p (x # xs) = bindE (p x) (\<lambda>b. bindE (filterE p xs) (\<lambda>ys. Inr (if b then x # ys else ys)))"

definition findAllParentTriggers :: "workflow \<Rightarrow> string \<Rightarrow> js_error + inode list" where
  "findAllParentTriggers w destinationNodeName =
     bindE (mapE (\<lambda>name. assertSome (getNode w name)) (parentNodes w destinationNodeName))
       (filterE (nodeIsTrigger w))"

definition anyReachableRootHasRunData :: "dgraph \<Rightarrow> string \<Rightarrow> run_data \<Rightarrow> js_error + bool" where
  "anyReachableRootHasRunData g destinationNodeName runData =
     (case obj_get (g_nodes g) destinationNodeName of None \<Rightarrow> Inr False
      | Some destinationNode \<Rightarrow>
          bindE (getParentConnections g destinationNode) (\<lambda>parentConnections.
          bindE (filterE (\<lambda>parentNode. bindE (getDirectParentConnections g parentNode) (\<lambda>ps. Inr (ps = [])))
                  (mk_set (map g_from parentConnections))) (\<lambda>rootNodes.
            Inr (\<exists>rootNode \<in> set rootNodes. obj_has (n_name rootNode) runData))))"

definition ends_with :: "string \<Rightarrow> string \<Rightarrow> bool" where
  "ends_with s suffix' \<longleftrightarrow> length suffix' \<le> length s \<and> drop (length s - length suffix') s = suffix'"

definition isWebhookTrigger :: "inode \<Rightarrow> bool" where
  "isWebhookTrigger node \<longleftrightarrow> ends_with (n_type node) ''webhook''"

definition webhookFirst :: "inode \<Rightarrow> inode \<Rightarrow> int" where
  "webhookFirst a b = (if isWebhookTrigger a then -1 else if isWebhookTrigger b then 1 else 0)"

definition chooseTrigger :: "workflow \<Rightarrow> run_data \<Rightarrow> inode list \<Rightarrow> inode option" where
  "chooseTrigger w runData parentTriggers =
     (case find (\<lambda>t. obj_has (n_name t) runData) parentTriggers of
        Some t \<Rightarrow> Some t
      | None \<Rightarrow>
          let pinnedTriggers = js_sort webhookFirst
                (filter (\<lambda>t. getPinDataOfNode w (n_name t) \<noteq> None) parentTriggers)
          in if pinnedTriggers \<noteq> [] then idx pinnedTriggers 0
             else let webhookTriggers = filter isWebhookTrigger parentTriggers
                  in if webhookTriggers \<noteq> [] then idx webhookTriggers 0 else idx parentTriggers 0)"

definition findTriggerForPartialExecution ::
    "workflow \<Rightarrow> string \<Rightarrow> run_data \<Rightarrow> js_error + inode option" where
  "findTriggerForPartialExecution w destinationNodeName runData =
     (case getNode w destinationNodeName of None \<Rightarrow> Inr None
      | Some destinationNode \<Rightarrow>
          bindE (nodeIsTrigger w destinationNode) (\<lambda>trigger.
            if trigger \<and> \<not> isDisabled destinationNode then Inr (Some destinationNode)
            else bindE (findAllParentTriggers w destinationNodeName) (\<lambda>triggers.
              Inr (chooseTrigger w runData (filter (\<lambda>t. \<not> isDisabled t) triggers)))))"

subsection \<open>rewireGraph\<close>

record ai_request =
  ar_query :: json
  ar_toolName :: "string option"

definition toolExecutorNode :: "inode \<Rightarrow> ai_request option \<Rightarrow> inode" where
  "toolExecutorNode rootNode agentRequest =
     \<lparr>n_id = n_id rootNode, n_name = ''PartialExecutionToolExecutor'', n_typeVersion = 0,
      n_type = ''@n8n/n8n-nodes-langchain.toolExecutor'', n_position = (0, 0),
      n_disabled = Some False, n_retryOnFail = None, n_maxTries = None, n_waitBetweenTries = None,
      n_alwaysOutputData = None, n_executeOnce = None, n_onError = None, n_continueOnFail = None,
      n_parameters = [(''query'', case agentRequest of None \<Rightarrow> JObj [] | Some r \<Rightarrow> ar_query r),
        (''toolName'', case agentRequest of None \<Rightarrow> JStr []
           | Some r \<Rightarrow> (case ar_toolName r of None \<Rightarrow> JStr [] | Some n \<Rightarrow> JStr n))],
      n_credentials = None, n_webhookId = None, n_rewireOutputLogTo = None, n_forceCustomOperation = None\<rparr>"

text \<open>The node object is shared by the node map and the connections: assigning to a field shows in all of them.\<close>

definition assignNode :: "inode \<Rightarrow> inode \<Rightarrow> dgraph \<Rightarrow> dgraph" where
  "assignNode old new g =
     (let f = (\<lambda>n. if n = old then new else n)
      in \<lparr>g_nodes = map (\<lambda>(k, n). (k, f n)) (g_nodes g),
          g_conns = map (\<lambda>(k, c). (k, c\<lparr>g_from := f (g_from c), g_to := f (g_to c)\<rparr>)) (g_conns g)\<rparr>)"

definition rewireGraph :: "inode \<Rightarrow> dgraph \<Rightarrow> ai_request option \<Rightarrow> js_error + dgraph" where
  "rewireGraph tool g agentRequest =
     bindE (clone g) (\<lambda>modifiedGraph.
     bindE (getChildren modifiedGraph tool) (\<lambda>children.
       if children = [] then Inr g
       else let rootNode = last children in
         bindE (getDirectParentConnections modifiedGraph rootNode) (\<lambda>incoming.
           let allIncomingConnection = filter (\<lambda>c. g_type c = Main) incoming;
               toolExecutor = toolExecutorNode rootNode agentRequest;
               tool' = tool\<lparr>n_rewireOutputLogTo := Some AiTool\<rparr>;
               current = (\<lambda>n. if n = tool then tool' else n)
           in bindE (addConnection tool' toolExecutor (Some AiTool) None None
                       (assignNode tool tool' (addNode toolExecutor modifiedGraph))) (\<lambda>g1.
              bindE (foldE (\<lambda>c. addConnection (current (g_from c)) toolExecutor (Some (g_type c)) None None)
                       allIncomingConnection g1) (\<lambda>g2.
                Inr (removeNode (current rootNode) g2))))))"

end
