(* ===== verification/StackRecreation.thy ===== *)
theory StackRecreation
  imports Subgraph
begin

section \<open>Recreating the execution stack\<close>

text \<open>
  \<open>get-source-data-groups.ts\<close> and \<open>recreate-node-execution-stack.ts\<close>. \<open>String.localeCompare\<close>
  depends on the locale of the process and is the argument \<open>localeCompare\<close>.
\<close>

subsection \<open>getSourceDataGroups\<close>

definition sortByInputIndexThenByName :: "(string \<Rightarrow> string \<Rightarrow> int) \<Rightarrow> gconn \<Rightarrow> gconn \<Rightarrow> int" where
  "sortByInputIndexThenByName localeCompare c1 c2 =
     (if g_in c1 = g_in c2 then localeCompare (n_name (g_from c1)) (n_name (g_from c2))
      else int (g_in c1) - int (g_in c2))"

record source_group =
  sg_complete :: bool
  sg_connections :: "gconn list"

definition newGroup :: source_group where
  "newGroup = \<lparr>sg_complete = True, sg_connections = []\<rparr>"

text \<open>\<open>findIndex\<close> and \<open>splice\<close>: the first connection of an input, and the list without it.\<close>

fun take_input :: "nat \<Rightarrow> gconn list \<Rightarrow> (gconn \<times> gconn list) option" where
  "take_input i [] = None"
| "take_input i (c # cs) =
     (if g_in c = i then Some (c, cs)
      else (case take_input i cs of None \<Rightarrow> None | Some (d, ds) \<Rightarrow> Some (d, c # ds)))"

lemma take_input_length: "take_input i cs = Some (c, ds) \<Longrightarrow> length cs = Suc (length ds)"
  by (induction cs arbitrary: ds) (auto split: if_splits option.splits)

lemma take_input_None: "take_input i cs = None \<longleftrightarrow> (\<forall>c \<in> set cs. g_in c \<noteq> i)"
  by (induction cs) (auto split: option.splits)

definition min_input :: "gconn list \<Rightarrow> nat" where
  "min_input cs = Min (g_in ` set cs)"

text \<open>
  The loop, with \<open>next\<close> for the input index looked at in the coming round: the code keeps its
  predecessor in \<open>currentInputIndex\<close> and increments it first.
\<close>

function groups_loop ::
    "gconn list \<Rightarrow> gconn list \<Rightarrow> nat \<Rightarrow> source_group \<Rightarrow> source_group list \<Rightarrow> source_group list" where
  "groups_loop withData withoutData next currentGroup groups =
     (if withData = [] \<and> withoutData = [] then groups @ [currentGroup]
      else case take_input next withData of
        Some (c, rest) \<Rightarrow>
          groups_loop rest withoutData (Suc next)
            (currentGroup\<lparr>sg_connections := sg_connections currentGroup @ [c]\<rparr>) groups
      | None \<Rightarrow>
          (case take_input next withoutData of
            Some (c, rest) \<Rightarrow>
              groups_loop withData rest (Suc next)
                \<lparr>sg_complete = False, sg_connections = sg_connections currentGroup @ [c]\<rparr> groups
          | None \<Rightarrow>
              groups_loop withData withoutData (min_input (withData @ withoutData)) newGroup
                (groups @ [currentGroup])))"
  by pat_completeness auto
termination
proof (relation "measures [\<lambda>(a, b, n, g, gs). length a + length b,
    \<lambda>(a, b, n, g, gs). if n \<in> g_in ` set (a @ b) then 0 else 1]", goal_cases)
  case (2 a b n g gs)
  then have "n \<notin> g_in ` set (a @ b)" by (auto simp: take_input_None)
  moreover have "min_input (a @ b) \<in> g_in ` set (a @ b)"
    using 2(1) unfolding min_input_def by (intro Min_in) auto
  ultimately show ?case by simp
qed (auto dest: take_input_length)

declare groups_loop.simps [simp del]

definition hasSourceData :: "run_data \<Rightarrow> pin_data \<Rightarrow> gconn \<Rightarrow> bool" where
  "hasSourceData runData pinnedData c \<longleftrightarrow>
     obj_has (n_name (g_from c)) runData \<or> obj_has (n_name (g_from c)) pinnedData"

definition getSourceDataGroups ::
    "(string \<Rightarrow> string \<Rightarrow> int) \<Rightarrow> dgraph \<Rightarrow> inode \<Rightarrow> run_data \<Rightarrow> pin_data \<Rightarrow> source_group list" where
  "getSourceDataGroups localeCompare g node runData pinnedData =
     (let connections = getConnections g (Some node);
          withData = filter (hasSourceData runData pinnedData) connections;
          withoutData = filter (\<lambda>c. \<not> hasSourceData runData pinnedData c \<and> g_type c = Main) connections
      in if withData = [] \<and> withoutData = [] then []
         else groups_loop (js_sort (sortByInputIndexThenByName localeCompare) withData)
                (js_sort (sortByInputIndexThenByName localeCompare) withoutData)
                (min_input (withData @ withoutData)) newGroup [])"

subsection \<open>Waiting entries\<close>

definition wait_for :: "(nat, (ctype, 'a jsval list) jsmap) jsmap obj \<Rightarrow> string \<Rightarrow> nat \<Rightarrow> ctype \<Rightarrow> nat
    \<Rightarrow> 'a jsval \<Rightarrow> (nat, (ctype, 'a jsval list) jsmap) jsmap obj" where
  "wait_for waiting nodeName runIndex inputType inputIndex v =
     (let entry = (case obj_get waiting nodeName of None \<Rightarrow> [] | Some e \<Rightarrow> e);
          conns' = (case obj_get entry runIndex of None \<Rightarrow> [] | Some c \<Rightarrow> c);
          slots = (case obj_get conns' inputType of None \<Rightarrow> [] | Some s \<Rightarrow> s)
      in obj_set nodeName (obj_set runIndex (obj_set inputType (arr_set slots inputIndex v) conns') entry) waiting)"

definition addWaitingExecution ::
    "waiting_execution \<Rightarrow> string \<Rightarrow> nat \<Rightarrow> ctype \<Rightarrow> nat \<Rightarrow> items jsval \<Rightarrow> waiting_execution" where
  "addWaitingExecution waitingExecution nodeName runIndex inputType inputIndex executionData =
     wait_for waitingExecution nodeName runIndex inputType inputIndex executionData"

definition addWaitingExecutionSource ::
    "waiting_source \<Rightarrow> string \<Rightarrow> nat \<Rightarrow> ctype \<Rightarrow> nat \<Rightarrow> source_data jsval \<Rightarrow> waiting_source" where
  "addWaitingExecutionSource waitingExecutionSource nodeName runIndex inputType inputIndex sourceData =
     wait_for waitingExecutionSource nodeName runIndex inputType inputIndex sourceData"

subsection \<open>recreateNodeExecutionStack\<close>

record recreated =
  rc_stack :: "execute_data list"
  rc_waiting :: waiting_execution
  rc_waitingSource :: waiting_source

definition emptyItem :: item where
  "emptyItem = \<lparr>i_json = [], i_error = None, i_pairedItem = None, i_rest = []\<rparr>"

text \<open>One connection of a complete group: its data, if any, and its source.\<close>

definition sourceOf ::
    "run_data \<Rightarrow> pin_data \<Rightarrow> gconn \<Rightarrow> items jsval list \<times> source_data jsval list
      \<Rightarrow> js_error + items jsval list \<times> source_data jsval list" where
  "sourceOf runData pinData c = (\<lambda>(incomingData, mainSource).
     let source = (\<lambda>runIndex. JsVal \<lparr>previousNode = n_name (g_from c),
           previousNodeOutput = Some (g_out c), previousNodeRun = Some runIndex\<rparr>)
     in case obj_get pinData (n_name (g_from c)) of
          Some pinned \<Rightarrow> Inr (incomingData @ [JsVal pinned], mainSource @ [source 0])
        | None \<Rightarrow>
            bindE (assertE (obj_has (n_name (g_from c)) runData)) (\<lambda>_.
            bindE (getIncomingDataFromAnyRun runData (n_name (g_from c)) (g_type c) (g_out c)) (\<lambda>found.
              case found of
                Some (data, runIndex) \<Rightarrow> Inr (incomingData @ [JsVal data], mainSource @ [source runIndex])
              | None \<Rightarrow> Inr (incomingData, mainSource @ [source 0]))))"

definition pushComplete ::
    "inode \<Rightarrow> run_data \<Rightarrow> pin_data \<Rightarrow> gconn list \<Rightarrow> recreated \<Rightarrow> js_error + recreated" where
  "pushComplete startNode runData pinData cs rc =
     bindE (foldE (sourceOf runData pinData) cs ([], [])) (\<lambda>(incomingData, mainSource).
       Inr (rc\<lparr>rc_stack := rc_stack rc @ [\<lparr>ed_data = [(Main, incomingData)], ed_metadata = None,
         ed_node = startNode, ed_source = Some [(Main, mainSource)], ed_runIndex = None\<rparr>]\<rparr>))"

definition waitFor ::
    "inode \<Rightarrow> run_data \<Rightarrow> nat \<Rightarrow> gconn \<Rightarrow> recreated \<Rightarrow> js_error + recreated" where
  "waitFor startNode runData nextRunIndex c rc =
     bindE (getIncomingDataFromAnyRun runData (n_name (g_from c)) (g_type c) (g_out c)) (\<lambda>found.
       case found of None \<Rightarrow> Inr rc
       | Some (data, runIndex) \<Rightarrow>
           Inr (rc\<lparr>rc_waiting := addWaitingExecution (rc_waiting rc) (n_name startNode) nextRunIndex
                     (g_type c) (g_in c) (JsVal data),
                   rc_waitingSource := addWaitingExecutionSource (rc_waitingSource rc) (n_name startNode)
                     nextRunIndex (g_type c) (g_in c)
                     (JsVal \<lparr>previousNode = n_name (g_from c), previousNodeOutput = Some (g_out c),
                        previousNodeRun = Some nextRunIndex\<rparr>)\<rparr>))"

definition pushGroup ::
    "inode \<Rightarrow> run_data \<Rightarrow> pin_data \<Rightarrow> source_group \<Rightarrow> recreated \<Rightarrow> js_error + recreated" where
  "pushGroup startNode runData pinData grp rc =
     (if sg_complete grp then pushComplete startNode runData pinData (sg_connections grp) rc
      else let nextRunIndex = (case obj_get (rc_waiting rc) (n_name startNode) of None \<Rightarrow> 0 | Some e \<Rightarrow> length e)
           in foldE (waitFor startNode runData nextRunIndex) (sg_connections grp) rc)"

definition pushStartNode ::
    "(string \<Rightarrow> string \<Rightarrow> int) \<Rightarrow> dgraph \<Rightarrow> run_data \<Rightarrow> pin_data \<Rightarrow> inode \<Rightarrow> recreated \<Rightarrow> js_error + recreated" where
  "pushStartNode localeCompare g runData pinData startNode rc =
     bindE (getDirectParentConnections g startNode) (\<lambda>parents.
       if filter (\<lambda>c. g_type c = Main) parents = []
       then Inr (rc\<lparr>rc_stack := rc_stack rc @ [\<lparr>ed_data = [(Main, [JsVal [emptyItem]])], ed_metadata = None,
              ed_node = startNode, ed_source = None, ed_runIndex = None\<rparr>]\<rparr>)
       else foldE (pushGroup startNode runData pinData)
              (getSourceDataGroups localeCompare g startNode runData pinData) rc)"

definition recreateNodeExecutionStack ::
    "(string \<Rightarrow> string \<Rightarrow> int) \<Rightarrow> dgraph \<Rightarrow> inode list \<Rightarrow> run_data \<Rightarrow> pin_data \<Rightarrow> js_error + recreated" where
  "recreateNodeExecutionStack localeCompare g startNodes runData pinData =
     bindE (assertE (\<forall>node \<in> set (graph_nodes g). n_disabled node \<noteq> Some True)) (\<lambda>_.
       foldE (pushStartNode localeCompare g runData pinData) startNodes
         \<lparr>rc_stack = [], rc_waiting = [], rc_waitingSource = []\<rparr>)"

end
