(* ===== verification/ExecState.thy ===== *)
theory ExecState
  imports StackRecreation
begin

section \<open>The state of an execution\<close>

text \<open>
  \<open>IRunExecutionData\<close> with what the engine keeps beside it: the status, the flag of a timeout and
  the counter of executed nodes. \<open>createRunExecutionData\<close> is in
  \<open>packages/workflow/src/run-execution-data-factory.ts\<close>.
\<close>

record exec_state =
  x_runData :: run_data
  x_pinData :: "pin_data option"
  x_lastNodeExecuted :: "string option"
  x_error :: "node_error option"
  x_stack :: "execute_data list"
  x_waiting :: waiting_execution
  x_waitingSource :: waiting_source
  x_metadata :: "task_metadata list obj"
  x_destinationNode :: "destination_node option"
  x_originalDestinationNode :: "destination_node option"
  x_runNodeFilter :: "string list option"
  x_waitTill :: "int option"
  x_status :: execution_status
  x_timedOut :: bool
  x_executionIndex :: nat

record run_options =
  ro_destinationNode :: "destination_node option"
  ro_originalDestinationNode :: "destination_node option"
  ro_runNodeFilter :: "string list option"
  ro_runData :: "run_data option"
  ro_pinData :: "pin_data option"
  ro_stack :: "execute_data list option"
  ro_waiting :: "waiting_execution option"
  ro_waitingSource :: "waiting_source option"

definition createRunExecutionData :: "run_options \<Rightarrow> exec_state" where
  "createRunExecutionData o' =
     \<lparr>x_runData = (case ro_runData o' of None \<Rightarrow> [] | Some r \<Rightarrow> r),
      x_pinData = ro_pinData o', x_lastNodeExecuted = None, x_error = None,
      x_stack = (case ro_stack o' of None \<Rightarrow> [] | Some s \<Rightarrow> s),
      x_waiting = (case ro_waiting o' of None \<Rightarrow> [] | Some w \<Rightarrow> w),
      x_waitingSource = (case ro_waitingSource o' of None \<Rightarrow> [] | Some w \<Rightarrow> w),
      x_metadata = [], x_destinationNode = ro_destinationNode o',
      x_originalDestinationNode = ro_originalDestinationNode o', x_runNodeFilter = ro_runNodeFilter o',
      x_waitTill = None, x_status = Running, x_timedOut = False, x_executionIndex = 0\<rparr>"

text \<open>
  A node that a connection names but the workflow lacks is put on the stack as \<open>undefined\<close>; the
  next read of its name throws. The model throws where the node is looked up.
\<close>

definition nodeOf :: "workflow \<Rightarrow> string \<Rightarrow> js_error + inode" where
  "nodeOf w n = (case obj_get (w_nodes w) n of None \<Rightarrow> Inl TypeError | Some node \<Rightarrow> Inr node)"

definition enqueue :: "workflow \<Rightarrow> execute_data \<Rightarrow> exec_state \<Rightarrow> exec_state" where
  "enqueue w e st = st\<lparr>x_stack := (if isLegacyExecutionOrder w then x_stack st @ [e] else e # x_stack st)\<rparr>"

text \<open>\<open>i || undefined\<close>\<close>

definition orUndefined :: "nat \<Rightarrow> nat option" where
  "orUndefined i = (if i = 0 then None else Some i)"

definition sourceFrom :: "string \<Rightarrow> nat \<Rightarrow> nat \<Rightarrow> source_data" where
  "sourceFrom parentNodeName outputIndex runIndex =
     \<lparr>previousNode = parentNodeName, previousNodeOutput = orUndefined outputIndex,
      previousNodeRun = orUndefined runIndex\<rparr>"

end
