(* ===== verification/EngineQueue.thy ===== *)
theory EngineQueue
  imports ExecState
begin

section \<open>Queueing nodes: the execution stack and the waiting nodes\<close>

text \<open>
  \<open>workflow-execute.ts\<close>: \<open>incomingConnectionIsEmpty\<close>, \<open>prepareWaitingToExecution\<close> and
  \<open>addNodeToBeExecuted\<close>. \<open>nodeSuccessData\<close> is the output of the parent, \<open>None\<close> for \<open>null\<close>.
\<close>

subsection \<open>incomingConnectionIsEmpty\<close>

text \<open>The lookup along the path ends in \<open>undefined\<close>, in \<open>null\<close>, whose length throws, or in items.\<close>

definition itemsAt :: "run_data \<Rightarrow> string \<Rightarrow> nat \<Rightarrow> nat \<Rightarrow> items jsval" where
  "itemsAt runData nodeName runIndex outputIndex =
     (case obj_get runData nodeName of None \<Rightarrow> JsUndef
      | Some runs \<Rightarrow> (case idx runs runIndex of None \<Rightarrow> JsUndef
        | Some task \<Rightarrow> (case td_data task of None \<Rightarrow> JsUndef
          | Some data \<Rightarrow> (case obj_get data Main of None \<Rightarrow> JsUndef
            | Some outputs \<Rightarrow> arr_get outputs outputIndex))))"

fun incomingConnectionIsEmpty :: "run_data \<Rightarrow> conn list \<Rightarrow> nat \<Rightarrow> js_error + bool" where
  "incomingConnectionIsEmpty runData [] runIndex = Inr True"
| "incomingConnectionIsEmpty runData (c # cs) runIndex =
     (case itemsAt runData (c_node c) runIndex (c_index c) of
        JsUndef \<Rightarrow> incomingConnectionIsEmpty runData cs runIndex
      | JsNull \<Rightarrow> Inl TypeError
      | JsVal items \<Rightarrow> if items \<noteq> [] then Inr False else incomingConnectionIsEmpty runData cs runIndex)"

text \<open>\<open>workflow.connectionsByDestinationNode[nodeName].main[0] ?? []\<close>\<close>

definition firstInput :: "workflow \<Rightarrow> string \<Rightarrow> js_error + conn list" where
  "firstInput w nodeName =
     (case main_inputs (w_connectionsByDestinationNode w) nodeName of
        None \<Rightarrow> Inl TypeError
      | Some slots \<Rightarrow> Inr (case idx slots 0 of None \<Rightarrow> [] | Some cs \<Rightarrow> opt_list cs))"

definition firstInputIsEmpty :: "workflow \<Rightarrow> exec_state \<Rightarrow> string \<Rightarrow> nat \<Rightarrow> js_error + bool" where
  "firstInputIsEmpty w st nodeName runIndex =
     bindE (firstInput w nodeName) (\<lambda>cs. incomingConnectionIsEmpty (x_runData st) cs runIndex)"

subsection \<open>Waiting entries\<close>

definition set_entry :: "string \<Rightarrow> nat \<Rightarrow> 'e \<Rightarrow> (nat, 'e) jsmap obj \<Rightarrow> (nat, 'e) jsmap obj" where
  "set_entry nodeName i e W =
     obj_set nodeName (obj_set i e (case obj_get W nodeName of None \<Rightarrow> [] | Some es \<Rightarrow> es)) W"

definition del_entry :: "string \<Rightarrow> nat \<Rightarrow> (nat, 'e) jsmap obj \<Rightarrow> (nat, 'e) jsmap obj" where
  "del_entry nodeName i W =
     (case obj_get W nodeName of None \<Rightarrow> W | Some es \<Rightarrow> obj_set nodeName (obj_del i es) W)"

definition get_entry :: "(nat, 'e) jsmap obj \<Rightarrow> string \<Rightarrow> nat \<Rightarrow> 'e option" where
  "get_entry W nodeName i = (case obj_get W nodeName of None \<Rightarrow> None | Some es \<Rightarrow> obj_get es i)"

definition main_slots :: "(nat, (ctype, 'a jsval list) jsmap) jsmap obj \<Rightarrow> string \<Rightarrow> nat \<Rightarrow> js_error + 'a jsval list" where
  "main_slots W nodeName i =
     (case get_entry W nodeName i of None \<Rightarrow> Inl TypeError
      | Some cs \<Rightarrow> (case obj_get cs Main of None \<Rightarrow> Inl TypeError | Some slots \<Rightarrow> Inr slots))"

definition set_main_slot ::
    "string \<Rightarrow> nat \<Rightarrow> nat \<Rightarrow> 'a jsval \<Rightarrow> (nat, (ctype, 'a jsval list) jsmap) jsmap obj
      \<Rightarrow> js_error + (nat, (ctype, 'a jsval list) jsmap) jsmap obj" where
  "set_main_slot nodeName i k v W =
     (case get_entry W nodeName i of None \<Rightarrow> Inl TypeError
      | Some cs \<Rightarrow> (case obj_get cs Main of None \<Rightarrow> Inl TypeError
        | Some slots \<Rightarrow> Inr (set_entry nodeName i (obj_set Main (arr_set slots k v) cs) W)))"

text \<open>Removes an entry from waiting, and the node when nothing is left of it.\<close>

definition stop_waiting :: "string \<Rightarrow> nat \<Rightarrow> exec_state \<Rightarrow> exec_state" where
  "stop_waiting nodeName i st =
     (let W = del_entry nodeName i (x_waiting st);
          S = del_entry nodeName i (x_waitingSource st)
      in if obj_get W nodeName = Some []
         then st\<lparr>x_waiting := obj_del nodeName W, x_waitingSource := obj_del nodeName S\<rparr>
         else st\<lparr>x_waiting := W, x_waitingSource := S\<rparr>)"

definition prepareWaitingToExecution :: "string \<Rightarrow> nat \<Rightarrow> nat \<Rightarrow> exec_state \<Rightarrow> exec_state" where
  "prepareWaitingToExecution nodeName numberOfConnections runIndex st =
     st\<lparr>x_waiting := set_entry nodeName runIndex [(Main, replicate numberOfConnections JsNull)] (x_waiting st),
        x_waitingSource := set_entry nodeName runIndex [(Main, replicate numberOfConnections JsNull)] (x_waitingSource st)\<rparr>"

text \<open>The first waiting entry, in ascending order, that lacks data for the input.\<close>

fun find_waiting_entry :: "(nat, task_conns) jsmap \<Rightarrow> nat \<Rightarrow> nat list \<Rightarrow> js_error + nat option" where
  "find_waiting_entry entries k [] = Inr None"
| "find_waiting_entry entries k (i # is) =
     (case obj_get entries i of None \<Rightarrow> Inl TypeError
      | Some cs \<Rightarrow> (case obj_get cs Main of None \<Rightarrow> Inl TypeError
        | Some slots \<Rightarrow> if jsval_opt (arr_get slots k) = None then Inr (Some i)
                        else find_waiting_entry entries k is))"

definition waiting_entries :: "exec_state \<Rightarrow> string \<Rightarrow> (nat, task_conns) jsmap" where
  "waiting_entries st nodeName = (case obj_get (x_waiting st) nodeName of None \<Rightarrow> [] | Some es \<Rightarrow> es)"

definition open_waiting :: "string \<Rightarrow> exec_state \<Rightarrow> exec_state" where
  "open_waiting nodeName st =
     (if obj_has nodeName (x_waiting st) then st
      else st\<lparr>x_waiting := obj_set nodeName [] (x_waiting st),
              x_waitingSource := obj_set nodeName [] (x_waitingSource st)\<rparr>)"

text \<open>
  The entry the data goes to, created when every existing one has data for the input. A new
  entry's index is the number of entries, whatever their indexes are.
\<close>

definition choose_entry :: "workflow \<Rightarrow> conn \<Rightarrow> nat \<Rightarrow> exec_state \<Rightarrow> js_error + nat \<times> exec_state" where
  "choose_entry w connectionData numberOfInputs st =
     (let entries = waiting_entries st (c_node connectionData)
      in bindE (find_waiting_entry entries (c_index connectionData) (num_keys entries)) (\<lambda>found.
           case found of
             Some i \<Rightarrow> Inr (i, st)
           | None \<Rightarrow> Inr (length entries,
               prepareWaitingToExecution (c_node connectionData) numberOfInputs (length entries) st)))"

text \<open>\<open>nodeSuccessData === null ? null : nodeSuccessData[outputIndex]\<close>\<close>

definition outputData :: "items jsval list option \<Rightarrow> nat \<Rightarrow> items jsval" where
  "outputData nodeSuccessData outputIndex =
     (case nodeSuccessData of None \<Rightarrow> JsNull | Some d \<Rightarrow> arr_get d outputIndex)"

definition store_data ::
    "conn \<Rightarrow> nat \<Rightarrow> string \<Rightarrow> items jsval list option \<Rightarrow> nat \<Rightarrow> nat \<Rightarrow> exec_state \<Rightarrow> js_error + exec_state" where
  "store_data connectionData outputIndex parentNodeName nodeSuccessData runIndex i st =
     bindE (set_main_slot (c_node connectionData) i (c_index connectionData)
              (outputData nodeSuccessData outputIndex) (x_waiting st)) (\<lambda>W.
     bindE (set_main_slot (c_node connectionData) i (c_index connectionData)
              (if nodeSuccessData = None then JsNull else JsVal (sourceFrom parentNodeName outputIndex runIndex))
              (x_waitingSource st)) (\<lambda>S.
       Inr (st\<lparr>x_waiting := W, x_waitingSource := S\<rparr>)))"

definition release :: "workflow \<Rightarrow> string \<Rightarrow> nat \<Rightarrow> exec_state \<Rightarrow> js_error + exec_state" where
  "release w nodeName i st =
     bindE (nodeOf w nodeName) (\<lambda>node.
       case (get_entry (x_waiting st) nodeName i, get_entry (x_waitingSource st) nodeName i) of
         (Some data, source) \<Rightarrow>
           Inr (stop_waiting nodeName i (enqueue w \<lparr>ed_data = data, ed_metadata = None, ed_node = node,
             ed_source = source, ed_runIndex = None\<rparr> st))
       | _ \<Rightarrow> Inl TypeError)"

subsection \<open>The other inputs of a node that begins to wait\<close>

definition output_nodes :: "workflow \<Rightarrow> string \<Rightarrow> js_error + string list" where
  "output_nodes w parentNodeName =
     (case obj_get (w_connectionsBySourceNode w) parentNodeName of
        None \<Rightarrow> Inl TypeError
      | Some byType \<Rightarrow> Inr (case obj_get byType Main of None \<Rightarrow> []
          | Some slots \<Rightarrow> map c_node (concat (map opt_list slots))))"

fun pick_node ::
    "string list \<Rightarrow> string list \<Rightarrow> run_data \<Rightarrow> string \<Rightarrow> string list \<Rightarrow> string option \<Rightarrow> string option" where
  "pick_node outs stacked runData inputNode [] nodeToAdd = nodeToAdd"
| "pick_node outs stacked runData inputNode (p # ps) nodeToAdd =
     (if inputNode \<noteq> p \<and> p \<in> set outs then None
      else if p \<in> set stacked then None
      else if obj_has p runData then nodeToAdd
      else pick_node outs stacked runData inputNode ps (Some p))"

text \<open>\<open>getParentNodes(undefined)\<close> looks up the property \<open>undefined\<close>.\<close>

definition parents_of_pick :: "workflow \<Rightarrow> string option \<Rightarrow> string list" where
  "parents_of_pick w nodeToAdd = parentNodes w (case nodeToAdd of None \<Rightarrow> ''undefined'' | Some n \<Rightarrow> n)"

definition noDataFor :: "items jsval list option \<Rightarrow> nat \<Rightarrow> js_error + bool" where
  "noDataFor nodeSuccessData outputIndex =
     (case outputData nodeSuccessData outputIndex of JsVal items \<Rightarrow> Inr (items = []) | _ \<Rightarrow> Inl TypeError)"

definition needsEmptyItem :: "workflow \<Rightarrow> exec_state \<Rightarrow> string \<Rightarrow> nat \<Rightarrow> js_error + bool" where
  "needsEmptyItem w st nodeName runIndex =
     (if \<not> obj_has nodeName (w_connectionsByDestinationNode w) then Inr True
      else firstInputIsEmpty w st nodeName runIndex)"

definition force_input ::
    "workflow \<Rightarrow> string \<Rightarrow> string list \<Rightarrow> nat \<Rightarrow> items jsval list option \<Rightarrow> nat \<Rightarrow> string list \<Rightarrow> string
      \<Rightarrow> exec_state \<Rightarrow> js_error + exec_state" where
  "force_input w parentNodeName outs outputIndex nodeSuccessData runIndex stacked inputNode st =
     (let picked = pick_node outs stacked (x_runData st) inputNode (rev (parentNodes w inputNode @ [inputNode])) (Some inputNode)
      in bindE (if parentNodeName \<in> set (parents_of_pick w picked)
                then noDataFor nodeSuccessData outputIndex else Inr False) (\<lambda>drop'.
           case (if drop' then None else picked) of
             None \<Rightarrow> Inr st
           | Some nodeToAdd \<Rightarrow>
               bindE (needsEmptyItem w st nodeToAdd runIndex) (\<lambda>addEmptyItem.
                 if addEmptyItem
                 then bindE (nodeOf w nodeToAdd) (\<lambda>node.
                   Inr (enqueue w \<lparr>ed_data = [(Main, [JsVal [emptyItem]])], ed_metadata = None, ed_node = node,
                     ed_source = Some [(Main, [JsVal (sourceFrom parentNodeName outputIndex runIndex)])],
                     ed_runIndex = None\<rparr> st))
                 else Inr st)))"

definition check_input ::
    "workflow \<Rightarrow> string \<Rightarrow> string list \<Rightarrow> nat \<Rightarrow> items jsval list option \<Rightarrow> nat \<Rightarrow> conn
      \<Rightarrow> exec_state \<Rightarrow> js_error + exec_state" where
  "check_input w parentNodeName outs outputIndex nodeSuccessData runIndex inputData st =
     (if c_node inputData = parentNodeName then Inr st
      else let stacked = map (\<lambda>e. n_name (ed_node e)) (x_stack st)
      in bindE (if c_node inputData \<in> set outs
                then bindE (firstInputIsEmpty w st (c_node inputData) runIndex) (\<lambda>empty'. Inr (\<not> empty'))
                else Inr False) (\<lambda>willRun.
           if willRun \<or> c_node inputData \<in> set stacked \<or> obj_has (c_node inputData) (x_runData st)
             \<or> \<not> isLegacyExecutionOrder w
           then Inr st
           else force_input w parentNodeName outs outputIndex nodeSuccessData runIndex stacked (c_node inputData) st))"

definition check_inputs ::
    "workflow \<Rightarrow> string \<Rightarrow> string \<Rightarrow> nat \<Rightarrow> items jsval list option \<Rightarrow> nat \<Rightarrow> exec_state \<Rightarrow> js_error + exec_state" where
  "check_inputs w nodeName parentNodeName outputIndex nodeSuccessData runIndex st =
     bindE (output_nodes w parentNodeName) (\<lambda>outs.
       foldE (check_input w parentNodeName outs outputIndex nodeSuccessData runIndex)
         (case main_inputs (w_connectionsByDestinationNode w) nodeName of None \<Rightarrow> []
          | Some slots \<Rightarrow> concat (map opt_list slots)) st)"

subsection \<open>addNodeToBeExecuted\<close>

definition number_of_inputs :: "workflow \<Rightarrow> string \<Rightarrow> nat" where
  "number_of_inputs w nodeName =
     (case main_inputs (w_connectionsByDestinationNode w) nodeName of None \<Rightarrow> 0 | Some slots \<Rightarrow> length slots)"

text \<open>The entry keeps waiting: it is rebuilt from its \<open>main\<close> arrays.\<close>

definition keep_waiting ::
    "conn \<Rightarrow> nat \<Rightarrow> items jsval list option \<Rightarrow> nat \<Rightarrow> exec_state \<Rightarrow> js_error + exec_state" where
  "keep_waiting connectionData outputIndex nodeSuccessData i st =
     bindE (main_slots (x_waiting st) (c_node connectionData) i) (\<lambda>slots.
     bindE (main_slots (x_waitingSource st) (c_node connectionData) i) (\<lambda>sources.
       Inr (st\<lparr>x_waiting := set_entry (c_node connectionData) i
                 [(Main, arr_set slots (c_index connectionData) (outputData nodeSuccessData outputIndex))] (x_waiting st),
               x_waitingSource := set_entry (c_node connectionData) i [(Main, sources)] (x_waitingSource st)\<rparr>)))"

definition add_waiting ::
    "workflow \<Rightarrow> conn \<Rightarrow> nat \<Rightarrow> string \<Rightarrow> items jsval list option \<Rightarrow> nat \<Rightarrow> nat \<Rightarrow> exec_state \<Rightarrow> js_error + exec_state" where
  "add_waiting w connectionData outputIndex parentNodeName nodeSuccessData runIndex numberOfInputs st =
     (let nodeWasWaiting = obj_has (c_node connectionData) (x_waiting st)
      in bindE (choose_entry w connectionData numberOfInputs (open_waiting (c_node connectionData) st)) (\<lambda>(i, st1).
         bindE (store_data connectionData outputIndex parentNodeName nodeSuccessData runIndex i st1) (\<lambda>st2.
         bindE (main_slots (x_waiting st2) (c_node connectionData) i) (\<lambda>slots.
           if JsNull \<notin> set slots then release w (c_node connectionData) i st2
           else bindE (if nodeWasWaiting then Inr st2
                       else check_inputs w (c_node connectionData) parentNodeName outputIndex nodeSuccessData runIndex st2)
                  (keep_waiting connectionData outputIndex nodeSuccessData i)))))"

definition addNodeToBeExecuted ::
    "workflow \<Rightarrow> conn \<Rightarrow> nat \<Rightarrow> string \<Rightarrow> items jsval list option \<Rightarrow> nat \<Rightarrow> nat option \<Rightarrow> task_metadata option
      \<Rightarrow> exec_state \<Rightarrow> js_error + exec_state" where
  "addNodeToBeExecuted w connectionData outputIndex parentNodeName nodeSuccessData runIndex newRunIndex metadata st =
     (let numberOfInputs = number_of_inputs w (c_node connectionData)
      in if 1 < numberOfInputs
         then add_waiting w connectionData outputIndex parentNodeName nodeSuccessData runIndex numberOfInputs st
         else bindE (nodeOf w (c_node connectionData)) (\<lambda>node.
           Inr (enqueue w
             \<lparr>ed_data = [(Main, arr_set (replicate (Suc (c_index connectionData)) JsNull) (c_index connectionData)
                          (outputData nodeSuccessData outputIndex))],
              ed_metadata = metadata, ed_node = node,
              ed_source = Some [(Main, [JsVal (sourceFrom parentNodeName outputIndex runIndex)])],
              ed_runIndex = newRunIndex\<rparr> st)))"

end
