(* ===== verification/WorkflowSearch.thy ===== *)
theory WorkflowSearch
  imports WorkflowModel
begin

section \<open>Searches of the Workflow class\<close>

text \<open>
  \<open>getHighestNode\<close>, the breadth-first \<open>searchNodesBFS\<close>, \<open>getNodeConnectionIndexes\<close>, the choice
  of a start node and \<open>getConnectionsBetweenNodes\<close> of \<open>packages/workflow/src/workflow.ts\<close>.
\<close>

subsection \<open>getHighestNode\<close>

text \<open>
  The list of checked nodes is one array shared by all recursive calls, so it is threaded
  through the loop over the connections. \<open>highestLoop\<close> is that loop; the body of the recursive
  call on \<open>connection.node\<close> is written out in it, for a node that exists.
\<close>

definition own_highest :: "inode \<Rightarrow> string \<Rightarrow> string list" where
  "own_highest node nodeName = (if n_disabled node = Some False then [nodeName] else [])"

function highestLoop ::
    "workflow \<Rightarrow> conn list \<Rightarrow> string list \<Rightarrow> string list \<Rightarrow> string list \<times> string list" where
  "highestLoop w [] returnNodes checkedNodes = (returnNodes, checkedNodes)"
| "highestLoop w (connection # rest) returnNodes checkedNodes =
     (case obj_get (w_nodes w) (c_node connection) of
        None \<Rightarrow> highestLoop w rest returnNodes checkedNodes
      | Some node \<Rightarrow>
          if c_node connection \<in> set checkedNodes then highestLoop w rest returnNodes checkedNodes
          else
            (case main_inputs (w_connectionsByDestinationNode w) (c_node connection) of
               None \<Rightarrow> (\<lambda>(addNodes, checked).
                 highestLoop w rest
                   (fold set_add (if addNodes = [] \<and> n_disabled node \<noteq> Some True
                      then [c_node connection] else addNodes) returnNodes) checked)
                 (own_highest node (c_node connection), checkedNodes)
             | Some slots \<Rightarrow> (\<lambda>(addNodes, checked).
                 highestLoop w rest
                   (fold set_add (if addNodes = [] \<and> n_disabled node \<noteq> Some True
                      then [c_node connection] else addNodes) returnNodes) checked)
                 (highestLoop w (concat (map opt_list slots)) [] (checkedNodes @ [c_node connection]))))"
  by pat_completeness auto

lemma highestLoop_checked:
  "highestLoop_dom (w, cs, ret, checked) \<Longrightarrow> set checked \<subseteq> set (snd (highestLoop w cs ret checked))"
proof (induction rule: highestLoop.pinduct)
  case (2 w c cs ret checked)
  then show ?case
    by (force simp: highestLoop.psimps split: option.splits prod.splits)
qed (simp add: highestLoop.psimps)

termination highestLoop
proof (relation "measures [\<lambda>(w, cs, ret, checked). card (set (map fst (w_nodes w)) - set checked),
    \<lambda>(w, cs, ret, checked). length cs]", goal_cases)
  case (5 w connection rest ret checked node slots)
  then show ?case
    by (auto intro!: psubset_card_mono keys_shrink)
next
  case (6 w connection rest ret checked node slots add checked')
  then have "checked' = snd (highestLoop w (concat (map opt_list slots)) [] (checked @ [c_node connection]))"
    by (metis snd_conv)
  then have "insert (c_node connection) (set checked) \<subseteq> set checked'"
    using 6 highestLoop_checked [of w "concat (map opt_list slots)" "[]" "checked @ [c_node connection]"] by simp
  then have "set (map fst (w_nodes w)) - set checked' \<subset> set (map fst (w_nodes w)) - set checked"
    using 6 by (force dest: obj_get_mem)
  then show ?case by (simp add: psubset_card_mono)
qed auto

definition getHighestNode :: "workflow \<Rightarrow> string \<Rightarrow> nat option \<Rightarrow> js_error + string list" where
  "getHighestNode w nodeName nodeConnectionIndex =
     (case obj_get (w_nodes w) nodeName of
        None \<Rightarrow> Inl TypeError
      | Some node \<Rightarrow>
          (case main_inputs (w_connectionsByDestinationNode w) nodeName of
             None \<Rightarrow> Inr (own_highest node nodeName)
           | Some slots \<Rightarrow>
               let used = (case nodeConnectionIndex of None \<Rightarrow> slots
                           | Some i \<Rightarrow> (case idx slots i of None \<Rightarrow> [] | Some cs \<Rightarrow> [cs]))
               in Inr (fst (highestLoop w (concat (map opt_list used)) [] [nodeName]))))"

subsection \<open>searchNodesBFS\<close>

text \<open>
  One entry object per visited node is shared between \<open>visited\<close> and the result, and later
  connections to the node add their indexes to it. The result is therefore kept as the list of
  the visited names, read through \<open>visited\<close> at the end.
\<close>

record bfs_state =
  bfs_queue :: "connected_node list"
  bfs_visited :: "connected_node obj"
  bfs_order :: "string list"

definition bfs_push :: "conns \<Rightarrow> string \<Rightarrow> nat \<Rightarrow> connected_node list" where
  "bfs_push C name depth =
     map (\<lambda>c. \<lparr>cn_name = c_node c, cn_indicies = [c_index c], cn_depth = depth\<rparr>)
       (case main_inputs C name of None \<Rightarrow> [] | Some slots \<Rightarrow> concat (map opt_list slots))"

definition bfs_visit :: "conns \<Rightarrow> string \<Rightarrow> nat \<Rightarrow> connected_node \<Rightarrow> bfs_state \<Rightarrow> bfs_state" where
  "bfs_visit C sourceNode depth cur st =
     (case obj_get (bfs_visited st) (cn_name cur) of
        Some seen \<Rightarrow>
          st\<lparr>bfs_visited := obj_set (cn_name cur)
               (seen\<lparr>cn_indicies := mk_set (cn_indicies seen @ cn_indicies cur)\<rparr>) (bfs_visited st)\<rparr>
      | None \<Rightarrow>
          st\<lparr>bfs_visited := obj_set (cn_name cur) cur (bfs_visited st),
             bfs_order := (if cn_name cur \<noteq> sourceNode then bfs_order st @ [cn_name cur] else bfs_order st),
             bfs_queue := bfs_queue st @ bfs_push C (cn_name cur) depth\<rparr>)"

definition bfs_level :: "conns \<Rightarrow> string \<Rightarrow> nat \<Rightarrow> bfs_state \<Rightarrow> bfs_state" where
  "bfs_level C sourceNode depth st =
     fold (bfs_visit C sourceNode depth) (bfs_queue st) (st\<lparr>bfs_queue := []\<rparr>)"

definition conn_targets :: "conns \<Rightarrow> string list" where
  "conn_targets C = concat (map (\<lambda>(n, byType). concat (map (\<lambda>(t, slots).
     map c_node (concat (map opt_list slots))) byType)) C)"

lemma main_inputs_targets:
  "main_inputs C n = Some slots \<Longrightarrow> c \<in> set (concat (map opt_list slots)) \<Longrightarrow> c_node c \<in> set (conn_targets C)"
  by (force simp: main_inputs_def conn_targets_def dest!: obj_get_mem split: option.splits)

lemma bfs_push_targets: "cn_name ` set (bfs_push C n d) \<subseteq> set (conn_targets C)"
  using main_inputs_targets [of C n]
  by (cases "main_inputs C n") (auto simp: bfs_push_def simp del: set_concat)

lemma bfs_visit_keys [simp]:
  "fst ` set (bfs_visited (bfs_visit C src d q st)) = insert (cn_name q) (fst ` set (bfs_visited st))"
  using keys_obj_set [of "cn_name q" _ "bfs_visited st"]
  by (auto simp: bfs_visit_def split: option.splits)

lemma fold_bfs_visit_keys:
  "set (map fst (bfs_visited (fold (bfs_visit C src d) qs st))) = set (map fst (bfs_visited st)) \<union> cn_name ` set qs"
  by (induction qs arbitrary: st) simp_all

lemma fold_bfs_visit_queue:
  "cn_name ` set (bfs_queue (fold (bfs_visit C src d) qs st)) \<subseteq> cn_name ` set (bfs_queue st) \<union> set (conn_targets C)"
proof (induction qs arbitrary: st)
  case (Cons q qs)
  have "cn_name ` set (bfs_queue (bfs_visit C src d q st)) \<subseteq> cn_name ` set (bfs_queue st) \<union> set (conn_targets C)"
    using bfs_push_targets [of C "cn_name q" d] by (auto simp: bfs_visit_def split: option.splits)
  with Cons [of "bfs_visit C src d q st"] show ?case by auto
qed simp

lemma fold_bfs_visit_seen:
  "cn_name ` set qs \<subseteq> set (map fst (bfs_visited st)) \<Longrightarrow> bfs_queue (fold (bfs_visit C src d) qs st) = bfs_queue st"
proof (induction qs arbitrary: st)
  case (Cons q qs)
  from Cons.prems have "obj_get (bfs_visited st) (cn_name q) \<noteq> None"
    by (simp add: map_of_eq_None_iff)
  then have "bfs_queue (bfs_visit C src d q st) = bfs_queue st"
    by (auto simp: bfs_visit_def)
  moreover have "cn_name ` set qs \<subseteq> set (map fst (bfs_visited (bfs_visit C src d q st)))"
    using Cons.prems by auto
  ultimately show ?case using Cons.IH by simp
qed simp

function bfs_loop :: "conns \<Rightarrow> string \<Rightarrow> int \<Rightarrow> nat \<Rightarrow> bfs_state \<Rightarrow> bfs_state" where
  "bfs_loop C sourceNode maxDepth depth st =
     (if bfs_queue st = [] \<or> maxDepth \<noteq> -1 \<and> maxDepth < int depth then st
      else bfs_loop C sourceNode maxDepth (Suc depth) (bfs_level C sourceNode (Suc depth) st))"
  by pat_completeness auto
termination
proof (relation "measures [\<lambda>(C, src, m, d, st).
      card ((set (conn_targets C) \<union> cn_name ` set (bfs_queue st)) - set (map fst (bfs_visited st))),
    \<lambda>(C, src, m, d, st). length (bfs_queue st)]", goal_cases)
  case (2 C src m d st)
  let ?st = "bfs_level C src (Suc d) st"
  have keys: "set (map fst (bfs_visited ?st)) = set (map fst (bfs_visited st)) \<union> cn_name ` set (bfs_queue st)"
    unfolding bfs_level_def fold_bfs_visit_keys by simp
  have queue: "cn_name ` set (bfs_queue ?st) \<subseteq> set (conn_targets C)"
    unfolding bfs_level_def using fold_bfs_visit_queue [of C src "Suc d" "bfs_queue st" "st\<lparr>bfs_queue := []\<rparr>"]
    by simp
  show ?case
  proof (cases "cn_name ` set (bfs_queue st) \<subseteq> set (map fst (bfs_visited st))")
    case True
    then have "bfs_queue ?st = []"
      unfolding bfs_level_def by (subst fold_bfs_visit_seen) simp_all
    moreover have "card ((set (conn_targets C) \<union> cn_name ` set (bfs_queue ?st)) - set (map fst (bfs_visited ?st)))
      \<le> card ((set (conn_targets C) \<union> cn_name ` set (bfs_queue st)) - set (map fst (bfs_visited st)))"
      using keys queue by (intro card_mono) auto
    ultimately show ?thesis using 2 by (auto simp del: set_map)
  next
    case False
    then have "(set (conn_targets C) \<union> cn_name ` set (bfs_queue ?st)) - set (map fst (bfs_visited ?st))
      \<subset> (set (conn_targets C) \<union> cn_name ` set (bfs_queue st)) - set (map fst (bfs_visited st))"
      unfolding keys using queue by auto
    then show ?thesis by (simp add: psubset_card_mono del: set_map)
  qed
qed simp

declare bfs_loop.simps [simp del]

definition searchNodesBFS :: "conns \<Rightarrow> string \<Rightarrow> int \<Rightarrow> connected_node list" where
  "searchNodesBFS C sourceNode maxDepth =
     (let st = bfs_loop C sourceNode maxDepth 0
            \<lparr>bfs_queue = [\<lparr>cn_name = sourceNode, cn_indicies = [], cn_depth = 0\<rparr>],
             bfs_visited = [], bfs_order = []\<rparr>
      in List.map_filter (obj_get (bfs_visited st)) (bfs_order st))"

definition getParentNodesByDepth :: "workflow \<Rightarrow> string \<Rightarrow> int \<Rightarrow> connected_node list" where
  "getParentNodesByDepth w nodeName maxDepth =
     searchNodesBFS (w_connectionsByDestinationNode w) nodeName maxDepth"

subsection \<open>getNodeConnectionIndexes\<close>

text \<open>The position inside a slot is what the code returns as \<open>destinationIndex\<close>.\<close>

definition find_connection :: "string \<Rightarrow> node_inputs \<Rightarrow> node_connection option" where
  "find_connection parentNodeName slots =
     map_option (\<lambda>(i, c). \<lparr>sourceIndex = c_index c, destinationIndex = i\<rparr>)
       (find (\<lambda>(i, c). c_node c = parentNodeName) (concat (map (\<lambda>s. enumerate 0 (opt_list s)) slots)))"

function connection_indexes_loop ::
    "conns \<Rightarrow> string \<Rightarrow> ctype \<Rightarrow> string list \<Rightarrow> string list \<Rightarrow> node_connection option" where
  "connection_indexes_loop C parentNodeName type [] visited = None"
| "connection_indexes_loop C parentNodeName type (current # queue) visited =
     (if current \<in> set visited then connection_indexes_loop C parentNodeName type queue visited
      else case (case obj_get C current of None \<Rightarrow> None | Some byType \<Rightarrow> obj_get byType type) of
        None \<Rightarrow> connection_indexes_loop C parentNodeName type queue (visited @ [current])
      | Some slots \<Rightarrow>
          (case find_connection parentNodeName slots of
             Some r \<Rightarrow> Some r
           | None \<Rightarrow> connection_indexes_loop C parentNodeName type
               (queue @ filter (\<lambda>n. n \<notin> set (visited @ [current]))
                  (map c_node (concat (map opt_list slots)))) (visited @ [current])))"
  by pat_completeness auto
termination
proof (relation "measures [\<lambda>(C, p, t, queue, visited). card ((set (conn_targets C) \<union> set queue) - set visited),
    \<lambda>(C, p, t, queue, visited). length queue]", goal_cases)
  case (2 C p t current queue visited)
  have "card ((set (conn_targets C) \<union> set queue) - set visited)
      \<le> card ((set (conn_targets C) \<union> set (current # queue)) - set visited)"
    by (rule card_mono) auto
  then show ?case by auto
next
  case (3 C p t current queue visited)
  then show ?case by (auto intro!: psubset_card_mono)
next
  case (4 C p t current queue visited slots)
  then have "c_node c \<in> set (conn_targets C)" if "c \<in> set (concat (map opt_list slots))" for c
    using that by (force simp: conn_targets_def dest!: obj_get_mem split: option.splits)
  then have "(set (conn_targets C) \<union> set (queue @ filter (\<lambda>n. n \<notin> set (visited @ [current]))
      (map c_node (concat (map opt_list slots))))) - set (visited @ [current])
    \<subset> (set (conn_targets C) \<union> set (current # queue)) - set visited"
    using 4 by auto
  then show ?case by (simp add: psubset_card_mono del: set_concat)
qed simp

definition getNodeConnectionIndexes ::
    "workflow \<Rightarrow> string \<Rightarrow> string \<Rightarrow> ctype \<Rightarrow> node_connection option" where
  "getNodeConnectionIndexes w nodeName parentNodeName type =
     (case getNode w parentNodeName of
        None \<Rightarrow> None
      | Some _ \<Rightarrow> connection_indexes_loop (w_connectionsByDestinationNode w) parentNodeName type [nodeName] [])"

subsection \<open>getParentMainInputNode\<close>

text \<open>
  The node types' outputs can be expressions, so \<open>NodeHelpers.getNodeOutputs\<close> is an argument.
  Nothing bounds the recursion: \<open>None\<close> is an endless chain of non-main connections.
\<close>

partial_function (option) getParentMainInputNode ::
    "(inode \<Rightarrow> ctype list) \<Rightarrow> workflow \<Rightarrow> inode \<Rightarrow> (js_error + inode) option" where
  "getParentMainInputNode getNodeOutputs w node =
     (case w_nodeTypes w (n_type node) (n_typeVersion node) of
        None \<Rightarrow> Some (Inr node)
      | Some nodeType \<Rightarrow>
          let nonMain = sort (filter (\<lambda>t. t \<noteq> Main) (getNodeOutputs node));
              nodeConnections = (case obj_get (w_connectionsBySourceNode w) (n_name node) of
                  None \<Rightarrow> [] | Some byType \<Rightarrow> byType);
              connected = concat (map (\<lambda>type. if obj_has type nodeConnections
                  then getChildNodes (w_connectionsBySourceNode w) (n_name node) (OfType type) (-1)
                  else []) nonMain)
          in if connected = [] then Some (Inr node)
             else case getNode w (hd (sort connected)) of
                    None \<Rightarrow> Some (Inl (ApplicationError ''Node not found''))
                  | Some returnNode \<Rightarrow> getParentMainInputNode getNodeOutputs w returnNode)"

subsection \<open>The start node\<close>

definition startingNodeTypes :: "string list" where
  "startingNodeTypes = [''n8n-nodes-base.manualTrigger'', ''n8n-nodes-base.executeWorkflowTrigger'',
     ''n8n-nodes-base.errorTrigger'', ''n8n-nodes-base.start'', ''n8n-nodes-base.evaluationTrigger'',
     ''n8n-nodes-base.formTrigger'']"

fun index_of :: "'a \<Rightarrow> 'a list \<Rightarrow> int" where
  "index_of x [] = -1"
| "index_of x (y # ys) = (if x = y then 0 else let i = index_of x ys in if i = -1 then -1 else i + 1)"

fun first_trigger :: "workflow \<Rightarrow> string list \<Rightarrow> js_error + inode option" where
  "first_trigger w [] = Inr None"
| "first_trigger w (nodeName # rest) =
     (case obj_get (w_nodes w) nodeName of
        None \<Rightarrow> Inl TypeError
      | Some node \<Rightarrow>
          (case w_nodeTypes w (n_type node) (n_typeVersion node) of
             None \<Rightarrow> Inl TypeError
           | Some nodeType \<Rightarrow>
               if nt_name nodeType = ''@n8n/n8n-nodes-langchain.manualChatTrigger'' then first_trigger w rest
               else if nt_trigger nodeType \<or> nt_poll nodeType then
                 (if n_disabled node = Some True then first_trigger w rest else Inr (Some node))
               else first_trigger w rest))"

fun first_starting :: "workflow \<Rightarrow> string list \<Rightarrow> js_error + inode option" where
  "first_starting w [] = Inr None"
| "first_starting w (nodeName # rest) =
     (case obj_get (w_nodes w) nodeName of
        None \<Rightarrow> Inl TypeError
      | Some node \<Rightarrow>
          if n_type node \<in> set startingNodeTypes then
            (if n_disabled node = Some True then first_starting w rest else Inr (Some node))
          else first_starting w rest)"

definition start_among :: "workflow \<Rightarrow> string list \<Rightarrow> js_error + inode option" where
  "start_among w nodeNames =
     bindE (first_trigger w nodeNames) (\<lambda>r. case r of Some n \<Rightarrow> Inr (Some n)
       | None \<Rightarrow> first_starting w (map n_name (js_sort (\<lambda>a b.
           index_of (n_type a) startingNodeTypes - index_of (n_type b) startingNodeTypes)
           (obj_values (w_nodes w)))))"

definition getStartNodeOf :: "workflow \<Rightarrow> string list \<Rightarrow> js_error + inode option" where
  "getStartNodeOf w nodeNames =
     (case (if length nodeNames = 1 then obj_get (w_nodes w) (hd nodeNames) else None) of
        Some node \<Rightarrow>
          if n_disabled node \<noteq> Some True then Inr (Some node) else start_among w nodeNames
      | None \<Rightarrow> start_among w nodeNames)"

definition getStartNode :: "workflow \<Rightarrow> string option \<Rightarrow> js_error + inode option" where
  "getStartNode w destinationNode =
     (case destinationNode of
        Some d \<Rightarrow>
          if d = [] then getStartNodeOf w (obj_keys (w_nodes w))
          else bindE (getHighestNode w d None) (\<lambda>highest.
            let nodeNames = (if highest = [] then [d] else highest)
            in bindE (getStartNodeOf w nodeNames) (\<lambda>r. case r of Some n \<Rightarrow> Inr (Some n)
                 | None \<Rightarrow> Inr (obj_get (w_nodes w) (hd nodeNames))))
      | None \<Rightarrow> getStartNodeOf w (obj_keys (w_nodes w)))"

subsection \<open>getConnectionsBetweenNodes\<close>

definition getConnectionsBetweenNodes :: "workflow \<Rightarrow> string list \<Rightarrow> string list \<Rightarrow> (conn \<times> conn) list" where
  "getConnectionsBetweenNodes w sources targets =
     concat (map (\<lambda>source.
       concat (map (\<lambda>(type, slots).
         concat (map (\<lambda>(sourceIdx, cs).
           map (\<lambda>c. (\<lparr>c_node = source, c_type = type, c_index = sourceIdx\<rparr>, c))
             (filter (\<lambda>c. c_node c \<in> set targets) (opt_list cs)))
           (enumerate 0 slots)))
         (case obj_get (w_connectionsBySourceNode w) source of None \<Rightarrow> [] | Some byType \<Rightarrow> byType)))
       sources)"

end
