(* ===== verification/EngineNodes.thy ===== *)
theory EngineNodes
  imports EngineQueue WorkflowSearch
begin

section \<open>Running one node\<close>

text \<open>
  The methods of \<open>WorkflowExecute\<close> in \<open>workflow-execute.ts\<close> that decide what a node gets, which
  implementation runs, and what becomes of its output. What a node type implements (\<open>execute\<close>, a
  custom operation, \<open>poll\<close>, \<open>trigger\<close>, the routing of a declarative node) is code loaded at run
  time: it is an argument that returns output, an engine request or a thrown error, and may put the
  execution to wait. An error of the engine itself inside a try becomes a node error by \<open>errorOf\<close>.
\<close>

record engine_response =
  rs_actionResponses :: "(task_data \<times> engine_action) list"
  rs_metadata :: json

definition makeEngineResponse :: engine_response where
  "makeEngineResponse = \<lparr>rs_actionResponses = [], rs_metadata = JObj []\<rparr>"

text \<open>\<open>IRunNodeResponse | EngineRequest\<close>; data that is \<open>null\<close> or \<open>undefined\<close> is \<open>None\<close>.\<close>

datatype run_result = Response "items jsval list option" "string list" | Request engine_request

fun isEngineRequest :: "run_result \<Rightarrow> bool" where
  "isEngineRequest (Request r) = True"
| "isEngineRequest (Response d h) = False"

datatype node_impl = Execute | CustomOperation "string \<times> string" | Poll | Trigger | Declarative

record node_call =
  nc_node :: inode
  nc_runIndex :: nat
  nc_connectionInputData :: items
  nc_inputData :: task_conns
  nc_subNodeExecutionResults :: "engine_response option"

type_synonym outcome = "(node_error + run_result) \<times> int option"

record engine_env =
  ev_errorOf :: "js_error \<Rightarrow> node_error"
  ev_mainOutputs :: "workflow \<Rightarrow> inode \<Rightarrow> nat"
  ev_getPairedItem :: "exec_state \<Rightarrow> string \<Rightarrow> source_data \<Rightarrow> paired_data \<Rightarrow> node_error + item option"
  ev_requiredInputs :: "workflow \<Rightarrow> inode \<Rightarrow> string \<Rightarrow> required_inputs option"
  ev_parameterIssues :: "node_type \<Rightarrow> inode \<Rightarrow> string list \<Rightarrow> bool"
  ev_timeout :: "int option"
  ev_manual :: bool

subsection \<open>Before the execution\<close>

datatype node_issue = TypeUnknown | ParameterIssues

text \<open>\<open>node.disabled\<close> of a node the workflow lacks throws.\<close>

fun check_nodes ::
    "engine_env \<Rightarrow> workflow \<Rightarrow> string list \<Rightarrow> string list \<Rightarrow> node_issue obj \<Rightarrow> js_error + node_issue obj" where
  "check_nodes env w pinned [] issues = Inr issues"
| "check_nodes env w pinned (nodeName # rest) issues =
     bindE (nodeOf w nodeName) (\<lambda>node.
       if n_disabled node = Some True then check_nodes env w pinned rest issues
       else check_nodes env w pinned rest
              (case w_nodeTypes w (n_type node) (n_typeVersion node) of
                 None \<Rightarrow> obj_set (n_name node) TypeUnknown issues
               | Some nodeType \<Rightarrow>
                   if ev_parameterIssues env nodeType node pinned then obj_set (n_name node) ParameterIssues issues
                   else issues))"

definition checkReadyForExecution ::
    "engine_env \<Rightarrow> workflow \<Rightarrow> string option \<Rightarrow> destination_node option \<Rightarrow> string list
      \<Rightarrow> js_error + node_issue obj option" where
  "checkReadyForExecution env w startNode destinationNode pinDataNodeNames =
     (let checkNodes = (case destinationNode of
            Some d \<Rightarrow> parentNodes w (dn_nodeName d) @ (if dn_mode d = Inclusive then [dn_nodeName d] else [])
          | None \<Rightarrow> (case startNode of None \<Rightarrow> []
              | Some s \<Rightarrow> if s = '''' then [] else childNodes w s @ [s]))
      in bindE (check_nodes env w pinDataNodeNames checkNodes []) (\<lambda>issues.
           Inr (if issues = [] then None else Some issues)))"

definition checkForWorkflowIssues :: "engine_env \<Rightarrow> workflow \<Rightarrow> exec_state \<Rightarrow> js_error + unit" where
  "checkForWorkflowIssues env w st =
     bindE (checkReadyForExecution env w
              (case x_stack st of [] \<Rightarrow> None | e # _ \<Rightarrow> Some (n_name (ed_node e)))
              (x_destinationNode st)
              (case x_pinData st of None \<Rightarrow> [] | Some p \<Rightarrow> obj_keys p)) (\<lambda>issues.
       if issues = None then Inr () else Inl WorkflowHasIssuesError)"

text \<open>
  Resuming from a wait: the node at the top of the stack is disabled, and the run it left is removed.
  The node object is shared by the workflow and the stack, so every copy of it is disabled.
\<close>

definition disable_node :: "string \<Rightarrow> inode \<Rightarrow> inode" where
  "disable_node nodeName node = (if n_name node = nodeName then node\<lparr>n_disabled := Some True\<rparr> else node)"

definition map_node :: "(inode \<Rightarrow> inode) \<Rightarrow> workflow \<times> exec_state \<Rightarrow> workflow \<times> exec_state" where
  "map_node f = (\<lambda>(w, st). (w\<lparr>w_nodes := map (\<lambda>(k, node). (k, f node)) (w_nodes w)\<rparr>,
     st\<lparr>x_stack := map (\<lambda>e. e\<lparr>ed_node := f (ed_node e)\<rparr>) (x_stack st)\<rparr>))"

definition handleWaitingState :: "workflow \<times> exec_state \<Rightarrow> js_error + workflow \<times> exec_state" where
  "handleWaitingState = (\<lambda>(w, st).
     if x_waitTill st = None then Inr (w, st)
     else case (x_stack st, x_lastNodeExecuted st) of
         (e # _, Some lastNodeExecuted) \<Rightarrow>
           (case obj_get (x_runData st) lastNodeExecuted of
              None \<Rightarrow> Inl TypeError
            | Some runs \<Rightarrow>
                Inr (map_node (disable_node (n_name (ed_node e)))
                  (w, st\<lparr>x_waitTill := None,
                         x_runData := obj_set lastNodeExecuted (butlast runs) (x_runData st)\<rparr>)))
       | _ \<Rightarrow> Inl TypeError)"

subsection \<open>What the node gets\<close>

definition getCustomOperation :: "inode \<Rightarrow> node_type \<Rightarrow> (string \<times> string) option" where
  "getCustomOperation node type =
     (case nt_customOperations type of None \<Rightarrow> None
      | Some customOperations \<Rightarrow>
          (case (case n_forceCustomOperation node of
                   Some (r, p) \<Rightarrow> Some (r, p)
                 | None \<Rightarrow> (case (obj_get (n_parameters node) ''resource'', obj_get (n_parameters node) ''operation'') of
                       (Some (JStr r), Some (JStr p)) \<Rightarrow> Some (r, p)
                     | _ \<Rightarrow> None)) of
             None \<Rightarrow> None
           | Some rp \<Rightarrow> if rp \<in> set customOperations then Some rp else None))"

definition handleDisabledNode :: "task_conns \<Rightarrow> items jsval list option" where
  "handleDisabledNode inputData =
     (case obj_get inputData Main of
        Some (d # _) \<Rightarrow> if d = JsNull then None else Some [d]
      | _ \<Rightarrow> None)"

fun first_with_items :: "items jsval list \<Rightarrow> items jsval option" where
  "first_with_items [] = None"
| "first_with_items (JsVal xs # ds) = (if xs \<noteq> [] then Some (JsVal xs) else first_with_items ds)"
| "first_with_items (d # ds) = first_with_items ds"

definition prepareConnectionInputData ::
    "workflow \<Rightarrow> node_type \<Rightarrow> (string \<times> string) option \<Rightarrow> task_conns \<Rightarrow> items option" where
  "prepareConnectionInputData w nodeType customOperation inputData =
     (if nt_execute nodeType \<or> customOperation \<noteq> None
         \<or> (\<not> nt_poll nodeType \<and> \<not> nt_trigger nodeType \<and> \<not> nt_webhook nodeType)
      then case obj_get inputData Main of
             Some (d # ds) \<Rightarrow>
               (case (if isLegacyExecutionOrder w then d
                      else case first_with_items (d # ds) of None \<Rightarrow> d | Some x \<Rightarrow> x) of
                  JsVal xs \<Rightarrow> if xs = [] then None else Some xs
                | _ \<Rightarrow> None)
           | _ \<Rightarrow> None
      else Some [])"

definition rethrowLastNodeError :: "exec_state \<Rightarrow> inode \<Rightarrow> node_error + unit" where
  "rethrowLastNodeError st node =
     (case x_error st of
        Some e \<Rightarrow>
          if x_lastNodeExecuted st = Some (n_name node)
          then if err_name e = ''NodeOperationError'' \<or> err_name e = ''NodeApiError'' then Inl e
               else Inl (e\<lparr>err_name := ''Error''\<rparr>)
          else Inr ()
      | None \<Rightarrow> Inr ())"

fun slice1 :: "items jsval \<Rightarrow> items jsval" where
  "slice1 (JsVal xs) = JsVal (take 1 xs)"
| "slice1 d = d"

definition handleExecuteOnce :: "inode \<Rightarrow> task_conns \<Rightarrow> task_conns" where
  "handleExecuteOnce node inputData =
     (if n_executeOnce node = Some True then map (\<lambda>(t, ds). (t, map slice1 ds)) inputData else inputData)"

definition passThrough :: "task_conns \<Rightarrow> outcome" where
  "passThrough inputData = (Inr (Response (obj_get inputData Main) []), None)"

definition runNode ::
    "engine_env \<Rightarrow> (node_impl \<Rightarrow> node_call \<Rightarrow> outcome) \<Rightarrow> workflow \<Rightarrow> execute_data \<Rightarrow> exec_state \<Rightarrow> nat
      \<Rightarrow> engine_response option \<Rightarrow> outcome" where
  "runNode env impl w executionData st runIndex results =
     (let node = ed_node executionData; inputData = ed_data executionData
      in if n_disabled node = Some True
         then (Inr (Response (handleDisabledNode inputData) []), None)
         else case w_nodeTypes w (n_type node) (n_typeVersion node) of
           None \<Rightarrow> (Inl (ev_errorOf env TypeError), None)
         | Some nodeType \<Rightarrow>
             (let customOperation = getCustomOperation node nodeType
              in case prepareConnectionInputData w nodeType customOperation inputData of
                   None \<Rightarrow> (Inr (Response None []), None)
                 | Some connectionInputData \<Rightarrow>
                     (case rethrowLastNodeError st node of
                        Inl e \<Rightarrow> (Inl e, None)
                      | Inr _ \<Rightarrow>
                          (let inputs = handleExecuteOnce node inputData;
                               call = (\<lambda>i. impl i \<lparr>nc_node = node, nc_runIndex = runIndex,
                                 nc_connectionInputData = connectionInputData, nc_inputData = inputs,
                                 nc_subNodeExecutionResults = results\<rparr>)
                           in case customOperation of
                                Some op \<Rightarrow> call (CustomOperation op)
                              | None \<Rightarrow>
                                  if nt_execute nodeType then call Execute
                                  else if nt_poll nodeType
                                  then (if ev_manual env then call Poll else passThrough inputs)
                                  else if nt_trigger nodeType
                                  then (if ev_manual env then call Trigger else passThrough inputs)
                                  else if nt_webhook nodeType \<and> \<not> nt_requestDefaults nodeType
                                  then passThrough inputs
                                  else call Declarative))))"

subsection \<open>Is the input there?\<close>

text \<open>
  The loop over the inputs of the node, from \<open>connectionIndex\<close> on; \<open>Inr (True, _)\<close> runs the node,
  \<open>Inr (False, _)\<close> has put it at the bottom of the stack. The guard compares
  \<open>main.length < connectionIndex\<close>, so an array that ends right before the input passes.
\<close>

definition push_back :: "execute_data \<Rightarrow> exec_state \<Rightarrow> exec_state" where
  "push_back e st = st\<lparr>x_stack := x_stack st @ [e]\<rparr>"

definition input_missing :: "items jsval list \<Rightarrow> nat \<Rightarrow> bool" where
  "input_missing main connectionIndex \<longleftrightarrow>
     length main < connectionIndex \<or> arr_get main connectionIndex = JsNull"

fun ensure_inputs ::
    "workflow \<Rightarrow> execute_data \<Rightarrow> nat list \<Rightarrow> exec_state \<Rightarrow> js_error + bool \<times> exec_state" where
  "ensure_inputs w executionData [] st = Inr (True, st)"
| "ensure_inputs w executionData (connectionIndex # rest) st =
     bindE (getHighestNode w (n_name (ed_node executionData)) (Some connectionIndex)) (\<lambda>highestNodes.
       if highestNodes = [] then Inr (True, st)
       else case obj_get (ed_data executionData) Main of
              None \<Rightarrow> Inr (False, push_back executionData st)
            | Some main \<Rightarrow>
                if isLegacyExecutionOrder w \<and> input_missing main connectionIndex
                then Inr (False, push_back executionData st)
                else ensure_inputs w executionData rest st)"

definition ensureInputData :: "workflow \<Rightarrow> execute_data \<Rightarrow> exec_state \<Rightarrow> js_error + bool \<times> exec_state" where
  "ensureInputData w executionData st =
     ensure_inputs w executionData
       [0..<number_of_inputs w (n_name (ed_node executionData))] st"

end
