(* ===== verification/EngineOutput.thy ===== *)
theory EngineOutput
  imports EngineNodes
begin

section \<open>What becomes of a node's output\<close>

text \<open>
  \<open>workflow-execute.ts\<close>: \<open>handleNodeErrorOutput\<close>, \<open>assignPairedItems\<close>, the item of
  \<open>alwaysOutputData\<close> and the merge of error information into the items.
\<close>

subsection \<open>assignPairedItems\<close>

definition paired_with :: "nat \<Rightarrow> paired_item" where
  "paired_with i = POne \<lparr>pd_item = i, pd_input = None, pd_sourceOverwrite = None\<rparr>"

text \<open>One output; the flag tells that the labelled loop was left.\<close>

fun assign_items :: "bool \<Rightarrow> bool \<Rightarrow> nat \<Rightarrow> items \<Rightarrow> items \<times> bool" where
  "assign_items single same index [] = ([], False)"
| "assign_items single same index (it # its) =
     (if i_pairedItem it \<noteq> None
      then (case assign_items single same (Suc index) its of (its', left) \<Rightarrow> (it # its', left))
      else if single
      then (case assign_items single same (Suc index) its of (its', left) \<Rightarrow>
              (it\<lparr>i_pairedItem := Some (paired_with 0)\<rparr> # its', left))
      else if same
      then (case assign_items single same (Suc index) its of (its', left) \<Rightarrow>
              (it\<lparr>i_pairedItem := Some (paired_with index)\<rparr> # its', left))
      else (it # its, True))"

fun assign_outputs :: "bool \<Rightarrow> bool \<Rightarrow> items jsval list \<Rightarrow> js_error + items jsval list" where
  "assign_outputs single same [] = Inr []"
| "assign_outputs single same (JsNull # ds) = bindE (assign_outputs single same ds) (\<lambda>ds'. Inr (JsNull # ds'))"
| "assign_outputs single same (JsUndef # ds) = Inl TypeError"
| "assign_outputs single same (JsVal its # ds) =
     (case assign_items single same 0 its of
        (its', True) \<Rightarrow> Inr (JsVal its' # ds)
      | (its', False) \<Rightarrow> bindE (assign_outputs single same ds) (\<lambda>ds'. Inr (JsVal its' # ds')))"

fun items_length :: "items jsval \<Rightarrow> nat option" where
  "items_length (JsVal xs) = Some (length xs)"
| "items_length d = None"

definition first_length :: "items jsval list \<Rightarrow> nat option" where
  "first_length main = items_length (arr_get main 0)"

text \<open>\<open>nodeSuccessData[0].length\<close> is read when there is one output and one input.\<close>

definition isSameNumberOfItems :: "items jsval list \<Rightarrow> items jsval list \<Rightarrow> js_error + bool" where
  "isSameNumberOfItems nodeSuccessData main =
     (if length nodeSuccessData = 1 \<and> length main = 1
      then case first_length nodeSuccessData of
             None \<Rightarrow> Inl TypeError
           | Some n \<Rightarrow> Inr (first_length main = Some n)
      else Inr False)"

definition assignPairedItems ::
    "items jsval list option \<Rightarrow> execute_data \<Rightarrow> js_error + items jsval list option" where
  "assignPairedItems nodeSuccessData executionData =
     (case nodeSuccessData of
        None \<Rightarrow> Inr None
      | Some [] \<Rightarrow> Inr (Some [])
      | Some outputs \<Rightarrow>
          (case obj_get (ed_data executionData) Main of
             None \<Rightarrow> Inl TypeError
           | Some main \<Rightarrow>
               bindE (isSameNumberOfItems outputs main) (\<lambda>same.
               bindE (assign_outputs (length main = 1 \<and> first_length main = Some 1) same outputs) (\<lambda>ds.
                 Inr (Some ds)))))"

subsection \<open>alwaysOutputData\<close>

definition allPairedItems :: "items jsval list \<Rightarrow> paired_data list" where
  "allPairedItems main =
     concat (map (\<lambda>(inputIndex, d).
       case d of
         JsVal its \<Rightarrow> map (\<lambda>itemIndex. \<lparr>pd_item = itemIndex, pd_input = Some inputIndex, pd_sourceOverwrite = None\<rparr>)
                       [0..<length its]
       | _ \<Rightarrow> []) (zip [0..<length main] main))"

fun has_first_item :: "items jsval list option \<Rightarrow> bool" where
  "has_first_item (Some (JsVal (it # its) # ds)) = True"
| "has_first_item _ = False"

definition alwaysOutputData ::
    "execute_data \<Rightarrow> items jsval list option \<Rightarrow> js_error + items jsval list option" where
  "alwaysOutputData executionData nodeSuccessData =
     (if has_first_item nodeSuccessData \<or> n_alwaysOutputData (ed_node executionData) \<noteq> Some True
      then Inr nodeSuccessData
      else case obj_get (ed_data executionData) Main of
             None \<Rightarrow> Inl TypeError
           | Some main \<Rightarrow>
               Inr (Some (arr_set (case nodeSuccessData of None \<Rightarrow> [] | Some ds \<Rightarrow> ds) 0
                 (JsVal [emptyItem\<lparr>i_pairedItem := Some (PMany (allPairedItems main))\<rparr>]))))"

subsection \<open>Errors in the items\<close>

fun str_field :: "json obj \<Rightarrow> string \<Rightarrow> string" where
  "str_field kvs k = (case obj_get kvs k of Some (JStr s) \<Rightarrow> s | _ \<Rightarrow> '''')"

text \<open>The \<open>message\<close> of a value; reading it off \<open>null\<close> throws.\<close>

fun json_error :: "json \<Rightarrow> js_error + node_error \<times> json obj" where
  "json_error JNull = Inl TypeError"
| "json_error (JObj kvs) =
     Inr (\<lparr>err_name = str_field kvs ''name'', err_message = str_field kvs ''message'', err_stack = str_field kvs ''stack''\<rparr>,
          case obj_get kvs ''message'' of None \<Rightarrow> [] | Some m \<Rightarrow> [(''error'', m)])"
| "json_error v = Inr (\<lparr>err_name = '''', err_message = '''', err_stack = ''''\<rparr>, [])"

definition merge_error :: "item \<Rightarrow> js_error + item" where
  "merge_error it =
     (case (obj_get (i_json it) ''$error'', obj_get (i_json it) ''$json'') of
        (Some e, Some _) \<Rightarrow> bindE (json_error e) (\<lambda>(err, js). Inr (it\<lparr>i_error := Some err, i_json := js\<rparr>))
      | _ \<Rightarrow> (case i_error it of
                None \<Rightarrow> Inr it
              | Some err \<Rightarrow> Inr (it\<lparr>i_json := [(''error'', JStr (err_message err))]\<rparr>)))"

fun mapM :: "('a \<Rightarrow> 'e + 'b) \<Rightarrow> 'a list \<Rightarrow> 'e + 'b list" where
  "mapM f [] = Inr []"
| "mapM f (x # xs) = bindE (f x) (\<lambda>y. bindE (mapM f xs) (\<lambda>ys. Inr (y # ys)))"

definition merge_errors :: "items jsval list option \<Rightarrow> js_error + items jsval list" where
  "merge_errors nodeSuccessData =
     (case nodeSuccessData of
        None \<Rightarrow> Inl TypeError
      | Some ds \<Rightarrow>
          mapM (\<lambda>d. case d of JsVal its \<Rightarrow> bindE (mapM merge_error its) (\<lambda>its'. Inr (JsVal its'))
                     | _ \<Rightarrow> Inl TypeError) ds)"

subsection \<open>handleNodeErrorOutput\<close>

definition errorData :: "item \<Rightarrow> bool" where
  "errorData it \<longleftrightarrow>
     i_error it \<noteq> None
     \<or> (let keys = length (i_json it);
            err = (case obj_get (i_json it) ''error'' of None \<Rightarrow> False | Some e \<Rightarrow> truthy e);
            msg = (case obj_get (i_json it) ''message'' of None \<Rightarrow> False | Some m \<Rightarrow> truthy m)
        in err \<and> keys = 1 \<or> err \<and> msg \<and> keys = 2)"

fun pairedItemData :: "item \<Rightarrow> paired_data option" where
  "pairedItemData it =
     (case i_pairedItem it of
        Some (POne p) \<Rightarrow> Some p
      | Some (PMany (p # ps)) \<Rightarrow> Some p
      | _ \<Rightarrow> None)"

definition spread :: "json obj \<Rightarrow> json obj \<Rightarrow> json obj" where
  "spread a b = fold (\<lambda>(k, v). obj_set k v) b a"

text \<open>What an item with an error becomes on the error output; the look-up of its source may throw.\<close>

definition error_item ::
    "engine_env \<Rightarrow> exec_state \<Rightarrow> execute_data \<Rightarrow> item \<Rightarrow> node_error + item" where
  "error_item env st executionData it =
     (case (ed_source executionData, pairedItemData it) of
        (Some source, Some p) \<Rightarrow>
          (case obj_get source Main of
             None \<Rightarrow> Inl (ev_errorOf env TypeError)
           | Some slots \<Rightarrow>
               (case arr_get slots (case pd_input p of None \<Rightarrow> 0 | Some i \<Rightarrow> i) of
                  JsVal sourceData \<Rightarrow>
                    (case ev_getPairedItem env st (previousNode sourceData) sourceData p of
                       Inl e \<Rightarrow> Inl e
                     | Inr None \<Rightarrow> Inr it
                     | Inr (Some constPairedItem) \<Rightarrow> Inr (it\<lparr>i_json := spread (i_json constPairedItem) (i_json it)\<rparr>))
                | _ \<Rightarrow> Inl (ev_errorOf env TypeError)))
      | _ \<Rightarrow> Inr it)"

text \<open>
  The items of one output, shifted off its array one by one. A throw leaves the items not yet
  taken in the array.
\<close>

fun split_items ::
    "(item \<Rightarrow> node_error + item) \<Rightarrow> items \<Rightarrow> items \<Rightarrow> items \<Rightarrow> (node_error \<times> items) + items \<times> items" where
  "split_items f [] successItems errorItems = Inr (successItems, errorItems)"
| "split_items f (it # its) successItems errorItems =
     (if errorData it
      then case f it of
             Inl e \<Rightarrow> Inl (e, its)
           | Inr it' \<Rightarrow> split_items f its successItems (errorItems @ [it'])
      else split_items f its (successItems @ [it]) errorItems)"

fun output_items :: "items jsval \<Rightarrow> items" where
  "output_items (JsVal its) = its"
| "output_items d = []"

fun split_outputs ::
    "(item \<Rightarrow> node_error + item) \<Rightarrow> nat list \<Rightarrow> items jsval list \<Rightarrow> items \<Rightarrow> items jsval list \<times> (node_error + items)" where
  "split_outputs f [] nodeSuccessData errorItems = (nodeSuccessData, Inr errorItems)"
| "split_outputs f (outputIndex # rest) nodeSuccessData errorItems =
     (case split_items f (output_items (arr_get nodeSuccessData outputIndex)) [] errorItems of
        Inl (e, its) \<Rightarrow> (arr_set nodeSuccessData outputIndex (JsVal its), Inl e)
      | Inr (successItems, errorItems') \<Rightarrow>
          split_outputs f rest (arr_set nodeSuccessData outputIndex (JsVal successItems)) errorItems')"

text \<open>
  With no main output the final write is at index \<open>-1\<close>, a property that the array's elements do
  not show. The second component is the error thrown, with the array as the throw leaves it.
\<close>

definition handleNodeErrorOutput ::
    "engine_env \<Rightarrow> workflow \<Rightarrow> exec_state \<Rightarrow> execute_data \<Rightarrow> items jsval list
      \<Rightarrow> items jsval list \<times> node_error option" where
  "handleNodeErrorOutput env w st executionData nodeSuccessData =
     (let mainOutputs = ev_mainOutputs env w (ed_node executionData)
      in case split_outputs (error_item env st executionData) [0..<mainOutputs - 1] nodeSuccessData [] of
           (ds, Inl e) \<Rightarrow> (ds, Some e)
         | (ds, Inr errorItems) \<Rightarrow>
             (if mainOutputs = 0 then ds else arr_set ds (mainOutputs - 1) (JsVal errorItems), None))"

subsection \<open>The items a node receives\<close>

text \<open>
  Every item is paired with its own position; a tool's item keeps its \<open>sourceOverwrite\<close>. The
  \<open>in\<close> operator on a \<open>pairedItem\<close> that is an array finds no such key.
\<close>

definition repair_item :: "bool \<Rightarrow> nat \<Rightarrow> nat \<Rightarrow> item \<Rightarrow> item" where
  "repair_item isToolExecution inputIndex itemIndex it =
     it\<lparr>i_pairedItem := Some (POne \<lparr>pd_item = itemIndex, pd_input = orUndefined inputIndex,
       pd_sourceOverwrite = (case i_pairedItem it of
            Some (POne p) \<Rightarrow> if isToolExecution then pd_sourceOverwrite p else None
          | _ \<Rightarrow> None)\<rparr>)\<rparr>"

fun repair_input :: "bool \<Rightarrow> nat \<times> items jsval \<Rightarrow> items jsval" where
  "repair_input isTool (inputIndex, JsVal its) =
     JsVal (map (\<lambda>(itemIndex, it). repair_item isTool inputIndex itemIndex it) (zip [0..<length its] its))"
| "repair_input isTool (inputIndex, d) = d"

definition preservesSource :: "execute_data \<Rightarrow> bool" where
  "preservesSource e =
     (case ed_metadata e of None \<Rightarrow> False | Some m \<Rightarrow> tm_preserveSourceOverwrite m = Some True)"

definition repair_data :: "execute_data \<Rightarrow> execute_data" where
  "repair_data e = e\<lparr>ed_data := map (\<lambda>(t, ds). (t, map (repair_input (preservesSource e)) (zip [0..<length ds] ds))) (ed_data e)\<rparr>"

end
