(* ===== verification/Requests.thy ===== *)
theory Requests
  imports EngineOutput
begin

section \<open>Requests of a node to the engine\<close>

text \<open>
  \<open>requests-response.ts\<close>, \<open>handleEngineRequest\<close> of \<open>workflow-execute.ts\<close>, and the responses a
  resumed node reads. A node such as an agent may return, instead of output, a list of actions: the
  tool nodes it wants to run. Each tool gets a placeholder run and is queued, and the node itself is
  queued to resume. The code mutates the run data and the node objects as it goes, so what was done
  before an error stays: an operation returns its state with its result.
\<close>

type_synonym wstate = "workflow \<times> exec_state"

record node_to_execute =
  ne_inputConnectionData :: conn
  ne_parentOutputIndex :: nat
  ne_parentNode :: string
  ne_parentOutputData :: "items jsval list option"
  ne_runIndex :: nat
  ne_nodeRunIndex :: nat
  ne_metadata :: "task_metadata option"

definition source_at :: "execute_data \<Rightarrow> nat \<Rightarrow> source_data option" where
  "source_at e i =
     (case ed_source e of None \<Rightarrow> None
      | Some s \<Rightarrow> (case obj_get s Main of None \<Rightarrow> None | Some slots \<Rightarrow> jsval_opt (arr_get slots i)))"

text \<open>The item of the agent's input that an action refers to.\<close>

definition agent_input :: "execute_data \<Rightarrow> engine_action \<Rightarrow> item option" where
  "agent_input e action =
     (case obj_get (ed_data e) Main of
        Some (JsVal its # _) \<Rightarrow> idx its (case ea_itemIndex action of None \<Rightarrow> 0 | Some i \<Rightarrow> i)
      | _ \<Rightarrow> None)"

definition merged_json :: "execute_data \<Rightarrow> engine_action \<Rightarrow> json obj" where
  "merged_json e action =
     obj_set ''toolCallId'' (JStr (ea_id action))
       (spread (case agent_input e action of None \<Rightarrow> [] | Some it \<Rightarrow> i_json it) (ea_input action))"

text \<open>The source is looked up at the position \<open>runIndex\<close> among the agent's inputs, as in the code.\<close>

definition tool_source :: "inode \<Rightarrow> nat \<Rightarrow> execute_data \<Rightarrow> source_data" where
  "tool_source currentNode runIndex e =
     (case source_at e runIndex of
        None \<Rightarrow> \<lparr>previousNode = n_name currentNode, previousNodeOutput = Some 0, previousNodeRun = Some 0\<rparr>
      | Some s \<Rightarrow> \<lparr>previousNode = previousNode s,
          previousNodeOutput = Some (case previousNodeOutput s of None \<Rightarrow> 0 | Some i \<Rightarrow> i),
          previousNodeRun = Some (case previousNodeRun s of None \<Rightarrow> 0 | Some i \<Rightarrow> i)\<rparr>)"

definition tool_input :: "inode \<Rightarrow> nat \<Rightarrow> execute_data \<Rightarrow> engine_action \<Rightarrow> items jsval list" where
  "tool_input currentNode runIndex e action =
     (let s = tool_source currentNode runIndex e;
          n = (\<lambda>x. case x of None \<Rightarrow> 0 | Some i \<Rightarrow> i)
      in [JsVal [emptyItem\<lparr>i_json := merged_json e action,
            i_pairedItem := Some (POne \<lparr>pd_item = n (previousNodeRun s), pd_input = Some (n (previousNodeOutput s)),
              pd_sourceOverwrite = Some s\<rparr>)\<rparr>]])"

definition emptyMetadata :: task_metadata where
  "emptyMetadata = \<lparr>tm_subNodeExecutionData = None, tm_preserveSourceOverwrite = None, tm_nodeWasResumed = None, tm_rest = []\<rparr>"

definition placeholder :: "items jsval list \<Rightarrow> task_data" where
  "placeholder toolInput =
     \<lparr>td_startTime = 0, td_executionIndex = Some 0, td_source = [], td_hints = [], td_executionTime = 0,
      td_executionStatus = None, td_data = None, td_inputOverride = Some [(AiTool, toolInput)],
      td_error = None, td_metadata = None\<rparr>"

definition node_runs :: "run_data \<Rightarrow> string \<Rightarrow> task_data list" where
  "node_runs runData nodeName = (case obj_get runData nodeName of None \<Rightarrow> [] | Some runs \<Rightarrow> runs)"

definition push_run :: "string \<Rightarrow> task_data \<Rightarrow> exec_state \<Rightarrow> exec_state" where
  "push_run nodeName task st =
     st\<lparr>x_runData := obj_set nodeName (node_runs (x_runData st) nodeName @ [task]) (x_runData st)\<rparr>"

text \<open>The node object is shared by the workflow and the entries of the stack.\<close>

definition rewire_log :: "string \<Rightarrow> ctype \<Rightarrow> inode \<Rightarrow> inode" where
  "rewire_log nodeName type node =
     (if n_name node = nodeName then node\<lparr>n_rewireOutputLogTo := Some type\<rparr> else node)"

definition tool_to_execute :: "inode \<Rightarrow> nat \<Rightarrow> execute_data \<Rightarrow> engine_action \<Rightarrow> nat \<Rightarrow> node_to_execute" where
  "tool_to_execute currentNode runIndex e action nodeRunIndex =
     \<lparr>ne_inputConnectionData = \<lparr>c_node = ea_nodeName action, c_type = ea_type action, c_index = 0\<rparr>,
      ne_parentOutputIndex = 0, ne_parentNode = n_name currentNode,
      ne_parentOutputData = Some (tool_input currentNode runIndex e action),
      ne_runIndex = runIndex, ne_nodeRunIndex = nodeRunIndex,
      ne_metadata = Some (emptyMetadata\<lparr>tm_preserveSourceOverwrite := Some True\<rparr>)\<rparr>"

fun prepareRequestedNodes ::
    "inode \<Rightarrow> nat \<Rightarrow> execute_data \<Rightarrow> engine_action list \<Rightarrow> node_to_execute list \<Rightarrow> sub_node_action list \<Rightarrow> wstate
      \<Rightarrow> (js_error + node_to_execute list \<times> sub_node_action list) \<times> wstate" where
  "prepareRequestedNodes currentNode runIndex e [] nodes subs ws = (Inr (nodes, subs), ws)"
| "prepareRequestedNodes currentNode runIndex e (action # rest) nodes subs (w, st) =
     (if getNode w (ea_nodeName action) = None
      then (Inl (UnexpectedError ''Workflow does not contain a node''), (w, st))
      else
        let (w', st1) = map_node (rewire_log (ea_nodeName action) (ea_type action)) (w, st);
            nodeRunIndex = length (node_runs (x_runData st) (ea_nodeName action));
            st' = push_run (ea_nodeName action) (placeholder (tool_input currentNode runIndex e action)) st1
        in prepareRequestedNodes currentNode runIndex e rest
             (nodes @ [tool_to_execute currentNode runIndex e action nodeRunIndex])
             (subs @ [\<lparr>sn_nodeName = ea_nodeName action, sn_runIndex = nodeRunIndex, sn_action = action\<rparr>])
             (w', st'))"

text \<open>A missing parent, like an empty name, makes the request be ignored.\<close>

definition prepareRequestingNodeForResuming :: "execute_data \<Rightarrow> (conn \<times> string) option" where
  "prepareRequestingNodeForResuming e =
     (case source_at e 0 of
        None \<Rightarrow> None
      | Some s \<Rightarrow> if previousNode s = '''' then None
          else Some (\<lparr>c_node = n_name (ed_node e), c_type = AiTool, c_index = 0\<rparr>, previousNode s))"

definition node_to_resume :: "execute_data \<Rightarrow> nat \<Rightarrow> engine_request \<Rightarrow> sub_node_action list \<Rightarrow> conn \<Rightarrow> string \<Rightarrow> node_to_execute" where
  "node_to_resume e runIndex request subs connectionData parentNode =
     \<lparr>ne_inputConnectionData = connectionData, ne_parentOutputIndex = 0, ne_parentNode = parentNode,
      ne_parentOutputData = obj_get (ed_data e) Main, ne_runIndex = runIndex, ne_nodeRunIndex = runIndex,
      ne_metadata = Some (emptyMetadata\<lparr>tm_nodeWasResumed := Some True,
        tm_subNodeExecutionData := Some (subs, er_metadata request)\<rparr>)\<rparr>"

definition handleRequest ::
    "inode \<Rightarrow> engine_request \<Rightarrow> nat \<Rightarrow> execute_data \<Rightarrow> wstate \<Rightarrow> (js_error + node_to_execute list) \<times> wstate" where
  "handleRequest currentNode request runIndex e ws =
     (case prepareRequestedNodes currentNode runIndex e (er_actions request) [] [] ws of
        (Inl err, ws') \<Rightarrow> (Inl err, ws')
      | (Inr (nodes, subs), ws') \<Rightarrow>
          (case prepareRequestingNodeForResuming e of
             None \<Rightarrow> (Inr [], ws')
           | Some (connectionData, parentNode) \<Rightarrow>
               (Inr (node_to_resume e runIndex request subs connectionData parentNode # nodes), ws')))"

text \<open>Parent data that is missing altogether is indexed by the code, which throws.\<close>

definition queue_node :: "workflow \<Rightarrow> node_to_execute \<Rightarrow> exec_state \<Rightarrow> js_error + exec_state" where
  "queue_node w n st =
     (if ne_parentOutputData n = None then Inl TypeError
      else addNodeToBeExecuted w (ne_inputConnectionData n) (ne_parentOutputIndex n) (ne_parentNode n)
             (ne_parentOutputData n) (ne_runIndex n) (Some (ne_nodeRunIndex n)) (ne_metadata n) st)"

fun queue_nodes :: "workflow \<Rightarrow> node_to_execute list \<Rightarrow> exec_state \<Rightarrow> js_error option \<times> exec_state" where
  "queue_nodes w [] st = (None, st)"
| "queue_nodes w (n # ns) st =
     (case queue_node w n st of Inl err \<Rightarrow> (Some err, st) | Inr st' \<Rightarrow> queue_nodes w ns st')"

definition handleEngineRequest ::
    "inode \<Rightarrow> engine_request \<Rightarrow> nat \<Rightarrow> execute_data \<Rightarrow> wstate \<Rightarrow> js_error option \<times> wstate" where
  "handleEngineRequest currentNode request runIndex e ws =
     (case handleRequest currentNode request runIndex e ws of
        (Inl err, ws') \<Rightarrow> (Some err, ws')
      | (Inr nodes, (w, st)) \<Rightarrow> (case queue_nodes w nodes st of (r, st') \<Rightarrow> (r, (w, st'))))"

subsection \<open>The responses of a resumed node\<close>

definition sub_response :: "run_data \<Rightarrow> sub_node_action \<Rightarrow> (task_data \<times> engine_action) list" where
  "sub_response runData subNode =
     (case idx (node_runs runData (sn_nodeName subNode)) (sn_runIndex subNode) of
        None \<Rightarrow> [] | Some data \<Rightarrow> [(data, sn_action subNode)])"

text \<open>The responses are pushed onto those already there.\<close>

definition collect_results :: "execute_data \<Rightarrow> run_data \<Rightarrow> engine_response \<Rightarrow> engine_response" where
  "collect_results e runData results =
     (case ed_metadata e of
        None \<Rightarrow> results
      | Some m \<Rightarrow>
          (case tm_subNodeExecutionData m of
             None \<Rightarrow> results
           | Some (actions, md) \<Rightarrow>
               \<lparr>rs_actionResponses = rs_actionResponses results @ concat (map (sub_response runData) actions),
                rs_metadata = md\<rparr>))"

end
