(* ===== verification/EngineTry.thy ===== *)
theory EngineTry
  imports Requests
begin

section \<open>Trying to run a node\<close>

text \<open>
  The loop over \<open>tryIndex\<close> in \<open>processRunExecutionData\<close> (\<open>workflow-execute.ts\<close>): pinned data or a
  run of the node, the inner loop that repeats a run whose first item holds an error, the engine
  requests, and what is done with the output. Only the number of tries left,
  \<open>maxTries - 1 - tryIndex\<close>, matters. The implementation of the node may behave differently each
  time it is called: it is given the number of the call. Pauses between tries are not modelled.
\<close>

type_synonym node_calls = "nat \<Rightarrow> node_impl \<Rightarrow> node_call \<Rightarrow> outcome"

record try_state =
  ts_ws :: wstate
  ts_data :: "items jsval list option"
  ts_hints :: "string list"
  ts_results :: engine_response
  ts_error :: "node_error option"
  ts_calls :: nat

definition maxTries :: "inode \<Rightarrow> nat" where
  "maxTries node =
     (if n_retryOnFail node = Some True
      then nat (min 5 (max 2 (case n_maxTries node of None \<Rightarrow> 3 | Some k \<Rightarrow> if k = 0 then 3 else k)))
      else 1)"

definition waitBetweenTries :: "inode \<Rightarrow> int" where
  "waitBetweenTries node =
     (if n_retryOnFail node = Some True
      then min 5000 (max 0 (case n_waitBetweenTries node of None \<Rightarrow> 1000 | Some k \<Rightarrow> if k = 0 then 1000 else k))
      else 0)"

fun nodeFailed :: "run_result \<Rightarrow> bool" where
  "nodeFailed (Response (Some (JsVal (it # its) # ds)) hints) = (obj_get (i_json it) ''error'' \<noteq> None)"
| "nodeFailed _ = False"

definition set_waitTill :: "int option \<Rightarrow> exec_state \<Rightarrow> exec_state" where
  "set_waitTill t st = (case t of None \<Rightarrow> st | Some t' \<Rightarrow> st\<lparr>x_waitTill := Some t'\<rparr>)"

definition call_node ::
    "engine_env \<Rightarrow> node_calls \<Rightarrow> execute_data \<Rightarrow> nat \<Rightarrow> engine_response option \<Rightarrow> try_state
      \<Rightarrow> (node_error + run_result) \<times> try_state" where
  "call_node env calls e runIndex results ts =
     (case ts_ws ts of (w, st) \<Rightarrow>
        (case runNode env (calls (ts_calls ts)) w e st runIndex results of (r, waitTill) \<Rightarrow>
           (r, ts\<lparr>ts_ws := (w, set_waitTill waitTill st), ts_calls := Suc (ts_calls ts)\<rparr>)))"

text \<open>A run that is repeated here does not get the responses of the sub-nodes.\<close>

fun rerun ::
    "engine_env \<Rightarrow> node_calls \<Rightarrow> execute_data \<Rightarrow> nat \<Rightarrow> nat \<Rightarrow> run_result \<Rightarrow> try_state
      \<Rightarrow> (node_error + run_result) \<times> nat \<times> try_state" where
  "rerun env calls e runIndex 0 res ts = (Inr res, 0, ts)"
| "rerun env calls e runIndex (Suc k) res ts =
     (if nodeFailed res
      then (case call_node env calls e runIndex None ts of
              (Inl err, ts') \<Rightarrow> (Inl err, Suc k, ts')
            | (Inr res', ts') \<Rightarrow> rerun env calls e runIndex k res' ts')
      else (Inr res, Suc k, ts))"

datatype try_end = TryDone | TryStop | TryThrew node_error nat

definition pinned_items :: "exec_state \<Rightarrow> inode \<Rightarrow> items option" where
  "pinned_items st node =
     (case x_pinData st of None \<Rightarrow> None
      | Some p \<Rightarrow> if n_disabled node = Some True then None else obj_get p (n_name node))"

text \<open>
  The array of pinned items is the output itself, so what is assigned to its items is seen in the
  pinned data afterwards.
\<close>

definition write_pinned :: "string \<Rightarrow> items jsval list option \<Rightarrow> exec_state \<Rightarrow> exec_state" where
  "write_pinned nodeName data st =
     (case (x_pinData st, data) of
        (Some p, Some (JsVal its # _)) \<Rightarrow> st\<lparr>x_pinData := Some (obj_set nodeName its p)\<rparr>
      | _ \<Rightarrow> st)"

definition set_lastNodeExecuted :: "string \<Rightarrow> exec_state \<Rightarrow> exec_state" where
  "set_lastNodeExecuted nodeName st = st\<lparr>x_lastNodeExecuted := Some nodeName\<rparr>"

definition map_state :: "(exec_state \<Rightarrow> exec_state) \<Rightarrow> try_state \<Rightarrow> try_state" where
  "map_state f ts = ts\<lparr>ts_ws := (fst (ts_ws ts), f (snd (ts_ws ts)))\<rparr>"

text \<open>The end of a try that did not throw so far.\<close>

definition finish_try ::
    "engine_env \<Rightarrow> execute_data \<Rightarrow> bool \<Rightarrow> nat \<Rightarrow> try_state \<Rightarrow> try_end \<times> try_state" where
  "finish_try env e pinned left ts =
     (let nodeName = n_name (ed_node e)
      in case assignPairedItems (ts_data ts) e of
           Inl err \<Rightarrow> (TryThrew (ev_errorOf env err) left, ts)
         | Inr data \<Rightarrow>
             (let ts1 = map_state (\<lambda>st. (if data \<noteq> None then set_lastNodeExecuted nodeName else id)
                            ((if pinned then write_pinned nodeName data else id) st)) (ts\<lparr>ts_data := data\<rparr>)
              in case alwaysOutputData e data of
                   Inl err \<Rightarrow> (TryThrew (ev_errorOf env err) left, ts1)
                 | Inr data' \<Rightarrow>
                     (if data' = None \<and> x_waitTill (snd (ts_ws ts1)) = None then TryStop else TryDone,
                      ts1\<lparr>ts_data := data'\<rparr>)))"

definition respond ::
    "engine_env \<Rightarrow> execute_data \<Rightarrow> nat \<Rightarrow> items jsval list option \<Rightarrow> string list \<Rightarrow> try_state \<Rightarrow> try_end \<times> try_state" where
  "respond env e left data hints ts =
     (let ts1 = ts\<lparr>ts_data := data, ts_hints := ts_hints ts @ hints\<rparr>
      in case data of
           Some ds \<Rightarrow>
             (if n_onError (ed_node e) = Some ContinueErrorOutput
              then (case handleNodeErrorOutput env (fst (ts_ws ts)) (snd (ts_ws ts)) e ds of
                      (ds', None) \<Rightarrow> finish_try env e False left (ts1\<lparr>ts_data := Some ds'\<rparr>)
                    | (ds', Some err) \<Rightarrow> (TryThrew err left, ts1\<lparr>ts_data := Some ds'\<rparr>))
              else finish_try env e False left ts1)
         | None \<Rightarrow> finish_try env e False left ts1)"

definition attempt ::
    "engine_env \<Rightarrow> node_calls \<Rightarrow> execute_data \<Rightarrow> nat \<Rightarrow> nat \<Rightarrow> try_state \<Rightarrow> try_end \<times> try_state" where
  "attempt env calls e runIndex left ts =
     (case pinned_items (snd (ts_ws ts)) (ed_node e) of
        Some its \<Rightarrow> finish_try env e True left (ts\<lparr>ts_data := Some [JsVal its]\<rparr>)
      | None \<Rightarrow>
          (let results = collect_results e (x_runData (snd (ts_ws ts))) (ts_results ts)
           in case call_node env calls e runIndex (Some results) (ts\<lparr>ts_results := results\<rparr>) of
                (Inl err, ts1) \<Rightarrow> (TryThrew err left, ts1)
              | (Inr res, ts1) \<Rightarrow>
                  (case rerun env calls e runIndex left res ts1 of
                     (Inl err, left', ts2) \<Rightarrow> (TryThrew err left', ts2)
                   | (Inr (Request request), left', ts2) \<Rightarrow>
                       (case handleEngineRequest (ed_node e) request runIndex e (ts_ws ts2) of
                          (None, ws) \<Rightarrow> (TryStop, ts2\<lparr>ts_ws := ws\<rparr>)
                        | (Some err, ws) \<Rightarrow> (TryThrew (ev_errorOf env err) left', ts2\<lparr>ts_ws := ws\<rparr>))
                   | (Inr (Response data hints), left', ts2) \<Rightarrow> respond env e left' data hints ts2)))"

text \<open>No try leaves more tries than there were.\<close>

lemma rerun_left: "rerun env calls e runIndex k res ts = (r, k', ts') \<Longrightarrow> k' \<le> k"
proof (induction env calls e runIndex k res ts rule: rerun.induct)
  case (2 env calls e runIndex k res ts)
  then show ?case by (fastforce split: if_splits prod.splits sum.splits)
qed simp

lemma finish_try_left: "finish_try env e pinned left ts = (TryThrew err left', ts') \<Longrightarrow> left' = left"
  by (auto simp: finish_try_def Let_def split: sum.splits if_splits)

lemma respond_left: "respond env e left data hints ts = (TryThrew err left', ts') \<Longrightarrow> left' = left"
  by (auto simp: respond_def Let_def dest: finish_try_left split: option.splits if_splits prod.splits)

lemma attempt_left: "attempt env calls e runIndex left ts = (TryThrew err left', ts') \<Longrightarrow> left' \<le> left"
  by (auto simp: attempt_def Let_def dest: finish_try_left respond_left rerun_left
      split: option.splits sum.splits prod.splits run_result.splits)

function tries ::
    "engine_env \<Rightarrow> node_calls \<Rightarrow> execute_data \<Rightarrow> nat \<Rightarrow> nat \<Rightarrow> try_state \<Rightarrow> try_end \<times> try_state" where
  "tries env calls e runIndex left ts =
     (case attempt env calls e runIndex left (ts\<lparr>ts_error := None\<rparr>) of
        (TryThrew err left', ts') \<Rightarrow>
          (let ts'' = map_state (set_lastNodeExecuted (n_name (ed_node e))) (ts'\<lparr>ts_error := Some err\<rparr>)
           in if left' = 0 then (TryDone, ts'') else tries env calls e runIndex (left' - 1) ts'')
      | r \<Rightarrow> r)"
  by pat_completeness auto
termination tries
  by (relation "measure (\<lambda>(env, calls, e, i, left, ts). left)") (auto dest: attempt_left [OF sym])

declare tries.simps [simp del]

definition runTries ::
    "engine_env \<Rightarrow> node_calls \<Rightarrow> execute_data \<Rightarrow> nat \<Rightarrow> wstate \<Rightarrow> try_end \<times> try_state" where
  "runTries env calls e runIndex ws =
     tries env calls e runIndex (maxTries (ed_node e) - 1)
       \<lparr>ts_ws = ws, ts_data = None, ts_hints = [], ts_results = makeEngineResponse, ts_error = None, ts_calls = 0\<rparr>"

end
