(* ===== verification/EngineWaiting.thy ===== *)
theory EngineWaiting
  imports EngineOutput
begin

section \<open>Waiting nodes when the stack is empty\<close>

text \<open>
  The part of \<open>processRunExecutionData\<close> in \<open>workflow-execute.ts\<close> that picks, once nothing is on the
  stack, a waiting node that may run without all its inputs. An array element that is \<open>JsUndef\<close> is
  a hole, which \<open>map\<close> and \<open>filter\<close> skip.
\<close>

text \<open>The keys of the node's waiting entries are sorted as strings.\<close>

definition first_run_index :: "(nat, 'e) jsmap \<Rightarrow> nat option" where
  "first_run_index entries =
     (case sort (map nat_str (num_keys entries)) of [] \<Rightarrow> None | s # _ \<Rightarrow> Some (nat_of_digits s))"

definition required_inputs_of :: "engine_env \<Rightarrow> workflow \<Rightarrow> inode \<Rightarrow> js_error + required_inputs option" where
  "required_inputs_of env w node =
     (if isLegacyExecutionOrder w then Inr None
      else case w_nodeTypes w (n_type node) (n_typeVersion node) of
             None \<Rightarrow> Inl TypeError
           | Some nodeType \<Rightarrow>
               Inr (case nt_requiredInputs nodeType of
                      Some (RequiredExpression s) \<Rightarrow> ev_requiredInputs env w node s
                    | r \<Rightarrow> r))"

definition input_count :: "workflow \<Rightarrow> inode \<Rightarrow> js_error + nat" where
  "input_count w node =
     (case w_nodeTypes w (n_type node) (n_typeVersion node) of
        None \<Rightarrow> Inl TypeError | Some nodeType \<Rightarrow> Inr (length (nt_inputs nodeType)))"

text \<open>All inputs are required, by a list or a count as long as the node type's inputs.\<close>

definition requires_all :: "workflow \<Rightarrow> inode \<Rightarrow> required_inputs option \<Rightarrow> js_error + bool" where
  "requires_all w node r =
     (case r of
        None \<Rightarrow> Inr False
      | Some (RequiredIndexes is) \<Rightarrow> bindE (input_count w node) (\<lambda>n. Inr (length is = n))
      | Some (RequiredCount k) \<Rightarrow> bindE (input_count w node) (\<lambda>n. Inr (k = n))
      | Some (RequiredExpression s) \<Rightarrow> Inr False)"

definition inputs_with_data :: "'a jsval list \<Rightarrow> nat list" where
  "inputs_with_data main = filter (\<lambda>i. \<exists>x. main ! i = JsVal x) [0..<length main]"

fun enough_inputs :: "required_inputs option \<Rightarrow> nat list \<Rightarrow> bool" where
  "enough_inputs (Some (RequiredIndexes is)) withData = (\<forall>i \<in> set is. i \<in> set withData)"
| "enough_inputs (Some (RequiredCount k)) withData = (k \<le> length withData)"
| "enough_inputs _ withData = True"

fun null_to_empty :: "items jsval \<Rightarrow> items jsval" where
  "null_to_empty JsNull = JsVal []"
| "null_to_empty d = d"

definition any_items :: "items jsval list \<Rightarrow> bool" where
  "any_items ds \<longleftrightarrow> (\<exists>d \<in> set ds. \<exists>it its. d = JsVal (it # its))"

fun is_items :: "items jsval \<Rightarrow> bool" where
  "is_items (JsVal (it # its)) = True"
| "is_items d = False"

lemma any_items_code [code]: "any_items ds \<longleftrightarrow> list_ex is_items ds"
proof -
  have "is_items d \<longleftrightarrow> (\<exists>it its. d = JsVal (it # its))" for d
    by (cases d rule: is_items.cases) simp_all
  then show ?thesis by (auto simp: any_items_def list_ex_iff)
qed

definition is_val :: "'a jsval \<Rightarrow> bool" where
  "is_val d \<longleftrightarrow> jsval_opt d \<noteq> None"

lemma inputs_with_data_code [code]: "inputs_with_data main = filter (\<lambda>i. is_val (main ! i)) [0..<length main]"
proof -
  have "(\<exists>x. main ! i = JsVal x) \<longleftrightarrow> is_val (main ! i)" for i
    by (cases "main ! i") (simp_all add: is_val_def)
  then show ?thesis by (simp add: inputs_with_data_def)
qed

definition pad_inputs :: "nat \<Rightarrow> items jsval list \<Rightarrow> items jsval list" where
  "pad_inputs n ds = ds @ replicate (n - length ds) (JsVal [])"

datatype waiting_result = Skip | Taken exec_state | Emptied exec_state

text \<open>
  The waiting entry is run, or dropped when no input has an item. Either way it stops waiting.
\<close>

definition run_waiting :: "workflow \<Rightarrow> inode \<Rightarrow> string \<Rightarrow> nat \<Rightarrow> items jsval list \<Rightarrow> exec_state \<Rightarrow> js_error + waiting_result" where
  "run_waiting w checkNode nodeName i main st =
     (let taskDataMain = map null_to_empty main
      in if obj_get (x_waitingSource st) nodeName = None then Inl TypeError
         else if any_items taskDataMain
         then bindE (input_count w checkNode) (\<lambda>n.
                Inr (Taken (stop_waiting nodeName i
                  (st\<lparr>x_stack := x_stack st @ [\<lparr>ed_data = [(Main, pad_inputs n taskDataMain)], ed_metadata = None,
                     ed_node = checkNode, ed_source = get_entry (x_waitingSource st) nodeName i, ed_runIndex = None\<rparr>]\<rparr>))))
         else Inr (Emptied (stop_waiting nodeName i st)))"

definition try_waiting :: "engine_env \<Rightarrow> workflow \<Rightarrow> string list \<Rightarrow> string \<Rightarrow> exec_state \<Rightarrow> js_error + waiting_result" where
  "try_waiting env w waitingNodes nodeName st =
     (case getNode w nodeName of
        None \<Rightarrow> Inr Skip
      | Some checkNode \<Rightarrow>
          bindE (required_inputs_of env w checkNode) (\<lambda>requiredInputs.
          bindE (requires_all w checkNode requiredInputs) (\<lambda>all.
            if all \<or> (\<exists>p \<in> set (parentNodes w nodeName). p \<in> set waitingNodes) then Inr Skip
            else case first_run_index (waiting_entries st nodeName) of
                   None \<Rightarrow> Inl TypeError
                 | Some i \<Rightarrow>
                     bindE (main_slots (x_waiting st) nodeName i) (\<lambda>main.
                       if enough_inputs requiredInputs (inputs_with_data main)
                       then run_waiting w checkNode nodeName i main st
                       else Inr Skip))))"

subsection \<open>Every restart of the search has one waiting entry less\<close>

definition entry_count :: "exec_state \<Rightarrow> nat" where
  "entry_count st = sum_list (map (\<lambda>(n, es). length es) (x_waiting st))"

lemma obj_del_shorter: "obj_get es i = Some e \<Longrightarrow> length (obj_del i es) < length es"
  unfolding obj_del_def by (rule length_filter_less [where x = "(i, e)"]) (auto dest: obj_get_mem)

lemma sum_obj_set:
  "obj_get W n = Some es \<Longrightarrow> length es' < length es \<Longrightarrow>
   sum_list (map (\<lambda>(n, es). length es) (obj_set n es' W)) < sum_list (map (\<lambda>(n, es). length es) W)"
  by (induction W) (auto split: if_splits)

lemma sum_obj_del: "sum_list (map (\<lambda>(n, es). length es) (obj_del n W)) \<le> sum_list (map (\<lambda>(n, es). length es) W)"
  unfolding obj_del_def by (induction W) auto

lemma entry_count_stop:
  assumes "get_entry (x_waiting st) n i \<noteq> None"
  shows "entry_count (stop_waiting n i st) < entry_count st"
proof -
  from assms obtain es e where es: "obj_get (x_waiting st) n = Some es" "obj_get es i = Some e"
    by (auto simp: get_entry_def split: option.splits)
  then have "sum_list (map (\<lambda>(n, es). length es) (del_entry n i (x_waiting st))) < entry_count st"
    unfolding entry_count_def del_entry_def by (simp add: sum_obj_set obj_del_shorter)
  then show ?thesis
    using sum_obj_del [of n "del_entry n i (x_waiting st)"]
    by (simp add: entry_count_def stop_waiting_def Let_def)
qed

lemma try_waiting_entry:
  assumes "try_waiting env w waitingNodes n st = Inr r" "r \<noteq> Skip"
  shows "\<exists>node i main. getNode w n = Some node \<and> get_entry (x_waiting st) n i \<noteq> None
    \<and> main_slots (x_waiting st) n i = Inr main \<and> run_waiting w node n i main st = Inr r
    \<and> (\<forall>p \<in> set (parentNodes w n). p \<notin> set waitingNodes)"
proof -
  from assms obtain node r' all' i main where
    "getNode w n = Some node" "main_slots (x_waiting st) n i = Inr main" "run_waiting w node n i main st = Inr r"
    "\<forall>p \<in> set (parentNodes w n). p \<notin> set waitingNodes"
    by (auto simp: try_waiting_def bindE_eq_Inr split: option.splits if_splits)
  moreover from this(2) have "get_entry (x_waiting st) n i \<noteq> None" by (auto simp: main_slots_def split: option.splits)
  ultimately show ?thesis by blast
qed

lemma run_waiting_Emptied: "run_waiting w node n i main st = Inr (Emptied st') \<Longrightarrow> st' = stop_waiting n i st"
  by (auto simp: run_waiting_def Let_def bindE_eq_Inr split: if_splits)

function pick_waiting ::
    "engine_env \<Rightarrow> workflow \<Rightarrow> string list \<Rightarrow> string list \<Rightarrow> exec_state \<Rightarrow> js_error + exec_state" where
  "pick_waiting env w waitingNodes [] st = Inr st"
| "pick_waiting env w waitingNodes (nodeName # rest) st =
     (case try_waiting env w waitingNodes nodeName st of
        Inl e \<Rightarrow> Inl e
      | Inr Skip \<Rightarrow> pick_waiting env w waitingNodes rest st
      | Inr (Taken st') \<Rightarrow> Inr st'
      | Inr (Emptied st') \<Rightarrow> pick_waiting env w (obj_keys (x_waiting st')) (obj_keys (x_waiting st')) st')"
  by pat_completeness auto
termination pick_waiting
proof (relation "measures [\<lambda>(env, w, ws, ns, st). entry_count st, \<lambda>(env, w, ws, ns, st). length ns]", goal_cases)
  case (3 env w ws n ns st r st')
  then have "try_waiting env w ws n st = Inr (Emptied st')" by simp
  from try_waiting_entry [OF this] obtain node i main where
    "get_entry (x_waiting st) n i \<noteq> None" "run_waiting w node n i main st = Inr (Emptied st')" by auto
  with entry_count_stop show ?case by (auto dest!: run_waiting_Emptied)
qed auto

declare pick_waiting.simps [simp del]

definition pickWaiting :: "engine_env \<Rightarrow> workflow \<Rightarrow> exec_state \<Rightarrow> js_error + exec_state" where
  "pickWaiting env w st =
     (if x_stack st = []
      then pick_waiting env w (obj_keys (x_waiting st)) (obj_keys (x_waiting st)) st
      else Inr st)"

end
