(* ===== verification/EngineLoop.thy ===== *)
theory EngineLoop
  imports EngineTry EngineWaiting
begin

section \<open>The execution loop\<close>

text \<open>
  The loop \<open>executionLoop\<close> of \<open>processRunExecutionData\<close> in \<open>workflow-execute.ts\<close>: one iteration is
  \<open>loop_step\<close>. What the iteration reads from outside is its input: the clock, whether a
  cancellation arrived, whether the abort signal is set, and what the implementation of the node
  does when it is called. The lifecycle hooks the iteration runs are recorded as events. An iteration
  ends by going on with the loop, by leaving it, or by an error outside every \<open>try\<close>; such an error
  ends the execution with the state reached.
\<close>

datatype event = NodeExecuteBefore string | SendError string | NodeExecuteAfter string

record engine =
  en_ws :: wstate
  en_lastTry :: "(string \<times> nat) option"
  en_error :: "node_error option"
  en_events :: "event list"

record step_input =
  si_now :: int
  si_end :: int
  si_canceled :: bool
  si_aborted :: bool
  si_calls :: node_calls

datatype loop_result = Next engine | Left engine | Crashed js_error engine

definition upd_state :: "(exec_state \<Rightarrow> exec_state) \<Rightarrow> engine \<Rightarrow> engine" where
  "upd_state f en = en\<lparr>en_ws := (fst (en_ws en), f (snd (en_ws en)))\<rparr>"

definition emit :: "event \<Rightarrow> engine \<Rightarrow> engine" where
  "emit ev en = en\<lparr>en_events := en_events en @ [ev]\<rparr>"

subsection \<open>Guards\<close>

text \<open>A cancellation also marks the runs that have not ended.\<close>

definition updateTaskStatusesToCancelled :: "exec_state \<Rightarrow> exec_state" where
  "updateTaskStatusesToCancelled st =
     st\<lparr>x_runData := map (\<lambda>(nodeName, runs). (nodeName,
          map (\<lambda>t. if td_executionStatus t = Some Running then t\<lparr>td_executionStatus := Some Canceled\<rparr> else t) runs)) (x_runData st)\<rparr>"

definition check_time :: "engine_env \<Rightarrow> step_input \<Rightarrow> exec_state \<Rightarrow> exec_state" where
  "check_time env inp st =
     (let st1 = (if si_canceled inp then updateTaskStatusesToCancelled (st\<lparr>x_status := Canceled\<rparr>) else st)
      in case ev_timeout env of
           Some t \<Rightarrow> if t \<le> si_now inp then st1\<lparr>x_status := Canceled, x_timedOut := True\<rparr> else st1
         | None \<Rightarrow> st1)"

definition run_index :: "execute_data \<Rightarrow> exec_state \<Rightarrow> nat" where
  "run_index e st =
     (case ed_runIndex e of Some i \<Rightarrow> i | None \<Rightarrow> length (node_runs (x_runData st) (n_name (ed_node e))))"

definition filtered_out :: "exec_state \<Rightarrow> string \<Rightarrow> bool" where
  "filtered_out st nodeName =
     (case x_runNodeFilter st of None \<Rightarrow> False | Some names \<Rightarrow> nodeName \<notin> set names)"

definition was_resumed :: "execute_data \<Rightarrow> bool" where
  "was_resumed e =
     (case ed_metadata e of None \<Rightarrow> False | Some m \<Rightarrow> tm_nodeWasResumed m = Some True)"

text \<open>A source without \<open>main\<close> is as no source.\<close>

definition main_source :: "execute_data \<Rightarrow> source_data jsval list" where
  "main_source e =
     (case ed_source e of None \<Rightarrow> [] | Some s \<Rightarrow> (case obj_get s Main of None \<Rightarrow> [] | Some slots \<Rightarrow> slots))"

subsection \<open>Recording the run\<close>

definition new_task :: "step_input \<Rightarrow> execute_data \<Rightarrow> nat \<Rightarrow> try_state \<Rightarrow> task_data" where
  "new_task inp e executionIndex ts =
     \<lparr>td_startTime = si_now inp, td_executionIndex = Some executionIndex, td_source = main_source e,
      td_hints = ts_hints ts, td_executionTime = si_end inp - si_now inp,
      td_executionStatus = Some (if ts_error ts \<noteq> None then ErrorStatus
        else if x_waitTill (snd (ts_ws ts)) \<noteq> None then Waiting else Success),
      td_data = None, td_inputOverride = None, td_error = ts_error ts, td_metadata = ed_metadata e\<rparr>"

definition continues_on_error :: "inode \<Rightarrow> bool" where
  "continues_on_error node \<longleftrightarrow>
     n_continueOnFail node = Some True
     \<or> n_onError node = Some ContinueRegularOutput \<or> n_onError node = Some ContinueErrorOutput"

text \<open>A node that failed and goes on passes its first input through.\<close>

definition pass_input :: "execute_data \<Rightarrow> items jsval list option \<Rightarrow> items jsval list option" where
  "pass_input e data =
     (case obj_get (ed_data e) Main of
        Some (d # ds) \<Rightarrow> if d = JsNull then data else Some [d]
      | _ \<Rightarrow> data)"

text \<open>
  The output goes under \<open>main\<close>, or, with the output log rewired, under the given type; then the input
  override of an existing run is kept. \<open>Object.assign\<close> keeps the fields that the new run lacks.
\<close>

definition with_output :: "inode \<Rightarrow> task_data list \<Rightarrow> nat \<Rightarrow> items jsval list \<Rightarrow> task_data \<Rightarrow> task_data" where
  "with_output node runs runIndex data task =
     (case n_rewireOutputLogTo node of
        None \<Rightarrow> task\<lparr>td_data := Some [(Main, data)]\<rparr>
      | Some t \<Rightarrow>
          task\<lparr>td_data := Some [(t, data)],
               td_inputOverride := Some (case idx runs runIndex of None \<Rightarrow> []
                 | Some old \<Rightarrow> (case td_inputOverride old of None \<Rightarrow> [] | Some o' \<Rightarrow> o'))\<rparr>)"

definition assign_task :: "task_data \<Rightarrow> task_data \<Rightarrow> task_data" where
  "assign_task old new =
     new\<lparr>td_error := (if td_error new = None then td_error old else td_error new),
         td_inputOverride := (if td_inputOverride new = None then td_inputOverride old else td_inputOverride new)\<rparr>"

definition store_run :: "string \<Rightarrow> nat \<Rightarrow> task_data \<Rightarrow> exec_state \<Rightarrow> exec_state" where
  "store_run nodeName runIndex task st =
     (let runs = node_runs (x_runData st) nodeName
      in case idx runs runIndex of
           None \<Rightarrow> st\<lparr>x_runData := obj_set nodeName (runs @ [task]) (x_runData st)\<rparr>
         | Some old \<Rightarrow> st\<lparr>x_runData := obj_set nodeName (runs[runIndex := assign_task old task]) (x_runData st)\<rparr>)"

subsection \<open>The nodes that come next\<close>

record node_to_add =
  na_position :: "int \<times> int"
  na_connection :: conn
  na_outputIndex :: nat

text \<open>The lower node first, then the one further right: the last one added is executed first.\<close>

definition compare_position :: "node_to_add \<Rightarrow> node_to_add \<Rightarrow> int" where
  "compare_position a b =
     (if snd (na_position a) < snd (na_position b) then 1
      else if snd (na_position a) > snd (na_position b) then -1
      else if fst (na_position a) > fst (na_position b) then -1
      else 0)"

definition output_connections :: "workflow \<Rightarrow> string \<Rightarrow> (nat \<times> conn) list" where
  "output_connections w nodeName =
     (case main_inputs (w_connectionsBySourceNode w) nodeName of None \<Rightarrow> []
      | Some slots \<Rightarrow> concat (map (\<lambda>(i, cs). map (Pair i) (opt_list cs)) (enumerate 0 slots)))"

definition gets_data :: "workflow \<Rightarrow> items jsval list \<Rightarrow> nat \<Rightarrow> conn \<Rightarrow> bool" where
  "gets_data w data outputIndex c \<longleftrightarrow>
     (case arr_get data outputIndex of
        JsVal its \<Rightarrow> its \<noteq> [] \<or> 0 < c_index c \<and> isLegacyExecutionOrder w
      | _ \<Rightarrow> False)"

definition to_add :: "workflow \<Rightarrow> nat \<Rightarrow> conn \<Rightarrow> node_to_add" where
  "to_add w outputIndex c =
     \<lparr>na_position = (case getNode w (c_node c) of None \<Rightarrow> (0, 0) | Some n \<Rightarrow> n_position n),
      na_connection = c, na_outputIndex = outputIndex\<rparr>"

text \<open>
  The walk over the connections. In the legacy order a node is queued at once, in the order v1 it is
  collected. A connection to a node that does not exist throws.
\<close>

fun walk_outputs ::
    "workflow \<Rightarrow> string \<Rightarrow> items jsval list \<Rightarrow> nat \<Rightarrow> (nat \<times> conn) list \<Rightarrow> node_to_add list \<Rightarrow> exec_state
      \<Rightarrow> js_error option \<times> node_to_add list \<times> exec_state" where
  "walk_outputs w nodeName data runIndex [] nodesToAdd st = (None, nodesToAdd, st)"
| "walk_outputs w nodeName data runIndex ((i, c) # rest) nodesToAdd st =
     (if getNode w (c_node c) = None then (Some (ApplicationError ''Destination node not found''), nodesToAdd, st)
      else if \<not> gets_data w data i c then walk_outputs w nodeName data runIndex rest nodesToAdd st
      else if isLegacyExecutionOrder w
      then (case addNodeToBeExecuted w c i nodeName (Some data) runIndex None None st of
              Inl err \<Rightarrow> (Some err, nodesToAdd, st)
            | Inr st' \<Rightarrow> walk_outputs w nodeName data runIndex rest nodesToAdd st')
      else walk_outputs w nodeName data runIndex rest (nodesToAdd @ [to_add w i c]) st)"

fun add_nodes ::
    "workflow \<Rightarrow> string \<Rightarrow> items jsval list \<Rightarrow> nat \<Rightarrow> node_to_add list \<Rightarrow> exec_state \<Rightarrow> js_error option \<times> exec_state" where
  "add_nodes w nodeName data runIndex [] st = (None, st)"
| "add_nodes w nodeName data runIndex (n # ns) st =
     (case addNodeToBeExecuted w (na_connection n) (na_outputIndex n) nodeName (Some data) runIndex None None st of
        Inl err \<Rightarrow> (Some err, st)
      | Inr st' \<Rightarrow> add_nodes w nodeName data runIndex ns st')"

definition addNextNodes ::
    "workflow \<Rightarrow> string \<Rightarrow> items jsval list \<Rightarrow> nat \<Rightarrow> exec_state \<Rightarrow> js_error option \<times> exec_state" where
  "addNextNodes w nodeName data runIndex st =
     (case walk_outputs w nodeName data runIndex (output_connections w nodeName) [] st of
        (Some err, _, st') \<Rightarrow> (Some err, st')
      | (None, nodesToAdd, st') \<Rightarrow> add_nodes w nodeName data runIndex (js_sort compare_position nodesToAdd) st')"

subsection \<open>After the tries\<close>

definition unshift :: "execute_data \<Rightarrow> exec_state \<Rightarrow> exec_state" where
  "unshift e st = st\<lparr>x_stack := e # x_stack st\<rparr>"

text \<open>The node failed and the workflow stops: its entry is put back to be restarted.\<close>

definition stop_with_error :: "step_input \<Rightarrow> execute_data \<Rightarrow> task_data \<Rightarrow> engine \<Rightarrow> engine" where
  "stop_with_error inp e task en =
     (let name = n_name (ed_node e);
          en1 = upd_state (\<lambda>st. unshift e (push_run name task st)) en
      in if si_aborted inp then en1 else emit (NodeExecuteAfter name) en1)"

text \<open>The waiting nodes, when the stack has run empty.\<close>

definition next_waiting :: "engine_env \<Rightarrow> engine \<Rightarrow> loop_result" where
  "next_waiting env en =
     (case pickWaiting env (fst (en_ws en)) (snd (en_ws en)) of
        Inl err \<Rightarrow> Crashed err en
      | Inr st \<Rightarrow> Next (upd_state (\<lambda>_. st) en))"

definition is_destination :: "exec_state \<Rightarrow> string \<Rightarrow> bool" where
  "is_destination st nodeName = (map_option dn_nodeName (x_destinationNode st) = Some nodeName)"

definition go_on :: "engine_env \<Rightarrow> execute_data \<Rightarrow> nat \<Rightarrow> items jsval list \<Rightarrow> engine \<Rightarrow> loop_result" where
  "go_on env e runIndex data en =
     (let name = n_name (ed_node e); (w, st) = en_ws en
      in if x_waitTill st \<noteq> None
         then Left (upd_state (unshift e) (emit (NodeExecuteAfter name) en))
         else if is_destination st name then Next (emit (NodeExecuteAfter name) en)
         else case addNextNodes w name data runIndex st of
                (Some err, st') \<Rightarrow> Crashed err (upd_state (\<lambda>_. st') en)
              | (None, st') \<Rightarrow> next_waiting env (emit (NodeExecuteAfter name) (upd_state (\<lambda>_. st') en)))"

definition conclude ::
    "engine_env \<Rightarrow> step_input \<Rightarrow> execute_data \<Rightarrow> nat \<Rightarrow> nat \<Rightarrow> try_state \<Rightarrow> engine \<Rightarrow> loop_result" where
  "conclude env inp e runIndex executionIndex ts en0 =
     (let node = ed_node e; name = n_name node; task = new_task inp e executionIndex ts;
          en = en0\<lparr>en_ws := ts_ws ts, en_error := ts_error ts,
                   en_events := en_events en0 @ (if ts_error ts = None then [] else [SendError name])\<rparr>
      in if ts_error ts \<noteq> None \<and> \<not> continues_on_error node then Left (stop_with_error inp e task en)
         else case merge_errors (if ts_error ts = None then ts_data ts else pass_input e (ts_data ts)) of
                Inl err \<Rightarrow> Crashed err (upd_state (\<lambda>st. st\<lparr>x_runData := obj_set name (node_runs (x_runData st) name) (x_runData st)\<rparr>) en)
              | Inr data \<Rightarrow>
                  (let st = snd (ts_ws ts);
                       pinned = pinned_items st node \<noteq> None \<and> pinned_items st node \<noteq> Some [] \<and> ts_error ts = None;
                       task' = with_output node (node_runs (x_runData st) name) runIndex data task
                   in go_on env e runIndex data
                        (upd_state (store_run name runIndex task')
                          (upd_state (if pinned then write_pinned name (Some data) else id) en))))"

subsection \<open>One iteration\<close>

definition execute_entry ::
    "engine_env \<Rightarrow> step_input \<Rightarrow> execute_data \<Rightarrow> nat \<Rightarrow> nat \<Rightarrow> engine \<Rightarrow> loop_result" where
  "execute_entry env inp e runIndex executionIndex en0 =
     (let name = n_name (ed_node e);
          en = (if was_resumed e then en0 else emit (NodeExecuteBefore name) en0)
      in case runTries env (si_calls inp) e runIndex (en_ws en) of
           (TryStop, ts) \<Rightarrow> Next (en\<lparr>en_ws := ts_ws ts, en_error := None\<rparr>)
         | (_, ts) \<Rightarrow> conclude env inp e runIndex executionIndex ts en)"

definition process_entry :: "engine_env \<Rightarrow> step_input \<Rightarrow> execute_data \<Rightarrow> engine \<Rightarrow> loop_result" where
  "process_entry env inp e0 en =
     (let (w, st0) = en_ws en; executionIndex = x_executionIndex st0;
          st = st0\<lparr>x_executionIndex := Suc executionIndex\<rparr>;
          e = repair_data e0; name = n_name (ed_node e); runIndex = run_index e st;
          en1 = en\<lparr>en_ws := (w, st), en_error := None\<rparr>
      in if en_lastTry en = Some (name, runIndex)
         then Crashed (ApplicationError ''Stopped execution because it seems to be in an endless loop'') en1
         else if filtered_out st name then Next en1
         else case ensureInputData w e st of
                Inl err \<Rightarrow> Crashed err en1
              | Inr (False, st') \<Rightarrow> Next (en1\<lparr>en_ws := (w, st'), en_lastTry := Some (name, runIndex)\<rparr>)
              | Inr (True, st') \<Rightarrow> execute_entry env inp e runIndex executionIndex (en1\<lparr>en_ws := (w, st')\<rparr>))"

text \<open>\<open>None\<close>: the stack is empty and the loop has ended.\<close>

definition loop_step :: "engine_env \<Rightarrow> step_input \<Rightarrow> engine \<Rightarrow> loop_result option" where
  "loop_step env inp en =
     (case x_stack (snd (en_ws en)) of
        [] \<Rightarrow> None
      | e # rest \<Rightarrow>
          (let en1 = upd_state (check_time env inp) en
           in if x_status (snd (en_ws en1)) = Canceled then Some (Left en1)
              else Some (process_entry env inp e (upd_state (\<lambda>st. st\<lparr>x_stack := rest\<rparr>) en1))))"

inductive executes :: "engine_env \<Rightarrow> engine \<Rightarrow> engine \<Rightarrow> bool" for env where
  start: "executes env en en"
| step: "executes env en en' \<Longrightarrow> loop_step env inp en' = Some (Next en'') \<Longrightarrow> executes env en en''"

subsection \<open>The end of the execution\<close>

text \<open>\<open>''\<dots>''.includes\<close>\<close>

fun is_prefix :: "string \<Rightarrow> string \<Rightarrow> bool" where
  "is_prefix [] s = True"
| "is_prefix (c # cs) [] = False"
| "is_prefix (c # cs) (d # ds) = (c = d \<and> is_prefix cs ds)"

fun str_includes :: "string \<Rightarrow> string \<Rightarrow> bool" where
  "str_includes [] p = is_prefix p []"
| "str_includes (c # cs) p = (is_prefix p (c # cs) \<or> str_includes cs p)"

definition final_status :: "node_error option \<Rightarrow> exec_state \<Rightarrow> execution_status" where
  "final_status executionError st =
     (case executionError of
        Some e \<Rightarrow> if str_includes (err_message e) ''canceled'' \<or> str_includes (err_name e) ''Cancelled'' then Canceled else ErrorStatus
      | None \<Rightarrow> if x_waitTill st \<noteq> None then Waiting else Success)"

text \<open>The metadata collected during the execution is merged into the runs it belongs to.\<close>

definition spread_metadata :: "task_metadata option \<Rightarrow> task_metadata \<Rightarrow> task_metadata" where
  "spread_metadata old new =
     (let o' = (case old of None \<Rightarrow> emptyMetadata | Some m \<Rightarrow> m); pick = (\<lambda>a b. if b = None then a else b)
      in \<lparr>tm_subNodeExecutionData = (if tm_subNodeExecutionData new = None then tm_subNodeExecutionData o' else tm_subNodeExecutionData new),
          tm_preserveSourceOverwrite = pick (tm_preserveSourceOverwrite o') (tm_preserveSourceOverwrite new),
          tm_nodeWasResumed = pick (tm_nodeWasResumed o') (tm_nodeWasResumed new),
          tm_rest = spread (tm_rest o') (tm_rest new)\<rparr>)"

fun merge_metadata :: "task_data list \<Rightarrow> task_metadata list \<Rightarrow> task_data list" where
  "merge_metadata (t # ts) (m # ms) = t\<lparr>td_metadata := Some (spread_metadata (td_metadata t) m)\<rparr> # merge_metadata ts ms"
| "merge_metadata ts ms = ts"

definition moveNodeMetadata :: "exec_state \<Rightarrow> exec_state" where
  "moveNodeMetadata st =
     st\<lparr>x_runData := fold (\<lambda>(nodeName, ms) runData.
          case obj_get runData nodeName of None \<Rightarrow> runData
          | Some runs \<Rightarrow> obj_set nodeName (merge_metadata runs ms) runData) (x_metadata st) (x_runData st)\<rparr>"

definition processSuccessExecution :: "node_error option \<Rightarrow> exec_state \<Rightarrow> exec_state" where
  "processSuccessExecution executionError st =
     (let st1 = moveNodeMetadata (st\<lparr>x_status := final_status executionError st\<rparr>)
      in case executionError of None \<Rightarrow> st1 | Some e \<Rightarrow> st1\<lparr>x_error := Some e\<rparr>)"

text \<open>The error that a cancelled execution ends with, when no node failed.\<close>

definition cancel_error :: "exec_state \<Rightarrow> node_error" where
  "cancel_error st =
     (if x_timedOut st
      then \<lparr>err_name = ''TimeoutExecutionCancelledError'', err_message = ''The execution was cancelled because it timed out'', err_stack = ''''\<rparr>
      else \<lparr>err_name = ''ManualExecutionCancelledError'', err_message = ''The execution was cancelled manually'', err_stack = ''''\<rparr>)"

definition end_execution :: "engine \<Rightarrow> exec_state" where
  "end_execution en =
     (let st = snd (en_ws en)
      in processSuccessExecution
           (if x_status st = Canceled \<and> en_error en = None then Some (cancel_error st) else en_error en) st)"

text \<open>An error outside every \<open>try\<close> is recorded; the status stays as it is.\<close>

definition crash_execution :: "engine_env \<Rightarrow> js_error \<Rightarrow> engine \<Rightarrow> exec_state" where
  "crash_execution env err en = moveNodeMetadata ((snd (en_ws en))\<lparr>x_error := Some (ev_errorOf env err)\<rparr>)"

text \<open>What is done before the loop.\<close>

definition start_execution :: "engine_env \<Rightarrow> wstate \<Rightarrow> js_error + engine" where
  "start_execution env ws =
     (case ws of (w, st) \<Rightarrow>
        bindE (checkForWorkflowIssues env w st) (\<lambda>_.
        bindE (handleWaitingState (w, st\<lparr>x_status := Running\<rparr>)) (\<lambda>ws'.
          Inr \<lparr>en_ws = ws', en_lastTry = None, en_error = None, en_events = []\<rparr>)))"

text \<open>
  The whole execution. The loop may go on for ever, so the number of iterations is bounded by \<open>fuel\<close>;
  \<open>None\<close> is an execution that needs more. \<open>inputs\<close> is what each iteration reads from outside.
\<close>

fun run_loop :: "engine_env \<Rightarrow> (nat \<Rightarrow> step_input) \<Rightarrow> nat \<Rightarrow> engine \<Rightarrow> exec_state option" where
  "run_loop env inputs 0 en = None"
| "run_loop env inputs (Suc fuel) en =
     (case loop_step env (inputs 0) en of
        None \<Rightarrow> Some (end_execution en)
      | Some (Next en') \<Rightarrow> run_loop env (\<lambda>k. inputs (Suc k)) fuel en'
      | Some (Left en') \<Rightarrow> Some (end_execution en')
      | Some (Crashed err en') \<Rightarrow> Some (crash_execution env err en'))"

definition processRunExecutionData ::
    "engine_env \<Rightarrow> (nat \<Rightarrow> step_input) \<Rightarrow> nat \<Rightarrow> wstate \<Rightarrow> js_error + exec_state option" where
  "processRunExecutionData env inputs fuel ws =
     bindE (start_execution env ws) (\<lambda>en. Inr (run_loop env inputs fuel en))"

end
