(* ===== verification/PartialExecution.thy ===== *)
theory PartialExecution
  imports EngineLoop
begin

section \<open>Starting an execution\<close>

text \<open>
  \<open>run\<close> and \<open>runPartialWorkflow2\<close> of \<open>workflow-execute.ts\<close>: what they hand to
  \<open>processRunExecutionData\<close>, the workflow and the state.
\<close>

subsection \<open>run\<close>

definition run_node_filter :: "workflow \<Rightarrow> destination_node \<Rightarrow> string list" where
  "run_node_filter w d =
     parentNodes w (dn_nodeName d) @ (if dn_mode d = Inclusive then [dn_nodeName d] else [])"

definition trigger_data :: "task_data option \<Rightarrow> task_conns" where
  "trigger_data triggerToStartFrom =
     (case triggerToStartFrom of
        None \<Rightarrow> [(Main, [JsVal [emptyItem]])]
      | Some t \<Rightarrow> (case td_data t of None \<Rightarrow> [(Main, [JsVal [emptyItem]])] | Some d \<Rightarrow> d))"

definition run ::
    "workflow \<Rightarrow> inode option \<Rightarrow> destination_node option \<Rightarrow> pin_data option \<Rightarrow> task_data option
      \<Rightarrow> js_error + workflow \<times> exec_state" where
  "run w startNode destinationNode pinData triggerToStartFrom =
     bindE (case startNode of Some n \<Rightarrow> Inr (Some n)
            | None \<Rightarrow> getStartNode w (map_option dn_nodeName destinationNode)) (\<lambda>start.
       case start of
         None \<Rightarrow> Inl (ApplicationError ''No node to start the workflow from could be found'')
       | Some node \<Rightarrow>
           Inr (w, createRunExecutionData
             \<lparr>ro_destinationNode = destinationNode, ro_originalDestinationNode = None,
              ro_runNodeFilter = map_option (run_node_filter w) destinationNode,
              ro_runData = None, ro_pinData = pinData,
              ro_stack = Some [\<lparr>ed_data = trigger_data triggerToStartFrom, ed_metadata = None, ed_node = node,
                ed_source = None, ed_runIndex = None\<rparr>],
              ro_waiting = None, ro_waitingSource = None\<rparr>))"

subsection \<open>Nodes that are tools\<close>

text \<open>
  \<open>isTool\<close> of \<open>node-helpers.ts\<close>. The first output given as a plain type decides, unless an output given with
  its configuration is one of a tool before. Outputs given by an expression are as none here.
\<close>

fun has_tool_output :: "node_output list \<Rightarrow> bool" where
  "has_tool_output [] = False"
| "has_tool_output (PlainOutput t # rest) = (t = AiTool)"
| "has_tool_output (ConfiguredOutput t # rest) = (t = AiTool \<or> has_tool_output rest)"

definition isTool :: "node_type \<Rightarrow> json obj \<Rightarrow> bool" where
  "isTool nodeType parameters =
     (if str_includes (nt_name nodeType) ''vectorStore''
      then obj_get parameters ''mode'' = Some (JStr ''retrieve-as-tool'')
      else has_tool_output (nt_outputs nodeType))"

text \<open>
  The parameters \<open>{...workflow}\<close>, and the node objects of the graph once the constructor of the new
  workflow has assigned the default parameters to them.
\<close>

definition spread_workflow :: "workflow \<Rightarrow> workflow_parameters" where
  "spread_workflow w =
     \<lparr>wp_id = w_id w, wp_name = w_name w, wp_nodes = [], wp_connections = [], wp_active = w_active w,
      wp_nodeTypes = w_nodeTypes w, wp_settings = Some (w_settings w), wp_pinData = w_pinData w\<rparr>"

definition map_graph :: "(inode \<Rightarrow> inode) \<Rightarrow> dgraph \<Rightarrow> dgraph" where
  "map_graph f g =
     \<lparr>g_nodes = map (\<lambda>(k, n). (k, f n)) (g_nodes g),
      g_conns = map (\<lambda>(k, c). (k, c\<lparr>g_from := f (g_from c), g_to := f (g_to c)\<rparr>)) (g_conns g)\<rparr>"

definition toolExecutorName :: string where
  "toolExecutorName = ''PartialExecutionToolExecutor''"

definition rewire_tool ::
    "(node_type \<Rightarrow> inode \<Rightarrow> json obj option) \<Rightarrow> workflow \<Rightarrow> inode \<Rightarrow> dgraph \<Rightarrow> ai_request option
      \<Rightarrow> js_error + workflow \<times> dgraph \<times> inode \<times> destination_node" where
  "rewire_tool getNodeParameters w destination g agentRequest =
     bindE (rewireGraph destination g agentRequest) (\<lambda>g1.
     bindE (toWorkflow getNodeParameters (spread_workflow w) g1) (\<lambda>w1.
       case getNode w1 toolExecutorName of
         None \<Rightarrow> Inl (OperationalError ''ToolExecutor can not be found'')
       | Some toolExecutor \<Rightarrow>
           Inr (w1, map_graph (withDefaults getNodeParameters (w_nodeTypes w)) g1, toolExecutor,
                \<lparr>dn_nodeName = n_name toolExecutor, dn_mode = Inclusive\<rparr>)))"

subsection \<open>runPartialWorkflow2\<close>

text \<open>Without a trigger: the first parent that has run data.\<close>

definition trigger_or_parent :: "workflow \<Rightarrow> string \<Rightarrow> run_data \<Rightarrow> js_error + inode" where
  "trigger_or_parent w destinationName runData =
     bindE (findTriggerForPartialExecution w destinationName runData) (\<lambda>trigger.
       case trigger of
         Some t \<Rightarrow> Inr t
       | None \<Rightarrow>
           (case find (\<lambda>nodeName. obj_has nodeName runData) (parentNodes w destinationName) of
              None \<Rightarrow> Inl (UserError ''Connect a trigger to run this node'')
            | Some nodeName \<Rightarrow>
                (case getNode w nodeName of
                   None \<Rightarrow> Inl (UserError ''Connect a trigger to run this node'')
                 | Some node \<Rightarrow> Inr node)))"

text \<open>Steps 2 to 7: the subgraph, the start nodes, the cleaned run data and the recreated stack.\<close>

definition prepare_partial ::
    "(string \<Rightarrow> string \<Rightarrow> int) \<Rightarrow> dgraph \<Rightarrow> inode \<Rightarrow> inode \<Rightarrow> run_data \<Rightarrow> pin_data \<Rightarrow> string list
      \<Rightarrow> js_error + dgraph \<times> run_data \<times> recreated" where
  "prepare_partial localeCompare g destination trigger runData pinData dirtyNodeNames =
     bindE (filterDisabledNodes g) (\<lambda>enabled.
     bindE (findSubgraph enabled destination trigger) (\<lambda>sub.
     bindE (cleanRunData runData sub (getNodesByNames sub dirtyNodeNames)) (\<lambda>runData1.
     bindE (findStartNodes sub trigger destination pinData runData1) (\<lambda>startNodes.
     bindE (handleCycles sub startNodes trigger) (\<lambda>startNodes1.
     bindE (cleanRunData runData1 sub startNodes1) (\<lambda>runData2.
     bindE (recreateNodeExecutionStack localeCompare sub startNodes1 runData2 pinData) (\<lambda>rc.
       Inr (sub, runData2, rc))))))))"

definition partial_state ::
    "destination_node \<Rightarrow> destination_node \<Rightarrow> pin_data \<Rightarrow> dgraph \<times> run_data \<times> recreated \<Rightarrow> exec_state" where
  "partial_state destinationNode originalDestination pinData = (\<lambda>(sub, runData, rc).
     (createRunExecutionData
       \<lparr>ro_destinationNode = Some destinationNode, ro_originalDestinationNode = Some originalDestination,
        ro_runNodeFilter = Some (map n_name (graph_nodes sub)), ro_runData = Some runData, ro_pinData = Some pinData,
        ro_stack = Some (rc_stack rc), ro_waiting = Some (rc_waiting rc), ro_waitingSource = Some (rc_waitingSource rc)\<rparr>)
       \<lparr>x_executionIndex := getNextExecutionIndex runData\<rparr>)"

definition runPartialWorkflow2 ::
    "(string \<Rightarrow> string \<Rightarrow> int) \<Rightarrow> (node_type \<Rightarrow> inode \<Rightarrow> json obj option) \<Rightarrow> workflow \<Rightarrow> run_data \<Rightarrow> pin_data option
      \<Rightarrow> string list \<Rightarrow> destination_node \<Rightarrow> ai_request option \<Rightarrow> js_error + workflow \<times> exec_state" where
  "runPartialWorkflow2 localeCompare getNodeParameters w runData pinData dirtyNodeNames destinationNode agentRequest =
     (case getNode w (dn_nodeName destinationNode) of
        None \<Rightarrow> Inl AssertionError
      | Some destination \<Rightarrow>
          bindE (fromWorkflow w) (\<lambda>g.
          bindE (case typeOf w destination of
                   None \<Rightarrow> Inl TypeError
                 | Some nodeType \<Rightarrow>
                     if isTool nodeType (n_parameters destination)
                     then rewire_tool getNodeParameters w destination g agentRequest
                     else Inr (w, g, destination, destinationNode)) (\<lambda>(w1, g1, destination1, destinationNode1).
          bindE (trigger_or_parent w1 (dn_nodeName destinationNode1) runData) (\<lambda>trigger.
          bindE (prepare_partial localeCompare g1 destination1 trigger runData
                   (case pinData of None \<Rightarrow> [] | Some p \<Rightarrow> p) dirtyNodeNames) (\<lambda>prepared.
            Inr (w1, partial_state destinationNode1 destinationNode
                       (case pinData of None \<Rightarrow> [] | Some p \<Rightarrow> p) prepared))))))"

end
