(* ===== verification/EngineQueueFacts.thy ===== *)
theory EngineQueueFacts
  imports EngineQueue
begin

section \<open>What queueing a node promises\<close>

text \<open>
  The waiting entry that data arriving at a node with several inputs is stored in, and when that
  entry is released to the stack. In the order \<open>v1\<close> the outcome is described on every branch.
\<close>

lemma get_entry_set:
  "get_entry (set_entry n i e W) m j = (if m = n \<and> j = i then Some e else get_entry W m j)"
  by (auto simp: get_entry_def set_entry_def js_simps split: option.splits)

lemma get_entry_del:
  "get_entry (del_entry n i W) m j = (if m = n \<and> j = i then None else get_entry W m j)"
  by (auto simp: get_entry_def del_entry_def js_simps split: option.splits)

lemma get_entry_drop: "obj_get W n = Some [] \<Longrightarrow> get_entry (obj_del n W) m j = get_entry W m j"
  by (auto simp: get_entry_def js_simps)

lemma stop_waiting_fields [simp]:
  "x_stack (stop_waiting n i st) = x_stack st" "x_runData (stop_waiting n i st) = x_runData st"
  by (simp_all add: stop_waiting_def Let_def)

subsection \<open>The two waiting maps go together\<close>

text \<open>Both maps have the same nodes and the same entries, and every entry has its \<open>main\<close> arrays.\<close>

definition has_main :: "(ctype, 'a jsval list) jsmap \<Rightarrow> bool" where
  "has_main cs \<longleftrightarrow> obj_get cs Main \<noteq> None"

definition waiting_ok :: "exec_state \<Rightarrow> bool" where
  "waiting_ok st \<longleftrightarrow> wf_obj (x_waiting st) \<and>
     (\<forall>n. obj_get (x_waiting st) n = None \<longleftrightarrow> obj_get (x_waitingSource st) n = None) \<and>
     (\<forall>n i. get_entry (x_waiting st) n i = None \<longleftrightarrow> get_entry (x_waitingSource st) n i = None) \<and>
     (\<forall>n i cs. get_entry (x_waiting st) n i = Some cs \<longrightarrow> has_main cs) \<and>
     (\<forall>n i cs. get_entry (x_waitingSource st) n i = Some cs \<longrightarrow> has_main cs)"

lemma waiting_ok_stack [simp]: "waiting_ok (enqueue w e st) = waiting_ok st"
  by (simp add: waiting_ok_def enqueue_def)

lemma set_entry_get: "obj_get (set_entry n i e W) m = None \<longleftrightarrow> m \<noteq> n \<and> obj_get W m = None"
  by (simp add: set_entry_def js_simps)

lemma del_entry_get: "obj_get (del_entry n i W) m = None \<longleftrightarrow> obj_get W m = None"
  by (auto simp: del_entry_def js_simps split: option.splits)

lemma wf_set_entry [simp]: "wf_obj W \<Longrightarrow> wf_obj (set_entry n i e W)"
  by (simp add: set_entry_def)

lemma wf_del_entry [simp]: "wf_obj W \<Longrightarrow> wf_obj (del_entry n i W)"
  by (simp add: del_entry_def split: option.splits)

lemma waiting_ok_set:
  assumes "waiting_ok st" "has_main cs" "has_main ss"
  shows "waiting_ok (st\<lparr>x_waiting := set_entry n i cs (x_waiting st), x_waitingSource := set_entry n i ss (x_waitingSource st)\<rparr>)"
  using assms by (simp add: waiting_ok_def set_entry_get get_entry_set)

lemma empty_entries: "get_entry W n i = None \<Longrightarrow> obj_get W n \<noteq> None \<Longrightarrow> \<forall>i. get_entry W n i = None \<Longrightarrow> obj_get W n = Some []"
proof -
  assume "obj_get W n \<noteq> None" and none: "\<forall>i. get_entry W n i = None"
  then obtain es where es: "obj_get W n = Some es" by auto
  with none have "\<forall>i. obj_get es i = None" by (simp add: get_entry_def)
  then have "es = []" by (cases es) (auto split: if_splits)
  with es show ?thesis by simp
qed

lemma waiting_ok_stop:
  assumes "waiting_ok st"
  shows "waiting_ok (stop_waiting n i st)"
proof -
  let ?W = "del_entry n i (x_waiting st)" and ?S = "del_entry n i (x_waitingSource st)"
  have ok: "waiting_ok (st\<lparr>x_waiting := ?W, x_waitingSource := ?S\<rparr>)"
    using assms by (simp add: waiting_ok_def del_entry_get get_entry_del)
  show ?thesis
  proof (cases "obj_get ?W n = Some []")
    case False
    with ok show ?thesis by (simp add: stop_waiting_def Let_def)
  next
    case True
    have "\<forall>m. obj_get ?W m = None \<longleftrightarrow> obj_get ?S m = None" using ok by (simp add: waiting_ok_def)
    with True have "obj_get ?S n \<noteq> None" by (metis option.distinct(1))
    moreover have "\<forall>j. get_entry ?S n j = None"
    proof
      fix j
      have "get_entry ?W n j = None" using True by (simp add: get_entry_def)
      moreover have "\<forall>m j. get_entry ?W m j = None \<longleftrightarrow> get_entry ?S m j = None"
        using ok by (simp add: waiting_ok_def)
      ultimately show "get_entry ?S n j = None" by blast
    qed
    ultimately have S: "obj_get ?S n = Some []" using empty_entries by metis
    from ok True S show ?thesis
      unfolding stop_waiting_def Let_def by (simp add: waiting_ok_def get_entry_drop js_simps)
  qed
qed

lemma get_entry_stop:
  assumes "waiting_ok st"
  shows "get_entry (x_waiting (stop_waiting n i st)) m j = (if m = n \<and> j = i then None else get_entry (x_waiting st) m j)"
  by (auto simp: stop_waiting_def Let_def get_entry_drop get_entry_del)

subsection \<open>addNodeToBeExecuted in the order v1\<close>

lemma find_waiting_entry_ok:
  "\<forall>i \<in> set is. \<exists>cs. obj_get entries i = Some cs \<and> has_main cs \<Longrightarrow>
   \<exists>r. find_waiting_entry entries k is = Inr r \<and> (\<forall>i. r = Some i \<longrightarrow> i \<in> set is)"
  by (induction "is") (auto simp: has_main_def split: option.splits)

lemma waiting_entries_ok:
  assumes "waiting_ok st" "i \<in> set (num_keys (waiting_entries st n))"
  shows "\<exists>cs. obj_get (waiting_entries st n) i = Some cs \<and> has_main cs"
proof -
  have "obj_get (waiting_entries st n) i \<noteq> None" using assms(2) by (simp add: map_of_eq_None_iff)
  then obtain cs where cs: "obj_get (waiting_entries st n) i = Some cs" by blast
  then have "get_entry (x_waiting st) n i = Some cs"
    by (auto simp: waiting_entries_def get_entry_def split: option.splits)
  with assms(1) cs show ?thesis by (auto simp: waiting_ok_def)
qed

lemma open_waiting_ok:
  assumes "waiting_ok st"
  shows "waiting_ok (open_waiting n st) \<and> (\<forall>m j. get_entry (x_waiting (open_waiting n st)) m j = get_entry (x_waiting st) m j)
    \<and> x_stack (open_waiting n st) = x_stack st \<and> x_runData (open_waiting n st) = x_runData st
    \<and> waiting_entries (open_waiting n st) n = waiting_entries st n"
proof (cases "obj_has n (x_waiting st)")
  case True
  with assms show ?thesis by (simp add: open_waiting_def)
next
  case False
  then have none: "obj_get (x_waiting st) n = None" by (simp add: obj_has_iff)
  with assms have "obj_get (x_waitingSource st) n = None" by (simp add: waiting_ok_def)
  then have same: "get_entry (obj_set n [] (x_waitingSource st)) m j = get_entry (x_waitingSource st) m j"
    "get_entry (obj_set n [] (x_waiting st)) m j = get_entry (x_waiting st) m j" for m j
    using none by (simp_all add: get_entry_def js_simps)
  have "waiting_entries (open_waiting n st) n = waiting_entries st n"
    using False none by (simp add: open_waiting_def waiting_entries_def js_simps)
  with assms False none same show ?thesis
    by (simp add: open_waiting_def waiting_ok_def js_simps)
qed

text \<open>The entry chosen: one that lacks the input, or a new one numbered by the count of entries.\<close>

lemma choose_entry_ok:
  assumes "waiting_ok st"
  shows "\<exists>i st1. choose_entry w c k st = Inr (i, st1) \<and> waiting_ok st1 \<and> get_entry (x_waiting st1) (c_node c) i \<noteq> None
    \<and> x_stack st1 = x_stack st \<and> x_runData st1 = x_runData st
    \<and> (\<forall>m j. (m, j) \<noteq> (c_node c, i) \<longrightarrow> get_entry (x_waiting st1) m j = get_entry (x_waiting st) m j)"
proof -
  let ?es = "waiting_entries st (c_node c)"
  obtain r where r: "find_waiting_entry ?es (c_index c) (num_keys ?es) = Inr r" "\<forall>i. r = Some i \<longrightarrow> i \<in> set (num_keys ?es)"
    using find_waiting_entry_ok waiting_entries_ok [OF assms] by blast
  show ?thesis
  proof (cases r)
    case None
    have "has_main [(Main, replicate k JsNull)]" by (simp add: has_main_def)
    from waiting_ok_set [OF assms this this] None r(1) show ?thesis
      by (simp add: choose_entry_def Let_def prepareWaitingToExecution_def get_entry_set has_main_def)
  next
    case (Some i)
    with r(2) waiting_entries_ok [OF assms] obtain cs where "obj_get ?es i = Some cs" by blast
    then have "get_entry (x_waiting st) (c_node c) i = Some cs"
      by (auto simp: waiting_entries_def get_entry_def split: option.splits)
    with Some r(1) assms show ?thesis by (simp add: choose_entry_def Let_def)
  qed
qed

lemma store_data_ok:
  assumes "waiting_ok st" "get_entry (x_waiting st) (c_node c) i \<noteq> None"
  shows "\<exists>st' slots. store_data c outputIndex p d r i st = Inr st' \<and> waiting_ok st' \<and> x_stack st' = x_stack st
    \<and> x_runData st' = x_runData st \<and> main_slots (x_waiting st) (c_node c) i = Inr slots
    \<and> main_slots (x_waiting st') (c_node c) i = Inr (arr_set slots (c_index c) (outputData d outputIndex))
    \<and> get_entry (x_waitingSource st') (c_node c) i \<noteq> None
    \<and> (\<forall>m j. (m, j) \<noteq> (c_node c, i) \<longrightarrow> get_entry (x_waiting st') m j = get_entry (x_waiting st) m j)"
proof -
  from assms obtain cs ss where *: "get_entry (x_waiting st) (c_node c) i = Some cs" "has_main cs"
    "get_entry (x_waitingSource st) (c_node c) i = Some ss" "has_main ss"
    unfolding waiting_ok_def by (metis not_None_eq)
  then obtain slots sources where **: "obj_get cs Main = Some slots" "obj_get ss Main = Some sources"
    by (auto simp: has_main_def)
  let ?cs = "obj_set Main (arr_set slots (c_index c) (outputData d outputIndex)) cs"
  let ?ss = "obj_set Main (arr_set sources (c_index c) (if d = None then JsNull else JsVal (sourceFrom p outputIndex r))) ss"
  have "has_main ?cs" "has_main ?ss" by (simp_all add: has_main_def js_simps)
  from waiting_ok_set [OF assms(1) this] * ** show ?thesis
    by (simp add: store_data_def set_main_slot_def main_slots_def get_entry_set js_simps)
qed

lemma arr_set_set: "arr_set (arr_set xs i v) i v = arr_set xs i v"
  by (auto simp: arr_set_def list_update_append)

lemma release_v1:
  assumes "\<not> isLegacyExecutionOrder w" "waiting_ok st" "nodeOf w n = Inr node"
    and "main_slots (x_waiting st) n i = Inr slots"
  shows "\<exists>st' e. release w n i st = Inr st' \<and> waiting_ok st' \<and> x_stack st' = e # x_stack st
    \<and> ed_node e = node \<and> obj_get (ed_data e) Main = Some slots
    \<and> (\<forall>m j. get_entry (x_waiting st') m j = (if m = n \<and> j = i then None else get_entry (x_waiting st) m j))"
proof -
  from assms(4) obtain cs where cs: "get_entry (x_waiting st) n i = Some cs" "obj_get cs Main = Some slots"
    by (auto simp: main_slots_def split: option.splits)
  let ?e = "\<lparr>ed_data = cs, ed_metadata = None, ed_node = node, ed_source = get_entry (x_waitingSource st) n i, ed_runIndex = None\<rparr>"
  have ok: "waiting_ok (enqueue w ?e st)" using assms(2) by simp
  have "release w n i st = Inr (stop_waiting n i (enqueue w ?e st))"
    using assms(3) cs(1) by (simp add: release_def)
  moreover have "x_stack (stop_waiting n i (enqueue w ?e st)) = ?e # x_stack st" "x_waiting (enqueue w ?e st) = x_waiting st"
    using assms(1) by (simp_all add: enqueue_def)
  ultimately show ?thesis using waiting_ok_stop [OF ok] get_entry_stop [OF ok] cs(2)
    by (intro exI [of _ "stop_waiting n i (enqueue w ?e st)"] exI [of _ ?e]) simp
qed

lemma keep_waiting_ok:
  assumes "waiting_ok st" "get_entry (x_waitingSource st) (c_node c) i \<noteq> None"
    and "main_slots (x_waiting st) (c_node c) i = Inr (arr_set slots (c_index c) (outputData d outputIndex))"
  shows "\<exists>st'. keep_waiting c outputIndex d i st = Inr st' \<and> waiting_ok st' \<and> x_stack st' = x_stack st
    \<and> main_slots (x_waiting st') (c_node c) i = Inr (arr_set slots (c_index c) (outputData d outputIndex))
    \<and> (\<forall>m j. (m, j) \<noteq> (c_node c, i) \<longrightarrow> get_entry (x_waiting st') m j = get_entry (x_waiting st) m j)"
proof -
  obtain ss sources where ss: "get_entry (x_waitingSource st) (c_node c) i = Some ss" "obj_get ss Main = Some sources"
    using assms(1,2) unfolding waiting_ok_def has_main_def by (metis not_None_eq)
  let ?slots = "arr_set slots (c_index c) (outputData d outputIndex)"
  let ?st = "st\<lparr>x_waiting := set_entry (c_node c) i [(Main, ?slots)] (x_waiting st),
                x_waitingSource := set_entry (c_node c) i [(Main, sources)] (x_waitingSource st)\<rparr>"
  have "keep_waiting c outputIndex d i st = Inr ?st"
    using assms(3) ss by (simp add: keep_waiting_def main_slots_def arr_set_set)
  moreover have "waiting_ok ?st" by (rule waiting_ok_set [OF assms(1)]) (simp_all add: has_main_def)
  ultimately show ?thesis
    by (intro exI [of _ ?st]) (auto simp: main_slots_def get_entry_set)
qed

text \<open>Without forced inputs the other inputs of a node that begins to wait change nothing.\<close>

lemma check_inputs_v1:
  assumes "\<not> isLegacyExecutionOrder w" "output_nodes w p = Inr outs"
    and "\<forall>x \<in> set outs. \<exists>b. firstInputIsEmpty w st x r = Inr b"
  shows "check_inputs w n p outputIndex d r st = Inr st"
proof -
  have noop: "check_input w p outs outputIndex d r inp st = Inr st" for inp
    using assms(1,3) by (auto simp: check_input_def Let_def)
  have "foldE (check_input w p outs outputIndex d r) inps st = Inr st" for inps
    by (induction inps) (simp_all add: noop)
  then show ?thesis using assms(2) by (simp add: check_inputs_def)
qed

text \<open>
  C2: In the order v1, data for a node with several inputs goes to one waiting entry and no other
  entry changes. When the entry's inputs all have data then, the node is put on top of the stack
  with them and the entry is removed; otherwise the entry keeps the data and the stack is unchanged.
\<close>

theorem addNodeToBeExecuted_v1:
  assumes "\<not> isLegacyExecutionOrder w" "waiting_ok st" "1 < number_of_inputs w (c_node c)"
    and "nodeOf w (c_node c) = Inr node" "output_nodes w p = Inr outs"
    and "\<forall>x \<in> set outs. \<exists>b. firstInputIsEmpty w st x r = Inr b"
  shows "\<exists>st' i slots. addNodeToBeExecuted w c outputIndex p d r nr md st = Inr st' \<and> waiting_ok st'
    \<and> arr_get slots (c_index c) = outputData d outputIndex
    \<and> (\<forall>m j. (m, j) \<noteq> (c_node c, i) \<longrightarrow> get_entry (x_waiting st') m j = get_entry (x_waiting st) m j)
    \<and> (if JsNull \<notin> set slots
       then get_entry (x_waiting st') (c_node c) i = None
         \<and> (\<exists>e. x_stack st' = e # x_stack st \<and> ed_node e = node \<and> obj_get (ed_data e) Main = Some slots)
       else main_slots (x_waiting st') (c_node c) i = Inr slots \<and> x_stack st' = x_stack st)"
proof -
  let ?st0 = "open_waiting (c_node c) st"
  note o0 = open_waiting_ok [OF assms(2), of "c_node c"]
  from choose_entry_ok [of ?st0 w c "number_of_inputs w (c_node c)"] o0 obtain i st1 where
    1: "choose_entry w c (number_of_inputs w (c_node c)) ?st0 = Inr (i, st1)" "waiting_ok st1"
      "get_entry (x_waiting st1) (c_node c) i \<noteq> None" "x_stack st1 = x_stack st" "x_runData st1 = x_runData st"
      "\<forall>m j. (m, j) \<noteq> (c_node c, i) \<longrightarrow> get_entry (x_waiting st1) m j = get_entry (x_waiting st) m j"
    by auto
  from store_data_ok [OF 1(2,3), of outputIndex p d r] obtain st2 slots0 where
    2: "store_data c outputIndex p d r i st1 = Inr st2" "waiting_ok st2" "x_stack st2 = x_stack st" "x_runData st2 = x_runData st"
      "main_slots (x_waiting st2) (c_node c) i = Inr (arr_set slots0 (c_index c) (outputData d outputIndex))"
      "get_entry (x_waitingSource st2) (c_node c) i \<noteq> None"
      "\<forall>m j. (m, j) \<noteq> (c_node c, i) \<longrightarrow> get_entry (x_waiting st2) m j = get_entry (x_waiting st) m j"
    using 1(4,5,6) by auto
  let ?slots = "arr_set slots0 (c_index c) (outputData d outputIndex)"
  have get: "arr_get ?slots (c_index c) = outputData d outputIndex" by (simp add: arr_get_set)
  have run: "addNodeToBeExecuted w c outputIndex p d r nr md st =
      (if JsNull \<notin> set ?slots then release w (c_node c) i st2
       else bindE (if obj_has (c_node c) (x_waiting st) then Inr st2
              else check_inputs w (c_node c) p outputIndex d r st2) (keep_waiting c outputIndex d i))"
    using assms(3) 1(1) 2(1,5) by (simp add: addNodeToBeExecuted_def Let_def add_waiting_def)
  show ?thesis
  proof (cases "JsNull \<notin> set ?slots")
    case True
    with run release_v1 [OF assms(1) 2(2) assms(4) 2(5)] get 2(3,7) show ?thesis
      by (metis (no_types, lifting) Pair_inject)
  next
    case False
    have "check_inputs w (c_node c) p outputIndex d r st2 = Inr st2"
      by (rule check_inputs_v1 [OF assms(1,5)]) (use assms(6) 2(4) in \<open>simp add: firstInputIsEmpty_def\<close>)
    with run False have "addNodeToBeExecuted w c outputIndex p d r nr md st = keep_waiting c outputIndex d i st2"
      by simp
    with keep_waiting_ok [OF 2(2,6,5)] False get 2(3,7) show ?thesis
      by (metis (no_types, lifting))
  qed
qed

subsection \<open>The index of a new waiting entry\<close>

text \<open>
  A new entry is numbered by the count of entries. With the entry 0 gone and the entry 1 waiting for
  its first input, a second delivery to the second input is numbered 1 and replaces what waits.
\<close>

lemma choose_entry_overwrites:
  assumes "obj_get (x_waiting st) (c_node c) = Some [(1, [(Main, [JsNull, JsVal xs])])]" "c_index c = 1"
  shows "\<exists>st1. choose_entry w c 2 st = Inr (1, st1)
    \<and> main_slots (x_waiting st) (c_node c) 1 = Inr [JsNull, JsVal xs]
    \<and> main_slots (x_waiting st1) (c_node c) 1 = Inr [JsNull, JsNull]"
  using assms
  by (simp add: choose_entry_def waiting_entries_def num_keys_def arr_get_def prepareWaitingToExecution_def
      main_slots_def get_entry_set numeral_2_eq_2) (simp add: get_entry_def)

end
