(* ===== verification/EngineWaitingFacts.thy ===== *)
theory EngineWaitingFacts
  imports EngineWaiting EngineQueueFacts
begin

section \<open>What picking a waiting node promises\<close>

text \<open>
  At most one waiting node is put on the stack, none of its parents waits, and when none is put
  there, none of the waiting nodes may run.
\<close>

lemma try_waiting_cases:
  assumes "try_waiting env w waitingNodes n st = Inr r"
  obtains "r = Skip"
  | i where "r = Emptied (stop_waiting n i st)"
  | i e node where "getNode w n = Some node" "ed_node e = node" "\<exists>ds. obj_get (ed_data e) Main = Some ds \<and> any_items ds"
      "\<forall>p \<in> set (parentNodes w n). p \<notin> set waitingNodes"
      "r = Taken (stop_waiting n i (st\<lparr>x_stack := x_stack st @ [e]\<rparr>))"
proof (cases "r = Skip")
  case False
  from try_waiting_entry [OF assms False] obtain node i main where
    *: "getNode w n = Some node" "run_waiting w node n i main st = Inr r" "\<forall>p \<in> set (parentNodes w n). p \<notin> set waitingNodes"
    by blast
  have pad: "any_items (pad_inputs k ds)" if "any_items ds" for k ds using that by (auto simp: any_items_def pad_inputs_def)
  show ?thesis
  proof (cases "any_items (map null_to_empty main)")
    case True
    with *(2) obtain k where "r = Taken (stop_waiting n i (st\<lparr>x_stack := x_stack st @
        [\<lparr>ed_data = [(Main, pad_inputs k (map null_to_empty main))], ed_metadata = None, ed_node = node,
          ed_source = get_entry (x_waitingSource st) n i, ed_runIndex = None\<rparr>]\<rparr>))"
      by (auto simp: run_waiting_def Let_def bindE_eq_Inr split: if_splits)
    then show ?thesis using that(3) * pad [OF True] by force
  next
    case False
    with *(2) have "r = Emptied (stop_waiting n i st)" by (auto simp: run_waiting_def Let_def split: if_splits)
    then show ?thesis by (rule that(2))
  qed
qed (rule that(1))

text \<open>Entries only go away.\<close>

definition fewer :: "exec_state \<Rightarrow> exec_state \<Rightarrow> bool" where
  "fewer st' st \<longleftrightarrow> waiting_ok st' \<and> x_runData st' = x_runData st
     \<and> (\<forall>n i. get_entry (x_waiting st') n i = None \<or> get_entry (x_waiting st') n i = get_entry (x_waiting st) n i)
     \<and> (\<forall>n. obj_get (x_waiting st) n = None \<longrightarrow> obj_get (x_waiting st') n = None)"

lemma fewer_trans: "fewer st2 st1 \<Longrightarrow> fewer st1 st \<Longrightarrow> fewer st2 st"
  unfolding fewer_def by metis

lemma fewer_stop: "waiting_ok st \<Longrightarrow> fewer (stop_waiting n i st) st"
  using get_entry_stop [of st n i] waiting_ok_stop [of st n i]
  by (auto simp: fewer_def) (auto simp: stop_waiting_def Let_def del_entry_get js_simps)

lemma waiting_ok_push [simp]: "waiting_ok (st\<lparr>x_stack := s\<rparr>) = waiting_ok st"
  by (simp add: waiting_ok_def)

lemma fewer_stop_push: "waiting_ok st \<Longrightarrow> fewer (stop_waiting n i (st\<lparr>x_stack := s\<rparr>)) st"
  using fewer_stop [of "st\<lparr>x_stack := s\<rparr>" n i] by (simp add: fewer_def)

definition picked :: "workflow \<Rightarrow> exec_state \<Rightarrow> execute_data \<Rightarrow> bool" where
  "picked w st' e \<longleftrightarrow> (\<exists>n. getNode w n = Some (ed_node e) \<and> (\<forall>p \<in> set (parentNodes w n). obj_get (x_waiting st') p = None))
     \<and> (\<exists>ds. obj_get (ed_data e) Main = Some ds \<and> any_items ds)"

lemma pick_waiting_result:
  assumes "pick_waiting env w ws ns st = Inr st'" "waiting_ok st" "ws = obj_keys (x_waiting st)"
    and "\<forall>n \<in> set ws - set ns. try_waiting env w ws n st = Inr Skip"
  shows "fewer st' st \<and>
    ((x_stack st' = x_stack st \<and> (\<forall>n \<in> set (obj_keys (x_waiting st')). try_waiting env w (obj_keys (x_waiting st')) n st' = Inr Skip))
     \<or> (\<exists>e. x_stack st' = x_stack st @ [e] \<and> picked w st' e))"
  using assms
proof (induction env w ws ns st rule: pick_waiting.induct)
  case (1 env w ws st)
  then show ?case by (simp add: pick_waiting.simps fewer_def)
next
  case (2 env w ws n ns st)
  from "2.prems"(1) obtain r where r: "try_waiting env w ws n st = Inr r"
    by (auto simp: pick_waiting.simps split: sum.splits)
  show ?case
  proof (rule try_waiting_cases [OF r])
    assume "r = Skip"
    with "2.IH"(1) [OF r] "2.prems" r show ?thesis by (auto simp: pick_waiting.simps)
  next
    fix i assume e: "r = Emptied (stop_waiting n i st)"
    let ?st = "stop_waiting n i st" and ?ks = "obj_keys (x_waiting (stop_waiting n i st))"
    have "pick_waiting env w ?ks ?ks ?st = Inr st'" using "2.prems"(1) r e by (simp add: pick_waiting.simps)
    from "2.IH"(2) [OF r e this waiting_ok_stop [OF "2.prems"(2)] refl] fewer_stop [OF "2.prems"(2), of n i]
    show ?thesis by (auto dest: fewer_trans)
  next
    fix i e node assume t: "getNode w n = Some node" "ed_node e = node" "\<exists>ds. obj_get (ed_data e) Main = Some ds \<and> any_items ds"
      "\<forall>p \<in> set (parentNodes w n). p \<notin> set ws" "r = Taken (stop_waiting n i (st\<lparr>x_stack := x_stack st @ [e]\<rparr>))"
    then have st': "st' = stop_waiting n i (st\<lparr>x_stack := x_stack st @ [e]\<rparr>)"
      using "2.prems"(1) r by (simp add: pick_waiting.simps)
    then have f: "fewer st' st" using fewer_stop_push [OF "2.prems"(2)] by simp
    have "obj_get (x_waiting st') p = None" if "p \<in> set (parentNodes w n)" for p
    proof -
      have "p \<notin> set (obj_keys (x_waiting st))" using t(4) that "2.prems"(3) by blast
      then have "obj_get (x_waiting st) p = None" by (simp add: map_of_eq_None_iff)
      with f show ?thesis unfolding fewer_def by blast
    qed
    with t f show ?thesis unfolding picked_def using st' by auto
  qed
qed

text \<open>
  C10: With an empty stack the search for a waiting node, when it does not throw, adds at most one
  entry: a node of the workflow of which no parent is waiting, with an item on some input. Waiting
  entries only go away. When it adds none, no waiting node that is left may run.
\<close>

theorem pickWaiting_result:
  assumes "pickWaiting env w st = Inr st'" "waiting_ok st" "x_stack st = []"
  shows "waiting_ok st' \<and> x_runData st' = x_runData st
    \<and> (\<forall>n i. get_entry (x_waiting st') n i = None \<or> get_entry (x_waiting st') n i = get_entry (x_waiting st) n i)
    \<and> (if x_stack st' = []
       then \<forall>n \<in> set (obj_keys (x_waiting st')). try_waiting env w (obj_keys (x_waiting st')) n st' = Inr Skip
       else \<exists>e. x_stack st' = [e] \<and> picked w st' e)"
proof -
  have "pick_waiting env w (obj_keys (x_waiting st)) (obj_keys (x_waiting st)) st = Inr st'"
    using assms(1,3) by (simp add: pickWaiting_def)
  from pick_waiting_result [OF this assms(2) refl] assms(3) show ?thesis by (auto simp: fewer_def)
qed

text \<open>
  The entries' keys are compared as strings: of the runs 2 and 10 the one called the earliest is 10.
\<close>

lemma first_run_index_lexicographic: "first_run_index [(2, e), (10, e')] = Some 10"
  by (simp add: first_run_index_def num_keys_def) (code_simp)

end
