(* ===== verification/RequestsFacts.thy ===== *)
theory RequestsFacts
  imports EngineLoop EngineQueueFacts "HOL-Library.Multiset"
begin

section \<open>What a request promises\<close>

text \<open>
  Preparing a request appends a placeholder run per action and remembers where it is; the runs of the
  tools are stored there, and the node that resumes reads its responses from there. In the order v1 the
  tools are queued ahead of it.
\<close>

lemma node_runs_push: "node_runs (x_runData (push_run n t st)) m = (if m = n then node_runs (x_runData st) n @ [t] else node_runs (x_runData st) m)"
  by (simp add: push_run_def node_runs_def js_simps)

lemma map_node_state [simp]: "map_node f (w, st) = (w', st') \<Longrightarrow> x_runData st' = x_runData st"
  by (auto simp: map_node_def)

text \<open>Preparing appends one placeholder per action, and remembers where it is.\<close>

definition runs_of :: "inode \<Rightarrow> nat \<Rightarrow> execute_data \<Rightarrow> engine_action list \<Rightarrow> string \<Rightarrow> task_data list" where
  "runs_of currentNode runIndex e actions n =
     map (\<lambda>a. placeholder (tool_input currentNode runIndex e a)) (filter (\<lambda>a. ea_nodeName a = n) actions)"

lemma prepareRequestedNodes_runs:
  assumes "prepareRequestedNodes c r e actions nodes subs (w, st) = (Inr (nodes', subs'), (w', st'))"
  shows "\<exists>tools new. nodes' = nodes @ tools \<and> subs' = subs @ new \<and> map sn_action new = actions
    \<and> (\<forall>n. node_runs (x_runData st') n = node_runs (x_runData st) n @ runs_of c r e actions n)
    \<and> (\<forall>s \<in> set new. idx (node_runs (x_runData st') (sn_nodeName s)) (sn_runIndex s)
          = Some (placeholder (tool_input c r e (sn_action s))))"
  using assms
proof (induction actions arbitrary: nodes subs w st)
  case Nil
  then show ?case by (auto simp: runs_of_def)
next
  case (Cons a actions)
  let ?k = "length (node_runs (x_runData st) (ea_nodeName a))" and ?t = "placeholder (tool_input c r e a)"
  obtain w1 st1 where 1: "map_node (rewire_log (ea_nodeName a) (ea_type a)) (w, st) = (w1, st1)" by force
  let ?s = "\<lparr>sn_nodeName = ea_nodeName a, sn_runIndex = ?k, sn_action = a\<rparr>"
  have "prepareRequestedNodes c r e actions (nodes @ [tool_to_execute c r e a ?k]) (subs @ [?s]) (w1, push_run (ea_nodeName a) ?t st1)
      = (Inr (nodes', subs'), (w', st'))"
    using Cons.prems 1 by (auto simp: Let_def split: if_splits)
  from Cons.IH [OF this] obtain tools new where
    IH: "nodes' = nodes @ tool_to_execute c r e a ?k # tools" "subs' = subs @ ?s # new" "map sn_action new = actions"
      "\<And>n. node_runs (x_runData st') n = node_runs (x_runData (push_run (ea_nodeName a) ?t st1)) n @ runs_of c r e actions n"
      "\<forall>s \<in> set new. idx (node_runs (x_runData st') (sn_nodeName s)) (sn_runIndex s) = Some (placeholder (tool_input c r e (sn_action s)))"
    by auto
  have runs: "node_runs (x_runData st') n = node_runs (x_runData st) n @ runs_of c r e (a # actions) n" for n
    using IH(4) map_node_state [OF 1] by (auto simp: node_runs_push runs_of_def)
  have "idx (node_runs (x_runData st') (ea_nodeName a)) ?k = Some ?t"
    by (simp add: runs runs_of_def idx_def nth_append)
  with IH runs show ?case
    by (intro exI [of _ "tool_to_execute c r e a ?k # tools"] exI [of _ "?s # new"]) auto
qed

lemma collect_sub_responses:
  "\<forall>s \<in> set ss. idx (node_runs runData (sn_nodeName s)) (sn_runIndex s) = Some (f (sn_action s)) \<Longrightarrow>
   concat (map (sub_response runData) ss) = map (\<lambda>a. (f a, a)) (map sn_action ss)"
  by (induction ss) (simp_all add: sub_response_def)

text \<open>The run that a tool was queued for, and where the resumed node looks for it.\<close>

definition tool_place :: "node_to_execute \<Rightarrow> string \<times> nat" where
  "tool_place n = (c_node (ne_inputConnectionData n), ne_nodeRunIndex n)"

definition sub_place :: "sub_node_action \<Rightarrow> string \<times> nat" where
  "sub_place s = (sn_nodeName s, sn_runIndex s)"

lemma prepareRequestedNodes_places:
  assumes "prepareRequestedNodes c r e actions nodes subs (w, st) = (Inr (nodes', subs'), (w', st'))"
  shows "\<exists>tools new. nodes' = nodes @ tools \<and> subs' = subs @ new \<and> map tool_place tools = map sub_place new
    \<and> distinct (map sub_place new) \<and> (\<forall>s \<in> set new. length (node_runs (x_runData st) (sn_nodeName s)) \<le> sn_runIndex s)"
  using assms
proof (induction actions arbitrary: nodes subs w st)
  case (Cons a actions)
  let ?k = "length (node_runs (x_runData st) (ea_nodeName a))" and ?t = "placeholder (tool_input c r e a)"
  obtain w1 st1 where 1: "map_node (rewire_log (ea_nodeName a) (ea_type a)) (w, st) = (w1, st1)" by force
  let ?s = "\<lparr>sn_nodeName = ea_nodeName a, sn_runIndex = ?k, sn_action = a\<rparr>"
  have "prepareRequestedNodes c r e actions (nodes @ [tool_to_execute c r e a ?k]) (subs @ [?s]) (w1, push_run (ea_nodeName a) ?t st1)
      = (Inr (nodes', subs'), (w', st'))"
    using Cons.prems 1 by (auto simp: Let_def split: if_splits)
  from Cons.IH [OF this] obtain tools new where
    IH: "nodes' = nodes @ tool_to_execute c r e a ?k # tools" "subs' = subs @ ?s # new" "map tool_place tools = map sub_place new"
      "distinct (map sub_place new)"
      "\<And>s. s \<in> set new \<Longrightarrow> length (node_runs (x_runData (push_run (ea_nodeName a) ?t st1)) (sn_nodeName s)) \<le> sn_runIndex s"
    by auto
  have later: "length (node_runs (x_runData st) (sn_nodeName s)) + (if sn_nodeName s = ea_nodeName a then 1 else 0) \<le> sn_runIndex s"
    if "s \<in> set new" for s
    using IH(5) [OF that] map_node_state [OF 1] by (simp add: node_runs_push split: if_splits)
  then have "sub_place ?s \<notin> sub_place ` set new" by (fastforce simp: sub_place_def)
  moreover have "length (node_runs (x_runData st) (sn_nodeName s)) \<le> sn_runIndex s" if "s \<in> set new" for s
    using later [OF that] by simp
  moreover have "tool_place (tool_to_execute c r e a ?k) = sub_place ?s"
    by (simp add: tool_place_def sub_place_def tool_to_execute_def)
  ultimately show ?case using IH(1-4)
    by (intro exI [of _ "tool_to_execute c r e a ?k # tools"] exI [of _ "?s # new"]) auto
qed simp

lemma prepareRequestedNodes_tools:
  "prepareRequestedNodes c r e actions [] [] (w, st) = (Inr (tools, subs), (w', st')) \<Longrightarrow>
   map (\<lambda>n. c_node (ne_inputConnectionData n)) tools = map ea_nodeName actions"
proof -
  have "map (\<lambda>n. c_node (ne_inputConnectionData n)) tools = map (\<lambda>n. c_node (ne_inputConnectionData n)) nodes @ map ea_nodeName actions"
    if "prepareRequestedNodes c r e actions nodes ss ws = (Inr (tools, subs), ws')" for nodes ss ws ws'
    using that
  proof (induction actions arbitrary: nodes ss ws)
    case (Cons a actions)
    then show ?case by (cases ws) (fastforce simp: Let_def tool_to_execute_def split: if_splits prod.splits)
  qed simp
  from this [of "[]"] show "prepareRequestedNodes c r e actions [] [] (w, st) = (Inr (tools, subs), (w', st')) \<Longrightarrow>
    map (\<lambda>n. c_node (ne_inputConnectionData n)) tools = map ea_nodeName actions" by simp
qed

subsection \<open>The tools run\<close>

text \<open>Each tool stores its run at the run index it was queued with, as the loop does at the end of an iteration.\<close>

definition store_runs :: "(node_to_execute \<times> task_data) list \<Rightarrow> exec_state \<Rightarrow> exec_state" where
  "store_runs runs st = fold (\<lambda>(n, task). store_run (c_node (ne_inputConnectionData n)) (ne_nodeRunIndex n) task) runs st"

lemma node_runs_store:
  "node_runs (x_runData (store_run n i t st)) m =
     (if m = n then (let runs = node_runs (x_runData st) n in
        if i < length runs then runs[i := assign_task (runs ! i) t] else runs @ [t])
      else node_runs (x_runData st) m)"
  by (simp add: store_run_def Let_def idx_def node_runs_def obj_get_set split: option.split)

lemma store_runs_at:
  assumes "distinct (map (tool_place \<circ> fst) runs)"
    and "\<forall>p \<in> set runs. ne_nodeRunIndex (fst p) < length (node_runs (x_runData st) (c_node (ne_inputConnectionData (fst p))))"
  shows "idx (node_runs (x_runData (store_runs runs st)) m) i =
    (case find (\<lambda>p. tool_place (fst p) = (m, i)) runs of
       None \<Rightarrow> idx (node_runs (x_runData st) m) i
     | Some p \<Rightarrow> Some (assign_task (node_runs (x_runData st) m ! i) (snd p)))"
  using assms
proof (induction runs arbitrary: st)
  case (Cons p runs)
  let ?n = "c_node (ne_inputConnectionData (fst p))" and ?k = "ne_nodeRunIndex (fst p)"
  let ?st = "store_run ?n ?k (snd p) st"
  have k: "?k < length (node_runs (x_runData st) ?n)" using Cons.prems(2) by simp
  have runs: "node_runs (x_runData ?st) j = (if j = ?n then (node_runs (x_runData st) ?n)[?k := assign_task (node_runs (x_runData st) ?n ! ?k) (snd p)]
      else node_runs (x_runData st) j)" for j
    using k by (simp add: node_runs_store Let_def)
  have more: "\<forall>p \<in> set runs. ne_nodeRunIndex (fst p) < length (node_runs (x_runData ?st) (c_node (ne_inputConnectionData (fst p))))"
    using Cons.prems(2) by (auto simp: runs)
  have fold: "store_runs (p # runs) st = store_runs runs ?st" by (simp add: store_runs_def case_prod_unfold)
  have new: "idx (node_runs (x_runData ?st) m) i =
      (if tool_place (fst p) = (m, i) then Some (assign_task (node_runs (x_runData st) m ! i) (snd p)) else idx (node_runs (x_runData st) m) i)"
    using k by (auto simp: runs tool_place_def idx_def)
  have IH: "idx (node_runs (x_runData (store_runs runs ?st)) m) i =
      (case find (\<lambda>p. tool_place (fst p) = (m, i)) runs of
         None \<Rightarrow> idx (node_runs (x_runData ?st) m) i
       | Some q \<Rightarrow> Some (assign_task (node_runs (x_runData ?st) m ! i) (snd q)))"
    using Cons.IH [OF _ more] Cons.prems(1) by simp
  show ?case
  proof (cases "tool_place (fst p) = (m, i)")
    case True
    then have "find (\<lambda>p. tool_place (fst p) = (m, i)) runs = None"
      using Cons.prems(1) by (auto simp: find_None_iff image_iff)
    then show ?thesis unfolding fold IH using True new by simp
  next
    case False
    then have "node_runs (x_runData ?st) m ! i = node_runs (x_runData st) m ! i"
      by (auto simp: runs tool_place_def)
    then show ?thesis unfolding fold IH using False new by (simp split: option.split)
  qed
qed (simp add: store_runs_def)

text \<open>The runs in the order of the actions, from runs of the tools in any order.\<close>

lemma found_by_find: "find P xs = Some x \<Longrightarrow> x \<in> set xs \<and> P x"
  by (induction xs) (auto split: if_splits)

lemma find_place:
  assumes "mset runs = mset (zip tools results)" "length tools = length results" "distinct (map tool_place tools)" "k < length tools"
  shows "find (\<lambda>p. tool_place (fst p) = tool_place (tools ! k)) runs = Some (tools ! k, results ! k)"
proof -
  have "(tools ! k, results ! k) \<in> set (zip tools results)" using assms(2,4) by (auto simp: set_zip)
  then have mem: "(tools ! k, results ! k) \<in> set runs" using assms(1) by (metis set_mset_mset)
  have same: "q = (tools ! k, results ! k)" if q: "q \<in> set runs" "tool_place (fst q) = tool_place (tools ! k)" for q
  proof -
    from q(1) assms(1) have "q \<in> set (zip tools results)" by (metis set_mset_mset)
    then obtain j where j: "j < length tools" "q = (tools ! j, results ! j)" by (auto simp: set_zip)
    then have "map tool_place tools ! j = map tool_place tools ! k" using q(2) assms(4) by simp
    then have "j = k" using assms(3,4) j(1) by (metis length_map nth_eq_iff_index_eq)
    then show ?thesis using j by simp
  qed
  obtain p where p: "find (\<lambda>p. tool_place (fst p) = tool_place (tools ! k)) runs = Some p"
    using mem by (cases "find (\<lambda>p. tool_place (fst p) = tool_place (tools ! k)) runs") (force simp: find_None_iff)+
  then show ?thesis using found_by_find [OF p] same by simp
qed

lemma collect_stored:
  assumes "map tool_place tools = map sub_place subs" "distinct (map sub_place subs)" "length results = length subs"
    and "mset runs = mset (zip tools results)"
    and "\<forall>s \<in> set subs. idx (node_runs (x_runData st) (sn_nodeName s)) (sn_runIndex s) = Some (f (sn_action s))"
  shows "concat (map (sub_response (x_runData (store_runs runs st))) subs)
    = map (\<lambda>(a, t). (assign_task (f a) t, a)) (zip (map sn_action subs) results)"
proof -
  have len: "length tools = length results" using assms(1,3) by (metis length_map)
  have "image_mset (tool_place \<circ> fst) (mset runs) = mset (map (tool_place \<circ> fst) (zip tools results))" by (simp add: assms(4))
  also have "map (tool_place \<circ> fst) (zip tools results) = map tool_place tools" using len by (metis map_fst_zip map_map)
  finally have dist: "distinct (map (tool_place \<circ> fst) runs)" using assms(1,2) by (metis mset_eq_imp_distinct_iff mset_map)
  have place: "tool_place (tools ! k) = (sn_nodeName (subs ! k), sn_runIndex (subs ! k))" if "k < length subs" for k
    using assms(1) that by (metis length_map nth_map sub_place_def)
  have "ne_nodeRunIndex (fst p) < length (node_runs (x_runData st) (c_node (ne_inputConnectionData (fst p))))" if "p \<in> set runs" for p
  proof -
    have "p \<in> set (zip tools results)" using that assms(4) by (metis set_mset_mset)
    then obtain k where k: "k < length tools" "fst p = tools ! k" by (auto simp: set_zip)
    then have "subs ! k \<in> set subs" "k < length subs" using len assms(3) by simp_all
    then show ?thesis using assms(5) place [of k] k(2) by (force simp: tool_place_def idx_def split: if_splits)
  qed
  then have "sub_response (x_runData (store_runs runs st)) (subs ! k) = [(assign_task (f (sn_action (subs ! k))) (results ! k), sn_action (subs ! k))]"
    if k: "k < length subs" for k
  proof -
    have "idx (node_runs (x_runData st) (sn_nodeName (subs ! k))) (sn_runIndex (subs ! k)) = Some (f (sn_action (subs ! k)))"
      using assms(5) k by simp
    moreover have "find (\<lambda>p. tool_place (fst p) = (sn_nodeName (subs ! k), sn_runIndex (subs ! k))) runs = Some (tools ! k, results ! k)"
      using find_place [OF assms(4) len, of k] assms(1-3) k len place [OF k] by simp
    ultimately show ?thesis
      using store_runs_at [OF dist, of st "sn_nodeName (subs ! k)" "sn_runIndex (subs ! k)"]
        \<open>\<And>p. p \<in> set runs \<Longrightarrow> _\<close> by (auto simp: sub_response_def idx_def split: if_splits)
  qed
  then have "map (sub_response (x_runData (store_runs runs st))) subs
      = map (\<lambda>(a, t). [(assign_task (f a) t, a)]) (zip (map sn_action subs) results)"
    using assms(3) by (intro nth_equalityI) simp_all
  then show ?thesis by (simp add: case_prod_unfold concat_map_singleton del: map_map)
qed

text \<open>
  C12: A request that is not ignored queues the requesting node first and one tool per action after it.
  Each tool's runs grow by one placeholder per action that names it and no other run changes. When
  every queued tool then stores its run at the run index it was queued with, in whatever order, and
  nothing else is stored, the responses that the resumed node reads are, for each action of the request
  in order, the run of the tool queued for this very action, completed by the input override of its placeholder.
\<close>

theorem handleRequest_responses:
  assumes "handleRequest currentNode request runIndex e (w, st) = (Inr nodes, (w', st'))" "nodes \<noteq> []"
    and "length results = length (er_actions request)" "mset runs = mset (zip (tl nodes) results)"
  shows "\<exists>metadata. ne_metadata (hd nodes) = Some metadata
    \<and> c_node (ne_inputConnectionData (hd nodes)) = n_name (ed_node e)
    \<and> map (\<lambda>n. c_node (ne_inputConnectionData n)) (tl nodes) = map ea_nodeName (er_actions request)
    \<and> (\<forall>n. node_runs (x_runData st') n = node_runs (x_runData st) n @ runs_of currentNode runIndex e (er_actions request) n)
    \<and> rs_actionResponses (collect_results (e\<lparr>ed_metadata := Some metadata\<rparr>) (x_runData (store_runs runs st')) makeEngineResponse)
      = map (\<lambda>(a, task). (assign_task (placeholder (tool_input currentNode runIndex e a)) task, a)) (zip (er_actions request) results)"
proof -
  from assms(1,2) obtain tools subs cp where
    p: "prepareRequestedNodes currentNode runIndex e (er_actions request) [] [] (w, st) = (Inr (tools, subs), (w', st'))"
      "prepareRequestingNodeForResuming e = Some cp"
      "nodes = node_to_resume e runIndex request subs (fst cp) (snd cp) # tools"
    by (auto simp: handleRequest_def split: prod.splits sum.splits option.splits)
  from prepareRequestedNodes_runs [OF p(1)] have
    q: "map sn_action subs = er_actions request"
      "\<forall>n. node_runs (x_runData st') n = node_runs (x_runData st) n @ runs_of currentNode runIndex e (er_actions request) n"
      "\<forall>s \<in> set subs. idx (node_runs (x_runData st') (sn_nodeName s)) (sn_runIndex s)
          = Some (placeholder (tool_input currentNode runIndex e (sn_action s)))"
    by auto
  have places: "map tool_place tools = map sub_place subs" "distinct (map sub_place subs)"
    using prepareRequestedNodes_places [OF p(1)] by auto
  have "length results = length subs" using assms(3) q(1) by (metis length_map)
  from collect_stored [OF places this _ q(3)] have
    responses: "concat (map (sub_response (x_runData (store_runs runs st'))) subs)
      = map (\<lambda>(a, task). (assign_task (placeholder (tool_input currentNode runIndex e a)) task, a)) (zip (er_actions request) results)"
    using assms(4) p(3) q(1) by simp
  have "c_node (fst cp) = n_name (ed_node e)"
    using p(2) by (auto simp: prepareRequestingNodeForResuming_def split: option.splits if_splits)
  moreover have "map (\<lambda>n. c_node (ne_inputConnectionData n)) tools = map ea_nodeName (er_actions request)"
    by (rule prepareRequestedNodes_tools [OF p(1)])
  ultimately show ?thesis using p(3) q(2) responses
    by (auto simp: node_to_resume_def collect_results_def makeEngineResponse_def)
qed


subsection \<open>The order of execution\<close>

definition stack_names :: "exec_state \<Rightarrow> string list" where
  "stack_names st = map (\<lambda>e. n_name (ed_node e)) (x_stack st)"

definition keyed :: "workflow \<Rightarrow> bool" where
  "keyed w \<longleftrightarrow> (\<forall>(k, n) \<in> set (w_nodes w). n_name n = k)"

definition single_input :: "workflow \<Rightarrow> string \<Rightarrow> bool" where
  "single_input w n \<longleftrightarrow> number_of_inputs w n \<le> 1 \<and> getNode w n \<noteq> None"

lemma addNodeToBeExecuted_single:
  assumes "keyed w" "single_input w (c_node c)"
  shows "\<exists>st'. addNodeToBeExecuted w c oi p d r nr md st = Inr st' \<and> stack_names st'
    = (if isLegacyExecutionOrder w then stack_names st @ [c_node c] else c_node c # stack_names st)"
proof -
  from assms obtain n where n: "obj_get (w_nodes w) (c_node c) = Some n" "n_name n = c_node c"
    by (auto simp: single_input_def getNode_def keyed_def dest: obj_get_mem)
  with assms(2) show ?thesis
    by (auto simp: addNodeToBeExecuted_def single_input_def nodeOf_def enqueue_def stack_names_def Let_def)
qed

lemma queue_nodes_order:
  assumes "keyed w" "\<forall>n \<in> set ns. single_input w (c_node (ne_inputConnectionData n)) \<and> ne_parentOutputData n \<noteq> None"
  shows "\<exists>st'. queue_nodes w ns st = (None, st') \<and> stack_names st' =
    (if isLegacyExecutionOrder w then stack_names st @ map (\<lambda>n. c_node (ne_inputConnectionData n)) ns
     else rev (map (\<lambda>n. c_node (ne_inputConnectionData n)) ns) @ stack_names st)"
  using assms(2)
proof (induction ns arbitrary: st)
  case (Cons n ns)
  then obtain st1 where st1: "queue_node w n st = Inr st1"
    "stack_names st1 = (if isLegacyExecutionOrder w then stack_names st @ [c_node (ne_inputConnectionData n)]
       else c_node (ne_inputConnectionData n) # stack_names st)"
    using addNodeToBeExecuted_single [OF assms(1), of "ne_inputConnectionData n"] by (fastforce simp: queue_node_def)
  with Cons.IH [of st1] Cons.prems show ?case by auto
qed simp

lemma map_node_fields:
  assumes "map_node f (w, st) = (w', st')" "\<And>n. n_name (f n) = n_name n"
  shows "stack_names st' = stack_names st" "keyed w' = keyed w" "number_of_inputs w' n = number_of_inputs w n"
    "isLegacyExecutionOrder w' = isLegacyExecutionOrder w" "(getNode w' n = None) = (getNode w n = None)"
proof -
  have w: "w' = w\<lparr>w_nodes := map (\<lambda>(k, n). (k, f n)) (w_nodes w)\<rparr>"
    and st: "st' = st\<lparr>x_stack := map (\<lambda>e. e\<lparr>ed_node := f (ed_node e)\<rparr>) (x_stack st)\<rparr>"
    using assms(1) unfolding map_node_def prod.case prod.inject by (blast intro: sym)+
  show "stack_names st' = stack_names st" by (simp add: st stack_names_def assms(2))
  show "keyed w' = keyed w" by (simp add: w keyed_def assms(2) split_beta)
  show "number_of_inputs w' n = number_of_inputs w n" "isLegacyExecutionOrder w' = isLegacyExecutionOrder w"
    by (simp_all add: w number_of_inputs_def isLegacyExecutionOrder_def)
  show "(getNode w' n = None) = (getNode w n = None)"
    by (simp add: w getNode_def map_of_map)
qed

lemma prepareRequestedNodes_names:
  assumes "\<forall>a \<in> set actions. getNode w (ea_nodeName a) \<noteq> None"
  shows "\<exists>tools new w' st'. prepareRequestedNodes c r e actions nodes subs (w, st) = (Inr (nodes @ tools, subs @ new), (w', st'))
    \<and> map (\<lambda>n. c_node (ne_inputConnectionData n)) tools = map ea_nodeName actions
    \<and> (\<forall>n \<in> set tools. ne_parentOutputData n \<noteq> None)
    \<and> stack_names st' = stack_names st \<and> keyed w' = keyed w \<and> isLegacyExecutionOrder w' = isLegacyExecutionOrder w
    \<and> (\<forall>n. single_input w' n = single_input w n)"
  using assms
proof (induction actions arbitrary: nodes subs w st)
  case (Cons a actions)
  let ?k = "length (node_runs (x_runData st) (ea_nodeName a))"
  obtain w1 st1 where 1: "map_node (rewire_log (ea_nodeName a) (ea_type a)) (w, st) = (w1, st1)" by force
  note f = map_node_fields [OF 1, simplified rewire_log_def, simplified]
  have stk: "stack_names (push_run (ea_nodeName a) t st1) = stack_names st" for t
    using f(1) by (simp add: push_run_def stack_names_def)
  have "\<forall>b \<in> set actions. getNode w1 (ea_nodeName b) \<noteq> None" using Cons.prems f(5) by simp
  from Cons.IH [OF this, of "nodes @ [tool_to_execute c r e a ?k]"
      "subs @ [\<lparr>sn_nodeName = ea_nodeName a, sn_runIndex = ?k, sn_action = a\<rparr>]"
      "push_run (ea_nodeName a) (placeholder (tool_input c r e a)) st1"] Cons.prems 1 stk f(2-5)
  show ?case by (auto simp: Let_def tool_to_execute_def single_input_def)
qed simp

text \<open>
  C11: When the requesting node and all tools are nodes of the workflow with at most one main input
  each, the requesting node has main input data and its source names a parent, a request puts all of them on
  the stack. In the order v1 the tools are on top, the last one first, and the requesting node directly below
  them, so that it resumes after they ran. In the legacy order they are added at the bottom with the
  requesting node before its tools, so that it is resumed before any of them ran, against the comment at
  \<open>handleRequest\<close>.
\<close>

theorem handleEngineRequest_order:
  assumes "keyed w" "\<forall>a \<in> set (er_actions request). single_input w (ea_nodeName a)"
    and "single_input w (n_name (ed_node e))" "prepareRequestingNodeForResuming e = Some cp" "obj_get (ed_data e) Main \<noteq> None"
  shows "\<exists>w' st'. handleEngineRequest currentNode request runIndex e (w, st) = (None, (w', st')) \<and> stack_names st' =
    (if isLegacyExecutionOrder w
     then stack_names st @ n_name (ed_node e) # map ea_nodeName (er_actions request)
     else rev (map ea_nodeName (er_actions request)) @ n_name (ed_node e) # stack_names st)"
proof -
  have "\<forall>a \<in> set (er_actions request). getNode w (ea_nodeName a) \<noteq> None" using assms(2) by (simp add: single_input_def)
  from prepareRequestedNodes_names [OF this, of currentNode runIndex e "[]" "[]" st] obtain tools subs w' st' where
    p: "prepareRequestedNodes currentNode runIndex e (er_actions request) [] [] (w, st) = (Inr (tools, subs), (w', st'))"
      "map (\<lambda>n. c_node (ne_inputConnectionData n)) tools = map ea_nodeName (er_actions request)"
      "\<forall>n \<in> set tools. ne_parentOutputData n \<noteq> None" "stack_names st' = stack_names st" "keyed w' = keyed w"
      "isLegacyExecutionOrder w' = isLegacyExecutionOrder w" "\<forall>n. single_input w' n = single_input w n"
    by auto
  let ?ns = "node_to_resume e runIndex request subs (fst cp) (snd cp) # tools"
  have cp: "c_node (fst cp) = n_name (ed_node e)"
    using assms(4) by (auto simp: prepareRequestingNodeForResuming_def split: option.splits if_splits)
  have "\<forall>n \<in> set tools. single_input w (c_node (ne_inputConnectionData n))"
    using p(2) assms(2) by (metis (mono_tags, lifting) image_eqI image_iff list.set_map)
  then have "\<forall>n \<in> set ?ns. single_input w' (c_node (ne_inputConnectionData n)) \<and> ne_parentOutputData n \<noteq> None"
    using p(3,7) assms(3,5) cp by (simp add: node_to_resume_def)
  with queue_nodes_order [of w' ?ns st'] assms(1) p(5) obtain st2 where
    "queue_nodes w' ?ns st' = (None, st2)" "stack_names st2 =
      (if isLegacyExecutionOrder w' then stack_names st' @ map (\<lambda>n. c_node (ne_inputConnectionData n)) ?ns
       else rev (map (\<lambda>n. c_node (ne_inputConnectionData n)) ?ns) @ stack_names st')" by auto
  moreover have "handleRequest currentNode request runIndex e (w, st) = (Inr ?ns, (w', st'))"
    using p(1) assms(4) by (simp add: handleRequest_def split_beta)
  ultimately have "handleEngineRequest currentNode request runIndex e (w, st) = (None, (w', st2))
      \<and> stack_names st2 = (if isLegacyExecutionOrder w'
          then stack_names st' @ map (\<lambda>n. c_node (ne_inputConnectionData n)) ?ns
          else rev (map (\<lambda>n. c_node (ne_inputConnectionData n)) ?ns) @ stack_names st')"
    by (simp add: handleEngineRequest_def del: queue_nodes.simps)
  then show ?thesis using p(2,4,6) cp by (auto simp: node_to_resume_def)
qed

text \<open>
  The source of a tool's item is read at the position of the run index among the agent's inputs. An
  agent with one input in its second run finds nothing there and names itself as the source.
\<close>

lemma tool_source_second_run:
  assumes "ed_source e = Some [(Main, [JsVal s])]" "0 < runIndex"
  shows "tool_source currentNode runIndex e = \<lparr>previousNode = n_name currentNode, previousNodeOutput = Some 0, previousNodeRun = Some 0\<rparr>
    \<and> (\<exists>c. prepareRequestingNodeForResuming e = Some (c, previousNode s) \<or> previousNode s = '''')"
  using assms by (simp add: tool_source_def source_at_def arr_get_def prepareRequestingNodeForResuming_def)

end
