(* ===== verification/EngineFrame.thy ===== *)
theory EngineFrame
  imports EngineLoop EngineWaitingFacts RequestsFacts
begin

section \<open>What an operation of the engine leaves as it is\<close>

text \<open>
  The relation \<open>keeps\<close> between the states before and after an operation: the settings of the
  execution, the status and the counter are the same, no run disappears, the two waiting maps stay
  together, and the runs stay numbered below the counter (a placeholder has the number 0). It is reflexive and transitive, so each
  operation gets it from its parts; the lemmas are collected in \<open>keeps_intros\<close>.
\<close>

named_theorems keeps_intros \<open>operations that keep the settings, the runs and the waiting maps\<close>

definition numbered :: "exec_state \<Rightarrow> bool" where
  "numbered st \<longleftrightarrow>
     (\<forall>n. \<forall>t \<in> set (node_runs (x_runData st) n). \<forall>k. td_executionIndex t = Some k \<longrightarrow> k < max 1 (x_executionIndex st))"

definition keeps :: "exec_state \<Rightarrow> exec_state \<Rightarrow> bool" where
  "keeps st st' \<longleftrightarrow>
     x_runNodeFilter st' = x_runNodeFilter st \<and> x_destinationNode st' = x_destinationNode st
     \<and> x_executionIndex st' = x_executionIndex st \<and> x_status st' = x_status st
     \<and> (\<forall>n. length (node_runs (x_runData st) n) \<le> length (node_runs (x_runData st') n))
     \<and> (waiting_ok st \<longrightarrow> waiting_ok st') \<and> (numbered st \<longrightarrow> numbered st')"

lemma keeps_refl [keeps_intros]: "keeps st st"
  by (simp add: keeps_def)

lemma keeps_trans: "keeps st1 st2 \<Longrightarrow> keeps st2 st3 \<Longrightarrow> keeps st1 st3"
  unfolding keeps_def by (metis order_trans)

text \<open>Changes of other fields, of the stack, and of runs.\<close>

lemma keeps_update:
  assumes "x_runNodeFilter st' = x_runNodeFilter st" "x_destinationNode st' = x_destinationNode st"
    and "x_executionIndex st' = x_executionIndex st" "x_status st' = x_status st" "x_runData st' = x_runData st"
    and "waiting_ok st \<Longrightarrow> waiting_ok st'"
  shows "keeps st st'"
  using assms by (simp add: keeps_def numbered_def)

lemma waiting_ok_fields:
  "x_waiting st' = x_waiting st \<Longrightarrow> x_waitingSource st' = x_waitingSource st \<Longrightarrow> waiting_ok st \<Longrightarrow> waiting_ok st'"
  by (simp add: waiting_ok_def)

lemma keeps_fields:
  "x_runNodeFilter st' = x_runNodeFilter st \<Longrightarrow> x_destinationNode st' = x_destinationNode st \<Longrightarrow>
   x_executionIndex st' = x_executionIndex st \<Longrightarrow> x_status st' = x_status st \<Longrightarrow> x_runData st' = x_runData st \<Longrightarrow>
   x_waiting st' = x_waiting st \<Longrightarrow> x_waitingSource st' = x_waitingSource st \<Longrightarrow> keeps st st'"
  by (rule keeps_update) (auto intro: waiting_ok_fields)

lemma keeps_enqueue [keeps_intros]: "keeps st (enqueue w e st)"
  by (rule keeps_fields) (simp_all add: enqueue_def)

lemma keeps_unshift [keeps_intros]: "keeps st (unshift e st)"
  by (rule keeps_fields) (simp_all add: unshift_def)

lemma keeps_push_back [keeps_intros]: "keeps st (push_back e st)"
  by (rule keeps_fields) (simp_all add: push_back_def)

lemma keeps_set_waitTill [keeps_intros]: "keeps st (set_waitTill t st)"
  by (rule keeps_fields) (simp_all add: set_waitTill_def split: option.splits)

lemma keeps_set_last [keeps_intros]: "keeps st (set_lastNodeExecuted n st)"
  by (rule keeps_fields) (simp_all add: set_lastNodeExecuted_def)

lemma keeps_write_pinned [keeps_intros]: "keeps st (write_pinned n d st)"
proof -
  have "write_pinned n d st = st \<or> (\<exists>p. write_pinned n d st = st\<lparr>x_pinData := p\<rparr>)"
    by (auto simp: write_pinned_def split: option.splits list.splits jsval.splits)
  then show ?thesis by (auto intro: keeps_refl keeps_fields)
qed

lemma keeps_map_node:
  assumes "map_node f (w, st) = (w', st')"
  shows "keeps st st'"
proof -
  have st': "st' = st\<lparr>x_stack := map (\<lambda>e. e\<lparr>ed_node := f (ed_node e)\<rparr>) (x_stack st)\<rparr>"
    using assms unfolding map_node_def prod.case prod.inject by (blast intro: sym)
  show ?thesis unfolding st' by (rule keeps_fields) simp_all
qed

lemma node_runs_set: "node_runs (obj_set n runs r) m = (if m = n then runs else node_runs r m)"
  by (simp add: node_runs_def js_simps)

lemma keeps_runs:
  assumes "length (node_runs (x_runData st) n) \<le> length runs"
    and "\<And>t k. numbered st \<Longrightarrow> t \<in> set runs \<Longrightarrow> td_executionIndex t = Some k \<Longrightarrow> k < max 1 (x_executionIndex st)"
  shows "keeps st (st\<lparr>x_runData := obj_set n runs (x_runData st)\<rparr>)"
proof -
  let ?st = "st\<lparr>x_runData := obj_set n runs (x_runData st)\<rparr>"
  have "numbered ?st" if "numbered st"
  proof -
    have "\<forall>t \<in> set runs. \<forall>k. td_executionIndex t = Some k \<longrightarrow> k < max 1 (x_executionIndex st)" using assms(2) that by blast
    with that show ?thesis by (simp add: numbered_def node_runs_set)
  qed
  moreover have "waiting_ok ?st = waiting_ok st" by (simp add: waiting_ok_def)
  ultimately show ?thesis using assms(1) by (simp add: keeps_def node_runs_set)
qed

text \<open>A run with a number that was given out.\<close>

definition given_out :: "task_data \<Rightarrow> exec_state \<Rightarrow> bool" where
  "given_out task st \<longleftrightarrow> (\<forall>k. td_executionIndex task = Some k \<longrightarrow> numbered st \<longrightarrow> k < max 1 (x_executionIndex st))"

lemma given_out_placeholder [simp]: "given_out (placeholder toolInput) st"
  by (simp add: given_out_def placeholder_def less_max_iff_disj)

lemma keeps_push_run [keeps_intros]: "given_out task st \<Longrightarrow> keeps st (push_run n task st)"
  unfolding push_run_def by (rule keeps_runs) (auto simp: given_out_def numbered_def)

lemma assign_task_index [simp]: "td_executionIndex (assign_task old new) = td_executionIndex new"
  by (simp add: assign_task_def)

lemma keeps_store_run [keeps_intros]:
  assumes "given_out task st"
  shows "keeps st (store_run n i task st)"
proof (cases "idx (node_runs (x_runData st) n) i")
  case None
  then have "store_run n i task st = push_run n task st" by (simp add: store_run_def push_run_def Let_def)
  with keeps_push_run [OF assms] show ?thesis by simp
next
  case (Some old)
  let ?runs = "(node_runs (x_runData st) n)[i := assign_task old task]"
  have "k < max 1 (x_executionIndex st)" if "numbered st" "t \<in> set ?runs" "td_executionIndex t = Some k" for t k
  proof -
    from that(2) set_update_subset_insert have "t = assign_task old task \<or> t \<in> set (node_runs (x_runData st) n)" by fastforce
    with that(1,3) assms show ?thesis by (auto simp: given_out_def numbered_def)
  qed
  then have "keeps st (st\<lparr>x_runData := obj_set n ?runs (x_runData st)\<rparr>)" by (intro keeps_runs) simp_all
  with Some show ?thesis by (simp add: store_run_def Let_def)
qed

subsection \<open>Queueing\<close>

lemma keeps_waiting:
  assumes "waiting_ok st \<Longrightarrow> waiting_ok st'" "\<exists>W S. st' = st\<lparr>x_waiting := W, x_waitingSource := S\<rparr>"
  shows "keeps st st'"
  using assms by (intro keeps_update) auto

lemma no_change: "\<exists>W S. st = st\<lparr>x_waiting := W, x_waitingSource := S\<rparr>" for st :: exec_state
  by (intro exI [of _ "x_waiting st"] exI [of _ "x_waitingSource st"]) simp

lemma keeps_open_waiting [keeps_intros]: "keeps st (open_waiting n st)"
proof (rule keeps_waiting)
  show "\<exists>W S. open_waiting n st = st\<lparr>x_waiting := W, x_waitingSource := S\<rparr>"
    using no_change [of st] by (cases "obj_has n (x_waiting st)") (auto simp: open_waiting_def)
qed (use open_waiting_ok in blast)

lemma keeps_stop_waiting [keeps_intros]: "keeps st (stop_waiting n i st)"
  by (rule keeps_waiting [OF waiting_ok_stop]) (auto simp: stop_waiting_def Let_def)

lemma keeps_choose_entry:
  assumes "choose_entry w c k st = Inr (i, st')"
  shows "keeps st st'"
proof (rule keeps_waiting)
  show "waiting_ok st'" if "waiting_ok st" using choose_entry_ok [OF that, of w c k] assms by auto
  show "\<exists>W S. st' = st\<lparr>x_waiting := W, x_waitingSource := S\<rparr>"
    using assms no_change [of st]
    by (auto simp: choose_entry_def Let_def bindE_eq_Inr prepareWaitingToExecution_def split: option.splits)
qed

lemma keeps_store_data:
  assumes "store_data c oi p d r i st = Inr st'"
  shows "keeps st st'"
proof (rule keeps_waiting)
  from assms have "get_entry (x_waiting st) (c_node c) i \<noteq> None"
    by (auto simp: store_data_def bindE_eq_Inr set_main_slot_def split: option.splits)
  then show "waiting_ok st'" if "waiting_ok st" using store_data_ok [OF that, of c i oi p d r] assms by auto
  show "\<exists>W S. st' = st\<lparr>x_waiting := W, x_waitingSource := S\<rparr>"
    using assms by (auto simp: store_data_def bindE_eq_Inr)
qed

lemma keeps_release: "release w n i st = Inr st' \<Longrightarrow> keeps st st'"
  by (auto simp: release_def bindE_eq_Inr split: option.splits intro: keeps_trans [OF keeps_enqueue keeps_stop_waiting])

lemma keeps_force_input: "force_input w p outs oi d r stacked inp st = Inr st' \<Longrightarrow> keeps st st'"
  by (auto simp: force_input_def Let_def bindE_eq_Inr split: option.splits if_splits intro: keeps_intros)

lemma keeps_check_inputs:
  assumes "check_inputs w n p oi d r st = Inr st'"
  shows "keeps st st'"
proof -
  have one: "keeps s s'" if "check_input w p outs oi d r inp s = Inr s'" for outs inp s s'
    using that by (auto simp: check_input_def Let_def bindE_eq_Inr split: if_splits intro: keeps_intros keeps_force_input)
  from assms obtain outs inps where "foldE (check_input w p outs oi d r) inps st = Inr st'"
    by (auto simp: check_inputs_def bindE_eq_Inr)
  then show ?thesis
    by (rule foldE_invariant [where P = "keeps st"]) (auto intro: keeps_refl keeps_trans one)
qed

lemma keeps_keep_waiting:
  assumes "keep_waiting c oi d i st = Inr st'"
  shows "keeps st st'"
proof -
  from assms obtain cs ss where st': "st' = st\<lparr>x_waiting := set_entry (c_node c) i [(Main, cs)] (x_waiting st),
      x_waitingSource := set_entry (c_node c) i [(Main, ss)] (x_waitingSource st)\<rparr>"
    by (auto simp: keep_waiting_def bindE_eq_Inr)
  show ?thesis
    by (rule keeps_waiting) (auto simp: st' has_main_def intro: waiting_ok_set)
qed

lemma keeps_addNodeToBeExecuted:
  assumes "addNodeToBeExecuted w c oi p d r nr md st = Inr st'"
  shows "keeps st st'"
proof (cases "1 < number_of_inputs w (c_node c)")
  case True
  with assms obtain i st1 st2 where *: "choose_entry w c (number_of_inputs w (c_node c)) (open_waiting (c_node c) st) = Inr (i, st1)"
    "store_data c oi p d r i st1 = Inr st2"
    "release w (c_node c) i st2 = Inr st' \<or> keep_waiting c oi d i st2 = Inr st'
      \<or> (\<exists>st3. check_inputs w (c_node c) p oi d r st2 = Inr st3 \<and> keep_waiting c oi d i st3 = Inr st')"
    by (auto simp: addNodeToBeExecuted_def add_waiting_def Let_def bindE_eq_Inr split: if_splits)
  have "keeps st st2"
    by (meson keeps_trans keeps_open_waiting keeps_choose_entry [OF *(1)] keeps_store_data [OF *(2)])
  then show ?thesis using *(3) keeps_release keeps_keep_waiting keeps_check_inputs keeps_trans by meson
qed (use assms in \<open>auto simp: addNodeToBeExecuted_def bindE_eq_Inr intro: keeps_intros\<close>)

subsection \<open>Requests\<close>

lemma keeps_prepareRequestedNodes:
  "prepareRequestedNodes c r e actions nodes subs (w, st) = (res, (w', st')) \<Longrightarrow> keeps st st'"
proof (induction actions arbitrary: nodes subs w st)
  case (Cons a actions)
  show ?case
  proof (cases "getNode w (ea_nodeName a) = None")
    case False
    obtain w1 st1 where 1: "map_node (rewire_log (ea_nodeName a) (ea_type a)) (w, st) = (w1, st1)" by force
    let ?st2 = "push_run (ea_nodeName a) (placeholder (tool_input c r e a)) st1"
    obtain nodes2 subs2 where "prepareRequestedNodes c r e actions nodes2 subs2 (w1, ?st2) = (res, (w', st'))"
      using Cons.prems False 1 by (auto simp: Let_def)
    from Cons.IH [OF this] keeps_map_node [OF 1] keeps_push_run [OF given_out_placeholder]
    show ?thesis by (blast intro: keeps_trans)
  qed (use Cons.prems in \<open>auto intro: keeps_refl\<close>)
qed (auto intro: keeps_refl)

lemma keeps_queue_nodes: "queue_nodes w ns st = (r, st') \<Longrightarrow> keeps st st'"
proof (induction ns arbitrary: st)
  case (Cons n ns)
  show ?case
  proof (cases "queue_node w n st")
    case (Inr st1)
    then have "keeps st st1" by (auto simp: queue_node_def intro: keeps_addNodeToBeExecuted split: if_splits)
    moreover from Cons Inr have "keeps st1 st'" by simp
    ultimately show ?thesis by (rule keeps_trans)
  qed (use Cons.prems in \<open>auto intro: keeps_refl\<close>)
qed (auto intro: keeps_refl)

lemma keeps_handleRequest:
  assumes "handleRequest node request r e ws = (q, ws')"
  shows "keeps (snd ws) (snd ws')"
proof -
  obtain p w1 st1 where 1: "prepareRequestedNodes node r e (er_actions request) [] [] ws = (p, (w1, st1))" by (metis surj_pair)
  with assms have "ws' = (w1, st1)" by (auto simp: handleRequest_def split: sum.splits option.splits)
  then show ?thesis using 1 keeps_prepareRequestedNodes [of node r e _ "[]" "[]" "fst ws" "snd ws"] by simp
qed

lemma keeps_handleEngineRequest:
  assumes "handleEngineRequest node request r e ws = (res, ws')"
  shows "keeps (snd ws) (snd ws')"
proof -
  obtain q w1 st1 where 1: "handleRequest node request r e ws = (q, (w1, st1))" by (metis surj_pair)
  with keeps_handleRequest have k: "keeps (snd ws) st1" by fastforce
  show ?thesis
  proof (cases q)
    case (Inr ns)
    obtain res2 st2 where "queue_nodes w1 ns st1 = (res2, st2)" by force
    with assms 1 Inr keeps_queue_nodes [OF this] k show ?thesis
      by (auto simp: handleEngineRequest_def intro: keeps_trans)
  qed (use assms 1 k in \<open>auto simp: handleEngineRequest_def\<close>)
qed

subsection \<open>Tries\<close>

abbreviation keeps_try :: "try_state \<Rightarrow> try_state \<Rightarrow> bool" where
  "keeps_try ts ts' \<equiv> keeps (snd (ts_ws ts)) (snd (ts_ws ts'))"

lemma keeps_call_node: "call_node env calls e i r ts = (res, ts') \<Longrightarrow> keeps_try ts ts'"
  by (auto simp: call_node_def intro: keeps_intros split: prod.splits)

lemma keeps_rerun: "rerun env calls e i k res ts = (r, k', ts') \<Longrightarrow> keeps_try ts ts'"
proof (induction env calls e i k res ts arbitrary: r k' ts' rule: rerun.induct)
  case (2 env calls e i k res ts)
  obtain q ts1 where 1: "call_node env calls e i None ts = (q, ts1)" by force
  show ?case
  proof (cases "nodeFailed res \<and> \<not> isl q")
    case True
    then obtain res' where "q = Inr res'" by (cases q) auto
    with 2(2) True 1 have "rerun env calls e i k res' ts1 = (r, k', ts')" by simp
    from "2.IH"(1) [OF conjunct1 [OF True] 1 [symmetric] \<open>q = Inr res'\<close> this] keeps_call_node [OF 1] show ?thesis
      by (blast intro: keeps_trans)
  next
    case False
    with 2(2) 1 keeps_call_node [OF 1] show ?thesis by (cases q) (auto intro: keeps_refl split: if_splits)
  qed
qed (auto intro: keeps_refl)

lemma keeps_map_state: "(\<And>st. keeps st (f st)) \<Longrightarrow> keeps_try ts (map_state f ts)"
  by (simp add: map_state_def)

lemma keeps_finish_try: "finish_try env e pinned left ts = (r, ts') \<Longrightarrow> keeps_try ts ts'"
  by (auto simp: finish_try_def Let_def map_state_def split: sum.splits
      intro: keeps_intros keeps_trans [OF keeps_write_pinned keeps_set_last])

lemma keeps_respond: "respond env e left data hints ts = (r, ts') \<Longrightarrow> keeps_try ts ts'"
  by (auto simp: respond_def Let_def intro: keeps_refl split: option.splits if_splits prod.splits dest!: keeps_finish_try)

lemma keeps_attempt:
  assumes "attempt env calls e i left ts = (r, ts')"
  shows "keeps_try ts ts'"
proof (cases "pinned_items (snd (ts_ws ts)) (ed_node e)")
  case None
  let ?res = "collect_results e (x_runData (snd (ts_ws ts))) (ts_results ts)"
  obtain q ts1 where 1: "call_node env calls e i (Some ?res) (ts\<lparr>ts_results := ?res\<rparr>) = (q, ts1)" by force
  have k1: "keeps_try ts ts1" using keeps_call_node [OF 1] by simp
  show ?thesis
  proof (cases q)
    case (Inl err)
    with assms None 1 k1 show ?thesis by (auto simp: attempt_def)
  next
    case (Inr res)
    obtain q2 left2 ts2 where 2: "rerun env calls e i left res ts1 = (q2, left2, ts2)" by (cases "rerun env calls e i left res ts1")
    have k2: "keeps_try ts ts2" using k1 keeps_rerun [OF 2] by (rule keeps_trans)
    show ?thesis
    proof (cases "\<exists>request. q2 = Inr (Request request)")
      case True
      then obtain request where request: "q2 = Inr (Request request)" by blast
      obtain res3 ws3 where 3: "handleEngineRequest (ed_node e) request i e (ts_ws ts2) = (res3, ws3)" by (meson surj_pair)
      have "ts_ws ts' = ws3" using assms None 1 Inr 2 request 3 by (auto simp: attempt_def split: option.splits)
      with keeps_trans [OF k2 keeps_handleEngineRequest [OF 3]] show ?thesis by simp
    next
      case False
      with assms None 1 Inr 2 k2 show ?thesis
        by (cases q2) (auto simp: attempt_def split: run_result.splits dest!: keeps_respond intro: keeps_trans [OF k2])
    qed
  qed
qed (use assms in \<open>auto simp: attempt_def dest: keeps_finish_try\<close>)

lemma keeps_tries: "tries env calls e i left ts = (r, ts') \<Longrightarrow> keeps_try ts ts'"
proof (induction left arbitrary: ts rule: less_induct)
  case (less left)
  obtain q ts1 where 1: "attempt env calls e i left (ts\<lparr>ts_error := None\<rparr>) = (q, ts1)" by force
  have k: "keeps_try ts ts1" using keeps_attempt [OF 1] by simp
  show ?case
  proof (cases q)
    case (TryThrew err left')
    let ?ts = "map_state (set_lastNodeExecuted (n_name (ed_node e))) (ts1\<lparr>ts_error := Some err\<rparr>)"
    have k2: "keeps_try ts ?ts"
      using k keeps_map_state [OF keeps_set_last, of "ts1\<lparr>ts_error := Some err\<rparr>"] by (auto intro: keeps_trans)
    show ?thesis
    proof (cases "left' = 0")
      case True
      with less.prems 1 TryThrew k2 show ?thesis by (simp add: tries.simps)
    next
      case False
      have "left' \<le> left" using 1 TryThrew attempt_left by blast
      with False have "left' - 1 < left" by linarith
      moreover have "tries env calls e i (left' - 1) ?ts = (r, ts')"
        using less.prems 1 TryThrew False by (simp add: tries.simps [of _ _ _ _ left])
      ultimately have "keeps_try ?ts ts'" by (rule less.IH)
      with k2 show ?thesis by (rule keeps_trans)
    qed
  qed (use less.prems 1 k in \<open>auto simp: tries.simps\<close>)
qed

lemma keeps_runTries: "runTries env calls e i ws = (r, ts) \<Longrightarrow> keeps (snd ws) (snd (ts_ws ts))"
  unfolding runTries_def by (drule keeps_tries) simp

subsection \<open>The input, the next nodes and the waiting nodes\<close>

lemma keeps_ensureInputData:
  assumes "ensureInputData w e st = Inr (b, st')"
  shows "keeps st st'"
proof -
  have "keeps s s'" if "ensure_inputs w e is s = Inr (b, s')" for "is" s s'
    using that by (induction "is") (auto simp: bindE_eq_Inr intro: keeps_intros split: if_splits option.splits)
  with assms show ?thesis unfolding ensureInputData_def by blast
qed

lemma keeps_walk_outputs: "walk_outputs w n data r cs nodesToAdd st = (err, ns, st') \<Longrightarrow> keeps st st'"
proof (induction w n data r cs nodesToAdd st rule: walk_outputs.induct)
  case (2 w n data r i c rest nodesToAdd st)
  then show ?case
    by (auto intro: keeps_refl keeps_trans dest: keeps_addNodeToBeExecuted split: if_splits sum.splits)
qed (auto intro: keeps_refl)

lemma keeps_add_nodes: "add_nodes w n data r ns st = (err, st') \<Longrightarrow> keeps st st'"
  by (induction ns arbitrary: st)
     (auto intro: keeps_refl keeps_trans dest: keeps_addNodeToBeExecuted split: sum.splits)

lemma keeps_addNextNodes:
  assumes "addNextNodes w n data r st = (err, st')"
  shows "keeps st st'"
proof -
  obtain err1 ns st1 where 1: "walk_outputs w n data r (output_connections w n) [] st = (err1, ns, st1)"
    by (metis surj_pair)
  with assms have "st' = st1 \<or> add_nodes w n data r (js_sort compare_position ns) st1 = (err, st')"
    by (auto simp: addNextNodes_def split: option.splits)
  with keeps_walk_outputs [OF 1] show ?thesis by (auto dest: keeps_add_nodes intro: keeps_trans)
qed

lemma keeps_run_waiting: "run_waiting w node n i main st = Inr (Taken st') \<Longrightarrow> keeps st st'"
proof (auto simp: run_waiting_def Let_def bindE_eq_Inr split: if_splits)
  fix e have "keeps st (push_back e st)" by (rule keeps_push_back)
  then show "keeps st (stop_waiting n i (st\<lparr>x_stack := x_stack st @ [e]\<rparr>))"
    unfolding push_back_def by (rule keeps_trans [OF _ keeps_stop_waiting])
qed

lemma keeps_pick_waiting: "pick_waiting env w ws ns st = Inr st' \<Longrightarrow> keeps st st'"
proof (induction env w ws ns st rule: pick_waiting.induct)
  case (2 env w ws n ns st)
  then obtain r where r: "try_waiting env w ws n st = Inr r" by (auto simp: pick_waiting.simps split: sum.splits)
  show ?case
  proof (cases r)
    case Skip
    with "2.IH"(1) [OF r] 2(3) r show ?thesis by (auto simp: pick_waiting.simps)
  next
    case (Taken st1)
    with try_waiting_entry [OF r] have "keeps st st1" by (auto intro: keeps_run_waiting)
    with 2(3) r Taken show ?thesis by (simp add: pick_waiting.simps)
  next
    case (Emptied st1)
    with try_waiting_entry [OF r] have "keeps st st1" by (auto dest: run_waiting_Emptied intro: keeps_intros)
    moreover have "keeps st1 st'" using "2.IH"(2) [OF r Emptied] 2(3) r Emptied by (simp add: pick_waiting.simps)
    ultimately show ?thesis by (rule keeps_trans)
  qed
qed (simp add: pick_waiting.simps keeps_refl)

lemma keeps_pickWaiting: "pickWaiting env w st = Inr st' \<Longrightarrow> keeps st st'"
  by (auto simp: pickWaiting_def intro: keeps_refl keeps_pick_waiting split: if_splits)

end
