(* ===== verification/EngineLoopFacts.thy ===== *)
theory EngineLoopFacts
  imports EngineFrame
begin

section \<open>What the execution loop promises\<close>

text \<open>
  What one iteration of the loop does to the state: the invariant of a running execution and
  that every branch of an iteration keeps it, what stops the loop, in which order the nodes that come
  next are put on the stack, and what a finished execution has left to do. More fuel never changes
  a run of the loop that has ended.
\<close>

subsection \<open>One iteration\<close>

lemma repair_data_node [simp]: "ed_node (repair_data e) = ed_node e"
  by (simp add: repair_data_def)

lemma status_updateTask [simp]: "x_status (updateTaskStatusesToCancelled st) = x_status st"
  by (simp add: updateTaskStatusesToCancelled_def)

lemma check_time_id:
  assumes "x_status (check_time env inp st) \<noteq> Canceled"
  shows "check_time env inp st = st"
proof -
  have "\<not> si_canceled inp"
    using assms by (rule contrapos_nn) (simp add: check_time_def Let_def split: option.split)
  moreover from this have "\<not> (\<exists>t. ev_timeout env = Some t \<and> t \<le> si_now inp)"
    using assms by (auto simp: check_time_def)
  ultimately show ?thesis by (auto simp: check_time_def split: option.split)
qed

text \<open>Only the hook before a node is of interest here.\<close>

definition begun :: "engine \<Rightarrow> string set" where
  "begun en = {n. NodeExecuteBefore n \<in> set (en_events en)}"

lemma begun_emit [simp]:
  "begun (emit (NodeExecuteBefore n) en) = insert n (begun en)" "begun (emit (NodeExecuteAfter n) en) = begun en"
  "begun (upd_state f en) = begun en"
  by (auto simp: begun_def emit_def upd_state_def)

lemma en_ws_emit [simp]: "en_ws (emit ev en) = en_ws en"
  by (simp add: emit_def)

lemma en_ws_upd [simp]: "en_ws (upd_state f en) = (fst (en_ws en), f (snd (en_ws en)))"
  by (simp add: upd_state_def)

text \<open>
  The engine an iteration ends with, however it ends. From one engine to the next the state is kept
  and no node begins.
\<close>

fun result_engine :: "loop_result \<Rightarrow> engine" where
  "result_engine (Next en) = en"
| "result_engine (Left en) = en"
| "result_engine (Crashed err en) = en"

abbreviation quietly :: "engine \<Rightarrow> engine \<Rightarrow> bool" where
  "quietly en en' \<equiv> keeps (snd (en_ws en)) (snd (en_ws en')) \<and> begun en' = begun en"

lemma next_waiting_quietly: "quietly en (result_engine (next_waiting env en))"
  by (cases "pickWaiting env (fst (en_ws en)) (snd (en_ws en))") (auto simp: next_waiting_def keeps_refl dest: keeps_pickWaiting)

lemma go_on_quietly: "quietly en (result_engine (go_on env e r data en))"
proof -
  let ?name = "n_name (ed_node e)"
  obtain w st where ws: "en_ws en = (w, st)" by force
  obtain err st1 where 1: "addNextNodes w ?name data r st = (err, st1)" by force
  consider "go_on env e r data en = Left (upd_state (unshift e) (emit (NodeExecuteAfter ?name) en))"
    | "go_on env e r data en = Next (emit (NodeExecuteAfter ?name) en)"
    | err' where "go_on env e r data en = Crashed err' (upd_state (\<lambda>_. st1) en)"
    | "go_on env e r data en = next_waiting env (emit (NodeExecuteAfter ?name) (upd_state (\<lambda>_. st1) en))"
    using ws 1 by (cases "x_waitTill st = None"; cases "is_destination st ?name"; cases err) (simp_all add: go_on_def)
  then show ?thesis
  proof cases
    case 4
    have "quietly (emit (NodeExecuteAfter ?name) (upd_state (\<lambda>_. st1) en)) (result_engine (go_on env e r data en))"
      unfolding 4 by (rule next_waiting_quietly)
    with keeps_addNextNodes [OF 1] ws show ?thesis by (auto intro: keeps_trans)
  qed (use keeps_addNextNodes [OF 1] ws in \<open>simp_all add: keeps_intros\<close>)
qed

lemma with_output_index [simp]: "td_executionIndex (with_output node runs i data task) = td_executionIndex task"
  by (simp add: with_output_def split: option.splits)

lemma keeps_set_runs: "keeps st (st\<lparr>x_runData := obj_set n (node_runs (x_runData st) n) (x_runData st)\<rparr>)"
  by (rule keeps_runs) (auto simp: numbered_def)

lemma conclude_quietly:
  assumes "x_executionIndex (snd (ts_ws ts)) = Suc k"
  shows "keeps (snd (ts_ws ts)) (snd (en_ws (result_engine (conclude env inp e r k ts en0))))
    \<and> begun (result_engine (conclude env inp e r k ts en0)) = begun en0"
proof -
  let ?st = "snd (ts_ws ts)" and ?name = "n_name (ed_node e)" and ?task = "new_task inp e k ts"
  let ?en = "en0\<lparr>en_ws := ts_ws ts, en_error := ts_error ts,
      en_events := en_events en0 @ (if ts_error ts = None then [] else [SendError ?name])\<rparr>"
  have b: "begun ?en = begun en0" by (simp add: begun_def)
  have idx: "td_executionIndex ?task = Some k" by (simp add: new_task_def)
  consider "conclude env inp e r k ts en0 = Left (stop_with_error inp e ?task ?en)"
    | err where "conclude env inp e r k ts en0 = Crashed err (upd_state (\<lambda>st. st\<lparr>x_runData := obj_set ?name (node_runs (x_runData st) ?name) (x_runData st)\<rparr>) ?en)"
    | f data task where "f = id \<or> (\<exists>d. f = write_pinned ?name d)" "td_executionIndex task = Some k"
        "conclude env inp e r k ts en0 = go_on env e r data (upd_state (store_run ?name r task) (upd_state f ?en))"
  proof (cases "ts_error ts \<noteq> None \<and> \<not> continues_on_error (ed_node e)")
    case True
    show ?thesis by (rule that(1)) (unfold conclude_def Let_def, rule if_P [OF True])
  next
    case False
    show ?thesis
    proof (cases "merge_errors (if ts_error ts = None then ts_data ts else pass_input e (ts_data ts))")
      case (Inl err)
      show ?thesis by (rule that(2)) (simp only: conclude_def Let_def if_not_P [OF False] Inl sum.case)
    next
      case (Inr data)
      let ?pinned = "pinned_items ?st (ed_node e) \<noteq> None \<and> pinned_items ?st (ed_node e) \<noteq> Some [] \<and> ts_error ts = None"
      let ?task' = "with_output (ed_node e) (node_runs (x_runData ?st) ?name) r data ?task"
      show ?thesis
      proof (rule that(3) [of "if ?pinned then write_pinned ?name (Some data) else id" ?task'])
        show "conclude env inp e r k ts en0 = go_on env e r data (upd_state (store_run ?name r ?task')
            (upd_state (if ?pinned then write_pinned ?name (Some data) else id) ?en))"
          by (simp only: conclude_def Let_def if_not_P [OF False] Inr sum.case)
      qed (use idx in \<open>auto\<close>)
    qed
  qed
  then show ?thesis
  proof cases
    case 1
    have "given_out ?task ?st" using idx assms by (simp add: given_out_def)
    then have "keeps ?st (unshift e (push_run ?name ?task ?st))" by (blast intro: keeps_trans keeps_push_run keeps_unshift)
    with 1 b show ?thesis by (simp add: stop_with_error_def Let_def)
  next
    case 2
    with b show ?thesis by (simp add: keeps_set_runs)
  next
    case (3 f data task)
    have k1: "keeps ?st (f ?st)" using 3(1) by (auto intro: keeps_intros)
    then have "x_executionIndex (f ?st) = Suc k" using assms by (simp add: keeps_def)
    then have "keeps (f ?st) (store_run ?name r task (f ?st))" using 3(2) by (intro keeps_store_run) (simp add: given_out_def)
    with k1 have "keeps ?st (store_run ?name r task (f ?st))" by (rule keeps_trans)
    with go_on_quietly [of "upd_state (store_run ?name r task) (upd_state f ?en)" env e r data] b show ?thesis
      unfolding 3(3) by (auto intro: keeps_trans)
  qed
qed

lemma execute_entry_keeps:
  assumes "x_executionIndex (snd (en_ws en)) = Suc k"
  shows "keeps (snd (en_ws en)) (snd (en_ws (result_engine (execute_entry env inp e r k en))))
    \<and> begun (result_engine (execute_entry env inp e r k en)) \<subseteq> insert (n_name (ed_node e)) (begun en)"
proof -
  obtain q ts where 1: "runTries env (si_calls inp) e r (en_ws en) = (q, ts)" by force
  note k1 = keeps_runTries [OF 1]
  define en1 where "en1 = (if was_resumed e then en else emit (NodeExecuteBefore (n_name (ed_node e))) en)"
  have en1: "en_ws en1 = en_ws en" "begun en1 \<subseteq> insert (n_name (ed_node e)) (begun en)" by (auto simp: en1_def)
  have run: "execute_entry env inp e r k en
      = (if q = TryStop then Next (en1\<lparr>en_ws := ts_ws ts, en_error := None\<rparr>) else conclude env inp e r k ts en1)"
    using en1(1) 1 unfolding execute_entry_def Let_def en1_def [symmetric] by (cases q) simp_all
  have "x_executionIndex (snd (ts_ws ts)) = Suc k" using k1 assms by (simp add: keeps_def)
  from conclude_quietly [OF this, of env inp e r en1] k1 en1 show ?thesis
    unfolding run by (auto simp: begun_def intro: keeps_trans)
qed

lemma process_entry_keeps:
  fixes env inp e en
  defines "res \<equiv> result_engine (process_entry env inp e en)"
  shows "keeps ((snd (en_ws en))\<lparr>x_executionIndex := Suc (x_executionIndex (snd (en_ws en)))\<rparr>) (snd (en_ws res))
    \<and> (\<forall>n \<in> begun res. n \<in> begun en \<or> \<not> filtered_out (snd (en_ws en)) n)"
proof -
  obtain w st where ws: "en_ws en = (w, st)" by force
  let ?st = "st\<lparr>x_executionIndex := Suc (x_executionIndex st)\<rparr>" and ?e = "repair_data e"
  let ?r = "run_index ?e ?st" and ?name = "n_name (ed_node e)"
  let ?en = "en\<lparr>en_ws := (w, ?st), en_error := None\<rparr>"
  have b: "begun ?en = begun en" by (simp add: begun_def)
  have eq: "res = result_engine (if en_lastTry en = Some (?name, ?r)
      then Crashed (ApplicationError ''Stopped execution because it seems to be in an endless loop'') ?en
      else if filtered_out ?st ?name then Next ?en
      else case ensureInputData w ?e ?st of
             Inl err \<Rightarrow> Crashed err ?en
           | Inr (False, st') \<Rightarrow> Next (?en\<lparr>en_ws := (w, st'), en_lastTry := Some (?name, ?r)\<rparr>)
           | Inr (True, st') \<Rightarrow> execute_entry env inp ?e ?r (x_executionIndex st) (?en\<lparr>en_ws := (w, st')\<rparr>))"
    unfolding res_def by (simp only: process_entry_def Let_def ws prod.case repair_data_node)
  consider "res = ?en"
    | st' where "ensureInputData w ?e ?st = Inr (False, st')" "res = ?en\<lparr>en_ws := (w, st'), en_lastTry := Some (?name, ?r)\<rparr>"
    | st' where "ensureInputData w ?e ?st = Inr (True, st')" "\<not> filtered_out ?st ?name"
        "res = result_engine (execute_entry env inp ?e ?r (x_executionIndex st) (?en\<lparr>en_ws := (w, st')\<rparr>))"
  proof (cases "en_lastTry en = Some (?name, ?r) \<or> filtered_out ?st ?name")
    case True
    show ?thesis by (rule that(1)) (use eq True in \<open>auto\<close>)
  next
    case False
    then have 1: "en_lastTry en \<noteq> Some (?name, ?r)" "\<not> filtered_out ?st ?name" by blast+
    note eq1 = eq [unfolded if_not_P [OF 1(1)] if_not_P [OF 1(2)]]
    show ?thesis
    proof (cases "ensureInputData w ?e ?st")
      case (Inl err)
      show ?thesis by (rule that(1)) (simp only: eq1 Inl sum.case result_engine.simps)
    next
      case (Inr p)
      obtain ok st' where p: "p = (ok, st')" by force
      show ?thesis
      proof (cases ok)
        case True
        then show ?thesis using Inr p 1(2) by (intro that(3)) (simp_all only: eq1 sum.case prod.case bool.case not_False_eq_True)
      next
        case no: False
        then show ?thesis using Inr p by (intro that(2)) (simp_all only: eq1 sum.case prod.case bool.case result_engine.simps)
      qed
    qed
  qed
  then show ?thesis
  proof cases
    case 1
    with b ws show ?thesis by (simp add: keeps_refl)
  next
    case (2 st')
    with keeps_ensureInputData [OF 2(1)] ws show ?thesis by (simp add: begun_def)
  next
    case (3 st')
    have "x_executionIndex st' = Suc (x_executionIndex st)" using keeps_ensureInputData [OF 3(1)] by (simp add: keeps_def)
    then have "keeps st' (snd (en_ws res))" "begun res \<subseteq> insert ?name (begun en)"
      using execute_entry_keeps [of "?en\<lparr>en_ws := (w, st')\<rparr>" "x_executionIndex st" env inp ?e ?r]
      unfolding 3(3) by (auto simp: begun_def)
    with keeps_ensureInputData [OF 3(1)] 3(2) ws show ?thesis by (auto simp: filtered_out_def intro: keeps_trans)
  qed
qed

text \<open>An iteration that is not cancelled takes the top entry and the next number.\<close>

lemma loop_step_keeps:
  assumes "loop_step env inp en = Some res"
  obtains "res = Left (upd_state (check_time env inp) en)" "x_status (check_time env inp (snd (en_ws en))) = Canceled"
  | e rest where "x_stack (snd (en_ws en)) = e # rest" "x_status (snd (en_ws en)) \<noteq> Canceled"
      "res = process_entry env inp e (upd_state (\<lambda>st. st\<lparr>x_stack := rest\<rparr>) en)"
      "keeps ((snd (en_ws en))\<lparr>x_stack := rest, x_executionIndex := Suc (x_executionIndex (snd (en_ws en)))\<rparr>) (snd (en_ws (result_engine res)))"
      "\<forall>n \<in> begun (result_engine res). n \<in> begun en \<or> \<not> filtered_out (snd (en_ws en)) n"
proof -
  let ?st = "snd (en_ws en)"
  from assms obtain e rest where s: "x_stack ?st = e # rest" by (auto simp: loop_step_def split: list.splits)
  show ?thesis
  proof (cases "x_status (check_time env inp ?st) = Canceled")
    case True
    with assms s that(1) show ?thesis by (simp add: loop_step_def)
  next
    case nc: False
    then have same: "upd_state (check_time env inp) en = en" "x_status ?st \<noteq> Canceled"
      using check_time_id [OF nc] by (simp_all add: upd_state_def)
    with assms s have "res = process_entry env inp e (upd_state (\<lambda>st. st\<lparr>x_stack := rest\<rparr>) en)"
      by (simp add: loop_step_def)
    from that(2) [OF s same(2) this] process_entry_keeps [of "upd_state (\<lambda>st. st\<lparr>x_stack := rest\<rparr>) en" env inp e] this
    show ?thesis by (simp add: filtered_out_def)
  qed
qed

subsection \<open>All reachable states\<close>

lemma executes_result:
  assumes "executes env en en'" "waiting_ok (snd (en_ws en))"
    and "x_status (snd (en_ws en)) \<noteq> Canceled" "begun en = {}"
  shows "waiting_ok (snd (en_ws en')) \<and> (numbered (snd (en_ws en)) \<longrightarrow> numbered (snd (en_ws en')))
    \<and> (\<forall>n. length (node_runs (x_runData (snd (en_ws en))) n) \<le> length (node_runs (x_runData (snd (en_ws en'))) n))
    \<and> x_executionIndex (snd (en_ws en)) \<le> x_executionIndex (snd (en_ws en'))
    \<and> x_status (snd (en_ws en')) \<noteq> Canceled
    \<and> (\<forall>n \<in> begun en'. \<not> filtered_out (snd (en_ws en)) n)
    \<and> x_runNodeFilter (snd (en_ws en')) = x_runNodeFilter (snd (en_ws en))"
  using assms
proof (induction rule: executes.induct)
  case (step en en1 inp en2)
  let ?st = "snd (en_ws en)" and ?st1 = "snd (en_ws en1)" and ?st2 = "snd (en_ws en2)"
  from step have IH: "waiting_ok ?st1" "numbered ?st \<longrightarrow> numbered ?st1" "x_status ?st1 \<noteq> Canceled"
    "\<forall>n. length (node_runs (x_runData ?st) n) \<le> length (node_runs (x_runData ?st1) n)"
    "x_executionIndex ?st \<le> x_executionIndex ?st1" "\<forall>n \<in> begun en1. \<not> filtered_out ?st n"
    "x_runNodeFilter ?st1 = x_runNodeFilter ?st"
    by simp_all
  from loop_step_keeps [OF step.hyps(2)] obtain e rest where
    k: "keeps (?st1\<lparr>x_stack := rest, x_executionIndex := Suc (x_executionIndex ?st1)\<rparr>) ?st2"
    and b: "\<forall>n \<in> begun en2. n \<in> begun en1 \<or> \<not> filtered_out ?st1 n"
    by (metis loop_result.distinct(1) result_engine.simps(1))
  have "waiting_ok (?st1\<lparr>x_stack := rest, x_executionIndex := Suc (x_executionIndex ?st1)\<rparr>)"
    using IH(1) by (simp add: waiting_ok_def)
  moreover have "numbered (?st1\<lparr>x_stack := rest, x_executionIndex := Suc (x_executionIndex ?st1)\<rparr>)"
    if "numbered ?st1"
    using that by (fastforce simp: numbered_def)
  ultimately have "waiting_ok ?st2" "numbered ?st \<longrightarrow> numbered ?st2" using k IH(2) unfolding keeps_def by blast+
  moreover have "\<forall>n. length (node_runs (x_runData ?st1) n) \<le> length (node_runs (x_runData ?st2) n)"
    "x_executionIndex ?st2 = Suc (x_executionIndex ?st1)" "x_status ?st2 = x_status ?st1"
    "x_runNodeFilter ?st2 = x_runNodeFilter ?st1"
    using k by (simp_all add: keeps_def)
  moreover have "\<forall>n \<in> begun en2. \<not> filtered_out ?st n" using b IH(6,7) by (auto simp: filtered_out_def)
  ultimately show ?case using IH by (auto intro: order_trans)
qed auto

text \<open>
  C1: However long the loop has run, the two maps of waiting entries belong together, every run
  carries a number below the counter of executed nodes when this was so at the start, no run that was recorded has disappeared,
  the execution is not cancelled, and no node began that the filter of nodes to run excludes.
\<close>

theorem executes_invariant:
  assumes "executes env en en'" "waiting_ok (snd (en_ws en))"
    and "x_status (snd (en_ws en)) \<noteq> Canceled" "begun en = {}"
  shows "waiting_ok (snd (en_ws en')) \<and> (numbered (snd (en_ws en)) \<longrightarrow> numbered (snd (en_ws en')))
    \<and> (\<forall>n. length (node_runs (x_runData (snd (en_ws en))) n) \<le> length (node_runs (x_runData (snd (en_ws en'))) n))
    \<and> x_executionIndex (snd (en_ws en)) \<le> x_executionIndex (snd (en_ws en'))
    \<and> x_status (snd (en_ws en')) \<noteq> Canceled
    \<and> (\<forall>n \<in> begun en'. \<not> filtered_out (snd (en_ws en)) n)
    \<and> x_runNodeFilter (snd (en_ws en')) = x_runNodeFilter (snd (en_ws en))"
  using assms by (rule executes_result)

subsection \<open>A node fails\<close>

text \<open>
  C5: When the last try of a node ended with an error and the node is not set to continue, the loop is
  left: the entry is back on top of the stack as it came, one run with the error and its number is
  appended to the node's runs, and nothing else of the state that the tries left has changed.
\<close>

theorem conclude_error_stops:
  assumes "ts_error ts = Some err" "\<not> continues_on_error (ed_node e)"
  shows "\<exists>en' task. conclude env inp e runIndex executionIndex ts en = Left en'
    \<and> td_error task = Some err \<and> td_executionStatus task = Some ErrorStatus
    \<and> td_executionIndex task = Some executionIndex
    \<and> en_error en' = Some err
    \<and> fst (en_ws en') = fst (ts_ws ts)
    \<and> snd (en_ws en') = (snd (ts_ws ts))\<lparr>x_stack := e # x_stack (snd (ts_ws ts)),
        x_runData := obj_set (n_name (ed_node e))
          (node_runs (x_runData (snd (ts_ws ts))) (n_name (ed_node e)) @ [task]) (x_runData (snd (ts_ws ts)))\<rparr>"
proof -
  let ?task = "new_task inp e executionIndex ts"
  let ?en = "en\<lparr>en_ws := ts_ws ts, en_error := ts_error ts, en_events := en_events en @ [SendError (n_name (ed_node e))]\<rparr>"
  have "conclude env inp e runIndex executionIndex ts en = Left (stop_with_error inp e ?task ?en)"
    using assms by (simp add: conclude_def)
  moreover have "td_error ?task = Some err" "td_executionStatus ?task = Some ErrorStatus"
    "td_executionIndex ?task = Some executionIndex"
    using assms(1) by (simp_all add: new_task_def)
  moreover have "en_error (stop_with_error inp e ?task ?en) = Some err"
    using assms(1) by (simp add: stop_with_error_def Let_def upd_state_def emit_def)
  moreover have "en_ws (stop_with_error inp e ?task ?en)
      = (fst (ts_ws ts), unshift e (push_run (n_name (ed_node e)) ?task (snd (ts_ws ts))))"
    by (simp add: stop_with_error_def Let_def)
  ultimately show ?thesis
    by (intro exI [of _ "stop_with_error inp e ?task ?en"] exI [of _ ?task]) (simp add: unshift_def push_run_def)
qed

subsection \<open>The order of the next nodes\<close>

text \<open>
  The comparator calls two nodes of one row equal unless the first is further right. Since the sort
  only asks whether a result is negative, it is a strict order, from the bottom to the top and in a
  row from right to left.
\<close>

definition above_left :: "node_to_add \<Rightarrow> node_to_add \<Rightarrow> bool" where
  "above_left a b \<longleftrightarrow> snd (na_position a) < snd (na_position b)
     \<or> snd (na_position a) = snd (na_position b) \<and> fst (na_position a) \<le> fst (na_position b)"

lemma compare_position_neg: "compare_position x y < 0 \<longleftrightarrow> \<not> above_left x y"
  by (auto simp: compare_position_def above_left_def)

lemma sorted_insert_position:
  "sorted_wrt above_left ys \<Longrightarrow> sorted_wrt above_left (insert_back compare_position x ys)"
proof (induction ys)
  case (Cons y ys)
  show ?case
  proof (cases "above_left x y")
    case True
    with Cons.prems show ?thesis
      by (auto simp: compare_position_neg) (auto simp: above_left_def)
  next
    case False
    then have "above_left y x" by (auto simp: above_left_def)
    with False Cons show ?thesis by (auto simp: compare_position_neg)
  qed
qed simp

lemma sorted_positions: "sorted_wrt above_left (rev (js_sort compare_position ns))"
proof -
  have "sorted_wrt above_left (fold (insert_back compare_position) ns ys)" if "sorted_wrt above_left ys" for ys
    using that by (induction ns arbitrary: ys) (simp_all add: sorted_insert_position)
  then show ?thesis by (simp add: js_sort_def)
qed

lemma walk_outputs_v1:
  assumes "\<not> isLegacyExecutionOrder w" "\<forall>(i, c) \<in> set cs. getNode w (c_node c) \<noteq> None"
  shows "walk_outputs w n data r cs ns st
    = (None, ns @ map (\<lambda>(i, c). to_add w i c) (filter (\<lambda>(i, c). gets_data w data i c) cs), st)"
  using assms(2)
proof (induction cs arbitrary: ns)
  case (Cons p cs)
  obtain i c where p: "p = (i, c)" by force
  with Cons have "getNode w (c_node c) \<noteq> None" "\<forall>(i, c) \<in> set cs. getNode w (c_node c) \<noteq> None" by auto
  with assms(1) Cons.IH p show ?case by simp
qed simp

lemma add_nodes_order:
  assumes "\<not> isLegacyExecutionOrder w" "keyed w" "\<forall>n \<in> set ns. single_input w (c_node (na_connection n))"
  shows "\<exists>st'. add_nodes w p data r ns st = (None, st')
    \<and> stack_names st' = rev (map (\<lambda>n. c_node (na_connection n)) ns) @ stack_names st"
  using assms(3)
proof (induction ns arbitrary: st)
  case (Cons n ns)
  then obtain st1 where 1: "addNodeToBeExecuted w (na_connection n) (na_outputIndex n) p (Some data) r None None st = Inr st1"
    "stack_names st1 = c_node (na_connection n) # stack_names st"
    using addNodeToBeExecuted_single [OF assms(2)] assms(1) by fastforce
  from Cons obtain st' where "add_nodes w p data r ns st1 = (None, st')"
    "stack_names st' = rev (map (\<lambda>n. c_node (na_connection n)) ns) @ stack_names st1" by fastforce
  with 1 show ?case by simp
qed simp

definition next_targets :: "workflow \<Rightarrow> string \<Rightarrow> items jsval list \<Rightarrow> node_to_add list" where
  "next_targets w nodeName data =
     map (\<lambda>(i, c). to_add w i c) (filter (\<lambda>(i, c). gets_data w data i c) (output_connections w nodeName))"

text \<open>
  C6: In the order v1, when every node connected to the outputs of a node exists and has at most one main
  input (a node with several is kept waiting instead, see C2), the node that has run puts on top of the stack,
  one for each connection whose output has items, the connected nodes sorted so that the one highest up is
  executed first and, in a row, the one furthest to the left.
\<close>

theorem addNextNodes_top_left_first:
  assumes "\<not> isLegacyExecutionOrder w" "keyed w"
    and "\<forall>(i, c) \<in> set (output_connections w nodeName). single_input w (c_node c)"
  shows "\<exists>st' ns. addNextNodes w nodeName data runIndex st = (None, st')
    \<and> stack_names st' = map (\<lambda>n. c_node (na_connection n)) ns @ stack_names st
    \<and> mset ns = mset (next_targets w nodeName data) \<and> sorted_wrt above_left ns"
proof -
  let ?cs = "output_connections w nodeName" and ?ns = "next_targets w nodeName data"
  have exist: "\<forall>(i, c) \<in> set ?cs. getNode w (c_node c) \<noteq> None"
    using assms(3) by (auto simp: single_input_def)
  have walk: "walk_outputs w nodeName data runIndex ?cs [] st = (None, ?ns, st)"
    using walk_outputs_v1 [OF assms(1) exist] by (simp add: next_targets_def)
  have "\<forall>n \<in> set (js_sort compare_position ?ns). single_input w (c_node (na_connection n))"
    using assms(3) by (auto simp: next_targets_def to_add_def)
  from add_nodes_order [OF assms(1,2) this, of nodeName data runIndex st] obtain st' where
    "add_nodes w nodeName data runIndex (js_sort compare_position ?ns) st = (None, st')"
    "stack_names st' = map (\<lambda>n. c_node (na_connection n)) (rev (js_sort compare_position ?ns)) @ stack_names st"
    by (auto simp: rev_map)
  with walk sorted_positions [of ?ns] show ?thesis
    by (intro exI [of _ st'] exI [of _ "rev (js_sort compare_position ?ns)"]) (simp add: addNextNodes_def)
qed

subsection \<open>How an execution ends\<close>

lemma executes_front:
  assumes "executes env en1 en2" "loop_step env inp en = Some (Next en1)"
  shows "executes env en en2"
  using assms
proof (induction rule: executes.induct)
  case (start en)
  show ?case by (rule executes.step [OF executes.start start])
next
  case (step en en' inp en'')
  then show ?case by (blast intro: executes.step)
qed

text \<open>More fuel does not change the result.\<close>

lemma run_loop_more: "run_loop env inputs n en = Some st \<Longrightarrow> n \<le> m \<Longrightarrow> run_loop env inputs m en = Some st"
proof (induction env inputs n en arbitrary: m rule: run_loop.induct)
  case (2 env inputs n en)
  then obtain k where m: "m = Suc k" "n \<le> k" by (cases m) auto
  show ?case
  proof (cases "\<exists>en1. loop_step env (inputs 0) en = Some (Next en1)")
    case True
    then obtain en1 where 1: "loop_step env (inputs 0) en = Some (Next en1)" by blast
    with 2(2) have "run_loop env (\<lambda>k. inputs (Suc k)) n en1 = Some st" by simp
    from "2.IH" [OF 1 refl this m(2)] 1 m(1) show ?thesis by simp
  next
    case False
    with 2(2) m(1) show ?thesis by (simp split: option.splits loop_result.splits)
  qed
qed simp

text \<open>The last iteration.\<close>

definition ends_with :: "engine_env \<Rightarrow> engine \<Rightarrow> exec_state \<Rightarrow> bool" where
  "ends_with env en st \<longleftrightarrow> (\<exists>inp.
     loop_step env inp en = None \<and> st = end_execution en
     \<or> (\<exists>en'. loop_step env inp en = Some (Left en') \<and> st = end_execution en')
     \<or> (\<exists>err en'. loop_step env inp en = Some (Crashed err en') \<and> st = crash_execution env err en'))"

lemma run_loop_last: "run_loop env inputs n en = Some st \<Longrightarrow> \<exists>en'. executes env en en' \<and> ends_with env en' st"
proof (induction env inputs n en rule: run_loop.induct)
  case (2 env inputs n en)
  show ?case
  proof (cases "\<exists>en1. loop_step env (inputs 0) en = Some (Next en1)")
    case True
    then obtain en1 where 1: "loop_step env (inputs 0) en = Some (Next en1)" by blast
    with 2(2) have "run_loop env (\<lambda>k. inputs (Suc k)) n en1 = Some st" by simp
    from "2.IH" [OF 1 refl this] executes_front [OF _ 1] show ?thesis by blast
  next
    case False
    with 2(2) have "ends_with env en st" unfolding ends_with_def
      by (intro exI [of _ "inputs 0"]) (auto split: option.splits loop_result.splits)
    with executes.start show ?thesis by blast
  qed
qed simp

lemma keeps_status: "keeps st st' \<Longrightarrow> x_status st' = x_status st"
  by (simp add: keeps_def)

lemma executes_status: "executes env en en' \<Longrightarrow> x_status (snd (en_ws en')) = x_status (snd (en_ws en))"
proof (induction rule: executes.induct)
  case (step en en1 inp en2)
  from loop_step_keeps [OF step.hyps(2)] show ?case
  proof cases
    case (2 e rest)
    from keeps_status [OF 2(4)] step.IH show ?thesis by simp
  qed simp
qed simp

lemma go_on_Left: "go_on env e r data en = Left en' \<Longrightarrow> x_waitTill (snd (en_ws en')) \<noteq> None"
  by (auto simp: go_on_def Let_def next_waiting_def unshift_def split: prod.splits if_splits option.splits sum.splits)

text \<open>The loop is left by a cancellation, by an error, or to wait.\<close>

lemma loop_step_Left:
  assumes "loop_step env inp en = Some (Left en')"
  shows "x_status (snd (en_ws en')) = Canceled \<or> en_error en' \<noteq> None \<or> x_waitTill (snd (en_ws en')) \<noteq> None"
  using assms
proof (rule loop_step_keeps)
  fix e rest assume eq: "Left en' = process_entry env inp e (upd_state (\<lambda>st. st\<lparr>x_stack := rest\<rparr>) en)"
  have "en_error en' \<noteq> None \<or> x_waitTill (snd (en_ws en')) \<noteq> None"
    if "conclude env inp e r k ts en0 = Left en'" for e r k ts en0
  proof (cases "ts_error ts \<noteq> None \<and> \<not> continues_on_error (ed_node e)")
    case True
    with conclude_error_stops [of ts _ e env inp r k en0] that show ?thesis by auto
  next
    case False
    note out = that [unfolded conclude_def Let_def if_not_P [OF False]]
    then obtain data en1 where "go_on env e r data en1 = Left en'"
      by (cases "merge_errors (if ts_error ts = None then ts_data ts else pass_input e (ts_data ts))") auto
    then show ?thesis by (blast dest: go_on_Left)
  qed
  moreover from eq obtain e' r k en1 where "execute_entry env inp e' r k en1 = Left en'"
    by (auto simp: process_entry_def Let_def split: prod.splits if_splits sum.splits bool.splits)
  then obtain ts en2 where "conclude env inp e' r k ts en2 = Left en'"
    by (auto simp: execute_entry_def Let_def split: prod.splits try_end.splits)
  ultimately show ?thesis by blast
qed simp

lemma moveNodeMetadata_fields [simp]:
  "x_status (moveNodeMetadata st) = x_status st" "x_error (moveNodeMetadata st) = x_error st"
  "x_stack (moveNodeMetadata st) = x_stack st"
  by (simp_all add: moveNodeMetadata_def)

lemma end_execution_status:
  "x_status (end_execution en) =
     final_status (if x_status (snd (en_ws en)) = Canceled \<and> en_error en = None then Some (cancel_error (snd (en_ws en))) else en_error en) (snd (en_ws en))"
  by (simp add: end_execution_def Let_def processSuccessExecution_def split: option.splits)

lemma final_status_Success: "final_status err st = Success \<longleftrightarrow> err = None \<and> x_waitTill st = None"
  by (auto simp: final_status_def split: option.splits)

text \<open>An error outside every \<open>try\<close> leaves the status as it was.\<close>

lemma crash_execution_status: "x_status (crash_execution env err en) = x_status (snd (en_ws en))"
  by (simp add: crash_execution_def)

text \<open>
  C3: An execution that ends with the status \<open>success\<close> has worked off its stack: the loop ended in a
  reachable state with nothing on the stack, without a pending error and without waiting for a time.
\<close>

theorem success_worked_off:
  assumes "run_loop env inputs fuel en = Some st" "x_status st = Success" "x_status (snd (en_ws en)) \<noteq> Success"
  shows "\<exists>en'. executes env en en' \<and> x_stack (snd (en_ws en')) = [] \<and> en_error en' = None
    \<and> x_waitTill (snd (en_ws en')) = None \<and> st = end_execution en'"
proof -
  from run_loop_last [OF assms(1)] obtain en' inp where ex: "executes env en en'" and
    last: "loop_step env inp en' = None \<and> st = end_execution en'
      \<or> (\<exists>en2. loop_step env inp en' = Some (Left en2) \<and> st = end_execution en2)
      \<or> (\<exists>err en2. loop_step env inp en' = Some (Crashed err en2) \<and> st = crash_execution env err en2)"
    unfolding ends_with_def by blast
  have done': "x_status (snd (en_ws en1)) \<noteq> Canceled \<and> en_error en1 = None \<and> x_waitTill (snd (en_ws en1)) = None"
    if "st = end_execution en1" for en1
    using assms(2) unfolding that end_execution_status final_status_Success by (simp split: if_splits)
  from last show ?thesis
  proof (elim disjE exE conjE)
    assume none: "loop_step env inp en' = None" and st: "st = end_execution en'"
    from none have "x_stack (snd (en_ws en')) = []" by (simp add: loop_step_def Let_def split: list.splits if_splits)
    with done' [OF st] ex st show ?thesis by blast
  next
    fix en2 assume "loop_step env inp en' = Some (Left en2)" "st = end_execution en2"
    with done' loop_step_Left show ?thesis by blast
  next
    fix err en2 assume crash: "loop_step env inp en' = Some (Crashed err en2)" and st: "st = crash_execution env err en2"
    from loop_step_keeps [OF crash] have "x_status (snd (en_ws en2)) = x_status (snd (en_ws en'))"
    proof cases
      case (2 e rest)
      from keeps_status [OF 2(4)] show ?thesis by simp
    qed simp
    with st assms(2,3) executes_status [OF ex] show ?thesis by (simp add: crash_execution_status)
  qed
qed

end
