(* ===== verification/WorkflowFacts.thy ===== *)
theory WorkflowFacts
  imports WorkflowSearch
begin

section \<open>What the Workflow queries promise\<close>

text \<open>
  The connections by destination are the reversed connections by source; parents and children are
  reachability; the breadth-first search finds shortest distances; what renaming a node changes.
\<close>

subsection \<open>getHighestNode\<close>

definition enabled_in :: "workflow \<Rightarrow> string set" where
  "enabled_in w = {n. \<exists>node. obj_get (w_nodes w) n = Some node \<and> n_disabled node \<noteq> Some True}"

lemma own_highest_enabled: "obj_get (w_nodes w) n = Some node \<Longrightarrow> set (own_highest node n) \<subseteq> enabled_in w"
  by (auto simp: own_highest_def enabled_in_def)

lemma highestLoop_enabled:
  "set (fst (highestLoop w cs ret checked)) \<subseteq> set ret \<union> enabled_in w"
proof (induction w cs ret checked rule: highestLoop.induct)
  case (2 w c cs ret checked)
  show ?case
  proof (cases "obj_get (w_nodes w) (c_node c)")
    case None
    with 2 show ?thesis by simp
  next
    case (Some node)
    have c: "n_disabled node \<noteq> Some True \<Longrightarrow> c_node c \<in> enabled_in w"
      using Some by (auto simp: enabled_in_def)
    show ?thesis
    proof (cases "c_node c \<in> set checked")
      case True
      with Some 2 show ?thesis by simp
    next
      case False
      show ?thesis
      proof (cases "main_inputs (w_connectionsByDestinationNode w) (c_node c)")
        case None
        from "2.IH"(3) [OF Some False None refl] own_highest_enabled [OF Some] c
        show ?thesis using Some False None by (auto split: if_splits)
      next
        case ins: (Some slots)
        obtain add checked' where r: "highestLoop w (concat (map opt_list slots)) [] (checked @ [c_node c]) = (add, checked')"
          by fastforce
        from "2.IH"(4) [OF Some False ins] r have "set add \<subseteq> enabled_in w" by simp
        with "2.IH"(5) [OF Some False ins r [symmetric]] c show ?thesis
          using Some False ins r by (auto split: if_splits)
      qed
    qed
  qed
qed simp

lemma highestLoop_distinct: "distinct ret \<Longrightarrow> distinct (fst (highestLoop w cs ret checked))"
proof (induction w cs ret checked rule: highestLoop.induct)
  case (2 w c cs ret checked)
  then show ?case
    by (auto split: option.splits prod.splits)
qed simp

text \<open>The highest nodes of a node are nodes of the workflow that are not disabled, without repetition.\<close>

theorem getHighestNode_enabled:
  assumes "getHighestNode w nodeName i = Inr highest"
  shows "distinct highest \<and>
    (\<forall>n \<in> set highest. \<exists>node. getNode w n = Some node \<and> n_disabled node \<noteq> Some True)"
proof -
  obtain node where node: "obj_get (w_nodes w) nodeName = Some node"
    using assms by (auto simp: getHighestNode_def split: option.splits)
  show ?thesis
  proof (cases "main_inputs (w_connectionsByDestinationNode w) nodeName")
    case None
    with assms node show ?thesis
      by (auto simp: getHighestNode_def own_highest_def getNode_def split: if_splits)
  next
    case (Some slots)
    with assms node obtain cs where "highest = fst (highestLoop w cs [] [nodeName])"
      by (auto simp: getHighestNode_def Let_def)
    then show ?thesis
      using highestLoop_enabled [of w cs "[]" "[nodeName]"] highestLoop_distinct [of "[]" w cs "[nodeName]"]
      by (auto simp: enabled_in_def getNode_def)
  qed
qed

subsection \<open>getNodeConnectionIndexes\<close>

lemma find_SomeD': "find P xs = Some x \<Longrightarrow> P x \<and> x \<in> set xs"
  by (induction xs) (auto split: if_splits)

lemma find_connection_Some:
  assumes "find_connection p slots = Some r"
  shows "\<exists>s \<in> set slots. \<exists>c. destinationIndex r < length (opt_list s)
    \<and> opt_list s ! destinationIndex r = c \<and> c_node c = p \<and> sourceIndex r = c_index c"
proof -
  from assms obtain i c where f: "find (\<lambda>(i, c). c_node c = p) (concat (map (\<lambda>s. enumerate 0 (opt_list s)) slots)) = Some (i, c)"
    and r: "r = \<lparr>sourceIndex = c_index c, destinationIndex = i\<rparr>"
    by (auto simp: find_connection_def)
  then have "(i, c) \<in> set (concat (map (\<lambda>s. enumerate 0 (opt_list s)) slots))" "c_node c = p"
    using find_SomeD' [OF f] by auto
  with r show ?thesis by (auto simp: in_set_enumerate_eq)
qed

lemma find_connection_None:
  assumes "find_connection p slots = None" "c \<in> set (concat (map opt_list slots))"
  shows "c_node c \<noteq> p"
proof -
  from assms(2) obtain s i where "s \<in> set slots" "i < length (opt_list s)" "opt_list s ! i = c"
    by (auto simp: in_set_conv_nth)
  then have "(i, c) \<in> set (concat (map (\<lambda>s. enumerate 0 (opt_list s)) slots))"
    by (auto simp: in_set_enumerate_eq)
  with assms(1) show ?thesis by (auto simp: find_connection_def find_None_iff simp del: set_concat)
qed

lemma edges_single:
  "(a, b) \<in> edges (OfType t) C \<longleftrightarrow>
    (\<exists>slots. (case obj_get C a of None \<Rightarrow> None | Some byType \<Rightarrow> obj_get byType t) = Some slots
       \<and> (\<exists>c \<in> set (concat (map opt_list slots)). c_node c = b))"
  by (cases "obj_get C a") (simp_all add: edges_def Bex_def del: set_concat)

text \<open>
  The loop's invariant: the queue holds what is still to be searched, so a parent reachable from
  the queue through unvisited nodes is found.
\<close>

lemma connection_indexes_sound:
  "connection_indexes_loop C p t queue visited = Some r \<Longrightarrow> set queue \<subseteq> X \<Longrightarrow>
   edges (OfType t) C `` X \<subseteq> X \<Longrightarrow>
   \<exists>n \<in> X. \<exists>slots c s. (case obj_get C n of None \<Rightarrow> None | Some byType \<Rightarrow> obj_get byType t) = Some slots
     \<and> s \<in> set slots \<and> destinationIndex r < length (opt_list s) \<and> opt_list s ! destinationIndex r = c
     \<and> c_node c = p \<and> sourceIndex r = c_index c"
proof (induction C p t queue visited rule: connection_indexes_loop.induct)
  case (2 C p t current queue visited)
  define typeConns where "typeConns = (case obj_get C current of None \<Rightarrow> None | Some byType \<Rightarrow> obj_get byType t)"
  show ?case
  proof (cases "current \<in> set visited")
    case True
    with 2 show ?thesis by simp
  next
    case False
    show ?thesis
    proof (cases typeConns)
      case None
      with 2 False show ?thesis by (simp add: typeConns_def)
    next
      case slots: (Some slots)
      show ?thesis
      proof (cases "find_connection p slots")
        case None
        have "c_node c \<in> X" if "c \<in> set (concat (map opt_list slots))" for c
        proof -
          have "(current, c_node c) \<in> edges (OfType t) C"
            using slots that unfolding edges_single typeConns_def by blast
          then show ?thesis using "2.prems"(2,3) by auto
        qed
        then have "set (queue @ filter (\<lambda>n. n \<notin> set (visited @ [current])) (map c_node (concat (map opt_list slots)))) \<subseteq> X"
          using "2.prems"(2) by (auto simp del: set_concat)
        with "2.IH"(3) [OF False slots [unfolded typeConns_def] None _ _ "2.prems"(3)] "2.prems"(1) False None slots
        show ?thesis by (simp add: typeConns_def del: set_concat)
      next
        case (Some r')
        with "2.prems"(1) False slots have "r' = r" by (simp add: typeConns_def)
        with find_connection_Some [OF Some] slots "2.prems"(2) show ?thesis
          unfolding typeConns_def by fastforce
      qed
    qed
  qed
qed simp

lemma connection_indexes_complete:
  "connection_indexes_loop C p t queue visited = None \<Longrightarrow>
   (\<And>n. n \<in> set visited \<Longrightarrow> edges (OfType t) C `` {n} \<subseteq> set visited \<union> set queue - {p}) \<Longrightarrow>
   \<exists>V. set visited \<union> set queue \<subseteq> V \<and> edges (OfType t) C `` V \<subseteq> V - {p}"
proof (induction C p t queue visited rule: connection_indexes_loop.induct)
  case (1 C p t visited)
  then show ?case by (intro exI [of _ "set visited"]) auto
next
  case (2 C p t current queue visited)
  define typeConns where "typeConns = (case obj_get C current of None \<Rightarrow> None | Some byType \<Rightarrow> obj_get byType t)"
  show ?case
  proof (cases "current \<in> set visited")
    case True
    with 2 show ?thesis by (simp add: insert_absorb)
  next
    case False
    show ?thesis
    proof (cases typeConns)
      case None
      then have "edges (OfType t) C `` {current} = {}"
        by (auto simp: edges_single typeConns_def)
      then have "edges (OfType t) C `` {n} \<subseteq> set (visited @ [current]) \<union> set queue - {p}"
        if "n \<in> set (visited @ [current])" for n
        using that "2.prems"(2) [of n] by auto
      moreover have "connection_indexes_loop C p t queue (visited @ [current]) = None"
        using "2.prems"(1) False None by (simp add: typeConns_def)
      ultimately obtain V where "set (visited @ [current]) \<union> set queue \<subseteq> V"
        "edges (OfType t) C `` V \<subseteq> V - {p}"
        using "2.IH"(2) [OF False None [unfolded typeConns_def]] by blast
      then show ?thesis by (intro exI [of _ V]) simp
    next
      case slots: (Some slots)
      with "2.prems"(1) False have none: "find_connection p slots = None"
        by (auto simp: typeConns_def split: option.splits)
      have out: "edges (OfType t) C `` {current} = c_node ` set (concat (map opt_list slots))"
        using slots by (auto simp: edges_single typeConns_def simp del: set_concat)
      let ?q = "queue @ filter (\<lambda>n. n \<notin> set (visited @ [current])) (map c_node (concat (map opt_list slots)))"
      have "edges (OfType t) C `` {n} \<subseteq> set (visited @ [current]) \<union> set ?q - {p}"
        if "n \<in> set (visited @ [current])" for n
      proof (cases "n = current")
        case True
        with out find_connection_None [OF none] show ?thesis by (auto simp del: set_concat)
      next
        case False
        with that "2.prems"(2) [of n] show ?thesis by auto
      qed
      moreover have "connection_indexes_loop C p t ?q (visited @ [current]) = None"
        using "2.prems"(1) False slots none by (simp add: typeConns_def)
      ultimately obtain V where "set (visited @ [current]) \<union> set ?q \<subseteq> V"
        "edges (OfType t) C `` V \<subseteq> V - {p}"
        using "2.IH"(3) [OF False slots [unfolded typeConns_def] none] by blast
      then show ?thesis by (intro exI [of _ V]) simp
    qed
  qed
qed

text \<open>
  An index pair is found exactly when the parent is a node of the workflow that feeds the
  node, directly or through others, along connections of the given type.
\<close>

theorem getNodeConnectionIndexes_iff:
  "getNodeConnectionIndexes w nodeName parentNodeName type \<noteq> None \<longleftrightarrow>
    getNode w parentNodeName \<noteq> None
    \<and> (nodeName, parentNodeName) \<in> (edges (OfType type) (w_connectionsByDestinationNode w))\<^sup>+"
proof (cases "getNode w parentNodeName")
  case None
  then show ?thesis by (simp add: getNodeConnectionIndexes_def)
next
  case (Some parent)
  let ?C = "w_connectionsByDestinationNode w"
  let ?E = "edges (OfType type) ?C"
  have eq: "getNodeConnectionIndexes w nodeName parentNodeName type
      = connection_indexes_loop ?C parentNodeName type [nodeName] []"
    by (simp add: getNodeConnectionIndexes_def Some)
  have "(nodeName, parentNodeName) \<in> ?E\<^sup>+" if r: "connection_indexes_loop ?C parentNodeName type [nodeName] [] = Some r" for r
  proof -
    have "?E `` (?E\<^sup>* `` {nodeName}) \<subseteq> ?E\<^sup>* `` {nodeName}"
      by (auto intro: rtrancl_into_rtrancl)
    from connection_indexes_sound [OF r _ this] obtain n slots c s where "(nodeName, n) \<in> ?E\<^sup>*"
      "(case obj_get ?C n of None \<Rightarrow> None | Some byType \<Rightarrow> obj_get byType type) = Some slots"
      "s \<in> set slots" "destinationIndex r < length (opt_list s)" "opt_list s ! destinationIndex r = c"
      "c_node c = parentNodeName"
      by auto
    then have "(n, parentNodeName) \<in> ?E" unfolding edges_single by (auto intro: nth_mem)
    with \<open>(nodeName, n) \<in> ?E\<^sup>*\<close> show ?thesis by (rule rtrancl_into_trancl1)
  qed
  moreover have "(nodeName, parentNodeName) \<notin> ?E\<^sup>+"
    if none: "connection_indexes_loop ?C parentNodeName type [nodeName] [] = None"
  proof -
    from connection_indexes_complete [OF none] obtain V where V: "nodeName \<in> V" "?E `` V \<subseteq> V - {parentNodeName}"
      by auto
    have "m \<in> V - {parentNodeName}" if "(nodeName, m) \<in> ?E\<^sup>+" for m
      using that by (induction rule: trancl_induct) (use V in auto)
    then show ?thesis by blast
  qed
  ultimately show ?thesis using eq Some by (cases "connection_indexes_loop ?C parentNodeName type [nodeName] []") auto
qed

subsection \<open>searchNodesBFS\<close>

definition dist_le :: "conns \<Rightarrow> string \<Rightarrow> nat \<Rightarrow> string set" where
  "dist_le C src d = {m. \<exists>j<d. (src, m) \<in> edges (OfType Main) C ^^ j}"

definition depth_of :: "conns \<Rightarrow> string \<Rightarrow> string \<Rightarrow> nat" where
  "depth_of C src m = (LEAST j. (src, m) \<in> edges (OfType Main) C ^^ j)"

lemma depth_of_eqI:
  "(src, m) \<in> edges (OfType Main) C ^^ d \<Longrightarrow> m \<notin> dist_le C src d \<Longrightarrow> depth_of C src m = d"
  unfolding depth_of_def dist_le_def by (rule Least_equality) (auto simp: not_less [symmetric])

lemma bex_eq_image: "(\<exists>c \<in> S. f c = b) \<longleftrightarrow> b \<in> f ` S"
  by auto

lemma edges_main_iff:
  "(n, m) \<in> edges (OfType Main) C \<longleftrightarrow>
     (\<exists>slots. main_inputs C n = Some slots \<and> m \<in> c_node ` set (concat (map opt_list slots)))"
  unfolding edges_single bex_eq_image main_inputs_def ..

lemma bfs_push_names: "cn_name ` set (bfs_push C n d) = edges (OfType Main) C `` {n}"
proof (cases "main_inputs C n")
  case None
  then show ?thesis by (auto simp: bfs_push_def edges_main_iff)
next
  case (Some slots)
  then have "edges (OfType Main) C `` {n} = c_node ` set (concat (map opt_list slots))"
    by (auto simp: edges_main_iff simp del: set_concat)
  with Some show ?thesis by (simp add: bfs_push_def image_image del: set_concat)
qed

lemma bfs_push_depth: "q \<in> set (bfs_push C n d) \<Longrightarrow> cn_depth q = d"
  by (auto simp: bfs_push_def)

text \<open>What one level does, for a queue whose entries all carry the depth \<open>d\<close>.\<close>

definition level_inv :: "conns \<Rightarrow> string \<Rightarrow> nat \<Rightarrow> bfs_state \<Rightarrow> bfs_state \<Rightarrow> bool" where
  "level_inv C src d st0 st \<longleftrightarrow>
     wf_obj (bfs_visited st) \<and>
     set (map fst (bfs_visited st0)) \<subseteq> set (map fst (bfs_visited st)) \<and>
     (\<forall>n e. obj_get (bfs_visited st) n = Some e \<longrightarrow> cn_name e = n \<and>
        cn_depth e = (case obj_get (bfs_visited st0) n of Some e0 \<Rightarrow> cn_depth e0 | None \<Rightarrow> d)) \<and>
     cn_name ` set (bfs_queue st) = edges (OfType Main) C `` (set (map fst (bfs_visited st)) - set (map fst (bfs_visited st0))) \<and>
     (\<forall>q \<in> set (bfs_queue st). cn_depth q = Suc d) \<and>
     set (bfs_order st) = set (map fst (bfs_visited st)) - {src} \<and> distinct (bfs_order st)"

lemma Image_insert': "R `` insert x A = R `` {x} \<union> R `` A"
  by auto

lemma level_inv_visit:
  assumes "level_inv C src d st0 st" "cn_depth q = d"
  shows "level_inv C src d st0 (bfs_visit C src (Suc d) q st)"
proof (cases "obj_get (bfs_visited st) (cn_name q)")
  case (Some e)
  have keys: "set (map fst (obj_set (cn_name q) v (bfs_visited st))) = set (map fst (bfs_visited st))" for v
    unfolding keys_obj_set using Some by (auto dest: obj_get_mem intro: rev_image_eqI)
  show ?thesis
    using assms Some keys unfolding level_inv_def bfs_visit_def
    by (simp add: js_simps del: set_map)
next
  case None
  then have new: "cn_name q \<notin> set (map fst (bfs_visited st))"
    by (simp add: map_of_eq_None_iff)
  then have "cn_name q \<notin> set (map fst (bfs_visited st0))" and n0: "obj_get (bfs_visited st0) (cn_name q) = None"
    using assms(1) by (auto simp: level_inv_def map_of_eq_None_iff)
  then have diff: "insert (cn_name q) (set (map fst (bfs_visited st))) - set (map fst (bfs_visited st0))
      = insert (cn_name q) (set (map fst (bfs_visited st)) - set (map fst (bfs_visited st0)))"
    by auto
  let ?st = "bfs_visit C src (Suc d) q st"
  have st: "bfs_visited ?st = obj_set (cn_name q) q (bfs_visited st)"
    "bfs_queue ?st = bfs_queue st @ bfs_push C (cn_name q) (Suc d)"
    "bfs_order ?st = (if cn_name q \<noteq> src then bfs_order st @ [cn_name q] else bfs_order st)"
    using None by (simp_all add: bfs_visit_def)
  have keys: "set (map fst (bfs_visited ?st)) = insert (cn_name q) (set (map fst (bfs_visited st)))"
    unfolding st by (rule keys_obj_set)
  have order: "set (bfs_order st) = set (map fst (bfs_visited st)) - {src}" "distinct (bfs_order st)"
    using assms(1) by (simp_all add: level_inv_def)
  have "cn_name ` set (bfs_queue ?st) = edges (OfType Main) C ``
      (set (map fst (bfs_visited ?st)) - set (map fst (bfs_visited st0)))"
    unfolding keys diff
    unfolding Image_insert' [of _ _ "set (map fst (bfs_visited st)) - set (map fst (bfs_visited st0))"]
      st set_append image_Un bfs_push_names
    using assms(1) by (simp add: level_inv_def Un_commute)
  moreover have "\<forall>n e. obj_get (bfs_visited ?st) n = Some e \<longrightarrow> cn_name e = n \<and>
      cn_depth e = (case obj_get (bfs_visited st0) n of Some e0 \<Rightarrow> cn_depth e0 | None \<Rightarrow> d)"
    unfolding st using assms n0 by (auto simp: js_simps level_inv_def)
  moreover have "\<forall>q \<in> set (bfs_queue ?st). cn_depth q = Suc d"
    unfolding st using assms(1) by (auto simp: level_inv_def bfs_push_depth)
  moreover have "set (bfs_order ?st) = set (map fst (bfs_visited ?st)) - {src}"
    unfolding keys unfolding st using order by (simp add: insert_Diff_if)
  moreover have "distinct (bfs_order ?st)"
    unfolding st using order new by simp
  moreover have "wf_obj (bfs_visited ?st)"
    unfolding st using assms(1) by (simp add: level_inv_def)
  moreover have "set (map fst (bfs_visited st0)) \<subseteq> set (map fst (bfs_visited ?st))"
    unfolding keys by (rule subset_insertI2) (use assms(1) in \<open>simp only: level_inv_def\<close>)
  ultimately show ?thesis unfolding level_inv_def by (intro conjI)
qed

lemma level_inv_fold:
  "level_inv C src d st0 st \<Longrightarrow> (\<forall>q \<in> set qs. cn_depth q = d) \<Longrightarrow>
   level_inv C src d st0 (fold (bfs_visit C src (Suc d)) qs st)"
  by (induction qs arbitrary: st) (simp_all add: level_inv_visit)

text \<open>The loop's invariant before the level at depth \<open>d\<close>.\<close>

definition bfs_inv :: "conns \<Rightarrow> string \<Rightarrow> nat \<Rightarrow> bfs_state \<Rightarrow> bool" where
  "bfs_inv C src d st \<longleftrightarrow>
     wf_obj (bfs_visited st) \<and>
     set (map fst (bfs_visited st)) = dist_le C src d \<and>
     (\<forall>n e. obj_get (bfs_visited st) n = Some e \<longrightarrow> cn_name e = n \<and> cn_depth e = depth_of C src n) \<and>
     cn_name ` set (bfs_queue st) \<subseteq> {m. (src, m) \<in> edges (OfType Main) C ^^ d} \<and>
     {m. (src, m) \<in> edges (OfType Main) C ^^ d} \<subseteq> cn_name ` set (bfs_queue st) \<union> dist_le C src d \<and>
     (\<forall>q \<in> set (bfs_queue st). cn_depth q = d) \<and>
     set (bfs_order st) = dist_le C src d - {src} \<and> distinct (bfs_order st)"

lemma dist_le_Suc: "dist_le C src (Suc d) = dist_le C src d \<union> {m. (src, m) \<in> edges (OfType Main) C ^^ d}"
  by (auto simp: dist_le_def less_Suc_eq)

lemma bfs_inv_level:
  assumes "bfs_inv C src d st"
  shows "bfs_inv C src (Suc d) (bfs_level C src (Suc d) st)"
proof -
  let ?E = "edges (OfType Main) C" and ?st = "bfs_level C src (Suc d) st"
  let ?K = "set (map fst (bfs_visited st))"
  have K: "?K = dist_le C src d"
    and q: "cn_name ` set (bfs_queue st) \<subseteq> {m. (src, m) \<in> ?E ^^ d}"
      "{m. (src, m) \<in> ?E ^^ d} \<subseteq> cn_name ` set (bfs_queue st) \<union> dist_le C src d"
    and qd: "\<forall>q \<in> set (bfs_queue st). cn_depth q = d"
    and e: "\<And>n e. obj_get (bfs_visited st) n = Some e \<Longrightarrow> cn_name e = n \<and> cn_depth e = depth_of C src n"
    using assms by (simp_all add: bfs_inv_def)
  have "level_inv C src d (st\<lparr>bfs_queue := []\<rparr>) (st\<lparr>bfs_queue := []\<rparr>)"
    using assms by (auto simp: level_inv_def bfs_inv_def simp del: set_map)
  from level_inv_fold [OF this qd] have lv: "level_inv C src d (st\<lparr>bfs_queue := []\<rparr>) ?st"
    by (simp add: bfs_level_def)
  have keys: "set (map fst (bfs_visited ?st)) = dist_le C src (Suc d)"
    unfolding bfs_level_def fold_bfs_visit_keys dist_le_Suc using K q by auto
  have new: "dist_le C src (Suc d) - dist_le C src d = {m. (src, m) \<in> ?E ^^ d} - dist_le C src d"
    by (auto simp: dist_le_Suc)
  have queue: "cn_name ` set (bfs_queue ?st) = ?E `` ({m. (src, m) \<in> ?E ^^ d} - dist_le C src d)"
    using lv K keys new unfolding level_inv_def by (simp del: set_map)
  have "cn_name ` set (bfs_queue ?st) \<subseteq> {m. (src, m) \<in> ?E ^^ Suc d}"
    unfolding queue by auto
  moreover have "{m. (src, m) \<in> ?E ^^ Suc d} \<subseteq> cn_name ` set (bfs_queue ?st) \<union> dist_le C src (Suc d)"
  proof
    fix m assume "m \<in> {m. (src, m) \<in> ?E ^^ Suc d}"
    then obtain v where v: "(src, v) \<in> ?E ^^ d" "(v, m) \<in> ?E" by auto
    show "m \<in> cn_name ` set (bfs_queue ?st) \<union> dist_le C src (Suc d)"
    proof (cases "v \<in> dist_le C src d")
      case True
      then obtain j where "j < d" "(src, v) \<in> ?E ^^ j" by (auto simp: dist_le_def)
      with v(2) have "Suc j < Suc d" "(src, m) \<in> ?E ^^ Suc j" by auto
      then show ?thesis unfolding dist_le_def by blast
    next
      case False
      with v show ?thesis unfolding queue by blast
    qed
  qed
  moreover have "cn_name x = n \<and> cn_depth x = depth_of C src n"
    if x: "obj_get (bfs_visited ?st) n = Some x" for n x
  proof (cases "obj_get (bfs_visited st) n")
    case (Some e0)
    with lv x e [OF Some] show ?thesis by (simp add: level_inv_def)
  next
    case None
    then have "n \<notin> dist_le C src d" unfolding K [symmetric] by (simp add: map_of_eq_None_iff)
    moreover from x have "n \<in> dist_le C src (Suc d)"
      unfolding keys [symmetric] by (force dest: obj_get_mem)
    ultimately have "depth_of C src n = d" by (intro depth_of_eqI) (auto simp: dist_le_Suc)
    with lv x None show ?thesis by (simp add: level_inv_def)
  qed
  ultimately show ?thesis
    using lv keys unfolding bfs_inv_def level_inv_def by (simp del: set_map relpow.simps)
qed

lemma dist_le_closed:
  assumes "{m. (src, m) \<in> edges (OfType Main) C ^^ d} \<subseteq> dist_le C src d"
  shows "dist_le C src d = {m. (src, m) \<in> (edges (OfType Main) C)\<^sup>*}"
proof -
  let ?E = "edges (OfType Main) C"
  have "m \<in> dist_le C src d" if "(src, m) \<in> ?E ^^ k" for k m
    using that
  proof (induction k arbitrary: m)
    case 0
    then show ?case
    proof (cases d)
      case 0
      with assms show ?thesis by (auto simp: dist_le_def)
    next
      case (Suc d')
      then show ?thesis using \<open>(src, m) \<in> ?E ^^ 0\<close> unfolding dist_le_def by blast
    qed
  next
    case (Suc k)
    then obtain v where "v \<in> dist_le C src d" and vm: "(v, m) \<in> ?E" by auto
    then obtain j where j: "j < d" "(src, v) \<in> ?E ^^ j" unfolding dist_le_def by blast
    from j(2) vm have step: "(src, m) \<in> ?E ^^ Suc j" by (rule relpow_Suc_I)
    show ?case
    proof (cases "Suc j = d")
      case True
      with assms step show ?thesis by (simp only:) blast
    next
      case False
      with j(1) have "Suc j < d" by simp
      with step show ?thesis unfolding dist_le_def by blast
    qed
  qed
  then show ?thesis by (auto simp: dist_le_def rtrancl_power)
qed

lemma bfs_loop_unbounded:
  "bfs_inv C src d st \<Longrightarrow> \<exists>d' st'. bfs_loop C src (-1) d st = st' \<and> bfs_inv C src d' st' \<and> bfs_queue st' = []"
proof (induction C src "-1 :: int" d st rule: bfs_loop.induct)
  case (1 C src d st)
  show ?case
  proof (cases "bfs_queue st = []")
    case True
    with "1.prems" show ?thesis by (auto simp: bfs_loop.simps [of C src "-1" d st])
  next
    case False
    with "1.hyps" bfs_inv_level [OF "1.prems"] show ?thesis
      by (simp add: bfs_loop.simps [of C src "-1" d st])
  qed
qed

lemma bfs_inv_start:
  "bfs_inv C src 0 \<lparr>bfs_queue = [\<lparr>cn_name = src, cn_indicies = [], cn_depth = 0\<rparr>], bfs_visited = [], bfs_order = []\<rparr>"
  by (auto simp: bfs_inv_def dist_le_def)

lemma bfs_inv_end:
  assumes "bfs_inv C src d st" "bfs_queue st = []"
  shows "set (map fst (bfs_visited st)) = {m. (src, m) \<in> (edges (OfType Main) C)\<^sup>*}"
  using assms dist_le_closed [of src d C] by (simp add: bfs_inv_def del: set_map)

lemma map_filter_Some: "\<forall>x \<in> set xs. f x \<noteq> None \<Longrightarrow> List.map_filter f xs = map (the \<circ> f) xs"
  by (induction xs) (auto simp: List.map_filter_simps)

text \<open>
  Without a depth limit the breadth-first search returns each other node reachable along
  \<open>main\<close> connections exactly once, with the length of a shortest path as its depth.
\<close>

theorem searchNodesBFS_shortest:
  shows "distinct (map cn_name (searchNodesBFS C src (-1)))
    \<and> set (map cn_name (searchNodesBFS C src (-1))) = {m. m \<noteq> src \<and> (src, m) \<in> (edges (OfType Main) C)\<^sup>*}
    \<and> (\<forall>q \<in> set (searchNodesBFS C src (-1)). cn_depth q = depth_of C src (cn_name q))"
proof -
  obtain d st where st: "bfs_loop C src (-1) 0 \<lparr>bfs_queue = [\<lparr>cn_name = src, cn_indicies = [], cn_depth = 0\<rparr>],
      bfs_visited = [], bfs_order = []\<rparr> = st" "bfs_inv C src d st" "bfs_queue st = []"
    using bfs_loop_unbounded [OF bfs_inv_start] by blast
  have reach: "set (map fst (bfs_visited st)) = {m. (src, m) \<in> (edges (OfType Main) C)\<^sup>*}"
    by (rule bfs_inv_end [OF st(2,3)])
  have order: "set (bfs_order st) = set (map fst (bfs_visited st)) - {src}" "distinct (bfs_order st)"
    and entry: "\<And>n e. obj_get (bfs_visited st) n = Some e \<Longrightarrow> cn_name e = n \<and> cn_depth e = depth_of C src n"
    using st(2) by (simp_all add: bfs_inv_def del: set_map)
  have some: "\<exists>e. obj_get (bfs_visited st) n = Some e" if "n \<in> set (bfs_order st)" for n
  proof -
    have "n \<in> set (map fst (bfs_visited st))" using that order(1) by simp
    then show ?thesis by (metis map_of_eq_None_iff not_None_eq set_map)
  qed
  then have result: "searchNodesBFS C src (-1) = map (the \<circ> obj_get (bfs_visited st)) (bfs_order st)"
    by (simp add: searchNodesBFS_def st(1) map_filter_Some)
  have e: "cn_name (the (obj_get (bfs_visited st) n)) = n
      \<and> cn_depth (the (obj_get (bfs_visited st) n)) = depth_of C src n" if "n \<in> set (bfs_order st)" for n
    using some [OF that] entry by auto
  have names: "map cn_name (searchNodesBFS C src (-1)) = bfs_order st"
    unfolding result map_map using e by (intro map_idI) simp
  moreover have "\<forall>q \<in> set (searchNodesBFS C src (-1)). cn_depth q = depth_of C src (cn_name q)"
    unfolding result using e by simp
  ultimately show ?thesis using order reach by auto
qed

subsection \<open>The two indexes of the connections\<close>

lemma bex_slots:
  "(\<exists>c \<in> set (concat (map opt_list slots)). c_node c = b) \<longleftrightarrow>
    (\<exists>i c. (i < length slots \<and> c \<in> set (opt_list (slots ! i))) \<and> c_node c = b)"
proof -
  have "(\<exists>s \<in> set slots. Q s) \<longleftrightarrow> (\<exists>i. i < length slots \<and> Q (slots ! i))" for Q
    by (metis in_set_conv_nth)
  from this [of "\<lambda>s. \<exists>c. c \<in> set (opt_list s) \<and> c_node c = b"] show ?thesis
    by (auto simp: Bex_def)
qed

lemma edges_conn_at: "(a, b) \<in> edges (OfType t) C \<longleftrightarrow> (\<exists>i c. conn_at C a t i c \<and> c_node c = b)"
proof -
  have at: "conn_at C a t i c \<longleftrightarrow> (\<exists>slots.
      (case obj_get C a of None \<Rightarrow> None | Some byType \<Rightarrow> obj_get byType t) = Some slots
      \<and> i < length slots \<and> c \<in> set (opt_list (slots ! i)))" for i c
    by (auto simp: conn_at_def split: option.splits)
  show ?thesis unfolding edges_single bex_slots at by blast
qed

lemma newWorkflow_fields [simp]:
  "w_connectionsBySourceNode (newWorkflow g ps) = wp_connections ps"
  "w_connectionsByDestinationNode (newWorkflow g ps) = mapConnectionsByDestination (wp_connections ps)"
  by (simp_all add: newWorkflow_def setSettings_def setPinData_def setConnections_def setNodes_def)

text \<open>In a new workflow the index by destination holds exactly the reversed connections.\<close>

theorem newWorkflow_index:
  assumes "wf_conns (wp_connections ps)"
  shows "conn_at (w_connectionsByDestinationNode (newWorkflow g ps)) a s j \<lparr>c_node = b, c_type = t, c_index = i\<rparr>
    \<longleftrightarrow> conn_at (w_connectionsBySourceNode (newWorkflow g ps)) b t i \<lparr>c_node = a, c_type = s, c_index = j\<rparr>"
  using conn_at_mapConnectionsByDestination [OF assms] by simp

text \<open>Connections whose two ends have the same type, as the editor creates them.\<close>

definition same_type :: "conns \<Rightarrow> bool" where
  "same_type C \<longleftrightarrow> (\<forall>(n, byType) \<in> set C. \<forall>(t, slots) \<in> set byType. \<forall>cs \<in> set slots. \<forall>c \<in> set (opt_list cs). c_type c = t)"

lemma same_typeD: "same_type C \<Longrightarrow> conn_at C n t i c \<Longrightarrow> c_type c = t"
proof -
  assume st: "same_type C" and at: "conn_at C n t i c"
  from at obtain byType slots where "obj_get C n = Some byType" "obj_get byType t = Some slots"
    "i < length slots" "c \<in> set (opt_list (slots ! i))"
    by (auto simp: conn_at_def split: option.splits)
  then have "(n, byType) \<in> set C" "(t, slots) \<in> set byType" "slots ! i \<in> set slots" "c \<in> set (opt_list (slots ! i))"
    by (auto dest: obj_get_mem)
  with st show "c_type c = t" unfolding same_type_def by blast
qed

lemma edges_mapConnectionsByDestination:
  assumes "wf_conns C" "same_type C"
  shows "edges (OfType t) (mapConnectionsByDestination C) = (edges (OfType t) C)\<inverse>"
proof -
  have "(b, a) \<in> edges (OfType t) (mapConnectionsByDestination C) \<longleftrightarrow> (a, b) \<in> edges (OfType t) C" for a b
    unfolding edges_conn_at conn_at_mapConnectionsByDestination [OF assms(1)]
  proof
    assume "\<exists>i (c :: conn). conn_at C (c_node c) (c_type c) (c_index c) \<lparr>c_node = b, c_type = t, c_index = i\<rparr> \<and> c_node c = a"
    with same_typeD [OF assms(2)] show "\<exists>i c. conn_at C a t i c \<and> c_node c = b" by fastforce
  next
    assume "\<exists>i c. conn_at C a t i c \<and> c_node c = b"
    then obtain i c where "conn_at C a t i c" "c_node c = b" by blast
    moreover from this same_typeD [OF assms(2)] have "c = \<lparr>c_node = b, c_type = t, c_index = c_index c\<rparr>" by auto
    ultimately have "conn_at C a t i \<lparr>c_node = b, c_type = t, c_index = c_index c\<rparr>" by simp
    then show "\<exists>j (d :: conn). conn_at C (c_node d) (c_type d) (c_index d) \<lparr>c_node = b, c_type = t, c_index = j\<rparr> \<and> c_node d = a"
      by - (rule exI [of _ "c_index c"], rule exI [of _ "\<lparr>c_node = a, c_type = t, c_index = i\<rparr>"], simp)
  qed
  then show ?thesis by auto
qed

text \<open>
  C25: In a new workflow a node is among another's parents exactly when the other is among its
  children; both are the nodes connected by a path, the node itself left out.
\<close>

theorem parents_iff_children:
  assumes "wf_conns (wp_connections ps)" "same_type (wp_connections ps)"
  shows "(n \<in> set (parentNodes (newWorkflow g ps) m) \<longleftrightarrow> m \<in> set (childNodes (newWorkflow g ps) n))
    \<and> (m \<in> set (childNodes (newWorkflow g ps) n) \<longleftrightarrow>
         m \<noteq> n \<and> (n, m) \<in> (edges (OfType Main) (wp_connections ps))\<^sup>+)"
  by (auto simp: parentNodes_def childNodes_def getParentNodes_reachable getChildNodes_reachable
      edges_mapConnectionsByDestination [OF assms] trancl_converse)

subsection \<open>renameNode\<close>

definition rename_key :: "string \<Rightarrow> string \<Rightarrow> string \<Rightarrow> string" where
  "rename_key currentName newName n = (if n = currentName then newName else n)"

lemma obj_get_map_values: "obj_get (map (\<lambda>(k, v). (k, f v)) o') k = map_option f (obj_get o' k)"
  by (induction o') auto

lemma obj_get_move_key:
  "a \<noteq> b \<Longrightarrow> obj_get (move_key a b o') k =
    (if k = a then None else if k = b \<and> obj_get o' a \<noteq> None then obj_get o' a else obj_get o' k)"
  by (auto simp: move_key_def js_simps split: option.splits)

lemma get_move_key:
  assumes "b \<noteq> a" "obj_get o' b = None"
  shows "obj_get (move_key a b o') k = Some x \<longleftrightarrow> (\<exists>k0. obj_get o' k0 = Some x \<and> k = rename_key a b k0)"
  using assms by (auto simp: obj_get_move_key [OF assms(1) [symmetric]] rename_key_def)

lemma conn_at_get:
  "conn_at C n t i c \<longleftrightarrow> (\<exists>byType. obj_get C n = Some byType \<and>
     (case obj_get byType t of None \<Rightarrow> False | Some slots \<Rightarrow> i < length slots \<and> c \<in> set (opt_list (slots ! i))))"
  by (auto simp: conn_at_def split: option.splits)

lemma conn_at_renameTargets:
  "conn_at (renameTargets a b C) n t i c \<longleftrightarrow> (\<exists>c0. conn_at C n t i c0 \<and> c = renameTarget a b c0)"
proof -
  have "opt_list (map_option (map f) x) = map f (opt_list x)" for f :: "conn \<Rightarrow> conn" and x
    by (cases x) simp_all
  then show ?thesis
    unfolding conn_at_def renameTargets_def obj_get_map_values
    by (auto split: option.splits simp: obj_get_map_values)
qed

lemma renameInNode_parameters: "\<exists>ps. renameInNode apply currentName newName node = node\<lparr>n_parameters := ps\<rparr>"
  by (simp add: renameInNode_def Let_def) blast

text \<open>
  C26: Renaming to a name that is not restricted, differs from the old one and has no connections yet succeeds.
  Under the old name there is no node any more; the node is found under the new name, with that name; every
  other node stays where it is, and all nodes change in nothing but their parameters (the references in
  expressions and code). The connections by source are the old ones with the name replaced at both ends. The
  index by destination is not touched: it keeps the old name.
\<close>

theorem renameNode_renames:
  assumes "\<not> is_restricted_name newName" "newName \<noteq> currentName"
    and "obj_get (w_connectionsBySourceNode w) newName = None"
  shows "\<exists>w'. renameNode apply currentName newName w = Inr w'
    \<and> (\<forall>n. getNode w' n =
         (if n = currentName then None
          else map_option (renameInNode apply currentName newName)
            (if n = newName \<and> getNode w currentName \<noteq> None
             then map_option (\<lambda>node. node\<lparr>n_name := newName\<rparr>) (getNode w currentName) else getNode w n)))
    \<and> (\<forall>node. \<exists>ps. renameInNode apply currentName newName node = node\<lparr>n_parameters := ps\<rparr>)
    \<and> (\<forall>n t i c. conn_at (w_connectionsBySourceNode w') n t i c \<longleftrightarrow>
         (\<exists>n0 c0. conn_at (w_connectionsBySourceNode w) n0 t i c0
           \<and> n = rename_key currentName newName n0 \<and> c = renameTarget currentName newName c0))
    \<and> w_connectionsByDestinationNode w' = w_connectionsByDestinationNode w"
proof -
  let ?C = "w_connectionsBySourceNode w"
  obtain w' where w': "renameNode apply currentName newName w = Inr w'"
    and nodes: "w_nodes w' = map (\<lambda>(k, node). (k, renameInNode apply currentName newName node))
       (case obj_get (w_nodes w) currentName of None \<Rightarrow> w_nodes w
        | Some node \<Rightarrow> obj_del currentName (obj_set newName (node\<lparr>n_name := newName\<rparr>) (w_nodes w)))"
    and C': "w_connectionsBySourceNode w' = renameTargets currentName newName (move_key currentName newName ?C)"
    and D: "w_connectionsByDestinationNode w' = w_connectionsByDestinationNode w"
    using assms(1) by (simp add: renameNode_def)
  have at: "conn_at (move_key currentName newName ?C) n t i c \<longleftrightarrow>
      (\<exists>n0. conn_at ?C n0 t i c \<and> n = rename_key currentName newName n0)" for n t i c
    unfolding conn_at_get get_move_key [OF assms(2,3)] by blast
  have conns: "conn_at (w_connectionsBySourceNode w') n t i c \<longleftrightarrow>
      (\<exists>n0 c0. conn_at ?C n0 t i c0 \<and> n = rename_key currentName newName n0
        \<and> c = renameTarget currentName newName c0)" for n t i c
    unfolding C' conn_at_renameTargets at by auto
  have "getNode w' n = (if n = currentName then None
      else map_option (renameInNode apply currentName newName)
        (if n = newName \<and> getNode w currentName \<noteq> None
         then map_option (\<lambda>node. node\<lparr>n_name := newName\<rparr>) (getNode w currentName) else getNode w n))" for n
    unfolding getNode_def nodes obj_get_map_values using assms(2) by (auto simp: js_simps split: option.splits)
  then show ?thesis using w' conns D renameInNode_parameters by blast
qed

text \<open>Renaming a node to its own name deletes it.\<close>

lemma renameNode_same:
  "renameNode apply n n w = Inr w' \<Longrightarrow> getNode w' n = None"
  unfolding renameNode_def getNode_def
  by (auto simp: Let_def js_simps obj_get_map_values split: if_splits option.splits)

text \<open>The connections by destination keep the old name.\<close>

lemma renameNode_destination_stale:
  "renameNode apply a b w = Inr w' \<Longrightarrow> w_connectionsByDestinationNode w' = w_connectionsByDestinationNode w"
  by (auto simp: renameNode_def Let_def split: if_splits)

end
