(* ===== verification/DirectedGraphFacts.thy ===== *)
theory DirectedGraphFacts
  imports DirectedGraph WorkflowFacts
begin

section \<open>What the DirectedGraph operations promise\<close>

text \<open>
  The invariant of a graph, that the operations keep it, that the traversals return exactly the
  reachable nodes or connections and never throw on a well-formed graph, and what removing a node
  with reconnection does to reachability.
\<close>

definition gedges :: "dgraph \<Rightarrow> (inode \<times> inode) set" where
  "gedges g = {(a, b). \<exists>c \<in> set (graph_conns g). g_from c = a \<and> g_to c = b}"

definition wf_graph :: "dgraph \<Rightarrow> bool" where
  "wf_graph g \<longleftrightarrow> wf_obj (g_nodes g) \<and> wf_obj (g_conns g)
     \<and> (\<forall>(k, n) \<in> set (g_nodes g). n_name n = k)
     \<and> (\<forall>(k, c) \<in> set (g_conns g). k = makeKey c \<and> node_exists g (g_from c) \<and> node_exists g (g_to c))"

lemma wf_graph_conn:
  "wf_graph g \<Longrightarrow> c \<in> set (graph_conns g) \<Longrightarrow> node_exists g (g_from c) \<and> node_exists g (g_to c)"
  by (auto simp: wf_graph_def graph_conns_def)

lemma wf_graph_key: "wf_graph g \<Longrightarrow> c \<in> set (graph_conns g) \<Longrightarrow> obj_get (g_conns g) (makeKey c) = Some c"
  by (auto simp: wf_graph_def graph_conns_def intro!: obj_mem_get)

lemma graph_conns_get:
  "wf_graph g \<Longrightarrow> c \<in> set (graph_conns g) \<longleftrightarrow> (\<exists>k. obj_get (g_conns g) k = Some c)"
  unfolding graph_conns_def using wf_graph_key [of g c]
  by (auto simp: graph_conns_def intro!: rev_image_eqI dest: obj_get_mem)

lemma graph_nodes_exists: "wf_graph g \<Longrightarrow> n \<in> set (graph_nodes g) \<longleftrightarrow> node_exists g n"
  unfolding graph_nodes_def node_exists_def wf_graph_def
  by (force intro!: obj_mem_get dest: obj_get_mem)

lemma gedges_exists: "wf_graph g \<Longrightarrow> (a, b) \<in> gedges g \<Longrightarrow> node_exists g a \<and> node_exists g b"
  by (auto simp: gedges_def dest: wf_graph_conn)

subsection \<open>The operations keep the invariant\<close>

lemma wf_graph_empty [simp]: "wf_graph emptyGraph"
  by (simp add: wf_graph_def emptyGraph_def)

lemma node_exists_addNode:
  "node_exists (addNode n g) m \<longleftrightarrow> m = n \<or> n_name m \<noteq> n_name n \<and> node_exists g m"
  by (auto simp: node_exists_def addNode_def js_simps)

lemma wf_addNode:
  assumes "wf_graph g" "obj_get (g_nodes g) (n_name n) \<in> {None, Some n}"
  shows "wf_graph (addNode n g)"
proof -
  have keep: "node_exists (addNode n g) m" if "node_exists g m" for m
    using that assms(2) unfolding node_exists_addNode by (auto simp: node_exists_def)
  have "wf_obj (g_nodes (addNode n g))" "wf_obj (g_conns (addNode n g))"
    using assms(1) by (auto simp: wf_graph_def addNode_def)
  moreover have "\<forall>(k, m) \<in> set (g_nodes (addNode n g)). n_name m = k"
    using assms(1) by (auto simp: wf_graph_def addNode_def set_obj_set)
  moreover have "g_conns (addNode n g) = g_conns g" by (simp add: addNode_def)
  ultimately show ?thesis
    using assms(1) keep unfolding wf_graph_def by fastforce
qed

lemma node_exists_set_conn [simp]: "node_exists (set_conn c g) n = node_exists g n"
  by (simp add: node_exists_def set_conn_def)

lemma wf_set_conn:
  "wf_graph g \<Longrightarrow> node_exists g (g_from c) \<Longrightarrow> node_exists g (g_to c) \<Longrightarrow> wf_graph (set_conn c g)"
  by (auto simp: wf_graph_def set_conn_def set_obj_set node_exists_def)

lemma addConnection_eq_Inr:
  "addConnection a b t i j g = Inr g' \<longleftrightarrow> node_exists g a \<and> node_exists g b \<and>
     g' = set_conn \<lparr>g_from = a, g_to = b, g_type = (case t of None \<Rightarrow> Main | Some t \<Rightarrow> t),
       g_out = (case i of None \<Rightarrow> 0 | Some i \<Rightarrow> i), g_in = (case j of None \<Rightarrow> 0 | Some i \<Rightarrow> i)\<rparr> g"
  by (auto simp: addConnection_def bindE_eq_Inr)

lemma wf_addConnection: "wf_graph g \<Longrightarrow> addConnection a b t i j g = Inr g' \<Longrightarrow> wf_graph g'"
  by (auto simp: addConnection_eq_Inr intro!: wf_set_conn)

lemma node_exists_drop [simp]: "node_exists (drop_node n g) m = node_exists g m"
  by (simp add: node_exists_def drop_node_def)

lemma conns_drop: "set (graph_conns (drop_node n g)) = {c \<in> set (graph_conns g). g_to c \<noteq> n \<and> g_from c \<noteq> n}"
  by (force simp: drop_node_def graph_conns_def)

lemma wf_drop: "wf_graph g \<Longrightarrow> wf_graph (drop_node n g)"
  by (fastforce simp: wf_graph_def drop_node_def node_exists_def)

lemma node_exists_del:
  "node_exists (g\<lparr>g_nodes := obj_del k (g_nodes g)\<rparr>) m \<longleftrightarrow> n_name m \<noteq> k \<and> node_exists g m"
  by (auto simp: node_exists_def js_simps)

text \<open>Deleting a node of the map keeps the invariant when no connection uses the node.\<close>

lemma wf_del_node:
  assumes "wf_graph g" "node_exists g n" "\<forall>c \<in> set (graph_conns g). g_to c \<noteq> n \<and> g_from c \<noteq> n"
  shows "wf_graph (g\<lparr>g_nodes := obj_del (n_name n) (g_nodes g)\<rparr>)"
proof -
  have "n_name (g_to c) \<noteq> n_name n \<and> n_name (g_from c) \<noteq> n_name n" if "c \<in> set (graph_conns g)" for c
    using wf_graph_conn [OF assms(1) that] assms(2,3) that by (auto simp: node_exists_def)
  then have "n_name (g_to c) \<noteq> n_name n \<and> n_name (g_from c) \<noteq> n_name n" if "(k, c) \<in> set (g_conns g)" for k c
    using that by (force simp: graph_conns_def)
  with assms(1) show ?thesis
    unfolding wf_graph_def node_exists_del by (fastforce simp: obj_del_def)
qed

text \<open>
  Adding a connection and removing a node keep the graph well-formed: every connection is
  stored under its own key and joins two nodes of the graph.
\<close>

theorem graph_invariant:
  assumes "wf_graph g"
  shows "(addConnection a b t i j g = Inr g' \<longrightarrow> wf_graph g')
    \<and> (node_exists g n \<longrightarrow> wf_graph (removeNode n g) \<and> \<not> hasNode (removeNode n g) (n_name n))
    \<and> (obj_get (g_nodes g) (n_name n) = None \<longrightarrow> wf_graph (addNode n g) \<and> node_exists (addNode n g) n)"
proof (intro conjI impI)
  show "wf_graph g'" if "addConnection a b t i j g = Inr g'"
    using wf_addConnection [OF assms that] .
  assume n: "node_exists g n"
  show "wf_graph (removeNode n g)"
    using wf_del_node [OF wf_drop [OF assms, of n], of n] n
    by (simp add: removeNode_def conns_drop) (simp add: drop_node_def)
next
  show "\<not> hasNode (removeNode n g) (n_name n)"
    by (simp add: hasNode_def removeNode_def obj_has_iff js_simps)
next
  assume "obj_get (g_nodes g) (n_name n) = None"
  then show "wf_graph (addNode n g)" "node_exists (addNode n g) n"
    by (simp_all add: wf_addNode assms node_exists_addNode)
qed

subsection \<open>The keys\<close>

lemma split_at_dash:
  "CHR ''-'' \<notin> set a \<Longrightarrow> CHR ''-'' \<notin> set a' \<Longrightarrow> a @ CHR ''-'' # b = a' @ CHR ''-'' # b' \<longleftrightarrow> a = a' \<and> b = b'"
proof (induction a arbitrary: a')
  case Nil
  then show ?case by (cases a') auto
next
  case (Cons x a)
  then show ?case by (cases a') auto
qed

lemma ctype_name_no_dash: "CHR ''-'' \<notin> set (ctype_name t)"
  by (cases t) simp_all

lemma nat_str_no_dash: "CHR ''-'' \<notin> set (nat_str n)"
  using nat_str_digits [of n] by (auto simp: list_all_iff is_digit_char_def)

text \<open>Keys determine the parts of a connection when the names of the source nodes contain no dash.\<close>

lemma makeKey_eq_iff:
  assumes "CHR ''-'' \<notin> set (n_name (g_from c))" "CHR ''-'' \<notin> set (n_name (g_from d))"
  shows "makeKey c = makeKey d \<longleftrightarrow> n_name (g_from c) = n_name (g_from d) \<and> g_type c = g_type d
    \<and> g_out c = g_out d \<and> g_in c = g_in d \<and> n_name (g_to c) = n_name (g_to d)"
  using assms
  by (simp add: makeKey_def split_at_dash ctype_name_no_dash nat_str_no_dash)

text \<open>Without that condition two different connections can share a key.\<close>

definition plain_node :: "string \<Rightarrow> inode" where
  "plain_node name = \<lparr>n_id = name, n_name = name, n_typeVersion = 1, n_type = ''n8n-nodes-base.set'',
     n_position = (0, 0), n_disabled = None, n_retryOnFail = None, n_maxTries = None,
     n_waitBetweenTries = None, n_alwaysOutputData = None, n_executeOnce = None, n_onError = None,
     n_continueOnFail = None, n_parameters = [], n_credentials = None, n_webhookId = None,
     n_rewireOutputLogTo = None, n_forceCustomOperation = None\<rparr>"

lemma plain_node_name [simp]: "n_name (plain_node x) = x"
  by (simp add: plain_node_def)

lemma plain_node_eq_iff [simp]: "plain_node x = plain_node y \<longleftrightarrow> x = y"
  by (metis plain_node_name)

definition main_conn :: "string \<Rightarrow> string \<Rightarrow> gconn" where
  "main_conn a b = \<lparr>g_from = plain_node a, g_to = plain_node b, g_type = Main, g_out = 0, g_in = 0\<rparr>"

lemma nat_str_0 [simp]: "nat_str 0 = ''0''"
  by code_simp

lemma makeKey_collision:
  "makeKey (main_conn ''a'' ''x-main-0-0-b'') = makeKey (main_conn ''a-main-0-0-x'' ''b'')"
  by (simp add: makeKey_def main_conn_def)

text \<open>
  A connection that was added is found again, and every other connection is found as before,
  as long as the names of the source nodes contain no dash.
\<close>

theorem addConnection_getConnection:
  assumes "addConnection a b (Some t) (Some i) (Some j) g = Inr g'"
    and "CHR ''-'' \<notin> set (n_name a)" "CHR ''-'' \<notin> set (n_name a')"
  shows "getConnection g' a' i' t' j' b' =
    (if n_name a' = n_name a \<and> i' = i \<and> t' = t \<and> j' = j \<and> n_name b' = n_name b
     then Some \<lparr>g_from = a, g_to = b, g_type = t, g_out = i, g_in = j\<rparr>
     else getConnection g a' i' t' j' b')"
  using assms
  by (auto simp: addConnection_eq_Inr getConnection_def set_conn_def js_simps makeKey_eq_iff)

subsection \<open>getChildren and getParentConnections\<close>

lemma child_targets_wf:
  "wf_graph g \<Longrightarrow> node_exists g n \<Longrightarrow> child_targets g n = Inr (map g_to (filter (\<lambda>c. g_from c = n) (graph_conns g)))"
  by (simp add: child_targets_def getDirectChildConnections_def)

lemma child_succs: "wf_graph g \<Longrightarrow> child_search.succs g = gedges g"
proof -
  assume wf: "wf_graph g"
  have "(a, b) \<in> child_search.succs g \<longleftrightarrow> (a, b) \<in> gedges g" for a b
    unfolding child_search.succs_def child_targets_def getDirectChildConnections_def gedges_def
    using wf_graph_conn [OF wf] by (auto simp: bindE_eq_Inr image_iff)
  then show ?thesis by auto
qed

lemma child_ok: "wf_graph g \<Longrightarrow> node_exists g x \<Longrightarrow>
  \<exists>ys. child_targets g x = Inr ys \<and> set ys \<subseteq> {m. node_exists g m} \<and> (\<forall>m. m \<in> set ys \<longleftrightarrow> (x, m) \<in> gedges g)"
  by (auto simp: child_targets_wf gedges_def image_iff dest: wf_graph_conn)

lemma rtrancl_Image_step: "R\<^sup>* `` (R `` {n}) = {m. (n, m) \<in> R\<^sup>+}"
  by (auto dest: rtrancl_into_trancl2 tranclD)

lemma children_loop_total:
  "wf_graph g \<Longrightarrow> set xs \<subseteq> {m. node_exists g m} \<Longrightarrow> \<exists>r. children_loop g xs seen = Inr r"
  using child_ok by (intro child_search.visit_total [where ok = "{m. node_exists g m}"]) blast+

lemma children_set:
  assumes "wf_graph g" "node_exists g n"
  shows "\<exists>children. getChildren g n = Inr children \<and> distinct children \<and> set children = {m. (n, m) \<in> (gedges g)\<^sup>+}"
proof -
  from child_ok [OF assms] obtain ys where ys: "child_targets g n = Inr ys" "set ys \<subseteq> {m. node_exists g m}"
    "set ys = gedges g `` {n}" by auto
  with children_loop_total [OF assms(1)] obtain r where r: "children_loop g ys [] = Inr r" by blast
  have "set r = {m. (n, m) \<in> (gedges g)\<^sup>+}"
    using child_search.visit_reachable [OF r] ys(3) by (simp add: child_succs [OF assms(1)] rtrancl_Image_step)
  with r ys(1) child_search.visit_distinct [OF r] show ?thesis by (simp add: getChildren_def)
qed

text \<open>
  The children of a node of a well-formed graph are exactly the nodes reachable from it by
  one connection or more, each once; the node itself is one of them exactly when it is on a cycle.
\<close>

theorem getChildren_reachable:
  assumes "wf_graph g" "node_exists g n"
  shows "\<exists>children. getChildren g n = Inr children \<and> distinct children
    \<and> set children = {m. (n, m) \<in> (gedges g)\<^sup>+}"
  by (rule children_set [OF assms])

lemma parents_ok: "wf_graph g \<Longrightarrow> c \<in> set (graph_conns g) \<Longrightarrow>
  \<exists>ys. parents_of g c = Inr ys \<and> set ys = {d \<in> set (graph_conns g). g_to d = g_from c}"
  by (auto simp: parents_of_def getDirectParentConnections_def dest: wf_graph_conn)

lemma parent_chain:
  assumes "wf_graph g"
  shows "(c, d) \<in> (parent_search.succs g)\<^sup>* \<Longrightarrow> c \<in> set (graph_conns g) \<Longrightarrow>
    d \<in> set (graph_conns g) \<and> (c = d \<or> (g_to d, g_from c) \<in> (gedges g)\<^sup>*)"
proof (induction rule: rtrancl_induct)
  case (step d e)
  then have d: "d \<in> set (graph_conns g)" by blast
  from parents_ok [OF assms d] obtain ys where
    "parents_of g d = Inr ys" "set ys = {e \<in> set (graph_conns g). g_to e = g_from d}" by blast
  with step.hyps(2) have e: "e \<in> set (graph_conns g)" "g_to e = g_from d"
    by (simp_all add: parent_search.succs_def)
  have "(g_from d, g_to d) \<in> gedges g" using d by (auto simp: gedges_def)
  with step e show ?case by (auto intro: converse_rtrancl_into_rtrancl)
qed auto

lemma parent_chain_complete:
  assumes "wf_graph g"
  shows "(m, n) \<in> (gedges g)\<^sup>* \<Longrightarrow> d \<in> set (graph_conns g) \<Longrightarrow> g_to d = m \<Longrightarrow>
    \<exists>c \<in> set (graph_conns g). g_to c = n \<and> (c, d) \<in> (parent_search.succs g)\<^sup>*"
proof (induction arbitrary: rule: rtrancl_induct)
  case (step k n)
  from step.IH [OF step.prems] obtain c where c: "c \<in> set (graph_conns g)" "g_to c = k"
    "(c, d) \<in> (parent_search.succs g)\<^sup>*" by auto
  from step.hyps(2) obtain e where e: "e \<in> set (graph_conns g)" "g_from e = k" "g_to e = n"
    by (auto simp: gedges_def)
  with parents_ok [OF assms e(1)] c have "(e, c) \<in> parent_search.succs g"
    by (auto simp: parent_search.succs_def)
  with c(3) e show ?case by (auto intro: converse_rtrancl_into_rtrancl)
qed auto

lemma parent_connections_set:
  assumes "wf_graph g" "node_exists g n"
  shows "\<exists>cs. getParentConnections g n = Inr cs \<and> distinct cs
    \<and> set cs = {c \<in> set (graph_conns g). (g_to c, n) \<in> (gedges g)\<^sup>*}"
proof -
  let ?P = "filter (\<lambda>c. g_to c = n) (graph_conns g)"
  have P: "getDirectParentConnections g n = Inr ?P"
    using assms(2) by (simp add: getDirectParentConnections_def)
  have "\<exists>r. parents_loop g ?P [] = Inr r"
    using parents_ok [OF assms(1)] by (intro parent_search.visit_total [where ok = "set (graph_conns g)"]) fastforce+
  then obtain r where r: "parents_loop g ?P [] = Inr r" ..
  have "set r = {c \<in> set (graph_conns g). (g_to c, n) \<in> (gedges g)\<^sup>*}"
  proof (intro set_eqI iffI)
    fix d assume "d \<in> set r"
    then obtain c where "(c, d) \<in> (parent_search.succs g)\<^sup>*" "c \<in> set ?P"
      using parent_search.visit_reachable [OF r] by auto
    with parent_chain [OF assms(1) this(1)] have "d \<in> set (graph_conns g)" "d = c \<or> (g_to d, g_from c) \<in> (gedges g)\<^sup>*"
      "g_to c = n" "(g_from c, g_to c) \<in> gedges g"
      by (auto simp: gedges_def)
    then show "d \<in> {c \<in> set (graph_conns g). (g_to c, n) \<in> (gedges g)\<^sup>*}"
      by (auto intro: rtrancl_into_rtrancl)
  next
    fix d assume "d \<in> {c \<in> set (graph_conns g). (g_to c, n) \<in> (gedges g)\<^sup>*}"
    with parent_chain_complete [OF assms(1), of "g_to d" n d] show "d \<in> set r"
      unfolding parent_search.visit_reachable [OF r] by auto
  qed
  with r P parent_search.visit_distinct [OF r] show ?thesis by (simp add: getParentConnections_def)
qed

text \<open>
  The parent connections of a node are exactly the connections from whose end the node can be
  reached, each once.
\<close>

theorem getParentConnections_reaching:
  assumes "wf_graph g" "node_exists g n"
  shows "\<exists>cs. getParentConnections g n = Inr cs \<and> distinct cs
    \<and> set cs = {c \<in> set (graph_conns g). (g_to c, n) \<in> (gedges g)\<^sup>*}"
  by (rule parent_connections_set [OF assms])

subsection \<open>depthFirstSearch\<close>

lemma dfs_loop_none:
  "dfs_loop g fn xs seen = Inr (None, r) \<Longrightarrow>
   children_loop g xs seen = Inr r \<and> (\<forall>x \<in> set r - set seen. \<not> fn x)"
proof (induction g fn xs seen arbitrary: r rule: dfs_loop.induct)
  case (2 g fn x xs s)
  consider "x \<in> set s" | "x \<notin> set s" "fn x" | "x \<notin> set s" "\<not> fn x" by blast
  then show ?case
  proof cases
    case 1
    with 2 show ?thesis by (simp add: dfs_loop.simps children_loop.simps)
  next
    case 2
    with "2.prems" show ?thesis by (simp add: dfs_loop.simps)
  next
    case 3
    with "2.prems" obtain ys r' where
      *: "child_targets g x = Inr ys" "dfs_loop g fn ys (s @ [x]) = Inr (None, r')" "dfs_loop g fn xs r' = Inr (None, r)"
      by (auto simp: dfs_loop.simps bindE_eq_Inr split: option.splits)
    with "2.IH"(2) [OF 3 *(1,2)] "2.IH"(3) [OF 3 *(1,2) refl refl *(3)] 3 show ?thesis
      by (auto simp: children_loop.simps)
  qed
qed (simp add: dfs_loop.simps children_loop.simps)

lemma dfs_loop_some:
  "dfs_loop g fn xs seen = Inr (Some m, r) \<Longrightarrow> fn m \<and> (\<exists>x \<in> set xs. (x, m) \<in> (child_search.succs g)\<^sup>*)"
proof (induction g fn xs seen arbitrary: r rule: dfs_loop.induct)
  case (2 g fn x xs s)
  consider "x \<in> set s" | "x \<notin> set s" "fn x" | "x \<notin> set s" "\<not> fn x" by blast
  then show ?case
  proof cases
    case 1
    with 2 show ?thesis by (simp add: dfs_loop.simps)
  next
    case 2
    with "2.prems" show ?thesis by (auto simp: dfs_loop.simps)
  next
    case 3
    with "2.prems" obtain ys found r' where
      *: "child_targets g x = Inr ys" "dfs_loop g fn ys (s @ [x]) = Inr (found, r')"
      by (auto simp: dfs_loop.simps bindE_eq_Inr)
    show ?thesis
    proof (cases found)
      case None
      with "2.prems" 3 * have "dfs_loop g fn xs r' = Inr (Some m, r)" by (simp add: dfs_loop.simps)
      with "2.IH"(3) [OF 3 *(1,2) refl None] show ?thesis by auto
    next
      case (Some m')
      with "2.prems" 3 * have "found = Some m" by (simp add: dfs_loop.simps)
      with "2.IH"(2) [OF 3 *(1)] *(2) obtain y where "fn m" "y \<in> set ys" "(y, m) \<in> (child_search.succs g)\<^sup>*"
        by auto
      moreover from this *(1) have "(x, y) \<in> child_search.succs g"
        by (auto simp: child_search.succs_def)
      ultimately show ?thesis by (auto intro: converse_rtrancl_into_rtrancl)
    qed
  qed
qed (simp add: dfs_loop.simps)

lemma dfs_loop_total:
  "wf_graph g \<Longrightarrow> set xs \<subseteq> {m. node_exists g m} \<Longrightarrow> \<exists>p. dfs_loop g fn xs seen = Inr p"
proof (induction g fn xs seen rule: dfs_loop.induct)
  case (2 g fn x xs s)
  show ?case
  proof (cases "x \<in> set s \<or> fn x")
    case True
    with 2 show ?thesis by (auto simp: dfs_loop.simps)
  next
    case False
    from 2 child_ok [of g x] obtain ys where ys: "child_targets g x = Inr ys" "set ys \<subseteq> {m. node_exists g m}" by auto
    with "2.IH"(2) [OF _ _ ys(1)] False "2.prems" obtain found r where
      r: "dfs_loop g fn ys (s @ [x]) = Inr (found, r)" by auto
    with "2.IH"(3) [OF _ _ ys(1) r refl] False "2.prems" ys show ?thesis
      by (cases found) (auto simp: dfs_loop.simps)
  qed
qed (simp add: dfs_loop.simps)

lemma dfs_finds:
  assumes "wf_graph g" "node_exists g n"
  shows "\<exists>found. depthFirstSearch g n fn = Inr found
    \<and> (\<forall>m. found = Some m \<longrightarrow> fn m \<and> (n, m) \<in> (gedges g)\<^sup>*)
    \<and> (found = None \<longrightarrow> (\<forall>m. (n, m) \<in> (gedges g)\<^sup>* \<longrightarrow> \<not> fn m))"
proof -
  obtain found r where r: "dfs_loop g fn [n] [] = Inr (found, r)"
    using dfs_loop_total [OF assms(1), of "[n]" fn "[]"] assms(2) by auto
  then have eq: "depthFirstSearch g n fn = Inr found" by (simp add: depthFirstSearch_def)
  show ?thesis
  proof (cases found)
    case None
    with r dfs_loop_none have c: "children_loop g [n] [] = Inr r" "\<forall>x \<in> set r. \<not> fn x" by fastforce+
    with child_search.visit_reachable [OF c(1)] None eq show ?thesis
      by (auto simp: child_succs [OF assms(1)])
  next
    case (Some m)
    with r dfs_loop_some eq show ?thesis by (fastforce simp: child_succs [OF assms(1)])
  qed
qed

text \<open>
  On a well-formed graph the search never throws. It returns a node exactly when some node
  reachable from the start satisfies the predicate, and what it returns is such a node.
\<close>

theorem depthFirstSearch_finds:
  assumes "wf_graph g" "node_exists g n"
  shows "\<exists>found. depthFirstSearch g n fn = Inr found
    \<and> (\<forall>m. found = Some m \<longrightarrow> fn m \<and> (n, m) \<in> (gedges g)\<^sup>*)
    \<and> (found = None \<longrightarrow> (\<forall>m. (n, m) \<in> (gedges g)\<^sup>* \<longrightarrow> \<not> fn m))"
  by (rule dfs_finds [OF assms])

subsection \<open>Removing a node with reconnection\<close>

definition dashless :: "dgraph \<Rightarrow> bool" where
  "dashless g \<longleftrightarrow> (\<forall>c \<in> set (graph_conns g). CHR ''-'' \<notin> set (n_name (g_from c)))"

lemma set_conns_fold:
  "fold set_conn cs g = g\<lparr>g_conns := fold (\<lambda>c. obj_set (makeKey c) c) cs (g_conns g)\<rparr>"
  by (induction cs arbitrary: g) (simp_all add: set_conn_def)

lemma wf_fold_set_conn:
  "wf_graph g \<Longrightarrow> \<forall>c \<in> set cs. node_exists g (g_from c) \<and> node_exists g (g_to c) \<Longrightarrow> wf_graph (fold set_conn cs g)"
  by (induction cs arbitrary: g) (simp_all add: wf_set_conn)

lemma makeKey_inj:
  assumes "node_exists g (g_from c)" "node_exists g (g_to c)" "node_exists g (g_from d)" "node_exists g (g_to d)"
    and "CHR ''-'' \<notin> set (n_name (g_from c))" "CHR ''-'' \<notin> set (n_name (g_from d))"
    and "makeKey c = makeKey d"
  shows "c = (d :: gconn)"
proof -
  have "n_name (g_from c) = n_name (g_from d)" "n_name (g_to c) = n_name (g_to d)"
    and eq: "g_type c = g_type d" "g_out c = g_out d" "g_in c = g_in d"
    using assms(5-7) by (simp_all add: makeKey_eq_iff)
  with assms(1-4) have "g_from c = g_from d" "g_to c = g_to d"
    by (simp_all add: node_exists_def)
  with eq show ?thesis by (cases c; cases d) simp
qed

lemma conns_fold_set_conn:
  assumes "wf_graph g" and ex: "\<forall>c \<in> set cs. node_exists g (g_from c) \<and> node_exists g (g_to c)"
    and "dashless g" "\<forall>c \<in> set cs. CHR ''-'' \<notin> set (n_name (g_from c))"
  shows "set (graph_conns (fold set_conn cs g)) = set (graph_conns g) \<union> set cs"
proof (intro set_eqI iffI)
  let ?G = "fold set_conn cs g"
  have wf: "wf_graph ?G" using wf_fold_set_conn [OF assms(1) ex] .
  have ok: "wf_obj (g_conns g)" using assms(1) by (simp add: wf_graph_def)
  have lookup: "obj_get (g_conns ?G) k = obj_get (fold (\<lambda>c. obj_set (makeKey c) c) cs (g_conns g)) k" for k
    by (simp add: set_conns_fold)
  fix c
  show "c \<in> set (graph_conns g) \<union> set cs" if "c \<in> set (graph_conns ?G)"
  proof -
    from that have c: "obj_get (g_conns ?G) (makeKey c) = Some c" by (rule wf_graph_key [OF wf])
    show ?thesis
    proof (cases "makeKey c \<in> makeKey ` set cs")
      case True
      with jsobj.lookup_fold_update_in [OF ok True, of "\<lambda>c. c"] c show ?thesis by (auto simp: lookup)
    next
      case False
      with jsobj.lookup_fold_update_notin [OF ok False, of "\<lambda>c. c"] c
      have "obj_get (g_conns g) (makeKey c) = Some c" by (simp add: lookup)
      then show ?thesis using graph_conns_get [OF assms(1)] by blast
    qed
  qed
  show "c \<in> set (graph_conns ?G)" if c: "c \<in> set (graph_conns g) \<union> set cs"
  proof -
    have in_all: "d = c" if "makeKey d = makeKey c" "d \<in> set (graph_conns g) \<union> set cs" for d
      using makeKey_inj [of g d c] that c assms(3,4) ex wf_graph_conn [OF assms(1)]
      by (auto simp: dashless_def)
    have "obj_get (g_conns ?G) (makeKey c) = Some c"
    proof (cases "makeKey c \<in> makeKey ` set cs")
      case True
      with jsobj.lookup_fold_update_in [OF ok True, of "\<lambda>c. c"] in_all show ?thesis by (auto simp: lookup)
    next
      case False
      then have "c \<in> set (graph_conns g)" using c by auto
      with jsobj.lookup_fold_update_notin [OF ok False, of "\<lambda>c. c"] wf_graph_key [OF assms(1)]
      show ?thesis by (simp add: lookup)
    qed
    then show ?thesis using graph_conns_get [OF wf] by blast
  qed
qed

text \<open>Reachability after replacing a node by bridges.\<close>

lemma bypass_trancl:
  assumes "(n, n) \<notin> E"
    and E': "\<And>a b. (a, b) \<in> E' \<longleftrightarrow> a \<noteq> n \<and> b \<noteq> n \<and> ((a, b) \<in> E \<or> (a, n) \<in> E \<and> (n, b) \<in> E)"
    and "a \<noteq> n" "b \<noteq> n"
  shows "(a, b) \<in> E'\<^sup>+ \<longleftrightarrow> (a, b) \<in> E\<^sup>+"
proof
  assume "(a, b) \<in> E'\<^sup>+"
  then show "(a, b) \<in> E\<^sup>+"
    by (induction rule: trancl_induct) (auto simp: E' intro: trancl_into_trancl)
next
  assume "(a, b) \<in> E\<^sup>+"
  then have "if b = n then \<exists>p. (p, n) \<in> E \<and> p \<noteq> n \<and> (a = p \<or> (a, p) \<in> E'\<^sup>+) else (a, b) \<in> E'\<^sup>+"
  proof (induction rule: trancl_induct)
    case (base b)
    then show ?case using assms(3) by (auto simp: E')
  next
    case (step b c)
    show ?case
    proof (cases "b = n")
      case True
      with step assms(1) obtain p where p: "(p, n) \<in> E" "p \<noteq> n" "a = p \<or> (a, p) \<in> E'\<^sup>+" "c \<noteq> n" by auto
      with True step.hyps(2) have "(p, c) \<in> E'" by (auto simp: E')
      with p show ?thesis by (auto intro: trancl_into_trancl)
    next
      case False
      with step have ab: "(a, b) \<in> E'\<^sup>+" by simp
      show ?thesis
      proof (cases "c = n")
        case True
        with ab False step.hyps(2) show ?thesis by auto
      next
        case c: False
        with False step.hyps(2) have "(b, c) \<in> E'" by (auto simp: E')
        with ab c show ?thesis by (auto intro: trancl_into_trancl)
      qed
    qed
  qed
  with assms(4) show "(a, b) \<in> E'\<^sup>+" by simp
qed

lemma bridges_iff:
  "c \<in> set (bridges skip ins outs) \<longleftrightarrow>
    (\<exists>i \<in> set ins. \<exists>o' \<in> set outs. \<not> skip i \<and> \<not> skip o' \<and> c = bridge i o')"
  by (auto simp: bridges_def)

lemma bridge_fields [simp]: "g_from (bridge i o') = g_from i" "g_to (bridge i o') = g_to o'"
  by (simp_all add: bridge_def)

text \<open>What the reconnection leaves, when the node has no connection to itself.\<close>

lemma removeNodeReconnect_result:
  assumes "wf_graph g" "node_exists g n" "(n, n) \<notin> gedges g" "dashless g"
    and "removeNodeReconnect skip n g = Inr (new, g')"
  shows "wf_graph g' \<and> set (graph_conns g') = {c \<in> set (graph_conns g). g_to c \<noteq> n \<and> g_from c \<noteq> n} \<union> set new
    \<and> (\<forall>c. c \<in> set new \<longleftrightarrow> (\<exists>i \<in> set (graph_conns g). \<exists>o' \<in> set (graph_conns g).
        g_to i = n \<and> g_from o' = n \<and> \<not> skip i \<and> \<not> skip o' \<and> c = bridge i o'))
    \<and> (\<forall>m. node_exists g' m \<longleftrightarrow> node_exists g m \<and> m \<noteq> n)"
proof -
  let ?g1 = "fold set_conn new (drop_node n g)"
  have new: "new = bridges skip (filter (\<lambda>c. g_to c = n) (graph_conns g)) (filter (\<lambda>c. g_from c = n) (graph_conns g))"
    and g': "g' = ?g1\<lparr>g_nodes := obj_del (n_name n) (g_nodes ?g1)\<rparr>"
    using assms(2,5) by (auto simp: removeNodeReconnect_def getDirectParentConnections_def
        getDirectChildConnections_def Let_def)
  have set_new: "c \<in> set new \<longleftrightarrow> (\<exists>i \<in> set (graph_conns g). \<exists>o' \<in> set (graph_conns g).
        g_to i = n \<and> g_from o' = n \<and> \<not> skip i \<and> \<not> skip o' \<and> c = bridge i o')" for c
    unfolding new bridges_iff by auto
  have ex: "node_exists (drop_node n g) (g_from c) \<and> node_exists (drop_node n g) (g_to c) \<and> g_from c \<noteq> n \<and> g_to c \<noteq> n
      \<and> CHR ''-'' \<notin> set (n_name (g_from c))" if "c \<in> set new" for c
    using that wf_graph_conn [OF assms(1)] assms(3,4) unfolding set_new by (auto simp: gedges_def dashless_def)
  have wf1: "wf_graph ?g1" using ex wf_fold_set_conn [OF wf_drop [OF assms(1)]] by blast
  have conns1: "set (graph_conns ?g1) = {c \<in> set (graph_conns g). g_to c \<noteq> n \<and> g_from c \<noteq> n} \<union> set new"
    using ex assms(4) by (subst conns_fold_set_conn [OF wf_drop [OF assms(1)]])
      (auto simp: conns_drop dashless_def)
  have ex1: "node_exists ?g1 m = node_exists g m" for m
    by (simp add: set_conns_fold node_exists_def drop_node_def)
  have "wf_graph g'" unfolding g'
    by (rule wf_del_node [OF wf1]) (use ex ex1 assms(2) in \<open>auto simp: conns1\<close>)
  moreover have "set (graph_conns g') = set (graph_conns ?g1)" by (simp add: g' graph_conns_def)
  moreover have "node_exists g' m \<longleftrightarrow> node_exists g m \<and> m \<noteq> n" for m
    unfolding g' node_exists_del ex1 using assms(2) by (auto simp: node_exists_def)
  ultimately show ?thesis using conns1 set_new by blast
qed

text \<open>
  C15: In a well-formed graph in which no node with an outgoing connection has a dash in its name (with dashes the
  keys of different connections can be equal, lemma \<open>makeKey_collision\<close>), removing an existing node that has no
  connection to itself, with reconnection of all its connections, succeeds, keeps the graph well-formed and
  changes nothing in which of the other nodes can be reached from which.
\<close>

theorem removeNodeReconnect_reachability:
  assumes "wf_graph g" "node_exists g n" "(n, n) \<notin> gedges g" "dashless g"
  shows "\<exists>new g'. removeNodeReconnect (\<lambda>c. False) n g = Inr (new, g') \<and> wf_graph g' \<and> \<not> node_exists g' n
    \<and> (\<forall>a b. a \<noteq> n \<longrightarrow> b \<noteq> n \<longrightarrow> (a, b) \<in> (gedges g')\<^sup>+ \<longleftrightarrow> (a, b) \<in> (gedges g)\<^sup>+)"
proof -
  obtain new g' where r: "removeNodeReconnect (\<lambda>c. False) n g = Inr (new, g')"
    using assms(2) by (auto simp: removeNodeReconnect_def getDirectParentConnections_def
        getDirectChildConnections_def Let_def)
  note res = removeNodeReconnect_result [OF assms r]
  have conns: "c \<in> set (graph_conns g') \<longleftrightarrow> c \<in> set (graph_conns g) \<and> g_to c \<noteq> n \<and> g_from c \<noteq> n
      \<or> (\<exists>i \<in> set (graph_conns g). \<exists>o' \<in> set (graph_conns g). g_to i = n \<and> g_from o' = n \<and> c = bridge i o')" for c
    using res by simp
  have edge: "(a, b) \<in> gedges G \<longleftrightarrow> (\<exists>c. c \<in> set (graph_conns G) \<and> g_from c = a \<and> g_to c = b)" for a b G
    by (auto simp: gedges_def)
  have edges: "(a, b) \<in> gedges g' \<longleftrightarrow>
      a \<noteq> n \<and> b \<noteq> n \<and> ((a, b) \<in> gedges g \<or> (a, n) \<in> gedges g \<and> (n, b) \<in> gedges g)" for a b
  proof -
    have br0: "(\<exists>c. (\<exists>i \<in> set (graph_conns g). \<exists>o' \<in> set (graph_conns g). g_to i = n \<and> g_from o' = n \<and> c = bridge i o')
          \<and> g_from c = a \<and> g_to c = b)
        \<longleftrightarrow> (\<exists>i \<in> set (graph_conns g). \<exists>o' \<in> set (graph_conns g). g_to i = n \<and> g_from o' = n
          \<and> g_from (bridge i o') = a \<and> g_to (bridge i o') = b)"
      by blast
    have br: "(\<exists>c. (\<exists>i \<in> set (graph_conns g). \<exists>o' \<in> set (graph_conns g). g_to i = n \<and> g_from o' = n \<and> c = bridge i o')
          \<and> g_from c = a \<and> g_to c = b)
        \<longleftrightarrow> (\<exists>i \<in> set (graph_conns g). \<exists>o' \<in> set (graph_conns g). g_to i = n \<and> g_from o' = n \<and> g_from i = a \<and> g_to o' = b)"
      using br0 by (simp only: bridge_fields)
    have "(a, b) \<in> gedges g' \<longleftrightarrow> (\<exists>c. c \<in> set (graph_conns g) \<and> g_to c \<noteq> n \<and> g_from c \<noteq> n \<and> g_from c = a \<and> g_to c = b)
        \<or> (\<exists>i \<in> set (graph_conns g). \<exists>o' \<in> set (graph_conns g). g_to i = n \<and> g_from o' = n \<and> g_from i = a \<and> g_to o' = b)"
      unfolding edge conns conj_disj_distribR ex_disj_distrib br by (simp only: conj_assoc)
    also have "\<dots> \<longleftrightarrow> a \<noteq> n \<and> b \<noteq> n \<and> ((a, b) \<in> gedges g \<or> (a, n) \<in> gedges g \<and> (n, b) \<in> gedges g)"
      using assms(3) unfolding edge by blast
    finally show ?thesis .
  qed
  show ?thesis
    using r res bypass_trancl [OF assms(3) edges] by blast
qed

text \<open>A connection of the removed node to itself leaves connections without a source node.\<close>

definition self_loop_graph :: dgraph where
  "self_loop_graph = fold set_conn [main_conn ''b'' ''b'', main_conn ''b'' ''c'']
     (addNodes [plain_node ''b'', plain_node ''c''] emptyGraph)"

lemma removeNodeReconnect_self_loop:
  "wf_graph self_loop_graph \<and>
   (case removeNodeReconnect (\<lambda>c. False) (plain_node ''b'') self_loop_graph of
      Inl e \<Rightarrow> False
    | Inr (new, g') \<Rightarrow> getConnections g' None = [main_conn ''b'' ''b'', main_conn ''b'' ''c''] \<and> graph_nodes g' = [plain_node ''c'']
        \<and> getParentConnections g' (plain_node ''c'') = Inl AssertionError)"
  by code_simp

end
