(* ===== verification/SccFacts.thy ===== *)
theory SccFacts
  imports DirectedGraphFacts
begin

section \<open>What getStronglyConnectedComponents promises\<close>

text \<open>
  The invariant of the search: identifiers are distinct and grow along the stack, and a low link
  is the identifier of a node that can be reached. From it follows that every component reported
  is one in which all nodes reach each other, that components do not overlap and that the search
  never throws. A component can be missed, as the last example shows.
\<close>

definition mutual :: "dgraph \<Rightarrow> inode list \<Rightarrow> bool" where
  "mutual g scc \<longleftrightarrow> (\<forall>a \<in> set scc. \<forall>b \<in> set scc. (a, b) \<in> (gedges g)\<^sup>*)"

definition id_less :: "scc_state \<Rightarrow> inode \<Rightarrow> inode \<Rightarrow> bool" where
  "id_less st a b \<longleftrightarrow> (\<exists>i j. obj_get (sc_ids st) a = Some i \<and> obj_get (sc_ids st) b = Some j \<and> i < j)"

definition low_ok :: "dgraph \<Rightarrow> scc_state \<Rightarrow> inode \<Rightarrow> nat \<Rightarrow> bool" where
  "low_ok g st x l \<longleftrightarrow> (\<exists>i y. obj_get (sc_ids st) x = Some i \<and> l \<le> i
     \<and> obj_get (sc_ids st) y = Some l \<and> (x, y) \<in> (gedges g)\<^sup>*)"

definition scc_inv :: "dgraph \<Rightarrow> scc_state \<Rightarrow> bool" where
  "scc_inv g st \<longleftrightarrow>
     (\<forall>x. obj_get (sc_ids st) x \<noteq> None \<longleftrightarrow> x \<in> set (sc_visited st)) \<and>
     (\<forall>x. obj_get (sc_low st) x \<noteq> None \<longleftrightarrow> x \<in> set (sc_visited st)) \<and>
     (\<forall>x i. obj_get (sc_ids st) x = Some i \<longrightarrow> i < sc_id st) \<and>
     (\<forall>x y i. obj_get (sc_ids st) x = Some i \<longrightarrow> obj_get (sc_ids st) y = Some i \<longrightarrow> x = y) \<and>
     (\<forall>x l. obj_get (sc_low st) x = Some l \<longrightarrow> low_ok g st x l) \<and>
     sorted_wrt (id_less st) (sc_stack st) \<and> set (sc_stack st) \<subseteq> set (sc_visited st) \<and>
     distinct (concat (sc_sccs st)) \<and> set (concat (sc_sccs st)) \<subseteq> set (sc_visited st) - set (sc_stack st) \<and>
     (\<forall>scc \<in> set (sc_sccs st). scc \<noteq> [] \<and> mutual g scc)"

lemma scc_invI:
  assumes "\<forall>x. obj_get (sc_ids st) x \<noteq> None \<longleftrightarrow> x \<in> set (sc_visited st)"
    and "\<forall>x. obj_get (sc_low st) x \<noteq> None \<longleftrightarrow> x \<in> set (sc_visited st)"
    and "\<forall>x i. obj_get (sc_ids st) x = Some i \<longrightarrow> i < sc_id st"
    and "\<forall>x y i. obj_get (sc_ids st) x = Some i \<longrightarrow> obj_get (sc_ids st) y = Some i \<longrightarrow> x = y"
    and "set (concat (sc_sccs st)) \<subseteq> set (sc_visited st) - set (sc_stack st)" "distinct (concat (sc_sccs st))"
    and "\<forall>scc \<in> set (sc_sccs st). scc \<noteq> [] \<and> mutual g scc" "set (sc_stack st) \<subseteq> set (sc_visited st)"
    and "sorted_wrt (id_less st) (sc_stack st)"
    and "\<And>x l. obj_get (sc_low st) x = Some l \<Longrightarrow> low_ok g st x l"
  shows "scc_inv g st"
  unfolding scc_inv_def using assms by blast

lemma inv_low: "scc_inv g st \<Longrightarrow> obj_get (sc_low st) x = Some l \<Longrightarrow> low_ok g st x l"
  unfolding scc_inv_def by blast

lemma inv_id_inj: "scc_inv g st \<Longrightarrow> obj_get (sc_ids st) x = Some i \<Longrightarrow> obj_get (sc_ids st) y = Some i \<Longrightarrow> x = y"
  unfolding scc_inv_def by blast

lemma inv_visited:
  "scc_inv g st \<Longrightarrow> x \<in> set (sc_visited st) \<Longrightarrow>
   \<exists>i l. obj_get (sc_ids st) x = Some i \<and> obj_get (sc_low st) x = Some l"
  unfolding scc_inv_def by (metis not_None_eq)

lemma inv_stack: "scc_inv g st \<Longrightarrow> x \<in> set (sc_stack st) \<Longrightarrow> x \<in> set (sc_visited st)"
  unfolding scc_inv_def by blast

lemma scc_inv_start: "scc_inv g scc_start"
  by (simp add: scc_inv_def scc_start_def)

lemma id_less_mono:
  "(\<And>x. x \<in> set xs \<Longrightarrow> obj_get (sc_ids st') x = obj_get (sc_ids st) x) \<Longrightarrow>
   sorted_wrt (id_less st) xs \<Longrightarrow> sorted_wrt (id_less st') xs"
  by (erule sorted_wrt_mono_rel [rotated]) (auto simp: id_less_def)

lemma scc_inv_enter:
  assumes "scc_inv g st" "x \<notin> set (sc_visited st)"
  shows "scc_inv g (scc_enter x st)"
proof -
  let ?st = "scc_enter x st"
  have ids: "obj_get (sc_ids ?st) y = (if y = x then Some (sc_id st) else obj_get (sc_ids st) y)"
    and low: "obj_get (sc_low ?st) y = (if y = x then Some (sc_id st) else obj_get (sc_low st) y)" for y
    by (simp_all add: scc_enter_def js_simps)
  have fresh: "obj_get (sc_ids st) x = None" "\<And>y i. obj_get (sc_ids st) y = Some i \<Longrightarrow> i < sc_id st"
    "\<And>y. y \<in> set (sc_visited st) \<Longrightarrow> \<exists>i. obj_get (sc_ids st) y = Some i"
    using assms by (auto simp: scc_inv_def)
  have stack: "set (sc_stack st) \<subseteq> set (sc_visited st)" using assms(1) by (simp add: scc_inv_def)
  have "sorted_wrt (id_less ?st) (sc_stack st)"
    by (rule id_less_mono [of _ _ st]) (use assms stack in \<open>auto simp: scc_inv_def ids\<close>)
  moreover have "id_less ?st y x" if "y \<in> set (sc_stack st)" for y
  proof -
    from that stack have y: "y \<in> set (sc_visited st)" by blast
    with fresh(3) obtain i where "obj_get (sc_ids st) y = Some i" by blast
    with y fresh(2) assms(2) show ?thesis unfolding id_less_def ids by auto
  qed
  ultimately have "sorted_wrt (id_less ?st) (sc_stack ?st)"
    by (simp add: scc_enter_def sorted_wrt_append)
  moreover have "low_ok g ?st y l" if "obj_get (sc_low ?st) y = Some l" for y l
  proof (cases "y = x")
    case True
    with that show ?thesis by (auto simp: low low_ok_def ids)
  next
    case False
    with that assms(1) have "low_ok g st y l" by (simp add: low scc_inv_def)
    then obtain i z where "obj_get (sc_ids st) y = Some i" "l \<le> i" "obj_get (sc_ids st) z = Some l" "(y, z) \<in> (gedges g)\<^sup>*"
      by (auto simp: low_ok_def)
    moreover from this fresh(1) have "z \<noteq> x" by auto
    ultimately show ?thesis unfolding low_ok_def ids using False by auto
  qed
  moreover have "\<forall>y. obj_get (sc_ids ?st) y \<noteq> None \<longleftrightarrow> y \<in> set (sc_visited ?st)"
    "\<forall>y. obj_get (sc_low ?st) y \<noteq> None \<longleftrightarrow> y \<in> set (sc_visited ?st)"
    using assms(1) by (auto simp: scc_inv_def ids low)
  moreover have "\<forall>y i. obj_get (sc_ids ?st) y = Some i \<longrightarrow> i < sc_id ?st"
    using fresh(2) unfolding ids by (auto simp: scc_enter_def less_Suc_eq split: if_splits)
  moreover have "\<forall>y z i. obj_get (sc_ids ?st) y = Some i \<longrightarrow> obj_get (sc_ids ?st) z = Some i \<longrightarrow> y = z"
    using fresh(2) assms(1) unfolding ids scc_inv_def by (metis less_irrefl option.inject)
  moreover have "set (concat (sc_sccs ?st)) \<subseteq> set (sc_visited ?st) - set (sc_stack ?st)"
    "distinct (concat (sc_sccs ?st))" "\<forall>scc \<in> set (sc_sccs ?st). scc \<noteq> [] \<and> mutual g scc"
    "set (sc_stack ?st) \<subseteq> set (sc_visited ?st)"
    using assms stack by (auto simp: scc_inv_def scc_enter_def)
  ultimately show ?thesis by (intro scc_invI)
qed

lemma scc_inv_low:
  assumes "scc_inv g st" "n \<in> set (sc_visited st)" "low_ok g st n l"
  shows "scc_inv g (st\<lparr>sc_low := obj_set n l (sc_low st)\<rparr>)"
proof -
  have "id_less (st\<lparr>sc_low := L\<rparr>) = id_less st" "low_ok g (st\<lparr>sc_low := L\<rparr>) = low_ok g st" for L
    by (simp_all add: fun_eq_iff id_less_def low_ok_def)
  with assms show ?thesis by (simp add: scc_inv_def js_simps)
qed

lemma low_ok_step: "low_ok g st c l \<Longrightarrow> (n, c) \<in> gedges g \<Longrightarrow> obj_get (sc_ids st) n = Some i \<Longrightarrow> l \<le> i \<Longrightarrow> low_ok g st n l"
  unfolding low_ok_def by (metis converse_rtrancl_into_rtrancl)

lemma scc_inv_update:
  assumes "scc_inv g st" "n \<in> set (sc_visited st)" "(n, c) \<in> gedges g"
  shows "\<exists>st'. scc_update n c st = Inr st' \<and> scc_inv g st' \<and> sc_stack st' = sc_stack st
    \<and> sc_ids st' = sc_ids st \<and> sc_visited st' = sc_visited st"
proof (cases "c \<in> set (sc_stack st)")
  case False
  then have "scc_update n c st = Inr st" by (simp add: scc_update_def)
  with assms(1) show ?thesis by blast
next
  case True
  then have "c \<in> set (sc_visited st)" by (rule inv_stack [OF assms(1)])
  with inv_visited [OF assms(1)] assms(2) obtain lc ln where
    low: "obj_get (sc_low st) c = Some lc" "obj_get (sc_low st) n = Some ln" by blast
  have ok: "low_ok g st c lc" "low_ok g st n ln"
    using inv_low [OF assms(1)] low by simp_all
  then obtain i where i: "obj_get (sc_ids st) n = Some i" "ln \<le> i" unfolding low_ok_def by blast
  have "low_ok g st n (min lc ln)"
  proof (cases "lc \<le> ln")
    case True
    with low_ok_step [OF ok(1) assms(3) i(1)] i(2) show ?thesis by (simp add: min_def)
  next
    case False
    with ok(2) show ?thesis by (simp add: min_def)
  qed
  from scc_inv_low [OF assms(1,2) this]
  have "scc_inv g (st\<lparr>sc_low := obj_set n (min lc ln) (sc_low st)\<rparr>)" .
  moreover have "scc_update n c st = Inr (st\<lparr>sc_low := obj_set n (min lc ln) (sc_low st)\<rparr>)"
    unfolding scc_update_def low if_P [OF True] by simp
  ultimately show ?thesis
    by (intro exI [of _ "st\<lparr>sc_low := obj_set n (min lc ln) (sc_low st)\<rparr>"] conjI) simp_all
qed

text \<open>What popping leaves and takes, when nothing below the node has its low link.\<close>

lemma scc_pop_split:
  assumes "stack = S @ X" "\<forall>y \<in> set S. obj_get low y \<noteq> Some i" "scc_pop i low stack = (stack', scc)"
  shows "\<exists>K T. X = K @ T \<and> stack' = S @ K \<and> set scc = set T \<and> (\<forall>y \<in> set T. obj_get low y = Some i) \<and> distinct scc"
proof -
  let ?P = "\<lambda>n. obj_get low n = Some i"
  have "takeWhile ?P (rev S) = []"
    using assms(2) by (cases "rev S") (auto simp: in_set_conv_decomp dest: arg_cong [of _ _ rev])
  then have tw: "takeWhile ?P (rev X @ rev S) = takeWhile ?P (rev X)"
    by (auto simp: takeWhile_append takeWhile_eq_all_conv [THEN iffD2])
  have "dropWhile ?P (rev X @ rev S) = dropWhile ?P (rev X) @ rev S"
    using tw takeWhile_dropWhile_id [of ?P "rev X @ rev S"] takeWhile_dropWhile_id [of ?P "rev X"]
    by (metis append.assoc same_append_eq)
  with tw assms(1,3) have "stack' = S @ rev (dropWhile ?P (rev X))" "scc = mk_set (takeWhile ?P (rev X))"
    by (auto simp: scc_pop_def)
  moreover have "X = rev (dropWhile ?P (rev X)) @ rev (takeWhile ?P (rev X))"
    by (metis rev_append rev_rev_ident takeWhile_dropWhile_id)
  ultimately show ?thesis
    by (intro exI [of _ "rev (dropWhile ?P (rev X))"] exI [of _ "rev (takeWhile ?P (rev X))"])
      (auto dest: set_takeWhileD)
qed

lemma scc_inv_close:
  assumes inv: "scc_inv g st" and stack: "sc_stack st = S @ x # ext"
    and reach: "\<forall>y \<in> set ext. (x, y) \<in> (gedges g)\<^sup>*"
  shows "\<exists>st'. scc_close x st = Inr st' \<and> scc_inv g st' \<and> sc_ids st' = sc_ids st \<and> sc_visited st' = sc_visited st
    \<and> (\<exists>K T. x # ext = K @ T \<and> sc_stack st' = S @ K)"
proof -
  have "x \<in> set (sc_visited st)" using inv_stack [OF inv] stack by simp
  with inv_visited [OF inv] obtain i l where il: "obj_get (sc_ids st) x = Some i" "obj_get (sc_low st) x = Some l"
    by blast
  show ?thesis
  proof (cases "i = l")
    case False
    then have "scc_close x st = Inr st" using il by (simp add: scc_close_def)
    with inv stack show ?thesis by (metis append_Nil2)
  next
    case True
    obtain stack' scc where pop: "scc_pop i (sc_low st) (sc_stack st) = (stack', scc)" by fastforce
    have below: "obj_get (sc_low st) y \<noteq> Some i" if "y \<in> set S" for y
    proof
      assume "obj_get (sc_low st) y = Some i"
      with inv_low [OF inv] obtain k where "obj_get (sc_ids st) y = Some k" "i \<le> k"
        unfolding low_ok_def by blast
      moreover have "id_less st y x" using inv that unfolding scc_inv_def stack by (auto simp: sorted_wrt_append)
      ultimately show False using il(1) by (auto simp: id_less_def)
    qed
    then obtain K T where KT: "x # ext = K @ T" "stack' = S @ K" "set scc = set T"
      "\<forall>y \<in> set T. obj_get (sc_low st) y = Some i" "distinct scc"
      using scc_pop_split [OF stack _ pop] by blast
    have to_x: "(y, x) \<in> (gedges g)\<^sup>*" if "y \<in> set T" for y
    proof -
      from that KT(4) inv_low [OF inv] obtain z where "obj_get (sc_ids st) z = Some i" "(y, z) \<in> (gedges g)\<^sup>*"
        unfolding low_ok_def by blast
      moreover from this il(1) inv_id_inj [OF inv] have "z = x" by blast
      ultimately show ?thesis by simp
    qed
    have from_x: "(x, y) \<in> (gedges g)\<^sup>*" if "y \<in> set T" for y
    proof -
      have "y \<in> insert x (set ext)" using that KT(1) by (metis Un_iff list.simps(15) set_append)
      with reach show ?thesis by auto
    qed
    have mut: "mutual g scc" unfolding mutual_def KT(3)
      using to_x from_x by (blast intro: rtrancl_trans)
    let ?st = "st\<lparr>sc_stack := stack', sc_sccs := (if scc \<noteq> [] then sc_sccs st @ [scc] else sc_sccs st)\<rparr>"
    have split: "sc_stack st = stack' @ T" using stack KT(1,2) by simp
    have sorted: "sorted_wrt (id_less st) (stack' @ T)" using inv split by (simp add: scc_inv_def)
    have disj: "set stack' \<inter> set T = {}"
    proof -
      have "\<forall>a \<in> set stack'. \<forall>b \<in> set T. id_less st a b" using sorted by (simp add: sorted_wrt_append)
      moreover have "\<not> id_less st a a" for a by (auto simp: id_less_def)
      ultimately show ?thesis by auto
    qed
    have same: "id_less ?st = id_less st" "low_ok g ?st = low_ok g st"
      by (simp_all add: fun_eq_iff id_less_def low_ok_def)
    have "scc_inv g ?st"
    proof (rule scc_invI)
      have vis: "set (concat (sc_sccs st)) \<subseteq> set (sc_visited st) - set (sc_stack st)"
        "set (sc_stack st) \<subseteq> set (sc_visited st)" "distinct (concat (sc_sccs st))"
        using inv unfolding scc_inv_def by blast+
      then show "set (concat (sc_sccs ?st)) \<subseteq> set (sc_visited ?st) - set (sc_stack ?st)"
        "set (sc_stack ?st) \<subseteq> set (sc_visited ?st)" "distinct (concat (sc_sccs ?st))"
        using disj KT(3,5) unfolding split by auto
      show "\<forall>scc \<in> set (sc_sccs ?st). scc \<noteq> [] \<and> mutual g scc"
        using inv mut by (auto simp: scc_inv_def)
      show "sorted_wrt (id_less ?st) (sc_stack ?st)" using sorted by (simp add: same sorted_wrt_append)
      show "low_ok g ?st y l" if "obj_get (sc_low ?st) y = Some l" for y l
        using inv_low [OF inv] that by (simp add: same)
    qed (use inv in \<open>simp_all add: scc_inv_def\<close>)
    moreover have "scc_close x st = Inr ?st" using il True pop by (simp add: scc_close_def)
    ultimately show ?thesis using KT(1,2) by (intro exI [of _ ?st]) auto
  qed
qed

text \<open>What following a list of nodes keeps and adds.\<close>

definition scc_ext :: "dgraph \<Rightarrow> inode list \<Rightarrow> scc_state \<Rightarrow> scc_state \<Rightarrow> bool" where
  "scc_ext g xs st st' \<longleftrightarrow> set (sc_visited st) \<subseteq> set (sc_visited st')
     \<and> (\<exists>ext. sc_stack st' = sc_stack st @ ext \<and> (\<forall>y \<in> set ext. \<exists>x \<in> set xs. (x, y) \<in> (gedges g)\<^sup>*))"

lemma scc_ext_trans:
  "scc_ext g xs st st1 \<Longrightarrow> scc_ext g ys st1 st2 \<Longrightarrow> set xs \<union> set ys \<subseteq> set zs \<Longrightarrow> scc_ext g zs st st2"
  unfolding scc_ext_def by fastforce

lemma scc_ext_refl: "sc_visited st' = sc_visited st \<Longrightarrow> sc_stack st' = sc_stack st \<Longrightarrow> scc_ext g [] st st'"
  by (simp add: scc_ext_def)

lemma scc_inv_return:
  assumes "scc_inv g st" "\<forall>n. p = Some n \<longrightarrow> n \<in> set (sc_visited st) \<and> (n, x) \<in> gedges g"
  shows "\<exists>st'. scc_return p x st = Inr st' \<and> scc_inv g st' \<and> scc_ext g [] st st'"
proof (cases p)
  case None
  with assms(1) show ?thesis by (simp add: scc_return_def scc_ext_refl)
next
  case (Some n)
  with scc_inv_update [OF assms(1), of n x] assms(2) show ?thesis
    by (auto simp: scc_return_def intro: scc_ext_refl)
qed

lemma followNodes_inv:
  "wf_graph g \<Longrightarrow> scc_inv g st \<Longrightarrow> \<forall>x \<in> set xs. node_exists g x \<Longrightarrow>
   \<forall>n. p = Some n \<longrightarrow> n \<in> set (sc_visited st) \<and> (\<forall>x \<in> set xs. (n, x) \<in> gedges g) \<Longrightarrow>
   \<exists>st'. followNodes g p xs st = Inr st' \<and> scc_inv g st' \<and> scc_ext g xs st st'"
proof (induction g p xs st rule: followNodes.induct)
  case (1 g p st)
  then show ?case by (simp add: followNodes.simps scc_ext_refl)
next
  case (2 g p x xs st)
  have rest: "\<forall>n. p = Some n \<longrightarrow> n \<in> set (sc_visited st1) \<and> (\<forall>x \<in> set xs. (n, x) \<in> gedges g)"
    if "scc_ext g zs st st1" for st1 zs
    using that "2.prems"(4) by (auto simp: scc_ext_def)
  have ret: "\<forall>n. p = Some n \<longrightarrow> n \<in> set (sc_visited st1) \<and> (n, x) \<in> gedges g"
    if "scc_ext g zs st st1" for st1 zs
    using that "2.prems"(4) by (auto simp: scc_ext_def)
  have refl: "scc_ext g [] st st" by (simp add: scc_ext_refl)
  show ?case
  proof (cases "x \<in> set (sc_visited st)")
    case True
    from scc_inv_return [OF "2.prems"(2) ret [OF refl]] obtain st1 where
      1: "scc_return p x st = Inr st1" "scc_inv g st1" "scc_ext g [] st st1" by blast
    from "2.IH"(1) [OF True 1(1) "2.prems"(1) 1(2) _ rest [OF 1(3)]] "2.prems"(3) obtain st2 where
      2: "followNodes g p xs st1 = Inr st2" "scc_inv g st2" "scc_ext g xs st1 st2" by auto
    have "scc_ext g (x # xs) st st2" by (rule scc_ext_trans [OF 1(3) 2(3)]) auto
    with True 1(1) 2(1,2) show ?thesis by (simp add: followNodes.simps)
  next
    case False
    from "2.prems"(3) child_ok [OF "2.prems"(1), of x] obtain ys where
      ys: "child_targets g x = Inr ys" "\<forall>y \<in> set ys. node_exists g y" "\<forall>y \<in> set ys. (x, y) \<in> gedges g" by auto
    have inv0: "scc_inv g (scc_enter x st)" using scc_inv_enter [OF "2.prems"(2) False] .
    from "2.IH"(2) [OF False ys(1) "2.prems"(1) inv0 ys(2)] ys(3) obtain st1 where
      1: "followNodes g (Some x) ys (scc_enter x st) = Inr st1" "scc_inv g st1" "scc_ext g ys (scc_enter x st) st1"
      by auto
    then obtain ext where ext: "sc_stack st1 = sc_stack st @ x # ext"
      "\<forall>y \<in> set ext. \<exists>x \<in> set ys. (x, y) \<in> (gedges g)\<^sup>*"
      by (auto simp: scc_ext_def scc_enter_def)
    then have reach: "\<forall>y \<in> set ext. (x, y) \<in> (gedges g)\<^sup>*"
      using ys(3) by (meson converse_rtrancl_into_rtrancl)
    from scc_inv_close [OF 1(2) ext(1) reach] obtain st2 K T where
      2: "scc_close x st1 = Inr st2" "scc_inv g st2" "sc_visited st2 = sc_visited st1"
      "x # ext = K @ T" "sc_stack st2 = sc_stack st @ K" by blast
    have "set K \<subseteq> insert x (set ext)" using 2(4) by (metis Un_upper1 list.simps(15) set_append)
    with 2(3,5) 1(3) reach have ext2: "scc_ext g [x] st st2"
      by (auto simp: scc_ext_def)
    from scc_inv_return [OF 2(2) ret [OF ext2]] obtain st3 where
      3: "scc_return p x st2 = Inr st3" "scc_inv g st3" "scc_ext g [] st2 st3" by blast
    have ext3: "scc_ext g [x] st st3" by (rule scc_ext_trans [OF ext2 3(3)]) simp
    have leave: "bindE (scc_close x st1) (scc_return p x) = Inr st3" using 2(1) 3(1) by simp
    from "2.IH"(3) [OF False ys(1) 1(1) leave "2.prems"(1) 3(2) _ rest [OF ext3]] "2.prems"(3) obtain st4 where
      4: "followNodes g p xs st3 = Inr st4" "scc_inv g st4" "scc_ext g xs st3 st4" by auto
    have "scc_ext g (x # xs) st st4" by (rule scc_ext_trans [OF ext3 4(3)]) auto
    with False ys(1) 1(1) leave 4(1,2) show ?thesis by (simp add: followNodes.simps)
  qed
qed

lemma scc_components:
  assumes "wf_graph g"
  shows "\<exists>sccs. getStronglyConnectedComponents g = Inr sccs \<and> distinct (concat sccs)
    \<and> (\<forall>scc \<in> set sccs. scc \<noteq> [] \<and> (\<forall>a \<in> set scc. \<forall>b \<in> set scc. (a, b) \<in> (gedges g)\<^sup>*))"
proof -
  have "\<forall>x \<in> set (graph_nodes g). node_exists g x"
    using graph_nodes_exists [OF assms] by simp
  from followNodes_inv [OF assms scc_inv_start this, of None] obtain st where
    "followNodes g None (graph_nodes g) scc_start = Inr st" "scc_inv g st" by auto
  then show ?thesis
    by (auto simp: getStronglyConnectedComponents_def scc_inv_def mutual_def)
qed

text \<open>
  C16: On a well-formed graph the search for strongly connected components never throws; every
  component it returns is a non-empty set of nodes that all reach each other, and no node is in
  two components.
\<close>

theorem getStronglyConnectedComponents_sound:
  assumes "wf_graph g"
  shows "\<exists>sccs. getStronglyConnectedComponents g = Inr sccs \<and> distinct (concat sccs)
    \<and> (\<forall>scc \<in> set sccs. scc \<noteq> [] \<and> (\<forall>a \<in> set scc. \<forall>b \<in> set scc. (a, b) \<in> (gedges g)\<^sup>*))"
  by (rule scc_components [OF assms])

text \<open>
  A component is missed when two cycles share a node: \<open>a \<rightarrow> b\<close>, \<open>b \<rightarrow> c\<close>, \<open>b \<rightarrow> a\<close> and \<open>c \<rightarrow> b\<close>. The
  low link of \<open>c\<close> is the identifier of \<open>b\<close> and stops the popping at once.
\<close>

definition nested_cycles :: dgraph where
  "nested_cycles = fold set_conn
     [main_conn ''a'' ''b'', main_conn ''b'' ''c'', main_conn ''b'' ''a'', main_conn ''c'' ''b'']
     (addNodes [plain_node ''a'', plain_node ''b'', plain_node ''c''] emptyGraph)"

lemma getStronglyConnectedComponents_missed:
  "getStronglyConnectedComponents nested_cycles = Inr []"
  by code_simp

end
