(* ===== verification/GraphConversions.thy ===== *)
theory GraphConversions
  imports DirectedGraphFacts
begin

section \<open>Between workflows and graphs\<close>

text \<open>
  \<open>fromWorkflow\<close> carries every connection over, \<open>toIConnections\<close> brings every connection back
  unless some node has outgoing connections of two types, when it throws.
\<close>

subsection \<open>toIConnections\<close>

definition targets_conn :: "gconn \<Rightarrow> conn" where
  "targets_conn d = \<lparr>c_node = n_name (g_to d), c_type = g_type d, c_index = g_in d\<rparr>"

abbreviation from_name :: "gconn \<Rightarrow> string" where
  "from_name d \<equiv> n_name (g_from d)"

definition one_type :: "gconn list \<Rightarrow> bool" where
  "one_type ds \<longleftrightarrow> (\<forall>c \<in> set ds. \<forall>d \<in> set ds. from_name c = from_name d \<longrightarrow> g_type c = g_type d)"

lemma one_typeD: "one_type ds \<Longrightarrow> c \<in> set ds \<Longrightarrow> d \<in> set ds \<Longrightarrow> from_name c = from_name d \<Longrightarrow> g_type c = g_type d"
  unfolding one_type_def by blast

lemma one_type_snoc: "one_type (ds @ [e]) \<longleftrightarrow> one_type ds \<and> (\<forall>d \<in> set ds. from_name d = from_name e \<longrightarrow> g_type d = g_type e)"
proof -
  have "one_type ds \<and> (\<forall>d \<in> set ds. from_name d = from_name e \<longrightarrow> g_type d = g_type e)" if "one_type (ds @ [e])"
  proof -
    have "e \<in> set (ds @ [e])" "set ds \<subseteq> set (ds @ [e])" by auto
    with that show ?thesis unfolding one_type_def by blast
  qed
  moreover have "one_type (ds @ [e])" if "one_type ds" "\<forall>d \<in> set ds. from_name d = from_name e \<longrightarrow> g_type d = g_type e"
    unfolding one_type_def
  proof (intro ballI impI)
    fix c d assume cd: "c \<in> set (ds @ [e])" "d \<in> set (ds @ [e])" and eq: "from_name c = from_name d"
    then have "c \<in> set ds \<or> c = e" "d \<in> set ds \<or> d = e" by auto
    with eq that(2) one_typeD [OF that(1)] show "g_type c = g_type d" by metis
  qed
  ultimately show ?thesis by blast
qed

lemma one_type_prefix: "one_type (ds @ es) \<Longrightarrow> one_type ds"
  by (simp add: one_type_def)

text \<open>What the result holds after the connections \<open>ds\<close>.\<close>

definition slots_hold :: "gconn list \<Rightarrow> string \<Rightarrow> node_inputs \<Rightarrow> bool" where
  "slots_hold ds n slots \<longleftrightarrow> (\<forall>i c. i < length slots \<and> c \<in> set (opt_list (slots ! i)) \<longleftrightarrow>
     (\<exists>d \<in> set ds. from_name d = n \<and> g_out d = i \<and> c = targets_conn d))"

definition iconns_inv :: "gconn list \<Rightarrow> conns \<Rightarrow> bool" where
  "iconns_inv ds R \<longleftrightarrow> (\<forall>n. case obj_get R n of
       None \<Rightarrow> \<forall>d \<in> set ds. from_name d \<noteq> n
     | Some byType \<Rightarrow> \<exists>t slots. byType = [(t, slots)] \<and> (\<exists>d \<in> set ds. from_name d = n)
         \<and> (\<forall>d \<in> set ds. from_name d = n \<longrightarrow> g_type d = t) \<and> slots_hold ds n slots)"

lemma iconns_inv_None: "iconns_inv ds R \<Longrightarrow> obj_get R n = None \<Longrightarrow> \<forall>d \<in> set ds. from_name d \<noteq> n"
  unfolding iconns_inv_def by (auto dest!: spec [of _ n])

lemma iconns_inv_Some:
  assumes "iconns_inv ds R" "obj_get R n = Some byType"
  obtains t slots e where "byType = [(t, slots)]" "e \<in> set ds" "from_name e = n"
    "\<And>d. d \<in> set ds \<Longrightarrow> from_name d = n \<Longrightarrow> g_type d = t" "slots_hold ds n slots"
  using spec [OF assms(1) [unfolded iconns_inv_def], of n] assms(2) by auto

lemma padded_slots:
  assumes "padded = slots @ replicate (Suc k - length slots) None"
  shows "i < length (padded[k := Some (opt_list (padded ! k) @ [x])])
      \<and> c \<in> set (opt_list (padded[k := Some (opt_list (padded ! k) @ [x])] ! i))
    \<longleftrightarrow> (i < length slots \<and> c \<in> set (opt_list (slots ! i))) \<or> (i = k \<and> c = x)"
  using assms by (auto simp: nth_list_update nth_append split: if_splits)

lemma slots_hold_push:
  assumes "slots_hold ds n slots" "from_name d = n" "padded = slots @ replicate (Suc (g_out d) - length slots) None"
  shows "slots_hold (ds @ [d]) n (padded[g_out d := Some (opt_list (padded ! g_out d) @ [targets_conn d])])"
  using assms(1,2) unfolding slots_hold_def padded_slots [OF assms(3)] by auto

lemma push_iconnection_ok:
  assumes "iconns_inv ds R" "one_type (ds @ [d])"
  shows "\<exists>R'. push_iconnection d R = Inr R' \<and> iconns_inv (ds @ [d]) R'"
proof -
  obtain slots where byType: "(case obj_get R (from_name d) of None \<Rightarrow> [(g_type d, [])] | Some b \<Rightarrow> b) = [(g_type d, slots)]"
    and hold: "slots_hold ds (from_name d) slots"
  proof (cases "obj_get R (from_name d)")
    case None
    with iconns_inv_None [OF assms(1)] have "slots_hold ds (from_name d) []" by (auto simp: slots_hold_def)
    with None that show thesis by simp
  next
    case (Some byType)
    from iconns_inv_Some [OF assms(1) this] obtain t slots e where
      *: "byType = [(t, slots)]" "e \<in> set ds" "from_name e = from_name d"
        "\<And>d'. d' \<in> set ds \<Longrightarrow> from_name d' = from_name d \<Longrightarrow> g_type d' = t"
        "slots_hold ds (from_name d) slots" by blast
    moreover from *(2,3) *(4) [OF *(2,3)] assms(2) have "t = g_type d" by (simp add: one_type_snoc)
    ultimately show thesis using that Some by simp
  qed
  define padded where "padded = slots @ replicate (Suc (g_out d) - length slots) None"
  define slots' where "slots' = padded[g_out d := Some (opt_list (padded ! g_out d) @ [targets_conn d])]"
  let ?R = "obj_set (from_name d) [(g_type d, slots')] R"
  have "push_iconnection d R = Inr ?R"
    by (simp add: push_iconnection_def byType Let_def padded_def slots'_def targets_conn_def)
  moreover have "iconns_inv (ds @ [d]) ?R"
    unfolding iconns_inv_def
  proof (intro allI)
    fix n
    show "case obj_get ?R n of None \<Rightarrow> \<forall>e \<in> set (ds @ [d]). from_name e \<noteq> n
     | Some byType \<Rightarrow> \<exists>t slots. byType = [(t, slots)] \<and> (\<exists>e \<in> set (ds @ [d]). from_name e = n)
         \<and> (\<forall>e \<in> set (ds @ [d]). from_name e = n \<longrightarrow> g_type e = t) \<and> slots_hold (ds @ [d]) n slots"
    proof (cases "n = from_name d")
      case True
      have "slots_hold (ds @ [d]) n slots'" unfolding True slots'_def
        by (rule slots_hold_push [OF hold refl padded_def])
      moreover have "\<forall>e \<in> set (ds @ [d]). from_name e = n \<longrightarrow> g_type e = g_type d"
        using assms(2) unfolding True by (simp add: one_type_snoc)
      moreover have "obj_get ?R n = Some [(g_type d, slots')]" by (simp add: True js_simps)
      ultimately show ?thesis by (simp add: True)
    next
      case False
      then have "slots_hold (ds @ [d]) n s = slots_hold ds n s" for s
        by (auto simp: slots_hold_def)
      with False spec [OF assms(1) [unfolded iconns_inv_def], of n] show ?thesis
        by (simp add: js_simps split: option.splits)
    qed
  qed
  ultimately show ?thesis by blast
qed

lemma push_iconnection_error:
  assumes "iconns_inv ds R" "e \<in> set ds" "from_name e = from_name d" "g_type e \<noteq> g_type d"
  shows "push_iconnection d R = Inl TypeError"
proof (cases "obj_get R (from_name d)")
  case None
  with iconns_inv_None [OF assms(1)] assms(2,3) show ?thesis by blast
next
  case (Some byType)
  from iconns_inv_Some [OF assms(1) this] assms(2-4) obtain t slots where
    "byType = [(t, slots)]" "t \<noteq> g_type d" by metis
  with Some show ?thesis by (simp add: push_iconnection_def)
qed

lemma iconns_inv_Nil: "iconns_inv [] []"
  by (simp add: iconns_inv_def)

lemma push_iconnections:
  "iconns_inv ds R \<Longrightarrow> one_type ds \<Longrightarrow>
   (if one_type (ds @ es) then \<exists>R'. foldE push_iconnection es R = Inr R' \<and> iconns_inv (ds @ es) R'
    else foldE push_iconnection es R = Inl TypeError)"
proof (induction es arbitrary: ds R)
  case (Cons e es)
  show ?case
  proof (cases "one_type (ds @ [e])")
    case True
    from push_iconnection_ok [OF Cons.prems(1) this] obtain R' where
      R': "push_iconnection e R = Inr R'" "iconns_inv (ds @ [e]) R'" by blast
    with Cons.IH [OF R'(2) True] show ?thesis by (auto split: if_splits)
  next
    case False
    with Cons.prems(2) obtain d where "d \<in> set ds" "from_name d = from_name e" "g_type d \<noteq> g_type e"
      by (auto simp: one_type_snoc)
    with push_iconnection_error [OF Cons.prems(1)] have "push_iconnection e R = Inl TypeError" by blast
    moreover from False have "\<not> one_type (ds @ e # es)" using one_type_prefix [of "ds @ [e]" es] by auto
    ultimately show ?thesis by simp
  qed
qed simp

lemma iconns_inv_conn_at:
  assumes "iconns_inv ds R"
  shows "conn_at R n t i c \<longleftrightarrow> (\<exists>d \<in> set ds. from_name d = n \<and> g_type d = t \<and> g_out d = i \<and> c = targets_conn d)"
proof (cases "obj_get R n")
  case None
  with iconns_inv_None [OF assms None] show ?thesis by (auto simp: conn_at_def)
next
  case (Some byType)
  from iconns_inv_Some [OF assms this] obtain t' slots where *: "byType = [(t', slots)]"
    "\<And>d. d \<in> set ds \<Longrightarrow> from_name d = n \<Longrightarrow> g_type d = t'" "slots_hold ds n slots" by metis
  have "conn_at R n t i c \<longleftrightarrow> t = t' \<and> i < length slots \<and> c \<in> set (opt_list (slots ! i))"
    using Some *(1) by (auto simp: conn_at_def)
  also have "\<dots> \<longleftrightarrow> t = t' \<and> (\<exists>d \<in> set ds. from_name d = n \<and> g_out d = i \<and> c = targets_conn d)"
    using *(3) unfolding slots_hold_def by blast
  also have "\<dots> \<longleftrightarrow> (\<exists>d \<in> set ds. from_name d = n \<and> g_type d = t \<and> g_out d = i \<and> c = targets_conn d)"
    using *(2) by blast
  finally show ?thesis .
qed

text \<open>
  Converting a graph to connections succeeds exactly when no node has outgoing connections of
  two types, and then holds exactly the graph's connections; otherwise it throws a TypeError.
\<close>

theorem toIConnections_result:
  "if one_type (graph_conns g)
   then \<exists>C. toIConnections g = Inr C \<and> (\<forall>n t i c. conn_at C n t i c \<longleftrightarrow>
      (\<exists>d \<in> set (graph_conns g). from_name d = n \<and> g_type d = t \<and> g_out d = i \<and> c = targets_conn d))
   else toIConnections g = Inl TypeError"
proof (cases "one_type (graph_conns g)")
  case True
  with push_iconnections [OF iconns_inv_Nil, of "graph_conns g"] obtain C where
    C: "toIConnections g = Inr C" "iconns_inv (graph_conns g) C"
    by (auto simp: toIConnections_def one_type_def [of "[]"])
  have "\<exists>C. toIConnections g = Inr C \<and> (\<forall>n t i c. conn_at C n t i c \<longleftrightarrow>
      (\<exists>d \<in> set (graph_conns g). from_name d = n \<and> g_type d = t \<and> g_out d = i \<and> c = targets_conn d))"
    using C(1) iconns_inv_conn_at [OF C(2)] by (intro exI [of _ C] conjI allI)
  with True show ?thesis by simp
next
  case False
  with push_iconnections [OF iconns_inv_Nil, of "graph_conns g"] show ?thesis
    by (simp add: toIConnections_def one_type_def [of "[]"])
qed

subsection \<open>fromWorkflow\<close>

text \<open>A loop whose body never throws under an invariant is the plain fold.\<close>

lemma foldE_eq_fold:
  "P s \<Longrightarrow> (\<And>x s. x \<in> set xs \<Longrightarrow> P s \<Longrightarrow> f x s = Inr (h x s) \<and> P (h x s)) \<Longrightarrow>
   foldE f xs s = Inr (fold h xs s) \<and> P (fold h xs s)"
  by (induction xs arbitrary: s) auto

definition tuple_conn :: "(string \<Rightarrow> inode option) \<Rightarrow> string \<times> ctype \<times> nat \<times> conn \<Rightarrow> gconn" where
  "tuple_conn getNode' = (\<lambda>(n, t, i, c).
     \<lparr>g_from = the (getNode' n), g_to = the (getNode' (c_node c)), g_type = t, g_out = i, g_in = c_index c\<rparr>)"

definition resolves :: "(string \<Rightarrow> inode option) \<Rightarrow> conns \<Rightarrow> bool" where
  "resolves getNode' C \<longleftrightarrow> (\<forall>(n, byType) \<in> set C. getNode' n \<noteq> None \<and>
     (\<forall>(t, slots) \<in> set byType. \<forall>cs \<in> set slots. \<forall>c \<in> set (opt_list cs). getNode' (c_node c) \<noteq> None))"

definition knows :: "(string \<Rightarrow> inode option) \<Rightarrow> dgraph \<Rightarrow> bool" where
  "knows getNode' g \<longleftrightarrow> (\<forall>n m. getNode' n = Some m \<longrightarrow> node_exists g m)"

lemma knows_set_conn [simp]: "knows getNode' (set_conn c g) = knows getNode' g"
  by (simp add: knows_def)

lemma enumerate_mem: "(i, x) \<in> set (enumerate k xs) \<Longrightarrow> x \<in> set xs"
  by (auto simp: in_set_enumerate_eq)

lemma add_iconnection_ok:
  assumes "getNode' n = Some m" "getNode' (c_node c) \<noteq> None" "knows getNode' g"
  shows "add_iconnection getNode' m t i c g = Inr (set_conn (tuple_conn getNode' (n, t, i, c)) g)"
  using assms by (auto simp: add_iconnection_def assertSome_def addConnection_def knows_def tuple_conn_def)

lemma add_iconnections_ok:
  assumes "resolves getNode' C" "knows getNode' g"
  shows "add_iconnections getNode' C g = Inr (fold set_conn (map (tuple_conn getNode') (conn_tuples C)) g)"
proof -
  define T where "T n t i = (\<lambda>c. set_conn (tuple_conn getNode' (n, t, i, c)))" for n t i
  define slotsF where "slotsF n t = fold (\<lambda>(i, cs). fold (T n t i) (opt_list cs)) \<circ> enumerate 0" for n t
  have slot: "foldE (add_iconnection getNode' m t i) (opt_list cs) s = Inr (fold (T n t i) (opt_list cs) s)
      \<and> knows getNode' (fold (T n t i) (opt_list cs) s)"
    if "getNode' n = Some m" "\<forall>c \<in> set (opt_list cs). getNode' (c_node c) \<noteq> None" "knows getNode' s" for n m t i cs s
    by (rule foldE_eq_fold [where P = "knows getNode'", OF that(3)]) (use that add_iconnection_ok in \<open>auto simp: T_def\<close>)
  have slots: "foldE (\<lambda>(i, cs). foldE (add_iconnection getNode' m t i) (opt_list cs)) (enumerate 0 slots) s
      = Inr (slotsF n t slots s) \<and> knows getNode' (slotsF n t slots s)"
    if "getNode' n = Some m" "\<forall>cs \<in> set slots. \<forall>c \<in> set (opt_list cs). getNode' (c_node c) \<noteq> None" "knows getNode' s" for n m t slots s
    unfolding slotsF_def comp_def
    by (rule foldE_eq_fold [where P = "knows getNode'", OF that(3)])
      (use that slot [OF that(1)] in \<open>auto dest: enumerate_mem split: prod.splits\<close>)
  have types: "foldE (\<lambda>(t, slots). foldE (\<lambda>(i, cs). foldE (add_iconnection getNode' m t i) (opt_list cs)) (enumerate 0 slots)) byType s
      = Inr (fold (\<lambda>(t, slots). slotsF n t slots) byType s) \<and> knows getNode' (fold (\<lambda>(t, slots). slotsF n t slots) byType s)"
    if "getNode' n = Some m" "\<forall>(t, slots) \<in> set byType. \<forall>cs \<in> set slots. \<forall>c \<in> set (opt_list cs). getNode' (c_node c) \<noteq> None"
      "knows getNode' s" for n m byType s
    by (rule foldE_eq_fold [where P = "knows getNode'", OF that(3)]) (use that slots in \<open>auto split: prod.splits\<close>)
  have "add_iconnections getNode' C g = Inr (fold (\<lambda>(n, byType). fold (\<lambda>(t, slots). slotsF n t slots) byType) (obj_entries C) g)
      \<and> knows getNode' (fold (\<lambda>(n, byType). fold (\<lambda>(t, slots). slotsF n t slots) byType) (obj_entries C) g)"
    unfolding add_iconnections_def
    by (rule foldE_eq_fold [where P = "knows getNode'", OF assms(2)])
      (use assms(1) types in \<open>fastforce simp: resolves_def assertSome_def split: prod.splits option.splits\<close>)
  moreover have "fold set_conn (map (tuple_conn getNode') (conn_tuples C)) g
      = fold (\<lambda>(n, byType). fold (\<lambda>(t, slots). slotsF n t slots) byType) (obj_entries C) g"
    unfolding conn_tuples_def slotsF_def T_def
    by (simp add: fold_concat_map fold_map_fun case_prod_beta' split_def map_concat comp_def)
  ultimately show ?thesis by simp
qed

lemma addNodes_fields:
  "addNodes ns g = g\<lparr>g_nodes := fold (\<lambda>n. obj_set (n_name n) n) ns (g_nodes g)\<rparr>"
  unfolding addNodes_def by (induction ns arbitrary: g) (simp_all add: addNode_def)

lemma wf_addNodes_empty: "wf_graph (addNodes ns emptyGraph)"
proof -
  have "wf_graph (fold addNode ns g)" if "wf_graph g" "g_conns g = []" for g
    using that
  proof (induction ns arbitrary: g)
    case (Cons n ns)
    have "wf_graph (addNode n g)"
      using Cons.prems by (auto simp: wf_graph_def addNode_def set_obj_set)
    moreover have "g_conns (addNode n g) = []" using Cons.prems(2) by (simp add: addNode_def)
    ultimately show ?case using Cons.IH by simp
  qed simp
  from this [of emptyGraph] show ?thesis by (simp add: addNodes_def) (simp add: emptyGraph_def)
qed

definition wf_workflow :: "workflow \<Rightarrow> bool" where
  "wf_workflow w \<longleftrightarrow> wf_obj (w_nodes w) \<and> (\<forall>(k, n) \<in> set (w_nodes w). n_name n = k)
     \<and> wf_conns (w_connectionsBySourceNode w) \<and> resolves (getNode w) (w_connectionsBySourceNode w)"

lemma getNode_name: "wf_workflow w \<Longrightarrow> getNode w k = Some n \<Longrightarrow> n_name n = k"
  by (auto simp: wf_workflow_def getNode_def dest: obj_get_mem)

lemma node_exists_workflow:
  assumes "wf_workflow w"
  shows "node_exists (addNodes (obj_values (w_nodes w)) emptyGraph) m \<longleftrightarrow> getNode w (n_name m) = Some m"
proof -
  have vals: "n \<in> set (obj_values (w_nodes w)) \<longleftrightarrow> getNode w (n_name n) = Some n" for n
    using assms unfolding wf_workflow_def getNode_def by (force intro: obj_mem_get dest: obj_get_mem)
  have "inj_on n_name (set (obj_values (w_nodes w)))"
    by (rule inj_onI) (metis vals option.inject)
  note in_all = jsobj.lookup_fold_update_inj [of "[]", OF wf_obj_Nil this, where val = "\<lambda>n. n"]
  show ?thesis
  proof (cases "n_name m \<in> n_name ` set (obj_values (w_nodes w))")
    case True
    then obtain n where "n \<in> set (obj_values (w_nodes w))" "n_name n = n_name m" by (metis imageE)
    with in_all [of n] vals [of n] show ?thesis
      by (simp add: node_exists_def addNodes_fields emptyGraph_def)
  next
    case False
    then have "m \<notin> set (obj_values (w_nodes w))" by blast
    with False vals [of m] jsobj.lookup_fold_update_notin [of "[]", OF wf_obj_Nil False, of "\<lambda>n. n"] show ?thesis
      by (simp add: node_exists_def addNodes_fields emptyGraph_def)
  qed
qed

lemma tuple_conns_iff:
  assumes "wf_workflow w"
  shows "d \<in> tuple_conn (getNode w) ` set (conn_tuples (w_connectionsBySourceNode w)) \<longleftrightarrow>
    getNode w (from_name d) = Some (g_from d) \<and> getNode w (n_name (g_to d)) = Some (g_to d)
    \<and> (\<exists>s. conn_at (w_connectionsBySourceNode w) (from_name d) (g_type d) (g_out d)
          \<lparr>c_node = n_name (g_to d), c_type = s, c_index = g_in d\<rparr>)"
    (is "_ \<longleftrightarrow> ?R")
proof -
  let ?C = "w_connectionsBySourceNode w"
  have wfC: "wf_conns ?C" and res: "resolves (getNode w) ?C" using assms by (simp_all add: wf_workflow_def)
  note tuples = conn_tuples_iff [OF wfC]
  show ?thesis
  proof
    assume "d \<in> tuple_conn (getNode w) ` set (conn_tuples ?C)"
    then obtain n t i c where d: "conn_at ?C n t i c" "d = tuple_conn (getNode w) (n, t, i, c)"
      unfolding image_iff by (metis prod_cases4 tuples)
    from d(1) obtain byType slots where "obj_get ?C n = Some byType" "obj_get byType t = Some slots"
      "i < length slots" "c \<in> set (opt_list (slots ! i))"
      by (auto simp: conn_at_def split: option.splits)
    then have "(n, byType) \<in> set ?C" "(t, slots) \<in> set byType" "slots ! i \<in> set slots"
      "c \<in> set (opt_list (slots ! i))"
      by (auto dest: obj_get_mem)
    with res obtain a b where ab: "getNode w n = Some a" "getNode w (c_node c) = Some b"
      unfolding resolves_def by fast
    moreover from this getNode_name [OF assms] have "n_name a = n" "n_name b = c_node c" by auto
    moreover have "conn_at ?C n t i \<lparr>c_node = c_node c, c_type = c_type c, c_index = c_index c\<rparr>"
      using d(1) by (cases c) simp
    ultimately show ?R using d by (auto simp: tuple_conn_def intro!: exI [of _ "c_type c"])
  next
    assume ?R
    then obtain s where R: "getNode w (from_name d) = Some (g_from d)" "getNode w (n_name (g_to d)) = Some (g_to d)"
      "(from_name d, g_type d, g_out d, \<lparr>c_node = n_name (g_to d), c_type = s, c_index = g_in d\<rparr>) \<in> set (conn_tuples ?C)"
      unfolding tuples by blast
    moreover from R(1,2) have "tuple_conn (getNode w)
        (from_name d, g_type d, g_out d, \<lparr>c_node = n_name (g_to d), c_type = s, c_index = g_in d\<rparr>) = d"
      by (simp add: tuple_conn_def)
    ultimately show "d \<in> tuple_conn (getNode w) ` set (conn_tuples ?C)" by (metis imageI)
  qed
qed

text \<open>
  Converting a workflow whose connections all lead to existing nodes, from nodes without a
  dash in their name, gives a well-formed graph with exactly the workflow's nodes and connections.
\<close>

theorem fromWorkflow_faithful:
  assumes "wf_workflow w" "\<forall>(n, byType) \<in> set (w_connectionsBySourceNode w). CHR ''-'' \<notin> set n"
  shows "\<exists>g. fromWorkflow w = Inr g \<and> wf_graph g
    \<and> (\<forall>m. node_exists g m \<longleftrightarrow> getNode w (n_name m) = Some m)
    \<and> (\<forall>d. d \<in> set (graph_conns g) \<longleftrightarrow>
         getNode w (from_name d) = Some (g_from d) \<and> getNode w (n_name (g_to d)) = Some (g_to d)
         \<and> (\<exists>s. conn_at (w_connectionsBySourceNode w) (from_name d) (g_type d) (g_out d)
               \<lparr>c_node = n_name (g_to d), c_type = s, c_index = g_in d\<rparr>))"
proof -
  let ?C = "w_connectionsBySourceNode w" and ?g0 = "addNodes (obj_values (w_nodes w)) emptyGraph"
  let ?ds = "map (tuple_conn (getNode w)) (conn_tuples ?C)"
  have "knows (getNode w) ?g0"
    unfolding knows_def node_exists_workflow [OF assms(1)] using getNode_name [OF assms(1)] by metis
  with assms(1) have run: "fromWorkflow w = Inr (fold set_conn ?ds ?g0)"
    unfolding fromWorkflow_def by (intro add_iconnections_ok) (simp_all add: wf_workflow_def)
  have ds: "node_exists ?g0 (g_from d) \<and> node_exists ?g0 (g_to d) \<and> CHR ''-'' \<notin> set (from_name d)" if "d \<in> set ?ds" for d
  proof -
    from that tuple_conns_iff [OF assms(1), of d] obtain s where
      d: "getNode w (from_name d) = Some (g_from d)" "getNode w (n_name (g_to d)) = Some (g_to d)"
        "conn_at ?C (from_name d) (g_type d) (g_out d) \<lparr>c_node = n_name (g_to d), c_type = s, c_index = g_in d\<rparr>"
      by auto
    then obtain byType where "(from_name d, byType) \<in> set ?C"
      by (auto simp: conn_at_def dest: obj_get_mem split: option.splits)
    with assms(2) d(1,2) show ?thesis unfolding node_exists_workflow [OF assms(1)] by auto
  qed
  have "graph_conns ?g0 = []" by (simp add: graph_conns_def addNodes_fields emptyGraph_def)
  then have conns: "set (graph_conns (fold set_conn ?ds ?g0)) = set ?ds"
    using ds by (subst conns_fold_set_conn [OF wf_addNodes_empty]) (auto simp: dashless_def)
  have wf: "wf_graph (fold set_conn ?ds ?g0)" using ds wf_fold_set_conn [OF wf_addNodes_empty] by blast
  have "node_exists (fold set_conn ?ds ?g0) m = node_exists ?g0 m" for m
    by (simp add: set_conns_fold node_exists_def)
  with run wf conns show ?thesis
    by (intro exI [of _ "fold set_conn ?ds ?g0"])
      (simp add: node_exists_workflow [OF assms(1)] tuple_conns_iff [OF assms(1)])
qed

end
