(* ===== verification/StartNodesFacts.thy ===== *)
theory StartNodesFacts
  imports StartNodes SccFacts GraphConversions
begin

section \<open>What the choice of start nodes promises\<close>

text \<open>
  Reading incoming data never throws on well-typed run data; the start nodes, the cleaned run
  data, the filtered graph and the replacement of cycles are characterised exactly.
\<close>

subsection \<open>Incoming data\<close>

text \<open>
  Run data whose tasks have an output array for \<open>main\<close> and for every type the node is connected
  by: reading it never throws.
\<close>

definition typed_run_data :: "dgraph \<Rightarrow> run_data \<Rightarrow> bool" where
  "typed_run_data g runData \<longleftrightarrow> (\<forall>(n, runs) \<in> set runData. \<forall>t \<in> set runs. \<forall>d. td_data t = Some d \<longrightarrow>
     obj_get d Main \<noteq> None \<and> (\<forall>c \<in> set (graph_conns g). n_name (g_from c) = n \<longrightarrow> obj_get d (g_type c) \<noteq> None))"

lemma js_at_mem: "js_at xs i = Some x \<Longrightarrow> x \<in> set xs"
  by (auto simp: js_at_def Let_def split: if_splits)

lemma getIncomingData_total:
  assumes "typed_run_data g runData" "t = Main \<or> (\<exists>c \<in> set (graph_conns g). n_name (g_from c) = n \<and> g_type c = t)"
  shows "\<exists>r. getIncomingData runData n i t k = Inr r"
proof -
  have "obj_get d t \<noteq> None" if "obj_get runData n = Some runs" "js_at runs i = Some task" "td_data task = Some d" for runs task d
  proof -
    have "(n, runs) \<in> set runData" "task \<in> set runs" using that by (auto dest: obj_get_mem js_at_mem)
    with assms that(3) show ?thesis unfolding typed_run_data_def by blast
  qed
  then show ?thesis unfolding getIncomingData_def by (force split: option.splits)
qed

lemma first_run_total:
  "typed_run_data g runData \<Longrightarrow> c \<in> set (graph_conns g) \<Longrightarrow>
   \<exists>r. first_run runData (n_name (g_from c)) (g_type c) k is = Inr r"
proof (induction "is")
  case (Cons i "is")
  from getIncomingData_total [OF Cons.prems(1), of "g_type c" "n_name (g_from c)" "int i" k] Cons.prems(2)
  obtain r where "getIncomingData runData (n_name (g_from c)) (int i) (g_type c) k = Inr r" by blast
  with Cons show ?case by (simp split: option.splits)
qed simp

text \<open>What is found is the first run with a non-empty output.\<close>

lemma first_run_Some:
  "first_run runData n t k is = Inr (Some (d, i)) \<Longrightarrow>
   i \<in> set is \<and> d \<noteq> [] \<and> getIncomingData runData n (int i) t k = Inr (Some d)"
  by (induction "is") (auto simp: bindE_eq_Inr split: option.splits if_splits)

lemma follows_total: "typed_run_data g runData \<Longrightarrow> c \<in> set (graph_conns g) \<Longrightarrow> \<exists>b. follows runData pinData c = Inr b"
  using first_run_total [of g runData c "g_out c" "[0..<getRunIndexLength runData (n_name (g_from c))]"]
  by (auto simp: follows_def getIncomingDataFromAnyRun_def)

lemma isStartNode_total:
  assumes "wf_graph g" "typed_run_data g runData" "node_exists g n"
  shows "\<exists>b. isStartNode g runData pinData destination n = Inr b"
proof -
  obtain children where "getChildren g n = Inr children"
    using child_ok [OF assms(1,3)] children_loop_total [OF assms(1)] unfolding getChildren_def by fastforce
  moreover obtain r0 r1 where "getIncomingData runData (n_name n) (-1) Main 0 = Inr r0"
    "getIncomingData runData (n_name n) (-1) Main 1 = Inr r1"
    using getIncomingData_total [OF assms(2), of Main "n_name n" "-1" 0]
      getIncomingData_total [OF assms(2), of Main "n_name n" "-1" 1] by auto
  ultimately show ?thesis by (cases "n \<in> set children") (auto simp: isStartNode_def isALoop_def)
qed

subsection \<open>findStartNodes\<close>

definition branch :: "dgraph \<Rightarrow> run_data \<Rightarrow> pin_data \<Rightarrow> inode \<Rightarrow> (inode \<times> inode) set" where
  "branch g runData pinData destination = {(a, b). isStartNode g runData pinData destination a = Inr False
     \<and> (\<exists>c \<in> set (graph_conns g). g_from c = a \<and> g_to c = b \<and> follows runData pinData c = Inr True)}"

lemma foldE_union:
  "foldE f xs s = Inr t \<Longrightarrow> (\<And>x s t. x \<in> set xs \<Longrightarrow> f x s = Inr t \<Longrightarrow> set t = set s \<union> F x) \<Longrightarrow>
   set t = set s \<union> (\<Union>x \<in> set xs. F x)"
proof (induction xs arbitrary: s)
  case (Cons x xs)
  from Cons.prems(1) obtain u where u: "f x s = Inr u" "foldE f xs u = Inr t" by (auto simp: bindE_eq_Inr)
  have "set t = set u \<union> (\<Union>x \<in> set xs. F x)" using Cons.IH [OF u(2)] Cons.prems(2) by auto
  with Cons.prems(2) [OF _ u(1)] show ?case by auto
qed simp

definition stops :: "dgraph \<Rightarrow> run_data \<Rightarrow> pin_data \<Rightarrow> inode \<Rightarrow> inode \<Rightarrow> bool" where
  "stops g runData pinData destination n \<longleftrightarrow> isStartNode g runData pinData destination n = Inr True"

definition found_from ::
    "dgraph \<Rightarrow> run_data \<Rightarrow> pin_data \<Rightarrow> inode \<Rightarrow> inode \<Rightarrow> inode set \<Rightarrow> inode set" where
  "found_from g runData pinData destination n seen =
     (if stops g runData pinData destination n then {n} else if n \<in> seen then {}
      else {s. stops g runData pinData destination s
        \<and> (n, s) \<in> (avoid (branch g runData pinData destination) (insert n seen))\<^sup>+})"

lemma findStartNodesRecursive_set:
  "findStartNodesRecursive g runData pinData destination current seen startNodes = Inr r \<Longrightarrow>
   \<forall>n \<in> set seen. \<not> stops g runData pinData destination n \<Longrightarrow>
   set r = set startNodes \<union> found_from g runData pinData destination current (set seen)"
proof (induction g runData pinData destination current seen startNodes arbitrary: r
    rule: findStartNodesRecursive.induct)
  case (1 g runData pinData destination current seen startNodes)
  define stop where "stop = stops g runData pinData destination"
  define E where "E = branch g runData pinData destination"
  note run = "1.prems"(1) [unfolded findStartNodesRecursive.simps [of g runData pinData destination current]]
  from run obtain start where start: "isStartNode g runData pinData destination current = Inr start"
    by (auto simp: bindE_eq_Inr)
  show ?case
  proof (cases "start \<or> current \<in> set seen")
    case True
    with run start show ?thesis by (auto simp: found_from_def stops_def split: if_splits)
  next
    case False
    then have go: "isStartNode g runData pinData destination current = Inr False" "current \<notin> set seen"
      using start by auto
    define step where "step = (\<lambda>c startNodes. bindE (follows runData pinData c) (\<lambda>follow.
      if follow then findStartNodesRecursive g runData pinData destination (g_to c) (set_add current seen) startNodes
      else Inr startNodes))"
    from run go obtain cs where cs: "getDirectChildConnections g current = Inr cs"
      and fold: "foldE step cs startNodes = Inr r"
      by (auto simp: bindE_eq_Inr step_def)
    have mem: "c \<in> set cs \<longleftrightarrow> c \<in> set (graph_conns g) \<and> g_from c = current" for c
      using cs by (auto simp: getDirectChildConnections_def bindE_eq_Inr)
    let ?seen = "insert current (set seen)"
    have nostop: "\<forall>n \<in> set (set_add current seen). \<not> stop n"
      using "1.prems"(2) go(1) by (auto simp: stop_def stops_def)
    define R where "R v = found_from g runData pinData destination v ?seen" for v
    have each: "set t = set s \<union> (if follows runData pinData c = Inr True then R (g_to c) else {})"
      if "c \<in> set cs" "step c s = Inr t" for c s t
    proof (cases "follows runData pinData c = Inr True")
      case True
      with that(2) have "findStartNodesRecursive g runData pinData destination (g_to c) (set_add current seen) s = Inr t"
        by (simp add: step_def)
      from "1.IH" [OF start _ go(2) cs that(1) True _ this] False nostop
      have "set t = set s \<union> found_from g runData pinData destination (g_to c) (set (set_add current seen))"
        unfolding stop_def by blast
      with True show ?thesis by (simp add: R_def)
    next
      case False
      with that(2) show ?thesis by (auto simp: step_def bindE_eq_Inr split: if_splits)
    qed
    have "set r = set startNodes \<union> (\<Union>c \<in> set cs. if follows runData pinData c = Inr True then R (g_to c) else {})"
      by (rule foldE_union [OF fold each])
    also have "(\<Union>c \<in> set cs. if follows runData pinData c = Inr True then R (g_to c) else {}) = (\<Union>v \<in> E `` {current}. R v)"
    proof -
      have "E `` {current} = g_to ` {c \<in> set cs. follows runData pinData c = Inr True}"
        using go(1) by (auto simp: E_def branch_def mem image_iff)
      then show ?thesis by (auto split: if_splits)
    qed
    also have "\<dots> = {s. stop s \<and> (current, s) \<in> (avoid E ?seen)\<^sup>+}"
    proof -
      have no_out: "(v, s) \<notin> (avoid E X)\<^sup>+" if "stop v" for v s X
        using that by (auto simp: stop_def stops_def E_def branch_def avoid_def dest: tranclD)
      have "s \<in> R v \<longleftrightarrow> v \<notin> ?seen \<and> stop s \<and> (s = v \<or> (v, s) \<in> (avoid E (insert v ?seen))\<^sup>+)" for s v
        using no_out [of v] nostop by (auto simp: R_def found_from_def stop_def [symmetric] E_def [symmetric])
      then show ?thesis unfolding avoid_unfold [of current] by auto
    qed
    finally show ?thesis using go by (simp add: found_from_def stop_def E_def stops_def)
  qed
qed

lemma findStartNodesRecursive_total:
  "wf_graph g \<Longrightarrow> typed_run_data g runData \<Longrightarrow> node_exists g current \<Longrightarrow>
   \<exists>r. findStartNodesRecursive g runData pinData destination current seen startNodes = Inr r"
proof (induction g runData pinData destination current seen startNodes
    rule: findStartNodesRecursive.induct)
  case (1 g runData pinData destination current seen startNodes)
  note run = findStartNodesRecursive.simps [of g runData pinData destination current]
  from isStartNode_total [OF "1.prems"] obtain start where
    start: "isStartNode g runData pinData destination current = Inr start" by blast
  show ?case
  proof (cases "start \<or> current \<in> set seen")
    case True
    with start show ?thesis by (auto simp: run)
  next
    case False
    let ?cs = "filter (\<lambda>c. g_from c = current) (graph_conns g)"
    let ?step = "\<lambda>c startNodes. bindE (follows runData pinData c) (\<lambda>follow.
      if follow then findStartNodesRecursive g runData pinData destination (g_to c) (set_add current seen) startNodes
      else Inr startNodes)"
    have cs: "getDirectChildConnections g current = Inr ?cs"
      using "1.prems"(3) by (simp add: getDirectChildConnections_def)
    have "\<exists>t. ?step c s = Inr t" if c: "c \<in> set ?cs" for c s
    proof -
      obtain follow where f: "follows runData pinData c = Inr follow"
        using follows_total [OF "1.prems"(2), of c] c by auto
      have "node_exists g (g_to c)" using wf_graph_conn [OF "1.prems"(1), of c] c by auto
      with "1.IH" [OF start _ _ cs c f] "1.prems"(1,2) False f show ?thesis by (cases follow) auto
    qed
    then have "\<exists>t. foldE ?step ?cs startNodes = Inr t"
      using foldE_total [where P = "\<lambda>_. True" and f = ?step] by blast
    with start False cs show ?thesis by (simp add: run)
  qed
qed

text \<open>
  C8: On a well-formed graph with typed run data the search for start nodes returns exactly the
  nodes at which a branch from the trigger stops: a node that is dirty, or the destination, or a
  loop node whose last run has no output on its \<open>done\<close> branch, reached from the trigger through
  nodes that are none of these along connections that carry data.
\<close>

theorem findStartNodes_exact:
  assumes "wf_graph g" "typed_run_data g runData" "node_exists g trigger"
  shows "\<exists>startNodes. findStartNodes g trigger destination pinData runData = Inr startNodes
    \<and> set startNodes = {s. stops g runData pinData destination s
        \<and> (trigger, s) \<in> (branch g runData pinData destination)\<^sup>*}"
proof -
  obtain r where r: "findStartNodesRecursive g runData pinData destination trigger [] [] = Inr r"
    using findStartNodesRecursive_total [OF assms] by blast
  let ?E = "branch g runData pinData destination"
  have no_out: "(v, s) \<notin> ?E" if "stops g runData pinData destination v" for v s
    using that by (auto simp: stops_def branch_def)
  have avoid: "(trigger, s) \<in> (avoid ?E {trigger})\<^sup>+ \<or> s = trigger \<longleftrightarrow> (trigger, s) \<in> ?E\<^sup>*" for s
    using avoid_start [of trigger s ?E "{}"] avoid_trancl_le [of trigger s ?E "{trigger}"]
    by (auto simp: rtrancl_eq_or_trancl)
  have "set r = {s. stops g runData pinData destination s \<and> (trigger, s) \<in> ?E\<^sup>*}"
  proof (cases "stops g runData pinData destination trigger")
    case True
    then have "(trigger, s) \<in> ?E\<^sup>* \<longleftrightarrow> s = trigger" for s
      using no_out by (auto elim: converse_rtranclE)
    with True findStartNodesRecursive_set [OF r] show ?thesis by (auto simp: found_from_def)
  next
    case False
    with findStartNodesRecursive_set [OF r] avoid show ?thesis by (auto simp: found_from_def)
  qed
  with r show ?thesis by (simp add: findStartNodes_def)
qed

subsection \<open>cleanRunData\<close>

definition cleaned_by :: "dgraph \<Rightarrow> inode \<Rightarrow> string set" where
  "cleaned_by g n = insert (n_name n) {n_name (g_from c) |c. c \<in> set (graph_conns g) \<and> g_type c \<noteq> Main
     \<and> (g_to c, n) \<in> (gedges g)\<^sup>*}"

definition keeps_but :: "run_data \<Rightarrow> string set \<Rightarrow> run_data \<Rightarrow> bool" where
  "keeps_but r S r' \<longleftrightarrow> (\<forall>k. obj_get r' k = (if k \<in> S then None else obj_get r k))"

lemma keeps_but_trans: "keeps_but r S r1 \<Longrightarrow> keeps_but r1 T r2 \<Longrightarrow> keeps_but r (S \<union> T) r2"
  by (auto simp: keeps_but_def)

lemma keeps_but_del: "keeps_but r {k} (obj_del k r)"
  by (simp add: keeps_but_def js_simps)

lemma keeps_but_fold_del:
  "keeps_but r (key ` {c \<in> set cs. P c}) (fold (\<lambda>c. if \<not> P c then id else obj_del (key c)) cs r)"
proof (induction cs arbitrary: r)
  case Nil
  then show ?case by (simp add: keeps_but_def)
next
  case (Cons c cs)
  have "key ` {d \<in> set (c # cs). P d} = (if P c then {key c} else {}) \<union> key ` {d \<in> set cs. P d}" by auto
  moreover have "keeps_but r (if P c then {key c} else {}) ((if \<not> P c then id else obj_del (key c)) r)"
    by (simp add: keeps_but_del) (simp add: keeps_but_def)
  ultimately show ?case using keeps_but_trans [OF _ Cons.IH] by simp
qed

lemma foldE_keeps_but:
  "(\<And>x r. x \<in> set xs \<Longrightarrow> \<exists>r'. f x r = Inr r' \<and> keeps_but r (F x) r') \<Longrightarrow>
   \<exists>r'. foldE f xs r = Inr r' \<and> keeps_but r (\<Union>x \<in> set xs. F x) r'"
proof (induction xs arbitrary: r)
  case Nil
  then show ?case by (simp add: keeps_but_def)
next
  case (Cons x xs)
  from Cons.prems [of x r] obtain r1 where 1: "f x r = Inr r1" "keeps_but r (F x) r1" by auto
  from Cons.IH [of r1] Cons.prems obtain r2 where 2: "foldE f xs r1 = Inr r2" "keeps_but r1 (\<Union>x \<in> set xs. F x) r2"
    by auto
  from keeps_but_trans [OF 1(2) 2(2)] 1(1) 2(1) show ?case by simp
qed

lemma cleanNode_keeps:
  assumes "wf_graph g" "node_exists g n"
  shows "\<exists>r'. cleanNode g n r = Inr r' \<and> keeps_but r (cleaned_by g n) r'"
proof -
  obtain cs where cs: "getParentConnections g n = Inr cs"
    "set cs = {c \<in> set (graph_conns g). (g_to c, n) \<in> (gedges g)\<^sup>*}"
    using parent_connections_set [OF assms] by blast
  let ?f = "fold (\<lambda>c. if \<not> g_type c \<noteq> Main then id else obj_del (n_name (g_from c))) cs"
  have "keeps_but r ({n_name n} \<union> (\<lambda>c. n_name (g_from c)) ` {c \<in> set cs. g_type c \<noteq> Main}) (?f (obj_del (n_name n) r))"
    by (rule keeps_but_trans [OF keeps_but_del keeps_but_fold_del])
  moreover have "{n_name n} \<union> (\<lambda>c. n_name (g_from c)) ` {c \<in> set cs. g_type c \<noteq> Main} = cleaned_by g n"
    unfolding cleaned_by_def cs(2) by auto
  ultimately show ?thesis using cs(1) by (simp add: cleanNode_def)
qed

lemma cleanNodes_keeps:
  assumes "wf_graph g" "\<forall>n \<in> set ns. node_exists g n"
  shows "\<exists>r'. foldE (cleanNode g) ns r = Inr r' \<and> keeps_but r (\<Union>n \<in> set ns. cleaned_by g n) r'"
  using assms(2) cleanNode_keeps [OF assms(1)] by (intro foldE_keeps_but) blast

lemma gedges_rtrancl_exists: "wf_graph g \<Longrightarrow> (a, b) \<in> (gedges g)\<^sup>+ \<Longrightarrow> node_exists g b"
  by (erule trancl.cases) (auto dest: gedges_exists)

lemma keeps_but_filter:
  "keeps_but r {k. \<not> P k} (fold (\<lambda>k. if P k then id else obj_del k) (obj_keys r) r)"
proof -
  have "obj_get (fold (\<lambda>k. if P k then id else obj_del k) ks r) k
      = (if k \<in> set ks \<and> \<not> P k then None else obj_get r k)" for ks k
    by (induction ks arbitrary: r) (auto simp: js_simps)
  then show ?thesis
    unfolding keeps_but_def by (auto simp: map_of_eq_None_iff)
qed

text \<open>
  Cleaning run data throws for no set of nodes of a well-formed graph. It drops exactly the
  runs of nodes outside the graph, of the nodes reachable from a cleaned node (itself included),
  and of the sources of non-main connections that lead to those; all other runs are unchanged.
\<close>

theorem cleanRunData_exact:
  assumes "wf_graph g" "\<forall>n \<in> set nodesToClean. node_exists g n"
  shows "\<exists>r'. cleanRunData runData g nodesToClean = Inr r' \<and>
    (\<forall>k. obj_get r' k = (if hasNode g k
        \<and> k \<notin> (\<Union>n \<in> set nodesToClean. \<Union>m \<in> (gedges g)\<^sup>* `` {n}. cleaned_by g m)
      then obj_get runData k else None))"
proof -
  let ?f = "\<lambda>nodeToClean newRunData. bindE (getChildren g nodeToClean) (\<lambda>children.
      foldE (cleanNode g) (nodeToClean # children) (obj_del (n_name nodeToClean) newRunData))"
  have each: "\<exists>r'. ?f n r = Inr r' \<and> keeps_but r (\<Union>m \<in> (gedges g)\<^sup>* `` {n}. cleaned_by g m) r'"
    if n: "n \<in> set nodesToClean" for n r
  proof -
    obtain cs where cs: "getChildren g n = Inr cs" "set cs = {m. (n, m) \<in> (gedges g)\<^sup>+}"
      using children_set [OF assms(1)] assms(2) n by blast
    have "\<forall>m \<in> set (n # cs). node_exists g m"
      using n assms cs(2) gedges_rtrancl_exists [OF assms(1)] by auto
    from cleanNodes_keeps [OF assms(1) this] obtain r' where
      r': "foldE (cleanNode g) (n # cs) (obj_del (n_name n) r) = Inr r'"
        "keeps_but (obj_del (n_name n) r) (\<Union>m \<in> set (n # cs). cleaned_by g m) r'"
      by blast
    have "(gedges g)\<^sup>* `` {n} = set (n # cs)" unfolding list.set cs(2) by (auto simp: rtrancl_eq_or_trancl)
    moreover have "{n_name n} \<union> (\<Union>m \<in> set (n # cs). cleaned_by g m) = (\<Union>m \<in> set (n # cs). cleaned_by g m)"
      by (auto simp: cleaned_by_def)
    ultimately show ?thesis using keeps_but_trans [OF keeps_but_del r'(2)] r'(1) cs(1)
      by (metis bindE.simps(2))
  qed
  have "\<exists>r1. foldE ?f nodesToClean runData = Inr r1
      \<and> keeps_but runData (\<Union>n \<in> set nodesToClean. \<Union>m \<in> (gedges g)\<^sup>* `` {n}. cleaned_by g m) r1"
    by (rule foldE_keeps_but) (rule each)
  then obtain r1 where r1: "foldE ?f nodesToClean runData = Inr r1"
    "keeps_but runData (\<Union>n \<in> set nodesToClean. \<Union>m \<in> (gedges g)\<^sup>* `` {n}. cleaned_by g m) r1"
    by blast
  from keeps_but_trans [OF r1(2) keeps_but_filter [of r1 "hasNode g"]] r1(1) show ?thesis
    by (simp add: cleanRunData_def keeps_but_def)
qed

subsection \<open>filterDisabledNodes\<close>

lemma obj_set_fresh: "k \<notin> set (map fst o') \<Longrightarrow> obj_set k v o' = o' @ [(k, v)]"
  by (induction o') auto

lemma fold_obj_set_id:
  "wf_obj (map (\<lambda>x. (key x, x)) (ys @ xs)) \<Longrightarrow>
   fold (\<lambda>x. obj_set (key x) x) xs (map (\<lambda>x. (key x, x)) ys) = map (\<lambda>x. (key x, x)) (ys @ xs)"
proof (induction xs arbitrary: ys)
  case (Cons x xs)
  have "key x \<notin> set (map fst (map (\<lambda>x. (key x, x)) ys))"
    using Cons.prems by (auto simp: wf_obj_def)
  then have "obj_set (key x) x (map (\<lambda>x. (key x, x)) ys) = map (\<lambda>x. (key x, x)) (ys @ [x])"
    by (subst obj_set_fresh) auto
  with Cons.IH [of "ys @ [x]"] Cons.prems show ?case by simp
qed simp

lemma keyed_list: "\<forall>(k, x) \<in> set o'. k = key x \<Longrightarrow> map (\<lambda>x. (key x, x)) (map snd o') = o'"
  by (induction o') auto

text \<open>A clone of a well-formed graph is the graph itself.\<close>

lemma clone_wf:
  assumes "wf_graph g"
  shows "clone g = Inr g"
proof -
  have n: "map (\<lambda>x. (n_name x, x)) (graph_nodes g) = g_nodes g"
    unfolding graph_nodes_def by (rule keyed_list) (use assms in \<open>auto simp: wf_graph_def\<close>)
  have c: "map (\<lambda>x. (makeKey x, x)) (graph_conns g) = g_conns g"
    unfolding graph_conns_def by (rule keyed_list) (use assms in \<open>auto simp: wf_graph_def\<close>)
  have nodes: "g_nodes (addNodes (graph_nodes g) emptyGraph) = g_nodes g"
    using fold_obj_set_id [of n_name "[]" "graph_nodes g"] n assms
    by (simp add: addNodes_fields emptyGraph_def wf_graph_def)
  have "foldE (\<lambda>c. addConnection (g_from c) (g_to c) (Some (g_type c)) (Some (g_out c)) (Some (g_in c)))
      (graph_conns g) (addNodes (graph_nodes g) emptyGraph)
    = Inr (fold set_conn (graph_conns g) (addNodes (graph_nodes g) emptyGraph))
    \<and> g_nodes (fold set_conn (graph_conns g) (addNodes (graph_nodes g) emptyGraph)) = g_nodes g"
  proof (rule foldE_eq_fold [where P = "\<lambda>G. g_nodes G = g_nodes g", OF nodes])
    fix d and G :: dgraph assume "d \<in> set (graph_conns g)" "g_nodes G = g_nodes g"
    with wf_graph_conn [OF assms this(1)] show "addConnection (g_from d) (g_to d) (Some (g_type d)) (Some (g_out d)) (Some (g_in d)) G
      = Inr (set_conn d G) \<and> g_nodes (set_conn d G) = g_nodes g"
      by (cases d) (simp add: addConnection_def node_exists_def set_conn_def)
  qed
  moreover have "g_conns (fold set_conn (graph_conns g) (addNodes (graph_nodes g) emptyGraph)) = g_conns g"
    using fold_obj_set_id [of makeKey "[]" "graph_conns g"] c assms
    by (simp add: set_conns_fold addNodes_fields emptyGraph_def wf_graph_def)
  ultimately show ?thesis
    by (simp add: clone_def addConnections_def getConnections_def)
qed

lemma removeNodeReconnect_nodes:
  "node_exists g n \<Longrightarrow> \<exists>new g'. removeNodeReconnect skip n g = Inr (new, g') \<and> g_nodes g' = obj_del (n_name n) (g_nodes g)"
  by (auto simp: removeNodeReconnect_def getDirectParentConnections_def getDirectChildConnections_def Let_def
      set_conns_fold drop_node_def)

lemma removeDisabled_nodes:
  assumes "wf_obj (g_nodes g)" "isDisabled n \<longrightarrow> node_exists g n"
  shows "\<exists>g'. removeDisabled n g = Inr g'
    \<and> g_nodes g' = (if isDisabled n then obj_del (n_name n) (g_nodes g) else g_nodes g)"
  using removeNodeReconnect_nodes [of g n "\<lambda>c. g_type c \<noteq> Main"] assms by (auto simp: removeDisabled_def)

lemma filter_loop:
  "wf_obj (g_nodes g) \<Longrightarrow> \<forall>n \<in> set ns. isDisabled n \<longrightarrow> node_exists g n \<Longrightarrow> distinct (map n_name ns) \<Longrightarrow>
   \<exists>g'. foldE removeDisabled ns g = Inr g'
     \<and> g_nodes g' = filter (\<lambda>(k, n). k \<notin> n_name ` {n \<in> set ns. isDisabled n}) (g_nodes g)"
proof (induction ns arbitrary: g)
  case Nil
  then show ?case by simp
next
  case (Cons n ns)
  from removeDisabled_nodes [OF Cons.prems(1), of n] Cons.prems(2) obtain g1 where
    g1: "removeDisabled n g = Inr g1"
      "g_nodes g1 = (if isDisabled n then obj_del (n_name n) (g_nodes g) else g_nodes g)"
    by auto
  have wf1: "wf_obj (g_nodes g1)" using g1(2) Cons.prems(1) by simp
  have ex1: "\<forall>m \<in> set ns. isDisabled m \<longrightarrow> node_exists g1 m"
  proof (intro ballI impI)
    fix m assume m: "m \<in> set ns" "isDisabled m"
    with Cons.prems(2) have "node_exists g m" by simp
    moreover have "n_name m \<noteq> n_name n" using Cons.prems(3) m(1) by (metis distinct.simps(2) image_eqI list.simps(9) set_map)
    ultimately show "node_exists g1 m" unfolding node_exists_def g1(2) by (simp add: js_simps)
  qed
  from Cons.IH [OF wf1 ex1] Cons.prems(3) obtain g2 where
    g2: "foldE removeDisabled ns g1 = Inr g2"
      "g_nodes g2 = filter (\<lambda>(k, n). k \<notin> n_name ` {n \<in> set ns. isDisabled n}) (g_nodes g1)"
    by auto
  have "g_nodes g1 = filter (\<lambda>(k, m). isDisabled n \<longrightarrow> k \<noteq> n_name n) (g_nodes g)"
    unfolding g1(2) obj_del_def by (cases "isDisabled n") (simp_all add: case_prod_beta')
  then have "g_nodes g2 = filter (\<lambda>(k, m). k \<notin> n_name ` {m \<in> set (n # ns). isDisabled m}) (g_nodes g)"
    unfolding g2(2) by (simp add: case_prod_beta') (rule filter_cong, auto)
  with g1(1) g2(1) show ?case by simp
qed

text \<open>Filtering never throws and leaves exactly the nodes that are not disabled, in their order.\<close>

theorem filterDisabledNodes_nodes:
  assumes "wf_graph g"
  shows "\<exists>g'. filterDisabledNodes g = Inr g' \<and> graph_nodes g' = filter (\<lambda>n. \<not> isDisabled n) (graph_nodes g)"
proof -
  have keys: "map n_name (graph_nodes g) = map fst (g_nodes g)" "wf_obj (g_nodes g)"
    using assms by (auto simp: wf_graph_def graph_nodes_def)
  have ex: "\<forall>n \<in> set (graph_nodes g). isDisabled n \<longrightarrow> node_exists g n"
    using graph_nodes_exists [OF assms] by simp
  obtain g' where g': "filterDisabledNodes g = Inr g'"
    "g_nodes g' = filter (\<lambda>(k, n). k \<notin> n_name ` {n \<in> set (graph_nodes g). isDisabled n}) (g_nodes g)"
    using filter_loop [OF keys(2) ex] keys clone_wf [OF assms]
    by (auto simp: filterDisabledNodes_def wf_obj_def)
  have "(k \<notin> n_name ` {n \<in> set (graph_nodes g). isDisabled n}) = (\<not> isDisabled n)" if "(k, n) \<in> set (g_nodes g)" for k n
  proof -
    have n: "n \<in> set (graph_nodes g)" "n_name n = k"
      using that assms by (force simp: graph_nodes_def wf_graph_def)+
    have uniq: "m = n" if "m \<in> set (graph_nodes g)" "n_name m = k" for m
    proof -
      have "node_exists g m" "node_exists g n" using that(1) n(1) graph_nodes_exists [OF assms] by blast+
      with that(2) n(2) show ?thesis by (simp add: node_exists_def)
    qed
    show ?thesis
    proof
      show "k \<notin> n_name ` {n \<in> set (graph_nodes g). isDisabled n} \<Longrightarrow> \<not> isDisabled n" using n by blast
      show "\<not> isDisabled n \<Longrightarrow> k \<notin> n_name ` {n \<in> set (graph_nodes g). isDisabled n}" using uniq by blast
    qed
  qed
  then have "g_nodes g' = filter (\<lambda>(k, n). \<not> isDisabled n) (g_nodes g)"
    unfolding g'(2) by (intro filter_cong) (auto split: prod.splits)
  then have "graph_nodes g' = filter (\<lambda>n. \<not> isDisabled n) (graph_nodes g)"
    by (simp add: graph_nodes_def filter_map comp_def case_prod_beta')
  with g'(1) show ?thesis by blast
qed

subsection \<open>handleCycles\<close>

lemma replaceByCycle_loop:
  "distinct (concat Cs) \<Longrightarrow>
   \<forall>C \<in> set Cs. s \<in> set C \<longrightarrow> depthFirstSearch g trigger (\<lambda>n. n \<in> set C) = Inr (Some (first C)) \<Longrightarrow>
   \<exists>T'. foldE (replaceByCycle g trigger s) Cs T = Inr T'
     \<and> set T' = (if \<exists>C \<in> set Cs. s \<in> set C then set T - {s} else set T) \<union> first ` {C \<in> set Cs. s \<in> set C}"
proof (induction Cs arbitrary: T)
  case (Cons C Cs)
  show ?case
  proof (cases "s \<in> set C")
    case True
    with Cons.prems(1) have others: "\<forall>D \<in> set Cs. s \<notin> set D" by auto
    have step: "replaceByCycle g trigger s C T = Inr (set_add (first C) (set_del s T))"
      using True Cons.prems(2) by (simp add: replaceByCycle_def assertSome_def)
    have none: "{D \<in> set Cs. s \<in> set D} = {}" using others by auto
    from Cons.IH [of "set_add (first C) (set_del s T)"] Cons.prems others obtain T' where
      "foldE (replaceByCycle g trigger s) Cs (set_add (first C) (set_del s T)) = Inr T'"
      "set T' = insert (first C) (set T - {s})" unfolding none by auto
    moreover have "{D \<in> set (C # Cs). s \<in> set D} = {C}" using True others by auto
    ultimately show ?thesis using step True by auto
  next
    case False
    then have "{D \<in> set (C # Cs). s \<in> set D} = {D \<in> set Cs. s \<in> set D}" by auto
    with False Cons.IH [of T] Cons.prems show ?thesis by (simp add: replaceByCycle_def)
  qed
qed simp

lemma handleCycles_loop:
  assumes "distinct (concat Cs)" and firsts: "\<forall>C \<in> set Cs. (\<exists>s \<in> S. s \<in> set C) \<longrightarrow> first C \<in> set C
      \<and> depthFirstSearch g trigger (\<lambda>n. n \<in> set C) = Inr (Some (first C))"
  shows "set ss \<subseteq> S \<Longrightarrow> \<exists>T'. foldE (\<lambda>s. foldE (replaceByCycle g trigger s) Cs) ss T = Inr T'
    \<and> set T' = (set T - {s \<in> set ss. \<exists>C \<in> set Cs. s \<in> set C}) \<union> first ` {C \<in> set Cs. \<exists>s \<in> set ss. s \<in> set C}"
proof (induction ss arbitrary: T)
  case (Cons s ss)
  have "\<forall>C \<in> set Cs. s \<in> set C \<longrightarrow> depthFirstSearch g trigger (\<lambda>n. n \<in> set C) = Inr (Some (first C))"
    using firsts Cons.prems by auto
  from replaceByCycle_loop [OF assms(1) this, of T] obtain T1 where
    1: "foldE (replaceByCycle g trigger s) Cs T = Inr T1"
      "set T1 = (if \<exists>C \<in> set Cs. s \<in> set C then set T - {s} else set T) \<union> first ` {C \<in> set Cs. s \<in> set C}"
    by blast
  from Cons.IH [of T1] Cons.prems obtain T2 where
    2: "foldE (\<lambda>s. foldE (replaceByCycle g trigger s) Cs) ss T1 = Inr T2"
      "set T2 = (set T1 - {s \<in> set ss. \<exists>C \<in> set Cs. s \<in> set C}) \<union> first ` {C \<in> set Cs. \<exists>s \<in> set ss. s \<in> set C}"
    by auto
  have again: "first C \<in> first ` {C \<in> set Cs. \<exists>s \<in> set ss. s \<in> set C}"
    if "C \<in> set Cs" "s \<in> set C" "first C \<in> set ss" for C
    using that firsts Cons.prems by auto
  have "set T2 = (set T - {x \<in> set (s # ss). \<exists>C \<in> set Cs. x \<in> set C}) \<union> first ` {C \<in> set Cs. \<exists>x \<in> set (s # ss). x \<in> set C}"
    unfolding 2(2) 1(2) using again by (auto split: if_splits)
  with 1(1) 2(1) show ?case by simp
qed simp

text \<open>
  C14: When the start nodes are reachable from the trigger, handling cycles replaces exactly the
  start nodes that are in a reported component by the first node of that component that the
  depth-first search from the trigger meets.
\<close>

theorem handleCycles_exact:
  assumes "wf_graph g" "node_exists g trigger" "\<forall>s \<in> set startNodes. (trigger, s) \<in> (gedges g)\<^sup>*"
  shows "\<exists>sccs first newStartNodes. getStronglyConnectedComponents g = Inr sccs
    \<and> handleCycles g startNodes trigger = Inr newStartNodes
    \<and> (\<forall>C \<in> set sccs. (\<exists>s \<in> set startNodes. s \<in> set C) \<longrightarrow> first C \<in> set C
         \<and> depthFirstSearch g trigger (\<lambda>n. n \<in> set C) = Inr (Some (first C)))
    \<and> set newStartNodes = {s \<in> set startNodes. \<forall>C \<in> set sccs. s \<notin> set C}
        \<union> first ` {C \<in> set sccs. \<exists>s \<in> set startNodes. s \<in> set C}"
proof -
  obtain sccs where sccs: "getStronglyConnectedComponents g = Inr sccs" "distinct (concat sccs)"
    "\<forall>C \<in> set sccs. C \<noteq> []"
    using scc_components [OF assms(1)] by blast
  define first where "first C = (case depthFirstSearch g trigger (\<lambda>n. n \<in> set C) of Inr (Some n) \<Rightarrow> n | _ \<Rightarrow> trigger)" for C
  have first: "first C \<in> set C \<and> depthFirstSearch g trigger (\<lambda>n. n \<in> set C) = Inr (Some (first C))"
    if "s \<in> set startNodes" "s \<in> set C" for C s
  proof -
    obtain found where f: "depthFirstSearch g trigger (\<lambda>n. n \<in> set C) = Inr found"
      "\<forall>m. found = Some m \<longrightarrow> m \<in> set C" "found = None \<longrightarrow> (\<forall>m. (trigger, m) \<in> (gedges g)\<^sup>* \<longrightarrow> m \<notin> set C)"
      using dfs_finds [OF assms(1,2), of "\<lambda>n. n \<in> set C"] by blast
    then have "found \<noteq> None" using that assms(3) by blast
    with f(1,2) show ?thesis by (auto simp: first_def)
  qed
  have "\<forall>C \<in> set sccs. (\<exists>s \<in> set startNodes. s \<in> set C) \<longrightarrow> first C \<in> set C
      \<and> depthFirstSearch g trigger (\<lambda>n. n \<in> set C) = Inr (Some (first C))"
    using first by blast
  from handleCycles_loop [OF sccs(2) this subset_refl, of startNodes] obtain T' where
    T': "foldE (\<lambda>s. foldE (replaceByCycle g trigger s) sccs) startNodes startNodes = Inr T'"
      "set T' = (set startNodes - {s \<in> set startNodes. \<exists>C \<in> set sccs. s \<in> set C})
        \<union> first ` {C \<in> set sccs. \<exists>s \<in> set startNodes. s \<in> set C}" by blast
  have "filter (\<lambda>cycle. 1 \<le> length cycle) sccs = sccs"
    using sccs(3) by (auto simp: filter_id_conv Suc_le_eq)
  with T'(1) sccs(1) have "handleCycles g startNodes trigger = Inr T'"
    by (simp add: handleCycles_def Let_def)
  with sccs(1) T'(2) first show ?thesis
    by (intro exI [of _ sccs] exI [of _ first] exI [of _ T']) blast
qed

end
