(* ===== verification/SubgraphFacts.thy ===== *)
theory SubgraphFacts
  imports Subgraph StartNodesFacts
begin

section \<open>What findSubgraph and the choice of the trigger promise\<close>

text \<open>
  The subgraph is part of the graph, its main connections lead to the destination, and the choice
  of the trigger among the candidates.
\<close>

definition main_edges :: "dgraph \<Rightarrow> (inode \<times> inode) set" where
  "main_edges g = {(a, b). \<exists>c \<in> set (graph_conns g). g_from c = a \<and> g_to c = b \<and> g_type c = Main}"

text \<open>What every graph built during the search satisfies.\<close>

definition part_of :: "dgraph \<Rightarrow> inode \<Rightarrow> dgraph \<Rightarrow> bool" where
  "part_of g destination G \<longleftrightarrow> wf_graph G \<and> (\<forall>n. node_exists G n \<longrightarrow> node_exists g n)
     \<and> (\<forall>c \<in> set (graph_conns G). c \<in> set (graph_conns g)
          \<and> (g_type c = Main \<longrightarrow> (g_to c, destination) \<in> (main_edges g)\<^sup>*))"

definition may_keep :: "dgraph \<Rightarrow> inode \<Rightarrow> gconn \<Rightarrow> bool" where
  "may_keep g destination c \<longleftrightarrow> c \<in> set (graph_conns g)
     \<and> (g_type c = Main \<longrightarrow> (g_to c, destination) \<in> (main_edges g)\<^sup>*)"

lemma part_of_empty: "part_of g destination emptyGraph"
  by (simp add: part_of_def graph_conns_def emptyGraph_def node_exists_def) (simp add: wf_graph_def)

lemma graph_conns_addNode [simp]: "graph_conns (addNode n G) = graph_conns G"
  by (simp add: addNode_def graph_conns_def)

lemma part_of_addNode:
  assumes "part_of g destination G" "node_exists g n"
  shows "part_of g destination (addNode n G)"
proof -
  have "obj_get (g_nodes G) (n_name n) \<in> {None, Some n}"
  proof (cases "obj_get (g_nodes G) (n_name n)")
    case (Some m)
    then have "n_name m = n_name n"
      using assms(1) by (auto simp: part_of_def wf_graph_def dest: obj_get_mem)
    with Some have "node_exists G m" by (simp add: node_exists_def)
    with assms(1) have "node_exists g m" by (simp add: part_of_def)
    with \<open>n_name m = n_name n\<close> assms(2) Some show ?thesis by (simp add: node_exists_def)
  qed simp
  with assms show ?thesis
    using wf_addNode [of G n] by (auto simp: part_of_def node_exists_addNode)
qed

lemma conns_set_conn_subset: "set (graph_conns (set_conn c G)) \<subseteq> insert c (set (graph_conns G))"
  using obj_set_values [of "makeKey c" c "g_conns G"] by (simp add: set_conn_def graph_conns_def)

lemma keepConnection_part_of:
  assumes "wf_graph g" "part_of g destination G" "may_keep g destination c"
  shows "\<exists>G'. keepConnection c G = Inr G' \<and> part_of g destination G'
    \<and> (\<forall>n. node_exists G' n \<longleftrightarrow> node_exists G n \<or> n = g_from c \<or> n = g_to c)"
proof -
  have c: "c \<in> set (graph_conns g)" using assms(3) by (simp add: may_keep_def)
  note ends = wf_graph_conn [OF assms(1) c]
  let ?G = "addNode (g_to c) (addNode (g_from c) G)"
  have p: "part_of g destination ?G"
    using part_of_addNode [OF part_of_addNode [OF assms(2)]] ends by blast
  have same: "n_name n = n_name m \<Longrightarrow> n = m" if "node_exists g n" "node_exists g m" for n m
    using that by (simp add: node_exists_def)
  have ex: "node_exists ?G n \<longleftrightarrow> node_exists G n \<or> n = g_from c \<or> n = g_to c" for n
  proof -
    have "node_exists G n \<Longrightarrow> node_exists g n" using assms(2) by (simp add: part_of_def)
    with same [of n "g_from c"] same [of n "g_to c"] same [of "g_from c" "g_to c"] ends show ?thesis
      unfolding node_exists_addNode by blast
  qed
  have run: "keepConnection c G = Inr (set_conn c ?G)"
    using ex by (cases c) (simp add: keepConnection_def addNodes_def addConnection_def)
  have "part_of g destination (set_conn c ?G)"
    using p assms(3) ex conns_set_conn_subset [of c ?G] wf_set_conn [of ?G c]
    unfolding part_of_def may_keep_def by auto
  with run ex show ?thesis by (intro exI [of _ "set_conn c ?G"]) simp
qed

lemma keepBranch_part_of:
  assumes "wf_graph g"
  shows "part_of g destination G \<Longrightarrow> \<forall>c \<in> set cs. may_keep g destination c \<Longrightarrow>
    \<exists>G'. foldE keepConnection cs G = Inr G' \<and> part_of g destination G'
      \<and> (\<forall>n. node_exists G' n \<longleftrightarrow> node_exists G n \<or> n \<in> g_from ` set cs \<or> n \<in> g_to ` set cs)"
proof (induction cs arbitrary: G)
  case (Cons c cs)
  from keepConnection_part_of [OF assms Cons.prems(1), of c] Cons.prems(2) obtain G1 where
    1: "keepConnection c G = Inr G1" "part_of g destination G1"
      "\<forall>n. node_exists G1 n \<longleftrightarrow> node_exists G n \<or> n = g_from c \<or> n = g_to c" by auto
  from Cons.IH [OF 1(2)] Cons.prems(2) obtain G2 where
    "foldE keepConnection cs G1 = Inr G2" "part_of g destination G2"
    "\<forall>n. node_exists G2 n \<longleftrightarrow> node_exists G1 n \<or> n \<in> g_from ` set cs \<or> n \<in> g_to ` set cs" by auto
  with 1(1,3) show ?case by auto
qed simp

text \<open>The trigger is found from a node when a path of main connections leads to it without visiting a node twice.\<close>

definition trigger_from :: "dgraph \<Rightarrow> inode \<Rightarrow> inode \<Rightarrow> inode set \<Rightarrow> bool" where
  "trigger_from g trigger n seen \<longleftrightarrow> n = trigger \<or>
     n \<notin> seen \<and> (n, trigger) \<in> (avoid ((main_edges g)\<inverse>) (insert n seen))\<^sup>+"

lemma trigger_from_step:
  assumes "n \<noteq> trigger" "n \<notin> seen" "trigger \<notin> seen"
  shows "trigger_from g trigger n seen \<longleftrightarrow>
    (\<exists>p. (p, n) \<in> main_edges g \<and> trigger_from g trigger p (insert n seen))"
proof -
  have "trigger_from g trigger n seen \<longleftrightarrow> (n, trigger) \<in> (avoid ((main_edges g)\<inverse>) (insert n seen))\<^sup>+"
    using assms by (simp add: trigger_from_def)
  also have "\<dots> \<longleftrightarrow> (\<exists>p. (p, n) \<in> main_edges g \<and> p \<notin> insert n seen
      \<and> (trigger = p \<or> (p, trigger) \<in> (avoid ((main_edges g)\<inverse>) (insert p (insert n seen)))\<^sup>+))"
    unfolding avoid_unfold [of n] by simp
  also have "\<dots> \<longleftrightarrow> (\<exists>p. (p, n) \<in> main_edges g \<and> trigger_from g trigger p (insert n seen))"
    using assms unfolding trigger_from_def by blast
  finally show ?thesis .
qed

definition branch_ok :: "dgraph \<Rightarrow> inode \<Rightarrow> inode \<Rightarrow> inode \<Rightarrow> gconn list \<Rightarrow> bool" where
  "branch_ok g destination trigger current cs \<longleftrightarrow> node_exists g current
     \<and> (current, destination) \<in> (main_edges g)\<^sup>* \<and> (\<forall>c \<in> set cs. may_keep g destination c)
     \<and> trigger \<notin> g_to ` set cs \<and> g_from ` set cs \<subseteq> insert current (g_to ` set cs)"

definition sub_result :: "dgraph \<Rightarrow> inode \<Rightarrow> inode \<Rightarrow> bool \<Rightarrow> dgraph \<Rightarrow> js_error + dgraph \<Rightarrow> bool" where
  "sub_result g destination trigger found G r \<longleftrightarrow> (\<exists>G'. r = Inr G' \<and> part_of g destination G'
     \<and> (node_exists G' trigger \<longleftrightarrow> node_exists G trigger \<or> found))"

lemma sub_result_fold:
  "part_of g destination G \<Longrightarrow>
   (\<And>x G. x \<in> set xs \<Longrightarrow> part_of g destination G \<Longrightarrow> sub_result g destination trigger (F x) G (f x G)) \<Longrightarrow>
   sub_result g destination trigger (\<exists>x \<in> set xs. F x) G (foldE f xs G)"
proof (induction xs arbitrary: G)
  case (Cons x xs)
  from Cons.prems(2) [of x G] Cons.prems(1) obtain G1 where
    1: "f x G = Inr G1" "part_of g destination G1" "node_exists G1 trigger \<longleftrightarrow> node_exists G trigger \<or> F x"
    by (auto simp: sub_result_def)
  from Cons.IH [OF 1(2)] Cons.prems(2) obtain G2 where
    "foldE f xs G1 = Inr G2" "part_of g destination G2"
    "node_exists G2 trigger \<longleftrightarrow> node_exists G1 trigger \<or> (\<exists>x \<in> set xs. F x)"
    by (auto simp: sub_result_def)
  with 1 show ?case by (auto simp: sub_result_def)
qed (simp add: sub_result_def)

lemma findSubgraphRecursive_result:
  assumes "wf_graph g" "node_exists g trigger"
  shows "part_of g destination G \<Longrightarrow> branch_ok g destination trigger current cs \<Longrightarrow>
    sub_result g destination trigger (trigger_from g trigger current (g_to ` set cs)) G
      (findSubgraphRecursive g destination current trigger G cs)"
  using assms
proof (induction g destination current trigger G cs rule: findSubgraphRecursive.induct)
  case (1 g destination current trigger G cs)
  note run = findSubgraphRecursive.simps [of g destination current trigger G cs]
  note wf = "1.prems"(3)
  have bok: "node_exists g current" "(current, destination) \<in> (main_edges g)\<^sup>*" "\<forall>c \<in> set cs. may_keep g destination c"
    "trigger \<notin> g_to ` set cs" "g_from ` set cs \<subseteq> insert current (g_to ` set cs)"
    using "1.prems"(2) by (simp_all add: branch_ok_def)
  show ?case
  proof (cases "current = trigger")
    case True
    have "findSubgraphRecursive g destination current trigger G cs = foldE keepConnection cs (addNode trigger G)"
      by (subst run) (simp add: True)
    with keepBranch_part_of [OF wf part_of_addNode [OF "1.prems"(1,4)] bok(3)] True show ?thesis
      by (auto simp: sub_result_def trigger_from_def node_exists_addNode)
  next
    case ne: False
    let ?ps = "filter (\<lambda>c. g_to c = current) (graph_conns g)"
    have ps: "getDirectParentConnections g current = Inr ?ps"
      using bok(1) by (simp add: getDirectParentConnections_def)
    show ?thesis
    proof (cases "current \<in> g_to ` set cs")
      case True
      have "trigger \<notin> g_from ` set cs" using ne bok(4,5) by auto
      with keepBranch_part_of [OF wf "1.prems"(1) bok(3)] ne True bok(4) "1.prems"(1) show ?thesis
        by (auto simp: sub_result_def trigger_from_def run ps)
    next
      case False
      let ?F = "\<lambda>p. g_type p = Main \<and> trigger_from g trigger (g_from p) (insert current (g_to ` set cs))"
      let ?f = "\<lambda>p G. if g_type p \<noteq> Main then Inr G
        else findSubgraphRecursive g destination (g_from p) trigger G (cs @ [p])"
      have dest: "\<not> (current = destination \<and> destination \<in> g_to ` set cs)" using False by auto
      have each: "sub_result g destination trigger (?F p) G' (?f p G')"
        if p: "p \<in> set ?ps" and G': "part_of g destination G'" for p G'
      proof (cases "g_type p = Main")
        case True
        have "(g_from p, current) \<in> main_edges g" using p True by (auto simp: main_edges_def)
        then have "branch_ok g destination trigger (g_from p) (cs @ [p])"
          using p bok ne wf_graph_conn [OF wf, of p]
          by (auto simp: branch_ok_def may_keep_def intro: converse_rtrancl_into_rtrancl)
        moreover have "?ps \<noteq> []" using p by (metis empty_iff empty_set)
        ultimately show ?thesis
          using "1.IH" [OF ne ps _ dest False p _ G' _ wf "1.prems"(4)] p True by auto
      qed (simp add: sub_result_def G')
      have "(\<exists>p \<in> set ?ps. ?F p) \<longleftrightarrow> trigger_from g trigger current (g_to ` set cs)"
        unfolding trigger_from_step [OF ne False bok(4)] by (auto simp: main_edges_def)
      moreover have "findSubgraphRecursive g destination current trigger G cs = foldE ?f ?ps G"
        by (subst run) (simp only: if_not_P [OF ne] ps bindE.simps if_not_P [OF dest] if_not_P [OF False], auto)
      moreover have "sub_result g destination trigger (\<exists>p \<in> set ?ps. ?F p) G (foldE ?f ?ps G)"
        by (rule sub_result_fold [OF "1.prems"(1)]) (rule each)
      ultimately show ?thesis by simp
    qed
  qed
qed

lemma gedges_rtrancl_ends: "wf_graph g \<Longrightarrow> (a, b) \<in> (gedges g)\<^sup>* \<Longrightarrow> node_exists g b \<Longrightarrow> node_exists g a"
  by (erule converse_rtranclE) (auto dest: gedges_exists)

lemma addUtilityParents_part_of:
  assumes "wf_graph g" "part_of g destination G" "node_exists g n"
  shows "\<exists>G'. addUtilityParents g n G = Inr G' \<and> part_of g destination G' \<and> (\<forall>m. node_exists G m \<longrightarrow> node_exists G' m)"
proof -
  obtain cs where cs: "getParentConnections g n = Inr cs" "set cs \<subseteq> set (graph_conns g)"
    using parent_connections_set [OF assms(1,3)] by blast
  have "\<exists>G'. foldE (\<lambda>c G. if g_type c = Main then Inr G else keepConnection c G) cs G = Inr G'
      \<and> part_of g destination G' \<and> (\<forall>m. node_exists G m \<longrightarrow> node_exists G' m)"
  proof (rule foldE_total [where P = "\<lambda>G'. part_of g destination G' \<and> (\<forall>m. node_exists G m \<longrightarrow> node_exists G' m)"])
    fix c G' assume c: "c \<in> set cs" and "part_of g destination G' \<and> (\<forall>m. node_exists G m \<longrightarrow> node_exists G' m)"
    moreover from c cs(2) have "c \<in> set (graph_conns g)" by blast
    ultimately show "\<exists>t. (if g_type c = Main then Inr G' else keepConnection c G') = Inr t
        \<and> part_of g destination t \<and> (\<forall>m. node_exists G m \<longrightarrow> node_exists t m)"
      using keepConnection_part_of [OF assms(1), of destination G' c] by (auto simp: may_keep_def)
  qed (use assms(2) in simp)
  with cs(1) show ?thesis by (simp add: addUtilityParents_def)
qed

lemma main_edges_rtrancl: "(n, trigger) \<in> ((main_edges g)\<inverse>)\<^sup>* \<longleftrightarrow> (trigger, n) \<in> (main_edges g)\<^sup>*"
  by (simp add: rtrancl_converse)

text \<open>
  C9: The subgraph of a well-formed graph for two of its nodes is well-formed and part of the
  graph; from the end of each of its main connections the destination can be reached by main
  connections; and when the trigger can reach the destination that way, it is in the subgraph.
\<close>

theorem findSubgraph_leads_to_destination:
  assumes "wf_graph g" "node_exists g destination" "node_exists g trigger"
  shows "\<exists>s. findSubgraph g destination trigger = Inr s \<and> wf_graph s
    \<and> (\<forall>n. node_exists s n \<longrightarrow> node_exists g n)
    \<and> (\<forall>c \<in> set (graph_conns s). c \<in> set (graph_conns g)
         \<and> (g_type c = Main \<longrightarrow> (g_to c, destination) \<in> (main_edges g)\<^sup>*))
    \<and> ((trigger, destination) \<in> (main_edges g)\<^sup>* \<longrightarrow> node_exists s trigger)"
proof -
  have "branch_ok g destination trigger destination []" using assms(2) by (simp add: branch_ok_def)
  from findSubgraphRecursive_result [OF assms(1,3) part_of_empty this] obtain G where
    G: "findSubgraphRecursive g destination destination trigger emptyGraph [] = Inr G" "part_of g destination G"
      "node_exists G trigger \<longleftrightarrow> trigger_from g trigger destination {}"
    by (auto simp: sub_result_def) (simp add: node_exists_def emptyGraph_def)
  have found: "trigger_from g trigger destination {}" if "(trigger, destination) \<in> (main_edges g)\<^sup>*"
    using that avoid_start [of destination trigger "(main_edges g)\<inverse>" "{}"]
    unfolding trigger_from_def main_edges_rtrancl [symmetric] by (auto simp: rtrancl_eq_or_trancl)
  have nodes: "node_exists g n" if "n \<in> set (graph_nodes G)" for n
    using that G(2) graph_nodes_exists [of G n] by (simp add: part_of_def)
  have "\<exists>s. foldE (addUtilityParents g) (graph_nodes G) G = Inr s
      \<and> part_of g destination s \<and> (\<forall>m. node_exists G m \<longrightarrow> node_exists s m)"
  proof (rule foldE_total [where P = "\<lambda>s. part_of g destination s \<and> (\<forall>m. node_exists G m \<longrightarrow> node_exists s m)"])
    fix n s assume "n \<in> set (graph_nodes G)" "part_of g destination s \<and> (\<forall>m. node_exists G m \<longrightarrow> node_exists s m)"
    then show "\<exists>t. addUtilityParents g n s = Inr t \<and> part_of g destination t \<and> (\<forall>m. node_exists G m \<longrightarrow> node_exists t m)"
      using addUtilityParents_part_of [OF assms(1), of destination s n] nodes by blast
  qed (use G(2) in simp)
  then obtain s where "findSubgraph g destination trigger = Inr s" "part_of g destination s"
    "\<forall>m. node_exists G m \<longrightarrow> node_exists s m"
    using G(1) by (auto simp: findSubgraph_def)
  with G(3) found show ?thesis unfolding part_of_def by blast
qed

text \<open>A cycle that leads to the destination is kept although the trigger does not reach it.\<close>

definition foreign_cycle :: dgraph where
  "foreign_cycle = fold set_conn
     [main_conn ''t'' ''d'', main_conn ''p'' ''q'', main_conn ''q'' ''p'', main_conn ''q'' ''d'']
     (addNodes [plain_node ''t'', plain_node ''p'', plain_node ''q'', plain_node ''d''] emptyGraph)"

lemma findSubgraph_keeps_foreign_cycle:
  "case findSubgraph foreign_cycle (plain_node ''d'') (plain_node ''t'') of
     Inl e \<Rightarrow> False
   | Inr s \<Rightarrow> node_exists s (plain_node ''p'') \<and> node_exists s (plain_node ''q'')
       \<and> getConnection foreign_cycle (plain_node ''t'') 0 Main 0 (plain_node ''p'') = None"
  by code_simp

subsection \<open>findTriggerForPartialExecution\<close>

lemma filterE_Inr: "filterE p xs = Inr ys \<Longrightarrow> (\<forall>x \<in> set xs. \<exists>b. p x = Inr b) \<and> ys = filter (\<lambda>x. p x = Inr True) xs"
  by (induction xs arbitrary: ys) (auto simp: bindE_eq_Inr)

lemma list_all2_lookup: "list_all2 (\<lambda>p t. f p = Some t) ps ts \<Longrightarrow> t \<in> set ts \<longleftrightarrow> (\<exists>p \<in> set ps. f p = Some t)"
  by (induction ps ts rule: list_all2_induct) auto

definition enabled_trigger :: "workflow \<Rightarrow> inode \<Rightarrow> bool" where
  "enabled_trigger w t \<longleftrightarrow> nodeIsTrigger w t = Inr True \<and> \<not> isDisabled t"

lemma js_sort_Nil_iff [simp]: "js_sort c xs = [] \<longleftrightarrow> xs = []"
  by (metis length_0_conv length_js_sort)

lemma find_exists: "x \<in> set xs \<Longrightarrow> P x \<Longrightarrow> \<exists>u. find P xs = Some u"
  by (induction xs) auto

lemma idx_0_mem: "idx xs 0 = Some x \<Longrightarrow> x \<in> set xs"
  by (cases xs) auto

lemma chooseTrigger_mem:
  assumes "chooseTrigger w r ts = Some t"
  shows "t \<in> set ts"
proof (cases "find (\<lambda>t. obj_has (n_name t) r) ts")
  case (Some u)
  with assms find_SomeD' [OF Some] show ?thesis by (simp add: chooseTrigger_def)
next
  case None
  let ?pinned = "js_sort webhookFirst (filter (\<lambda>t. getPinDataOfNode w (n_name t) \<noteq> None) ts)"
  have "idx ?pinned 0 = Some t \<or> idx (filter isWebhookTrigger ts) 0 = Some t \<or> idx ts 0 = Some t"
    using assms None by (simp add: chooseTrigger_def Let_def split: if_splits)
  then show ?thesis by (elim disjE) (auto dest!: idx_0_mem)
qed

lemma chooseTrigger_None: "chooseTrigger w r ts = None \<longleftrightarrow> ts = []"
proof
  assume "chooseTrigger w r ts = None"
  then show "ts = []" by (auto simp: chooseTrigger_def Let_def idx_def split: option.splits if_splits)
qed (simp add: chooseTrigger_def Let_def)

lemma parent_triggers:
  assumes "findAllParentTriggers w n = Inr triggers"
  shows "t \<in> set (filter (\<lambda>t. \<not> isDisabled t) triggers)
    \<longleftrightarrow> enabled_trigger w t \<and> (\<exists>p \<in> set (parentNodes w n). getNode w p = Some t)"
proof -
  from assms obtain nodes where "mapE (\<lambda>name. assertSome (getNode w name)) (parentNodes w n) = Inr nodes"
    "filterE (nodeIsTrigger w) nodes = Inr triggers"
    by (auto simp: findAllParentTriggers_def bindE_eq_Inr)
  then have l2: "list_all2 (\<lambda>p t. getNode w p = Some t) (parentNodes w n) nodes"
    and tr: "triggers = filter (\<lambda>x. nodeIsTrigger w x = Inr True) nodes"
    using mapE_Inr filterE_Inr
    by (fastforce simp: assertSome_def elim!: list_all2_mono split: option.splits)+
  have "t \<in> set nodes \<longleftrightarrow> (\<exists>p \<in> set (parentNodes w n). getNode w p = Some t)"
    by (rule list_all2_lookup [OF l2])
  then show ?thesis unfolding tr enabled_trigger_def by auto
qed

text \<open>
  The trigger chosen for a partial execution is an enabled trigger: the destination itself if
  it is one, otherwise one among the nodes the destination can be reached from; none is returned
  only if there is none, and one that has run data is preferred.
\<close>

theorem findTrigger_choice:
  assumes "findTriggerForPartialExecution w n runData = Inr r" "getNode w n = Some d"
  shows "if enabled_trigger w d then r = Some d
    else (\<forall>t. r = Some t \<longrightarrow> enabled_trigger w t \<and> (\<exists>p \<in> set (parentNodes w n). getNode w p = Some t))
      \<and> (r = None \<longrightarrow> (\<forall>p \<in> set (parentNodes w n). \<forall>t. getNode w p = Some t \<longrightarrow> \<not> enabled_trigger w t))
      \<and> ((\<exists>p \<in> set (parentNodes w n). \<exists>t. getNode w p = Some t \<and> enabled_trigger w t \<and> obj_has (n_name t) runData)
          \<longrightarrow> (\<exists>t. r = Some t \<and> obj_has (n_name t) runData))"
proof -
  from assms obtain trig where trig: "nodeIsTrigger w d = Inr trig"
    by (auto simp: findTriggerForPartialExecution_def bindE_eq_Inr)
  show ?thesis
  proof (cases "enabled_trigger w d")
    case True
    with assms show ?thesis by (simp add: findTriggerForPartialExecution_def enabled_trigger_def)
  next
    case False
    with trig have "\<not> (trig \<and> \<not> isDisabled d)" by (auto simp: enabled_trigger_def)
    with assms trig obtain triggers where
      triggers: "findAllParentTriggers w n = Inr triggers"
        "r = chooseTrigger w runData (filter (\<lambda>t. \<not> isDisabled t) triggers)"
      by (auto simp: findTriggerForPartialExecution_def bindE_eq_Inr)
    let ?ts = "filter (\<lambda>t. \<not> isDisabled t) triggers"
    note ts = parent_triggers [OF triggers(1)]
    have run: "\<exists>t. r = Some t \<and> obj_has (n_name t) runData" if "t \<in> set ?ts" "obj_has (n_name t) runData" for t
    proof -
      note t = that
      obtain u where "find (\<lambda>t. obj_has (n_name t) runData) ?ts = Some u"
        using find_exists [of t ?ts "\<lambda>t. obj_has (n_name t) runData"] t by blast
      with find_SomeD' [OF this] show ?thesis unfolding triggers(2) by (simp add: chooseTrigger_def)
    qed
    have "enabled_trigger w t \<and> (\<exists>p \<in> set (parentNodes w n). getNode w p = Some t)" if "r = Some t" for t
      using chooseTrigger_mem [of w runData ?ts t] that ts [of t] unfolding triggers(2) by blast
    moreover have "\<not> enabled_trigger w t" if "r = None" "p \<in> set (parentNodes w n)" "getNode w p = Some t" for p t
    proof -
      have "?ts = []" using chooseTrigger_None [of w runData ?ts] that(1) unfolding triggers(2) by blast
      then have "t \<notin> set ?ts" by (simp only: list.set) simp
      with ts [of t] that(2,3) show ?thesis by blast
    qed
    moreover have "\<exists>t. r = Some t \<and> obj_has (n_name t) runData"
      if "p \<in> set (parentNodes w n)" "getNode w p = Some t" "enabled_trigger w t" "obj_has (n_name t) runData" for p t
      using run [of t] ts [of t] that by blast
    ultimately show ?thesis unfolding if_not_P [OF False] by blast
  qed
qed

end
