(* ===== verification/StackFacts.thy ===== *)
theory StackFacts
  imports StackRecreation SubgraphFacts
begin

section \<open>What recreating the stack promises\<close>

text \<open>
  The groups of incoming connections partition them; the recreated stack has one entry for every
  complete group; waiting data and waiting sources have the same keys.
\<close>

subsection \<open>getSourceDataGroups\<close>

lemma take_input_Some:
  "take_input i cs = Some (c, ds) \<Longrightarrow> g_in c = i \<and> mset cs = add_mset c (mset ds)"
  by (induction cs arbitrary: ds) (auto split: if_splits option.splits)

text \<open>A group of connections to consecutive inputs, complete exactly when all of them have data.\<close>

definition group_ok :: "run_data \<Rightarrow> pin_data \<Rightarrow> source_group \<Rightarrow> bool" where
  "group_ok runData pinData grp \<longleftrightarrow> sg_connections grp \<noteq> []
     \<and> (\<exists>k. map g_in (sg_connections grp) = [k..<k + length (sg_connections grp)])
     \<and> (sg_complete grp \<longleftrightarrow> (\<forall>c \<in> set (sg_connections grp). hasSourceData runData pinData c))"

definition current_ok :: "run_data \<Rightarrow> pin_data \<Rightarrow> nat \<Rightarrow> gconn list \<Rightarrow> source_group \<Rightarrow> bool" where
  "current_ok runData pinData next rest grp \<longleftrightarrow>
     (sg_connections grp = [] \<longrightarrow> next \<in> g_in ` set rest)
     \<and> (\<exists>k \<le> next. map g_in (sg_connections grp) = [k..<next])
     \<and> (sg_complete grp \<longleftrightarrow> (\<forall>c \<in> set (sg_connections grp). hasSourceData runData pinData c))"

lemma current_group_ok:
  "current_ok runData pinData next rest grp \<Longrightarrow> sg_connections grp \<noteq> [] \<Longrightarrow> group_ok runData pinData grp"
proof -
  assume cur: "current_ok runData pinData next rest grp" and ne: "sg_connections grp \<noteq> []"
  from cur obtain k where k: "k \<le> next" "map g_in (sg_connections grp) = [k..<next]"
    by (auto simp: current_ok_def)
  then have "length (sg_connections grp) = next - k" by (metis length_map length_upt)
  with k have "map g_in (sg_connections grp) = [k..<k + length (sg_connections grp)]" by simp
  with cur ne show ?thesis by (auto simp: group_ok_def current_ok_def)
qed

lemma current_ok_push:
  assumes "current_ok runData pinData next rest grp" "g_in c = next"
  shows "current_ok runData pinData (Suc next) rest'
    \<lparr>sg_complete = (sg_complete grp \<and> hasSourceData runData pinData c), sg_connections = sg_connections grp @ [c]\<rparr>"
proof -
  from assms(1) obtain k where "k \<le> next" "map g_in (sg_connections grp) = [k..<next]"
    by (auto simp: current_ok_def)
  with assms show ?thesis unfolding current_ok_def by (auto intro!: exI [of _ k])
qed

lemma current_ok_new: "all \<noteq> [] \<Longrightarrow> current_ok runData pinData (min_input all) all newGroup"
proof -
  assume "all \<noteq> []"
  then have "min_input all \<in> g_in ` set all" unfolding min_input_def by (intro Min_in) auto
  then show ?thesis unfolding current_ok_def newGroup_def
    by (intro conjI exI [of _ "min_input all"]) simp_all
qed

definition grouped :: "source_group list \<Rightarrow> gconn multiset" where
  "grouped groups = mset (concat (map sg_connections groups))"

lemma groups_loop_ok:
  "\<forall>c \<in> set withData. hasSourceData runData pinData c \<Longrightarrow> \<forall>c \<in> set withoutData. \<not> hasSourceData runData pinData c \<Longrightarrow>
   \<forall>grp \<in> set groups. group_ok runData pinData grp \<Longrightarrow>
   current_ok runData pinData next (withData @ withoutData) currentGroup \<Longrightarrow>
   (\<forall>grp \<in> set (groups_loop withData withoutData next currentGroup groups). group_ok runData pinData grp)
   \<and> grouped (groups_loop withData withoutData next currentGroup groups)
     = grouped groups + mset (sg_connections currentGroup) + mset withData + mset withoutData"
proof (induction withData withoutData "next" currentGroup groups rule: groups_loop.induct)
  case (1 withData withoutData "next" currentGroup groups)
  note run = groups_loop.simps [of withData withoutData "next" currentGroup groups]
  show ?case
  proof (cases "withData = [] \<and> withoutData = []")
    case True
    with "1.prems"(4) have "sg_connections currentGroup \<noteq> []" by (auto simp: current_ok_def)
    moreover have "groups_loop withData withoutData next currentGroup groups = groups @ [currentGroup]"
      by (subst run) (simp add: True)
    ultimately show ?thesis using current_group_ok [OF "1.prems"(4)] "1.prems"(3) True
      by (simp add: grouped_def)
  next
    case nonempty: False
    show ?thesis
    proof (cases "take_input next withData")
      case (Some p)
      then obtain c rest where p: "take_input next withData = Some (c, rest)" by (cases p) auto
      note c = take_input_Some [OF p]
      have mem: "set withData = insert c (set rest)" using c by (metis set_mset_add_mset_insert set_mset_mset)
      have "current_ok runData pinData (Suc next) (rest @ withoutData)
          (currentGroup\<lparr>sg_connections := sg_connections currentGroup @ [c]\<rparr>)"
        using current_ok_push [OF "1.prems"(4), of c] c "1.prems"(1) mem by (cases currentGroup) simp
      moreover have "groups_loop withData withoutData next currentGroup groups = groups_loop rest withoutData (Suc next)
          (currentGroup\<lparr>sg_connections := sg_connections currentGroup @ [c]\<rparr>) groups"
        by (subst run) (simp only: if_not_P [OF nonempty] p option.case prod.case)
      ultimately show ?thesis using "1.IH"(3) [OF nonempty p refl _ "1.prems"(2,3)] "1.prems"(1) mem c by simp
    next
      case None
      show ?thesis
      proof (cases "take_input next withoutData")
        case (Some p)
        then obtain c rest where p: "take_input next withoutData = Some (c, rest)" by (cases p) auto
        note c = take_input_Some [OF p]
        have mem: "set withoutData = insert c (set rest)" using c by (metis set_mset_add_mset_insert set_mset_mset)
        have "current_ok runData pinData (Suc next) (withData @ rest)
            \<lparr>sg_complete = False, sg_connections = sg_connections currentGroup @ [c]\<rparr>"
          using current_ok_push [OF "1.prems"(4), of c] c "1.prems"(2) mem by simp
        moreover have "groups_loop withData withoutData next currentGroup groups = groups_loop withData rest (Suc next)
            \<lparr>sg_complete = False, sg_connections = sg_connections currentGroup @ [c]\<rparr> groups"
          by (subst run) (simp only: if_not_P [OF nonempty] None p option.case prod.case)
        ultimately show ?thesis
          using "1.IH"(2) [OF nonempty None p refl "1.prems"(1) _ "1.prems"(3)] "1.prems"(2) mem c by simp
      next
        case none: None
        have "next \<notin> g_in ` set (withData @ withoutData)"
          using None none by (auto simp: take_input_None)
        with "1.prems"(4) have "sg_connections currentGroup \<noteq> []" by (auto simp: current_ok_def)
        then have "group_ok runData pinData currentGroup" by (rule current_group_ok [OF "1.prems"(4)])
        with "1.prems"(3) have gs: "\<forall>grp \<in> set (groups @ [currentGroup]). group_ok runData pinData grp" by simp
        have cur: "current_ok runData pinData (min_input (withData @ withoutData)) (withData @ withoutData) newGroup"
          using nonempty by (intro current_ok_new) simp
        have "groups_loop withData withoutData next currentGroup groups
            = groups_loop withData withoutData (min_input (withData @ withoutData)) newGroup (groups @ [currentGroup])"
          by (subst run) (simp only: if_not_P [OF nonempty] None none option.case)
        with "1.IH"(1) [OF nonempty None none "1.prems"(1,2) gs cur] show ?thesis
          by (simp add: grouped_def newGroup_def)
      qed
    qed
  qed
qed

lemma getSourceDataGroups_result:
  "(\<forall>grp \<in> set (getSourceDataGroups localeCompare g node runData pinData).
      sg_connections grp \<noteq> []
      \<and> (\<exists>k. map g_in (sg_connections grp) = [k..<k + length (sg_connections grp)])
      \<and> (sg_complete grp \<longleftrightarrow> (\<forall>c \<in> set (sg_connections grp). hasSourceData runData pinData c)))
   \<and> mset (concat (map sg_connections (getSourceDataGroups localeCompare g node runData pinData)))
     = mset (filter (\<lambda>c. hasSourceData runData pinData c \<or> g_type c = Main) (getConnections g (Some node)))"
proof -
  let ?cs = "getConnections g (Some node)"
  have split0: "mset (filter P cs) + mset (filter (\<lambda>c. \<not> P c \<and> Q c) cs) = mset (filter (\<lambda>c. P c \<or> Q c) cs)"
    for P Q and cs :: "gconn list"
    by (induction cs) auto
  let ?with = "filter (hasSourceData runData pinData) ?cs"
  let ?without = "filter (\<lambda>c. \<not> hasSourceData runData pinData c \<and> g_type c = Main) ?cs"
  let ?s = "js_sort (sortByInputIndexThenByName localeCompare)"
  have split: "mset ?with + mset ?without = mset (filter (\<lambda>c. hasSourceData runData pinData c \<or> g_type c = Main) ?cs)"
    by (rule split0)
  show ?thesis
  proof (cases "?with = [] \<and> ?without = []")
    case True
    with split show ?thesis by (simp add: getSourceDataGroups_def Let_def)
  next
    case False
    have "min_input (?with @ ?without) = min_input (?s ?with @ ?s ?without)" by (simp add: min_input_def)
    then have eq: "getSourceDataGroups localeCompare g node runData pinData
        = groups_loop (?s ?with) (?s ?without) (min_input (?s ?with @ ?s ?without)) newGroup []"
      unfolding getSourceDataGroups_def Let_def if_not_P [OF False] by (simp only:)
    have "?s ?with @ ?s ?without \<noteq> []" using False by simp
    note cur = current_ok_new [OF this, of runData pinData]
    have "\<forall>c \<in> set (?s ?with). hasSourceData runData pinData c" "\<forall>c \<in> set (?s ?without). \<not> hasSourceData runData pinData c"
      "\<forall>grp \<in> set []. group_ok runData pinData grp" by simp_all
    from groups_loop_ok [OF this cur]
    have "(\<forall>grp \<in> set (getSourceDataGroups localeCompare g node runData pinData). group_ok runData pinData grp)
      \<and> grouped (getSourceDataGroups localeCompare g node runData pinData) = mset ?with + mset ?without"
      unfolding eq by (simp add: grouped_def newGroup_def)
    then show ?thesis unfolding split group_ok_def grouped_def .
  qed
qed

text \<open>
  The groups split the node's incoming connections, those without data only if they are main
  connections, into non-empty groups of connections to consecutive inputs, one per input; a
  group is complete exactly when all its connections have run data or pinned data.
\<close>

theorem getSourceDataGroups_partition:
  "(\<forall>grp \<in> set (getSourceDataGroups localeCompare g node runData pinData).
      sg_connections grp \<noteq> []
      \<and> (\<exists>k. map g_in (sg_connections grp) = [k..<k + length (sg_connections grp)])
      \<and> (sg_complete grp \<longleftrightarrow> (\<forall>c \<in> set (sg_connections grp). hasSourceData runData pinData c)))
   \<and> mset (concat (map sg_connections (getSourceDataGroups localeCompare g node runData pinData)))
     = mset (filter (\<lambda>c. hasSourceData runData pinData c \<or> g_type c = Main) (getConnections g (Some node)))"
  by (rule getSourceDataGroups_result)

subsection \<open>recreateNodeExecutionStack\<close>

text \<open>How many stack entries a start node gets: one per complete group, or one when nothing feeds it.\<close>

definition mainParents :: "dgraph \<Rightarrow> inode \<Rightarrow> gconn list" where
  "mainParents g n = filter (\<lambda>c. g_to c = n \<and> g_type c = Main) (graph_conns g)"

definition stackEntries :: "(string \<Rightarrow> string \<Rightarrow> int) \<Rightarrow> dgraph \<Rightarrow> run_data \<Rightarrow> pin_data \<Rightarrow> inode \<Rightarrow> nat" where
  "stackEntries localeCompare g runData pinData n =
     (if mainParents g n = [] then 1
      else length (filter sg_complete (getSourceDataGroups localeCompare g n runData pinData)))"

text \<open>What is waiting under a node, run index, type and input.\<close>

definition waiting_at :: "(nat, (ctype, 'a jsval list) jsmap) jsmap obj \<Rightarrow> string \<Rightarrow> nat \<Rightarrow> ctype \<Rightarrow> nat \<Rightarrow> 'a jsval" where
  "waiting_at W n i t k = (case obj_get W n of None \<Rightarrow> JsUndef | Some e \<Rightarrow>
     (case obj_get e i of None \<Rightarrow> JsUndef | Some cs \<Rightarrow>
       (case obj_get cs t of None \<Rightarrow> JsUndef | Some slots \<Rightarrow> arr_get slots k)))"

lemma arr_get_Nil [simp]: "arr_get [] k = JsUndef"
  by (simp add: arr_get_def)

lemma waiting_at_wait_for:
  "waiting_at (wait_for W n i t k v) n' i' t' k' =
     (if n' = n \<and> i' = i \<and> t' = t \<and> k' = k then v else waiting_at W n' i' t' k')"
  by (auto simp: waiting_at_def wait_for_def Let_def js_simps split: option.splits)

definition in_step :: "recreated \<Rightarrow> bool" where
  "in_step rc \<longleftrightarrow> (\<forall>n i t k. (waiting_at (rc_waiting rc) n i t k = JsUndef) = (waiting_at (rc_waitingSource rc) n i t k = JsUndef)
     \<and> waiting_at (rc_waiting rc) n i t k \<noteq> JsNull)"

definition waits_only :: "inode list \<Rightarrow> recreated \<Rightarrow> bool" where
  "waits_only ns rc \<longleftrightarrow> set (map fst (rc_waiting rc)) \<subseteq> n_name ` set ns"

lemma keeps_stack [simp]: "in_step (rc\<lparr>rc_stack := x\<rparr>) = in_step rc" "waits_only ns (rc\<lparr>rc_stack := x\<rparr>) = waits_only ns rc"
  by (simp_all add: in_step_def waits_only_def)

lemma in_step_wait_for:
  "in_step rc \<Longrightarrow> in_step (rc\<lparr>rc_waiting := wait_for (rc_waiting rc) n i t k (JsVal v),
     rc_waitingSource := wait_for (rc_waitingSource rc) n i t k (JsVal s)\<rparr>)"
  by (simp add: in_step_def waiting_at_wait_for)

lemma waits_only_wait_for:
  "waits_only ns rc \<Longrightarrow> n \<in> set ns \<Longrightarrow> waits_only ns (rc\<lparr>rc_waiting := wait_for (rc_waiting rc) (n_name n) i t k v, rc_waitingSource := s\<rparr>)"
  unfolding waits_only_def wait_for_def Let_def by (simp add: keys_obj_set del: set_map)

lemma waitFor_keeps:
  assumes "waitFor n runData i c rc = Inr rc'" "in_step rc" "waits_only ns rc" "n \<in> set ns"
  shows "in_step rc' \<and> waits_only ns rc' \<and> rc_stack rc' = rc_stack rc"
proof -
  from assms(1) consider "rc' = rc"
    | d j where "rc' = rc\<lparr>rc_waiting := wait_for (rc_waiting rc) (n_name n) i (g_type c) (g_in c) (JsVal d),
       rc_waitingSource := wait_for (rc_waitingSource rc) (n_name n) i (g_type c) (g_in c) (JsVal j)\<rparr>"
    by (auto simp: waitFor_def bindE_eq_Inr addWaitingExecution_def addWaitingExecutionSource_def split: option.splits)
  then show ?thesis
  proof cases
    case 1
    with assms show ?thesis by simp
  next
    case 2
    then show ?thesis
      using in_step_wait_for [OF assms(2)] waits_only_wait_for [OF assms(3,4)] by simp
  qed
qed

lemma pushGroup_keeps:
  assumes "pushGroup n runData pinData grp rc = Inr rc'" "in_step rc" "waits_only ns rc" "n \<in> set ns"
  shows "in_step rc' \<and> waits_only ns rc'
    \<and> map ed_node (rc_stack rc') = map ed_node (rc_stack rc) @ (if sg_complete grp then [n] else [])"
proof (cases "sg_complete grp")
  case True
  with assms show ?thesis
    by (auto simp: pushGroup_def pushComplete_def bindE_eq_Inr)
next
  case False
  let ?P = "\<lambda>rc'. in_step rc' \<and> waits_only ns rc' \<and> rc_stack rc' = rc_stack rc"
  from False assms(1) obtain i where "foldE (waitFor n runData i) (sg_connections grp) rc = Inr rc'"
    by (auto simp: pushGroup_def Let_def)
  from foldE_invariant [where P = ?P, OF this] waitFor_keeps [of n runData i] assms(2-4) False show ?thesis
    by fastforce
qed

lemma pushGroups_keeps:
  "foldE (pushGroup n runData pinData) grps rc = Inr rc' \<Longrightarrow> in_step rc \<Longrightarrow> waits_only ns rc \<Longrightarrow> n \<in> set ns \<Longrightarrow>
   in_step rc' \<and> waits_only ns rc'
   \<and> map ed_node (rc_stack rc') = map ed_node (rc_stack rc) @ replicate (length (filter sg_complete grps)) n"
proof (induction grps arbitrary: rc)
  case (Cons grp grps)
  from Cons.prems(1) obtain rc1 where 1: "pushGroup n runData pinData grp rc = Inr rc1"
    "foldE (pushGroup n runData pinData) grps rc1 = Inr rc'" by (auto simp: bindE_eq_Inr)
  from pushGroup_keeps [OF 1(1) Cons.prems(2-4)] Cons.IH [OF 1(2) _ _ Cons.prems(4)] show ?case
    by (auto simp: replicate_append_same)
qed simp

lemma pushStartNode_keeps:
  assumes "pushStartNode localeCompare g runData pinData n rc = Inr rc'" "in_step rc" "waits_only ns rc" "n \<in> set ns"
  shows "in_step rc' \<and> waits_only ns rc'
    \<and> map ed_node (rc_stack rc') = map ed_node (rc_stack rc) @ replicate (stackEntries localeCompare g runData pinData n) n"
proof -
  from assms(1) have ps: "getDirectParentConnections g n = Inr (filter (\<lambda>c. g_to c = n) (graph_conns g))"
    by (auto simp: pushStartNode_def getDirectParentConnections_def bindE_eq_Inr)
  have main: "filter (\<lambda>c. g_type c = Main) (filter (\<lambda>c. g_to c = n) (graph_conns g)) = mainParents g n"
    by (simp add: mainParents_def conj_commute)
  show ?thesis
  proof (cases "mainParents g n = []")
    case True
    with assms ps main show ?thesis
      by (auto simp: pushStartNode_def stackEntries_def)
  next
    case False
    with assms(1) ps main have "foldE (pushGroup n runData pinData) (getSourceDataGroups localeCompare g n runData pinData) rc = Inr rc'"
      by (simp add: pushStartNode_def)
    from pushGroups_keeps [OF this assms(2-4)] False show ?thesis by (simp add: stackEntries_def)
  qed
qed

lemma pushStartNodes_keeps:
  "foldE (pushStartNode localeCompare g runData pinData) ns rc = Inr rc' \<Longrightarrow> in_step rc \<Longrightarrow> waits_only all rc \<Longrightarrow>
   set ns \<subseteq> set all \<Longrightarrow> in_step rc' \<and> waits_only all rc'
   \<and> map ed_node (rc_stack rc') = map ed_node (rc_stack rc)
       @ concat (map (\<lambda>n. replicate (stackEntries localeCompare g runData pinData n) n) ns)"
proof (induction ns arbitrary: rc)
  case (Cons n ns)
  from Cons.prems(1) obtain rc1 where 1: "pushStartNode localeCompare g runData pinData n rc = Inr rc1"
    "foldE (pushStartNode localeCompare g runData pinData) ns rc1 = Inr rc'" by (auto simp: bindE_eq_Inr)
  have "n \<in> set all" "set ns \<subseteq> set all" using Cons.prems(4) by auto
  with pushStartNode_keeps [OF 1(1) Cons.prems(2,3)] Cons.IH [OF 1(2)] show ?case by simp
qed simp

text \<open>
  C7: The recreated stack holds, for each start node in turn, one entry per complete group of its
  sources, or one entry when no main connection leads to it. Only start nodes wait, and data
  waits for an input exactly when its source does.
\<close>

theorem recreateNodeExecutionStack_entries:
  assumes "recreateNodeExecutionStack localeCompare g startNodes runData pinData = Inr rc"
  shows "map ed_node (rc_stack rc)
      = concat (map (\<lambda>n. replicate (stackEntries localeCompare g runData pinData n) n) startNodes)
    \<and> (\<forall>n i t k. waiting_at (rc_waiting rc) n i t k = JsUndef \<longleftrightarrow> waiting_at (rc_waitingSource rc) n i t k = JsUndef)
    \<and> set (map fst (rc_waiting rc)) \<subseteq> n_name ` set startNodes"
proof -
  let ?start = "\<lparr>rc_stack = [], rc_waiting = [], rc_waitingSource = []\<rparr>"
  have "in_step ?start" "waits_only startNodes ?start"
    by (simp_all add: in_step_def waits_only_def waiting_at_def)
  moreover from assms have "foldE (pushStartNode localeCompare g runData pinData) startNodes ?start = Inr rc"
    by (auto simp: recreateNodeExecutionStack_def bindE_eq_Inr)
  ultimately show ?thesis
    using pushStartNodes_keeps [of localeCompare g runData pinData startNodes ?start rc startNodes]
    by (auto simp: in_step_def waits_only_def)
qed

subsection \<open>Two surprises\<close>

definition some_item :: item where
  "some_item = emptyItem\<lparr>i_json := [(''x'', JNum 1)]\<rparr>"

definition task_with :: "items \<Rightarrow> task_data" where
  "task_with items = \<lparr>td_startTime = 0, td_executionIndex = None, td_source = [], td_hints = [], td_executionTime = 0,
     td_executionStatus = Some Success, td_data = Some [(Main, [JsVal items])], td_inputOverride = None,
     td_error = None, td_metadata = None\<rparr>"

definition to_input :: "string \<Rightarrow> nat \<Rightarrow> string \<Rightarrow> gconn" where
  "to_input a i b = \<lparr>g_from = plain_node a, g_to = plain_node b, g_type = Main, g_out = 0, g_in = i\<rparr>"

text \<open>
  Two sources feed the second input of a merge node and one its first. The second complete group
  holds a connection to the second input only, but its data is put in the first position.
\<close>

definition merge_graph :: dgraph where
  "merge_graph = fold set_conn [to_input ''a'' 0 ''m'', to_input ''b'' 1 ''m'', to_input ''c'' 1 ''m'']
     (addNodes [plain_node ''a'', plain_node ''b'', plain_node ''c'', plain_node ''m''] emptyGraph)"

lemma recreate_second_input_first:
  "case recreateNodeExecutionStack (\<lambda>a b. 0) merge_graph [plain_node ''m'']
      [(''a'', [task_with [some_item]]), (''b'', [task_with [some_item]]), (''c'', [task_with [some_item]])] [] of
     Inl e \<Rightarrow> False
   | Inr rc \<Rightarrow> map ed_data (rc_stack rc) = [[(Main, [JsVal [some_item], JsVal [some_item]])], [(Main, [JsVal [some_item]])]]
       \<and> map sg_connections (getSourceDataGroups (\<lambda>a b. 0) merge_graph (plain_node ''m'')
           [(''a'', [task_with [some_item]]), (''b'', [task_with [some_item]]), (''c'', [task_with [some_item]])] [])
         = [[to_input ''a'' 0 ''m'', to_input ''b'' 1 ''m''], [to_input ''c'' 1 ''m'']]"
  by code_simp

text \<open>
  Data that waits is read from the second run of its source, the first one having no output, but
  the recorded run is the index of the waiting entry. The array that waits has one element
  although the node has two inputs.
\<close>

lemma recreate_waiting_run:
  "case recreateNodeExecutionStack (\<lambda>a b. 0) merge_graph [plain_node ''m'']
      [(''a'', [task_with [], task_with [some_item]])] [] of
     Inl e \<Rightarrow> False
   | Inr rc \<Rightarrow> rc_stack rc = [] \<and> rc_waiting rc = [(''m'', [(0, [(Main, [JsVal [some_item]])])])]
       \<and> waiting_at (rc_waitingSource rc) ''m'' 0 Main 0
         = JsVal \<lparr>previousNode = ''a'', previousNodeOutput = Some 0, previousNodeRun = Some 0\<rparr>"
  by code_simp

end
