(* ===== verification/PartialExecutionFacts.thy ===== *)
theory PartialExecutionFacts
  imports PartialExecution EngineLoopFacts StackFacts
begin

section \<open>What a partial execution starts from\<close>

text \<open>
  Cleaning keeps the runs numbered below the next index, the recreated waiting maps belong
  together, so the state a partial execution starts from satisfies the invariant of the loop.
\<close>

subsection \<open>Cleaned run data\<close>

lemma direct_parent_found:
  assumes "getParentConnections g n = Inr cs" "c \<in> set (graph_conns g)" "g_to c = n"
  shows "c \<in> set cs"
proof -
  from assms(1) obtain ps where ps: "getDirectParentConnections g n = Inr ps" "parents_loop g ps [] = Inr cs"
    by (auto simp: getParentConnections_def bindE_eq_Inr)
  from ps(1) assms(2,3) have "c \<in> set ps" by (auto simp: getDirectParentConnections_def bindE_eq_Inr)
  with parent_search.visit_grows [OF ps(2)] show ?thesis by auto
qed

definition no_runs :: "string \<Rightarrow> run_data \<Rightarrow> bool" where
  "no_runs k r \<longleftrightarrow> obj_get r k = None"

lemma no_runs_del [simp]: "no_runs k (obj_del k r)" "no_runs k r \<Longrightarrow> no_runs k (obj_del j r)"
  by (simp_all add: no_runs_def js_simps)

lemma no_runs_fold: "no_runs k r \<Longrightarrow> no_runs k (fold (\<lambda>x. if P x then id else obj_del (key x)) xs r)"
  by (induction xs arbitrary: r) auto

lemma fold_no_runs: "x \<in> set xs \<Longrightarrow> \<not> P x \<Longrightarrow> no_runs (key x) (fold (\<lambda>x. if P x then id else obj_del (key x)) xs r)"
proof (induction xs arbitrary: r)
  case (Cons y xs)
  then show ?case by (cases "x = y") (simp_all add: no_runs_fold)
qed simp

lemma cleanNode_no_runs: "cleanNode g n r = Inr r' \<Longrightarrow> no_runs k r \<Longrightarrow> no_runs k r'"
  by (auto simp: cleanNode_def bindE_eq_Inr no_runs_fold)

lemma cleanNode_sub_nodes:
  assumes "cleanNode g n r = Inr r'" "c \<in> set (graph_conns g)" "g_to c = n" "g_type c \<noteq> Main"
  shows "no_runs (n_name (g_from c)) r'"
proof -
  from assms(1) obtain cs where cs: "getParentConnections g n = Inr cs"
    "r' = fold (\<lambda>c. if g_type c = Main then id else obj_del (n_name (g_from c))) cs (obj_del (n_name n) r)"
    by (auto simp: cleanNode_def bindE_eq_Inr)
  from fold_no_runs [OF direct_parent_found [OF cs(1) assms(2,3)], of "\<lambda>c. g_type c = Main" "\<lambda>c. n_name (g_from c)"] assms(4)
  show ?thesis unfolding cs(2) .
qed

text \<open>The sub-nodes of a cleaned node have no runs afterwards.\<close>

lemma cleanRunData_sub_nodes:
  assumes "cleanRunData r g ns = Inr r'" "n \<in> set ns" "c \<in> set (graph_conns g)" "g_to c = n" "g_type c \<noteq> Main"
  shows "no_runs (n_name (g_from c)) r'"
proof -
  let ?k = "n_name (g_from c)"
  let ?f = "\<lambda>n r. bindE (getChildren g n) (\<lambda>children. foldE (cleanNode g) (n # children) (obj_del (n_name n) r))"
  from assms(1) obtain r1 where r1: "foldE ?f ns r = Inr r1"
    "r' = fold (\<lambda>nodeName. if hasNode g nodeName then id else obj_del nodeName) (obj_keys r1) r1"
    by (auto simp: cleanRunData_def bindE_eq_Inr)
  have "no_runs ?k r1"
  proof (rule foldE_establishes [OF r1(1) assms(2)])
    fix s t assume "?f n s = Inr t"
    then obtain children where "foldE (cleanNode g) (n # children) (obj_del (n_name n) s) = Inr t" by (auto simp: bindE_eq_Inr)
    then show "no_runs ?k t"
      by (rule foldE_establishes [where x = n]) (auto intro: cleanNode_no_runs dest: cleanNode_sub_nodes [OF _ assms(3-5)])
  next
    fix y s t assume s: "no_runs ?k s" and "?f y s = Inr t"
    then obtain children where "foldE (cleanNode g) (y # children) (obj_del (n_name y) s) = Inr t" by (auto simp: bindE_eq_Inr)
    then show "no_runs ?k t"
      by (rule foldE_invariant [where P = "no_runs ?k"]) (use s in \<open>auto intro: cleanNode_no_runs\<close>)
  qed
  then show ?thesis unfolding r1(2) by (rule no_runs_fold [where key = "\<lambda>x. x"])
qed

subsection \<open>The recreated waiting entries\<close>

definition waiting_pair :: "recreated \<Rightarrow> exec_state \<Rightarrow> exec_state" where
  "waiting_pair rc st = st\<lparr>x_waiting := rc_waiting rc, x_waitingSource := rc_waitingSource rc\<rparr>"

lemma get_entry_wait_for:
  "get_entry (wait_for W n i t k v) m j =
     (if m = n \<and> j = i
      then Some (obj_set t (arr_set (case obj_get (case get_entry W n i of None \<Rightarrow> [] | Some c \<Rightarrow> c) t of None \<Rightarrow> [] | Some s \<Rightarrow> s) k v)
             (case get_entry W n i of None \<Rightarrow> [] | Some c \<Rightarrow> c))
      else get_entry W m j)"
  by (auto simp: get_entry_def wait_for_def Let_def js_simps split: option.splits)

lemma wait_for_keys: "obj_get (wait_for W n i t k v) m = None \<longleftrightarrow> m \<noteq> n \<and> obj_get W m = None"
  by (simp add: wait_for_def Let_def js_simps)

lemma wf_wait_for: "wf_obj W \<Longrightarrow> wf_obj (wait_for W n i t k v)"
  by (simp add: wait_for_def Let_def)

lemma waiting_ok_wait_for:
  assumes "waiting_ok (waiting_pair rc st)"
  shows "waiting_ok (waiting_pair (rc\<lparr>rc_waiting := wait_for (rc_waiting rc) n i Main k v,
     rc_waitingSource := wait_for (rc_waitingSource rc) n i Main k' s\<rparr>) st)"
proof -
  have "has_main (obj_set Main x cs)" for x and cs :: "(ctype, 'a jsval list) jsmap"
    by (simp add: has_main_def js_simps)
  with assms show ?thesis
    by (simp add: waiting_ok_def waiting_pair_def wait_for_keys wf_wait_for get_entry_wait_for) (simp add: has_main_def js_simps)
qed

text \<open>The sources of a start node that do not feed it through \<open>main\<close> have no runs.\<close>

definition main_data :: "run_data \<Rightarrow> gconn \<Rightarrow> bool" where
  "main_data r c \<longleftrightarrow> g_type c = Main \<or> no_runs (n_name (g_from c)) r"

lemma no_runs_data: "no_runs n r \<Longrightarrow> getIncomingDataFromAnyRun r n t i = Inr None"
  by (simp add: no_runs_def getIncomingDataFromAnyRun_def getRunIndexLength_def)

lemma waitFor_ok:
  assumes "waitFor n r i c rc = Inr rc'" "main_data r c" "waiting_ok (waiting_pair rc st)"
  shows "waiting_ok (waiting_pair rc' st)"
proof (cases "no_runs (n_name (g_from c)) r")
  case True
  with assms show ?thesis by (simp add: waitFor_def no_runs_data)
next
  case False
  with assms(2) have "g_type c = Main" by (simp add: main_data_def)
  with assms(1,3) show ?thesis
    by (auto simp: waitFor_def bindE_eq_Inr addWaitingExecution_def addWaitingExecutionSource_def
        intro: waiting_ok_wait_for split: option.splits)
qed

lemma pushGroup_ok:
  assumes "pushGroup n r pin grp rc = Inr rc'" "\<forall>c \<in> set (sg_connections grp). main_data r c" "waiting_ok (waiting_pair rc st)"
  shows "waiting_ok (waiting_pair rc' st)"
proof (cases "sg_complete grp")
  case True
  with assms(1,3) show ?thesis by (auto simp: pushGroup_def pushComplete_def bindE_eq_Inr waiting_pair_def)
next
  case False
  with assms(1) obtain i where "foldE (waitFor n r i) (sg_connections grp) rc = Inr rc'" by (auto simp: pushGroup_def Let_def)
  then show ?thesis
    by (rule foldE_invariant [where P = "\<lambda>rc. waiting_ok (waiting_pair rc st)"]) (use assms(2,3) in \<open>auto intro: waitFor_ok\<close>)
qed

lemma pushStartNode_ok:
  assumes "pushStartNode localeCompare g r pin n rc = Inr rc'" "waiting_ok (waiting_pair rc st)"
    and "\<forall>c \<in> set (graph_conns g). g_to c = n \<longrightarrow> main_data r c"
  shows "waiting_ok (waiting_pair rc' st)"
proof -
  let ?grps = "getSourceDataGroups localeCompare g n r pin"
  have "set (concat (map sg_connections ?grps)) = set (filter (\<lambda>c. hasSourceData r pin c \<or> g_type c = Main) (getConnections g (Some n)))"
    using getSourceDataGroups_result [of localeCompare g n r pin] by (metis set_mset_mset)
  then have groups: "\<forall>c \<in> set (sg_connections grp). main_data r c" if "grp \<in> set ?grps" for grp
    using that assms(3) by (force simp: getConnections_def)
  from assms(1) consider e where "rc' = rc\<lparr>rc_stack := rc_stack rc @ [e]\<rparr>" | "foldE (pushGroup n r pin) ?grps rc = Inr rc'"
    by (auto simp: pushStartNode_def bindE_eq_Inr split: if_splits)
  then show ?thesis
  proof cases
    case 1
    with assms(2) show ?thesis by (simp add: waiting_pair_def)
  next
    case 2
    then show ?thesis
      by (rule foldE_invariant [where P = "\<lambda>rc. waiting_ok (waiting_pair rc st)"]) (use assms(2) groups in \<open>auto intro: pushGroup_ok\<close>)
  qed
qed

lemma recreate_ok:
  assumes "recreateNodeExecutionStack localeCompare g ns r pin = Inr rc"
    and "\<forall>n \<in> set ns. \<forall>c \<in> set (graph_conns g). g_to c = n \<longrightarrow> main_data r c"
  shows "waiting_ok (waiting_pair rc st)"
proof -
  from assms(1) have "foldE (pushStartNode localeCompare g r pin) ns \<lparr>rc_stack = [], rc_waiting = [], rc_waitingSource = []\<rparr> = Inr rc"
    by (auto simp: recreateNodeExecutionStack_def bindE_eq_Inr)
  then show ?thesis
  proof (rule foldE_invariant [where P = "\<lambda>rc. waiting_ok (waiting_pair rc st)"])
    show "waiting_ok (waiting_pair \<lparr>rc_stack = [], rc_waiting = [], rc_waitingSource = []\<rparr> st)"
      by (simp add: waiting_ok_def waiting_pair_def get_entry_def)
  qed (use assms(2) in \<open>auto intro: pushStartNode_ok\<close>)
qed

subsection \<open>The state a partial execution starts in\<close>

lemma next_index_above:
  assumes "t \<in> set (node_runs r n)" "td_executionIndex t = Some k"
  shows "k < getNextExecutionIndex r"
proof -
  from assms(1) obtain runs where runs: "obj_get r n = Some runs" "t \<in> set runs"
    by (cases "obj_get r n") (simp_all add: node_runs_def)
  from obj_get_mem [OF runs(1)] runs(2) have "t \<in> set (concat (obj_values r))" by (force simp: obj_values_def)
  with assms(2) have "k \<in> set (List.map_filter td_executionIndex (concat (obj_values r)))"
    by (force simp: List.map_filter_def image_iff)
  then show ?thesis unfolding getNextExecutionIndex_def Let_def by (auto simp: less_Suc_eq_le)
qed

lemma partial_state_ok:
  assumes "prepare_partial localeCompare g destination trigger r pin dirty = Inr (sub, r', rc)"
  shows "waiting_ok (partial_state d orig pin (sub, r', rc)) \<and> numbered (partial_state d orig pin (sub, r', rc))"
proof -
  from assms obtain ns r1 where clean: "cleanRunData r1 sub ns = Inr r'"
    and rec: "recreateNodeExecutionStack localeCompare sub ns r' pin = Inr rc"
    by (auto simp: prepare_partial_def bindE_eq_Inr)
  let ?st = "partial_state d orig pin (sub, r', rc)"
  have "\<forall>n \<in> set ns. \<forall>c \<in> set (graph_conns sub). g_to c = n \<longrightarrow> main_data r' c"
    using cleanRunData_sub_nodes [OF clean] by (auto simp: main_data_def)
  from recreate_ok [OF rec this, of ?st] have "waiting_ok ?st"
    by (simp add: waiting_ok_def waiting_pair_def partial_state_def createRunExecutionData_def)
  moreover have "numbered ?st"
    unfolding numbered_def partial_state_def createRunExecutionData_def
    using next_index_above by (auto simp: less_max_iff_disj)
  ultimately show ?thesis by blast
qed

lemma start_execution_running:
  assumes "start_execution env (w, st) = Inr en" "x_waitTill st = None"
  shows "snd (en_ws en) = st\<lparr>x_status := Running\<rparr> \<and> en_events en = []"
  using assms by (auto simp: start_execution_def bindE_eq_Inr handleWaitingState_def)

text \<open>
  C4: Whatever a partial execution is started with, all states it reaches are sound: the two maps of
  waiting entries belong together, every run has a number below the counter, also the runs taken over
  from the previous execution, and only nodes of the subgraph begin. The counter starts above all
  numbers in use.
\<close>

theorem runPartialWorkflow2_sound:
  assumes "runPartialWorkflow2 localeCompare getNodeParameters w runData pinData dirtyNodeNames destinationNode agentRequest = Inr (w', st)"
    and "start_execution env (w', st) = Inr en" "executes env en en'"
  shows "\<exists>names. x_runNodeFilter st = Some names \<and> begun en' \<subseteq> set names
    \<and> waiting_ok (snd (en_ws en')) \<and> numbered (snd (en_ws en'))
    \<and> (\<forall>n. \<forall>t \<in> set (node_runs (x_runData st) n). \<forall>k. td_executionIndex t = Some k \<longrightarrow> k < x_executionIndex st)"
proof -
  from assms(1) obtain g destination trigger d r sub r' rc pin where
    prep: "prepare_partial localeCompare g destination trigger r pin dirtyNodeNames = Inr (sub, r', rc)"
    and st: "st = partial_state d destinationNode pin (sub, r', rc)"
    by (auto simp: runPartialWorkflow2_def bindE_eq_Inr split: option.splits)
  have ok: "waiting_ok st" "numbered st" using partial_state_ok [OF prep] st by simp_all
  have fields: "x_waitTill st = None" "x_runNodeFilter st = Some (map n_name (graph_nodes sub))"
    "x_runData st = r'" "x_executionIndex st = getNextExecutionIndex r'"
    by (simp_all add: st partial_state_def createRunExecutionData_def)
  note start = start_execution_running [OF assms(2) fields(1)]
  have "waiting_ok (snd (en_ws en)) \<and> numbered (snd (en_ws en)) \<and> x_status (snd (en_ws en)) \<noteq> Canceled
    \<and> begun en = {} \<and> x_runNodeFilter (snd (en_ws en)) = x_runNodeFilter st"
    using ok start by (simp add: waiting_ok_def numbered_def begun_def)
  with executes_result [OF assms(3)] have "waiting_ok (snd (en_ws en'))" "numbered (snd (en_ws en'))"
    "\<forall>n \<in> begun en'. \<not> filtered_out (snd (en_ws en)) n" by blast+
  moreover from this(3) have "begun en' \<subseteq> set (map n_name (graph_nodes sub))"
    using start fields(2) by (auto simp: filtered_out_def)
  ultimately show ?thesis using fields next_index_above [of _ r'] by auto
qed

end
