(* ===== verification/GraphExamples.thy ===== *)
theory GraphExamples
  imports GraphConversions SccFacts SubgraphFacts StackFacts WorkflowFacts EngineQueueFacts
begin

section \<open>Concrete workflows and graphs\<close>

text \<open>
  Inputs at which the hypotheses of the graph properties hold: a chain of three nodes with its
  run data, and a workflow with a trigger, a plain node and a merge of two branches. Each lemma
  applies one property to them.
\<close>

lemma not_isl: "\<not> isl r \<Longrightarrow> \<exists>x. r = Inr x"
  by (cases r) auto

subsection \<open>A chain\<close>

definition node_a :: inode where "node_a = plain_node ''a''"
definition node_b :: inode where "node_b = plain_node ''b''"
definition node_c :: inode where "node_c = plain_node ''c''"

definition chain :: dgraph where
  "chain = fold set_conn [main_conn ''a'' ''b'', main_conn ''b'' ''c''] (addNodes [node_a, node_b, node_c] emptyGraph)"

definition chain_runs :: run_data where
  "chain_runs = [(''a'', [task_with [some_item]])]"

lemma chain_wf: "wf_graph chain"
  by code_simp

lemma chain_nodes: "node_exists chain node_a" "node_exists chain node_b" "node_exists chain node_c"
  by code_simp+

lemma chain_conns: "graph_conns chain = [main_conn ''a'' ''b'', main_conn ''b'' ''c'']"
  by code_simp

lemma chain_edges: "gedges chain = {(node_a, node_b), (node_b, node_c)}"
  by (auto simp: gedges_def chain_conns main_conn_def node_a_def node_b_def node_c_def)

lemma graph_invariant_witness:
  "wf_graph (removeNode node_b chain) \<and> \<not> hasNode (removeNode node_b chain) (n_name node_b)"
  using graph_invariant [OF chain_wf, where n = node_b] chain_nodes(2) by blast

lemma addConnection_getConnection_witness:
  "getConnection (set_conn \<lparr>g_from = node_a, g_to = node_c, g_type = Main, g_out = 1, g_in = 0\<rparr> chain) node_a 1 Main 0 node_c
    = Some \<lparr>g_from = node_a, g_to = node_c, g_type = Main, g_out = 1, g_in = 0\<rparr>"
proof -
  have "addConnection node_a node_c (Some Main) (Some 1) (Some 0) chain
      = Inr (set_conn \<lparr>g_from = node_a, g_to = node_c, g_type = Main, g_out = 1, g_in = 0\<rparr> chain)"
    by code_simp
  moreover have "CHR ''-'' \<notin> set (n_name node_a)" by code_simp
  ultimately show ?thesis
    using addConnection_getConnection [of node_a node_c Main 1 0 chain _ node_a 1 Main 0 node_c] by simp
qed

lemma getChildren_reachable_witness:
  "\<exists>children. getChildren chain node_a = Inr children \<and> distinct children \<and> set children = {m. (node_a, m) \<in> (gedges chain)\<^sup>+}"
  using chain_wf chain_nodes(1) by (rule getChildren_reachable)

lemma getParentConnections_reaching_witness:
  "\<exists>cs. getParentConnections chain node_c = Inr cs \<and> distinct cs
    \<and> set cs = {c \<in> set (graph_conns chain). (g_to c, node_c) \<in> (gedges chain)\<^sup>*}"
  using chain_wf chain_nodes(3) by (rule getParentConnections_reaching)

lemma depthFirstSearch_finds_witness:
  "\<exists>m. depthFirstSearch chain node_a (\<lambda>n. n = node_b) = Inr (Some m) \<and> m = node_b"
proof -
  have "(node_a, node_b) \<in> (gedges chain)\<^sup>*" by (auto simp: chain_edges)
  with depthFirstSearch_finds [OF chain_wf chain_nodes(1), of "\<lambda>n. n = node_b"] show ?thesis
    by (metis option.exhaust)
qed

lemma removeNodeReconnect_reachability_witness:
  "\<exists>new g'. removeNodeReconnect (\<lambda>c. False) node_b chain = Inr (new, g') \<and> wf_graph g' \<and> \<not> node_exists g' node_b
    \<and> (node_a, node_c) \<in> (gedges g')\<^sup>+"
proof -
  have "(node_b, node_b) \<notin> gedges chain" "dashless chain"
    by (simp_all add: chain_edges dashless_def chain_conns main_conn_def) (code_simp)+
  moreover have "(node_a, node_c) \<in> (gedges chain)\<^sup>+" "node_a \<noteq> node_b" "node_c \<noteq> node_b"
    by (auto simp: chain_edges node_a_def node_b_def node_c_def intro: trancl.intros)
  ultimately show ?thesis
    using removeNodeReconnect_reachability [OF chain_wf chain_nodes(2)] by blast
qed

lemma getStronglyConnectedComponents_sound_witness:
  "\<exists>sccs. getStronglyConnectedComponents chain = Inr sccs \<and> distinct (concat sccs)"
  using getStronglyConnectedComponents_sound [OF chain_wf] by blast

lemma findSubgraph_leads_to_destination_witness:
  "\<exists>s. findSubgraph chain node_b node_a = Inr s \<and> wf_graph s \<and> node_exists s node_a"
proof -
  have "(node_a, node_b) \<in> (main_edges chain)\<^sup>*"
    by (rule r_into_rtrancl) (simp add: main_edges_def chain_conns, simp add: main_conn_def node_a_def node_b_def)
  with findSubgraph_leads_to_destination [OF chain_wf chain_nodes(2,1)] show ?thesis by blast
qed

lemma chain_typed: "typed_run_data chain chain_runs"
  by (simp add: typed_run_data_def chain_runs_def chain_conns task_with_def main_conn_def)

lemma findStartNodes_exact_witness:
  "\<exists>startNodes. findStartNodes chain node_a node_c [] chain_runs = Inr startNodes
    \<and> set startNodes = {s. stops chain chain_runs [] node_c s \<and> (node_a, s) \<in> (branch chain chain_runs [] node_c)\<^sup>*}"
  using chain_wf chain_typed chain_nodes(1) by (rule findStartNodes_exact)

lemma cleanRunData_exact_witness:
  "\<exists>r'. cleanRunData chain_runs chain [node_a] = Inr r' \<and> obj_get r' ''a'' = None"
proof -
  have "\<exists>r'. cleanRunData chain_runs chain [node_a] = Inr r' \<and>
    (\<forall>k. obj_get r' k = (if hasNode chain k
        \<and> k \<notin> (\<Union>n \<in> set [node_a]. \<Union>m \<in> (gedges chain)\<^sup>* `` {n}. cleaned_by chain m)
      then obj_get chain_runs k else None))"
    by (rule cleanRunData_exact [OF chain_wf]) (simp add: chain_nodes)
  moreover have "''a'' \<in> cleaned_by chain node_a" by (simp add: cleaned_by_def node_a_def)
  ultimately show ?thesis by auto
qed

lemma filterDisabledNodes_nodes_witness:
  "\<exists>g'. filterDisabledNodes chain = Inr g' \<and> graph_nodes g' = filter (\<lambda>n. \<not> isDisabled n) (graph_nodes chain)"
  using chain_wf by (rule filterDisabledNodes_nodes)

lemma handleCycles_exact_witness:
  "\<exists>newStartNodes. handleCycles chain [node_a] node_a = Inr newStartNodes"
  using handleCycles_exact [OF chain_wf chain_nodes(1), of "[node_a]"] by auto

lemma getSourceDataGroups_partition_witness:
  "mset (concat (map sg_connections (getSourceDataGroups (\<lambda>a b. 0) chain node_b chain_runs [])))
    = mset (filter (\<lambda>c. hasSourceData chain_runs [] c \<or> g_type c = Main) (getConnections chain (Some node_b)))"
  using getSourceDataGroups_partition [of "\<lambda>a b. 0" chain node_b chain_runs "[]"] by (rule conjunct2)

lemma recreateNodeExecutionStack_entries_witness:
  "\<exists>rc. recreateNodeExecutionStack (\<lambda>a b. 0) chain [node_b] chain_runs [] = Inr rc \<and> map ed_node (rc_stack rc) = [node_b]"
proof -
  have "\<not> isl (recreateNodeExecutionStack (\<lambda>a b. 0) chain [node_b] chain_runs [])" by code_simp
  then obtain rc where rc: "recreateNodeExecutionStack (\<lambda>a b. 0) chain [node_b] chain_runs [] = Inr rc"
    using not_isl by blast
  have "concat (map (\<lambda>n. replicate (stackEntries (\<lambda>a b. 0) chain chain_runs [] n) n) [node_b]) = [node_b]" by code_simp
  with recreateNodeExecutionStack_entries [OF rc] rc show ?thesis by simp
qed

lemma toIConnections_result_witness:
  "\<exists>C. toIConnections chain = Inr C \<and> conn_at C ''a'' Main 0 \<lparr>c_node = ''b'', c_type = Main, c_index = 0\<rparr>"
proof -
  have "one_type (graph_conns chain)" by (simp add: one_type_def chain_conns main_conn_def)
  with toIConnections_result [of chain] obtain C where C: "toIConnections chain = Inr C"
    "\<And>n t i c. conn_at C n t i c \<longleftrightarrow> (\<exists>d \<in> set (graph_conns chain). from_name d = n \<and> g_type d = t \<and> g_out d = i \<and> c = targets_conn d)"
    by auto
  have "conn_at C ''a'' Main 0 \<lparr>c_node = ''b'', c_type = Main, c_index = 0\<rparr>"
    by (simp add: C(2) chain_conns main_conn_def targets_conn_def)
  with C(1) show ?thesis by blast
qed

subsection \<open>A workflow\<close>

text \<open>A trigger feeds two nodes whose outputs are merged; the execution order is \<open>v1\<close>.\<close>

definition trigger_node :: inode where
  "trigger_node = (plain_node ''t'')\<lparr>n_type := ''trigger''\<rparr>"

definition plain_type :: node_type where
  "plain_type = \<lparr>nt_name = ''set'', nt_group = [], nt_inputs = [Main], nt_outputs = [PlainOutput Main], nt_requiredInputs = None,
     nt_requestDefaults = False, nt_execute = True, nt_poll = False, nt_trigger = False, nt_webhook = False,
     nt_customOperations = None\<rparr>"

definition to_main :: "string \<Rightarrow> nat \<Rightarrow> conn" where
  "to_main n i = \<lparr>c_node = n, c_type = Main, c_index = i\<rparr>"

definition merge_params :: workflow_parameters where
  "merge_params = \<lparr>wp_id = ''w'', wp_name = None,
     wp_nodes = [trigger_node, plain_node ''a'', plain_node ''b'', plain_node ''m''],
     wp_connections = [(''t'', [(Main, [Some [to_main ''a'' 0, to_main ''b'' 0]])]),
       (''a'', [(Main, [Some [to_main ''m'' 0]])]), (''b'', [(Main, [Some [to_main ''m'' 1]])])],
     wp_active = False,
     wp_nodeTypes = (\<lambda>t v. Some (if t = ''trigger'' then plain_type\<lparr>nt_group := [''trigger''], nt_execute := False, nt_trigger := True\<rparr> else plain_type)),
     wp_settings = Some [(''executionOrder'', JStr ''v1'')], wp_pinData = None\<rparr>"

definition merge_workflow :: workflow where
  "merge_workflow = newWorkflow (\<lambda>t n. Some (n_parameters n)) merge_params"

lemma merge_params_ok: "wf_conns (wp_connections merge_params)" "same_type (wp_connections merge_params)"
  by code_simp+

lemma newWorkflow_index_witness:
  "conn_at (w_connectionsByDestinationNode (newWorkflow (\<lambda>t n. None) merge_params)) ''m'' Main 1 \<lparr>c_node = ''b'', c_type = Main, c_index = 0\<rparr>"
proof -
  have "conn_at (w_connectionsBySourceNode (newWorkflow (\<lambda>t n. None) merge_params)) ''b'' Main 0 \<lparr>c_node = ''m'', c_type = Main, c_index = 1\<rparr>"
    by code_simp
  then show ?thesis using newWorkflow_index [OF merge_params_ok(1)] by blast
qed

lemma parents_iff_children_witness:
  "''m'' \<in> set (childNodes (newWorkflow (\<lambda>t n. None) merge_params) ''t'')"
proof -
  have "''t'' \<in> set (parentNodes (newWorkflow (\<lambda>t n. None) merge_params) ''m'')" by code_simp
  then show ?thesis using parents_iff_children [OF merge_params_ok] by blast
qed

lemma renameNode_renames_witness:
  "\<exists>w'. renameNode (\<lambda>s a b. s) ''a'' ''x'' merge_workflow = Inr w' \<and> getNode w' ''a'' = None
    \<and> conn_at (w_connectionsBySourceNode w') ''x'' Main 0 (to_main ''m'' 0)"
proof -
  have at: "conn_at (w_connectionsBySourceNode merge_workflow) ''a'' Main 0 (to_main ''m'' 0)" by code_simp
  have "\<not> is_restricted_name ''x''" "obj_get (w_connectionsBySourceNode merge_workflow) ''x'' = None" by code_simp+
  then obtain w' where w': "renameNode (\<lambda>s a b. s) ''a'' ''x'' merge_workflow = Inr w'" "getNode w' ''a'' = None"
    "conn_at (w_connectionsBySourceNode w') ''x'' Main 0 (to_main ''m'' 0)
      \<longleftrightarrow> (\<exists>n0 c0. conn_at (w_connectionsBySourceNode merge_workflow) n0 Main 0 c0
           \<and> ''x'' = rename_key ''a'' ''x'' n0 \<and> to_main ''m'' 0 = renameTarget ''a'' ''x'' c0)"
    using renameNode_renames [of "''x''" "''a''" merge_workflow "\<lambda>s a b. s"] by auto
  have "''x'' = rename_key ''a'' ''x'' ''a''" "to_main ''m'' 0 = renameTarget ''a'' ''x'' (to_main ''m'' 0)" by code_simp+
  with w' at show ?thesis by blast
qed

lemma getHighestNode_enabled_witness:
  "getHighestNode merge_workflow ''m'' None = Inr [''t''] \<and> getNode merge_workflow ''t'' \<noteq> None"
proof -
  have "getHighestNode merge_workflow ''m'' None = Inr [''t'']" by code_simp
  with getHighestNode_enabled [OF this] show ?thesis by auto
qed

lemma searchNodesBFS_shortest_witness:
  "distinct (map cn_name (searchNodesBFS (w_connectionsBySourceNode merge_workflow) ''t'' (-1)))"
  using searchNodesBFS_shortest by (rule conjunct1)

lemma fromWorkflow_faithful_witness:
  "\<exists>g. fromWorkflow merge_workflow = Inr g \<and> wf_graph g \<and> node_exists g trigger_node"
proof -
  have "wf_workflow merge_workflow" unfolding wf_workflow_def resolves_def by code_simp
  moreover have "\<forall>(n, byType) \<in> set (w_connectionsBySourceNode merge_workflow). CHR ''-'' \<notin> set n" by code_simp
  moreover have "getNode merge_workflow (n_name trigger_node) = Some trigger_node" by code_simp
  ultimately show ?thesis using fromWorkflow_faithful [of merge_workflow] by blast
qed

lemma findTrigger_choice_witness:
  "findTriggerForPartialExecution merge_workflow ''m'' [(''t'', [])] = Inr (Some trigger_node) \<and> enabled_trigger merge_workflow trigger_node"
proof -
  have "findTriggerForPartialExecution merge_workflow ''m'' [(''t'', [])] = Inr (Some trigger_node)"
    "getNode merge_workflow ''m'' = Some (plain_node ''m'')" "\<not> enabled_trigger merge_workflow (plain_node ''m'')"
    by code_simp+
  with findTrigger_choice [of merge_workflow "''m''" "[(''t'', [])]" "Some trigger_node" "plain_node ''m''"]
  show ?thesis by (metis (no_types, lifting))
qed

definition idle :: exec_state where
  "idle = createRunExecutionData \<lparr>ro_destinationNode = None, ro_originalDestinationNode = None, ro_runNodeFilter = None,
     ro_runData = None, ro_pinData = None, ro_stack = None, ro_waiting = None, ro_waitingSource = None\<rparr>"

lemma idle_waiting_ok: "waiting_ok idle"
  by (simp add: waiting_ok_def idle_def createRunExecutionData_def get_entry_def)

lemma addNodeToBeExecuted_v1_witness:
  "\<exists>st'. addNodeToBeExecuted merge_workflow (to_main ''m'' 0) 0 ''a'' (Some [JsVal [some_item]]) 0 None None idle = Inr st'
    \<and> waiting_ok st'"
proof -
  have "\<not> isLegacyExecutionOrder merge_workflow" "1 < number_of_inputs merge_workflow (c_node (to_main ''m'' 0))"
    "nodeOf merge_workflow (c_node (to_main ''m'' 0)) = Inr (plain_node ''m'')"
    "output_nodes merge_workflow ''a'' = Inr [''m'']" by code_simp+
  moreover have "firstInputIsEmpty merge_workflow idle ''m'' 0 = Inr True" by code_simp
  ultimately show ?thesis using addNodeToBeExecuted_v1 [of merge_workflow idle "to_main ''m'' 0"] idle_waiting_ok by force
qed

end
