(* ===== verification/EngineTryFacts.thy ===== *)
theory EngineTryFacts
  imports EngineTry EngineQueueFacts
begin

section \<open>Tries and outputs\<close>

text \<open>
  How often the implementation of a node is called, which items get which pairing, and what the
  partition of items with errors leaves on each output.
\<close>

subsection \<open>How often a node is called\<close>

lemma maxTries_bounds: "1 \<le> maxTries node \<and> maxTries node \<le> 5"
  by (auto simp: maxTries_def split: option.splits)

lemma call_node_calls: "call_node env calls e i r ts = (res, ts') \<Longrightarrow> ts_calls ts' = Suc (ts_calls ts)"
  by (auto simp: call_node_def split: prod.splits)

text \<open>A repeated run that throws has not used up its try.\<close>

lemma rerun_calls:
  "rerun env calls e i k res ts = (r, k', ts') \<Longrightarrow>
   ts_calls ts' + k' \<le> ts_calls ts + k + (if isl r then 1 else 0) \<and> (isl r \<longrightarrow> 1 \<le> k')"
proof (induction env calls e i k res ts arbitrary: r k' ts' rule: rerun.induct)
  case (2 env calls e i k res ts)
  show ?case
  proof (cases "nodeFailed res")
    case True
    obtain q ts1 where 1: "call_node env calls e i None ts = (q, ts1)" by force
    show ?thesis
    proof (cases q)
      case (Inl err)
      with 2(2) True 1 show ?thesis by (auto dest: call_node_calls)
    next
      case (Inr res')
      with 2(2) True 1 have "rerun env calls e i k res' ts1 = (r, k', ts')" by simp
      from "2.IH"(1) [OF True 1 [symmetric] Inr this] call_node_calls [OF 1] show ?thesis by auto
    qed
  qed (use 2 in auto)
qed auto

lemma finish_try_calls: "finish_try env e pinned left ts = (r, ts') \<Longrightarrow> ts_calls ts' = ts_calls ts"
  by (auto simp: finish_try_def map_state_def Let_def split: sum.splits)

lemma respond_calls: "respond env e left data hints ts = (r, ts') \<Longrightarrow> ts_calls ts' = ts_calls ts"
  by (auto simp: respond_def Let_def dest: finish_try_calls split: option.splits if_splits prod.splits)

lemma attempt_calls:
  assumes "attempt env calls e i left ts = (r, ts')"
  shows "case r of TryThrew err left' \<Rightarrow> left' \<le> left \<and> ts_calls ts' + left' \<le> ts_calls ts + left + (if left' = 0 then 1 else 2)
    | _ \<Rightarrow> ts_calls ts' \<le> ts_calls ts + left + 1"
proof (cases "pinned_items (snd (ts_ws ts)) (ed_node e)")
  case (Some its)
  with assms finish_try_calls finish_try_left show ?thesis by (fastforce simp: attempt_def split: try_end.splits)
next
  case None
  let ?res = "collect_results e (x_runData (snd (ts_ws ts))) (ts_results ts)"
  obtain q ts1 where 1: "call_node env calls e i (Some ?res) (ts\<lparr>ts_results := ?res\<rparr>) = (q, ts1)" by force
  have c1: "ts_calls ts1 = Suc (ts_calls ts)" using call_node_calls [OF 1] by simp
  show ?thesis
  proof (cases q)
    case (Inl err)
    with assms None 1 c1 show ?thesis by (auto simp: attempt_def)
  next
    case (Inr res)
    obtain q2 left2 ts2 where 2: "rerun env calls e i left res ts1 = (q2, left2, ts2)" by (cases "rerun env calls e i left res ts1")
    note c2 = rerun_calls [OF 2] rerun_left [OF 2]
    show ?thesis
    proof (cases q2)
      case (Inl err)
      with assms None 1 Inr 2 c1 c2 show ?thesis by (auto simp: attempt_def)
    next
      case r2: (Inr res2)
      show ?thesis
      proof (cases res2)
        case (Response data hints)
        with assms None 1 Inr 2 r2 have "respond env e left2 data hints ts2 = (r, ts')" by (simp add: attempt_def)
        with c1 c2 r2 respond_calls [OF this] respond_left show ?thesis by (fastforce split: try_end.splits)
      next
        case (Request request)
        with assms None 1 Inr 2 r2 c1 c2 show ?thesis
          by (auto simp: attempt_def split: option.splits prod.splits)
      qed
    qed
  qed
qed

lemma tries_calls: "tries env calls e i left ts = (r, ts') \<Longrightarrow> ts_calls ts' \<le> ts_calls ts + 2 * left + 1"
proof (induction left arbitrary: ts rule: less_induct)
  case (less left)
  obtain q ts1 where 1: "attempt env calls e i left (ts\<lparr>ts_error := None\<rparr>) = (q, ts1)" by force
  note c = attempt_calls [OF 1]
  show ?case
  proof (cases q)
    case (TryThrew err left')
    show ?thesis
    proof (cases "left' = 0")
      case True
      with less.prems 1 TryThrew c show ?thesis by (auto simp: tries.simps map_state_def)
    next
      case False
      let ?ts = "map_state (set_lastNodeExecuted (n_name (ed_node e))) (ts1\<lparr>ts_error := Some err\<rparr>)"
      have "tries env calls e i (left' - 1) ?ts = (r, ts')"
        using less.prems 1 TryThrew False by (simp add: tries.simps [of _ _ _ _ left])
      moreover have "ts_calls ?ts = ts_calls ts1" by (simp add: map_state_def)
      moreover have le: "left' \<le> left" "ts_calls ts1 + left' \<le> ts_calls ts + left + 2"
        using c TryThrew False by simp_all
      moreover have "left' - 1 < left" using le False by linarith
      ultimately have "ts_calls ts' \<le> ts_calls ts1 + 2 * (left' - 1) + 1" using less.IH by metis
      with le False show ?thesis by linarith
    qed
  qed (use less.prems 1 c in \<open>auto simp: tries.simps\<close>)
qed

text \<open>
  C13: A node is tried between once and five times, once when retrying is off. However it behaves,
  its implementation is called at most \<open>2 * maxTries - 1\<close> times.
\<close>

theorem runTries_bound:
  assumes "runTries env calls e runIndex ws = (r, ts)"
  shows "1 \<le> maxTries (ed_node e) \<and> maxTries (ed_node e) \<le> 5
    \<and> (n_retryOnFail (ed_node e) \<noteq> Some True \<longrightarrow> maxTries (ed_node e) = 1)
    \<and> ts_calls ts \<le> 2 * maxTries (ed_node e) - 1"
proof -
  have "ts_calls ts \<le> 2 * (maxTries (ed_node e) - 1) + 1"
    using tries_calls [OF assms [unfolded runTries_def]] by simp
  with maxTries_bounds [of "ed_node e"] have "ts_calls ts \<le> 2 * maxTries (ed_node e) - 1" by linarith
  moreover have "n_retryOnFail (ed_node e) \<noteq> Some True \<longrightarrow> maxTries (ed_node e) = 1" by (simp add: maxTries_def)
  ultimately show ?thesis using maxTries_bounds by blast
qed

subsection \<open>assignPairedItems\<close>

fun fill_item :: "(nat \<Rightarrow> nat) \<Rightarrow> nat \<times> item \<Rightarrow> item" where
  "fill_item f (i, it) = (if i_pairedItem it = None then it\<lparr>i_pairedItem := Some (paired_with (f i))\<rparr> else it)"

fun fill_output :: "(nat \<Rightarrow> nat) \<Rightarrow> items jsval \<Rightarrow> items jsval" where
  "fill_output f (JsVal its) = JsVal (map (fill_item f) (enumerate 0 its))"
| "fill_output f d = d"

lemma choose_pair: "If True 0 = (\<lambda>_. 0 :: nat)" "If False 0 = (id :: nat \<Rightarrow> nat)"
  by (simp_all add: fun_eq_iff)

lemma fill_item_id: "i_pairedItem it \<noteq> None \<Longrightarrow> fill_item f (i, it) = it"
  by simp

lemma assign_items_eq:
  "single \<or> same \<Longrightarrow> assign_items single same k its = (map (fill_item (\<lambda>i. if single then 0 else i)) (enumerate k its), False)"
  by (induction its arbitrary: k) (auto split: prod.splits)

lemma assign_items_none: "fst (assign_items False False k its) = its"
  by (induction its arbitrary: k) (simp_all add: case_prod_beta)

lemma assign_outputs_eq:
  assumes "JsUndef \<notin> set ds"
  shows "assign_outputs single same ds =
    Inr (if single \<or> same then map (fill_output (\<lambda>i. if single then 0 else i)) ds else ds)"
  using assms
proof (induction single same ds rule: assign_outputs.induct)
  case (4 single same its ds)
  show ?case
  proof (cases "single \<or> same")
    case True
    with 4 assign_items_eq [OF True, of 0 its] show ?thesis by simp
  next
    case False
    obtain its' b where 1: "assign_items False False 0 its = (its', b)" by force
    with assign_items_none [of 0 its] have "its' = its" by simp
    with False 4 1 show ?thesis by (cases b) auto
  qed
qed auto

text \<open>
  For outputs that are arrays or \<open>null\<close>, the nested loops of \<open>assignPairedItems\<close> compute this:
  with one input of one item every unpaired item is paired with that item; otherwise, with one output
  and one input of equal length, every unpaired item is paired with the one at its position;
  otherwise nothing changes.
\<close>

theorem assignPairedItems_spec:
  assumes "obj_get (ed_data e) Main = Some main" "JsUndef \<notin> set ds"
    and "length ds = 1 \<longrightarrow> length main = 1 \<longrightarrow> (\<exists>its. ds = [JsVal its])"
  shows "assignPairedItems (Some ds) e = Inr (Some
    (if ds = [] then []
     else if length main = 1 \<and> first_length main = Some 1 then map (fill_output (\<lambda>_. 0)) ds
     else if length ds = 1 \<and> length main = 1 \<and> first_length main = first_length ds then map (fill_output id) ds
     else ds))"
proof (cases ds)
  case (Cons d ds')
  have same: "isSameNumberOfItems ds main = Inr (length ds = 1 \<and> length main = 1 \<and> first_length main = first_length ds)"
    using assms(3) by (auto simp: isSameNumberOfItems_def first_length_def arr_get_def)
  have eq: "assignPairedItems (Some ds) e = bindE (assign_outputs (length main = 1 \<and> first_length main = Some 1)
      (length ds = 1 \<and> length main = 1 \<and> first_length main = first_length ds) ds) (\<lambda>ds. Inr (Some ds))"
    using Cons assms(1) same by (simp add: assignPairedItems_def)
  define single where "single = (length main = 1 \<and> first_length main = Some 1)"
  define sm where "sm = (length ds = 1 \<and> length main = 1 \<and> first_length main = first_length ds)"
  have "ds \<noteq> []" using Cons by simp
  then show ?thesis
    unfolding eq assign_outputs_eq [OF assms(2)] single_def [symmetric] sm_def [symmetric]
    by (cases single) (simp_all add: choose_pair)
qed (simp add: assignPairedItems_def)

subsection \<open>handleNodeErrorOutput\<close>

lemma split_items_ok:
  assumes "\<forall>it \<in> set its. errorData it \<longrightarrow> f it = Inr (g it)"
  shows "split_items f its succ errs = Inr (succ @ filter (\<lambda>it. \<not> errorData it) its, errs @ map g (filter errorData its))"
  using assms by (induction its arbitrary: succ errs) auto

definition outputs_at :: "items jsval list \<Rightarrow> nat \<Rightarrow> items" where
  "outputs_at ds k = output_items (arr_get ds k)"

lemma outputs_at_set: "outputs_at (arr_set ds k (JsVal its)) j = (if j = k then its else outputs_at ds j)"
  by (simp add: outputs_at_def arr_get_set)

lemma split_outputs_ok:
  assumes "\<forall>k \<in> set ks. \<forall>it \<in> set (outputs_at ds k). errorData it \<longrightarrow> f it = Inr (g it)" "distinct ks"
  shows "\<exists>ds'. split_outputs f ks ds errs = (ds', Inr (errs @ map g (concat (map (\<lambda>k. filter errorData (outputs_at ds k)) ks))))
    \<and> (\<forall>k. outputs_at ds' k = (if k \<in> set ks then filter (\<lambda>it. \<not> errorData it) (outputs_at ds k) else outputs_at ds k))"
  using assms
proof (induction ks arbitrary: ds errs)
  case (Cons k ks)
  let ?ok = "filter (\<lambda>it. \<not> errorData it) (outputs_at ds k)"
  let ?ds = "arr_set ds k (JsVal ?ok)"
  have "split_items f (outputs_at ds k) [] errs = Inr (?ok, errs @ map g (filter errorData (outputs_at ds k)))"
    using split_items_ok [of "outputs_at ds k" f g "[]" errs] Cons.prems(1) by simp
  moreover have same: "outputs_at ?ds j = outputs_at ds j" if "j \<in> set ks" for j
    using that Cons.prems(2) by (auto simp: outputs_at_set)
  from Cons.IH [of ?ds "errs @ map g (filter errorData (outputs_at ds k))"] Cons.prems same obtain ds' where
    "split_outputs f ks ?ds (errs @ map g (filter errorData (outputs_at ds k)))
      = (ds', Inr ((errs @ map g (filter errorData (outputs_at ds k))) @ map g (concat (map (\<lambda>k. filter errorData (outputs_at ?ds k)) ks))))"
    and ds': "\<forall>j. outputs_at ds' j = (if j \<in> set ks then filter (\<lambda>it. \<not> errorData it) (outputs_at ?ds j) else outputs_at ?ds j)"
    by fastforce
  moreover have "map (\<lambda>k. filter errorData (outputs_at ?ds k)) ks = map (\<lambda>k. filter errorData (outputs_at ds k)) ks"
    using same by simp
  ultimately have 1: "split_outputs f (k # ks) ds errs
      = (ds', Inr (errs @ map g (concat (map (\<lambda>k. filter errorData (outputs_at ds k)) (k # ks)))))"
    by (simp add: outputs_at_def [symmetric])
  have "outputs_at ds' j = (if j \<in> set (k # ks) then filter (\<lambda>it. \<not> errorData it) (outputs_at ds j) else outputs_at ds j)" for j
    using ds' Cons.prems(2) by (auto simp: outputs_at_set)
  with 1 show ?case by blast
qed simp

text \<open>
  When the source of every failed item is found, the outputs other than the last keep exactly
  their items without an error, in order, and the last one holds all items with an error, output by
  output in order, each with the data of its source item. What the last output held before is lost.
\<close>

theorem handleNodeErrorOutput_partition:
  assumes "ev_mainOutputs env w (ed_node e) = Suc n"
    and "\<forall>k < n. \<forall>it \<in> set (outputs_at ds k). errorData it \<longrightarrow> error_item env st e it = Inr (g it)"
  shows "\<exists>ds'. handleNodeErrorOutput env w st e ds = (ds', None)
    \<and> (\<forall>k. outputs_at ds' k =
        (if k < n then filter (\<lambda>it. \<not> errorData it) (outputs_at ds k)
         else if k = n then map g (concat (map (\<lambda>k. filter errorData (outputs_at ds k)) [0..<n]))
         else outputs_at ds k))"
proof -
  have "\<forall>k \<in> set [0..<n]. \<forall>it \<in> set (outputs_at ds k). errorData it \<longrightarrow> error_item env st e it = Inr (g it)"
    using assms(2) by simp
  from split_outputs_ok [OF this, of "[]"] obtain ds' where
    1: "split_outputs (error_item env st e) [0..<n] ds []
      = (ds', Inr (map g (concat (map (\<lambda>k. filter errorData (outputs_at ds k)) [0..<n]))))"
      "\<forall>k. outputs_at ds' k = (if k \<in> set [0..<n] then filter (\<lambda>it. \<not> errorData it) (outputs_at ds k) else outputs_at ds k)"
    by auto
  let ?errs = "map g (concat (map (\<lambda>k. filter errorData (outputs_at ds k)) [0..<n]))"
  have "handleNodeErrorOutput env w st e ds = (arr_set ds' n (JsVal ?errs), None)"
    using 1(1) assms(1) by (simp add: handleNodeErrorOutput_def)
  then show ?thesis using 1(2) by (intro exI [of _ "arr_set ds' n (JsVal ?errs)"]) (auto simp: outputs_at_set)
qed

end
