(* ===== verification/EngineExamples.thy ===== *)
theory EngineExamples
  imports GraphExamples RequestsFacts EngineWaitingFacts EngineTryFacts
begin

section \<open>Concrete executions\<close>

text \<open>
  Inputs at which the hypotheses of the engine's properties hold, over the workflow of
  \<open>GraphExamples\<close>, and runs of the engine on which the code does something unexpected.
\<close>

subsection \<open>Requests\<close>

definition entry_for :: "inode \<Rightarrow> execute_data" where
  "entry_for node = \<lparr>ed_data = [(Main, [JsVal [some_item]])], ed_metadata = None, ed_node = node,
     ed_source = Some [(Main, [JsVal (sourceFrom ''t'' 0 0)])], ed_runIndex = None\<rparr>"

definition agent :: execute_data where
  "agent = entry_for (plain_node ''b'')"

definition call_a :: engine_request where
  "call_a = \<lparr>er_actions = [\<lparr>ea_nodeName = ''a'', ea_input = [(''q'', JStr ''x'')], ea_type = AiTool, ea_id = ''1'', ea_itemIndex = None\<rparr>],
     er_metadata = JNull\<rparr>"

definition tool_run :: task_data where
  "tool_run = (placeholder [])\<lparr>td_executionStatus := Some Success, td_inputOverride := None, td_data := Some [(AiTool, [])]\<rparr>"

lemma handleRequest_responses_witness:
  "\<exists>nodes w' st' m. handleRequest (ed_node agent) call_a 0 agent (merge_workflow, idle) = (Inr nodes, (w', st'))
    \<and> node_runs (x_runData st') ''a'' = [placeholder (tool_input (ed_node agent) 0 agent (hd (er_actions call_a)))]
    \<and> ne_metadata (hd nodes) = Some m
    \<and> rs_actionResponses (collect_results (agent\<lparr>ed_metadata := Some m\<rparr>)
          (x_runData (store_runs (zip (tl nodes) [tool_run]) st')) makeEngineResponse)
      = [(assign_task (placeholder (tool_input (ed_node agent) 0 agent (hd (er_actions call_a)))) tool_run, hd (er_actions call_a))]"
proof -
  obtain r w' st' where 1: "handleRequest (ed_node agent) call_a 0 agent (merge_workflow, idle) = (r, (w', st'))"
    by (metis surj_pair)
  have "\<not> isl (fst (handleRequest (ed_node agent) call_a 0 agent (merge_workflow, idle)))
    \<and> projr (fst (handleRequest (ed_node agent) call_a 0 agent (merge_workflow, idle))) \<noteq> []" by code_simp
  with 1 obtain nodes where "r = Inr nodes" "nodes \<noteq> []" by (cases r) auto
  moreover have one: "length [tool_run] = length (er_actions call_a)" by (simp add: call_a_def)
  ultimately obtain m where m: "ne_metadata (hd nodes) = Some m"
    "node_runs (x_runData st') ''a'' = node_runs (x_runData idle) ''a'' @ runs_of (ed_node agent) 0 agent (er_actions call_a) ''a''"
    "rs_actionResponses (collect_results (agent\<lparr>ed_metadata := Some m\<rparr>)
       (x_runData (store_runs (zip (tl nodes) [tool_run]) st')) makeEngineResponse)
     = map (\<lambda>(a, task). (assign_task (placeholder (tool_input (ed_node agent) 0 agent a)) task, a)) (zip (er_actions call_a) [tool_run])"
    using 1 handleRequest_responses [of "ed_node agent" call_a 0 agent merge_workflow idle nodes w' st' "[tool_run]", OF _ _ one refl]
    by blast
  have "node_runs (x_runData idle) ''a'' = []" by code_simp
  moreover have "runs_of (ed_node agent) 0 agent (er_actions call_a) ''a''
      = [placeholder (tool_input (ed_node agent) 0 agent (hd (er_actions call_a)))]"
    by (simp add: runs_of_def call_a_def)
  moreover have "zip (er_actions call_a) [tool_run] = [(hd (er_actions call_a), tool_run)]" by (simp add: call_a_def)
  ultimately show ?thesis using 1 \<open>r = Inr nodes\<close> m by auto
qed

lemma handleEngineRequest_order_witness:
  "\<exists>w' st'. handleEngineRequest (ed_node agent) call_a 0 agent (merge_workflow, idle) = (None, (w', st'))
    \<and> stack_names st' = [''a'', ''b'']"
proof -
  have "keyed merge_workflow" "\<forall>a \<in> set (er_actions call_a). single_input merge_workflow (ea_nodeName a)"
    "single_input merge_workflow (n_name (ed_node agent))" "obj_get (ed_data agent) Main \<noteq> None"
    unfolding keyed_def single_input_def by code_simp+
  moreover have "prepareRequestingNodeForResuming agent = Some (\<lparr>c_node = ''b'', c_type = AiTool, c_index = 0\<rparr>, ''t'')" by code_simp
  moreover have "\<not> isLegacyExecutionOrder merge_workflow" "stack_names idle = []"
    "map ea_nodeName (er_actions call_a) = [''a'']" "n_name (ed_node agent) = ''b''" by code_simp+
  ultimately show ?thesis using handleEngineRequest_order [of merge_workflow call_a agent _ "ed_node agent" 0 idle] by simp
qed

subsection \<open>Waiting\<close>

definition quiet_env :: engine_env where
  "quiet_env = \<lparr>ev_errorOf = (\<lambda>_. \<lparr>err_name = ''TypeError'', err_message = ''x'', err_stack = ''''\<rparr>),
     ev_mainOutputs = (\<lambda>w n. 2), ev_getPairedItem = (\<lambda>st n s p. Inr None), ev_requiredInputs = (\<lambda>w n s. None),
     ev_parameterIssues = (\<lambda>t n ps. False), ev_timeout = None, ev_manual = True\<rparr>"

text \<open>The node \<open>m\<close> has the data of \<open>a\<close> and waits for that of \<open>b\<close>.\<close>

definition half_waiting :: exec_state where
  "half_waiting = idle\<lparr>x_waiting := [(''m'', [(0, [(Main, [JsVal [some_item], JsNull])])])],
     x_waitingSource := [(''m'', [(0, [(Main, [JsVal (sourceFrom ''a'' 0 0), JsNull])])])]\<rparr>"

lemma half_waiting_ok: "waiting_ok half_waiting"
  by (simp add: waiting_ok_def half_waiting_def get_entry_def has_main_def wf_obj_def)

lemma pickWaiting_result_witness:
  "\<exists>st' e. pickWaiting quiet_env merge_workflow half_waiting = Inr st' \<and> x_stack st' = [e] \<and> picked merge_workflow st' e"
proof -
  have "\<not> isl (pickWaiting quiet_env merge_workflow half_waiting)
    \<and> x_stack (projr (pickWaiting quiet_env merge_workflow half_waiting)) \<noteq> []" "x_stack half_waiting = []" by code_simp+
  moreover from this(1) obtain st' where st': "pickWaiting quiet_env merge_workflow half_waiting = Inr st'" "x_stack st' \<noteq> []"
    by (cases "pickWaiting quiet_env merge_workflow half_waiting") auto
  ultimately show ?thesis using pickWaiting_result [OF st'(1) half_waiting_ok] by auto
qed

subsection \<open>Tries\<close>

text \<open>
  A node with two tries. Its first output holds an error, the repeated run throws, and since this
  does not advance \<open>tryIndex\<close> the second try runs it a third time.
\<close>

definition soft_error :: run_result where
  "soft_error = Response (Some [JsVal [emptyItem\<lparr>i_json := [(''error'', JStr ''e'')]\<rparr>]]) []"

definition flaky :: node_calls where
  "flaky k impl c = (if k = 0 then (Inr soft_error, None)
     else if k = 1 then (Inl \<lparr>err_name = ''Error'', err_message = ''boom'', err_stack = ''''\<rparr>, None)
     else (Inr (Response (Some [JsVal [emptyItem]]) []), None))"

definition two_tries :: execute_data where
  "two_tries = entry_for ((plain_node ''a'')\<lparr>n_retryOnFail := Some True, n_maxTries := Some 2\<rparr>)"

lemma runTries_three_calls:
  "maxTries (ed_node two_tries) = 2 \<and> ts_calls (snd (runTries quiet_env flaky two_tries 0 (merge_workflow, idle))) = 3"
  by code_simp

lemma runTries_bound_witness:
  "ts_calls (snd (runTries quiet_env flaky two_tries 0 (merge_workflow, idle))) \<le> 2 * maxTries (ed_node two_tries) - 1"
  using runTries_bound [OF prod.collapse [symmetric]] by blast

subsection \<open>Outputs\<close>

lemma assignPairedItems_spec_witness:
  "assignPairedItems (Some [JsVal [emptyItem], JsNull]) agent
    = Inr (Some [JsVal [emptyItem\<lparr>i_pairedItem := Some (paired_with 0)\<rparr>], JsNull])"
proof -
  have "obj_get (ed_data agent) Main = Some [JsVal [some_item]]" by code_simp
  moreover have "first_length [JsVal [some_item]] = Some 1" by code_simp
  moreover have "i_pairedItem emptyItem = None" by (simp add: emptyItem_def)
  ultimately show ?thesis using assignPairedItems_spec [of agent "[JsVal [some_item]]" "[JsVal [emptyItem], JsNull]"] by simp
qed

text \<open>An output \<open>null\<close> is let through by \<open>assignPairedItems\<close>; merging the errors into it throws.\<close>

lemma null_output_crashes:
  "assignPairedItems (Some [JsNull, JsVal []]) agent = Inr (Some [JsNull, JsVal []])
    \<and> merge_errors (Some [JsNull, JsVal []]) = Inl TypeError"
  by code_simp

definition failed_item :: item where
  "failed_item = emptyItem\<lparr>i_json := [(''error'', JStr ''e'')]\<rparr>"

lemma handleNodeErrorOutput_partition_witness:
  "\<exists>ds'. handleNodeErrorOutput quiet_env merge_workflow idle agent [JsVal [failed_item, some_item]] = (ds', None)
    \<and> outputs_at ds' 0 = [some_item] \<and> outputs_at ds' 1 = [failed_item]"
proof -
  have "error_item quiet_env idle agent failed_item = Inr failed_item" "outputs_at [JsVal [failed_item, some_item]] 0 = [failed_item, some_item]"
    "errorData failed_item \<and> \<not> errorData some_item"
    by code_simp+
  moreover have "ev_mainOutputs quiet_env merge_workflow (ed_node agent) = Suc 1" by (simp add: quiet_env_def)
  ultimately show ?thesis
    using handleNodeErrorOutput_partition [of quiet_env merge_workflow agent 1 "[JsVal [failed_item, some_item]]" idle "\<lambda>it. it"]
    by fastforce
qed

end
