(* ===== verification/LoopExamples.thy ===== *)
theory LoopExamples
  imports EngineLoopFacts EngineExamples
begin

section \<open>Concrete runs of the loop\<close>

text \<open>
  The workflow of \<open>GraphExamples\<close> is executed from its trigger to the merge of its two branches;
  the properties of the loop are applied to this execution. Then executions in which the engine
  does something unexpected.
\<close>

subsection \<open>The workflow runs\<close>

definition one_item :: node_calls where
  "one_item k impl c = (Inr (Response (Some [JsVal [some_item]]) []), None)"

definition calm :: "node_calls \<Rightarrow> step_input" where
  "calm calls = \<lparr>si_now = 0, si_end = 1, si_canceled = False, si_aborted = False, si_calls = calls\<rparr>"

definition begin_with :: "execute_data \<Rightarrow> wstate" where
  "begin_with e = (merge_workflow, idle\<lparr>x_stack := [e]\<rparr>)"

definition started :: "execute_data \<Rightarrow> engine" where
  "started e = \<lparr>en_ws = begin_with e, en_lastTry = None, en_error = None, en_events = []\<rparr>"

definition from_trigger :: execute_data where
  "from_trigger = \<lparr>ed_data = [(Main, [JsVal [some_item]])], ed_metadata = None, ed_node = trigger_node, ed_source = None, ed_runIndex = None\<rparr>"

definition order_of :: "exec_state \<Rightarrow> (string \<times> nat option list) list" where
  "order_of st = map (\<lambda>(n, runs). (n, map td_executionIndex runs)) (x_runData st)"

lemma start_from_trigger: "start_execution quiet_env (begin_with from_trigger) = Inr (started from_trigger)"
proof -
  have "checkForWorkflowIssues quiet_env merge_workflow (snd (begin_with from_trigger)) = Inr ()" by code_simp
  moreover have "(snd (begin_with from_trigger))\<lparr>x_status := Running\<rparr> = snd (begin_with from_trigger)"
    "x_waitTill (snd (begin_with from_trigger)) = None" "fst (begin_with from_trigger) = merge_workflow"
    by (simp_all add: begin_with_def idle_def createRunExecutionData_def)
  ultimately show ?thesis
    by (simp add: start_execution_def started_def handleWaitingState_def case_prod_beta) (metis prod.collapse)
qed

text \<open>Nodes at the same position are executed from the last connection to the first.\<close>

lemma merge_run:
  "map_option (\<lambda>st. (x_status st, x_stack st, order_of st)) (run_loop quiet_env (\<lambda>_. calm one_item) 5 (started from_trigger))
    = Some (Success, [], [(''t'', [Some 0]), (''b'', [Some 1]), (''a'', [Some 2]), (''m'', [Some 3])])"
  by code_simp

lemma merge_run_processed:
  "\<exists>st. processRunExecutionData quiet_env (\<lambda>_. calm one_item) 5 (begin_with from_trigger) = Inr (Some st) \<and> x_status st = Success"
  using merge_run by (auto simp: processRunExecutionData_def start_from_trigger)

lemma success_worked_off_witness:
  "\<exists>st en'. run_loop quiet_env (\<lambda>_. calm one_item) 5 (started from_trigger) = Some st
    \<and> executes quiet_env (started from_trigger) en' \<and> x_stack (snd (en_ws en')) = [] \<and> st = end_execution en'"
proof -
  obtain st where st: "run_loop quiet_env (\<lambda>_. calm one_item) 5 (started from_trigger) = Some st" "x_status st = Success"
    using merge_run by auto
  moreover have "x_status (snd (en_ws (started from_trigger))) \<noteq> Success" by code_simp
  ultimately show ?thesis using success_worked_off [OF st] by blast
qed

lemma executes_invariant_witness:
  "\<exists>en'. executes quiet_env (started from_trigger) en' \<and> x_executionIndex (snd (en_ws en')) = 1 \<and> waiting_ok (snd (en_ws en'))"
proof -
  have "(case loop_step quiet_env (calm one_item) (started from_trigger) of
      Some (Next en) \<Rightarrow> x_executionIndex (snd (en_ws en)) = 1 | _ \<Rightarrow> False)" by code_simp
  then obtain en' where 1: "loop_step quiet_env (calm one_item) (started from_trigger) = Some (Next en')" "x_executionIndex (snd (en_ws en')) = 1"
    by (auto split: option.splits loop_result.splits)
  then have ex: "executes quiet_env (started from_trigger) en'" by (blast intro: executes.intros)
  have "waiting_ok (snd (en_ws (started from_trigger)))"
    using idle_waiting_ok by (simp add: started_def begin_with_def)
  moreover have "x_status (snd (en_ws (started from_trigger))) \<noteq> Canceled" by code_simp
  moreover have "begun (started from_trigger) = {}" by (simp add: begun_def started_def)
  ultimately have "waiting_ok (snd (en_ws en'))" using executes_invariant [OF ex] by blast
  with ex 1(2) show ?thesis by blast
qed

lemma addNextNodes_top_left_first_witness:
  "\<exists>st' ns. addNextNodes merge_workflow ''t'' [JsVal [some_item]] 0 idle = (None, st')
    \<and> stack_names st' = map (\<lambda>n. c_node (na_connection n)) ns @ stack_names idle
    \<and> mset ns = mset (next_targets merge_workflow ''t'' [JsVal [some_item]]) \<and> sorted_wrt above_left ns"
proof (rule addNextNodes_top_left_first)
  show "\<not> isLegacyExecutionOrder merge_workflow" by code_simp
  show "keyed merge_workflow" unfolding keyed_def by code_simp
  show "\<forall>(i, c) \<in> set (output_connections merge_workflow ''t''). single_input merge_workflow (c_node c)"
    unfolding single_input_def by code_simp
qed

definition boom :: node_error where
  "boom = \<lparr>err_name = ''Error'', err_message = ''boom'', err_stack = ''''\<rparr>"

definition failed_tries :: try_state where
  "failed_tries = \<lparr>ts_ws = begin_with agent, ts_data = None, ts_hints = [], ts_results = makeEngineResponse, ts_error = Some boom, ts_calls = 1\<rparr>"

lemma conclude_error_stops_witness:
  "\<exists>en'. conclude quiet_env (calm one_item) agent 0 0 failed_tries (started agent) = Left en'
    \<and> x_stack (snd (en_ws en')) = [agent, agent] \<and> en_error en' = Some boom"
proof -
  have "ts_error failed_tries = Some boom" "\<not> continues_on_error (ed_node agent)"
    "x_stack (snd (ts_ws failed_tries)) = [agent]" by code_simp+
  with conclude_error_stops [of failed_tries boom agent quiet_env "calm one_item" 0 0 "started agent"] show ?thesis by force
qed

subsection \<open>Unexpected endings\<close>

definition throwing :: node_calls where
  "throwing k impl c = (Inl boom, None)"

definition tolerant :: execute_data where
  "tolerant = entry_for ((plain_node ''m'')\<lparr>n_onError := Some ContinueRegularOutput\<rparr>)"

text \<open>
  A node that is set to continue fails as the last one. The iteration goes on and stores its output,
  but the error is only cleared by the next iteration: the execution ends with the status \<open>error\<close>.
\<close>

lemma continued_error_ends_as_error:
  "map_option (\<lambda>st. (x_status st, x_stack st, x_error st, map (\<lambda>t. td_data t \<noteq> None) (node_runs (x_runData st) ''m'')))
     (run_loop quiet_env (\<lambda>_. calm throwing) 2 (started tolerant))
    = Some (ErrorStatus, [], Some boom, [True])"
  by code_simp

text \<open>An output that is \<open>null\<close> throws outside every \<open>try\<close>; the status stays \<open>running\<close>.\<close>

definition null_output :: node_calls where
  "null_output k impl c = (Inr (Response (Some [JsNull, JsVal []]) []), None)"

lemma crash_stays_running:
  "map_option (\<lambda>st. (x_status st, x_error st \<noteq> None)) (run_loop quiet_env (\<lambda>_. calm null_output) 2 (started agent))
    = Some (Running, True)"
  by code_simp

text \<open>
  A resumed node whose first try throws: the responses of its sub-nodes are collected again on top of
  those of the first try, so the second try gets each twice. The implementation here returns one item
  per response.
\<close>

definition count_responses :: node_calls where
  "count_responses k impl c =
     (if k = 0 then (Inl boom, None)
      else (Inr (Response (Some [JsVal (case nc_subNodeExecutionResults c of None \<Rightarrow> []
             | Some r \<Rightarrow> map (\<lambda>_. emptyItem) (rs_actionResponses r))]) []), None))"

definition resumed :: execute_data where
  "resumed = two_tries\<lparr>ed_metadata := Some (emptyMetadata\<lparr>tm_subNodeExecutionData :=
     Some ([\<lparr>sn_nodeName = ''b'', sn_runIndex = 0, sn_action = hd (er_actions call_a)\<rparr>], JNull)\<rparr>)\<rparr>"

lemma responses_twice:
  "map_option length (case ts_data (snd (runTries quiet_env count_responses resumed 0
       (merge_workflow, idle\<lparr>x_runData := [(''b'', [task_with [some_item]])]\<rparr>))) of
     Some [JsVal its] \<Rightarrow> Some its | _ \<Rightarrow> None) = Some 2"
  by code_simp

text \<open>An array that ends right before an input does not count as lacking it.\<close>

lemma input_missing_off_by_one: "\<not> input_missing [JsVal [some_item]] 1"
  by code_simp

end
