(* ===== verification/PartialExamples.thy ===== *)
theory PartialExamples
  imports PartialExecutionFacts LoopExamples
begin

section \<open>A partial execution\<close>

text \<open>The merge workflow is run up to its merge, when the trigger has already run.\<close>

definition trigger_runs :: run_data where
  "trigger_runs = [(''t'', [(task_with [some_item])\<lparr>td_executionIndex := Some 0\<rparr>])]"

definition up_to_merge :: "js_error + workflow \<times> exec_state" where
  "up_to_merge = runPartialWorkflow2 (\<lambda>a b. 0) (\<lambda>t n. Some (n_parameters n)) merge_workflow trigger_runs None []
     \<lparr>dn_nodeName = ''m'', dn_mode = Inclusive\<rparr> None"

lemma up_to_merge_state:
  "case up_to_merge of Inl e \<Rightarrow> False
   | Inr (w, st) \<Rightarrow> map (\<lambda>e. n_name (ed_node e)) (x_stack st) = [''a'', ''b''] \<and> x_executionIndex st = 1
       \<and> x_waitTill st = None \<and> \<not> isl (checkForWorkflowIssues quiet_env w st)"
  by code_simp

lemma runPartialWorkflow2_sound_witness:
  "\<exists>w st en. up_to_merge = Inr (w, st) \<and> start_execution quiet_env (w, st) = Inr en
    \<and> waiting_ok (snd (en_ws en)) \<and> numbered (snd (en_ws en))"
proof -
  obtain w st where st: "up_to_merge = Inr (w, st)" "x_waitTill st = None" "\<not> isl (checkForWorkflowIssues quiet_env w st)"
    using up_to_merge_state by (auto split: sum.splits)
  then obtain en where en: "start_execution quiet_env (w, st) = Inr en"
    by (cases "checkForWorkflowIssues quiet_env w st") (auto simp: start_execution_def handleWaitingState_def)
  from runPartialWorkflow2_sound [OF st(1) [unfolded up_to_merge_def] en executes.start] st(1) en show ?thesis by blast
qed

text \<open>The rest of the workflow runs; the two branches are numbered after the run taken over.\<close>

lemma up_to_merge_run:
  "case up_to_merge of Inl e \<Rightarrow> False
   | Inr ws \<Rightarrow> (case start_execution quiet_env ws of Inl e \<Rightarrow> False
       | Inr en \<Rightarrow> map_option (\<lambda>st. (x_status st, order_of st)) (run_loop quiet_env (\<lambda>_. calm one_item) 5 en)
           = Some (Success, [(''t'', [Some 0]), (''a'', [Some 1]), (''b'', [Some 2]), (''m'', [Some 3])]))"
  by code_simp

text \<open>Without a trigger and without run data there is nothing to start from.\<close>

lemma no_trigger:
  "case runPartialWorkflow2 (\<lambda>a b. 0) (\<lambda>t n. Some (n_parameters n)) (merge_workflow\<lparr>w_connectionsByDestinationNode := []\<rparr>) [] None []
     \<lparr>dn_nodeName = ''m'', dn_mode = Inclusive\<rparr> None of
     Inl e \<Rightarrow> e = UserError ''Connect a trigger to run this node'' | Inr ws \<Rightarrow> False"
  by code_simp

end
