(* ===== verification/GraphUtils.thy ===== *)
theory GraphUtils
  imports Connections
begin

section \<open>Selections that can be extracted\<close>

text \<open>
  \<open>packages/workflow/src/graph/graph-utils.ts\<close>: whether a set of nodes can be made a sub-workflow.
  A \<open>Set\<close> is a distinct list; the adjacency list is a \<open>Map\<close> from a node to its connections. The
  connections of a set are objects, distinct unless the same object occurs twice, so the set of them is
  their list.
\<close>

subsection \<open>Set operations\<close>

definition intersection :: "'a list \<Rightarrow> 'a list \<Rightarrow> 'a list" where
  "intersection a b = fold (\<lambda>x result. if x \<in> set b then set_add x result else result) a []"

definition union_sets :: "'a list \<Rightarrow> 'a list \<Rightarrow> 'a list" where
  "union_sets a b = fold set_add b (fold set_add a [])"

definition difference :: "'a list \<Rightarrow> 'a list \<Rightarrow> 'a list" where
  "difference minuend subtrahend = fold set_del subtrahend minuend"

lemma set_difference [simp]: "set (difference a b) = set a - set b"
  unfolding difference_def by (induction b arbitrary: a) auto

lemma set_union_sets [simp]: "set (union_sets a b) = set a \<union> set b"
  by (simp add: union_sets_def)

lemma set_intersection [simp]: "set (intersection a b) = set a \<inter> set b"
proof -
  have "set (fold (\<lambda>x result. if x \<in> set b then set_add x result else result) a r) = set r \<union> (set a \<inter> set b)" for r
    by (induction a arbitrary: r) auto
  then show ?thesis by (simp add: intersection_def)
qed

lemma distinct_intersection [simp]: "distinct (intersection a b)"
proof -
  have "distinct (fold (\<lambda>x result. if x \<in> set b then set_add x result else result) a r)" if "distinct r" for r
    using that by (induction a arbitrary: r) auto
  then show ?thesis by (simp add: intersection_def)
qed

subsection \<open>Edges and paths\<close>

type_synonym adjacency = "conn list obj"

definition edges_of :: "adjacency \<Rightarrow> string \<Rightarrow> conn list" where
  "edges_of adjacencyList n = (case obj_get adjacencyList n of None \<Rightarrow> [] | Some cs \<Rightarrow> cs)"

definition getInputEdges :: "string list \<Rightarrow> adjacency \<Rightarrow> (string \<times> conn) list" where
  "getInputEdges graphIds adjacencyList =
     concat (map (\<lambda>(from, tos). if from \<in> set graphIds then []
       else map (Pair from) (filter (\<lambda>to. c_node to \<in> set graphIds) tos)) adjacencyList)"

definition getOutputEdges :: "string list \<Rightarrow> adjacency \<Rightarrow> (string \<times> conn) list" where
  "getOutputEdges graphIds adjacencyList =
     concat (map (\<lambda>(from, tos). if from \<notin> set graphIds then []
       else map (Pair from) (filter (\<lambda>to. c_node to \<notin> set graphIds) tos)) adjacencyList)"

definition main_targets :: "adjacency \<Rightarrow> string \<Rightarrow> string list" where
  "main_targets adjacencyList n = mk_set (map c_node (filter (\<lambda>x. c_type x = Main) (edges_of adjacencyList n)))"

definition other_targets :: "adjacency \<Rightarrow> string \<Rightarrow> string list" where
  "other_targets adjacencyList n =
     mk_set (map c_node (filter (\<lambda>x. c_type x = Main \<and> c_node x \<noteq> n) (edges_of adjacencyList n)))"

definition getRootNodes :: "string list \<Rightarrow> adjacency \<Rightarrow> string list" where
  "getRootNodes graphIds adjacencyList =
     difference graphIds (fold (\<lambda>nodeId inner. union_sets inner (other_targets adjacencyList nodeId)) graphIds [])"

definition getLeafNodes :: "string list \<Rightarrow> adjacency \<Rightarrow> string list" where
  "getLeafNodes graphIds adjacencyList =
     fold (\<lambda>nodeId result. if intersection (other_targets adjacencyList nodeId) graphIds = [] then set_add nodeId result else result)
       graphIds []"

text \<open>The stack \<open>paths\<close> with its end first.\<close>

lemma edges_of_mem: "c \<in> set (edges_of adj n) \<Longrightarrow> \<exists>k cs. (k, cs) \<in> set adj \<and> c \<in> set cs"
  by (cases "obj_get adj n") (auto simp: edges_of_def dest!: obj_get_mem)

definition all_targets :: "adjacency \<Rightarrow> string set" where
  "all_targets adj = c_node ` (\<Union>(k, cs) \<in> set adj. set cs)"

lemma finite_all_targets: "finite (all_targets adj)"
  by (auto simp: all_targets_def)

lemma main_targets_all: "set (main_targets adj n) \<subseteq> all_targets adj"
  using edges_of_mem by (fastforce simp: main_targets_def all_targets_def)

function path_loop :: "string \<Rightarrow> adjacency \<Rightarrow> string list \<Rightarrow> string list \<Rightarrow> bool" where
  "path_loop end' adjacencyList seen [] = False"
| "path_loop end' adjacencyList seen (next' # paths) =
     (if next' = end' then True
      else let seen' = set_add next' seen
           in path_loop end' adjacencyList seen' (rev (difference (main_targets adjacencyList next') seen') @ paths))"
  by pat_completeness auto
termination path_loop
proof (relation "measures [\<lambda>(e, adj, seen, paths). card ((set paths \<union> all_targets adj) - set seen),
    \<lambda>(e, adj, seen, paths). length (filter (\<lambda>x. x \<in> set seen) paths)]", goal_cases)
  case (2 e adj seen x paths seen')
  let ?new = "difference (main_targets adj x) seen'"
  let ?U = "(set (x # paths) \<union> all_targets adj) - set seen" and ?V = "(set (rev ?new @ paths) \<union> all_targets adj) - set seen'"
  have sub: "?V \<subseteq> ?U - {x}" using main_targets_all [of adj x] 2(2) by auto
  have fin: "finite ?U" using finite_all_targets by simp
  show ?case
  proof (cases "x \<in> set seen")
    case True
    have "card ?V \<le> card ?U" using sub fin by (intro card_mono) auto
    moreover have "filter (\<lambda>y. y \<in> set seen') ?new = []" by (simp add: filter_empty_conv)
    moreover have "set seen' = set seen" using True 2(2) by auto
    ultimately show ?thesis using True by (auto simp: rev_filter [symmetric] le_less)
  next
    case False
    then have "card ?V < card ?U" using sub fin by (intro psubset_card_mono) auto
    then show ?thesis by simp
  qed
qed auto

declare path_loop.simps [simp del]

definition hasPath :: "string \<Rightarrow> string \<Rightarrow> adjacency \<Rightarrow> bool" where
  "hasPath start end' adjacencyList = path_loop end' adjacencyList [] [start]"

subsection \<open>The adjacency list of a workflow\<close>

definition add_or_create :: "string \<Rightarrow> conn \<Rightarrow> adjacency \<Rightarrow> adjacency" where
  "add_or_create k v result = obj_set k (edges_of result k @ [v]) result"

definition buildAdjacencyList :: "conns \<Rightarrow> adjacency" where
  "buildAdjacencyList connectionsBySourceNode =
     fold (\<lambda>(sourceNode, byType).
       fold (\<lambda>(type, slots).
         fold (\<lambda>cs. fold (add_or_create sourceNode) (opt_list cs)) slots) byType)
       (obj_entries connectionsBySourceNode) []"

subsection \<open>parseExtractableSubgraphSelection\<close>

datatype extract_error =
    InputEdgeToNonRootNode string
  | MultipleInputNodes "string list"
  | OutputEdgeFromNonLeafNode string
  | MultipleOutputNodes "string list"
  | NoContinuousPathFromRootToLeaf string string

text \<open>\<open>values().next().value\<close> and the test that both ends exist and are not empty names.\<close>

definition no_path :: "string option \<Rightarrow> string option \<Rightarrow> adjacency \<Rightarrow> extract_error list" where
  "no_path start end' adjacencyList =
     (case (start, end') of
        (Some s, Some e) \<Rightarrow>
          if s \<noteq> [] \<and> e \<noteq> [] \<and> \<not> hasPath s e adjacencyList then [NoContinuousPathFromRootToLeaf s e] else []
      | _ \<Rightarrow> [])"

definition parseExtractableSubgraphSelection ::
    "string list \<Rightarrow> adjacency \<Rightarrow> extract_error list + string option \<times> string option" where
  "parseExtractableSubgraphSelection graphIds adjacencyList =
     (let inputNodes = mk_set (map (\<lambda>x. c_node (snd x)) (filter (\<lambda>x. c_type (snd x) = Main) (getInputEdges graphIds adjacencyList)));
          roots = getRootNodes graphIds adjacencyList;
          rootNodes = (if roots = [] \<and> length inputNodes = 1 then inputNodes else roots);
          rootInputNodes = intersection rootNodes inputNodes;
          outputNodes = mk_set (map fst (filter (\<lambda>x. c_type (snd x) = Main) (getOutputEdges graphIds adjacencyList)));
          leaves = getLeafNodes graphIds adjacencyList;
          leafNodes = (if leaves = [] \<and> length outputNodes = 1 then outputNodes else leaves);
          leafOutputNodes = intersection leafNodes outputNodes;
          start = idx rootInputNodes 0;
          end' = idx leafOutputNodes 0;
          errors = map InputEdgeToNonRootNode (difference inputNodes rootNodes)
            @ (if 1 < length rootInputNodes then [MultipleInputNodes rootInputNodes] else [])
            @ map OutputEdgeFromNonLeafNode (difference outputNodes leafNodes)
            @ (if 1 < length leafOutputNodes then [MultipleOutputNodes leafOutputNodes] else [])
            @ no_path start end' adjacencyList
      in if errors \<noteq> [] then Inl errors else Inr (start, end'))"

end
