(* ===== verification/GraphUtilsFacts.thy ===== *)
theory GraphUtilsFacts
  imports GraphUtils
begin

section \<open>What the selection check promises\<close>

text \<open>
  The search for a path ends and decides reachability, the adjacency list has the connections of
  the workflow, and a selection that is accepted has one way in and one way out.
\<close>

subsection \<open>hasPath\<close>

definition main_path :: "adjacency \<Rightarrow> (string \<times> string) set" where
  "main_path adj = {(a, b). \<exists>c \<in> set (edges_of adj a). c_type c = Main \<and> c_node c = b}"

lemma set_main_targets: "set (main_targets adj n) = main_path adj `` {n}"
  by (auto simp: main_targets_def main_path_def)

text \<open>
  What is seen has its successors among the seen and the pending nodes, and it is not the node
  looked for.
\<close>

lemma path_loop_iff:
  assumes "main_path adj `` set seen \<subseteq> set seen \<union> set paths" "e \<notin> set seen"
  shows "path_loop e adj seen paths \<longleftrightarrow> e \<in> (main_path adj)\<^sup>* `` (set seen \<union> set paths)"
  using assms
proof (induction e adj seen paths rule: path_loop.induct)
  case (1 e adj seen)
  then have "main_path adj `` set seen \<subseteq> set seen" by simp
  then have "(main_path adj)\<^sup>* `` set seen = set seen" by (rule Image_closed_trancl)
  with 1(2) show ?case by (simp add: path_loop.simps)
next
  case (2 e adj seen x paths)
  show ?case
  proof (cases "x = e")
    case True
    then show ?thesis by (auto simp: path_loop.simps)
  next
    case False
    let ?seen = "set_add x seen"
    let ?paths = "rev (difference (main_targets adj x) ?seen) @ paths"
    have step: "path_loop e adj seen (x # paths) = path_loop e adj ?seen ?paths"
      using False by (simp add: path_loop.simps Let_def)
    have cover: "set ?seen \<union> set ?paths = set seen \<union> set (x # paths) \<union> main_path adj `` {x}"
      by (auto simp: set_main_targets)
    have "main_path adj `` set ?seen \<subseteq> set ?seen \<union> set ?paths"
      using 2(2) unfolding cover by auto
    moreover have "e \<notin> set ?seen" using 2(3) False by simp
    ultimately have "path_loop e adj ?seen ?paths \<longleftrightarrow> e \<in> (main_path adj)\<^sup>* `` (set ?seen \<union> set ?paths)"
      by (rule "2.IH" [OF False refl])
    moreover have "(main_path adj)\<^sup>* `` (set seen \<union> set (x # paths) \<union> main_path adj `` {x})
        = (main_path adj)\<^sup>* `` (set seen \<union> set (x # paths))"
      by (auto intro: converse_rtrancl_into_rtrancl)
    ultimately show ?thesis unfolding step cover by simp
  qed
qed

text \<open>
  The search for a path, a loop over a stack in which a node may be pending several times, always
  ends, and its answer is whether the end can be reached from the start along main connections.
\<close>

theorem hasPath_reachable: "hasPath start end' adj \<longleftrightarrow> (start, end') \<in> (main_path adj)\<^sup>*"
  unfolding hasPath_def by (subst path_loop_iff) auto

subsection \<open>buildAdjacencyList\<close>

lemma edges_of_add: "edges_of (add_or_create k v adj) n = (if n = k then edges_of adj k @ [v] else edges_of adj n)"
  by (simp add: add_or_create_def edges_of_def js_simps)

lemma edges_of_fold:
  "edges_of (fold (\<lambda>(n, t, i, c). add_or_create n c) ts adj) n
    = edges_of adj n @ map (\<lambda>(n, t, i, c). c) (filter (\<lambda>(m, t, i, c). m = n) ts)"
  by (induction ts arbitrary: adj) (auto simp: edges_of_add)

lemma buildAdjacencyList_tuples: "buildAdjacencyList C = fold (\<lambda>(n, t, i, c). add_or_create n c) (conn_tuples C) []"
proof -
  have slots: "fold (\<lambda>cs. f (opt_list cs)) (slots :: node_inputs) = fold (\<lambda>(i, cs). f (opt_list cs)) (enumerate k slots)"
    for f :: "conn list \<Rightarrow> adjacency \<Rightarrow> adjacency" and slots k
    by (induction slots arbitrary: k) (simp_all add: fun_eq_iff)
  show ?thesis unfolding buildAdjacencyList_def conn_tuples_def
    by (simp add: fold_concat_map fold_map_fun case_prod_beta' split_def slots [of _ _ 0])
qed

text \<open>
  The adjacency list has, under each node, exactly the connections that start there, of every type
  and from every output.
\<close>

theorem buildAdjacencyList_edges:
  assumes "wf_conns C"
  shows "c \<in> set (edges_of (buildAdjacencyList C) n) \<longleftrightarrow> (\<exists>t i. conn_at C n t i c)"
proof -
  have "set (edges_of (buildAdjacencyList C) n) = {c. \<exists>t i. (n, t, i, c) \<in> set (conn_tuples C)}"
    unfolding buildAdjacencyList_tuples edges_of_fold by (force simp: edges_of_def)
  then show ?thesis using conn_tuples_iff [OF assms] by simp
qed

subsection \<open>Selections\<close>

definition enters :: "string list \<Rightarrow> adjacency \<Rightarrow> string \<Rightarrow> conn \<Rightarrow> bool" where
  "enters ids adj src c \<longleftrightarrow> (\<exists>tos. (src, tos) \<in> set adj \<and> c \<in> set tos) \<and> c_type c = Main
     \<and> src \<notin> set ids \<and> c_node c \<in> set ids"

definition exits :: "string list \<Rightarrow> adjacency \<Rightarrow> string \<Rightarrow> conn \<Rightarrow> bool" where
  "exits ids adj src c \<longleftrightarrow> (\<exists>tos. (src, tos) \<in> set adj \<and> c \<in> set tos) \<and> c_type c = Main
     \<and> src \<in> set ids \<and> c_node c \<notin> set ids"

lemma getInputEdges_iff:
  "(src, c) \<in> set (filter (\<lambda>x. c_type (snd x) = Main) (getInputEdges ids adj)) \<longleftrightarrow> enters ids adj src c"
  by (auto simp: getInputEdges_def enters_def)

lemma getOutputEdges_iff:
  "(src, c) \<in> set (filter (\<lambda>x. c_type (snd x) = Main) (getOutputEdges ids adj)) \<longleftrightarrow> exits ids adj src c"
  by (auto simp: getOutputEdges_def exits_def)

lemma one_in_both:
  assumes "difference xs ys = []" "\<not> 1 < length (intersection ys xs)" "x \<in> set xs"
  shows "idx (intersection ys xs) 0 = Some x"
proof -
  have "set xs - set ys = {}" using assms(1) by (metis set_difference list.set(1))
  with assms(3) have "x \<in> set (intersection ys xs)" by auto
  with assms(2) show ?thesis by (cases "intersection ys xs") auto
qed

text \<open>
  C24: When a selection is accepted, all main connections that enter it lead to its start, all main
  connections that leave it come from its end, and when both exist the end is reachable from the
  start.
\<close>

theorem parseExtractable_sound:
  assumes "parseExtractableSubgraphSelection ids adj = Inr (start, end')"
  shows "(\<forall>src c. enters ids adj src c \<longrightarrow> start = Some (c_node c))
    \<and> (\<forall>src c. exits ids adj src c \<longrightarrow> end' = Some src)
    \<and> (\<forall>s e. start = Some s \<longrightarrow> end' = Some e \<longrightarrow> s \<noteq> [] \<longrightarrow> e \<noteq> [] \<longrightarrow> (s, e) \<in> (main_path adj)\<^sup>*)"
proof -
  let ?ins = "mk_set (map (\<lambda>x. c_node (snd x)) (filter (\<lambda>x. c_type (snd x) = Main) (getInputEdges ids adj)))"
  let ?outs = "mk_set (map fst (filter (\<lambda>x. c_type (snd x) = Main) (getOutputEdges ids adj)))"
  from assms obtain roots leafs where
    ins: "difference ?ins roots = []" "\<not> 1 < length (intersection roots ?ins)" "start = idx (intersection roots ?ins) 0"
    and outs: "difference ?outs leafs = []" "\<not> 1 < length (intersection leafs ?outs)" "end' = idx (intersection leafs ?outs) 0"
    and path: "no_path start end' adj = []"
    unfolding parseExtractableSubgraphSelection_def Let_def by (auto split: if_splits)
  have "start = Some (c_node c)" if "enters ids adj src c" for src c
  proof -
    have "c_node c \<in> set ?ins" using that [folded getInputEdges_iff] by force
    with one_in_both [OF ins(1,2)] ins(3) show ?thesis by simp
  qed
  moreover have "end' = Some src" if "exits ids adj src c" for src c
  proof -
    have "src \<in> set ?outs" using that [folded getOutputEdges_iff] by force
    with one_in_both [OF outs(1,2)] outs(3) show ?thesis by simp
  qed
  moreover have "(s, e) \<in> (main_path adj)\<^sup>*" if "start = Some s" "end' = Some e" "s \<noteq> []" "e \<noteq> []" for s e
    using path that path_loop_iff [of adj "[]" "[s]" e] by (auto simp: no_path_def hasPath_def split: if_splits)
  ultimately show ?thesis by blast
qed

end
