(* ===== verification/SelectionExamples.thy ===== *)
theory SelectionExamples
  imports GraphUtilsFacts GraphExamples
begin

section \<open>Concrete selections\<close>

text \<open>Selections of the merge workflow of \<open>GraphExamples\<close>: a branch with its merge, and both branches.\<close>

definition merge_adjacency :: adjacency where
  "merge_adjacency = buildAdjacencyList (w_connectionsBySourceNode merge_workflow)"

lemma buildAdjacencyList_edges_witness:
  "to_main ''m'' 1 \<in> set (edges_of (buildAdjacencyList (wp_connections merge_params)) ''b'')"
proof -
  have "conn_at (wp_connections merge_params) ''b'' Main 0 (to_main ''m'' 1)" by code_simp
  then show ?thesis using buildAdjacencyList_edges [OF merge_params_ok(1)] by blast
qed

lemma parseExtractable_sound_witness:
  "parseExtractableSubgraphSelection [''a''] merge_adjacency = Inr (Some ''a'', Some ''a'')
   \<and> \<not> enters [''a''] merge_adjacency ''t'' (to_main ''b'' 0)
   \<and> \<not> exits [''a''] merge_adjacency ''t'' (to_main ''b'' 0)"
proof -
  have result: "parseExtractableSubgraphSelection [''a''] merge_adjacency = Inr (Some ''a'', Some ''a'')" by code_simp
  note sound = parseExtractable_sound [OF result]
  from sound have "\<not> enters [''a''] merge_adjacency ''t'' (to_main ''b'' 0)"
    by (fastforce simp: to_main_def)
  moreover from sound have "\<not> exits [''a''] merge_adjacency ''t'' (to_main ''b'' 0)" by auto
  ultimately show ?thesis using result by blast
qed

lemma trigger_alone_rejected:
  "parseExtractableSubgraphSelection [''t'', ''a''] merge_adjacency = Inl [OutputEdgeFromNonLeafNode ''t'']"
  by code_simp

lemma two_branches_rejected:
  "parseExtractableSubgraphSelection [''a'', ''b''] merge_adjacency = Inl [MultipleInputNodes [''a'', ''b''], MultipleOutputNodes [''a'', ''b'']]"
  by code_simp

end
