(* ===== verification/WorkflowDiff.thy ===== *)
theory WorkflowDiff
  imports GraphUtils EngineLoop
begin

section \<open>Differences between versions of a workflow\<close>

text \<open>
  \<open>packages/workflow/src/workflow-diff.ts\<close>. A \<open>Map\<close> is a list of entries in insertion order. Of a
  version of a workflow only the nodes are read here.
\<close>

subsection \<open>Deep equality\<close>

text \<open>\<open>isEqual\<close> compares objects as sets of properties, whatever their order.\<close>

definition same_obj :: "('v \<Rightarrow> 'v \<Rightarrow> bool) \<Rightarrow> ('k, 'v) jsmap \<Rightarrow> ('k, 'v) jsmap \<Rightarrow> bool" where
  "same_obj eq a b \<longleftrightarrow> length a = length b
     \<and> list_all (\<lambda>(k, v). case obj_get b k of None \<Rightarrow> False | Some v' \<Rightarrow> eq v v') a"

fun isEqual :: "json \<Rightarrow> json \<Rightarrow> bool"
  and isEqualItems :: "json list \<Rightarrow> json list \<Rightarrow> bool"
  and isEqualProps :: "json obj \<Rightarrow> json obj \<Rightarrow> bool" where
  "isEqual (JArr xs) (JArr ys) = isEqualItems xs ys"
| "isEqual (JObj a) (JObj b) = (length a = length b \<and> isEqualProps a b)"
| "isEqual v w = (v = w)"
| "isEqualItems [] ys = (ys = [])"
| "isEqualItems (x # xs) ys = (case ys of [] \<Rightarrow> False | y # ys' \<Rightarrow> isEqual x y \<and> isEqualItems xs ys')"
| "isEqualProps [] b = True"
| "isEqualProps ((k, v) # a) b =
     ((case obj_get b k of None \<Rightarrow> False | Some v' \<Rightarrow> isEqual v v') \<and> isEqualProps a b)"

definition same_json :: "json obj \<Rightarrow> json obj \<Rightarrow> bool" where
  "same_json a b = isEqual (JObj a) (JObj b)"

definition same_credentials :: "credential obj option \<Rightarrow> credential obj option \<Rightarrow> bool" where
  "same_credentials a b =
     (case (a, b) of (None, None) \<Rightarrow> True | (Some x, Some y) \<Rightarrow> same_obj (=) x y | _ \<Rightarrow> False)"

definition same_connections :: "conns \<Rightarrow> conns \<Rightarrow> bool" where
  "same_connections = same_obj (same_obj (=))"

subsection \<open>Comparing nodes\<close>

definition same_props :: "inode \<Rightarrow> inode \<Rightarrow> bool" where
  "same_props base target \<longleftrightarrow>
     n_name base = n_name target \<and> n_type base = n_type target \<and> n_typeVersion base = n_typeVersion target
     \<and> n_webhookId base = n_webhookId target \<and> same_credentials (n_credentials base) (n_credentials target)
     \<and> same_json (n_parameters base) (n_parameters target)"

definition compareNodes :: "inode option \<Rightarrow> inode option \<Rightarrow> bool" where
  "compareNodes base target =
     (case (base, target) of (None, None) \<Rightarrow> True | (Some b, Some t) \<Rightarrow> same_props b t | _ \<Rightarrow> False)"

datatype diff_status = Eq | Modified | Added | Deleted

record node_diff =
  nd_status :: diff_status
  nd_node :: inode

type_synonym workflow_diff = "node_diff obj"

definition nodes_by_id :: "inode list \<Rightarrow> inode obj" where
  "nodes_by_id nodes = fold (\<lambda>node. obj_set (n_id node) node) nodes []"

definition base_status :: "inode obj \<Rightarrow> inode obj \<Rightarrow> string \<Rightarrow> diff_status" where
  "base_status baseNodes targetNodes id' =
     (if \<not> obj_has id' targetNodes then Deleted
      else if \<not> compareNodes (obj_get baseNodes id') (obj_get targetNodes id') then Modified
      else Eq)"

definition compareWorkflowsNodes :: "inode list \<Rightarrow> inode list \<Rightarrow> workflow_diff" where
  "compareWorkflowsNodes base target =
     (let baseNodes = nodes_by_id base; targetNodes = nodes_by_id target;
          diff = fold (\<lambda>(id', node). obj_set id' \<lparr>nd_status = base_status baseNodes targetNodes id', nd_node = node\<rparr>) baseNodes []
      in fold (\<lambda>(id', node). if \<not> obj_has id' baseNodes then obj_set id' \<lparr>nd_status = Added, nd_node = node\<rparr> else id)
           targetNodes diff)"

subsection \<open>Merging differences\<close>

datatype merged_status = Merged diff_status | Undone | InvariantBroken

fun mergeNodeDiff :: "diff_status \<Rightarrow> diff_status \<Rightarrow> merged_status" where
  "mergeNodeDiff Added Added = InvariantBroken"
| "mergeNodeDiff Added Deleted = Undone"
| "mergeNodeDiff Added next' = Merged Added"
| "mergeNodeDiff Deleted Added = Merged Modified"
| "mergeNodeDiff Deleted next' = InvariantBroken"
| "mergeNodeDiff Eq Added = InvariantBroken"
| "mergeNodeDiff Eq next' = Merged next'"
| "mergeNodeDiff Modified Added = InvariantBroken"
| "mergeNodeDiff Modified Deleted = Merged Deleted"
| "mergeNodeDiff Modified next' = Merged Modified"

definition hasChanges :: "workflow_diff \<Rightarrow> bool" where
  "hasChanges nodes \<longleftrightarrow> (\<exists>(k, d) \<in> set nodes. nd_status d \<noteq> Eq)"

definition merge_one :: "string \<times> node_diff \<Rightarrow> workflow_diff \<Rightarrow> js_error + workflow_diff" where
  "merge_one = (\<lambda>(key, diff) nodes.
     case obj_get nodes key of
       None \<Rightarrow> Inr (obj_set key (diff\<lparr>nd_status := Added\<rparr>) nodes)
     | Some existing \<Rightarrow>
         (case mergeNodeDiff (nd_status existing) (nd_status diff) of
            InvariantBroken \<Rightarrow> Inl (PlainError ''invariant broken'')
          | Undone \<Rightarrow> Inr (obj_del key nodes)
          | Merged s \<Rightarrow> Inr (obj_set key (diff\<lparr>nd_status := s\<rparr>) nodes)))"

definition mergeNext :: "workflow_diff \<Rightarrow> workflow_diff \<Rightarrow> js_error + workflow_diff" where
  "mergeNext nodes wcs = foldE merge_one wcs nodes"

subsection \<open>Grouping versions\<close>

record version =
  v_id :: string
  v_nodes :: "inode list"

record group =
  gr_changes :: workflow_diff
  gr_grouped :: "version list"
  gr_from :: version
  gr_to :: version

text \<open>
  No data of the first node is lost in the second. Values other than strings are compared with \<open>===\<close>;
  objects and arrays of two versions are never the same object.
\<close>

fun keeps_value :: "json \<Rightarrow> json \<Rightarrow> bool" where
  "keeps_value (JStr left') (JStr right') = str_includes right' left'"
| "keeps_value (JArr xs) v = False"
| "keeps_value (JObj kvs) v = False"
| "keeps_value v w = (v = w)"

definition nodeIsAdditive :: "inode \<Rightarrow> inode \<Rightarrow> bool" where
  "nodeIsAdditive prevNode nextNode \<longleftrightarrow>
     compareNodes (Some (prevNode\<lparr>n_parameters := []\<rparr>)) (Some (nextNode\<lparr>n_parameters := []\<rparr>))
     \<and> list_all (\<lambda>(k, left'). case obj_get (n_parameters nextNode) k of None \<Rightarrow> False
          | Some right' \<Rightarrow> keeps_value left' right') (n_parameters prevNode)"

fun additive_loop :: "group \<Rightarrow> node_diff list \<Rightarrow> js_error + bool" where
  "additive_loop next' [] = Inr True"
| "additive_loop next' (d # ds) =
     (if nd_status d = Deleted then Inr False
      else if nd_status d = Added then additive_loop next' ds
      else case find (\<lambda>x. n_name x = n_name (nd_node d)) (v_nodes (gr_from next')) of
             None \<Rightarrow> Inl (PlainError ''invariant broken'')
           | Some nextNode \<Rightarrow>
               if nd_status d = Modified \<and> \<not> nodeIsAdditive (nd_node d) nextNode then Inr False
               else additive_loop next' ds)"

definition mergeAdditiveChanges :: "group \<Rightarrow> group \<Rightarrow> workflow_diff \<Rightarrow> js_error + bool" where
  "mergeAdditiveChanges prev next' diff = additive_loop next' (map snd diff)"

definition compareWorkflows :: "version \<Rightarrow> version \<Rightarrow> group" where
  "compareWorkflows previous next' =
     \<lparr>gr_changes = compareWorkflowsNodes (v_nodes previous) (v_nodes next'), gr_grouped = [],
      gr_from = previous, gr_to = next'\<rparr>"

type_synonym diff_rule = "group \<Rightarrow> group \<Rightarrow> workflow_diff \<Rightarrow> js_error + bool"

fun some_rule :: "diff_rule list \<Rightarrow> group \<Rightarrow> group \<Rightarrow> workflow_diff \<Rightarrow> js_error + bool" where
  "some_rule [] prev next' diff = Inr False"
| "some_rule (rule # rules) prev next' diff =
     bindE (rule prev next' diff) (\<lambda>b. if b then Inr True else some_rule rules prev next' diff)"

text \<open>\<open>diffs.pop()\<close> takes the last group, whichever group was compared.\<close>

definition merge_last :: "nat \<Rightarrow> group list \<Rightarrow> js_error + group list" where
  "merge_last j groups =
     (let right' = last groups; rest = butlast groups; left' = rest ! j
      in bindE (mergeNext (gr_changes left') (gr_changes right')) (\<lambda>changes.
           Inr (rest[j := \<lparr>gr_changes = changes, gr_grouped = gr_grouped left' @ [gr_to left'] @ gr_grouped right',
             gr_from = gr_from left', gr_to = gr_to right'\<rparr>])))"

text \<open>The pass over the groups: the group \<open>Suc j\<close> is compared with the group \<open>j\<close> before it.\<close>

fun group_pass :: "diff_rule list \<Rightarrow> nat \<Rightarrow> group list \<Rightarrow> js_error + group list" where
  "group_pass rules 0 groups = Inr groups"
| "group_pass rules (Suc j) groups =
     (let prev = groups ! j; next' = groups ! Suc j
      in bindE (some_rule rules prev next' (compareWorkflowsNodes (v_nodes (gr_from prev)) (v_nodes (gr_to next')))) (\<lambda>b.
         bindE (if b then merge_last j groups else Inr groups) (group_pass rules j)))"

lemma merge_last_length: "merge_last j groups = Inr ds \<Longrightarrow> length ds = length groups - 1"
  by (auto simp: merge_last_def Let_def bindE_eq_Inr)

lemma group_pass_length: "group_pass rules i groups = Inr ds \<Longrightarrow> length ds \<le> length groups"
proof (induction i arbitrary: groups)
  case (Suc j)
  then obtain b groups' where 1: "(if b then merge_last j groups else Inr groups) = Inr groups'" "group_pass rules j groups' = Inr ds"
    by (auto simp: Let_def bindE_eq_Inr)
  have "length groups' \<le> length groups" using 1(1) by (cases b) (auto dest: merge_last_length)
  with Suc.IH [OF 1(2)] show ?case by simp
qed simp

function group_loop :: "diff_rule list \<Rightarrow> group list \<Rightarrow> js_error + group list" where
  "group_loop rules groups =
     (case group_pass rules (length groups - 1) groups of
        Inl e \<Rightarrow> Inl e
      | Inr groups' \<Rightarrow> if length groups' = length groups then Inr groups' else group_loop rules groups')"
  by pat_completeness auto
termination group_loop
  by (relation "measure (\<lambda>(rules, groups). length groups)") (auto dest!: group_pass_length simp: le_neq_implies_less)

declare group_loop.simps [simp del]

definition groupWorkflows :: "version list \<Rightarrow> diff_rule list \<Rightarrow> js_error + group list" where
  "groupWorkflows workflows rules =
     (case workflows of
        [] \<Rightarrow> Inr []
      | [w] \<Rightarrow> Inr [\<lparr>gr_changes = [], gr_grouped = [], gr_from = w, gr_to = w\<rparr>]
      | _ \<Rightarrow> group_loop rules (map (\<lambda>(a, b). compareWorkflows a b) (zip workflows (tl workflows))))"

subsection \<open>Changes of positions and credentials\<close>

definition hasNonPositionalChanges :: "inode list \<Rightarrow> inode list \<Rightarrow> conns \<Rightarrow> conns \<Rightarrow> bool" where
  "hasNonPositionalChanges oldNodes newNodes oldConnections newConnections \<longleftrightarrow>
     list_ex (\<lambda>(k, d). nd_status d \<noteq> Eq) (compareWorkflowsNodes oldNodes newNodes)
     \<or> \<not> same_connections oldConnections newConnections"

definition credentials_differ :: "credential obj \<Rightarrow> credential obj \<Rightarrow> bool" where
  "credentials_differ oldCreds newCreds \<longleftrightarrow>
     list_ex (\<lambda>(t, c). case obj_get newCreds t of None \<Rightarrow> True | Some c' \<Rightarrow> cr_id c \<noteq> cr_id c') oldCreds
     \<or> list_ex (\<lambda>(t, c). \<not> obj_has t oldCreds) newCreds"

definition hasCredentialChanges :: "inode list \<Rightarrow> inode list \<Rightarrow> bool" where
  "hasCredentialChanges oldNodes newNodes \<longleftrightarrow>
     list_ex (\<lambda>oldNode. case obj_get (nodes_by_id newNodes) (n_id oldNode) of None \<Rightarrow> False
       | Some newNode \<Rightarrow> credentials_differ (case n_credentials oldNode of None \<Rightarrow> [] | Some c \<Rightarrow> c)
           (case n_credentials newNode of None \<Rightarrow> [] | Some c \<Rightarrow> c)) oldNodes"

end
