(* ===== verification/WorkflowDiffFacts.thy ===== *)
theory WorkflowDiffFacts
  imports WorkflowDiff
begin

section \<open>What comparing and merging versions promise\<close>

text \<open>
  What the comparison says of each node, that merging the changes of two steps gives the changes
  of the whole, and runs of the grouping in which changes are lost.
\<close>

subsection \<open>Folding over an object\<close>

lemma fold_obj_set:
  "wf_obj o' \<Longrightarrow> obj_get (fold (\<lambda>(k, v). if P k then obj_set k (f k v) else id) o' m) i
     = (case obj_get o' i of None \<Rightarrow> obj_get m i | Some v \<Rightarrow> if P i then Some (f i v) else obj_get m i)"
proof (induction o' arbitrary: m)
  case (Cons p o')
  obtain k v where p: "p = (k, v)" by force
  from Cons.prems p have "wf_obj o'" "k \<notin> fst ` set o'" by (auto simp: wf_obj_def)
  then have "obj_get o' k = None" by (simp add: map_of_eq_None_iff)
  with Cons.IH [OF \<open>wf_obj o'\<close>] p show ?case by (auto simp: js_simps split: option.split)
qed simp

lemma wf_fold_obj_set: "wf_obj m \<Longrightarrow> wf_obj (fold (\<lambda>(k, v). if P k then obj_set k (f k v) else id) o' m)"
  by (induction o' arbitrary: m) (auto split: prod.splits)

lemma wf_nodes_by_id: "wf_obj (nodes_by_id ns)"
  unfolding nodes_by_id_def by (rule jsobj.ok_fold_update) simp

text \<open>Two nodes with one id: the last one counts.\<close>

abbreviation node_with :: "inode list \<Rightarrow> string \<Rightarrow> inode option" where
  "node_with ns \<equiv> obj_get (nodes_by_id ns)"

lemma node_with_snoc: "node_with (ns @ [n]) i = (if i = n_id n then Some n else node_with ns i)"
  by (simp add: nodes_by_id_def js_simps)

subsection \<open>compareWorkflowsNodes\<close>

definition node_status :: "inode option \<Rightarrow> inode option \<Rightarrow> node_diff option" where
  "node_status b t =
     (case (b, t) of
        (None, None) \<Rightarrow> None
      | (Some b, None) \<Rightarrow> Some \<lparr>nd_status = Deleted, nd_node = b\<rparr>
      | (None, Some t) \<Rightarrow> Some \<lparr>nd_status = Added, nd_node = t\<rparr>
      | (Some b, Some t) \<Rightarrow> Some \<lparr>nd_status = (if same_props b t then Eq else Modified), nd_node = b\<rparr>)"

lemma compareWorkflowsNodes_get:
  "obj_get (compareWorkflowsNodes base target) i = node_status (node_with base i) (node_with target i)
   \<and> wf_obj (compareWorkflowsNodes base target)"
proof -
  let ?B = "nodes_by_id base" and ?T = "nodes_by_id target"
  let ?diff = "fold (\<lambda>(k, v). if True then obj_set k \<lparr>nd_status = base_status ?B ?T k, nd_node = v\<rparr> else id) ?B []"
  have eq: "compareWorkflowsNodes base target
      = fold (\<lambda>(k, v). if \<not> obj_has k ?B then obj_set k \<lparr>nd_status = Added, nd_node = v\<rparr> else id) ?T ?diff"
    by (simp add: compareWorkflowsNodes_def Let_def)
  have "obj_get ?diff i = (case node_with base i of None \<Rightarrow> None | Some v \<Rightarrow> Some \<lparr>nd_status = base_status ?B ?T i, nd_node = v\<rparr>)"
    by (subst fold_obj_set [OF wf_nodes_by_id]) (simp split: option.split)
  then have "obj_get (compareWorkflowsNodes base target) i = node_status (node_with base i) (node_with target i)"
    unfolding eq by (subst fold_obj_set [OF wf_nodes_by_id])
      (auto simp: node_status_def base_status_def obj_has_iff compareNodes_def split: option.splits)
  then show ?thesis unfolding eq by (simp only: wf_fold_obj_set wf_obj_Nil)
qed

text \<open>
  Two versions are compared node by node, by id: a node of the first version only is deleted, one of
  the second only is added, and one of both is equal or modified, by its name, type, version, webhook,
  credentials and parameters. Other ids do not appear.
\<close>

theorem compareWorkflowsNodes_status:
  "obj_get (compareWorkflowsNodes base target) i =
     (case (node_with base i, node_with target i) of
        (None, None) \<Rightarrow> None
      | (Some b, None) \<Rightarrow> Some \<lparr>nd_status = Deleted, nd_node = b\<rparr>
      | (None, Some t) \<Rightarrow> Some \<lparr>nd_status = Added, nd_node = t\<rparr>
      | (Some b, Some t) \<Rightarrow> Some \<lparr>nd_status = (if same_props b t then Eq else Modified), nd_node = b\<rparr>)"
  using compareWorkflowsNodes_get unfolding node_status_def by blast

lemma hasNonPositionalChanges_iff:
  "\<not> hasNonPositionalChanges old new' C C' \<longleftrightarrow>
     (\<forall>i. case (node_with old i, node_with new' i) of
        (None, None) \<Rightarrow> True | (Some a, Some b) \<Rightarrow> same_props a b | _ \<Rightarrow> False)
     \<and> same_connections C C'"
proof -
  let ?d = "compareWorkflowsNodes old new'"
  have wf: "wf_obj ?d" using compareWorkflowsNodes_get by blast
  have "\<not> list_ex (\<lambda>(k, d). nd_status d \<noteq> Eq) ?d \<longleftrightarrow> (\<forall>i d. (i, d) \<in> set ?d \<longrightarrow> nd_status d = Eq)"
    by (auto simp: list_ex_iff)
  also have "\<dots> \<longleftrightarrow> (\<forall>i d. obj_get ?d i = Some d \<longrightarrow> nd_status d = Eq)"
    unfolding obj_mem_iff [OF wf] ..
  also have "\<dots> \<longleftrightarrow> (\<forall>i. case (node_with old i, node_with new' i) of
        (None, None) \<Rightarrow> True | (Some a, Some b) \<Rightarrow> same_props a b | _ \<Rightarrow> False)"
    unfolding compareWorkflowsNodes_get [THEN conjunct1]
    by (rule all_cong1) (auto simp: node_status_def split: option.splits)
  finally show ?thesis by (auto simp: hasNonPositionalChanges_def)
qed

subsection \<open>mergeNext\<close>

definition merged :: "node_diff option \<Rightarrow> node_diff \<Rightarrow> node_diff option" where
  "merged existing d =
     (case existing of
        None \<Rightarrow> Some (d\<lparr>nd_status := Added\<rparr>)
      | Some e \<Rightarrow> (case mergeNodeDiff (nd_status e) (nd_status d) of Merged s \<Rightarrow> Some (d\<lparr>nd_status := s\<rparr>) | _ \<Rightarrow> None))"

definition mergeable :: "node_diff option \<Rightarrow> node_diff \<Rightarrow> bool" where
  "mergeable existing d \<longleftrightarrow>
     (case existing of None \<Rightarrow> True | Some e \<Rightarrow> mergeNodeDiff (nd_status e) (nd_status d) \<noteq> InvariantBroken)"

lemma merge_one_ok:
  assumes "mergeable (obj_get nodes k) d"
  shows "\<exists>r. merge_one (k, d) nodes = Inr r \<and> (\<forall>i. obj_get r i = (if i = k then merged (obj_get nodes k) d else obj_get nodes i))"
  using assms
  by (auto simp: merge_one_def mergeable_def merged_def js_simps split: option.split merged_status.split)

lemma mergeNext_ok:
  "wf_obj wcs \<Longrightarrow> \<forall>k d. obj_get wcs k = Some d \<longrightarrow> mergeable (obj_get nodes k) d \<Longrightarrow>
   \<exists>r. mergeNext nodes wcs = Inr r
     \<and> (\<forall>i. obj_get r i = (case obj_get wcs i of None \<Rightarrow> obj_get nodes i | Some d \<Rightarrow> merged (obj_get nodes i) d))"
proof (induction wcs arbitrary: nodes)
  case (Cons p wcs)
  obtain k d where p: "p = (k, d)" by force
  from Cons.prems(1) p have wf: "wf_obj wcs" "obj_get wcs k = None"
    by (auto simp: wf_obj_def map_of_eq_None_iff)
  from Cons.prems(2) p have "mergeable (obj_get nodes k) d" by simp
  from merge_one_ok [OF this] obtain n1 where n1: "merge_one (k, d) nodes = Inr n1"
    "\<forall>i. obj_get n1 i = (if i = k then merged (obj_get nodes k) d else obj_get nodes i)" by blast
  have "\<forall>k' d'. obj_get wcs k' = Some d' \<longrightarrow> mergeable (obj_get n1 k') d'"
  proof (intro allI impI)
    fix k' d' assume k': "obj_get wcs k' = Some d'"
    with wf(2) have "k' \<noteq> k" by auto
    with k' Cons.prems(2) p n1(2) show "mergeable (obj_get n1 k') d'" by simp
  qed
  from Cons.IH [OF wf(1) this] obtain r where "mergeNext n1 wcs = Inr r"
    "\<forall>i. obj_get r i = (case obj_get wcs i of None \<Rightarrow> obj_get n1 i | Some d \<Rightarrow> merged (obj_get n1 i) d)" by blast
  moreover from this(2) n1(2) wf(2) have "\<forall>i. obj_get r i = (case obj_get (p # wcs) i of None \<Rightarrow> obj_get nodes i
      | Some d \<Rightarrow> merged (obj_get nodes i) d)" unfolding p by (auto split: option.split)
  ultimately show ?case using n1(1) p by (auto simp: mergeNext_def)
qed (simp add: mergeNext_def)

text \<open>
  C23: Merging the changes from a version A to B with those from B to C never throws. A node of C only counts as
  added, a node of A only as deleted, a node of neither has no entry, as in the comparison of A with C. A node of
  both A and C counts as equal exactly when B has it and neither step changed it, and as modified otherwise: also
  when the second step undid the first, or when the node was deleted and added again, where comparing A with C
  would say equal.
\<close>

theorem mergeNext_composes:
  "\<exists>r. mergeNext (compareWorkflowsNodes A B) (compareWorkflowsNodes B C) = Inr r
     \<and> (\<forall>i. map_option nd_status (obj_get r i) =
         (case (node_with A i, node_with C i) of
            (None, None) \<Rightarrow> None
          | (Some a, None) \<Rightarrow> Some Deleted
          | (None, Some c) \<Rightarrow> Some Added
          | (Some a, Some c) \<Rightarrow> Some (case node_with B i of
                None \<Rightarrow> Modified
              | Some b \<Rightarrow> if same_props a b \<and> same_props b c then Eq else Modified)))"
proof -
  let ?d = "\<lambda>X Y. compareWorkflowsNodes X Y"
  have get: "obj_get (?d X Y) i = node_status (node_with X i) (node_with Y i)" for X Y i
    by (rule compareWorkflowsNodes_get [THEN conjunct1])
  have "mergeable (obj_get (?d A B) k) d" if "obj_get (?d B C) k = Some d" for k d
    using that unfolding get by (auto simp: mergeable_def node_status_def split: option.splits if_splits)
  with mergeNext_ok [of "?d B C" "?d A B"] obtain r where r: "mergeNext (?d A B) (?d B C) = Inr r"
    "\<forall>i. obj_get r i = (case obj_get (?d B C) i of None \<Rightarrow> obj_get (?d A B) i | Some d \<Rightarrow> merged (obj_get (?d A B) i) d)"
    using compareWorkflowsNodes_get by blast
  have "map_option nd_status (obj_get r i) =
      (case (node_with A i, node_with C i) of
         (None, None) \<Rightarrow> None | (Some a, None) \<Rightarrow> Some Deleted | (None, Some c) \<Rightarrow> Some Added
       | (Some a, Some c) \<Rightarrow> Some (case node_with B i of None \<Rightarrow> Modified
           | Some b \<Rightarrow> if same_props a b \<and> same_props b c then Eq else Modified))" for i
    unfolding r(2) [rule_format] get
    by (cases "node_with A i"; cases "node_with B i"; cases "node_with C i")
       (auto simp: node_status_def merged_def)
  with r(1) show ?thesis by blast
qed

subsection \<open>Grouping\<close>

definition versioned :: "string \<Rightarrow> inode list \<Rightarrow> version" where
  "versioned i ns = \<lparr>v_id = i, v_nodes = ns\<rparr>"

definition plain :: "string \<Rightarrow> string \<Rightarrow> inode" where
  "plain i name = \<lparr>n_id = i, n_name = name, n_typeVersion = 1, n_type = ''set'', n_position = (0, 0), n_disabled = None,
     n_retryOnFail = None, n_maxTries = None, n_waitBetweenTries = None, n_alwaysOutputData = None, n_executeOnce = None,
     n_onError = None, n_continueOnFail = None, n_parameters = [], n_credentials = None, n_webhookId = None,
     n_rewireOutputLogTo = None, n_forceCustomOperation = None\<rparr>"

text \<open>
  The rule merges only the steps from the first version to the second and the third. The step popped is
  the last one: the group that is left ends with the third version and contains the fourth.
\<close>

definition merge_first :: diff_rule where
  "merge_first prev next' diff = Inr (v_id (gr_from prev) = ''1'' \<and> v_id (gr_from next') = ''2'')"

lemma groupWorkflows_pops_last:
  "case groupWorkflows (map (\<lambda>i. versioned i [plain ''x'' ''a'']) [''1'', ''2'', ''3'', ''4'']) [merge_first] of
     Inl e \<Rightarrow> False
   | Inr gs \<Rightarrow> map (\<lambda>g. (v_id (gr_from g), map v_id (gr_grouped g), v_id (gr_to g))) gs
       = [(''1'', [''2'', ''4''], ''3'')]"
  by code_simp

text \<open>With the rule of the module, four versions of which the last one drops a node make it throw.\<close>

lemma groupWorkflows_throws:
  "case groupWorkflows [versioned ''1'' [plain ''x'' ''a'', plain ''y'' ''b''], versioned ''2'' [plain ''x'' ''a'', plain ''y'' ''b''],
       versioned ''3'' [plain ''x'' ''a'', plain ''y'' ''b''], versioned ''4'' [plain ''x'' ''a'']] [mergeAdditiveChanges] of
     Inl e \<Rightarrow> e = PlainError ''invariant broken'' | Inr gs \<Rightarrow> False"
  by code_simp

text \<open>A node that was renamed in the version between is looked up by its old name: the rule throws.\<close>

lemma mergeAdditiveChanges_renamed:
  "case groupWorkflows [versioned ''1'' [plain ''x'' ''a''], versioned ''2'' [plain ''x'' ''b''], versioned ''3'' [plain ''x'' ''b'']]
      [mergeAdditiveChanges] of
     Inl e \<Rightarrow> e = PlainError ''invariant broken'' | Inr gs \<Rightarrow> False"
  by code_simp

end
