(* ===== verification/Machines.thy ===== *)
theory Machines
  imports JsObjects
begin

section \<open>Services driven by events\<close>

text \<open>
  A long-lived service is a state and a relation \<open>step s e s'\<close>: in the state \<open>s\<close> the event \<open>e\<close> may
  happen and leads to \<open>s'\<close>. Its histories are the sequences of events from an initial state. The
  locale \<open>safe_machine\<close> is the contract of an invariant; the services interpret it.
\<close>

inductive history :: "('s \<Rightarrow> 'e \<Rightarrow> 's \<Rightarrow> bool) \<Rightarrow> 's \<Rightarrow> 'e list \<Rightarrow> 's \<Rightarrow> bool" for step where
  history_start: "history step s [] s"
| history_more: "history step s es s' \<Longrightarrow> step s' e s'' \<Longrightarrow> history step s (es @ [e]) s''"

inductive_cases history_NilE: "history step s [] s'"
inductive_cases history_snocE: "history step s (es @ [e]) s'"

lemma history_single: "step s e s' \<Longrightarrow> history step s [e] s'"
  using history_more [OF history_start, of step s e s'] by simp

text \<open>How the number of entries with a property changes when an entry is written or deleted.\<close>

definition count_obj :: "('k \<times> 'v \<Rightarrow> bool) \<Rightarrow> ('k, 'v) jsmap \<Rightarrow> nat" where
  "count_obj P m = length (filter P m)"

lemma count_obj_Nil [simp]: "count_obj P [] = 0"
  by (simp add: count_obj_def)

lemma count_obj_new:
  "obj_get m k = None \<Longrightarrow> count_obj P (obj_set k v m) = count_obj P m + (if P (k, v) then 1 else 0)"
  by (induction m) (auto simp: count_obj_def split: if_splits)

lemma count_obj_set:
  "wf_obj m \<Longrightarrow> obj_get m k = Some v' \<Longrightarrow>
   count_obj P (obj_set k v m) + (if P (k, v') then 1 else 0) = count_obj P m + (if P (k, v) then 1 else 0)"
  by (induction m) (auto simp: count_obj_def wf_obj_def split: if_splits)

lemma count_obj_del:
  "wf_obj m \<Longrightarrow> obj_get m k = Some v \<Longrightarrow>
   count_obj P (obj_del k m) + (if P (k, v) then 1 else 0) = count_obj P m"
proof (induction m)
  case (Cons p m)
  obtain a b where [simp]: "p = (a, b)" by (cases p)
  have "a = k \<Longrightarrow> obj_del k m = m"
    using Cons.prems(1) by (auto simp: wf_obj_def obj_del_def intro!: filter_True)
  then show ?case using Cons by (auto simp: count_obj_def wf_obj_def obj_del_def split: if_splits)
qed simp

locale safe_machine =
  fixes init :: "'s \<Rightarrow> bool" and step :: "'s \<Rightarrow> 'e \<Rightarrow> 's \<Rightarrow> bool" and inv :: "'s \<Rightarrow> 'e list \<Rightarrow> bool"
  assumes inv_init: "init s \<Longrightarrow> inv s []"
    and inv_step: "inv s es \<Longrightarrow> step s e s' \<Longrightarrow> inv s' (es @ [e])"
begin

lemma inv_history: "history step s es s' \<Longrightarrow> init s \<Longrightarrow> inv s' es"
  by (induction rule: history.induct) (auto intro: inv_init inv_step)

end

text \<open>A step is kept by every history whose events it holds for.\<close>

lemma history_relates:
  assumes "history step s es s'" "\<And>s. R s s" "\<And>s s' s''. R s s' \<Longrightarrow> R s' s'' \<Longrightarrow> R s s''"
    and "\<And>s e s'. step s e s' \<Longrightarrow> R s s'"
  shows "R s s'"
  using assms(1) by induction (blast intro: assms(2-))+

end
