(* ===== verification/Concurrency.thy ===== *)
theory Concurrency
  imports Machines Interfaces
begin

section \<open>Concurrency control of production executions\<close>

text \<open>
  \<open>packages/cli/src/concurrency\<close>: \<open>ConcurrencyQueue\<close> and \<open>ConcurrencyControlService\<close>. A call of
  \<open>enqueue\<close> that has to wait leaves a promise in the queue; the promise is a number the caller
  chooses, and resolving it is reported in the result of the operation. The emitted events are
  reported as well; the event \<open>concurrency-check\<close>, whose emission is debounced, is reported each time.
\<close>

subsection \<open>ConcurrencyQueue\<close>

datatype conc_event =
    ConcurrencyCheck int
  | ExecutionThrottled string
  | ExecutionReleased string

record conc_queue =
  cq_capacity :: int
  cq_queue :: "(string \<times> nat) list"

text \<open>\<open>True\<close> lets the execution through at once; otherwise its promise is in the queue.\<close>

definition cq_enqueue :: "string \<Rightarrow> nat \<Rightarrow> conc_queue \<Rightarrow> bool \<times> conc_queue \<times> conc_event list" where
  "cq_enqueue executionId resolve q =
     (let capacity = cq_capacity q - 1; q' = q\<lparr>cq_capacity := capacity\<rparr>
      in if capacity < 0
         then (False, q'\<lparr>cq_queue := cq_queue q @ [(executionId, resolve)]\<rparr>,
               [ConcurrencyCheck capacity, ExecutionThrottled executionId])
         else (True, q', [ConcurrencyCheck capacity]))"

definition resolveNext :: "conc_queue \<Rightarrow> nat option \<times> conc_queue \<times> conc_event list" where
  "resolveNext q =
     (case cq_queue q of
        [] \<Rightarrow> (None, q, [])
      | (executionId, resolve) # rest \<Rightarrow>
          (Some resolve, q\<lparr>cq_queue := rest\<rparr>, [ExecutionReleased executionId]))"

definition cq_dequeue :: "conc_queue \<Rightarrow> nat option \<times> conc_queue \<times> conc_event list" where
  "cq_dequeue q = resolveNext (q\<lparr>cq_capacity := cq_capacity q + 1\<rparr>)"

text \<open>The first element with the given key is taken out.\<close>

fun splice_first :: "('a \<Rightarrow> bool) \<Rightarrow> 'a list \<Rightarrow> 'a list" where
  "splice_first P [] = []"
| "splice_first P (x # xs) = (if P x then xs else x # splice_first P xs)"

definition cq_has :: "string \<Rightarrow> conc_queue \<Rightarrow> bool" where
  "cq_has executionId q = list_ex (\<lambda>item. fst item = executionId) (cq_queue q)"

definition cq_remove :: "string \<Rightarrow> conc_queue \<Rightarrow> nat option \<times> conc_queue \<times> conc_event list" where
  "cq_remove executionId q =
     (if cq_has executionId q
      then resolveNext (q\<lparr>cq_queue := splice_first (\<lambda>item. fst item = executionId) (cq_queue q),
                          cq_capacity := cq_capacity q + 1\<rparr>)
      else (None, q, []))"

definition cq_getAll :: "conc_queue \<Rightarrow> string list" where
  "cq_getAll q = mk_set (map fst (cq_queue q))"

subsection \<open>ConcurrencyControlService\<close>

datatype execute_mode =
    ModeCli | ModeError | ModeIntegrated | ModeInternal | ModeManual | ModeRetry
  | ModeTrigger | ModeWebhook | ModeEvaluation | ModeChat | ModeOther string

datatype queue_type = Production | Evaluation

record concurrency =
  cc_isEnabled :: bool
  cc_limits :: "(queue_type, int) jsmap"
  cc_queues :: "(queue_type, conc_queue) jsmap"

text \<open>A limit below \<open>-1\<close> is unlimited as \<open>-1\<close> is. When all are, no queue is made.\<close>

definition newConcurrency :: "int \<Rightarrow> int \<Rightarrow> bool \<Rightarrow> js_error + concurrency" where
  "newConcurrency productionLimit evaluationLimit queueMode =
     (let limits = [(Production, productionLimit), (Evaluation, evaluationLimit)]
      in if list_ex (\<lambda>l. snd l = 0) limits then Inl (UserError ''Concurrency limit set to invalid value'')
         else let limits' = map (\<lambda>(t, limit). (t, if limit < -1 then -1 else limit)) limits
              in if list_all (\<lambda>l. snd l = -1) limits' \<or> queueMode
                 then Inr \<lparr>cc_isEnabled = False, cc_limits = limits', cc_queues = []\<rparr>
                 else Inr \<lparr>cc_isEnabled = True, cc_limits = limits',
                        cc_queues = map (\<lambda>(t, limit). (t, \<lparr>cq_capacity = limit, cq_queue = []\<rparr>))
                                      (filter (\<lambda>l. 0 < snd l) limits')\<rparr>)"

definition getQueue :: "concurrency \<Rightarrow> execute_mode \<Rightarrow> js_error + (queue_type \<times> conc_queue) option" where
  "getQueue cc mode =
     (case mode of
        ModeWebhook \<Rightarrow> Inr (map_option (Pair Production) (obj_get (cc_queues cc) Production))
      | ModeTrigger \<Rightarrow> Inr (map_option (Pair Production) (obj_get (cc_queues cc) Production))
      | ModeChat \<Rightarrow> Inr (map_option (Pair Production) (obj_get (cc_queues cc) Production))
      | ModeEvaluation \<Rightarrow> Inr (map_option (Pair Evaluation) (obj_get (cc_queues cc) Evaluation))
      | ModeOther m \<Rightarrow> Inl (UnexpectedError ''Unknown execution mode'')
      | _ \<Rightarrow> Inr None)"

definition cc_has :: "concurrency \<Rightarrow> string \<Rightarrow> bool" where
  "cc_has cc executionId = (cc_isEnabled cc \<and> list_ex (cq_has executionId) (map snd (cc_queues cc)))"

text \<open>The shape of \<open>throttle\<close>, \<open>release\<close> and \<open>remove\<close>: nothing happens without a queue.\<close>

definition on_queue ::
    "concurrency \<Rightarrow> execute_mode \<Rightarrow> 'r \<Rightarrow> (conc_queue \<Rightarrow> 'r \<times> conc_queue \<times> conc_event list)
     \<Rightarrow> js_error + 'r \<times> concurrency \<times> conc_event list" where
  "on_queue cc mode unlimited f =
     (if \<not> cc_isEnabled cc then Inr (unlimited, cc, [])
      else bindE (getQueue cc mode) (\<lambda>found.
        case found of
          None \<Rightarrow> Inr (unlimited, cc, [])
        | Some (t, q) \<Rightarrow>
            (case f q of (r, q', events) \<Rightarrow> Inr (r, cc\<lparr>cc_queues := obj_set t q' (cc_queues cc)\<rparr>, events))))"

definition throttle ::
    "execute_mode \<Rightarrow> string \<Rightarrow> nat \<Rightarrow> concurrency \<Rightarrow> js_error + bool \<times> concurrency \<times> conc_event list" where
  "throttle mode executionId resolve cc = on_queue cc mode True (cq_enqueue executionId resolve)"

definition cc_release ::
    "execute_mode \<Rightarrow> concurrency \<Rightarrow> js_error + nat option \<times> concurrency \<times> conc_event list" where
  "cc_release mode cc = on_queue cc mode None cq_dequeue"

definition cc_remove ::
    "execute_mode \<Rightarrow> string \<Rightarrow> concurrency \<Rightarrow> js_error + nat option \<times> concurrency \<times> conc_event list" where
  "cc_remove mode executionId cc = on_queue cc mode None (cq_remove executionId)"

text \<open>Every identifier that is in the queue at the start is removed in turn; removing one may let another through.\<close>

fun remove_ids :: "string list \<Rightarrow> conc_queue \<Rightarrow> nat list \<times> conc_queue" where
  "remove_ids [] q = ([], q)"
| "remove_ids (x # ids) q =
     (case cq_remove x q of (r, q', _) \<Rightarrow>
        (case remove_ids ids q' of (rs, q'') \<Rightarrow> ((case r of None \<Rightarrow> rs | Some resolve \<Rightarrow> resolve # rs), q'')))"

text \<open>The second part of the result are the executions \<open>cancelMany\<close> is called for.\<close>

definition removeAll_executions :: "string list \<Rightarrow> concurrency \<Rightarrow> (nat list \<times> string list) \<times> concurrency" where
  "removeAll_executions executionIdsToCancel cc =
     (if \<not> cc_isEnabled cc then (([], []), cc)
      else ((concat (map (\<lambda>(t, q). fst (remove_ids (cq_getAll q) q)) (cc_queues cc)), executionIdsToCancel),
            cc\<lparr>cc_queues := map (\<lambda>(t, q). (t, snd (remove_ids (cq_getAll q) q))) (cc_queues cc)\<rparr>))"

definition disable :: "concurrency \<Rightarrow> concurrency" where
  "disable cc = cc\<lparr>cc_isEnabled := False\<rparr>"

definition CLOUD_TEMP_PRODUCTION_LIMIT :: int where
  "CLOUD_TEMP_PRODUCTION_LIMIT = 999"

definition shouldReport :: "bool \<Rightarrow> int \<Rightarrow> bool" where
  "shouldReport cloud capacity =
     (cloud \<and> capacity \<in> set (map (\<lambda>t. CLOUD_TEMP_PRODUCTION_LIMIT - t) [5, 10, 20, 50, 100, 200]))"

end
