(* ===== verification/ActiveExecutions.thy ===== *)
theory ActiveExecutions
  imports Concurrency
begin

section \<open>Active executions\<close>

text \<open>
  \<open>packages/cli/src/active-executions.ts\<close>: the executions of this process, from the call of \<open>add\<close>
  to the settling of their promise. A call of \<open>add\<close> is suspended while it is throttled and while
  the database is updated; it is a frame of \<open>e_adding\<close>, named by the promise it waits for. The
  objects are shared between the map and the closures that run when their promise settles, so they
  live in \<open>e_heap\<close>. What the database answers is an argument.
\<close>

datatype settled = Pending | Fulfilled | Rejected

definition settle :: "settled \<Rightarrow> settled \<Rightarrow> settled" where
  "settle v p = (if p = Pending then v else p)"

record active_execution =
  ae_executionId :: string
  ae_mode :: execute_mode
  ae_status :: execution_status
  ae_postExecute :: settled
  ae_response :: "settled option"
  ae_workflowExecution :: bool

record add_call =
  ac_executionId :: string
  ac_mode :: execute_mode
  ac_isNew :: bool
  ac_through :: bool

record executions =
  e_active :: "nat obj"
  e_heap :: "(nat, active_execution) jsmap"
  e_finally :: "nat list"
  e_adding :: "(nat, add_call) jsmap"
  e_concurrency :: concurrency
  e_next :: nat
  e_regular :: bool

subsection \<open>Reading\<close>

definition active :: "executions \<Rightarrow> string \<Rightarrow> (nat \<times> active_execution) option" where
  "active st executionId =
     (case obj_get (e_active st) executionId of
        None \<Rightarrow> None
      | Some ref \<Rightarrow> map_option (Pair ref) (obj_get (e_heap st) ref))"

definition ae_has :: "executions \<Rightarrow> string \<Rightarrow> bool" where
  "ae_has st executionId = (active st executionId \<noteq> None)"

definition getExecutionOrFail :: "executions \<Rightarrow> string \<Rightarrow> js_error + nat \<times> active_execution" where
  "getExecutionOrFail st executionId =
     (case active st executionId of
        None \<Rightarrow> Inl (UnexpectedError ''No active execution found'')
      | Some x \<Rightarrow> Inr x)"

definition getStatus :: "executions \<Rightarrow> string \<Rightarrow> js_error + execution_status" where
  "getStatus st executionId = bindE (getExecutionOrFail st executionId) (\<lambda>x. Inr (ae_status (snd x)))"

definition getActiveExecutions :: "executions \<Rightarrow> (string \<times> execute_mode \<times> execution_status) list" where
  "getActiveExecutions st =
     List.map_filter (\<lambda>i. map_option (\<lambda>x. (i, ae_mode (snd x), ae_status (snd x))) (active st i)) (obj_keys (e_active st))"

subsection \<open>Changing one execution\<close>

definition change :: "nat \<Rightarrow> (active_execution \<Rightarrow> active_execution) \<Rightarrow> executions \<Rightarrow> executions" where
  "change ref f st =
     (case obj_get (e_heap st) ref of None \<Rightarrow> st | Some x \<Rightarrow> st\<lparr>e_heap := obj_set ref (f x) (e_heap st)\<rparr>)"

definition change_or_fail ::
    "string \<Rightarrow> (active_execution \<Rightarrow> active_execution) \<Rightarrow> executions \<Rightarrow> js_error + executions" where
  "change_or_fail executionId f st =
     bindE (getExecutionOrFail st executionId) (\<lambda>x. Inr (change (fst x) f st))"

definition setStatus :: "string \<Rightarrow> execution_status \<Rightarrow> executions \<Rightarrow> js_error + executions" where
  "setStatus executionId status = change_or_fail executionId (\<lambda>x. x\<lparr>ae_status := status\<rparr>)"

definition attachWorkflowExecution :: "string \<Rightarrow> executions \<Rightarrow> js_error + executions" where
  "attachWorkflowExecution executionId = change_or_fail executionId (\<lambda>x. x\<lparr>ae_workflowExecution := True\<rparr>)"

definition attachResponsePromise :: "string \<Rightarrow> executions \<Rightarrow> js_error + executions" where
  "attachResponsePromise executionId = change_or_fail executionId (\<lambda>x. x\<lparr>ae_response := Some Pending\<rparr>)"

definition settle_response :: "settled \<Rightarrow> active_execution \<Rightarrow> active_execution" where
  "settle_response v x = x\<lparr>ae_response := map_option (settle v) (ae_response x)\<rparr>"

definition settle_post :: "settled \<Rightarrow> active_execution \<Rightarrow> active_execution" where
  "settle_post v x = x\<lparr>ae_postExecute := settle v (ae_postExecute x)\<rparr>"

definition resolveResponsePromise :: "string \<Rightarrow> executions \<Rightarrow> executions" where
  "resolveResponsePromise executionId st =
     (case active st executionId of None \<Rightarrow> st | Some (ref, x) \<Rightarrow> change ref (settle_response Fulfilled) st)"

definition resolveExecutionResponsePromise :: "string \<Rightarrow> executions \<Rightarrow> executions" where
  "resolveExecutionResponsePromise executionId st =
     (case active st executionId of
        None \<Rightarrow> st
      | Some (ref, x) \<Rightarrow> if ae_status x \<noteq> Waiting then change ref (settle_response Fulfilled) st else st)"

definition finalizeExecution :: "string \<Rightarrow> executions \<Rightarrow> executions" where
  "finalizeExecution executionId st =
     (case active st executionId of None \<Rightarrow> st | Some (ref, x) \<Rightarrow> change ref (settle_post Fulfilled) st)"

text \<open>A waiting execution has no workflow execution to cancel and is taken out of the map at once.\<close>

definition stopExecution :: "string \<Rightarrow> executions \<Rightarrow> executions" where
  "stopExecution executionId st =
     (case active st executionId of
        None \<Rightarrow> st
      | Some (ref, x) \<Rightarrow>
          (let st' = change ref (settle_response Rejected) st
           in if ae_status x = Waiting then st'\<lparr>e_active := obj_del executionId (e_active st')\<rparr>
              else change ref (settle_post Rejected) st'))"

subsection \<open>Adding an execution\<close>

text \<open>Outside the regular mode a new execution is not throttled.\<close>

definition add_start :: "bool \<Rightarrow> string \<Rightarrow> execute_mode \<Rightarrow> executions \<Rightarrow> js_error + executions" where
  "add_start isNew executionId mode st =
     (if isNew \<and> \<not> e_regular st
      then Inr (st\<lparr>e_adding := obj_set (e_next st)
               \<lparr>ac_executionId = executionId, ac_mode = mode, ac_isNew = isNew, ac_through = True\<rparr> (e_adding st),
             e_next := Suc (e_next st)\<rparr>)
      else bindE (throttle mode executionId (e_next st) (e_concurrency st)) (\<lambda>(through, cc, _).
             Inr (st\<lparr>e_adding := obj_set (e_next st)
                    \<lparr>ac_executionId = executionId, ac_mode = mode, ac_isNew = isNew, ac_through = through\<rparr> (e_adding st),
                  e_concurrency := cc, e_next := Suc (e_next st)\<rparr>)))"

definition let_in :: "nat option \<Rightarrow> executions \<Rightarrow> executions" where
  "let_in r st =
     (case r of
        None \<Rightarrow> st
      | Some resolve \<Rightarrow>
          (case obj_get (e_adding st) resolve of
             None \<Rightarrow> st
           | Some c \<Rightarrow> st\<lparr>e_adding := obj_set resolve (c\<lparr>ac_through := True\<rparr>) (e_adding st)\<rparr>))"

definition new_execution :: "executions \<Rightarrow> add_call \<Rightarrow> active_execution" where
  "new_execution st c =
     \<lparr>ae_executionId = ac_executionId c, ae_mode = ac_mode c, ae_status = Running, ae_postExecute = Pending,
      ae_response = (case active st (ac_executionId c) of None \<Rightarrow> None | Some (_, x) \<Rightarrow> ae_response x),
      ae_workflowExecution = False\<rparr>"

text \<open>
  The call goes on once it is let through. An execution that is resumed and is no longer waiting in
  the database makes it throw. The object of an execution that is resumed is replaced; only the
  promise of its response is taken over.
\<close>

definition add_finish :: "nat \<Rightarrow> bool \<Rightarrow> executions \<Rightarrow> js_error option \<times> executions" where
  "add_finish resolve updateSucceeded st =
     (case obj_get (e_adding st) resolve of
        None \<Rightarrow> (None, st)
      | Some c \<Rightarrow>
          if \<not> ac_through c then (None, st)
          else let st' = st\<lparr>e_adding := obj_del resolve (e_adding st)\<rparr>
               in if \<not> ac_isNew c \<and> \<not> updateSucceeded
                  then (Some (OperationalError ''Execution is already being resumed by another process''), st')
                  else let ref = e_next st
                       in (None, st'\<lparr>e_heap := obj_set ref (new_execution st c) (e_heap st),
                             e_active := obj_set (ac_executionId c) ref (e_active st),
                             e_finally := e_finally st @ [ref], e_next := Suc ref\<rparr>))"

text \<open>What runs once the promise of an execution has settled.\<close>

definition finally_execution :: "nat \<Rightarrow> executions \<Rightarrow> js_error + executions" where
  "finally_execution ref st =
     (case obj_get (e_heap st) ref of
        None \<Rightarrow> Inr st
      | Some x \<Rightarrow>
          if ref \<notin> set (e_finally st) \<or> ae_postExecute x = Pending then Inr st
          else bindE (cc_release (ae_mode x) (e_concurrency st)) (\<lambda>(r, cc, _).
            let st' = let_in r (st\<lparr>e_concurrency := cc, e_finally := remove1 ref (e_finally st)\<rparr>)
            in Inr (if ae_status x = Waiting then change ref (\<lambda>x. x\<lparr>ae_workflowExecution := False\<rparr>) st'
                    else st'\<lparr>e_active := obj_del (ae_executionId x) (e_active st')\<rparr>)))"

subsection \<open>Stopping\<close>

text \<open>
  \<open>stopInRegularMode\<close> of \<open>packages/cli/src/executions/execution.service.ts\<close>, without the executions
  that wait for a time, which another service keeps. The flag of the result tells whether the
  execution is stopped before it ran.
\<close>

definition stopInRegularMode :: "string \<Rightarrow> execute_mode \<Rightarrow> executions \<Rightarrow> js_error + bool \<times> executions" where
  "stopInRegularMode executionId mode st =
     (if cc_has (e_concurrency st) executionId
      then bindE (cc_remove mode executionId (e_concurrency st)) (\<lambda>(r, cc, _).
             Inr (True, let_in r (st\<lparr>e_concurrency := cc\<rparr>)))
      else Inr (False, if ae_has st executionId then stopExecution executionId st else st))"

definition shut_down_one :: "bool \<Rightarrow> string \<Rightarrow> string list \<times> executions \<Rightarrow> string list \<times> executions" where
  "shut_down_one cancelAll executionId s =
     (case s of (toCancel, st) \<Rightarrow>
        (case active st executionId of
           None \<Rightarrow> s
         | Some (ref, x) \<Rightarrow>
             if ae_response x \<noteq> None \<or> e_regular st \<and> cancelAll
             then (toCancel @ [executionId], stopExecution executionId st)
             else if ae_status x = Waiting \<or> ae_status x = NewStatus
             then (toCancel, st\<lparr>e_active := obj_del executionId (e_active st)\<rparr>)
             else s))"

text \<open>The part before the wait; the first part of the result are the executions cancelled in the database.\<close>

definition shutdown :: "bool \<Rightarrow> executions \<Rightarrow> string list \<times> executions" where
  "shutdown cancelAll st =
     (let st0 = (if e_regular st then st\<lparr>e_concurrency := disable (e_concurrency st)\<rparr> else st);
          (toCancel, st1) = fold (shut_down_one cancelAll) (obj_keys (e_active st0)) ([], st0)
      in case removeAll_executions toCancel (e_concurrency st1) of
           ((rs, cancelled), cc) \<Rightarrow> (cancelled, fold (let_in \<circ> Some) rs (st1\<lparr>e_concurrency := cc\<rparr>)))"

end
