(* ===== verification/ConcurrencyFacts.thy ===== *)
theory ConcurrencyFacts
  imports Concurrency "HOL-Library.Sublist"
begin

section \<open>What concurrency control promises\<close>

text \<open>
  The histories of one queue: executions arrive, those let through finish, those in the queue are
  cancelled. The capacity always accounts for what runs and what waits, nothing waits while there is
  capacity, and the order of arrival is kept. The limit is kept as long as nothing is cancelled.
\<close>

subsection \<open>A queue and the executions it let through\<close>

record gate =
  g_queue :: conc_queue
  g_running :: "nat list"
  g_through :: "nat list"

datatype gate_event = Arrive string nat | Finish nat | Cancel string

definition let_through :: "nat list \<Rightarrow> gate \<Rightarrow> gate" where
  "let_through rs g = g\<lparr>g_running := g_running g @ rs, g_through := g_through g @ rs\<rparr>"

definition opt_to_list :: "'a option \<Rightarrow> 'a list" where
  "opt_to_list r = (case r of None \<Rightarrow> [] | Some x \<Rightarrow> [x])"

inductive gate_step :: "gate \<Rightarrow> gate_event \<Rightarrow> gate \<Rightarrow> bool" where
  arrive: "cq_enqueue i r (g_queue g) = (now, q, evs) \<Longrightarrow>
    gate_step g (Arrive i r) (let_through (if now then [r] else []) (g\<lparr>g_queue := q\<rparr>))"
| finish: "r \<in> set (g_running g) \<Longrightarrow> cq_dequeue (g_queue g) = (next, q, evs) \<Longrightarrow>
    gate_step g (Finish r) (let_through (opt_to_list next) (g\<lparr>g_queue := q, g_running := remove1 r (g_running g)\<rparr>))"
| cancel: "cq_remove i (g_queue g) = (next, q, evs) \<Longrightarrow>
    gate_step g (Cancel i) (let_through (opt_to_list next) (g\<lparr>g_queue := q\<rparr>))"

inductive_cases gate_stepE: "gate_step g e g'"

definition new_gate :: "nat \<Rightarrow> gate" where
  "new_gate limit = \<lparr>g_queue = \<lparr>cq_capacity = int limit, cq_queue = []\<rparr>, g_running = [], g_through = []\<rparr>"

fun arrivals :: "gate_event list \<Rightarrow> nat list" where
  "arrivals [] = []"
| "arrivals (Arrive i r # es) = r # arrivals es"
| "arrivals (Finish r # es) = arrivals es"
| "arrivals (Cancel i # es) = arrivals es"

fun is_cancel :: "gate_event \<Rightarrow> bool" where
  "is_cancel (Cancel i) = True"
| "is_cancel (Arrive i r) = False"
| "is_cancel (Finish r) = False"

definition cancels :: "gate_event list \<Rightarrow> nat" where
  "cancels es = length (filter is_cancel es)"

text \<open>The accounts of a queue with the given limit after the given events.\<close>

definition gate_ok :: "nat \<Rightarrow> gate \<Rightarrow> gate_event list \<Rightarrow> bool" where
  "gate_ok limit g es \<longleftrightarrow>
     cq_capacity (g_queue g) = int limit - int (length (g_running g)) - int (length (cq_queue (g_queue g)))
   \<and> (cq_queue (g_queue g) \<noteq> [] \<longrightarrow> limit \<le> length (g_running g))
   \<and> length (g_running g) \<le> limit + cancels es
   \<and> subseq (g_through g @ map snd (cq_queue (g_queue g))) (arrivals es)
   \<and> (cancels es = 0 \<longrightarrow> g_through g @ map snd (cq_queue (g_queue g)) = arrivals es)"

lemma arrivals_append [simp]: "arrivals (es @ es') = arrivals es @ arrivals es'"
  by (induction es rule: arrivals.induct) auto

lemma cancels_snoc [simp]: "cancels (es @ [e]) = cancels es + (if is_cancel e then 1 else 0)"
  by (simp add: cancels_def)

lemma subseq_splice_first: "subseq (splice_first P xs) xs"
  by (induction xs) (auto intro: subseq_Cons')

lemma length_splice_first: "list_ex P xs \<Longrightarrow> Suc (length (splice_first P xs)) = length xs"
  by (induction xs) auto

lemma subseq_snoc: "subseq (xs @ ys) zs \<Longrightarrow> subseq (xs @ ys @ [x]) (zs @ [x])"
  using list_emb_append_mono [of "(=)" "xs @ ys" zs "[x]" "[x]"] by simp

lemma gate_ok_arrive:
  assumes "gate_ok limit g es" "cq_enqueue i r (g_queue g) = (now, q, evs)"
  shows "gate_ok limit (let_through (if now then [r] else []) (g\<lparr>g_queue := q\<rparr>)) (es @ [Arrive i r])"
proof (cases "cq_capacity (g_queue g) - 1 < 0")
  case True
  then show ?thesis using assms
    by (auto simp: gate_ok_def cq_enqueue_def let_through_def Let_def subseq_snoc)
next
  case False
  with assms have "cq_queue (g_queue g) = []" unfolding gate_ok_def by auto
  then show ?thesis using False assms
    by (auto simp: gate_ok_def cq_enqueue_def let_through_def Let_def subseq_snoc)
qed

lemma gate_ok_finish:
  assumes "gate_ok limit g es" "r \<in> set (g_running g)" "cq_dequeue (g_queue g) = (next, q, evs)"
  shows "gate_ok limit (let_through (opt_to_list next) (g\<lparr>g_queue := q, g_running := remove1 r (g_running g)\<rparr>)) (es @ [Finish r])"
proof -
  have len: "Suc (length (remove1 r (g_running g))) = length (g_running g)"
    using assms(2) length_pos_if_in_set by (fastforce simp: length_remove1)
  show ?thesis
  proof (cases "cq_queue (g_queue g)")
    case Nil
    then show ?thesis using assms len
      by (auto simp: gate_ok_def cq_dequeue_def resolveNext_def let_through_def opt_to_list_def)
  next
    case (Cons item rest)
    then show ?thesis using assms len
      by (cases item) (auto simp: gate_ok_def cq_dequeue_def resolveNext_def let_through_def opt_to_list_def)
  qed
qed

lemma gate_ok_cancel:
  assumes "gate_ok limit g es" "cq_remove i (g_queue g) = (next, q, evs)"
  shows "gate_ok limit (let_through (opt_to_list next) (g\<lparr>g_queue := q\<rparr>)) (es @ [Cancel i])"
proof (cases "cq_has i (g_queue g)")
  case True
  define rest where "rest = splice_first (\<lambda>item. fst item = i) (cq_queue (g_queue g))"
  have len: "Suc (length rest) = length (cq_queue (g_queue g))"
    using True length_splice_first unfolding rest_def cq_has_def by blast
  have sub: "subseq rest (cq_queue (g_queue g))"
    unfolding rest_def by (rule subseq_splice_first)
  then have "subseq (g_through g @ map snd rest) (g_through g @ map snd (cq_queue (g_queue g)))"
    by (simp add: list_emb_append_mono subseq_map)
  with assms(1) have sub': "subseq (g_through g @ map snd rest) (arrivals es)"
    unfolding gate_ok_def using subseq_order.order_trans by blast
  have ne: "cq_queue (g_queue g) \<noteq> []" using len by auto
  have res: "(next, q, evs) = resolveNext ((g_queue g)\<lparr>cq_queue := rest, cq_capacity := cq_capacity (g_queue g) + 1\<rparr>)"
    using assms(2) True by (simp add: cq_remove_def rest_def)
  show ?thesis
  proof (cases rest)
    case Nil
    then show ?thesis using assms(1) res len sub' ne
      by (auto simp: gate_ok_def resolveNext_def let_through_def opt_to_list_def)
  next
    case (Cons item tl)
    then show ?thesis using assms(1) res len sub' ne
      by (cases item) (auto simp: gate_ok_def resolveNext_def let_through_def opt_to_list_def)
  qed
next
  case False
  then show ?thesis using assms
    by (auto simp: gate_ok_def cq_remove_def let_through_def opt_to_list_def)
qed

interpretation gate: safe_machine "\<lambda>g. g = new_gate limit" gate_step "gate_ok limit" for limit
proof unfold_locales
  show "gate_ok limit g []" if "g = new_gate limit" for g
    using that by (simp add: new_gate_def gate_ok_def cancels_def)
  show "gate_ok limit g' (es @ [e])" if "gate_ok limit g es" "gate_step g e g'" for g es e g'
    using that(2,1) by cases (blast intro: gate_ok_arrive gate_ok_finish gate_ok_cancel)+
qed

text \<open>
  C18: In every history of a queue its capacity is the limit less the executions that run and those that
  wait; executions wait only while the limit is used up; those let through followed by those that
  wait are in the order of arrival. At most as many run as the limit and the number of cancelled
  executions allow, so the limit is kept as long as none is cancelled.
\<close>

theorem concurrency_accounts:
  assumes "history gate_step (new_gate limit) es g"
  shows "cq_capacity (g_queue g) = int limit - int (length (g_running g)) - int (length (cq_queue (g_queue g)))
    \<and> (cq_queue (g_queue g) \<noteq> [] \<longrightarrow> limit \<le> length (g_running g))
    \<and> length (g_running g) \<le> limit + cancels es
    \<and> subseq (g_through g @ map snd (cq_queue (g_queue g))) (arrivals es)
    \<and> (cancels es = 0 \<longrightarrow> g_through g @ map snd (cq_queue (g_queue g)) = arrivals es)"
  using gate.inv_history [OF assms refl] unfolding gate_ok_def .

text \<open>
  Cancelling an execution that waits lets the next one through although none has finished: with the
  limit one two executions run.
\<close>

definition gate_after_arrivals :: gate where
  "gate_after_arrivals = \<lparr>g_queue = \<lparr>cq_capacity = -2, cq_queue = [(''2'', 2), (''3'', 3)]\<rparr>, g_running = [1], g_through = [1]\<rparr>"

lemma three_arrivals:
  "history gate_step (new_gate 1) [Arrive ''1'' 1, Arrive ''2'' 2, Arrive ''3'' 3] gate_after_arrivals"
proof -
  let ?g1 = "\<lparr>g_queue = \<lparr>cq_capacity = 0, cq_queue = []\<rparr>, g_running = [1], g_through = [1]\<rparr>"
  let ?g2 = "\<lparr>g_queue = \<lparr>cq_capacity = -1, cq_queue = [(''2'', 2)]\<rparr>, g_running = [1], g_through = [1]\<rparr>"
  have s1: "gate_step (new_gate 1) (Arrive ''1'' 1) ?g1"
    using gate_step.arrive [of "''1''" 1 "new_gate 1" True] by (simp add: new_gate_def cq_enqueue_def let_through_def Let_def)
  have s2: "gate_step ?g1 (Arrive ''2'' 2) ?g2"
    using gate_step.arrive [of "''2''" 2 ?g1 False] by (simp add: cq_enqueue_def let_through_def Let_def)
  have s3: "gate_step ?g2 (Arrive ''3'' 3) gate_after_arrivals"
    using gate_step.arrive [of "''3''" 3 ?g2 False] by (simp add: cq_enqueue_def let_through_def gate_after_arrivals_def Let_def)
  have h1: "history gate_step (new_gate 1) [Arrive ''1'' 1] ?g1" by (rule history_single) (rule s1)
  have h2: "history gate_step (new_gate 1) [Arrive ''1'' 1, Arrive ''2'' 2] ?g2" using history_more [where step = gate_step, OF h1 s2] by simp
  show ?thesis using history_more [where step = gate_step, OF h2 s3] by simp
qed

lemma cancel_exceeds_limit:
  "\<exists>g. history gate_step (new_gate 1) [Arrive ''1'' 1, Arrive ''2'' 2, Arrive ''3'' 3, Cancel ''2''] g
     \<and> g_running g = [1, 3]"
proof -
  have "gate_step gate_after_arrivals (Cancel ''2'')
      \<lparr>g_queue = \<lparr>cq_capacity = -1, cq_queue = []\<rparr>, g_running = [1, 3], g_through = [1, 3]\<rparr>"
    using gate_step.cancel [of "''2''" gate_after_arrivals "Some 3"]
    by (simp add: gate_after_arrivals_def cq_remove_def cq_has_def resolveNext_def let_through_def opt_to_list_def)
  from history_more [where step = gate_step, OF three_arrivals this] show ?thesis by auto
qed

lemma concurrency_accounts_witness:
  "cq_capacity (g_queue gate_after_arrivals) = 1 - 1 - 2 \<and> g_through gate_after_arrivals @ [2, 3] = [1, 2, 3]"
  using concurrency_accounts [OF three_arrivals] by (simp add: gate_after_arrivals_def)

subsection \<open>The service\<close>

lemma removeAll_disabled:
  "removeAll_executions ids (disable cc) = (([], []), disable cc)"
  by (simp add: removeAll_executions_def disable_def)

text \<open>Of two executions that wait, emptying the queue lets the second one through.\<close>

lemma removeAll_lets_through:
  "removeAll_executions [] \<lparr>cc_isEnabled = True, cc_limits = [(Production, 1)],
     cc_queues = [(Production, g_queue gate_after_arrivals)]\<rparr>
   = (([3], []), \<lparr>cc_isEnabled = True, cc_limits = [(Production, 1)],
     cc_queues = [(Production, \<lparr>cq_capacity = -1, cq_queue = []\<rparr>)]\<rparr>)"
  by code_simp

end
