(* ===== verification/ActiveExecutionsFacts.thy ===== *)
theory ActiveExecutionsFacts
  imports ActiveExecutions ConcurrencyFacts
begin

section \<open>What the active executions promise\<close>

text \<open>
  The histories of the active executions with their concurrency control: for each queue the
  capacity accounts for the calls of \<open>add\<close> that are let through, the executions whose promise has
  not settled, the calls that wait, and the calls that failed because their execution was already
  resumed, whose share is never given back.
\<close>

subsection \<open>The accounts of a queue\<close>

definition mode_queue :: "execute_mode \<Rightarrow> queue_type option" where
  "mode_queue mode =
     (if mode \<in> {ModeWebhook, ModeTrigger, ModeChat} then Some Production
      else if mode = ModeEvaluation then Some Evaluation else None)"

lemma getQueue_Inr:
  "getQueue cc mode = Inr r \<Longrightarrow>
   r = (case mode_queue mode of None \<Rightarrow> None | Some t \<Rightarrow> map_option (Pair t) (obj_get (cc_queues cc) t))"
  by (cases mode) (auto simp: getQueue_def mode_queue_def)

lemma on_queue_cases:
  assumes "on_queue cc mode u f = Inr (r, cc', evs)"
  obtains "r = u" "cc' = cc"
      "cc_isEnabled cc \<longrightarrow> (case mode_queue mode of None \<Rightarrow> True | Some t \<Rightarrow> obj_get (cc_queues cc) t = None)"
    | t q q' where "cc_isEnabled cc" "mode_queue mode = Some t" "obj_get (cc_queues cc) t = Some q" "f q = (r, q', evs)"
        "cc' = cc\<lparr>cc_queues := obj_set t q' (cc_queues cc)\<rparr>"
proof (cases "cc_isEnabled cc")
  case False
  then show ?thesis using assms that(1) by (simp add: on_queue_def)
next
  case True
  with assms obtain found where f: "getQueue cc mode = Inr found"
    by (cases "getQueue cc mode") (auto simp: on_queue_def)
  note found = getQueue_Inr [OF f]
  show ?thesis
  proof (cases found)
    case None
    then have "case mode_queue mode of None \<Rightarrow> True | Some t \<Rightarrow> obj_get (cc_queues cc) t = None"
      using found by (cases "mode_queue mode") auto
    moreover from None True assms f have "r = u" "cc' = cc" by (simp_all add: on_queue_def)
    ultimately show ?thesis using that(1) by blast
  next
    case (Some tq)
    obtain t q where tq: "tq = (t, q)" by (cases tq)
    with Some found have t: "mode_queue mode = Some t" "obj_get (cc_queues cc) t = Some q"
      by (auto split: option.splits)
    obtain r1 q1 e1 where fq: "f q = (r1, q1, e1)" by (metis prod_cases3)
    with True assms f Some tq have "r = r1" "evs = e1" "cc' = cc\<lparr>cc_queues := obj_set t q1 (cc_queues cc)\<rparr>"
      by (simp_all add: on_queue_def)
    with that(2) [OF True t] fq show ?thesis by blast
  qed
qed

definition through :: "queue_type \<Rightarrow> (nat, add_call) jsmap \<Rightarrow> nat" where
  "through t adding = count_obj (\<lambda>(r, c). ac_through c \<and> mode_queue (ac_mode c) = Some t) adding"

definition running :: "queue_type \<Rightarrow> executions \<Rightarrow> nat" where
  "running t st = length (filter (\<lambda>ref. \<exists>x. obj_get (e_heap st) ref = Some x \<and> mode_queue (ae_mode x) = Some t) (e_finally st))"

text \<open>The calls that wait in a queue are calls of \<open>add\<close> that were not let through.\<close>

definition frames_ok :: "queue_type \<Rightarrow> (string \<times> nat) list \<Rightarrow> (nat, add_call) jsmap \<Rightarrow> bool" where
  "frames_ok t items adding \<longleftrightarrow> distinct (map snd items)
     \<and> (\<forall>(i, r) \<in> set items. \<exists>c. obj_get adding r = Some c \<and> \<not> ac_through c \<and> mode_queue (ac_mode c) = Some t)"

type_synonym accounts = "queue_type \<Rightarrow> int"

definition books :: "accounts \<Rightarrow> accounts \<Rightarrow> accounts \<Rightarrow> executions \<Rightarrow> queue_type \<Rightarrow> conc_queue \<Rightarrow> bool" where
  "books limit lost cancelled st t q \<longleftrightarrow>
     cq_capacity q = limit t - int (length (cq_queue q)) - int (through t (e_adding st)) - int (running t st) - lost t
   \<and> - cq_capacity q - int (length (cq_queue q)) \<le> cancelled t \<and> 0 \<le> cancelled t
   \<and> (cq_queue q \<noteq> [] \<longrightarrow> cq_capacity q + int (length (cq_queue q)) \<le> 0)"

definition shape_ok :: "executions \<Rightarrow> bool" where
  "shape_ok st \<longleftrightarrow> wf_obj (e_adding st) \<and> wf_obj (e_heap st) \<and> wf_obj (cc_queues (e_concurrency st)) \<and> e_regular st
     \<and> (\<forall>r \<in> set (map fst (e_adding st)). r < e_next st) \<and> (\<forall>r \<in> set (map fst (e_heap st)). r < e_next st)
     \<and> distinct (e_finally st) \<and> set (e_finally st) \<subseteq> set (map fst (e_heap st))"

definition exec_ok :: "accounts \<Rightarrow> accounts \<Rightarrow> accounts \<Rightarrow> executions \<Rightarrow> bool" where
  "exec_ok limit lost cancelled st \<longleftrightarrow> shape_ok st
   \<and> (\<forall>t q. obj_get (cc_queues (e_concurrency st)) t = Some q \<longrightarrow>
        frames_ok t (cq_queue q) (e_adding st) \<and> (cc_isEnabled (e_concurrency st) \<longrightarrow> books limit lost cancelled st t q))"

subsection \<open>Letting a call through\<close>

lemma through_set:
  assumes "wf_obj adding" "obj_get adding r = Some c" "\<not> ac_through c"
  shows "through t (obj_set r (c\<lparr>ac_through := True\<rparr>) adding)
    = through t adding + (if mode_queue (ac_mode c) = Some t then 1 else 0)"
  using count_obj_set [OF assms(1,2), of "\<lambda>(r, c). ac_through c \<and> mode_queue (ac_mode c) = Some t" "c\<lparr>ac_through := True\<rparr>"]
    assms(3) by (simp add: through_def)

lemma frames_ok_rest: "frames_ok t (item # items) adding \<Longrightarrow> frames_ok t items adding"
  by (auto simp: frames_ok_def)

lemma frames_ok_let_in:
  assumes "frames_ok t items adding" "r \<notin> snd ` set items"
  shows "frames_ok t items (obj_set r c adding)"
  using assms by (force simp: frames_ok_def js_simps)

lemma set_splice_first: "set (splice_first P xs) \<subseteq> set xs"
  by (induction xs) auto

lemma distinct_splice_first: "distinct (map f xs) \<Longrightarrow> distinct (map f (splice_first P xs))"
  using set_splice_first by (induction xs) fastforce+

lemma frames_ok_splice: "frames_ok t items adding \<Longrightarrow> frames_ok t (splice_first P items) adding"
  using set_splice_first [of P items] by (auto simp: frames_ok_def distinct_splice_first)

text \<open>The frame of the next promise is let through, and frames of the other queue stay as they are.\<close>

lemma resolveNext_frames:
  assumes next_r: "resolveNext q = (next, q', evs)" and ok: "frames_ok t (cq_queue q) (e_adding st)" and wf: "wf_obj (e_adding st)"
  shows "frames_ok t (cq_queue q') (e_adding (let_in next st))
    \<and> cq_capacity q' = cq_capacity q
    \<and> int (through t (e_adding (let_in next st))) + int (length (cq_queue q'))
      = int (through t (e_adding st)) + int (length (cq_queue q))
    \<and> (cq_queue q' = [] \<and> cq_queue q = [] \<or> length (cq_queue q) = Suc (length (cq_queue q')))
    \<and> (\<forall>t'. t' \<noteq> t \<longrightarrow> through t' (e_adding (let_in next st)) = through t' (e_adding st))
    \<and> (\<forall>t' items. t' \<noteq> t \<longrightarrow> frames_ok t' items (e_adding st) \<longrightarrow> frames_ok t' items (e_adding (let_in next st)))"
proof (cases "cq_queue q")
  case Nil
  then show ?thesis using next_r ok by (auto simp: resolveNext_def let_in_def)
next
  case (Cons item rest)
  obtain i r where item: "item = (i, r)" by (cases item)
  from ok Cons item obtain c where c: "obj_get (e_adding st) r = Some c" "\<not> ac_through c" "mode_queue (ac_mode c) = Some t"
    by (auto simp: frames_ok_def)
  from next_r Cons item have q': "next = Some r" "q' = q\<lparr>cq_queue := rest\<rparr>" by (auto simp: resolveNext_def)
  with c have adding: "e_adding (let_in next st) = obj_set r (c\<lparr>ac_through := True\<rparr>) (e_adding st)"
    by (simp add: let_in_def)
  have "r \<notin> snd ` set rest" using ok Cons item by (auto simp: frames_ok_def)
  with ok Cons have "frames_ok t rest (obj_set r (c\<lparr>ac_through := True\<rparr>) (e_adding st))"
    using frames_ok_let_in frames_ok_rest by metis
  moreover have "frames_ok t' items (obj_set r (c\<lparr>ac_through := True\<rparr>) (e_adding st))"
    if "t' \<noteq> t" "frames_ok t' items (e_adding st)" for t' items
  proof (rule frames_ok_let_in [OF that(2)])
    show "r \<notin> snd ` set items" using that c by (force simp: frames_ok_def)
  qed
  ultimately show ?thesis using Cons q' adding c through_set [OF wf c(1,2)] by simp
qed


subsection \<open>Operations that leave the accounts as they are\<close>

definition same_books :: "executions \<Rightarrow> executions \<Rightarrow> bool" where
  "same_books st st' \<longleftrightarrow> e_adding st' = e_adding st \<and> e_concurrency st' = e_concurrency st \<and> e_finally st' = e_finally st
     \<and> e_next st' = e_next st \<and> e_regular st' = e_regular st
     \<and> map fst (e_heap st') = map fst (e_heap st)
     \<and> (\<forall>ref. map_option ae_mode (obj_get (e_heap st') ref) = map_option ae_mode (obj_get (e_heap st) ref))"

lemma same_books_refl: "same_books st st"
  by (simp add: same_books_def)

lemma same_books_trans: "same_books st st' \<Longrightarrow> same_books st' st'' \<Longrightarrow> same_books st st''"
  by (simp add: same_books_def)

lemma keys_obj_set_old: "obj_get m k = Some v' \<Longrightarrow> map fst (obj_set k v m) = map fst m"
  by (induction m) (auto split: if_splits)

lemma same_books_change:
  "(\<And>x. ae_mode (f x) = ae_mode x) \<Longrightarrow> same_books st (change ref f st)"
  by (auto simp: same_books_def change_def js_simps keys_obj_set_old split: option.splits)

lemma same_books_active: "same_books st (st\<lparr>e_active := a\<rparr>)"
  by (simp add: same_books_def)

lemmas same_books_intros = same_books_refl same_books_active same_books_change

lemma same_books_stop: "same_books st (stopExecution i st)"
proof (cases "active st i")
  case (Some p)
  obtain ref x where p: "p = (ref, x)" by (cases p)
  have 1: "same_books st (change ref (settle_response Rejected) st)"
    by (rule same_books_change) (simp add: settle_response_def)
  have 2: "same_books st' (change ref (settle_post Rejected) st')" for st'
    by (rule same_books_change) (simp add: settle_post_def)
  show ?thesis using Some p same_books_trans [OF 1 2] same_books_trans [OF 1 same_books_active]
    by (simp add: stopExecution_def Let_def)
qed (simp add: stopExecution_def same_books_refl)

lemma same_books_finalize: "same_books st (finalizeExecution i st)"
  by (auto simp: finalizeExecution_def settle_post_def intro: same_books_intros split: option.splits)

lemma same_books_resolve: "same_books st (resolveResponsePromise i st)"
  by (auto simp: resolveResponsePromise_def settle_response_def intro: same_books_intros split: option.splits)

lemma same_books_resolve_response: "same_books st (resolveExecutionResponsePromise i st)"
  by (auto simp: resolveExecutionResponsePromise_def settle_response_def intro: same_books_intros split: option.splits)

lemma same_books_change_or_fail:
  "change_or_fail i f st = Inr st' \<Longrightarrow> (\<And>x. ae_mode (f x) = ae_mode x) \<Longrightarrow> same_books st st'"
  by (auto simp: change_or_fail_def bindE_eq_Inr intro: same_books_change)

lemma same_books_shut_down_one: "same_books st (snd (shut_down_one b i (ids, st)))"
  by (auto simp: shut_down_one_def intro: same_books_intros same_books_stop split: option.splits)

lemma same_books_shut_down: "same_books st (snd (fold (shut_down_one b) is (ids, st)))"
proof (induction "is" arbitrary: ids st)
  case (Cons i "is")
  obtain ids' st' where r: "shut_down_one b i (ids, st) = (ids', st')" by (cases "shut_down_one b i (ids, st)")
  from same_books_shut_down_one [of st b i ids] r Cons.IH [of st' ids'] show ?case
    by (simp add: same_books_trans)
qed (simp add: same_books_refl)

lemma running_same: "same_books st st' \<Longrightarrow> running t st' = running t st"
proof -
  assume "same_books st st'"
  then have modes: "map_option ae_mode (obj_get (e_heap st') ref) = map_option ae_mode (obj_get (e_heap st) ref)" for ref
    by (simp add: same_books_def)
  have "(\<exists>x. obj_get (e_heap st') ref = Some x \<and> mode_queue (ae_mode x) = Some t)
      \<longleftrightarrow> (\<exists>x. obj_get (e_heap st) ref = Some x \<and> mode_queue (ae_mode x) = Some t)" for ref
    using modes [of ref] by (cases "obj_get (e_heap st) ref"; cases "obj_get (e_heap st') ref") simp_all
  with \<open>same_books st st'\<close> show ?thesis by (simp add: running_def same_books_def)
qed

lemma exec_ok_same:
  assumes "exec_ok limit lost cancelled st" "same_books st st'"
  shows "exec_ok limit lost cancelled st'"
proof -
  have "wf_obj (e_heap st') = wf_obj (e_heap st)" using assms(2) by (simp add: same_books_def wf_obj_def)
  moreover have "books limit lost cancelled st' t q = books limit lost cancelled st t q" for t q
    using assms(2) running_same [OF assms(2)] by (simp add: books_def same_books_def)
  moreover have "set (map fst (e_heap st')) = set (map fst (e_heap st))" using assms(2) by (simp add: same_books_def)
  ultimately show ?thesis using assms by (simp add: exec_ok_def shape_ok_def same_books_def)
qed


subsection \<open>Operations on a queue\<close>

lemma exec_ok_queue:
  assumes "exec_ok limit lost cancelled st" "shape_ok st'"
    and "e_concurrency st' = (e_concurrency st)\<lparr>cc_queues := obj_set t q' (cc_queues (e_concurrency st))\<rparr>"
    and "frames_ok t (cq_queue q') (e_adding st')" "books limit lost' cancelled' st' t q'"
    and "\<And>t' items. t' \<noteq> t \<Longrightarrow> frames_ok t' items (e_adding st) \<Longrightarrow> frames_ok t' items (e_adding st')"
    and "\<And>t'. t' \<noteq> t \<Longrightarrow> through t' (e_adding st') = through t' (e_adding st) \<and> running t' st' = running t' st
      \<and> lost' t' = lost t' \<and> cancelled' t' = cancelled t'"
  shows "exec_ok limit lost' cancelled' st'"
  unfolding exec_ok_def
proof (intro conjI allI impI)
  fix t' q0 assume q: "obj_get (cc_queues (e_concurrency st')) t' = Some q0"
  show "frames_ok t' (cq_queue q0) (e_adding st')"
    using q assms(1,3,4,6) by (cases "t' = t") (auto simp: exec_ok_def js_simps)
  assume e: "cc_isEnabled (e_concurrency st')"
  show "books limit lost' cancelled' st' t' q0"
  proof (cases "t' = t")
    case True
    then show ?thesis using q assms(3,5) by (simp add: js_simps)
  next
    case False
    with q e assms(1,3) have "books limit lost cancelled st t' q0" by (simp add: exec_ok_def js_simps)
    then show ?thesis using assms(7) [OF False] by (auto simp: books_def)
  qed
qed (rule assms(2))

lemma exec_ok_no_queue:
  assumes "exec_ok limit lost cancelled st" "shape_ok st'" "e_concurrency st' = e_concurrency st"
    and "\<And>t q. obj_get (cc_queues (e_concurrency st)) t = Some q \<Longrightarrow> frames_ok t (cq_queue q) (e_adding st) \<Longrightarrow>
      frames_ok t (cq_queue q) (e_adding st')"
    and "\<And>t q. cc_isEnabled (e_concurrency st) \<Longrightarrow> obj_get (cc_queues (e_concurrency st)) t = Some q \<Longrightarrow>
      through t (e_adding st') + running t st' + nat (lost' t - lost t) = through t (e_adding st) + running t st
      \<and> lost t \<le> lost' t \<and> cancelled' t = cancelled t"
  shows "exec_ok limit lost' cancelled' st'"
  unfolding exec_ok_def
proof (intro conjI allI impI)
  fix t q assume q: "obj_get (cc_queues (e_concurrency st')) t = Some q"
  with assms(1,3,4) show "frames_ok t (cq_queue q) (e_adding st')" by (simp add: exec_ok_def)
  assume e: "cc_isEnabled (e_concurrency st')"
  with q assms(1,3) have "books limit lost cancelled st t q" by (simp add: exec_ok_def)
  with assms(5) [of t q] q e assms(3) show "books limit lost' cancelled' st' t q"
    by (auto simp: books_def)
qed (rule assms(2))

lemma not_adding_next: "shape_ok st \<Longrightarrow> obj_get (e_adding st) (e_next st) = None"
  unfolding shape_ok_def by (metis less_irrefl obj_has_def obj_has_iff)

lemma not_heap_next: "shape_ok st \<Longrightarrow> obj_get (e_heap st) (e_next st) = None"
  unfolding shape_ok_def by (metis less_irrefl obj_has_def obj_has_iff)

lemma next_not_waiting: "shape_ok st \<Longrightarrow> frames_ok t items (e_adding st) \<Longrightarrow> e_next st \<notin> snd ` set items"
  using not_adding_next [of st] by (force simp: frames_ok_def)

lemma frames_ok_new:
  "shape_ok st \<Longrightarrow> frames_ok t items (e_adding st) \<Longrightarrow> frames_ok t items (obj_set (e_next st) c (e_adding st))"
  by (rule frames_ok_let_in) (auto dest: next_not_waiting)

lemma shape_ok_new:
  assumes "shape_ok st" "wf_obj (cc_queues cc)"
  shows "shape_ok (st\<lparr>e_adding := obj_set (e_next st) c (e_adding st), e_concurrency := cc, e_next := Suc (e_next st)\<rparr>)"
  using assms by (simp add: shape_ok_def keys_obj_set less_Suc_eq del: set_map)

lemma through_new:
  "shape_ok st \<Longrightarrow> through t (obj_set (e_next st) c (e_adding st))
    = through t (e_adding st) + (if ac_through c \<and> mode_queue (ac_mode c) = Some t then 1 else 0)"
  by (simp add: through_def count_obj_new not_adding_next)

lemma exec_ok_add_start:
  assumes ok: "exec_ok limit lost cancelled st" and step: "add_start isNew i mode st = Inr st'"
  shows "exec_ok limit lost cancelled st'"
proof -
  have shape: "shape_ok st" and regular: "e_regular st" using ok by (auto simp: exec_ok_def shape_ok_def)
  from step regular obtain now cc evs where t: "throttle mode i (e_next st) (e_concurrency st) = Inr (now, cc, evs)"
    by (auto simp: add_start_def bindE_eq_Inr)
  define c where "c = \<lparr>ac_executionId = i, ac_mode = mode, ac_isNew = isNew, ac_through = now\<rparr>"
  have st': "st' = st\<lparr>e_adding := obj_set (e_next st) c (e_adding st), e_concurrency := cc, e_next := Suc (e_next st)\<rparr>"
    using step t regular by (simp add: add_start_def c_def)
  have run: "running t st' = running t st" for t by (simp add: running_def st')
  from t [unfolded throttle_def] show ?thesis
  proof (cases rule: on_queue_cases)
    case 1
    have "shape_ok st'" using shape_ok_new [OF shape, of cc c] shape 1(2) by (simp add: st' shape_ok_def)
    then show ?thesis
    proof (rule exec_ok_no_queue [OF ok])
      show "e_concurrency st' = e_concurrency st" using 1 by (simp add: st')
      show "frames_ok t (cq_queue q) (e_adding st')" if "frames_ok t (cq_queue q) (e_adding st)" for t q
        using frames_ok_new [OF shape that] by (simp add: st')
      show "through t (e_adding st') + running t st' + nat (lost t - lost t) = through t (e_adding st) + running t st
          \<and> lost t \<le> lost t \<and> cancelled t = cancelled t"
        if "cc_isEnabled (e_concurrency st)" "obj_get (cc_queues (e_concurrency st)) t = Some q" for t q
      proof -
        from 1(3) that have "mode_queue mode \<noteq> Some t" by (auto split: option.splits)
        then show ?thesis using through_new [OF shape, of t c] run by (simp add: st' c_def)
      qed
    qed
  next
    case (2 t q q')
    have fr: "frames_ok t (cq_queue q) (e_adding st)" and bk: "books limit lost cancelled st t q"
      using ok 2 by (auto simp: exec_ok_def)
    note fr' = frames_ok_new [OF shape fr, of c]
    have "shape_ok st'" using shape_ok_new [OF shape, of cc c] shape 2(5) by (simp add: st' shape_ok_def)
    then show ?thesis
    proof (rule exec_ok_queue [OF ok])
      show "e_concurrency st' = (e_concurrency st)\<lparr>cc_queues := obj_set t q' (cc_queues (e_concurrency st))\<rparr>"
        using 2 by (simp add: st')
      have "e_next st \<notin> snd ` set (cq_queue q)" by (rule next_not_waiting [OF shape fr])
      with 2(4) fr' 2(2) show "frames_ok t (cq_queue q') (e_adding st')"
        by (auto simp: cq_enqueue_def Let_def st' c_def frames_ok_def js_simps split: if_splits)
      show "books limit lost cancelled st' t q'"
        using bk 2(2,4) run through_new [OF shape, of t c]
        by (auto simp: cq_enqueue_def Let_def st' c_def books_def split: if_splits)
      show "frames_ok t' items (e_adding st')" if "frames_ok t' items (e_adding st)" for t' items
        using frames_ok_new [OF shape that] by (simp add: st')
      show "through t' (e_adding st') = through t' (e_adding st) \<and> running t' st' = running t' st
          \<and> lost t' = lost t' \<and> cancelled t' = cancelled t'" if "t' \<noteq> t" for t'
        using through_new [OF shape, of t' c] run 2(2) that by (simp add: st' c_def)
    qed
  qed
qed


lemma through_del:
  assumes "wf_obj adding" "obj_get adding r = Some c" "ac_through c"
  shows "through t adding = through t (obj_del r adding) + (if mode_queue (ac_mode c) = Some t then 1 else 0)"
  using count_obj_del [OF assms(1,2), of "\<lambda>(r, c). ac_through c \<and> mode_queue (ac_mode c) = Some t"] assms(3)
  by (simp add: through_def)

lemma frames_ok_del:
  assumes "frames_ok t items adding" "obj_get adding r = Some c" "ac_through c"
  shows "frames_ok t items (obj_del r adding)"
  using assms by (force simp: frames_ok_def js_simps)

lemma shape_ok_del: "shape_ok st \<Longrightarrow> shape_ok (st\<lparr>e_adding := obj_del r (e_adding st)\<rparr>)"
  by (simp add: shape_ok_def keys_obj_del del: set_map)

text \<open>A call that fails because its execution is already resumed takes its share of the capacity with it.\<close>

definition charge :: "execute_mode \<Rightarrow> accounts \<Rightarrow> accounts" where
  "charge mode lost t = lost t + (if mode_queue mode = Some t then 1 else 0)"

lemma exec_ok_add_fails:
  assumes ok: "exec_ok limit lost cancelled st" and step: "add_finish r b st = (Some err, st')"
    and c: "obj_get (e_adding st) r = Some c"
  shows "exec_ok limit (charge (ac_mode c) lost) cancelled st'"
proof -
  have shape: "shape_ok st" using ok by (simp add: exec_ok_def)
  from step c have thr: "ac_through c" and st': "st' = st\<lparr>e_adding := obj_del r (e_adding st)\<rparr>"
    by (auto simp: add_finish_def Let_def split: if_splits)
  have "shape_ok st'" using shape_ok_del [OF shape] by (simp add: st')
  then show ?thesis
  proof (rule exec_ok_no_queue [OF ok])
    show "frames_ok t (cq_queue q) (e_adding st')" if "frames_ok t (cq_queue q) (e_adding st)" for t q
      using frames_ok_del [OF that c thr] by (simp add: st')
    show "through t (e_adding st') + running t st' + nat (charge (ac_mode c) lost t - lost t) = through t (e_adding st) + running t st
        \<and> lost t \<le> charge (ac_mode c) lost t \<and> cancelled t = cancelled t" for t
      using through_del [OF _ c thr, of t] shape by (simp add: st' shape_ok_def running_def charge_def)
  qed (simp add: st')
qed

lemma running_new:
  assumes "shape_ok st" "e_finally st' = e_finally st @ [e_next st]" "e_heap st' = obj_set (e_next st) x (e_heap st)"
  shows "running t st' = running t st + (if mode_queue (ae_mode x) = Some t then 1 else 0)"
proof -
  have "ref \<noteq> e_next st" if "ref \<in> set (e_finally st)" for ref
    using assms(1) that by (fastforce simp: shape_ok_def)
  then have "filter (\<lambda>ref. \<exists>y. obj_get (e_heap st') ref = Some y \<and> mode_queue (ae_mode y) = Some t) (e_finally st)
      = filter (\<lambda>ref. \<exists>y. obj_get (e_heap st) ref = Some y \<and> mode_queue (ae_mode y) = Some t) (e_finally st)"
    by (intro filter_cong) (auto simp: assms(3) js_simps)
  then show ?thesis by (simp add: running_def assms(2,3) js_simps)
qed

lemma exec_ok_add_done:
  assumes ok: "exec_ok limit lost cancelled st" and step: "add_finish r b st = (None, st')"
  shows "exec_ok limit lost cancelled st'"
proof (cases "\<exists>c. obj_get (e_adding st) r = Some c \<and> ac_through c")
  case False
  then show ?thesis using ok step by (auto simp: add_finish_def split: option.splits)
next
  case True
  then obtain c where c: "obj_get (e_adding st) r = Some c" "ac_through c" by blast
  have shape: "shape_ok st" using ok by (simp add: exec_ok_def)
  define x where "x = new_execution st c"
  have x: "ae_mode x = ac_mode c" by (simp add: x_def new_execution_def)
  from step c have st': "st' = st\<lparr>e_adding := obj_del r (e_adding st),
      e_heap := obj_set (e_next st) x (e_heap st), e_active := obj_set (ac_executionId c) (e_next st) (e_active st),
      e_finally := e_finally st @ [e_next st], e_next := Suc (e_next st)\<rparr>"
    by (auto simp: add_finish_def x_def Let_def split: if_splits)
  have run: "running t st' = running t st + (if mode_queue (ac_mode c) = Some t then 1 else 0)" for t
    using running_new [OF shape, of st' x t] by (simp add: st' x)
  have "e_next st \<notin> set (e_finally st)" using shape by (fastforce simp: shape_ok_def)
  with shape have "shape_ok st'" by (auto simp: shape_ok_def st' keys_obj_set keys_obj_del less_Suc_eq simp del: set_map)
  then show ?thesis
  proof (rule exec_ok_no_queue [OF ok])
    show "frames_ok t (cq_queue q) (e_adding st')" if "frames_ok t (cq_queue q) (e_adding st)" for t q
      using frames_ok_del [OF that c] by (simp add: st')
    show "through t (e_adding st') + running t st' + nat (lost t - lost t) = through t (e_adding st) + running t st
        \<and> lost t \<le> lost t \<and> cancelled t = cancelled t" for t
      using through_del [OF _ c, of t] shape run [of t] by (simp add: st' shape_ok_def)
  qed (simp add: st')
qed


lemma let_in_other [simp]:
  "e_heap (let_in r st) = e_heap st" "e_finally (let_in r st) = e_finally st" "e_concurrency (let_in r st) = e_concurrency st"
  "e_next (let_in r st) = e_next st" "e_regular (let_in r st) = e_regular st" "running t (let_in r st) = running t st"
  by (simp_all add: let_in_def running_def split: option.splits)

lemma shape_ok_let_in: "shape_ok st \<Longrightarrow> shape_ok (let_in r st)"
  by (cases r) (auto simp: let_in_def shape_ok_def keys_obj_set_old simp del: set_map split: option.splits)

text \<open>Releasing and cancelling have one shape: the next call of the queue is let through.\<close>

lemma exec_ok_next:
  assumes ok: "exec_ok limit lost cancelled st" and items: "frames_ok t (cq_queue q) (e_adding st)"
    and next_r: "resolveNext q = (next, q', evs)"
    and cc: "cc = (e_concurrency st)\<lparr>cc_queues := obj_set t q' (cc_queues (e_concurrency st))\<rparr>"
    and fs: "distinct fs" "set fs \<subseteq> set (e_finally st)"
    and run: "\<And>t'. t' \<noteq> t \<Longrightarrow> running t' (st\<lparr>e_concurrency := cc, e_finally := fs\<rparr>) = running t' st \<and> cancelled' t' = cancelled t'"
    and bk: "books limit lost cancelled' (let_in next (st\<lparr>e_concurrency := cc, e_finally := fs\<rparr>)) t q'"
  shows "exec_ok limit lost cancelled' (let_in next (st\<lparr>e_concurrency := cc, e_finally := fs\<rparr>))"
proof -
  let ?st = "st\<lparr>e_concurrency := cc, e_finally := fs\<rparr>"
  have shape: "shape_ok st" using ok by (simp add: exec_ok_def)
  then have wf: "wf_obj (e_adding ?st)" by (simp add: shape_ok_def)
  have "frames_ok t (cq_queue q) (e_adding ?st)" using items by simp
  note nx = resolveNext_frames [OF next_r this wf]
  have "shape_ok ?st" using shape fs cc by (auto simp: shape_ok_def)
  then have "shape_ok (let_in next ?st)" by (rule shape_ok_let_in)
  then show ?thesis
  proof (rule exec_ok_queue [OF ok])
    show "e_concurrency (let_in next ?st) = (e_concurrency st)\<lparr>cc_queues := obj_set t q' (cc_queues (e_concurrency st))\<rparr>"
      by (simp add: cc)
    show "frames_ok t (cq_queue q') (e_adding (let_in next ?st))" using nx by blast
    show "frames_ok t' items (e_adding (let_in next ?st))" if "t' \<noteq> t" "frames_ok t' items (e_adding st)" for t' items
      using nx that by simp
    show "through t' (e_adding (let_in next ?st)) = through t' (e_adding st) \<and> running t' (let_in next ?st) = running t' st
        \<and> lost t' = lost t' \<and> cancelled' t' = cancelled t'" if "t' \<noteq> t" for t'
      using nx that run [OF that] by simp
  qed (rule bk)
qed

lemma running_finally:
  assumes "distinct (e_finally st)" "ref \<in> set (e_finally st)" "obj_get (e_heap st) ref = Some x"
  shows "running t st = running t (st\<lparr>e_concurrency := cc, e_finally := remove1 ref (e_finally st)\<rparr>)
    + (if mode_queue (ae_mode x) = Some t then 1 else 0)"
proof -
  let ?P = "\<lambda>ref. \<exists>x. obj_get (e_heap st) ref = Some x \<and> mode_queue (ae_mode x) = Some t"
  have "length (filter ?P fs) = length (filter ?P (remove1 ref fs)) + (if ?P ref then 1 else 0)"
    if "distinct fs" "ref \<in> set fs" for fs
    using that by (induction fs) (auto simp: remove1_idem)
  from this [OF assms(1,2)] show ?thesis by (simp add: running_def assms(3))
qed

lemma exec_ok_finally:
  assumes ok: "exec_ok limit lost cancelled st" and step: "finally_execution ref st = Inr st'"
  shows "exec_ok limit lost cancelled st'"
proof (cases "\<exists>x. obj_get (e_heap st) ref = Some x \<and> ref \<in> set (e_finally st) \<and> ae_postExecute x \<noteq> Pending")
  case False
  then show ?thesis using ok step by (auto simp: finally_execution_def split: option.splits if_splits)
next
  case True
  then obtain x where x: "obj_get (e_heap st) ref = Some x" "ref \<in> set (e_finally st)" "ae_postExecute x \<noteq> Pending" by blast
  have shape: "shape_ok st" using ok by (simp add: exec_ok_def)
  then have dist: "distinct (e_finally st)" by (simp add: shape_ok_def)
  from step x obtain r cc evs where rel: "cc_release (ae_mode x) (e_concurrency st) = Inr (r, cc, evs)"
    by (auto simp: finally_execution_def bindE_eq_Inr)
  let ?fs = "remove1 ref (e_finally st)"
  let ?st = "st\<lparr>e_concurrency := cc, e_finally := ?fs\<rparr>"
  note run = running_finally [OF dist x(2,1), where cc = cc]
  have fs: "distinct ?fs" "set ?fs \<subseteq> set (e_finally st)" using dist by (auto dest: notin_set_remove1)
  have "exec_ok limit lost cancelled (let_in r ?st)"
    using rel [unfolded cc_release_def]
  proof (cases rule: on_queue_cases)
    case 1
    have "shape_ok ?st" using shape fs 1(2) by (auto simp: shape_ok_def)
    then have "exec_ok limit lost cancelled ?st"
    proof (rule exec_ok_no_queue [OF ok])
      show "through t (e_adding ?st) + running t ?st + nat (lost t - lost t) = through t (e_adding st) + running t st
          \<and> lost t \<le> lost t \<and> cancelled t = cancelled t"
        if "cc_isEnabled (e_concurrency st)" "obj_get (cc_queues (e_concurrency st)) t = Some q" for t q
      proof -
        from 1(3) that have "mode_queue (ae_mode x) \<noteq> Some t" by (auto split: option.splits)
        with run [of t] show ?thesis by simp
      qed
    qed (simp_all add: 1(2))
    then show ?thesis using 1(1) by (simp add: let_in_def)
  next
    case (2 t q q')
    have fr: "frames_ok t (cq_queue q) (e_adding st)" and bk: "books limit lost cancelled st t q"
      using ok 2(1,3) by (auto simp: exec_ok_def)
    have nr: "resolveNext (q\<lparr>cq_capacity := cq_capacity q + 1\<rparr>) = (r, q', evs)" using 2(4) by (simp add: cq_dequeue_def)
    have fr': "frames_ok t (cq_queue (q\<lparr>cq_capacity := cq_capacity q + 1\<rparr>)) (e_adding st)" using fr by simp
    show ?thesis
    proof (rule exec_ok_next [OF ok fr' nr 2(5) fs])
      show "running t' ?st = running t' st \<and> cancelled t' = cancelled t'" if "t' \<noteq> t" for t'
        using run [of t'] that 2(2) by simp
      have "frames_ok t (cq_queue (q\<lparr>cq_capacity := cq_capacity q + 1\<rparr>)) (e_adding ?st)" "wf_obj (e_adding ?st)"
        using fr shape by (simp_all add: shape_ok_def)
      note nx = resolveNext_frames [OF nr this]
      have "running t st = running t ?st + 1" using run [of t] 2(2) by simp
      then show "books limit lost cancelled (let_in r ?st) t q'" using nx bk
        by (auto simp: books_def)
    qed
  qed
  moreover have "same_books (let_in r ?st) st'"
    using step x rel by (auto simp: finally_execution_def Let_def intro: same_books_intros split: if_splits)
  ultimately show ?thesis by (rule exec_ok_same)
qed

lemma exec_ok_cancel:
  assumes ok: "exec_ok limit lost cancelled st" and step: "stopInRegularMode i mode st = Inr (True, st')"
  shows "exec_ok limit lost (charge mode cancelled) st'"
proof -
  have shape: "shape_ok st" using ok by (simp add: exec_ok_def)
  from step obtain r cc evs where rem: "cc_remove mode i (e_concurrency st) = Inr (r, cc, evs)"
    and st': "st' = let_in r (st\<lparr>e_concurrency := cc\<rparr>)"
    by (auto simp: stopInRegularMode_def bindE_eq_Inr split: if_splits)
  show ?thesis using rem [unfolded cc_remove_def]
  proof (cases rule: on_queue_cases)
    case 1
    then have "st' = st" by (simp add: st' let_in_def)
    have "exec_ok limit lost (charge mode cancelled) st"
    proof (rule exec_ok_no_queue [OF ok shape])
      show "through t (e_adding st) + running t st + nat (lost t - lost t) = through t (e_adding st) + running t st
          \<and> lost t \<le> lost t \<and> charge mode cancelled t = cancelled t"
        if "cc_isEnabled (e_concurrency st)" "obj_get (cc_queues (e_concurrency st)) t = Some q" for t q
        using 1(3) that by (auto simp: charge_def split: option.splits)
    qed simp_all
    with \<open>st' = st\<close> show ?thesis by simp
  next
    case (2 t q q')
    have fr: "frames_ok t (cq_queue q) (e_adding st)" and bk: "books limit lost cancelled st t q"
      using ok 2(1,3) by (auto simp: exec_ok_def)
    show ?thesis
    proof (cases "cq_has i q")
      case False
      then have "r = None" "q' = q" using 2(4) by (simp_all add: cq_remove_def)
      have "exec_ok limit lost (charge mode cancelled) (st\<lparr>e_concurrency := cc\<rparr>)"
      proof (rule exec_ok_queue [OF ok])
        show "shape_ok (st\<lparr>e_concurrency := cc\<rparr>)" using shape 2(5) by (simp add: shape_ok_def)
        show "books limit lost (charge mode cancelled) (st\<lparr>e_concurrency := cc\<rparr>) t q'"
          using bk \<open>q' = q\<close> by (auto simp: books_def charge_def running_def)
      qed (use 2 fr \<open>q' = q\<close> in \<open>auto simp: charge_def running_def\<close>)
      then show ?thesis using \<open>r = None\<close> by (simp add: st' let_in_def)
    next
      case True
      let ?q = "q\<lparr>cq_queue := splice_first (\<lambda>item. fst item = i) (cq_queue q), cq_capacity := cq_capacity q + 1\<rparr>"
      have len: "Suc (length (cq_queue ?q)) = length (cq_queue q)"
        using True length_splice_first unfolding cq_has_def by simp
      have nr: "resolveNext ?q = (r, q', evs)" using 2(4) True by (simp add: cq_remove_def)
      have fr': "frames_ok t (cq_queue ?q) (e_adding st)" using frames_ok_splice [OF fr] by simp
      let ?st = "st\<lparr>e_concurrency := cc, e_finally := e_finally st\<rparr>"
      have fs: "distinct (e_finally st)" using shape by (simp add: shape_ok_def)
      have "exec_ok limit lost (charge mode cancelled) (let_in r ?st)"
      proof (rule exec_ok_next [OF ok fr' nr 2(5) fs])
        show "running t' ?st = running t' st \<and> charge mode cancelled t' = cancelled t'" if "t' \<noteq> t" for t'
          using that 2(2) by (simp add: running_def charge_def)
        have "frames_ok t (cq_queue ?q) (e_adding ?st)" "wf_obj (e_adding ?st)" using fr' shape by (simp_all add: shape_ok_def)
        note nx = resolveNext_frames [OF nr this]
        have "cq_queue q \<noteq> []" using len by auto
        moreover have "running t ?st = running t st" by (simp add: running_def)
        ultimately show "books limit lost (charge mode cancelled) (let_in r ?st) t q'" using nx bk len 2(2)
          by (auto simp: books_def charge_def)
      qed simp
      then show ?thesis by (simp add: st')
    qed
  qed
qed


subsection \<open>Histories\<close>

text \<open>
  What may happen to the active executions in the regular mode. A call of \<open>add\<close> is two events, its
  start and, once it is let through, its end; the end that throws is an event of its own.
\<close>

datatype exec_event =
    AddStarts bool string execute_mode
  | AddEnds nat
  | AlreadyResuming execute_mode
  | FinallyRuns nat
  | CancelsWaiting string execute_mode
  | Changes string
  | ShutsDown bool

inductive exec_step :: "executions \<Rightarrow> exec_event \<Rightarrow> executions \<Rightarrow> bool" where
  add_starts: "add_start isNew i mode st = Inr st' \<Longrightarrow> exec_step st (AddStarts isNew i mode) st'"
| add_ends: "add_finish r b st = (None, st') \<Longrightarrow> exec_step st (AddEnds r) st'"
| add_fails: "add_finish r b st = (Some err, st') \<Longrightarrow> obj_get (e_adding st) r = Some c \<Longrightarrow>
    exec_step st (AlreadyResuming (ac_mode c)) st'"
| finally_runs: "finally_execution ref st = Inr st' \<Longrightarrow> exec_step st (FinallyRuns ref) st'"
| cancels: "stopInRegularMode i mode st = Inr (True, st') \<Longrightarrow> exec_step st (CancelsWaiting i mode) st'"
| stops: "stopInRegularMode i mode st = Inr (False, st') \<Longrightarrow> exec_step st (Changes i) st'"
| stops_at_timeout: "exec_step st (Changes i) (stopExecution i st)"
| finalizes: "exec_step st (Changes i) (finalizeExecution i st)"
| sets_status: "setStatus i status st = Inr st' \<Longrightarrow> exec_step st (Changes i) st'"
| attaches_execution: "attachWorkflowExecution i st = Inr st' \<Longrightarrow> exec_step st (Changes i) st'"
| attaches_response: "attachResponsePromise i st = Inr st' \<Longrightarrow> exec_step st (Changes i) st'"
| responds: "exec_step st (Changes i) (resolveResponsePromise i st)"
| responds_form: "exec_step st (Changes i) (resolveExecutionResponsePromise i st)"
| shuts_down: "exec_step st (ShutsDown cancelAll) (snd (shutdown cancelAll st))"

inductive_cases exec_stepE: "exec_step st e st'"

definition lost_of :: "exec_event list \<Rightarrow> accounts" where
  "lost_of es t = int (length (filter (\<lambda>e. \<exists>mode. e = AlreadyResuming mode \<and> mode_queue mode = Some t) es))"

definition cancelled_of :: "exec_event list \<Rightarrow> accounts" where
  "cancelled_of es t = int (length (filter (\<lambda>e. \<exists>i mode. e = CancelsWaiting i mode \<and> mode_queue mode = Some t) es))"

definition new_executions :: "concurrency \<Rightarrow> executions" where
  "new_executions cc = \<lparr>e_active = [], e_heap = [], e_finally = [], e_adding = [], e_concurrency = cc, e_next = 0, e_regular = True\<rparr>"

lemma exec_ok_shut_down:
  assumes "exec_ok limit lost cancelled st"
  shows "exec_ok limit lost cancelled (snd (shutdown b st))"
proof -
  have shape: "shape_ok st" using assms by (simp add: exec_ok_def)
  then have reg: "e_regular st" by (simp add: shape_ok_def)
  define st0 where "st0 = st\<lparr>e_concurrency := disable (e_concurrency st)\<rparr>"
  have "exec_ok limit lost cancelled st0"
    using assms by (auto simp: st0_def exec_ok_def shape_ok_def disable_def)
  moreover obtain ids st1 where f: "fold (shut_down_one b) (obj_keys (e_active st0)) ([], st0) = (ids, st1)"
    by (cases "fold (shut_down_one b) (obj_keys (e_active st0)) ([], st0)")
  moreover have "same_books st0 st1" using same_books_shut_down [of st0 b "obj_keys (e_active st0)" "[]"] f by simp
  moreover from this have "e_concurrency st1 = disable (e_concurrency st)" by (simp add: same_books_def st0_def)
  moreover from this have "st1\<lparr>e_concurrency := disable (e_concurrency st)\<rparr> = st1" by simp
  ultimately have "snd (shutdown b st) = st1" "exec_ok limit lost cancelled st1"
    using reg exec_ok_same by (auto simp: shutdown_def removeAll_disabled st0_def [symmetric])
  then show ?thesis by simp
qed

lemma same_books_stop_running:
  "stopInRegularMode i mode st = Inr (False, st') \<Longrightarrow> same_books st st'"
  by (auto simp: stopInRegularMode_def bindE_eq_Inr intro: same_books_stop same_books_refl split: if_splits)

lemma lost_of_snoc: "lost_of (es @ [e]) = (case e of AlreadyResuming mode \<Rightarrow> charge mode (lost_of es) | _ \<Rightarrow> lost_of es)"
  by (auto simp: fun_eq_iff lost_of_def charge_def split: exec_event.splits)

lemma cancelled_of_snoc:
  "cancelled_of (es @ [e]) = (case e of CancelsWaiting i mode \<Rightarrow> charge mode (cancelled_of es) | _ \<Rightarrow> cancelled_of es)"
  by (auto simp: fun_eq_iff cancelled_of_def charge_def split: exec_event.splits)

lemma exec_ok_step:
  assumes "exec_ok limit (lost_of es) (cancelled_of es) st" "exec_step st e st'"
  shows "exec_ok limit (lost_of (es @ [e])) (cancelled_of (es @ [e])) st'"
  using assms(2)
proof cases
  case (add_starts isNew i mode)
  then show ?thesis using exec_ok_add_start [OF assms(1)] by (simp add: lost_of_snoc cancelled_of_snoc)
next
  case (add_ends r b)
  then show ?thesis using exec_ok_add_done [OF assms(1)] by (simp add: lost_of_snoc cancelled_of_snoc)
next
  case (add_fails r b err c)
  then show ?thesis using exec_ok_add_fails [OF assms(1)] by (simp add: lost_of_snoc cancelled_of_snoc)
next
  case (finally_runs ref)
  then show ?thesis using exec_ok_finally [OF assms(1)] by (simp add: lost_of_snoc cancelled_of_snoc)
next
  case (cancels i mode)
  then show ?thesis using exec_ok_cancel [OF assms(1)] by (simp add: lost_of_snoc cancelled_of_snoc)
next
  case (shuts_down b)
  then show ?thesis using exec_ok_shut_down [OF assms(1)] by (simp add: lost_of_snoc cancelled_of_snoc)
qed (auto simp: lost_of_snoc cancelled_of_snoc setStatus_def attachWorkflowExecution_def attachResponsePromise_def
    intro: exec_ok_same [OF assms(1)] same_books_stop same_books_stop_running same_books_finalize
      same_books_resolve same_books_resolve_response dest: same_books_change_or_fail)

definition limit_of :: "concurrency \<Rightarrow> accounts" where
  "limit_of cc t = (case obj_get (cc_queues cc) t of None \<Rightarrow> 0 | Some q \<Rightarrow> cq_capacity q)"

definition fresh_concurrency :: "concurrency \<Rightarrow> bool" where
  "fresh_concurrency cc \<longleftrightarrow> (\<exists>production evaluation. newConcurrency production evaluation False = Inr cc)"

lemma fresh_queues:
  assumes "fresh_concurrency cc"
  shows "wf_obj (cc_queues cc) \<and> (\<forall>t q. obj_get (cc_queues cc) t = Some q \<longrightarrow> cq_queue q = [] \<and> 0 < cq_capacity q)"
proof -
  obtain p e where "newConcurrency p e False = Inr cc" using assms by (auto simp: fresh_concurrency_def)
  then show ?thesis by (auto simp: newConcurrency_def Let_def wf_obj_def split: if_splits)
qed

interpretation active_executions: safe_machine "\<lambda>st. \<exists>cc. st = new_executions cc \<and> fresh_concurrency cc \<and> limit = limit_of cc" exec_step
  "\<lambda>st es. exec_ok limit (lost_of es) (cancelled_of es) st" for limit
proof unfold_locales
  show "exec_ok limit (lost_of []) (cancelled_of []) st"
    if "\<exists>cc. st = new_executions cc \<and> fresh_concurrency cc \<and> limit = limit_of cc" for st
    using that fresh_queues
    by (fastforce simp: exec_ok_def shape_ok_def frames_ok_def books_def new_executions_def lost_of_def cancelled_of_def
        limit_of_def through_def running_def)
qed (rule exec_ok_step)

text \<open>
  C17: In every history of the active executions, while concurrency control is enabled, the capacity of
  each queue is its limit less the calls that wait, the calls let through, the executions that have
  not settled and the calls that failed because their execution was already being resumed. Calls
  wait only while the limit is used up, and it is exceeded by at most the number of waiting
  executions that were cancelled.
\<close>

theorem capacity_accounted:
  assumes "history exec_step (new_executions cc) es st" "fresh_concurrency cc"
    and "cc_isEnabled (e_concurrency st)" "obj_get (cc_queues (e_concurrency st)) t = Some q"
  shows "cq_capacity q = limit_of cc t - int (length (cq_queue q)) - int (through t (e_adding st))
      - int (running t st) - lost_of es t
    \<and> int (through t (e_adding st)) + int (running t st) + lost_of es t \<le> limit_of cc t + cancelled_of es t
    \<and> (cq_queue q \<noteq> [] \<longrightarrow> limit_of cc t \<le> int (through t (e_adding st)) + int (running t st) + lost_of es t)"
proof -
  have "exec_ok (limit_of cc) (lost_of es) (cancelled_of es) st"
    using active_executions.inv_history [OF assms(1), of "limit_of cc"] assms(2) by blast
  with assms(3,4) have "books (limit_of cc) (lost_of es) (cancelled_of es) st t q" by (simp add: exec_ok_def)
  then show ?thesis by (auto simp: books_def)
qed


subsection \<open>A resumption that fails\<close>

definition one_at_a_time :: concurrency where
  "one_at_a_time = \<lparr>cc_isEnabled = True, cc_limits = [(Production, 1), (Evaluation, -1)],
     cc_queues = [(Production, \<lparr>cq_capacity = 1, cq_queue = []\<rparr>)]\<rparr>"

lemma one_at_a_time_fresh: "fresh_concurrency one_at_a_time"
proof -
  have "newConcurrency 1 (-1) False = Inr one_at_a_time" by code_simp
  then show ?thesis unfolding fresh_concurrency_def by blast
qed

definition resuming :: executions where
  "resuming = (new_executions one_at_a_time)\<lparr>e_next := 1,
     e_adding := [(0, \<lparr>ac_executionId = ''7'', ac_mode = ModeTrigger, ac_isNew = False, ac_through = True\<rparr>)],
     e_concurrency := one_at_a_time\<lparr>cc_queues := [(Production, \<lparr>cq_capacity = 0, cq_queue = []\<rparr>)]\<rparr>\<rparr>"

definition not_resumed :: executions where
  "not_resumed = resuming\<lparr>e_adding := []\<rparr>"

lemma resume_fails:
  "history exec_step (new_executions one_at_a_time) [AddStarts False ''7'' ModeTrigger, AlreadyResuming ModeTrigger] not_resumed"
proof -
  have "add_start False ''7'' ModeTrigger (new_executions one_at_a_time) = Inr resuming" by code_simp
  then have h: "history exec_step (new_executions one_at_a_time) [AddStarts False ''7'' ModeTrigger] resuming"
    by (intro history_single exec_step.add_starts)
  let ?c = "\<lparr>ac_executionId = ''7'', ac_mode = ModeTrigger, ac_isNew = False, ac_through = True\<rparr>"
  have "add_finish 0 False resuming = (Some (OperationalError ''Execution is already being resumed by another process''), not_resumed)"
    "obj_get (e_adding resuming) 0 = Some ?c" by code_simp+
  from exec_step.add_fails [OF this] have "exec_step resuming (AlreadyResuming ModeTrigger) not_resumed" by simp
  from history_more [where step = exec_step, OF h this] show ?thesis by simp
qed

text \<open>
  An execution that another process resumes in the meantime leaves nothing behind but the capacity it
  was let through with: with the limit one no further execution is let through.
\<close>

lemma resume_failure_leaks:
  "e_active not_resumed = [] \<and> e_adding not_resumed = [] \<and> e_finally not_resumed = []
   \<and> (case throttle ModeTrigger ''8'' 1 (e_concurrency not_resumed) of Inl e \<Rightarrow> False | Inr (now, _) \<Rightarrow> \<not> now)"
  by code_simp

lemma capacity_accounted_witness:
  "cq_capacity \<lparr>cq_capacity = 0, cq_queue = []\<rparr> = limit_of one_at_a_time Production - 0 - int (through Production (e_adding not_resumed))
     - int (running Production not_resumed) - lost_of [AddStarts False ''7'' ModeTrigger, AlreadyResuming ModeTrigger] Production"
proof -
  have "cc_isEnabled (e_concurrency not_resumed)"
    "obj_get (cc_queues (e_concurrency not_resumed)) Production = Some \<lparr>cq_capacity = 0, cq_queue = []\<rparr>" by code_simp+
  from capacity_accounted [OF resume_fails one_at_a_time_fresh this] show ?thesis by simp
qed

text \<open>
  Shutting down disables concurrency control before it empties the queues, which then does nothing:
  no execution is cancelled in the database.
\<close>

lemma shutdown_cancels_nothing:
  assumes "e_regular st"
  shows "fst (shutdown b st) = []"
proof -
  define st0 where "st0 = st\<lparr>e_concurrency := disable (e_concurrency st)\<rparr>"
  obtain ids st1 where f: "fold (shut_down_one b) (obj_keys (e_active st0)) ([], st0) = (ids, st1)"
    by (cases "fold (shut_down_one b) (obj_keys (e_active st0)) ([], st0)")
  have "same_books st0 st1" using same_books_shut_down [of st0 b "obj_keys (e_active st0)" "[]"] f by simp
  then have "e_concurrency st1 = disable (e_concurrency st)" by (simp add: same_books_def st0_def)
  then show ?thesis using f assms by (simp add: shutdown_def removeAll_disabled st0_def [symmetric])
qed

end
