(* ===== verification/TaskBroker.thy ===== *)
theory TaskBroker
  imports Machines Interfaces
begin

section \<open>The task broker\<close>

text \<open>
  \<open>packages/cli/src/task-runners/task-broker/task-broker.service.ts\<close>: runners offer to execute tasks,
  requesters ask for tasks to be executed, and the broker matches offers with requests and passes
  messages on. Every handler is a function of the state. A call of \<open>acceptOffer\<close> is suspended
  twice, until the runner and until the requester has replied; it is a frame of \<open>b_accepts\<close> under the
  identifier of its task, and going on with it is an event of its own. Request objects are shared
  between the list of pending requests and these frames, so they live in \<open>b_requests\<close>. A timer is
  armed as long as its handle is in \<open>b_timers\<close>. A handler that ends a task waits for the callback of
  the requester before it forgets the task; such a handler is an entry of \<open>b_ending\<close>, and forgetting is
  an event of its own. Messages go to \<open>b_sent\<close>, in order. Clock and \<open>nanoid\<close> are arguments; callbacks do
  not throw, and nothing the code does after the other callbacks depends on when they return.
\<close>

subsection \<open>Messages\<close>

text \<open>\<open>packages/@n8n/task-runner/src/message-types.ts\<close>; parameters that are only passed on are \<open>json\<close>.\<close>

datatype to_runner =
    InfoRequest
  | RunnerRegistered
  | TaskOfferAccept string string
  | RunnerTaskCancel string string
  | RunnerTaskSettings string json
  | RunnerRpcResponse string string string json
  | RunnerDataResponse string string json
  | RunnerNodeTypes string string json

text \<open>Why a task failed: an error of the runner, or one the broker makes.\<close>

datatype task_failure = RunnerError json | RunnerDisconnected string | RunnerMissing | TaskTimedOut

datatype to_requester =
    TaskReady string string
  | RequesterTaskDone string json
  | RequesterTaskError string task_failure
  | RequestExpired string
  | RequesterDataRequest string string json
  | RequesterNodeTypesRequest string string json
  | RequesterRpc string string string json

datatype runner_message =
    RunnerInfo
  | TaskAccepted string
  | TaskRejected string string
  | TaskDeferred string
  | TaskDone string json
  | TaskError string json
  | TaskOffer string string int
  | TaskDataRequest string string json
  | NodeTypesRequest string string json
  | Rpc string string string json

datatype requester_message =
    TaskSettings string json
  | TaskCancel string string
  | TaskRequest string string
  | TaskDataResponse string string json
  | NodeTypesResponse string string json
  | RpcResponse string string string json

datatype broker_output =
    ToRunner string to_runner
  | ToRequester string to_requester
  | TimedOutDuringTask
  | Unhandled js_error

subsection \<open>State\<close>

record task_runner =
  tr_id :: string
  tr_taskTypes :: "string list"

record task =
  tk_id :: string
  tk_runnerId :: string
  tk_requesterId :: string
  tk_taskType :: string
  tk_timeout :: "nat option"

record task_offer =
  of_offerId :: string
  of_runnerId :: string
  of_taskType :: string
  of_validFor :: int
  of_validUntil :: int

record task_request =
  rq_requestId :: string
  rq_requesterId :: string
  rq_taskType :: string
  rq_timeout :: "nat option"
  rq_acceptInProgress :: bool

datatype reject_reason = TaskRejectError string | TaskDeferredError | AcceptTimeoutError | RequesterTimedOut

text \<open>A promise: not settled, resolved, or rejected.\<close>

datatype 'a reply = NoReply | Accepts 'a | Rejects reject_reason

datatype accept_stage = AwaitRunner | AwaitRequester

record accept_frame =
  af_offer :: task_offer
  af_request :: nat
  af_stage :: accept_stage
  af_runner :: "unit reply"
  af_requester :: "json reply"

datatype timer = RequestTimer string | TaskTimer string | AcceptTimer string | SettingsTimer string

datatype runner_mode = Internal | External

record broker =
  b_runners :: "task_runner obj"
  b_requesters :: "string list"
  b_tasks :: "task obj"
  b_runnerAcceptRejects :: "string list"
  b_requesterAcceptRejects :: "string list"
  b_offers :: "task_offer list"
  b_pending :: "nat list"
  b_requests :: "(nat, task_request) jsmap"
  b_accepts :: "accept_frame obj"
  b_ending :: "string list"
  b_timers :: "(nat, timer) jsmap"
  b_nextTimer :: nat
  b_nextRequest :: nat
  b_nextTask :: nat
  b_mode :: runner_mode
  b_sent :: "broker_output list"

definition newBroker :: "runner_mode \<Rightarrow> int \<Rightarrow> js_error + broker" where
  "newBroker mode taskTimeout =
     (if taskTimeout \<le> 0 then Inl (UserError ''Task timeout must be greater than 0'')
      else Inr \<lparr>b_runners = [], b_requesters = [], b_tasks = [], b_runnerAcceptRejects = [], b_requesterAcceptRejects = [],
        b_offers = [], b_pending = [], b_requests = [], b_accepts = [], b_ending = [], b_timers = [], b_nextTimer = 0, b_nextRequest = 0,
        b_nextTask = 0, b_mode = mode, b_sent = []\<rparr>)"

subsection \<open>Messages and timers\<close>

definition send :: "broker_output \<Rightarrow> broker \<Rightarrow> broker" where
  "send msg b = b\<lparr>b_sent := b_sent b @ [msg]\<rparr>"

definition messageRunner :: "string \<Rightarrow> to_runner \<Rightarrow> broker \<Rightarrow> broker" where
  "messageRunner runnerId msg b = (if obj_has runnerId (b_runners b) then send (ToRunner runnerId msg) b else b)"

definition messageRequester :: "string \<Rightarrow> to_requester \<Rightarrow> broker \<Rightarrow> broker" where
  "messageRequester requesterId msg b =
     (if requesterId \<in> set (b_requesters b) then send (ToRequester requesterId msg) b else b)"

definition set_timer :: "timer \<Rightarrow> broker \<Rightarrow> nat \<times> broker" where
  "set_timer t b = (b_nextTimer b, b\<lparr>b_timers := obj_set (b_nextTimer b) t (b_timers b), b_nextTimer := Suc (b_nextTimer b)\<rparr>)"

definition clear_timer :: "nat option \<Rightarrow> broker \<Rightarrow> broker" where
  "clear_timer h b = (case h of None \<Rightarrow> b | Some h \<Rightarrow> b\<lparr>b_timers := obj_del h (b_timers b)\<rparr>)"

definition change_request :: "nat \<Rightarrow> (task_request \<Rightarrow> task_request) \<Rightarrow> broker \<Rightarrow> broker" where
  "change_request ref f b =
     (case obj_get (b_requests b) ref of None \<Rightarrow> b | Some rq \<Rightarrow> b\<lparr>b_requests := obj_set ref (f rq) (b_requests b)\<rparr>)"

definition createRequestTimeout :: "nat \<Rightarrow> string \<Rightarrow> broker \<Rightarrow> broker" where
  "createRequestTimeout ref requestId b =
     (case set_timer (RequestTimer requestId) b of (h, b') \<Rightarrow> change_request ref (\<lambda>rq. rq\<lparr>rq_timeout := Some h\<rparr>) b')"

subsection \<open>Pending requests\<close>

definition has_id :: "broker \<Rightarrow> string \<Rightarrow> nat \<Rightarrow> bool" where
  "has_id b requestId ref =
     (case obj_get (b_requests b) ref of None \<Rightarrow> False | Some rq \<Rightarrow> rq_requestId rq = requestId)"

text \<open>\<open>findIndex\<close> and \<open>splice\<close>: the first pending request with the identifier is taken out.\<close>

fun take_first :: "('a \<Rightarrow> bool) \<Rightarrow> 'a list \<Rightarrow> ('a \<times> 'a list) option" where
  "take_first P [] = None"
| "take_first P (x # xs) =
     (if P x then Some (x, xs) else map_option (\<lambda>(y, ys). (y, x # ys)) (take_first P xs))"

definition handleRequestTimeout :: "string \<Rightarrow> broker \<Rightarrow> broker" where
  "handleRequestTimeout requestId b =
     (case take_first (has_id b requestId) (b_pending b) of
        None \<Rightarrow> b
      | Some (ref, rest) \<Rightarrow>
          (case obj_get (b_requests b) ref of
             None \<Rightarrow> b
           | Some rq \<Rightarrow> messageRequester (rq_requesterId rq) (RequestExpired (rq_requestId rq))
               (clear_timer (rq_timeout rq) (b\<lparr>b_pending := rest\<rparr>))))"

subsection \<open>Matching offers with requests\<close>

definition expireTasks :: "int \<Rightarrow> broker \<Rightarrow> broker" where
  "expireTasks now b = b\<lparr>b_offers := filter (\<lambda>o'. of_validFor o' = -1 \<or> \<not> of_validUntil o' < now) (b_offers b)\<rparr>"

text \<open>\<open>acceptOffer\<close> up to its first \<open>await\<close>.\<close>

definition acceptOffer :: "(nat \<Rightarrow> string) \<Rightarrow> task_offer \<Rightarrow> nat \<Rightarrow> broker \<Rightarrow> broker" where
  "acceptOffer nanoid offer ref b =
     (let taskId = nanoid (b_nextTask b);
          (_, b1) = set_timer (AcceptTimer taskId) (b\<lparr>b_nextTask := Suc (b_nextTask b)\<rparr>)
      in messageRunner (of_runnerId offer) (TaskOfferAccept (of_offerId offer) taskId)
           (b1\<lparr>b_runnerAcceptRejects := set_add taskId (b_runnerAcceptRejects b1),
               b_accepts := obj_set taskId \<lparr>af_offer = offer, af_request = ref, af_stage = AwaitRunner,
                 af_runner = NoReply, af_requester = NoReply\<rparr> (b_accepts b1)\<rparr>))"

definition settle_request :: "(nat \<Rightarrow> string) \<Rightarrow> nat \<Rightarrow> broker \<Rightarrow> broker" where
  "settle_request nanoid ref b =
     (case obj_get (b_requests b) ref of
        None \<Rightarrow> b
      | Some rq \<Rightarrow>
          if rq_acceptInProgress rq then b
          else (case take_first (\<lambda>o'. of_taskType o' = rq_taskType rq) (b_offers b) of
                  None \<Rightarrow> b
                | Some (offer, rest) \<Rightarrow> acceptOffer nanoid offer ref
                    (change_request ref (\<lambda>rq. rq\<lparr>rq_acceptInProgress := True\<rparr>) (b\<lparr>b_offers := rest\<rparr>))))"

definition settleTasks :: "(nat \<Rightarrow> string) \<Rightarrow> int \<Rightarrow> broker \<Rightarrow> broker" where
  "settleTasks nanoid now b =
     (let b' = expireTasks now b in fold (settle_request nanoid) (b_pending b') b')"

definition taskRequested :: "(nat \<Rightarrow> string) \<Rightarrow> int \<Rightarrow> string \<Rightarrow> string \<Rightarrow> string \<Rightarrow> broker \<Rightarrow> broker" where
  "taskRequested nanoid now requesterId requestId taskType b =
     (let ref = b_nextRequest b;
          b1 = b\<lparr>b_requests := obj_set ref \<lparr>rq_requestId = requestId, rq_requesterId = requesterId, rq_taskType = taskType,
                 rq_timeout = None, rq_acceptInProgress = False\<rparr> (b_requests b), b_nextRequest := Suc ref\<rparr>;
          b2 = createRequestTimeout ref requestId b1
      in settleTasks nanoid now (b2\<lparr>b_pending := b_pending b2 @ [ref]\<rparr>))"

definition taskOffered :: "(nat \<Rightarrow> string) \<Rightarrow> int \<Rightarrow> task_offer \<Rightarrow> broker \<Rightarrow> broker" where
  "taskOffered nanoid now offer b = settleTasks nanoid now (b\<lparr>b_offers := b_offers b @ [offer]\<rparr>)"

subsection \<open>Replies of runners and requesters\<close>

text \<open>A promise that is settled stays as it is; a frame that went on is gone.\<close>

fun settle_reply :: "'a reply \<Rightarrow> 'a reply \<Rightarrow> 'a reply" where
  "settle_reply v NoReply = v"
| "settle_reply v (Accepts x) = Accepts x"
| "settle_reply v (Rejects r) = Rejects r"

definition change_frame :: "string \<Rightarrow> (accept_frame \<Rightarrow> accept_frame) \<Rightarrow> broker \<Rightarrow> broker" where
  "change_frame taskId f b =
     (case obj_get (b_accepts b) taskId of None \<Rightarrow> b | Some fr \<Rightarrow> b\<lparr>b_accepts := obj_set taskId (f fr) (b_accepts b)\<rparr>)"

definition runner_replies :: "string \<Rightarrow> unit reply \<Rightarrow> broker \<Rightarrow> broker" where
  "runner_replies taskId v b =
     (if taskId \<in> set (b_runnerAcceptRejects b)
      then (change_frame taskId (\<lambda>fr. fr\<lparr>af_runner := settle_reply v (af_runner fr)\<rparr>) b)
             \<lparr>b_runnerAcceptRejects := set_del taskId (b_runnerAcceptRejects b)\<rparr>
      else b)"

definition handleRunnerAccept :: "string \<Rightarrow> broker \<Rightarrow> broker" where
  "handleRunnerAccept taskId = runner_replies taskId (Accepts ())"

definition handleRunnerReject :: "string \<Rightarrow> string \<Rightarrow> broker \<Rightarrow> broker" where
  "handleRunnerReject taskId reason = runner_replies taskId (Rejects (TaskRejectError reason))"

definition handleRunnerDeferred :: "string \<Rightarrow> broker \<Rightarrow> broker" where
  "handleRunnerDeferred taskId = runner_replies taskId (Rejects TaskDeferredError)"

definition requester_replies :: "string \<Rightarrow> json reply \<Rightarrow> broker \<Rightarrow> broker" where
  "requester_replies taskId v b =
     (if taskId \<in> set (b_requesterAcceptRejects b)
      then (change_frame taskId (\<lambda>fr. fr\<lparr>af_requester := settle_reply v (af_requester fr)\<rparr>) b)
             \<lparr>b_requesterAcceptRejects := set_del taskId (b_requesterAcceptRejects b)\<rparr>
      else b)"

definition handleRequesterAccept :: "string \<Rightarrow> json \<Rightarrow> broker \<Rightarrow> broker" where
  "handleRequesterAccept taskId settings = requester_replies taskId (Accepts settings)"

definition handleRequesterReject :: "string \<Rightarrow> string \<Rightarrow> broker \<Rightarrow> broker" where
  "handleRequesterReject taskId reason = requester_replies taskId (Rejects (TaskRejectError reason))"

subsection \<open>Tasks\<close>

definition cancelTask :: "string \<Rightarrow> string \<Rightarrow> broker \<Rightarrow> broker" where
  "cancelTask taskId reason b =
     (case obj_get (b_tasks b) taskId of
        None \<Rightarrow> b
      | Some t \<Rightarrow> messageRunner (tk_runnerId t) (RunnerTaskCancel taskId reason) (b\<lparr>b_tasks := obj_del taskId (b_tasks b)\<rparr>))"

definition failTask :: "string \<Rightarrow> task_failure \<Rightarrow> broker \<Rightarrow> broker" where
  "failTask taskId error b =
     (case obj_get (b_tasks b) taskId of
        None \<Rightarrow> b
      | Some t \<Rightarrow> messageRequester (tk_requesterId t) (RequesterTaskError taskId error) (b\<lparr>b_tasks := obj_del taskId (b_tasks b)\<rparr>))"

text \<open>
  The handlers that end a task send the result first, wait until the callback of the requester has returned, and then
  forget the task: \<open>end_task\<close> is the part before the \<open>await\<close> and \<open>forget_task\<close> the part after it.
\<close>

definition end_task :: "string \<Rightarrow> to_requester \<Rightarrow> broker \<Rightarrow> broker" where
  "end_task taskId msg b =
     (case obj_get (b_tasks b) taskId of
        None \<Rightarrow> b
      | Some t \<Rightarrow>
          let b' = messageRequester (tk_requesterId t) msg (clear_timer (tk_timeout t) b)
          in b'\<lparr>b_ending := b_ending b' @ [tk_id t]\<rparr>)"

definition forget_task :: "string \<Rightarrow> broker \<Rightarrow> broker" where
  "forget_task taskId b =
     (if taskId \<in> set (b_ending b)
      then b\<lparr>b_tasks := obj_del taskId (b_tasks b), b_ending := remove1 taskId (b_ending b)\<rparr> else b)"

definition taskDoneHandler :: "string \<Rightarrow> json \<Rightarrow> broker \<Rightarrow> broker" where
  "taskDoneHandler taskId data = end_task taskId (RequesterTaskDone taskId data)"

definition taskErrorHandler :: "string \<Rightarrow> task_failure \<Rightarrow> broker \<Rightarrow> broker" where
  "taskErrorHandler taskId error = end_task taskId (RequesterTaskError taskId error)"

definition handleTaskTimeout :: "string \<Rightarrow> broker \<Rightarrow> broker" where
  "handleTaskTimeout taskId b =
     (case obj_get (b_tasks b) taskId of
        None \<Rightarrow> b
      | Some t \<Rightarrow> taskErrorHandler taskId TaskTimedOut
          (case b_mode b of
             Internal \<Rightarrow> send TimedOutDuringTask b
           | External \<Rightarrow> messageRunner (tk_runnerId t) (RunnerTaskCancel taskId ''Task execution timed out'') b))"

definition getRunnerOrFailTask :: "string \<Rightarrow> broker \<Rightarrow> (js_error + string) \<times> broker" where
  "getRunnerOrFailTask taskId b =
     (case obj_get (b_tasks b) taskId of
        None \<Rightarrow> (Inl (UnexpectedError ''Cannot find runner, failed to find task''), b)
      | Some t \<Rightarrow>
          (case obj_get (b_runners b) (tk_runnerId t) of
             None \<Rightarrow> (Inl (UnexpectedError ''Cannot find runner, failed to find runner''), failTask taskId RunnerMissing b)
           | Some r \<Rightarrow> (Inr (tr_id r), b)))"

definition sendTaskSettings :: "string \<Rightarrow> json \<Rightarrow> broker \<Rightarrow> js_error option \<times> broker" where
  "sendTaskSettings taskId settings b =
     (case getRunnerOrFailTask taskId b of
        (Inl e, b') \<Rightarrow> (Some e, b')
      | (Inr runnerId, b') \<Rightarrow>
          (case obj_get (b_tasks b') taskId of
             None \<Rightarrow> (None, b')
           | Some t \<Rightarrow>
               (case set_timer (TaskTimer taskId) b' of
                  (h, b'') \<Rightarrow> (None, messageRunner runnerId (RunnerTaskSettings taskId settings)
                    (b''\<lparr>b_tasks := obj_set taskId (t\<lparr>tk_timeout := Some h\<rparr>) (b_tasks b'')\<rparr>)))))"

subsection \<open>Going on with an accepted offer\<close>

definition drop_frame :: "string \<Rightarrow> broker \<Rightarrow> broker" where
  "drop_frame taskId b = b\<lparr>b_accepts := obj_del taskId (b_accepts b)\<rparr>"

definition runner_rejected :: "nat \<Rightarrow> reject_reason \<Rightarrow> broker \<Rightarrow> broker" where
  "runner_rejected ref reason b =
     (let b1 = change_request ref (\<lambda>rq. rq\<lparr>rq_acceptInProgress := False\<rparr>) b
      in case (reason, obj_get (b_requests b1) ref) of
           (TaskDeferredError, Some rq) \<Rightarrow>
             (let b2 = createRequestTimeout ref (rq_requestId rq) (clear_timer (rq_timeout rq) b1)
              in b2\<lparr>b_pending := b_pending b2 @ [ref]\<rparr>)
         | _ \<Rightarrow> b1)"

definition runner_accepted :: "string \<Rightarrow> accept_frame \<Rightarrow> task_request \<Rightarrow> broker \<Rightarrow> broker" where
  "runner_accepted taskId fr rq b =
     (let b1 = clear_timer (rq_timeout rq) b;
          b2 = b1\<lparr>b_tasks := obj_set taskId \<lparr>tk_id = taskId, tk_runnerId = of_runnerId (af_offer fr),
                 tk_requesterId = rq_requesterId rq, tk_taskType = of_taskType (af_offer fr), tk_timeout = None\<rparr> (b_tasks b1)\<rparr>
      in case take_first (has_id b2 (rq_requestId rq)) (b_pending b2) of
           None \<Rightarrow> drop_frame taskId b2
         | Some (_, rest) \<Rightarrow>
             (case set_timer (SettingsTimer taskId) (b2\<lparr>b_pending := rest\<rparr>) of
                (_, b3) \<Rightarrow> messageRequester (rq_requesterId rq) (TaskReady (rq_requestId rq) taskId)
                  (b3\<lparr>b_requesterAcceptRejects := set_add taskId (b_requesterAcceptRejects b3),
                      b_accepts := obj_set taskId (fr\<lparr>af_stage := AwaitRequester\<rparr>) (b_accepts b3)\<rparr>)))"

definition continue_accept :: "string \<Rightarrow> broker \<Rightarrow> broker" where
  "continue_accept taskId b =
     (case obj_get (b_accepts b) taskId of
        None \<Rightarrow> b
      | Some fr \<Rightarrow>
          (case af_stage fr of
             AwaitRunner \<Rightarrow>
               (case (af_runner fr, obj_get (b_requests b) (af_request fr)) of
                  (Accepts _, Some rq) \<Rightarrow> runner_accepted taskId fr rq b
                | (Rejects reason, _) \<Rightarrow> runner_rejected (af_request fr) reason (drop_frame taskId b)
                | _ \<Rightarrow> b)
           | AwaitRequester \<Rightarrow>
               (case af_requester fr of
                  NoReply \<Rightarrow> b
                | Accepts settings \<Rightarrow>
                    (case sendTaskSettings taskId settings (drop_frame taskId b) of
                       (None, b') \<Rightarrow> b'
                     | (Some e, b') \<Rightarrow> send (Unhandled e) (cancelTask taskId ''Unknown reason'' b'))
                | Rejects (TaskRejectError reason) \<Rightarrow> cancelTask taskId reason (drop_frame taskId b)
                | Rejects _ \<Rightarrow> send (Unhandled (PlainError ''Requester timed out''))
                    (cancelTask taskId ''Unknown reason'' (drop_frame taskId b)))))"

subsection \<open>Handlers of messages\<close>

definition registerRunner :: "task_runner \<Rightarrow> broker \<Rightarrow> broker" where
  "registerRunner runner b =
     send (ToRunner (tr_id runner) RunnerRegistered) (b\<lparr>b_runners := obj_set (tr_id runner) runner (b_runners b)\<rparr>)"

definition deregisterRunner :: "string \<Rightarrow> string \<Rightarrow> broker \<Rightarrow> broker" where
  "deregisterRunner runnerId error b =
     (let b1 = b\<lparr>b_runners := obj_del runnerId (b_runners b), b_offers := filter (\<lambda>o'. of_runnerId o' \<noteq> runnerId) (b_offers b)\<rparr>
      in fold (\<lambda>taskId b. handleRunnerReject taskId (''The Task Runner ('' @ runnerId @ '') has disconnected: '' @ error)
                 (failTask taskId (RunnerDisconnected error) b))
           (map fst (filter (\<lambda>(_, t). tk_runnerId t = runnerId) (b_tasks b1))) b1)"

definition registerRequester :: "string \<Rightarrow> broker \<Rightarrow> broker" where
  "registerRequester requesterId b = b\<lparr>b_requesters := set_add requesterId (b_requesters b)\<rparr>"

definition deregisterRequester :: "string \<Rightarrow> broker \<Rightarrow> broker" where
  "deregisterRequester requesterId b = b\<lparr>b_requesters := set_del requesterId (b_requesters b)\<rparr>"

text \<open>A message about a task that is passed on to its requester.\<close>

definition forward_to_requester :: "string \<Rightarrow> to_requester \<Rightarrow> broker \<Rightarrow> broker" where
  "forward_to_requester taskId msg b =
     (case obj_get (b_tasks b) taskId of None \<Rightarrow> b | Some t \<Rightarrow> messageRequester (tk_requesterId t) msg b)"

definition handleRpcRequest :: "string \<Rightarrow> string \<Rightarrow> string \<Rightarrow> json \<Rightarrow> broker \<Rightarrow> broker" where
  [simp]: "handleRpcRequest taskId callId name ps = forward_to_requester taskId (RequesterRpc taskId callId name ps)"

definition handleDataRequest :: "string \<Rightarrow> string \<Rightarrow> json \<Rightarrow> broker \<Rightarrow> broker" where
  [simp]: "handleDataRequest taskId requestId ps = forward_to_requester taskId (RequesterDataRequest taskId requestId ps)"

definition handleNodeTypesRequest :: "string \<Rightarrow> string \<Rightarrow> json \<Rightarrow> broker \<Rightarrow> broker" where
  [simp]: "handleNodeTypesRequest taskId requestId ps = forward_to_requester taskId (RequesterNodeTypesRequest taskId requestId ps)"

definition onRunnerMessage :: "(nat \<Rightarrow> string) \<Rightarrow> int \<Rightarrow> string \<Rightarrow> runner_message \<Rightarrow> broker \<Rightarrow> broker" where
  "onRunnerMessage nanoid now runnerId msg b =
     (if \<not> obj_has runnerId (b_runners b) then b
      else case msg of
        TaskAccepted taskId \<Rightarrow> handleRunnerAccept taskId b
      | TaskRejected taskId reason \<Rightarrow> handleRunnerReject taskId reason b
      | TaskDeferred taskId \<Rightarrow> handleRunnerDeferred taskId b
      | TaskOffer offerId taskType validFor \<Rightarrow>
          taskOffered nanoid now \<lparr>of_offerId = offerId, of_runnerId = runnerId, of_taskType = taskType, of_validFor = validFor,
            of_validUntil = (if validFor = -1 then 0 else now + validFor * 1000000)\<rparr> b
      | TaskDone taskId data \<Rightarrow> taskDoneHandler taskId data b
      | TaskError taskId error \<Rightarrow> taskErrorHandler taskId (RunnerError error) b
      | TaskDataRequest taskId requestId ps \<Rightarrow> handleDataRequest taskId requestId ps b
      | NodeTypesRequest taskId requestId ps \<Rightarrow> handleNodeTypesRequest taskId requestId ps b
      | Rpc taskId callId name ps \<Rightarrow> handleRpcRequest taskId callId name ps b
      | RunnerInfo \<Rightarrow> b)"

text \<open>The response goes to the runner that has the identifier of the requester.\<close>

definition handleResponse :: "string \<Rightarrow> string \<Rightarrow> json \<Rightarrow> broker \<Rightarrow> broker" where
  "handleResponse taskId requestId data b =
     (case obj_get (b_tasks b) taskId of
        None \<Rightarrow> b
      | Some t \<Rightarrow> messageRunner (tk_requesterId t) (RunnerDataResponse taskId requestId data) b)"

definition forward_to_runner :: "string \<Rightarrow> to_runner \<Rightarrow> broker \<Rightarrow> broker" where
  "forward_to_runner taskId msg b =
     (case getRunnerOrFailTask taskId b of
        (Inl e, b') \<Rightarrow> send (Unhandled e) b'
      | (Inr runnerId, b') \<Rightarrow> messageRunner runnerId msg b')"

definition handleRequesterRpcResponse :: "string \<Rightarrow> string \<Rightarrow> string \<Rightarrow> json \<Rightarrow> broker \<Rightarrow> broker" where
  [simp]: "handleRequesterRpcResponse taskId callId status data = forward_to_runner taskId (RunnerRpcResponse taskId callId status data)"

definition handleRequesterDataResponse :: "string \<Rightarrow> string \<Rightarrow> json \<Rightarrow> broker \<Rightarrow> broker" where
  [simp]: "handleRequesterDataResponse taskId requestId data = forward_to_runner taskId (RunnerDataResponse taskId requestId data)"

definition handleRequesterNodeTypesResponse :: "string \<Rightarrow> string \<Rightarrow> json \<Rightarrow> broker \<Rightarrow> broker" where
  [simp]: "handleRequesterNodeTypesResponse taskId requestId nodeTypes = forward_to_runner taskId (RunnerNodeTypes taskId requestId nodeTypes)"

definition onRequesterMessage :: "(nat \<Rightarrow> string) \<Rightarrow> int \<Rightarrow> string \<Rightarrow> requester_message \<Rightarrow> broker \<Rightarrow> broker" where
  "onRequesterMessage nanoid now requesterId msg b =
     (case msg of
        TaskSettings taskId settings \<Rightarrow> handleRequesterAccept taskId settings b
      | TaskCancel taskId reason \<Rightarrow> cancelTask taskId reason b
      | TaskRequest requestId taskType \<Rightarrow> taskRequested nanoid now requesterId requestId taskType b
      | TaskDataResponse taskId requestId data \<Rightarrow> handleRequesterDataResponse taskId requestId data b
      | NodeTypesResponse taskId requestId nodeTypes \<Rightarrow> handleRequesterNodeTypesResponse taskId requestId nodeTypes b
      | RpcResponse taskId callId status data \<Rightarrow> handleRequesterRpcResponse taskId callId status data b)"

subsection \<open>Timers\<close>

definition timer_fires :: "nat \<Rightarrow> broker \<Rightarrow> broker" where
  "timer_fires h b =
     (case obj_get (b_timers b) h of
        None \<Rightarrow> b
      | Some t \<Rightarrow>
          let b' = b\<lparr>b_timers := obj_del h (b_timers b)\<rparr>
          in case t of
               RequestTimer requestId \<Rightarrow> handleRequestTimeout requestId b'
             | TaskTimer taskId \<Rightarrow> handleTaskTimeout taskId b'
             | AcceptTimer taskId \<Rightarrow>
                 change_frame taskId (\<lambda>fr. fr\<lparr>af_runner := settle_reply (Rejects AcceptTimeoutError) (af_runner fr)\<rparr>) b'
             | SettingsTimer taskId \<Rightarrow>
                 change_frame taskId (\<lambda>fr. fr\<lparr>af_requester := settle_reply (Rejects RequesterTimedOut) (af_requester fr)\<rparr>) b')"

subsection \<open>The broker as a machine\<close>

datatype broker_event =
    RegisterRunner task_runner
  | DeregisterRunner string string
  | RegisterRequester string
  | DeregisterRequester string
  | FromRunner int string runner_message
  | FromRequester int string requester_message
  | TimerFires nat
  | Continues string
  | Forgets string

fun broker_on :: "(nat \<Rightarrow> string) \<Rightarrow> broker_event \<Rightarrow> broker \<Rightarrow> broker" where
  "broker_on nanoid (RegisterRunner runner) b = registerRunner runner b"
| "broker_on nanoid (DeregisterRunner runnerId error) b = deregisterRunner runnerId error b"
| "broker_on nanoid (RegisterRequester requesterId) b = registerRequester requesterId b"
| "broker_on nanoid (DeregisterRequester requesterId) b = deregisterRequester requesterId b"
| "broker_on nanoid (FromRunner now runnerId msg) b = onRunnerMessage nanoid now runnerId msg b"
| "broker_on nanoid (FromRequester now requesterId msg) b = onRequesterMessage nanoid now requesterId msg b"
| "broker_on nanoid (TimerFires h) b = timer_fires h b"
| "broker_on nanoid (Continues taskId) b = continue_accept taskId b"
| "broker_on nanoid (Forgets taskId) b = forget_task taskId b"

definition broker_run :: "(nat \<Rightarrow> string) \<Rightarrow> broker_event list \<Rightarrow> broker \<Rightarrow> broker" where
  "broker_run nanoid es b = fold (broker_on nanoid) es b"

end
