(* ===== verification/TaskBrokerFacts.thy ===== *)
theory TaskBrokerFacts
  imports TaskBroker
begin

section \<open>What the task broker promises\<close>

text \<open>
  Whatever messages arrive, timers fire and calls go on in whatever order: an offer is accepted at
  most once, a request is made ready at most once, and the end of a task is reported at most once.
  Each is the conservation of a token: an operation moves the token of an offer, a request or
  a task on, and only its arrival makes a new one.
\<close>

subsection \<open>The token of a task\<close>

definition is_end :: "string \<Rightarrow> broker_output \<Rightarrow> bool" where
  "is_end t msg = (case msg of
     ToRequester q (RequesterTaskDone t' d) \<Rightarrow> t' = t
   | ToRequester q (RequesterTaskError t' e) \<Rightarrow> t' = t
   | _ \<Rightarrow> False)"

definition ends :: "string \<Rightarrow> broker \<Rightarrow> nat" where
  "ends t b = length (filter (is_end t) (b_sent b))"

definition awaits_runner :: "string \<Rightarrow> broker \<Rightarrow> bool" where
  "awaits_runner t b \<longleftrightarrow> (\<exists>fr. obj_get (b_accepts b) t = Some fr \<and> af_stage fr = AwaitRunner)"

definition has_task :: "string \<Rightarrow> broker \<Rightarrow> bool" where
  "has_task t b \<longleftrightarrow> obj_get (b_tasks b) t \<noteq> None"

definition task_token :: "string \<Rightarrow> broker \<Rightarrow> nat" where
  "task_token t b = ends t b + (if has_task t b then 1 else 0) + (if awaits_runner t b then 1 else 0)"

definition named :: "(nat \<Rightarrow> string) \<Rightarrow> string \<Rightarrow> broker \<Rightarrow> nat" where
  "named nanoid t b = length (filter (\<lambda>i. nanoid i = t) [0..<b_nextTask b])"

definition tasks_keyed :: "broker \<Rightarrow> bool" where
  "tasks_keyed b \<longleftrightarrow> (\<forall>t x. obj_get (b_tasks b) t = Some x \<longrightarrow> tk_id x = t)"

definition moves_tasks :: "(nat \<Rightarrow> string) \<Rightarrow> broker \<Rightarrow> broker \<Rightarrow> bool" where
  "moves_tasks nanoid b b' \<longleftrightarrow> (tasks_keyed b \<longrightarrow> tasks_keyed b'
     \<and> (\<forall>t. task_token t b' + named nanoid t b \<le> task_token t b + named nanoid t b'))"

named_theorems moves_intros \<open>operations that move the tokens of tasks on\<close>

lemma moves_refl [moves_intros]: "moves_tasks nanoid b b"
  by (simp add: moves_tasks_def)

lemma moves_trans:
  assumes "moves_tasks nanoid b b'" "moves_tasks nanoid b' b''"
  shows "moves_tasks nanoid b b''"
  unfolding moves_tasks_def
proof (intro impI conjI allI)
  assume k: "tasks_keyed b"
  with assms(1) have k': "tasks_keyed b'" by (simp add: moves_tasks_def)
  with assms(2) show "tasks_keyed b''" by (simp add: moves_tasks_def)
  fix t
  have "task_token t b' + named nanoid t b \<le> task_token t b + named nanoid t b'"
    "task_token t b'' + named nanoid t b' \<le> task_token t b' + named nanoid t b''"
    using assms k k' by (simp_all add: moves_tasks_def)
  then show "task_token t b'' + named nanoid t b \<le> task_token t b + named nanoid t b''" by linarith
qed

text \<open>An operation that leaves everything the tokens depend on as it is.\<close>

definition same_tasks :: "broker \<Rightarrow> broker \<Rightarrow> bool" where
  "same_tasks b b' \<longleftrightarrow> b_tasks b' = b_tasks b \<and> (\<forall>t. ends t b' = ends t b) \<and> b_nextTask b' = b_nextTask b
     \<and> (\<forall>t. awaits_runner t b' = awaits_runner t b)"

lemma moves_same [moves_intros]: "same_tasks b b' \<Longrightarrow> moves_tasks nanoid b b'"
  by (simp add: same_tasks_def moves_tasks_def tasks_keyed_def task_token_def has_task_def named_def)

lemma same_tasks_refl: "same_tasks b b"
  by (simp add: same_tasks_def)

lemma same_tasks_trans: "same_tasks b b' \<Longrightarrow> same_tasks b' b'' \<Longrightarrow> same_tasks b b''"
  by (simp add: same_tasks_def)

lemma same_tasks_fields:
  "same_tasks b (b\<lparr>b_timers := ts\<rparr>)" "same_tasks b (b\<lparr>b_requests := rs\<rparr>)" "same_tasks b (b\<lparr>b_pending := p\<rparr>)"
  "same_tasks b (b\<lparr>b_offers := os\<rparr>)" "same_tasks b (b\<lparr>b_runners := r\<rparr>)" "same_tasks b (b\<lparr>b_requesters := q\<rparr>)"
  "same_tasks b (b\<lparr>b_runnerAcceptRejects := ar\<rparr>)" "same_tasks b (b\<lparr>b_requesterAcceptRejects := aq\<rparr>)"
  "same_tasks b (b\<lparr>b_timers := ts, b_nextTimer := n\<rparr>)" "same_tasks b (b\<lparr>b_requests := rs, b_nextRequest := m\<rparr>)"
  "same_tasks b (b\<lparr>b_runners := r, b_offers := os\<rparr>)" "same_tasks b (b\<lparr>b_ending := en\<rparr>)"
  by (simp_all add: same_tasks_def ends_def awaits_runner_def)

lemma same_tasks_send: "(\<And>t. \<not> is_end t msg) \<Longrightarrow> same_tasks b (send msg b)"
  by (simp add: same_tasks_def ends_def awaits_runner_def send_def)

lemma is_end_simps [simp]:
  "\<not> is_end t (ToRunner r m)" "\<not> is_end t TimedOutDuringTask" "\<not> is_end t (Unhandled err)"
  "\<not> is_end t (ToRequester q (TaskReady i t'))" "\<not> is_end t (ToRequester q (RequestExpired i))"
  "\<not> is_end t (ToRequester q (RequesterDataRequest t' i p))" "\<not> is_end t (ToRequester q (RequesterNodeTypesRequest t' i p))"
  "\<not> is_end t (ToRequester q (RequesterRpc t' c n p))"
  "is_end t (ToRequester q (RequesterTaskDone t' d)) \<longleftrightarrow> t' = t" "is_end t (ToRequester q (RequesterTaskError t' e)) \<longleftrightarrow> t' = t"
  by (simp_all add: is_end_def)

lemma same_tasks_messageRunner: "same_tasks b (messageRunner r m b)"
  by (simp add: messageRunner_def same_tasks_send same_tasks_refl)

lemma same_tasks_messageRequester: "(\<And>t. \<not> is_end t (ToRequester q m)) \<Longrightarrow> same_tasks b (messageRequester q m b)"
  by (simp add: messageRequester_def same_tasks_send same_tasks_refl)

lemma same_tasks_set_timer: "same_tasks b (snd (set_timer t b))"
  by (simp add: set_timer_def same_tasks_fields)

lemma same_tasks_clear_timer: "same_tasks b (clear_timer h b)"
  by (simp add: clear_timer_def same_tasks_fields same_tasks_refl split: option.split)

lemma same_tasks_change_request: "same_tasks b (change_request ref f b)"
  by (simp add: change_request_def same_tasks_fields same_tasks_refl split: option.split)

lemma same_tasks_createRequestTimeout: "same_tasks b (createRequestTimeout ref i b)"
  unfolding createRequestTimeout_def case_prod_unfold
  by (rule same_tasks_trans [OF same_tasks_set_timer same_tasks_change_request])

lemma same_tasks_change_frame:
  assumes "\<And>fr. af_stage (f fr) = af_stage fr"
  shows "same_tasks b (change_frame t f b)"
  using assms by (auto simp: same_tasks_def change_frame_def ends_def awaits_runner_def js_simps split: option.split)

text \<open>No operation but the handlers that end a task touches the list of tasks that are ending.\<close>

named_theorems ending_simps \<open>operations that end no task\<close>

lemma ending_parts [ending_simps]:
  "b_ending (send m b) = b_ending b" "b_ending (messageRunner r m1 b) = b_ending b" "b_ending (messageRequester q m2 b) = b_ending b"
  "b_ending (snd (set_timer t b)) = b_ending b" "b_ending (clear_timer h b) = b_ending b"
  "b_ending (change_request ref f b) = b_ending b" "b_ending (createRequestTimeout ref i b) = b_ending b"
  "b_ending (change_frame t' g b) = b_ending b" "b_ending (drop_frame t' b) = b_ending b" "b_ending (expireTasks now b) = b_ending b"
  by (simp_all add: send_def messageRunner_def messageRequester_def set_timer_def clear_timer_def change_request_def
      createRequestTimeout_def change_frame_def drop_frame_def expireTasks_def split: option.split)

lemma ending_tasks [ending_simps]:
  "b_ending (handleRequestTimeout i b) = b_ending b" "b_ending (cancelTask t why b) = b_ending b" "b_ending (failTask t e b) = b_ending b"
  "b_ending (runner_replies t v b) = b_ending b" "b_ending (requester_replies t w b) = b_ending b"
  "b_ending (forward_to_requester t m b) = b_ending b" "b_ending (acceptOffer nanoid x ref b) = b_ending b"
  by (simp_all add: handleRequestTimeout_def cancelTask_def failTask_def runner_replies_def requester_replies_def
      forward_to_requester_def acceptOffer_def Let_def case_prod_unfold ending_parts split: option.split)

lemma ending_fold: "(\<And>x b. b_ending (f x b) = b_ending b) \<Longrightarrow> b_ending (fold f xs b) = b_ending b"
  by (induction xs arbitrary: b) auto

lemma ending_matching [ending_simps]:
  "b_ending (settle_request nanoid ref b) = b_ending b" "b_ending (settleTasks nanoid now b) = b_ending b"
  "b_ending (taskOffered nanoid now x b) = b_ending b" "b_ending (taskRequested nanoid now q i ty b) = b_ending b"
proof -
  show settle: "b_ending (settle_request nanoid ref b) = b_ending b" for ref b
    by (simp add: settle_request_def ending_simps split: option.split)
  show all: "b_ending (settleTasks nanoid now b) = b_ending b" for b
    by (simp add: settleTasks_def Let_def ending_fold [OF settle] ending_simps)
  show "b_ending (taskOffered nanoid now x b) = b_ending b" "b_ending (taskRequested nanoid now q i ty b) = b_ending b"
    by (simp_all add: taskOffered_def taskRequested_def Let_def all ending_simps)
qed

lemma ending_getRunnerOrFailTask [ending_simps]: "b_ending (snd (getRunnerOrFailTask t b)) = b_ending b"
  by (simp add: getRunnerOrFailTask_def ending_simps split: option.split)

lemma ending_sendTaskSettings [ending_simps]: "b_ending (snd (sendTaskSettings t s b)) = b_ending b"
  using ending_getRunnerOrFailTask [of t b]
  by (cases "getRunnerOrFailTask t b")
    (auto simp: sendTaskSettings_def case_prod_unfold ending_simps split: sum.split option.split)

lemma ending_forward_to_runner [ending_simps]: "b_ending (forward_to_runner t m b) = b_ending b"
  using ending_getRunnerOrFailTask [of t b]
  by (cases "getRunnerOrFailTask t b") (simp add: forward_to_runner_def ending_simps split: sum.split)

lemma ending_replies [ending_simps]:
  "b_ending (runner_rejected ref reason b) = b_ending b" "b_ending (runner_accepted t fr rq b) = b_ending b"
  by (simp_all add: runner_rejected_def runner_accepted_def Let_def case_prod_unfold ending_simps split: reject_reason.split option.split)

lemma ending_continue_accept [ending_simps]: "b_ending (continue_accept t b) = b_ending b"
proof -
  have "b_ending (case sendTaskSettings t s (drop_frame t b) of
      (None, b') \<Rightarrow> b' | (Some e, b') \<Rightarrow> send (Unhandled e) (cancelTask t why b')) = b_ending b" for s why
    using ending_sendTaskSettings [of t s "drop_frame t b"]
    by (cases "sendTaskSettings t s (drop_frame t b)") (simp add: ending_simps split: option.split)
  then show ?thesis
    by (simp add: continue_accept_def ending_simps split: option.split accept_stage.split reply.split reject_reason.split)
qed

lemma ending_deregisterRunner [ending_simps]: "b_ending (deregisterRunner r e b) = b_ending b"
  unfolding deregisterRunner_def Let_def handleRunnerReject_def by (subst ending_fold) (simp_all add: ending_simps)

lemmas same_tasks_parts = same_tasks_refl same_tasks_fields same_tasks_messageRunner same_tasks_messageRequester
  same_tasks_set_timer same_tasks_clear_timer same_tasks_change_request same_tasks_createRequestTimeout same_tasks_change_frame

lemma same_tasks_handleRequestTimeout: "same_tasks b (handleRequestTimeout i b)"
  unfolding handleRequestTimeout_def
  by (auto split: option.splits intro!: same_tasks_refl same_tasks_trans [OF _ same_tasks_messageRequester]
      same_tasks_trans [OF same_tasks_fields(3) same_tasks_clear_timer])

lemma same_tasks_expireTasks: "same_tasks b (expireTasks now b)"
  by (simp add: expireTasks_def same_tasks_fields)

lemma same_tasks_runner_replies: "same_tasks b (runner_replies t v b)"
  by (auto simp: runner_replies_def same_tasks_refl intro!: same_tasks_trans [OF same_tasks_change_frame same_tasks_fields(7)])

lemma same_tasks_requester_replies: "same_tasks b (requester_replies t v b)"
  by (auto simp: requester_replies_def same_tasks_refl intro!: same_tasks_trans [OF same_tasks_change_frame same_tasks_fields(8)])

lemma move_one: "x \<le> y + d \<Longrightarrow> n' = n + d \<Longrightarrow> x + n \<le> y + (n' :: nat)"
  by simp

lemma moves_acceptOffer [moves_intros]: "moves_tasks nanoid b (acceptOffer nanoid offer ref b)"
proof -
  have tok: "task_token t (acceptOffer nanoid offer ref b) \<le> task_token t b + (if nanoid (b_nextTask b) = t then 1 else 0)" for t
    by (auto simp: task_token_def ends_def has_task_def awaits_runner_def acceptOffer_def set_timer_def Let_def messageRunner_def
        send_def js_simps)
  have new: "named nanoid t (acceptOffer nanoid offer ref b) = named nanoid t b + (if nanoid (b_nextTask b) = t then 1 else 0)" for t
    by (simp add: named_def acceptOffer_def set_timer_def Let_def messageRunner_def send_def)
  have "b_tasks (acceptOffer nanoid offer ref b) = b_tasks b"
    by (simp add: acceptOffer_def set_timer_def Let_def messageRunner_def send_def)
  with move_one [OF tok new] show ?thesis by (simp add: moves_tasks_def tasks_keyed_def)
qed

lemma moves_settle_request [moves_intros]: "moves_tasks nanoid b (settle_request nanoid ref b)"
proof -
  have "same_tasks b (change_request ref f (b\<lparr>b_offers := rest\<rparr>))" for f rest
    by (rule same_tasks_trans [OF same_tasks_fields(4) same_tasks_change_request])
  from moves_trans [OF moves_same [OF this] moves_acceptOffer] show ?thesis
    by (simp add: settle_request_def moves_refl split: option.split)
qed

lemma moves_fold: "(\<And>x b. moves_tasks nanoid b (f x b)) \<Longrightarrow> moves_tasks nanoid b (fold f xs b)"
  by (induction xs arbitrary: b) (auto intro: moves_refl moves_trans)

lemma moves_settleTasks [moves_intros]: "moves_tasks nanoid b (settleTasks nanoid now b)"
  unfolding settleTasks_def Let_def
  by (rule moves_trans [OF moves_same [OF same_tasks_expireTasks]]) (rule moves_fold, rule moves_settle_request)

lemma moves_taskRequested [moves_intros]: "moves_tasks nanoid b (taskRequested nanoid now q i ty b)"
  unfolding taskRequested_def Let_def
  by (rule moves_trans [OF moves_same moves_settleTasks])
    (rule same_tasks_trans [OF same_tasks_trans [OF same_tasks_fields(10) same_tasks_createRequestTimeout] same_tasks_fields(3)])

lemma moves_taskOffered [moves_intros]: "moves_tasks nanoid b (taskOffered nanoid now offer b)"
  unfolding taskOffered_def by (rule moves_trans [OF moves_same moves_settleTasks]) (rule same_tasks_fields)

text \<open>Forgetting a task and reporting its end, in either order.\<close>

lemma moves_end [moves_intros]:
  assumes "has_task t b" "is_end t msg" "\<And>t'. t' \<noteq> t \<Longrightarrow> \<not> is_end t' msg"
  shows "moves_tasks nanoid b (send msg (b\<lparr>b_tasks := obj_del t (b_tasks b)\<rparr>))"
  using assms by (auto simp: moves_tasks_def tasks_keyed_def task_token_def ends_def has_task_def awaits_runner_def
      named_def send_def js_simps)

lemma moves_forget [moves_intros]: "moves_tasks nanoid b (b\<lparr>b_tasks := obj_del t (b_tasks b)\<rparr>)"
  by (auto simp: moves_tasks_def tasks_keyed_def task_token_def ends_def has_task_def awaits_runner_def named_def js_simps)

lemma moves_cancelTask [moves_intros]: "moves_tasks nanoid b (cancelTask t reason b)"
  unfolding cancelTask_def
  by (auto split: option.split intro!: moves_refl moves_trans [OF moves_forget moves_same] same_tasks_messageRunner)

lemma moves_failTask [moves_intros]: "moves_tasks nanoid b (failTask t e b)"
  by (auto simp: failTask_def messageRequester_def has_task_def split: option.split intro!: moves_refl moves_end moves_forget)

text \<open>
  A handler that ends a task has moved its token already when it waits for the requester: the tasks that are ending are
  taken as forgotten.
\<close>

definition settle_ends :: "broker \<Rightarrow> broker" where
  "settle_ends b = b\<lparr>b_tasks := filter (\<lambda>p. fst p \<notin> set (b_ending b)) (b_tasks b), b_ending := []\<rparr>"

lemma settle_none: "b_ending b = [] \<Longrightarrow> settle_ends b = b"
  by (cases b) (simp add: settle_ends_def)

lemma obj_get_settled: "obj_get (filter (\<lambda>p. fst p \<notin> K) o') k = (if k \<in> K then None else obj_get o' k)"
  by (induction o') auto

lemma settle_ends_token:
  "ends t (settle_ends b) = ends t b" "awaits_runner t (settle_ends b) = awaits_runner t b"
  "named nanoid t (settle_ends b) = named nanoid t b" "has_task t (settle_ends b) \<longleftrightarrow> has_task t b \<and> t \<notin> set (b_ending b)"
  by (simp_all add: settle_ends_def ends_def awaits_runner_def named_def has_task_def obj_get_settled)

lemma moves_settled: "moves_tasks nanoid b b' \<Longrightarrow> b_ending b' = [] \<Longrightarrow> moves_tasks nanoid b (settle_ends b')"
  by (simp add: settle_none)

lemma moves_end_task:
  assumes "\<And>q t'. is_end t' (ToRequester q msg) \<longleftrightarrow> t' = t" "b_ending b = []"
  shows "moves_tasks nanoid b (settle_ends (end_task t msg b))"
proof (cases "obj_get (b_tasks b) t")
  case (Some x)
  let ?b = "clear_timer (tk_timeout x) b"
  have tasks: "b_tasks ?b = b_tasks b" using same_tasks_clear_timer [of b] by (simp add: same_tasks_def)
  let ?c = "if tk_requesterId x \<in> set (b_requesters ?b)
    then send (ToRequester (tk_requesterId x) msg) (?b\<lparr>b_tasks := obj_del t (b_tasks ?b)\<rparr>)
    else ?b\<lparr>b_tasks := obj_del t (b_tasks ?b)\<rparr>"
  have "moves_tasks nanoid ?b (settle_ends (end_task t msg b))" if "tk_id x = t"
  proof -
    have "settle_ends (end_task t msg b) = ?c\<lparr>b_ending := []\<rparr>"
      using Some that assms(2)
      by (simp add: end_task_def Let_def messageRequester_def send_def settle_ends_def ending_parts obj_del_def)
    moreover have "moves_tasks nanoid ?b (send (ToRequester (tk_requesterId x) msg) (?b\<lparr>b_tasks := obj_del t (b_tasks ?b)\<rparr>))"
      using Some tasks assms(1) by (intro moves_end) (auto simp: has_task_def)
    then have "moves_tasks nanoid ?b ?c" using moves_forget [of nanoid ?b t] by simp
    ultimately show ?thesis using moves_trans [OF _ moves_same [OF same_tasks_fields(12)]] by simp
  qed
  then have "moves_tasks nanoid b (settle_ends (end_task t msg b))" if "tk_id x = t"
    using that moves_trans [OF moves_same [OF same_tasks_clear_timer]] by blast
  then show ?thesis using Some unfolding moves_tasks_def tasks_keyed_def by blast
qed (use assms(2) in \<open>simp add: end_task_def moves_refl settle_none\<close>)

lemma moves_taskDoneHandler: "b_ending b = [] \<Longrightarrow> moves_tasks nanoid b (settle_ends (taskDoneHandler t d b))"
  unfolding taskDoneHandler_def by (rule moves_end_task) auto

lemma moves_taskErrorHandler: "b_ending b = [] \<Longrightarrow> moves_tasks nanoid b (settle_ends (taskErrorHandler t e b))"
  unfolding taskErrorHandler_def by (rule moves_end_task) auto

lemma moves_handleTaskTimeout:
  assumes "b_ending b = []"
  shows "moves_tasks nanoid b (settle_ends (handleTaskTimeout t b))"
proof -
  have error: "moves_tasks nanoid b (settle_ends (taskErrorHandler t e b'))" if "same_tasks b b'" "b_ending b' = b_ending b" for e b'
    using moves_trans [OF moves_same [OF that(1)] moves_taskErrorHandler] that(2) assms by simp
  then show ?thesis using assms unfolding handleTaskTimeout_def
    by (simp add: settle_none moves_refl error same_tasks_send same_tasks_messageRunner ending_simps split: option.split runner_mode.split)
qed

lemma moves_getRunnerOrFailTask [moves_intros]: "moves_tasks nanoid b (snd (getRunnerOrFailTask t b))"
  by (auto simp: getRunnerOrFailTask_def split: option.split intro: moves_refl moves_failTask)


lemma moves_sendTaskSettings [moves_intros]: "moves_tasks nanoid b (snd (sendTaskSettings t settings b))"
proof -
  have timeout: "moves_tasks nanoid b (b\<lparr>b_tasks := obj_set t (x\<lparr>tk_timeout := h\<rparr>) (b_tasks b)\<rparr>)"
    if "obj_get (b_tasks b) t = Some x" for b x h
    using that by (auto simp: moves_tasks_def tasks_keyed_def task_token_def ends_def has_task_def awaits_runner_def named_def js_simps)
  show ?thesis
  proof (cases "getRunnerOrFailTask t b")
    case (Pair r b')
    have b': "moves_tasks nanoid b b'" using moves_getRunnerOrFailTask [of nanoid b t] Pair by simp
    show ?thesis
    proof (cases "\<exists>x i. r = Inr i \<and> obj_get (b_tasks b') t = Some x")
      case False
      then show ?thesis using Pair b' by (auto simp: sendTaskSettings_def split: sum.split option.split)
    next
      case True
      then obtain x i where x: "r = Inr i" "obj_get (b_tasks b') t = Some x" by blast
      obtain h b'' where tm: "set_timer (TaskTimer t) b' = (h, b'')" by (cases "set_timer (TaskTimer t) b'")
      have same: "same_tasks b' b''" using same_tasks_set_timer [of b' "TaskTimer t"] tm by simp
      then have "obj_get (b_tasks b'') t = Some x" using x by (simp add: same_tasks_def)
      note moves_trans [OF moves_trans [OF b' moves_same [OF same]] timeout [OF this]]
      from moves_trans [OF this moves_same [OF same_tasks_messageRunner]] show ?thesis
        using Pair x tm by (simp add: sendTaskSettings_def)
    qed
  qed
qed

text \<open>A frame that is dropped keeps no token; the token of one that waits for its requester is with its task.\<close>

lemma moves_drop_frame [moves_intros]: "moves_tasks nanoid b (drop_frame t b)"
  by (auto simp: moves_tasks_def tasks_keyed_def task_token_def ends_def has_task_def awaits_runner_def named_def drop_frame_def js_simps)

lemma moves_runner_rejected [moves_intros]: "moves_tasks nanoid b (runner_rejected ref reason b)"
proof -
  have "same_tasks b (let b2 = createRequestTimeout ref i (clear_timer h (change_request ref f b)) in b2\<lparr>b_pending := b_pending b2 @ [ref]\<rparr>)"
    for f h i
    unfolding Let_def
    by (rule same_tasks_trans [OF same_tasks_trans [OF same_tasks_trans [OF same_tasks_change_request same_tasks_clear_timer]
        same_tasks_createRequestTimeout] same_tasks_fields(3)])
  then show ?thesis
    by (auto simp: runner_rejected_def Let_def intro: moves_same same_tasks_change_request split: reject_reason.split option.split)
qed

lemma moves_runner_accepted:
  assumes "obj_get (b_accepts b) t = Some fr" "af_stage fr = AwaitRunner"
  shows "moves_tasks nanoid b (runner_accepted t fr rq b)"
proof -
  define b1 where "b1 = clear_timer (rq_timeout rq) b"
  define x where "x = \<lparr>tk_id = t, tk_runnerId = of_runnerId (af_offer fr), tk_requesterId = rq_requesterId rq,
    tk_taskType = of_taskType (af_offer fr), tk_timeout = None\<rparr>"
  define b2 where "b2 = b1\<lparr>b_tasks := obj_set t x (b_tasks b1)\<rparr>"
  have b1: "same_tasks b b1" unfolding b1_def by (rule same_tasks_clear_timer)
  have accepts: "b_accepts b2 = b_accepts b" by (simp add: b2_def b1_def clear_timer_def split: option.split)
  then have aw: "awaits_runner t' b2 = awaits_runner t' b" for t' by (simp add: awaits_runner_def)
  have step: "moves_tasks nanoid b (b3\<lparr>b_accepts := as\<rparr>)"
    if "same_tasks b2 b3" "\<And>t'. t' \<noteq> t \<Longrightarrow> obj_get as t' = obj_get (b_accepts b) t'"
      "\<And>y. obj_get as t = Some y \<Longrightarrow> af_stage y = AwaitRequester" for b3 as
  proof -
    let ?b = "b3\<lparr>b_accepts := as\<rparr>"
    have fields: "b_tasks ?b = obj_set t x (b_tasks b)" "\<And>t'. ends t' ?b = ends t' b" "b_nextTask ?b = b_nextTask b"
      using that(1) b1 by (simp_all add: same_tasks_def b2_def ends_def)
    have "awaits_runner t b" using assms by (simp add: awaits_runner_def)
    moreover have "\<not> awaits_runner t ?b" using that(3) by (auto simp: awaits_runner_def)
    moreover have "awaits_runner t' ?b = awaits_runner t' b" if "t' \<noteq> t" for t'
      using \<open>\<And>t'. t' \<noteq> t \<Longrightarrow> obj_get as t' = obj_get (b_accepts b) t'\<close> [OF that] by (simp add: awaits_runner_def)
    ultimately have "task_token t' ?b \<le> task_token t' b" for t'
      using fields by (cases "t' = t") (auto simp: task_token_def has_task_def js_simps)
    then show ?thesis using fields by (auto simp: moves_tasks_def tasks_keyed_def named_def js_simps x_def)
  qed
  show ?thesis
  proof (cases "take_first (has_id b2 (rq_requestId rq)) (b_pending b2)")
    case None
    have "moves_tasks nanoid b (b2\<lparr>b_accepts := obj_del t (b_accepts b)\<rparr>)"
      by (rule step [OF same_tasks_refl]) (auto simp: js_simps)
    then show ?thesis using None accepts
      by (simp add: runner_accepted_def Let_def drop_frame_def b2_def b1_def x_def)
  next
    case (Some p)
    obtain ref rest where p: "p = (ref, rest)" by (cases p)
    obtain h b3 where tm: "set_timer (SettingsTimer t) (b2\<lparr>b_pending := rest\<rparr>) = (h, b3)"
      by (cases "set_timer (SettingsTimer t) (b2\<lparr>b_pending := rest\<rparr>)")
    have b3: "same_tasks b2 b3" "b_accepts b3 = b_accepts b"
      using same_tasks_trans [OF same_tasks_fields(3) [of b2 rest] same_tasks_set_timer [of _ "SettingsTimer t"]] tm accepts
      by (auto simp: set_timer_def)
    let ?b4 = "b3\<lparr>b_requesterAcceptRejects := set_add t (b_requesterAcceptRejects b3)\<rparr>"
    have "moves_tasks nanoid b (?b4\<lparr>b_accepts := obj_set t (fr\<lparr>af_stage := AwaitRequester\<rparr>) (b_accepts b)\<rparr>)"
      by (rule step [OF same_tasks_trans [OF b3(1) same_tasks_fields(8)]]) (auto simp: js_simps)
    from moves_trans [OF this moves_same [OF same_tasks_messageRequester]] show ?thesis
      using Some p tm b3(2) by (simp add: runner_accepted_def Let_def b2_def b1_def x_def)
  qed
qed

lemma moves_continue_accept [moves_intros]: "moves_tasks nanoid b (continue_accept t b)"
proof (cases "obj_get (b_accepts b) t")
  case (Some fr)
  show ?thesis
  proof (cases "af_stage fr")
    case AwaitRunner
    then show ?thesis using Some moves_runner_accepted [OF Some AwaitRunner]
      by (auto simp: continue_accept_def intro: moves_refl moves_trans [OF moves_drop_frame moves_runner_rejected]
          split: reply.split option.split)
  next
    case AwaitRequester
    have send: "moves_tasks nanoid b (snd (sendTaskSettings t settings (drop_frame t b)))" for settings
      by (rule moves_trans [OF moves_drop_frame moves_sendTaskSettings])
    have cancel: "moves_tasks nanoid b' (send (Unhandled e) (cancelTask t r b'))" for b' e r
      by (rule moves_trans [OF moves_cancelTask moves_same], rule same_tasks_send) simp
    have "moves_tasks nanoid b (case sendTaskSettings t settings (drop_frame t b) of
        (None, b') \<Rightarrow> b' | (Some e, b') \<Rightarrow> send (Unhandled e) (cancelTask t ''Unknown reason'' b'))" for settings
      using send [of settings] by (cases "sendTaskSettings t settings (drop_frame t b)")
        (auto intro: moves_trans [OF _ cancel] split: option.split)
    then show ?thesis using Some AwaitRequester
      by (auto simp: continue_accept_def intro: moves_refl moves_trans [OF moves_drop_frame cancel]
          moves_trans [OF moves_drop_frame moves_cancelTask] split: reply.split reject_reason.split)
  qed
qed (simp add: continue_accept_def moves_refl)

lemma moves_deregisterRunner [moves_intros]: "moves_tasks nanoid b (deregisterRunner r e b)"
  unfolding deregisterRunner_def Let_def handleRunnerReject_def
  by (rule moves_trans [OF moves_same [OF same_tasks_fields(11)]], rule moves_fold)
    (rule moves_trans [OF moves_failTask moves_same [OF same_tasks_runner_replies]])

lemma moves_forward_to_requester:
  "(\<And>t' q. \<not> is_end t' (ToRequester q msg)) \<Longrightarrow> moves_tasks nanoid b (forward_to_requester t msg b)"
  by (auto simp: forward_to_requester_def intro: moves_refl moves_same same_tasks_messageRequester split: option.split)

lemma moves_forward_to_runner: "moves_tasks nanoid b (forward_to_runner t msg b)"
  using moves_getRunnerOrFailTask [of nanoid b t]
  by (cases "getRunnerOrFailTask t b")
    (auto simp: forward_to_runner_def intro: moves_trans [OF _ moves_same [OF same_tasks_messageRunner]]
      moves_trans [OF _ moves_same [OF same_tasks_send [OF is_end_simps(3)]]] split: sum.split)

lemma moves_onRunnerMessage:
  assumes "b_ending b = []"
  shows "moves_tasks nanoid b (settle_ends (onRunnerMessage nanoid now r msg b))"
proof (cases "\<exists>t d. msg = TaskDone t d \<or> msg = TaskError t d")
  case True
  then show ?thesis using assms
    by (auto simp: onRunnerMessage_def settle_none intro: moves_refl moves_taskDoneHandler moves_taskErrorHandler)
next
  case False
  then have "moves_tasks nanoid b (onRunnerMessage nanoid now r msg b)"
    by (cases msg) (auto simp: onRunnerMessage_def handleRunnerAccept_def handleRunnerReject_def handleRunnerDeferred_def
      intro: moves_intros moves_forward_to_requester same_tasks_runner_replies)
  moreover have "b_ending (onRunnerMessage nanoid now r msg b) = []" using False assms
    by (cases msg) (auto simp: onRunnerMessage_def handleRunnerAccept_def handleRunnerReject_def handleRunnerDeferred_def ending_simps)
  ultimately show ?thesis by (rule moves_settled)
qed

lemma moves_onRequesterMessage:
  assumes "b_ending b = []"
  shows "moves_tasks nanoid b (settle_ends (onRequesterMessage nanoid now q msg b))"
proof (rule moves_settled)
  show "moves_tasks nanoid b (onRequesterMessage nanoid now q msg b)"
    by (cases msg) (auto simp: onRequesterMessage_def handleRequesterAccept_def
        intro: moves_taskRequested moves_cancelTask moves_same moves_forward_to_runner same_tasks_requester_replies)
  show "b_ending (onRequesterMessage nanoid now q msg b) = []" using assms
    by (cases msg) (simp_all add: onRequesterMessage_def handleRequesterAccept_def ending_simps)
qed

lemma moves_timer_fires:
  assumes "b_ending b = []"
  shows "moves_tasks nanoid b (settle_ends (timer_fires h b))"
proof (cases "obj_get (b_timers b) h")
  case (Some t)
  let ?b = "b\<lparr>b_timers := obj_del h (b_timers b)\<rparr>"
  have "moves_tasks nanoid ?b (settle_ends (timer_fires h b))"
    using Some assms by (cases t) (simp_all add: timer_fires_def moves_handleTaskTimeout settle_none ending_simps moves_same
        same_tasks_handleRequestTimeout same_tasks_change_frame)
  then show ?thesis by (rule moves_trans [OF moves_same [OF same_tasks_fields(1)]])
qed (use assms in \<open>simp add: timer_fires_def moves_refl settle_none\<close>)

text \<open>While no task is ending every event moves the tokens on; forgetting a task that is ending leaves them where they are.\<close>

lemma moves_broker_on:
  assumes "b_ending b = []"
  shows "moves_tasks nanoid b (settle_ends (broker_on nanoid e b))"
proof (cases e)
  case (RegisterRunner r)
  have "same_tasks b (registerRunner r b)"
    unfolding registerRunner_def by (rule same_tasks_trans [OF same_tasks_fields(5) same_tasks_send]) simp
  then show ?thesis using RegisterRunner assms by (simp add: moves_same settle_none registerRunner_def ending_simps)
next
  case (RegisterRequester q)
  then show ?thesis using assms by (simp add: registerRequester_def moves_same same_tasks_fields settle_none)
next
  case (DeregisterRequester q)
  then show ?thesis using assms by (simp add: deregisterRequester_def moves_same same_tasks_fields settle_none)
next
  case (Forgets t)
  then show ?thesis using assms by (simp add: forget_task_def moves_refl settle_none)
qed (use assms in \<open>simp_all add: moves_deregisterRunner moves_onRunnerMessage moves_onRequesterMessage moves_timer_fires
    moves_continue_accept settle_none ending_simps\<close>)

lemma settle_forget: "settle_ends (forget_task t b) = settle_ends b"
proof -
  have "filter (\<lambda>p. fst p \<notin> set (remove1 t E)) (filter (\<lambda>p. fst p \<noteq> t) o') = filter (\<lambda>p. fst p \<notin> set E) o'"
    if "t \<in> set E" for E and o' :: "task obj"
    using that set_remove1_subset [of t E] by (auto simp: filter_filter intro!: filter_cong dest: in_set_remove1 [THEN iffD2, rotated])
  then show ?thesis by (simp add: settle_ends_def forget_task_def obj_del_def)
qed

text \<open>
  Histories in which the requesters' callbacks are prompt: while a handler waits for the callback that reports the end of
  a task nothing else happens.
\<close>

fun prompt :: "(nat \<Rightarrow> string) \<Rightarrow> broker_event list \<Rightarrow> broker \<Rightarrow> bool" where
  "prompt nanoid [] b = True"
| "prompt nanoid (e # es) b =
     ((b_ending b = [] \<or> (case e of Forgets t \<Rightarrow> True | _ \<Rightarrow> False)) \<and> prompt nanoid es (broker_on nanoid e b))"

lemma moves_broker_run: "prompt nanoid es b \<Longrightarrow> moves_tasks nanoid (settle_ends b) (settle_ends (broker_run nanoid es b))"
proof (induction es arbitrary: b)
  case (Cons e es)
  have "moves_tasks nanoid (settle_ends b) (settle_ends (broker_on nanoid e b))"
  proof (cases "\<exists>t. e = Forgets t")
    case True
    then show ?thesis by (auto simp: settle_forget moves_refl)
  next
    case False
    then have "b_ending b = []" using Cons.prems by (auto split: broker_event.splits)
    then show ?thesis using moves_broker_on by (simp add: settle_none)
  qed
  then show ?case using Cons moves_trans by (simp add: broker_run_def)
qed (simp add: broker_run_def moves_refl)

lemma filter_inj_le: "inj f \<Longrightarrow> length (filter (\<lambda>i. f i = x) [0..<n]) \<le> 1"
proof -
  assume "inj f"
  then have "set (filter (\<lambda>i. f i = x) [0..<n]) \<subseteq> {inv f x}" by auto
  then have "card (set (filter (\<lambda>i. f i = x) [0..<n])) \<le> card {inv f x}" by (intro card_mono) simp_all
  moreover have "distinct (filter (\<lambda>i. f i = x) [0..<n])" by simp
  ultimately show ?thesis by (metis distinct_card is_singletonI is_singleton_altdef)
qed

text \<open>
  C19: When \<open>nanoid\<close> gives different names and the callbacks of the requesters are prompt, so that nothing else happens
  between the report of the end of a task and the handler's forgetting the task, the end of a task, be it a result or
  an error, is reported to its requester at most once, and not while its offer is being accepted or the task is still
  known, unless it is just being ended, whatever runners, requesters and timers do otherwise. (With a slow callback the
  end can be reported again: lemma \<open>slow_requester_told_twice\<close>.)
\<close>

theorem task_ends_once:
  assumes "inj nanoid" "newBroker mode taskTimeout = Inr b0" "prompt nanoid es b0"
  shows "ends t (broker_run nanoid es b0) \<le> 1
    \<and> (has_task t (broker_run nanoid es b0) \<and> t \<notin> set (b_ending (broker_run nanoid es b0))
         \<or> awaits_runner t (broker_run nanoid es b0) \<longrightarrow> ends t (broker_run nanoid es b0) = 0)"
proof -
  let ?b = "broker_run nanoid es b0"
  have init: "task_token t b0 = 0" "tasks_keyed b0" "named nanoid t b0 = 0" "settle_ends b0 = b0"
    using assms(2) by (auto simp: newBroker_def task_token_def ends_def has_task_def awaits_runner_def tasks_keyed_def named_def
        settle_none split: if_splits)
  have "task_token t (settle_ends ?b) \<le> named nanoid t ?b"
    using moves_broker_run [OF assms(3)] init unfolding moves_tasks_def
    by (metis add.right_neutral add_0 settle_ends_token(3))
  also have "\<dots> \<le> 1" unfolding named_def by (rule filter_inj_le [OF assms(1)])
  finally show ?thesis by (auto simp: task_token_def settle_ends_token split: if_splits)
qed

end
