(* ===== verification/TaskBrokerTokens.thy ===== *)
theory TaskBrokerTokens
  imports TaskBrokerFacts
begin

section \<open>Offers and requests are used once\<close>

text \<open>
  The tokens of offers and of requests. Few handlers touch them; for all others a view of the state
  that determines them stays the same, which is a rewrite rule.
\<close>

named_theorems offer_view_simps \<open>handlers that touch no offer\<close>
named_theorems request_view_simps \<open>handlers that touch no request\<close>

subsection \<open>Offers\<close>

definition is_accept :: "string \<Rightarrow> string \<Rightarrow> broker_output \<Rightarrow> bool" where
  "is_accept r i msg = (case msg of ToRunner r' (TaskOfferAccept i' t) \<Rightarrow> r' = r \<and> i' = i | _ \<Rightarrow> False)"

definition accepted :: "broker \<Rightarrow> string \<Rightarrow> string \<Rightarrow> nat" where
  "accepted b r i = length (filter (is_accept r i) (b_sent b))"

definition offer_view :: "broker \<Rightarrow> task_offer list \<times> (string \<Rightarrow> string \<Rightarrow> nat)" where
  "offer_view b = (b_offers b, accepted b)"

definition offered :: "task_offer list \<Rightarrow> string \<Rightarrow> string \<Rightarrow> nat" where
  "offered offers r i = length (filter (\<lambda>x. of_runnerId x = r \<and> of_offerId x = i) offers)"

definition offer_token :: "broker \<Rightarrow> string \<Rightarrow> string \<Rightarrow> nat" where
  "offer_token b r i = accepted b r i + offered (b_offers b) r i"

lemma offered_filter: "offered (filter P xs) r i \<le> offered xs r i"
  by (induction xs) (auto simp: offered_def)

lemma offer_token_view: "offer_view b' = offer_view b \<Longrightarrow> offer_token b' = offer_token b"
  by (auto simp: offer_view_def offer_token_def fun_eq_iff)

lemma offer_view_send [offer_view_simps]:
  "(\<And>r i. \<not> is_accept r i msg) \<Longrightarrow> offer_view (send msg b) = offer_view b"
  by (simp add: offer_view_def accepted_def fun_eq_iff send_def)

lemma is_accept_simps [simp]:
  "\<not> is_accept r i (ToRequester q m)" "\<not> is_accept r i TimedOutDuringTask" "\<not> is_accept r i (Unhandled e)"
  "\<not> is_accept r i (ToRunner r' InfoRequest)" "\<not> is_accept r i (ToRunner r' RunnerRegistered)"
  "\<not> is_accept r i (ToRunner r' (RunnerTaskCancel t why))" "\<not> is_accept r i (ToRunner r' (RunnerTaskSettings t s))"
  "\<not> is_accept r i (ToRunner r' (RunnerRpcResponse t c st d))" "\<not> is_accept r i (ToRunner r' (RunnerDataResponse t c d))"
  "\<not> is_accept r i (ToRunner r' (RunnerNodeTypes t c d))"
  "is_accept r i (ToRunner r' (TaskOfferAccept i' t)) \<longleftrightarrow> r' = r \<and> i' = i"
  by (simp_all add: is_accept_def)

lemma offer_view_fields [offer_view_simps]:
  "offer_view (b\<lparr>b_timers := ts\<rparr>) = offer_view b" "offer_view (b\<lparr>b_requests := rs\<rparr>) = offer_view b"
  "offer_view (b\<lparr>b_pending := p\<rparr>) = offer_view b" "offer_view (b\<lparr>b_runners := r\<rparr>) = offer_view b"
  "offer_view (b\<lparr>b_requesters := q\<rparr>) = offer_view b" "offer_view (b\<lparr>b_runnerAcceptRejects := ar\<rparr>) = offer_view b"
  "offer_view (b\<lparr>b_requesterAcceptRejects := aq\<rparr>) = offer_view b" "offer_view (b\<lparr>b_tasks := tk\<rparr>) = offer_view b"
  "offer_view (b\<lparr>b_accepts := as\<rparr>) = offer_view b" "offer_view (b\<lparr>b_nextTimer := n\<rparr>) = offer_view b"
  "offer_view (b\<lparr>b_nextRequest := n\<rparr>) = offer_view b" "offer_view (b\<lparr>b_nextTask := n\<rparr>) = offer_view b"
  "offer_view (b\<lparr>b_ending := en\<rparr>) = offer_view b"
  by (simp_all add: offer_view_def accepted_def fun_eq_iff)

lemma offer_view_messages [offer_view_simps]:
  "(\<And>r' i. \<not> is_accept r' i (ToRunner r m)) \<Longrightarrow> offer_view (messageRunner r m b) = offer_view b"
  "offer_view (messageRequester q m' b) = offer_view b"
  by (simp_all add: messageRunner_def messageRequester_def offer_view_send)

lemma offer_view_parts [offer_view_simps]:
  "offer_view (snd (set_timer t b)) = offer_view b" "offer_view (clear_timer h b) = offer_view b"
  "offer_view (change_request ref f b) = offer_view b" "offer_view (createRequestTimeout ref i b) = offer_view b"
  "offer_view (change_frame t' g b) = offer_view b" "offer_view (drop_frame t' b) = offer_view b"
  by (simp_all add: set_timer_def clear_timer_def change_request_def createRequestTimeout_def change_frame_def drop_frame_def
      offer_view_simps split: option.split)

lemma offer_view_tasks [offer_view_simps]:
  "offer_view (handleRequestTimeout i b) = offer_view b" "offer_view (cancelTask t why b) = offer_view b"
  "offer_view (failTask t e b) = offer_view b" "offer_view (end_task t m b) = offer_view b"
  "offer_view (runner_replies t v b) = offer_view b" "offer_view (requester_replies t w b) = offer_view b"
  "offer_view (forward_to_requester t m b) = offer_view b" "offer_view (forget_task t b) = offer_view b"
  by (simp_all add: handleRequestTimeout_def cancelTask_def failTask_def end_task_def Let_def runner_replies_def requester_replies_def
      forward_to_requester_def forget_task_def offer_view_simps split: option.split)

lemma offer_view_getRunnerOrFailTask [offer_view_simps]: "offer_view (snd (getRunnerOrFailTask t b)) = offer_view b"
  by (simp add: getRunnerOrFailTask_def offer_view_simps split: option.split)

lemma offer_view_handleTaskTimeout [offer_view_simps]: "offer_view (handleTaskTimeout t b) = offer_view b"
  by (simp add: handleTaskTimeout_def taskErrorHandler_def offer_view_simps split: option.split runner_mode.split)

lemma offer_view_sendTaskSettings [offer_view_simps]: "offer_view (snd (sendTaskSettings t s b)) = offer_view b"
  using offer_view_getRunnerOrFailTask [of t b]
  by (cases "getRunnerOrFailTask t b")
    (auto simp: sendTaskSettings_def set_timer_def offer_view_simps split: sum.split option.split)

lemma offer_view_forward_to_runner [offer_view_simps]:
  "(\<And>r r' i. \<not> is_accept r i (ToRunner r' m)) \<Longrightarrow> offer_view (forward_to_runner t m b) = offer_view b"
  using offer_view_getRunnerOrFailTask [of t b]
  by (cases "getRunnerOrFailTask t b") (simp add: forward_to_runner_def offer_view_simps split: sum.split)

lemma offer_view_runner_rejected [offer_view_simps]: "offer_view (runner_rejected ref reason b) = offer_view b"
  by (simp add: runner_rejected_def Let_def offer_view_simps split: reject_reason.split option.split)

lemma offer_view_runner_accepted [offer_view_simps]: "offer_view (runner_accepted t fr rq b) = offer_view b"
  by (simp add: runner_accepted_def Let_def set_timer_def offer_view_simps split: option.split)

lemma offer_view_continue_accept [offer_view_simps]: "offer_view (continue_accept t b) = offer_view b"
proof -
  have "offer_view (case sendTaskSettings t s (drop_frame t b) of
      (None, b') \<Rightarrow> b' | (Some e, b') \<Rightarrow> send (Unhandled e) (cancelTask t why b')) = offer_view b" for s why
    using offer_view_sendTaskSettings [of t s "drop_frame t b"]
    by (cases "sendTaskSettings t s (drop_frame t b)") (simp add: offer_view_simps split: option.split)
  then show ?thesis
    by (simp add: continue_accept_def offer_view_simps split: option.split accept_stage.split reply.split reject_reason.split)
qed

lemma offer_view_timer_fires [offer_view_simps]: "offer_view (timer_fires h b) = offer_view b"
  by (simp add: timer_fires_def Let_def offer_view_simps split: option.split timer.split)

lemma fold_invariant: "(\<And>x b. v (f x b) = v b) \<Longrightarrow> v (fold f xs b) = v b"
  by (induction xs arbitrary: b) auto

text \<open>Matching moves the token from the offer to the message; expiry and a disconnected runner drop it.\<close>

lemma take_first_split: "take_first P xs = Some (y, ys) \<Longrightarrow> \<exists>us vs. xs = us @ y # vs \<and> ys = us @ vs \<and> P y"
proof (induction xs arbitrary: ys)
  case (Cons x xs)
  show ?case
  proof (cases "P x")
    case True
    then show ?thesis using Cons.prems by (intro exI [of _ "[]"] exI [of _ xs]) auto
  next
    case False
    then obtain zs where zs: "take_first P xs = Some (y, zs)" "ys = x # zs" using Cons.prems by auto
    from Cons.IH [OF zs(1)] obtain us vs where "xs = us @ y # vs" "zs = us @ vs" "P y" by blast
    then show ?thesis using zs(2) by (intro exI [of _ "x # us"] exI [of _ vs]) auto
  qed
qed simp

lemma offer_token_acceptOffer:
  "offer_token (acceptOffer nanoid x ref b) r i \<le> offer_token b r i + (if of_runnerId x = r \<and> of_offerId x = i then 1 else 0)"
  by (auto simp: offer_token_def acceptOffer_def set_timer_def Let_def messageRunner_def send_def accepted_def)

lemma offer_token_settle_request: "offer_token (settle_request nanoid ref b) r i \<le> offer_token b r i"
proof (cases "\<exists>rq. obj_get (b_requests b) ref = Some rq \<and> \<not> rq_acceptInProgress rq
    \<and> take_first (\<lambda>x. of_taskType x = rq_taskType rq) (b_offers b) \<noteq> None")
  case False
  then show ?thesis by (auto simp: settle_request_def split: option.split)
next
  case True
  then obtain rq x rest where rq: "obj_get (b_requests b) ref = Some rq" "\<not> rq_acceptInProgress rq"
    "take_first (\<lambda>x. of_taskType x = rq_taskType rq) (b_offers b) = Some (x, rest)" by auto
  from take_first_split [OF rq(3)] obtain us vs where os: "b_offers b = us @ x # vs" "rest = us @ vs" by blast
  let ?b = "change_request ref (\<lambda>rq. rq\<lparr>rq_acceptInProgress := True\<rparr>) (b\<lparr>b_offers := rest\<rparr>)"
  have "offer_token ?b = offer_token (b\<lparr>b_offers := rest\<rparr>)" by (intro offer_token_view) (simp add: offer_view_simps)
  then have "offer_token ?b r i + (if of_runnerId x = r \<and> of_offerId x = i then 1 else 0) = offer_token b r i"
    using os by (simp add: offer_token_def offered_def accepted_def)
  moreover have "settle_request nanoid ref b = acceptOffer nanoid x ref ?b" using rq by (simp add: settle_request_def)
  ultimately show ?thesis using offer_token_acceptOffer [of nanoid x ref ?b r i] by simp
qed

lemma offer_token_settleTasks: "offer_token (settleTasks nanoid now b) r i \<le> offer_token b r i"
proof -
  have "offer_token (fold (settle_request nanoid) refs b) r i \<le> offer_token b r i" for refs b
    by (induction refs arbitrary: b) (auto intro: le_trans [OF _ offer_token_settle_request])
  moreover have "offer_token (expireTasks now b) r i \<le> offer_token b r i"
    by (simp add: expireTasks_def offer_token_def accepted_def offered_filter)
  ultimately show ?thesis unfolding settleTasks_def Let_def by (meson le_trans)
qed

text \<open>How often an event makes an offer.\<close>

definition makes_offer :: "string \<Rightarrow> string \<Rightarrow> broker_event \<Rightarrow> bool" where
  "makes_offer r i e = (case e of FromRunner now r' (TaskOffer i' ty v) \<Rightarrow> r' = r \<and> i' = i | _ \<Rightarrow> False)"

lemma offer_token_deregisterRunner: "offer_token (deregisterRunner r' e b) r i \<le> offer_token b r i"
proof -
  let ?b = "b\<lparr>b_runners := obj_del r' (b_runners b), b_offers := filter (\<lambda>x. of_runnerId x \<noteq> r') (b_offers b)\<rparr>"
  have "offer_view (deregisterRunner r' e b) = offer_view ?b"
    unfolding deregisterRunner_def Let_def
    by (rule fold_invariant [where v = offer_view]) (simp add: handleRunnerReject_def offer_view_simps)
  then have "offer_token (deregisterRunner r' e b) r i = offer_token ?b r i" by (rule offer_token_view [THEN fun_cong, THEN fun_cong])
  also have "\<dots> \<le> offer_token b r i"
    by (simp add: offer_token_def accepted_def offered_filter)
  finally show ?thesis .
qed

lemma offer_token_taskRequested: "offer_token (taskRequested nanoid now q j ty b) r i \<le> offer_token b r i"
  unfolding taskRequested_def Let_def
  by (rule le_trans [OF offer_token_settleTasks], rule eq_refl, rule fun_cong [OF fun_cong], rule offer_token_view)
    (simp add: offer_view_simps)

lemma offer_token_on:
  "offer_token (broker_on nanoid e b) r i \<le> offer_token b r i + (if makes_offer r i e then 1 else 0)"
proof (cases e)
  case (DeregisterRunner r' err)
  then show ?thesis using offer_token_deregisterRunner [of r' err b r i] by (simp add: makes_offer_def)
next
  case (FromRunner now r' msg)
  show ?thesis
  proof (cases "\<exists>i' ty v. msg = TaskOffer i' ty v")
    case True
    then obtain i' ty v where msg: "msg = TaskOffer i' ty v" by blast
    show ?thesis
    proof (cases "obj_has r' (b_runners b)")
      case False
      then show ?thesis using FromRunner by (simp add: onRunnerMessage_def)
    next
      case has: True
      define x where "x = \<lparr>of_offerId = i', of_runnerId = r', of_taskType = ty, of_validFor = v,
        of_validUntil = (if v = -1 then 0 else now + v * 1000000)\<rparr>"
      have "offer_token (taskOffered nanoid now x b) r i \<le> offer_token (b\<lparr>b_offers := b_offers b @ [x]\<rparr>) r i"
        unfolding taskOffered_def by (rule offer_token_settleTasks)
      also have "\<dots> = offer_token b r i + (if r' = r \<and> i' = i then 1 else 0)"
        by (simp add: offer_token_def offered_def accepted_def x_def)
      finally show ?thesis using FromRunner msg has by (simp add: onRunnerMessage_def makes_offer_def x_def)
    qed
  next
    case False
    then have "offer_view (broker_on nanoid e b) = offer_view b" using FromRunner
      by (cases msg) (auto simp: onRunnerMessage_def handleRunnerAccept_def handleRunnerReject_def handleRunnerDeferred_def
          taskDoneHandler_def taskErrorHandler_def offer_view_simps)
    from offer_token_view [OF this] show ?thesis by simp
  qed
next
  case (FromRequester now q msg)
  show ?thesis
  proof (cases "\<exists>j ty. msg = TaskRequest j ty")
    case True
    then obtain j ty where msg: "msg = TaskRequest j ty" by blast
    then show ?thesis using FromRequester offer_token_taskRequested [of nanoid now q j ty b r i]
      by (simp add: onRequesterMessage_def trans_le_add1)
  next
    case False
    then have "offer_view (broker_on nanoid e b) = offer_view b" using FromRequester
      by (cases msg) (auto simp: onRequesterMessage_def handleRequesterAccept_def offer_view_simps)
    from offer_token_view [OF this] show ?thesis by simp
  qed
next
  case (RegisterRunner x)
  then have "offer_view (broker_on nanoid e b) = offer_view b" by (simp add: registerRunner_def offer_view_simps)
  from offer_token_view [OF this] show ?thesis by simp
next
  case (RegisterRequester q)
  then have "offer_view (broker_on nanoid e b) = offer_view b" by (simp add: registerRequester_def offer_view_simps)
  from offer_token_view [OF this] show ?thesis by simp
next
  case (DeregisterRequester q)
  then have "offer_view (broker_on nanoid e b) = offer_view b" by (simp add: deregisterRequester_def offer_view_simps)
  from offer_token_view [OF this] show ?thesis by simp
next
  case (TimerFires h)
  then have "offer_view (broker_on nanoid e b) = offer_view b" by (simp add: offer_view_simps)
  from offer_token_view [OF this] show ?thesis by simp
next
  case (Continues t)
  then have "offer_view (broker_on nanoid e b) = offer_view b" by (simp add: offer_view_simps)
  from offer_token_view [OF this] show ?thesis by simp
next
  case (Forgets t)
  then have "offer_view (broker_on nanoid e b) = offer_view b" by (simp add: offer_view_simps)
  from offer_token_view [OF this] show ?thesis by simp
qed

lemma offer_token_run:
  "offer_token (broker_run nanoid es b) r i \<le> offer_token b r i + length (filter (makes_offer r i) es)"
proof (induction es arbitrary: b)
  case (Cons e es)
  have "offer_token (broker_run nanoid es (broker_on nanoid e b)) r i
      \<le> offer_token b r i + (if makes_offer r i e then 1 else 0) + length (filter (makes_offer r i) es)"
    using Cons.IH [of "broker_on nanoid e b"] offer_token_on [of nanoid e b r i] by linarith
  then show ?case by (simp add: broker_run_def split: if_splits)
qed (simp add: broker_run_def)

text \<open>
  C35: An offer of a runner is accepted at most as often as the runner made an offer with that identifier, and those that
  are not accepted yet are counted as well, whatever runners, requesters and timers do.
\<close>

theorem offers_accepted_once:
  assumes "newBroker mode taskTimeout = Inr b0"
  shows "accepted (broker_run nanoid es b0) r i + offered (b_offers (broker_run nanoid es b0)) r i
    \<le> length (filter (makes_offer r i) es)"
proof -
  have "offer_token b0 r i = 0"
    using assms by (auto simp: newBroker_def offer_token_def accepted_def offered_def split: if_splits)
  with offer_token_run [of nanoid es b0 r i] show ?thesis by (simp add: offer_token_def)
qed


subsection \<open>Requests\<close>

definition is_ready :: "string \<Rightarrow> broker_output \<Rightarrow> bool" where
  "is_ready i msg = (case msg of ToRequester q (TaskReady i' t) \<Rightarrow> i' = i | _ \<Rightarrow> False)"

definition ready :: "broker \<Rightarrow> string \<Rightarrow> nat" where
  "ready b i = length (filter (is_ready i) (b_sent b))"

definition request_at :: "broker \<Rightarrow> nat \<Rightarrow> (string \<times> bool) option" where
  "request_at b ref = map_option (\<lambda>rq. (rq_requestId rq, rq_acceptInProgress rq)) (obj_get (b_requests b) ref)"

definition frame_at :: "broker \<Rightarrow> string \<Rightarrow> (accept_stage \<times> nat) option" where
  "frame_at b t = map_option (\<lambda>fr. (af_stage fr, af_request fr)) (obj_get (b_accepts b) t)"

definition request_view ::
    "broker \<Rightarrow> (nat \<Rightarrow> (string \<times> bool) option) \<times> (string \<Rightarrow> (accept_stage \<times> nat) option) \<times> (string \<Rightarrow> nat) \<times> nat" where
  "request_view b = (request_at b, frame_at b, ready b, b_nextRequest b)"

definition awaiting :: "broker \<Rightarrow> nat \<Rightarrow> bool" where
  "awaiting b ref \<longleftrightarrow> (\<exists>t. frame_at b t = Some (AwaitRunner, ref))"

text \<open>A request is live until a runner has accepted it.\<close>

definition live :: "broker \<Rightarrow> string \<Rightarrow> nat set" where
  "live b i = {ref. request_at b ref = Some (i, False) \<or> request_at b ref = Some (i, True) \<and> awaiting b ref}"

definition requests_ok :: "broker \<Rightarrow> bool" where
  "requests_ok b \<longleftrightarrow> (\<forall>ref. request_at b ref \<noteq> None \<longrightarrow> ref < b_nextRequest b)
     \<and> (\<forall>t ref. frame_at b t = Some (AwaitRunner, ref) \<longrightarrow> (\<exists>i. request_at b ref = Some (i, True)))
     \<and> (\<forall>t t' ref. frame_at b t = Some (AwaitRunner, ref) \<longrightarrow> frame_at b t' = Some (AwaitRunner, ref) \<longrightarrow> t = t')"

definition request_token :: "broker \<Rightarrow> string \<Rightarrow> nat" where
  "request_token b i = ready b i + card (live b i)"

definition moves_requests :: "broker \<Rightarrow> broker \<Rightarrow> bool" where
  "moves_requests b b' \<longleftrightarrow> (requests_ok b \<longrightarrow> requests_ok b' \<and> (\<forall>i. request_token b' i \<le> request_token b i))"

lemma finite_live: "requests_ok b \<Longrightarrow> finite (live b i)"
  by (rule finite_subset [of _ "{..<b_nextRequest b}"]) (auto simp: live_def requests_ok_def)

lemma moves_requests_view: "request_view b' = request_view b \<Longrightarrow> moves_requests b b'"
  by (simp add: request_view_def moves_requests_def requests_ok_def request_token_def live_def awaiting_def)

lemma moves_requests_trans: "moves_requests b b' \<Longrightarrow> moves_requests b' b'' \<Longrightarrow> moves_requests b b''"
  unfolding moves_requests_def by (meson le_trans)

lemma moves_requests_refl: "moves_requests b b"
  by (rule moves_requests_view) simp

subsection \<open>Handlers that touch no request\<close>

lemma is_ready_simps [simp]:
  "\<not> is_ready i (ToRunner r m)" "\<not> is_ready i TimedOutDuringTask" "\<not> is_ready i (Unhandled e)"
  "\<not> is_ready i (ToRequester q (RequestExpired j))" "\<not> is_ready i (ToRequester q (RequesterTaskDone t d))"
  "\<not> is_ready i (ToRequester q (RequesterTaskError t f))" "\<not> is_ready i (ToRequester q (RequesterDataRequest t j p))"
  "\<not> is_ready i (ToRequester q (RequesterNodeTypesRequest t j p))" "\<not> is_ready i (ToRequester q (RequesterRpc t c n p))"
  "is_ready i (ToRequester q (TaskReady j t)) \<longleftrightarrow> j = i"
  by (simp_all add: is_ready_def)

lemmas request_view_defs = request_view_def request_at_def frame_at_def ready_def fun_eq_iff

lemma request_view_send [request_view_simps]: "(\<And>i. \<not> is_ready i msg) \<Longrightarrow> request_view (send msg b) = request_view b"
  by (simp add: request_view_defs send_def)

lemma request_view_fields [request_view_simps]:
  "request_view (b\<lparr>b_timers := ts\<rparr>) = request_view b" "request_view (b\<lparr>b_offers := os\<rparr>) = request_view b"
  "request_view (b\<lparr>b_pending := p\<rparr>) = request_view b" "request_view (b\<lparr>b_runners := r\<rparr>) = request_view b"
  "request_view (b\<lparr>b_requesters := q\<rparr>) = request_view b" "request_view (b\<lparr>b_runnerAcceptRejects := ar\<rparr>) = request_view b"
  "request_view (b\<lparr>b_requesterAcceptRejects := aq\<rparr>) = request_view b" "request_view (b\<lparr>b_tasks := tk\<rparr>) = request_view b"
  "request_view (b\<lparr>b_nextTimer := n\<rparr>) = request_view b" "request_view (b\<lparr>b_nextTask := n\<rparr>) = request_view b"
  "request_view (b\<lparr>b_ending := en\<rparr>) = request_view b"
  by (simp_all add: request_view_defs)

lemma request_view_messages [request_view_simps]:
  "request_view (messageRunner r m b) = request_view b"
  "(\<And>i q. \<not> is_ready i (ToRequester q m')) \<Longrightarrow> request_view (messageRequester q m' b) = request_view b"
  by (simp_all add: messageRunner_def messageRequester_def request_view_send)

lemma request_view_change_request:
  "(\<And>rq. rq_requestId (f rq) = rq_requestId rq \<and> rq_acceptInProgress (f rq) = rq_acceptInProgress rq) \<Longrightarrow>
   request_view (change_request ref f b) = request_view b"
  by (auto simp: change_request_def request_view_defs js_simps split: option.split)

lemma request_view_change_frame:
  "(\<And>fr. af_stage (f fr) = af_stage fr \<and> af_request (f fr) = af_request fr) \<Longrightarrow> request_view (change_frame t f b) = request_view b"
  by (auto simp: change_frame_def request_view_defs js_simps split: option.split)

lemma request_view_timers [request_view_simps]:
  "request_view (snd (set_timer t b)) = request_view b" "request_view (clear_timer h b) = request_view b"
  "request_view (createRequestTimeout ref i b) = request_view b"
  by (simp_all add: set_timer_def clear_timer_def createRequestTimeout_def request_view_simps request_view_change_request split: option.split)

lemma request_view_tasks [request_view_simps]:
  "request_view (handleRequestTimeout i b) = request_view b" "request_view (cancelTask t why b) = request_view b"
  "request_view (failTask t e b) = request_view b"
  "request_view (taskDoneHandler t d b) = request_view b" "request_view (taskErrorHandler t e b) = request_view b"
  "request_view (runner_replies t v b) = request_view b" "request_view (requester_replies t w b) = request_view b"
  "request_view (forget_task t b) = request_view b"
  by (simp_all add: forget_task_def handleRequestTimeout_def cancelTask_def failTask_def taskDoneHandler_def taskErrorHandler_def end_task_def Let_def
      runner_replies_def requester_replies_def request_view_simps request_view_change_frame split: option.split)

lemma request_view_forward_to_requester:
  "(\<And>i q. \<not> is_ready i (ToRequester q m)) \<Longrightarrow> request_view (forward_to_requester t m b) = request_view b"
  by (simp add: forward_to_requester_def request_view_simps split: option.split)

lemma request_view_getRunnerOrFailTask [request_view_simps]: "request_view (snd (getRunnerOrFailTask t b)) = request_view b"
  by (simp add: getRunnerOrFailTask_def request_view_simps split: option.split)

lemma request_view_forward_to_runner [request_view_simps]: "request_view (forward_to_runner t m b) = request_view b"
  using request_view_getRunnerOrFailTask [of t b]
  by (cases "getRunnerOrFailTask t b") (simp add: forward_to_runner_def request_view_simps split: sum.split)

lemma request_view_handleTaskTimeout [request_view_simps]: "request_view (handleTaskTimeout t b) = request_view b"
  by (simp add: handleTaskTimeout_def request_view_simps split: option.split runner_mode.split)

lemma request_view_sendTaskSettings [request_view_simps]: "request_view (snd (sendTaskSettings t s b)) = request_view b"
  using request_view_getRunnerOrFailTask [of t b]
  by (cases "getRunnerOrFailTask t b")
    (auto simp: sendTaskSettings_def set_timer_def request_view_simps split: sum.split option.split)

lemma request_view_timer_fires [request_view_simps]: "request_view (timer_fires h b) = request_view b"
  by (simp add: timer_fires_def Let_def request_view_simps request_view_change_frame split: option.split timer.split)

lemma request_view_deregisterRunner [request_view_simps]: "request_view (deregisterRunner r e b) = request_view b"
proof -
  have "request_view (deregisterRunner r e b)
      = request_view (b\<lparr>b_runners := obj_del r (b_runners b), b_offers := filter (\<lambda>x. of_runnerId x \<noteq> r) (b_offers b)\<rparr>)"
    unfolding deregisterRunner_def Let_def
    by (rule fold_invariant [where v = request_view]) (simp add: handleRunnerReject_def request_view_simps)
  then show ?thesis by (simp add: request_view_simps)
qed


subsection \<open>The life of a request\<close>

text \<open>Dispatched to a runner, accepted or rejected by it, and asked for: four ways its token moves.\<close>

lemma request_dispatched:
  assumes "request_at b ref = Some (i, False)" "request_at b' = (request_at b)(ref := Some (i, True))"
    and "frame_at b' = (frame_at b)(t := Some (AwaitRunner, ref))" "ready b' = ready b" "b_nextRequest b' = b_nextRequest b"
  shows "moves_requests b b'"
  unfolding moves_requests_def
proof (intro impI conjI allI)
  assume ok: "requests_ok b"
  then have free: "frame_at b t' \<noteq> Some (AwaitRunner, ref)" for t'
    using assms(1) by (force simp: requests_ok_def)
  with ok show "requests_ok b'" using assms by (auto simp: requests_ok_def)
  have "live b' j \<subseteq> live b j" for j
    using assms by (auto simp: live_def awaiting_def split: if_splits)
  then have "card (live b' j) \<le> card (live b j)" for j by (intro card_mono finite_live [OF ok])
  then show "request_token b' j \<le> request_token b j" for j using assms(4) by (simp add: request_token_def)
qed

lemma request_accepted:
  assumes "frame_at b t = Some (AwaitRunner, ref)" "request_at b ref = Some (i, m)" "request_at b' = request_at b"
    and "frame_at b' = (frame_at b)(t := x)" "\<And>ref. x \<noteq> Some (AwaitRunner, ref)"
    and "\<And>j. ready b' j \<le> ready b j + (if j = i then 1 else 0)" "b_nextRequest b' = b_nextRequest b"
  shows "moves_requests b b'"
  unfolding moves_requests_def
proof (intro impI conjI allI)
  assume ok: "requests_ok b"
  then have only: "frame_at b t' = Some (AwaitRunner, ref) \<Longrightarrow> t' = t" for t'
    using assms(1) by (auto simp: requests_ok_def)
  from ok show "requests_ok b'" using assms(3-5,7) by (auto simp: requests_ok_def split: if_splits)
  have m: "m" using ok assms(1,2) by (force simp: requests_ok_def)
  have sub: "live b' j \<subseteq> live b j" for j
    using assms(3-5) by (auto simp: live_def awaiting_def split: if_splits)
  have "ref \<in> live b i" using assms(1,2) m by (auto simp: live_def awaiting_def)
  moreover have "ref \<notin> live b' i"
    using assms(2-5) only m by (auto simp: live_def awaiting_def split: if_splits)
  ultimately have "live b' i \<subset> live b i" using sub [of i] by blast
  then have "card (live b' i) < card (live b i)" by (intro psubset_card_mono finite_live [OF ok])
  moreover have "card (live b' j) \<le> card (live b j)" for j by (intro card_mono finite_live [OF ok] sub)
  ultimately show "request_token b' j \<le> request_token b j" for j
    using assms(6) [of j] by (cases "j = i") (auto simp: request_token_def intro: add_mono)
qed

lemma request_rejected:
  assumes "frame_at b t = Some (AwaitRunner, ref)" "request_at b ref = Some (i, m)"
    and "request_at b' = (request_at b)(ref := Some (i, False))" "frame_at b' = (frame_at b)(t := None)"
    and "ready b' = ready b" "b_nextRequest b' = b_nextRequest b"
  shows "moves_requests b b'"
  unfolding moves_requests_def
proof (intro impI conjI allI)
  assume ok: "requests_ok b"
  then have only: "frame_at b t' = Some (AwaitRunner, ref) \<Longrightarrow> t' = t" for t'
    using assms(1) by (auto simp: requests_ok_def)
  show "requests_ok b'" unfolding requests_ok_def
  proof (intro conjI allI impI)
    show "ref' < b_nextRequest b'" if "request_at b' ref' \<noteq> None" for ref'
      using that ok assms(2,3,6) by (cases "ref' = ref") (auto simp: requests_ok_def)
    show "\<exists>i. request_at b' ref' = Some (i, True)" if "frame_at b' t' = Some (AwaitRunner, ref')" for t' ref'
    proof -
      have t': "frame_at b t' = Some (AwaitRunner, ref')" "t' \<noteq> t" using that assms(4) by (auto split: if_splits)
      with only have "ref' \<noteq> ref" by blast
      with t' ok assms(3) show ?thesis by (auto simp: requests_ok_def)
    qed
    show "t' = t''" if "frame_at b' t' = Some (AwaitRunner, ref')" "frame_at b' t'' = Some (AwaitRunner, ref')" for t' t'' ref'
      using that ok assms(4) by (auto simp: requests_ok_def split: if_splits)
  qed
  have m: "m" using ok assms(1,2) by (force simp: requests_ok_def)
  have "live b' j \<subseteq> live b j" for j
  proof
    fix ref' assume "ref' \<in> live b' j"
    then show "ref' \<in> live b j" using assms(1-4) m
      by (cases "ref' = ref") (auto simp: live_def awaiting_def split: if_splits)
  qed
  then have "card (live b' j) \<le> card (live b j)" for j by (intro card_mono finite_live [OF ok])
  then show "request_token b' j \<le> request_token b j" for j using assms(5) by (simp add: request_token_def)
qed

lemma request_asked:
  assumes ok: "requests_ok b" and b': "request_at b' = (request_at b)(b_nextRequest b := Some (i, False))" "frame_at b' = frame_at b"
    "ready b' = ready b" "b_nextRequest b' = Suc (b_nextRequest b)"
  shows "requests_ok b' \<and> (\<forall>j. request_token b' j \<le> request_token b j + (if j = i then 1 else 0))"
proof (intro conjI allI)
  have new: "request_at b (b_nextRequest b) = None" using ok unfolding requests_ok_def by blast
  show "requests_ok b'" unfolding requests_ok_def
  proof (intro conjI allI impI)
    show "ref < b_nextRequest b'" if "request_at b' ref \<noteq> None" for ref
      using that ok b' by (cases "ref = b_nextRequest b") (auto simp: requests_ok_def less_Suc_eq)
    show "\<exists>i. request_at b' ref = Some (i, True)" if "frame_at b' t = Some (AwaitRunner, ref)" for t ref
      using that ok b' new unfolding requests_ok_def by (metis fun_upd_apply option.distinct(1))
    show "t' = t''" if "frame_at b' t' = Some (AwaitRunner, ref')" "frame_at b' t'' = Some (AwaitRunner, ref')" for t' t'' ref'
      using that ok b'(2) by (auto simp: requests_ok_def)
  qed
  fix j
  have "live b' j \<subseteq> (if j = i then insert (b_nextRequest b) (live b j) else live b j)"
    using b' by (auto simp: live_def awaiting_def split: if_splits)
  then have "card (live b' j) \<le> card (if j = i then insert (b_nextRequest b) (live b j) else live b j)"
    by (intro card_mono) (auto intro: finite_live [OF ok])
  also have "\<dots> \<le> card (live b j) + (if j = i then 1 else 0)"
    using finite_live [OF ok] by (auto simp: card_insert_if)
  finally show "request_token b' j \<le> request_token b j + (if j = i then 1 else 0)" using b' by (simp add: request_token_def)
qed

lemma moves_settle_request_requests: "moves_requests b (settle_request nanoid ref b)"
proof (cases "\<exists>rq. obj_get (b_requests b) ref = Some rq \<and> \<not> rq_acceptInProgress rq
    \<and> take_first (\<lambda>x. of_taskType x = rq_taskType rq) (b_offers b) \<noteq> None")
  case False
  then have "settle_request nanoid ref b = b" by (auto simp: settle_request_def split: option.split)
  then show ?thesis by (simp add: moves_requests_refl)
next
  case True
  then obtain rq x rest where rq: "obj_get (b_requests b) ref = Some rq" "\<not> rq_acceptInProgress rq"
    "take_first (\<lambda>x. of_taskType x = rq_taskType rq) (b_offers b) = Some (x, rest)" by auto
  show ?thesis
  proof (rule request_dispatched)
    show "request_at b ref = Some (rq_requestId rq, False)" using rq by (simp add: request_at_def)
    show "request_at (settle_request nanoid ref b) = (request_at b)(ref := Some (rq_requestId rq, True))"
      using rq by (auto simp: settle_request_def acceptOffer_def set_timer_def Let_def messageRunner_def send_def change_request_def
          request_at_def fun_eq_iff js_simps)
    show "frame_at (settle_request nanoid ref b) = (frame_at b)(nanoid (b_nextTask b) := Some (AwaitRunner, ref))"
      using rq by (auto simp: settle_request_def acceptOffer_def set_timer_def Let_def messageRunner_def send_def change_request_def
          frame_at_def fun_eq_iff js_simps)
  qed (use rq in \<open>auto simp: settle_request_def acceptOffer_def set_timer_def Let_def messageRunner_def send_def change_request_def
      ready_def fun_eq_iff\<close>)
qed

lemma moves_settleTasks_requests: "moves_requests b (settleTasks nanoid now b)"
proof -
  have "moves_requests b (fold (settle_request nanoid) refs b)" for refs b
    by (induction refs arbitrary: b) (auto intro: moves_requests_refl moves_requests_trans [OF moves_settle_request_requests])
  moreover have "request_view (expireTasks now b) = request_view b" by (simp add: expireTasks_def request_view_simps)
  ultimately show ?thesis unfolding settleTasks_def Let_def by (meson moves_requests_trans moves_requests_view)
qed

lemma frame_at_drop: "frame_at (drop_frame t b) = (frame_at b)(t := None)"
  by (auto simp: drop_frame_def frame_at_def fun_eq_iff js_simps)

lemma moves_rejected_requests:
  assumes "obj_get (b_accepts b) t = Some fr" "af_stage fr = AwaitRunner"
  shows "moves_requests b (runner_rejected (af_request fr) reason (drop_frame t b))"
  unfolding moves_requests_def
proof
  assume ok: "requests_ok b"
  let ?ref = "af_request fr"
  let ?b = "change_request ?ref (\<lambda>rq. rq\<lparr>rq_acceptInProgress := False\<rparr>) (drop_frame t b)"
  have fr: "frame_at b t = Some (AwaitRunner, ?ref)" using assms by (simp add: frame_at_def)
  with ok obtain i where "request_at b ?ref = Some (i, True)" by (force simp: requests_ok_def)
  then obtain rq where rq: "obj_get (b_requests b) ?ref = Some rq" by (auto simp: request_at_def)
  have "request_view (runner_rejected ?ref reason (drop_frame t b)) = request_view ?b"
    by (simp add: runner_rejected_def Let_def request_view_simps split: reject_reason.split option.split)
  moreover have "moves_requests b ?b"
  proof (rule request_rejected [OF fr])
    show "request_at b ?ref = Some (rq_requestId rq, rq_acceptInProgress rq)" using rq by (simp add: request_at_def)
    show "request_at ?b = (request_at b)(?ref := Some (rq_requestId rq, False))"
      using rq by (auto simp: change_request_def drop_frame_def request_at_def fun_eq_iff js_simps)
    show "frame_at ?b = (frame_at b)(t := None)"
      using rq by (auto simp: change_request_def drop_frame_def frame_at_def fun_eq_iff js_simps)
  qed (use rq in \<open>auto simp: change_request_def drop_frame_def ready_def fun_eq_iff\<close>)
  ultimately have "moves_requests b (runner_rejected ?ref reason (drop_frame t b))"
    using moves_requests_trans moves_requests_view by blast
  with ok show "requests_ok (runner_rejected ?ref reason (drop_frame t b))
      \<and> (\<forall>i. request_token (runner_rejected ?ref reason (drop_frame t b)) i \<le> request_token b i)"
    by (simp add: moves_requests_def)
qed

lemma moves_accepted_requests:
  assumes "obj_get (b_accepts b) t = Some fr" "af_stage fr = AwaitRunner" "obj_get (b_requests b) (af_request fr) = Some rq"
  shows "moves_requests b (runner_accepted t fr rq b)"
proof (rule request_accepted)
  show "frame_at b t = Some (AwaitRunner, af_request fr)" using assms by (simp add: frame_at_def)
  show "request_at b (af_request fr) = Some (rq_requestId rq, rq_acceptInProgress rq)" using assms by (simp add: request_at_def)
  show "request_at (runner_accepted t fr rq b) = request_at b"
    by (auto simp: runner_accepted_def Let_def clear_timer_def set_timer_def drop_frame_def messageRequester_def send_def request_at_def
        fun_eq_iff split: option.split)
  show "frame_at (runner_accepted t fr rq b) = (frame_at b)(t := frame_at (runner_accepted t fr rq b) t)"
    by (auto simp: runner_accepted_def Let_def clear_timer_def set_timer_def drop_frame_def messageRequester_def send_def frame_at_def
        js_simps fun_eq_iff split: option.split)
  show "frame_at (runner_accepted t fr rq b) t \<noteq> Some (AwaitRunner, ref)" for ref
    by (auto simp: runner_accepted_def Let_def clear_timer_def set_timer_def drop_frame_def messageRequester_def send_def frame_at_def
        js_simps split: option.split)
  show "ready (runner_accepted t fr rq b) j \<le> ready b j + (if j = rq_requestId rq then 1 else 0)" for j
    by (auto simp: runner_accepted_def Let_def clear_timer_def set_timer_def drop_frame_def messageRequester_def send_def ready_def
        split: option.split)
  show "b_nextRequest (runner_accepted t fr rq b) = b_nextRequest b"
    by (auto simp: runner_accepted_def Let_def clear_timer_def set_timer_def drop_frame_def messageRequester_def send_def
        split: option.split)
qed


lemma moves_drop_requests: "moves_requests b (drop_frame t b)"
  unfolding moves_requests_def
proof (intro impI conjI allI)
  assume ok: "requests_ok b"
  have at: "request_at (drop_frame t b) = request_at b" "ready (drop_frame t b) = ready b"
    "b_nextRequest (drop_frame t b) = b_nextRequest b"
    by (auto simp: drop_frame_def request_at_def ready_def fun_eq_iff)
  with ok show "requests_ok (drop_frame t b)" by (simp add: requests_ok_def frame_at_drop)
  have "live (drop_frame t b) i \<subseteq> live b i" for i
    using at by (auto simp: live_def awaiting_def frame_at_drop split: if_splits)
  then have "card (live (drop_frame t b) i) \<le> card (live b i)" for i by (intro card_mono finite_live [OF ok])
  with at show "request_token (drop_frame t b) i \<le> request_token b i" for i by (simp add: request_token_def)
qed

lemma moves_continue_accept_requests: "moves_requests b (continue_accept t b)"
proof (cases "obj_get (b_accepts b) t")
  case (Some fr)
  show ?thesis
  proof (cases "af_stage fr")
    case AwaitRunner
    then show ?thesis using Some moves_accepted_requests [OF Some AwaitRunner] moves_rejected_requests [OF Some AwaitRunner]
      by (auto simp: continue_accept_def intro: moves_requests_refl split: reply.split option.split)
  next
    case AwaitRequester
    have "request_view (case sendTaskSettings t s (drop_frame t b) of
        (None, b') \<Rightarrow> b' | (Some e, b') \<Rightarrow> send (Unhandled e) (cancelTask t why b')) = request_view (drop_frame t b)" for s why
      using request_view_sendTaskSettings [of t s "drop_frame t b"]
      by (cases "sendTaskSettings t s (drop_frame t b)") (simp add: request_view_simps split: option.split)
    then have "continue_accept t b = b \<or> request_view (continue_accept t b) = request_view (drop_frame t b)"
      using Some AwaitRequester
      by (simp add: continue_accept_def request_view_simps split: reply.split reject_reason.split)
    then show ?thesis
      using moves_requests_refl moves_requests_trans [OF moves_drop_requests moves_requests_view] by metis
  qed
qed (simp add: continue_accept_def moves_requests_refl)

text \<open>How often an event asks for a task.\<close>

definition asks :: "string \<Rightarrow> broker_event \<Rightarrow> bool" where
  "asks i e = (case e of FromRequester now q (TaskRequest i' ty) \<Rightarrow> i' = i | _ \<Rightarrow> False)"

lemma request_token_taskRequested:
  assumes ok: "requests_ok b"
  shows "requests_ok (taskRequested nanoid now q i ty b)
    \<and> (\<forall>j. request_token (taskRequested nanoid now q i ty b) j \<le> request_token b j + (if j = i then 1 else 0))"
proof -
  let ?ref = "b_nextRequest b"
  let ?b1 = "b\<lparr>b_requests := obj_set ?ref \<lparr>rq_requestId = i, rq_requesterId = q, rq_taskType = ty, rq_timeout = None,
    rq_acceptInProgress = False\<rparr> (b_requests b), b_nextRequest := Suc ?ref\<rparr>"
  let ?b2 = "createRequestTimeout ?ref i ?b1"
  let ?b3 = "?b2\<lparr>b_pending := b_pending ?b2 @ [?ref]\<rparr>"
  have b1: "requests_ok ?b1 \<and> (\<forall>j. request_token ?b1 j \<le> request_token b j + (if j = i then 1 else 0))"
    by (rule request_asked [OF ok]) (auto simp: request_at_def frame_at_def ready_def fun_eq_iff js_simps)
  have "request_view ?b3 = request_view ?b1" by (simp add: request_view_simps)
  then have "moves_requests ?b1 (settleTasks nanoid now ?b3)"
    by (rule moves_requests_trans [OF moves_requests_view moves_settleTasks_requests])
  moreover have "taskRequested nanoid now q i ty b = settleTasks nanoid now ?b3" by (simp add: taskRequested_def Let_def)
  ultimately show ?thesis using b1 unfolding moves_requests_def by (metis le_trans)
qed

lemma moves_taskOffered_requests: "moves_requests b (taskOffered nanoid now x b)"
  unfolding taskOffered_def
  by (rule moves_requests_trans [OF moves_requests_view moves_settleTasks_requests]) (simp add: request_view_simps)

lemma moves_onRunnerMessage_requests: "moves_requests b (onRunnerMessage nanoid now r msg b)"
proof (cases "\<exists>i ty v. msg = TaskOffer i ty v")
  case True
  then show ?thesis by (auto simp: onRunnerMessage_def moves_taskOffered_requests moves_requests_refl)
next
  case False
  have "request_view (onRunnerMessage nanoid now r msg b) = request_view b"
    using False by (cases msg) (auto simp: onRunnerMessage_def handleRunnerAccept_def handleRunnerReject_def handleRunnerDeferred_def
        request_view_simps request_view_forward_to_requester)
  then show ?thesis by (rule moves_requests_view)
qed

lemma request_token_on:
  assumes "requests_ok b"
  shows "requests_ok (broker_on nanoid e b)
    \<and> (\<forall>i. request_token (broker_on nanoid e b) i \<le> request_token b i + (if asks i e then 1 else 0))"
proof (cases "\<exists>now q i ty. e = FromRequester now q (TaskRequest i ty)")
  case True
  then obtain now q i ty where e: "e = FromRequester now q (TaskRequest i ty)" by blast
  have "asks j e = (j = i)" for j by (auto simp: asks_def e)
  with request_token_taskRequested [OF assms, of nanoid now q i ty] show ?thesis
    by (simp add: e onRequesterMessage_def)
next
  case False
  have "moves_requests b (broker_on nanoid e b)"
  proof (cases e)
    case (FromRequester now q msg)
    then have "request_view (broker_on nanoid e b) = request_view b" using False
      by (cases msg) (auto simp: onRequesterMessage_def handleRequesterAccept_def request_view_simps)
    then show ?thesis by (rule moves_requests_view)
  next
    case (RegisterRunner r)
    then have "request_view (broker_on nanoid e b) = request_view b" by (simp add: registerRunner_def request_view_simps)
    then show ?thesis by (rule moves_requests_view)
  qed (simp_all add: moves_onRunnerMessage_requests moves_continue_accept_requests moves_requests_view registerRequester_def
      deregisterRequester_def request_view_simps)
  with assms have "requests_ok (broker_on nanoid e b)" "request_token (broker_on nanoid e b) i \<le> request_token b i" for i
    by (simp_all add: moves_requests_def)
  then show ?thesis by (simp add: le_SucI)
qed

lemma request_token_run:
  "requests_ok b \<Longrightarrow> request_token (broker_run nanoid es b) i \<le> request_token b i + length (filter (asks i) es)"
proof (induction es arbitrary: b)
  case (Cons e es)
  note on = request_token_on [OF Cons.prems, of nanoid e]
  have "request_token (broker_run nanoid es (broker_on nanoid e b)) i
      \<le> request_token b i + (if asks i e then 1 else 0) + length (filter (asks i) es)"
    using Cons.IH [of "broker_on nanoid e b"] on by (meson add_le_mono le_trans order_refl)
  then show ?case by (simp add: broker_run_def split: if_splits)
qed (simp add: broker_run_def)

text \<open>
  C20: A requester is told at most as often that a task is ready as it asked for one under that
  identifier: no request is given to two runners that both execute it, also when runners reject it,
  defer it or do not reply.
\<close>

theorem requests_ready_once:
  assumes "newBroker mode taskTimeout = Inr b0"
  shows "ready (broker_run nanoid es b0) i \<le> length (filter (asks i) es)"
proof -
  have "requests_ok b0" "request_token b0 i = 0"
    using assms by (auto simp: newBroker_def requests_ok_def request_token_def ready_def live_def request_at_def frame_at_def split: if_splits)
  with request_token_run [of b0 nanoid es i] show ?thesis by (simp add: request_token_def)
qed

subsection \<open>A task from its request to its end\<close>

definition started_broker :: broker where
  "started_broker = (case newBroker Internal 300 of Inr b \<Rightarrow> b | Inl e \<Rightarrow> undefined)"

lemma started_broker: "newBroker Internal 300 = Inr started_broker"
  by (simp add: started_broker_def newBroker_def)

definition one_task :: "broker_event list" where
  "one_task = [RegisterRunner \<lparr>tr_id = ''r'', tr_taskTypes = [''js'']\<rparr>, RegisterRequester ''q'',
     FromRunner 0 ''r'' (TaskOffer ''o1'' ''js'' 5000), FromRequester 1 ''q'' (TaskRequest ''i'' ''js''),
     FromRunner 2 ''r'' (TaskAccepted ''0''), Continues ''0'', FromRequester 3 ''q'' (TaskSettings ''0'' JNull), Continues ''0'',
     FromRunner 4 ''r'' (TaskDone ''0'' JNull), Forgets ''0'']"

lemma one_task_sent:
  "b_sent (broker_run nat_str one_task started_broker) =
     [ToRunner ''r'' RunnerRegistered, ToRunner ''r'' (TaskOfferAccept ''o1'' ''0''), ToRequester ''q'' (TaskReady ''i'' ''0''),
      ToRunner ''r'' (RunnerTaskSettings ''0'' JNull), ToRequester ''q'' (RequesterTaskDone ''0'' JNull)]"
  by code_simp

lemma task_ends_once_witness:
  "ends ''0'' (broker_run nat_str one_task started_broker) = 1 \<and> \<not> has_task ''0'' (broker_run nat_str one_task started_broker)"
proof -
  have "ends ''0'' (broker_run nat_str one_task started_broker) = 1" "prompt nat_str one_task started_broker"
    "b_ending (broker_run nat_str one_task started_broker) = []" by code_simp+
  with task_ends_once [OF inj_nat_str started_broker, of one_task "''0''"] show ?thesis by auto
qed

text \<open>A requester whose callback is slow is told of the end of a task again by what arrives in between.\<close>

definition told_twice :: "broker_event list" where
  "told_twice = butlast one_task @ [FromRunner 5 ''r'' (TaskError ''0'' JNull), Forgets ''0'', Forgets ''0'']"

lemma slow_requester_told_twice:
  "ends ''0'' (broker_run nat_str told_twice started_broker) = 2" "\<not> prompt nat_str told_twice started_broker"
  by code_simp+

lemma offers_accepted_once_witness: "accepted (broker_run nat_str one_task started_broker) ''r'' ''o1'' \<le> 1"
proof -
  have "length (filter (makes_offer ''r'' ''o1'') one_task) = 1" by code_simp
  with offers_accepted_once [OF started_broker, of nat_str one_task "''r''" "''o1''"] show ?thesis by simp
qed

lemma requests_ready_once_witness: "ready (broker_run nat_str one_task started_broker) ''i'' \<le> 1"
proof -
  have "length (filter (asks ''i'') one_task) = 1" by code_simp
  with requests_ready_once [OF started_broker, of nat_str one_task "''i''"] show ?thesis by simp
qed

text \<open>
  A request that is deferred is put on the list of pending requests although it is still there. When it is
  accepted later one of the two entries stays, marked as in progress and without a timer: it is
  neither given to a runner nor does it expire.
\<close>

definition deferred_task :: "broker_event list" where
  "deferred_task = [RegisterRunner \<lparr>tr_id = ''r'', tr_taskTypes = [''js'']\<rparr>, RegisterRequester ''q'',
     FromRunner 0 ''r'' (TaskOffer ''o1'' ''js'' (-1)), FromRequester 1 ''q'' (TaskRequest ''i'' ''js''),
     FromRunner 2 ''r'' (TaskDeferred ''0''), Continues ''0'',
     FromRunner 3 ''r'' (TaskOffer ''o2'' ''js'' 5000), FromRunner 4 ''r'' (TaskAccepted ''1''), Continues ''1'',
     FromRequester 5 ''q'' (TaskSettings ''1'' JNull), Continues ''1'', FromRunner 6 ''r'' (TaskDone ''1'' JNull), Forgets ''1'']"

lemma deferred_request_stays:
  "case broker_run nat_str deferred_task started_broker of b \<Rightarrow>
     b_pending b = [0] \<and> b_tasks b = [] \<and> b_accepts b = []
     \<and> (case obj_get (b_requests b) 0 of None \<Rightarrow> False
        | Some rq \<Rightarrow> rq_acceptInProgress rq \<and> (case rq_timeout rq of None \<Rightarrow> False | Some h \<Rightarrow> obj_get (b_timers b) h = None))"
  by code_simp

text \<open>
  A request that expires while its offer is being accepted: the requester is told that it expired, the
  runner goes on to wait for settings, and the task stays known without a timer.
\<close>

lemma expired_request_leaves_task:
  "case broker_run nat_str [RegisterRunner \<lparr>tr_id = ''r'', tr_taskTypes = [''js'']\<rparr>, RegisterRequester ''q'',
     FromRunner 0 ''r'' (TaskOffer ''o1'' ''js'' 5000), FromRequester 1 ''q'' (TaskRequest ''i'' ''js''),
     TimerFires 0, FromRunner 2 ''r'' (TaskAccepted ''0''), Continues ''0''] started_broker of b \<Rightarrow>
   map_option tk_timeout (obj_get (b_tasks b) ''0'') = Some None \<and> b_accepts b = [] \<and> ready b ''i'' = 0
   \<and> ToRequester ''q'' (RequestExpired ''i'') \<in> set (b_sent b)"
  by code_simp

end
