(* ===== verification/TaskRunner.thy ===== *)
theory TaskRunner
  imports TaskBroker
begin

section \<open>The task runner\<close>

text \<open>
  \<open>packages/@n8n/task-runner/src/task-runner.ts\<close> and \<open>task-state.ts\<close>: a runner offers as many tasks as
  it has room for, accepts tasks for its offers, waits for their settings and executes them. The
  state of a task is an object shared between the map of running tasks and the continuations of
  its execution, so it lives in \<open>rn_states\<close>. Executing a task is code of a subclass: its end is an event. A
  request to the broker is a promise in a map until its continuation has run. Clock, \<open>nanoid\<close> and
  random numbers are arguments; sending over the socket does not throw.
\<close>

subsection \<open>State\<close>

datatype task_status = WaitingForSettings | TaskRunning | AbortingCancelled | AbortingTimeout

record task_state =
  ts_taskId :: string
  ts_status :: task_status
  ts_timer :: bool
  ts_aborted :: "string option"

text \<open>A request or a call, and what it was answered: data, or an error it is rejected with.\<close>

record pending_request =
  pr_taskId :: string
  pr_answer :: "(json + json) option"

record runner =
  rn_taskType :: string
  rn_maxConcurrency :: int
  rn_idleTimeout :: nat
  rn_timeoutError :: json
  rn_canSendOffers :: bool
  rn_offerInterval :: bool
  rn_runningTasks :: "nat obj"
  rn_states :: "(nat, task_state) jsmap"
  rn_executing :: "nat list"
  rn_openOffers :: "int obj"
  rn_dataRequests :: "pending_request obj"
  rn_nodeTypesRequests :: "pending_request obj"
  rn_rpcCalls :: "pending_request obj"
  rn_idleTimer :: bool
  rn_nextState :: nat
  rn_nextName :: nat
  rn_sent :: "runner_message list"

text \<open>What is outside: names made by \<open>nanoid\<close> and the results of \<open>randomInt(500)\<close>, numbered.\<close>

record runner_env =
  re_nanoid :: "nat \<Rightarrow> string"
  re_randomInt :: "nat \<Rightarrow> int"

definition runner_send :: "runner_message \<Rightarrow> runner \<Rightarrow> runner" where
  "runner_send msg r = r\<lparr>rn_sent := rn_sent r @ [msg]\<rparr>"

definition resetIdleTimer :: "runner \<Rightarrow> runner" where
  "resetIdleTimer r = (if rn_idleTimeout r = 0 then r else r\<lparr>rn_idleTimer := True\<rparr>)"

definition clearIdleTimer :: "runner \<Rightarrow> runner" where
  "clearIdleTimer r = r\<lparr>rn_idleTimer := False\<rparr>"

definition newRunner :: "string \<Rightarrow> int \<Rightarrow> nat \<Rightarrow> json \<Rightarrow> runner" where
  "newRunner taskType maxConcurrency idleTimeout timeoutError =
     resetIdleTimer \<lparr>rn_taskType = taskType, rn_maxConcurrency = maxConcurrency, rn_idleTimeout = idleTimeout,
       rn_timeoutError = timeoutError, rn_canSendOffers = False, rn_offerInterval = False, rn_runningTasks = [],
       rn_states = [], rn_executing = [], rn_openOffers = [], rn_dataRequests = [], rn_nodeTypesRequests = [],
       rn_rpcCalls = [], rn_idleTimer = False, rn_nextState = 0, rn_nextName = 0, rn_sent = []\<rparr>"

subsection \<open>Offers\<close>

definition stopTaskOffers :: "runner \<Rightarrow> runner" where
  "stopTaskOffers r = r\<lparr>rn_canSendOffers := False, rn_offerInterval := False\<rparr>"

definition startTaskOffers :: "runner \<Rightarrow> runner" where
  "startTaskOffers r = r\<lparr>rn_canSendOffers := True, rn_offerInterval := True\<rparr>"

definition deleteStaleOffers :: "int \<Rightarrow> runner \<Rightarrow> runner" where
  "deleteStaleOffers now r = r\<lparr>rn_openOffers := filter (\<lambda>(_, validUntil). \<not> validUntil < now) (rn_openOffers r)\<rparr>"

definition OFFER_VALID_TIME_MS :: int where "OFFER_VALID_TIME_MS = 5000"

definition OFFER_VALID_EXTRA_MS :: int where "OFFER_VALID_EXTRA_MS = 100"

definition msToNs :: "int \<Rightarrow> int" where "msToNs ms = ms * 1000000"

definition sendOffer :: "runner_env \<Rightarrow> int \<Rightarrow> runner \<Rightarrow> runner" where
  "sendOffer env now r =
     (let validForInMs = OFFER_VALID_TIME_MS + re_randomInt env (rn_nextName r);
          validUntil = now + msToNs (validForInMs + OFFER_VALID_EXTRA_MS);
          offerId = re_nanoid env (rn_nextName r)
      in runner_send (TaskOffer offerId (rn_taskType r) validForInMs)
           (r\<lparr>rn_openOffers := obj_set offerId validUntil (rn_openOffers r), rn_nextName := Suc (rn_nextName r)\<rparr>))"

definition sendOffers :: "runner_env \<Rightarrow> int \<Rightarrow> runner \<Rightarrow> runner" where
  "sendOffers env now r =
     (let r1 = deleteStaleOffers now r;
          offersToSend = rn_maxConcurrency r1 - (int (length (rn_openOffers r1)) + int (length (rn_runningTasks r1)))
      in if \<not> rn_canSendOffers r1 then r1
         else (sendOffer env now ^^ nat offersToSend) r1)"

definition hasOpenTaskSlots :: "runner \<Rightarrow> bool" where
  "hasOpenTaskSlots r = (int (length (rn_runningTasks r)) < rn_maxConcurrency r)"

definition offerAccepted :: "string \<Rightarrow> string \<Rightarrow> runner \<Rightarrow> runner" where
  "offerAccepted offerId taskId r =
     (if \<not> hasOpenTaskSlots r
      then runner_send (TaskRejected taskId ''No open task slots - runner already at capacity'')
             (r\<lparr>rn_openOffers := obj_del offerId (rn_openOffers r)\<rparr>)
      else if \<not> obj_has offerId (rn_openOffers r)
      then runner_send (TaskRejected taskId ''Offer expired - not accepted within validity window'') r
      else let r1 = resetIdleTimer (r\<lparr>rn_openOffers := obj_del offerId (rn_openOffers r)\<rparr>); ref = rn_nextState r1
           in runner_send (TaskAccepted taskId)
                (r1\<lparr>rn_states := obj_set ref \<lparr>ts_taskId = taskId, ts_status = WaitingForSettings, ts_timer = True, ts_aborted = None\<rparr>
                      (rn_states r1),
                    rn_runningTasks := obj_set taskId ref (rn_runningTasks r1), rn_nextState := Suc ref\<rparr>))"

subsection \<open>Requests of a task to the broker\<close>

datatype request_kind = DataRequest | NodeTypesRequestKind | RpcCall

definition add_request :: "request_kind \<Rightarrow> string \<Rightarrow> string \<Rightarrow> runner \<Rightarrow> runner" where
  "add_request kind requestId taskId r =
     (let p = \<lparr>pr_taskId = taskId, pr_answer = None\<rparr>
      in case kind of
           DataRequest \<Rightarrow> r\<lparr>rn_dataRequests := obj_set requestId p (rn_dataRequests r)\<rparr>
         | NodeTypesRequestKind \<Rightarrow> r\<lparr>rn_nodeTypesRequests := obj_set requestId p (rn_nodeTypesRequests r)\<rparr>
         | RpcCall \<Rightarrow> r\<lparr>rn_rpcCalls := obj_set requestId p (rn_rpcCalls r)\<rparr>)"

definition requestData :: "runner_env \<Rightarrow> string \<Rightarrow> json \<Rightarrow> runner \<Rightarrow> runner" where
  "requestData env taskId requestParams r =
     (let requestId = re_nanoid env (rn_nextName r)
      in runner_send (TaskDataRequest taskId requestId requestParams)
           (add_request DataRequest requestId taskId (r\<lparr>rn_nextName := Suc (rn_nextName r)\<rparr>)))"

definition requestNodeTypes :: "runner_env \<Rightarrow> string \<Rightarrow> json \<Rightarrow> runner \<Rightarrow> runner" where
  "requestNodeTypes env taskId requestParams r =
     (let requestId = re_nanoid env (rn_nextName r)
      in runner_send (NodeTypesRequest taskId requestId requestParams)
           (add_request NodeTypesRequestKind requestId taskId (r\<lparr>rn_nextName := Suc (rn_nextName r)\<rparr>)))"

definition makeRpcCall :: "runner_env \<Rightarrow> string \<Rightarrow> string \<Rightarrow> json \<Rightarrow> runner \<Rightarrow> runner" where
  "makeRpcCall env taskId name params r =
     (let callId = re_nanoid env (rn_nextName r)
      in runner_send (Rpc taskId callId name params)
           (add_request RpcCall callId taskId (r\<lparr>rn_nextName := Suc (rn_nextName r)\<rparr>)))"

text \<open>A promise that has been settled is not settled again.\<close>

definition answer :: "json + json \<Rightarrow> string \<Rightarrow> pending_request obj \<Rightarrow> pending_request obj" where
  "answer v requestId ps =
     (case obj_get ps requestId of
        None \<Rightarrow> ps
      | Some p \<Rightarrow> if pr_answer p = None then obj_set requestId (p\<lparr>pr_answer := Some v\<rparr>) ps else ps)"

definition processDataResponse :: "string \<Rightarrow> json \<Rightarrow> runner \<Rightarrow> runner" where
  "processDataResponse requestId data r = r\<lparr>rn_dataRequests := answer (Inr data) requestId (rn_dataRequests r)\<rparr>"

definition processNodeTypesResponse :: "string \<Rightarrow> json \<Rightarrow> runner \<Rightarrow> runner" where
  "processNodeTypesResponse requestId nodeTypes r =
     r\<lparr>rn_nodeTypesRequests := answer (Inr nodeTypes) requestId (rn_nodeTypesRequests r)\<rparr>"

definition handleRpcResponse :: "string \<Rightarrow> string \<Rightarrow> json \<Rightarrow> runner \<Rightarrow> runner" where
  "handleRpcResponse callId status data r =
     r\<lparr>rn_rpcCalls := answer (if status = ''success'' then Inr data else Inl data) callId (rn_rpcCalls r)\<rparr>"

text \<open>The \<open>finally\<close> of a request whose promise has settled.\<close>

definition forget_answered :: "string \<Rightarrow> pending_request obj \<Rightarrow> pending_request obj" where
  "forget_answered requestId ps =
     (case obj_get ps requestId of
        None \<Rightarrow> ps
      | Some p \<Rightarrow> if pr_answer p = None then ps else obj_del requestId ps)"

definition request_continues :: "request_kind \<Rightarrow> string \<Rightarrow> runner \<Rightarrow> runner" where
  "request_continues kind requestId r =
     (case kind of
        DataRequest \<Rightarrow> r\<lparr>rn_dataRequests := forget_answered requestId (rn_dataRequests r)\<rparr>
      | NodeTypesRequestKind \<Rightarrow> r\<lparr>rn_nodeTypesRequests := forget_answered requestId (rn_nodeTypesRequests r)\<rparr>
      | RpcCall \<Rightarrow> r\<lparr>rn_rpcCalls := forget_answered requestId (rn_rpcCalls r)\<rparr>)"

text \<open>The requests of the task are rejected and deleted; its calls of methods are not.\<close>

definition cancelTaskRequests :: "string \<Rightarrow> runner \<Rightarrow> runner" where
  "cancelTaskRequests taskId r =
     r\<lparr>rn_dataRequests := filter (\<lambda>(_, p). pr_taskId p \<noteq> taskId) (rn_dataRequests r),
       rn_nodeTypesRequests := filter (\<lambda>(_, p). pr_taskId p \<noteq> taskId) (rn_nodeTypesRequests r)\<rparr>"

subsection \<open>The life of a task\<close>

definition change_state :: "nat \<Rightarrow> (task_state \<Rightarrow> task_state) \<Rightarrow> runner \<Rightarrow> runner" where
  "change_state ref f r =
     (case obj_get (rn_states r) ref of None \<Rightarrow> r | Some s \<Rightarrow> r\<lparr>rn_states := obj_set ref (f s) (rn_states r)\<rparr>)"

definition finishTask :: "runner_env \<Rightarrow> int \<Rightarrow> nat \<Rightarrow> task_state \<Rightarrow> runner \<Rightarrow> runner" where
  "finishTask env now ref s r =
     (let r1 = change_state ref (\<lambda>s. s\<lparr>ts_timer := False\<rparr>) r
      in resetIdleTimer (sendOffers env now (r1\<lparr>rn_runningTasks := obj_del (ts_taskId s) (rn_runningTasks r1)\<rparr>)))"

definition running_state :: "runner \<Rightarrow> string \<Rightarrow> (nat \<times> task_state) option" where
  "running_state r taskId =
     (case obj_get (rn_runningTasks r) taskId of
        None \<Rightarrow> None
      | Some ref \<Rightarrow> map_option (Pair ref) (obj_get (rn_states r) ref))"

definition abort_task :: "task_status \<Rightarrow> string \<Rightarrow> nat \<Rightarrow> string \<Rightarrow> runner \<Rightarrow> runner" where
  "abort_task status why ref taskId r =
     cancelTaskRequests taskId (change_state ref (\<lambda>s. s\<lparr>ts_status := status, ts_aborted := Some why\<rparr>) r)"

text \<open>The first part of a result is the error that is thrown, an assertion that the status is unexpected.\<close>

definition taskCancelled :: "runner_env \<Rightarrow> int \<Rightarrow> string \<Rightarrow> string \<Rightarrow> runner \<Rightarrow> js_error option \<times> runner" where
  "taskCancelled env now taskId reason r =
     (case running_state r taskId of
        None \<Rightarrow> (None, r)
      | Some (ref, s) \<Rightarrow>
          (case ts_status s of
             WaitingForSettings \<Rightarrow> (None, finishTask env now ref s r)
           | TaskRunning \<Rightarrow> (None, abort_task AbortingCancelled ''cancelled'' ref taskId r)
           | _ \<Rightarrow> (None, r)))"

definition taskTimedOut :: "runner_env \<Rightarrow> int \<Rightarrow> string \<Rightarrow> runner \<Rightarrow> js_error option \<times> runner" where
  "taskTimedOut env now taskId r =
     (case running_state r taskId of
        None \<Rightarrow> (None, r)
      | Some (ref, s) \<Rightarrow>
          (case ts_status s of
             WaitingForSettings \<Rightarrow> (None, finishTask env now ref s (runner_send (TaskError taskId (rn_timeoutError r)) r))
           | TaskRunning \<Rightarrow> (None, abort_task AbortingTimeout ''timeout'' ref taskId r)
           | AbortingCancelled \<Rightarrow> (None, r)
           | AbortingTimeout \<Rightarrow> (Some AssertionError, r)))"

definition receivedSettings :: "string \<Rightarrow> json \<Rightarrow> runner \<Rightarrow> js_error option \<times> runner" where
  "receivedSettings taskId settings r =
     (case running_state r taskId of
        None \<Rightarrow> (None, r)
      | Some (ref, s) \<Rightarrow>
          if ts_status s = WaitingForSettings
          then (None, (change_state ref (\<lambda>s. s\<lparr>ts_status := TaskRunning\<rparr>) r)\<lparr>rn_executing := rn_executing r @ [ref]\<rparr>)
          else (Some AssertionError, r))"

text \<open>
  What runs when the execution of a task has settled. The end of the task is sent unless it was
  cancelled; a task whose status is unexpected throws, and is finished all the same, twice when the error is
  thrown in the handler of a result, since the handler of errors is run then.
\<close>

definition execution_ends :: "runner_env \<Rightarrow> int \<Rightarrow> nat \<Rightarrow> json + json \<Rightarrow> runner \<Rightarrow> js_error option \<times> runner" where
  "execution_ends env now ref result r =
     (case obj_get (rn_states r) ref of
        None \<Rightarrow> (None, r)
      | Some s \<Rightarrow>
          let r1 = r\<lparr>rn_executing := remove1 ref (rn_executing r)\<rparr>;
              msg = (case result of Inr data \<Rightarrow> TaskDone (ts_taskId s) data | Inl error \<Rightarrow> TaskError (ts_taskId s) error)
          in (case ts_status s of
                WaitingForSettings \<Rightarrow> (Some AssertionError,
                  (case result of Inr _ \<Rightarrow> finishTask env now ref s (finishTask env now ref s r1) | Inl _ \<Rightarrow> finishTask env now ref s r1))
              | AbortingCancelled \<Rightarrow> (None, finishTask env now ref s r1)
              | _ \<Rightarrow> (None, finishTask env now ref s (runner_send msg r1))))"

subsection \<open>The runner as a machine\<close>

definition onMessage :: "runner_env \<Rightarrow> int \<Rightarrow> to_runner \<Rightarrow> runner \<Rightarrow> js_error option \<times> runner" where
  "onMessage env now msg r =
     (case msg of
        InfoRequest \<Rightarrow> (None, runner_send RunnerInfo r)
      | RunnerRegistered \<Rightarrow> (None, startTaskOffers r)
      | TaskOfferAccept offerId taskId \<Rightarrow> (None, offerAccepted offerId taskId r)
      | RunnerTaskCancel taskId reason \<Rightarrow> taskCancelled env now taskId reason r
      | RunnerTaskSettings taskId settings \<Rightarrow> receivedSettings taskId settings r
      | RunnerDataResponse taskId requestId data \<Rightarrow> (None, processDataResponse requestId data r)
      | RunnerRpcResponse taskId callId status data \<Rightarrow> (None, handleRpcResponse callId status data r)
      | RunnerNodeTypes taskId requestId nodeTypes \<Rightarrow> (None, processNodeTypesResponse requestId nodeTypes r))"

text \<open>The part of \<open>stop\<close> before the runner waits for its tasks.\<close>

definition stop :: "runner \<Rightarrow> runner" where
  "stop r = stopTaskOffers (clearIdleTimer r)"

datatype runner_event =
    Receives to_runner
  | OfferInterval
  | TimesOut string
  | ExecutionEnds nat "json + json"
  | AsksData string json
  | AsksNodeTypes string json
  | CallsRpc string string json
  | RequestContinues request_kind string
  | Closes
  | Stops

text \<open>
  What may happen, with the error that is thrown. An interval that was cleared does not fire, nor does the
  timer of a task that is finished; an execution ends once.
\<close>

inductive runner_step :: "runner_env \<Rightarrow> runner \<Rightarrow> runner_event \<Rightarrow> js_error option \<Rightarrow> runner \<Rightarrow> bool" for env where
  receives: "onMessage env now msg r = (e, r') \<Longrightarrow> runner_step env r (Receives msg) e r'"
| offers: "rn_offerInterval r \<Longrightarrow> runner_step env r OfferInterval None (sendOffers env now r)"
| times_out: "obj_get (rn_states r) ref = Some s \<Longrightarrow> ts_timer s \<Longrightarrow> r1 = change_state ref (\<lambda>s. s\<lparr>ts_timer := False\<rparr>) r \<Longrightarrow>
    taskTimedOut env now (ts_taskId s) r1 = (e, r') \<Longrightarrow> runner_step env r (TimesOut (ts_taskId s)) e r'"
| ends: "ref \<in> set (rn_executing r) \<Longrightarrow> execution_ends env now ref result r = (e, r') \<Longrightarrow>
    runner_step env r (ExecutionEnds ref result) e r'"
| asks_data: "runner_step env r (AsksData taskId ps) None (requestData env taskId ps r)"
| asks_node_types: "runner_step env r (AsksNodeTypes taskId ps) None (requestNodeTypes env taskId ps r)"
| calls_rpc: "runner_step env r (CallsRpc taskId name ps) None (makeRpcCall env taskId name ps r)"
| continues: "runner_step env r (RequestContinues kind requestId) None (request_continues kind requestId r)"
| closes: "runner_step env r Closes None (stopTaskOffers r)"
| stops: "runner_step env r Stops None (stop r)"

inductive_cases runner_stepE: "runner_step env r ev e r'"

end
