(* ===== verification/TaskRunnerFacts.thy ===== *)
theory TaskRunnerFacts
  imports TaskRunner
begin

section \<open>What the task runner promises\<close>

text \<open>
  In every history the open offers and the running tasks together fit into the concurrency of the
  runner, so an offer that is still open is never turned down; a task moves only along the
  life cycle that the source draws; and its end is sent at most once per acceptance.
\<close>

subsection \<open>Room for tasks\<close>

definition room_ok :: "int \<Rightarrow> runner \<Rightarrow> bool" where
  "room_ok m r \<longleftrightarrow> rn_maxConcurrency r = m
     \<and> int (length (rn_openOffers r)) + int (length (rn_runningTasks r)) \<le> rn_maxConcurrency r"

lemma length_obj_set: "length (obj_set k v m) \<le> Suc (length m)"
  by (induction m) auto

lemma length_obj_del: "length (obj_del k m) \<le> length m"
  by (simp add: obj_del_def)

lemma length_obj_del_has:
  assumes "obj_has k m"
  shows "length (obj_del k m) < length m"
proof -
  from assms obtain v where "(k, v) \<in> set m" by (auto simp: obj_has_def dest: map_of_SomeD)
  then show ?thesis unfolding obj_del_def by (intro length_filter_less [where x = "(k, v)"]) auto
qed

definition room_view :: "runner \<Rightarrow> nat \<times> nat \<times> int" where
  "room_view r = (length (rn_openOffers r), length (rn_runningTasks r), rn_maxConcurrency r)"

lemma room_ok_view: "room_view r' = room_view r \<Longrightarrow> room_ok m r \<Longrightarrow> room_ok m r'"
  by (simp add: room_view_def room_ok_def)

lemma room_view_parts [simp]:
  "room_view (runner_send m r) = room_view r" "room_view (resetIdleTimer r) = room_view r" "room_view (clearIdleTimer r) = room_view r"
  "room_view (startTaskOffers r) = room_view r" "room_view (stopTaskOffers r) = room_view r"
  "room_view (change_state ref f r) = room_view r" "room_view (cancelTaskRequests t r) = room_view r"
  "room_view (abort_task st why ref t r) = room_view r" "room_view (add_request k i t r) = room_view r"
  "room_view (request_continues k i r) = room_view r" "room_view (processDataResponse i d r) = room_view r"
  "room_view (processNodeTypesResponse i d r) = room_view r" "room_view (handleRpcResponse i code d r) = room_view r"
  "room_view (r\<lparr>rn_executing := ex\<rparr>) = room_view r" "room_view (r\<lparr>rn_nextName := n\<rparr>) = room_view r"
  by (simp_all add: room_view_def runner_send_def resetIdleTimer_def clearIdleTimer_def startTaskOffers_def stopTaskOffers_def
      change_state_def cancelTaskRequests_def abort_task_def add_request_def Let_def request_continues_def processDataResponse_def
      processNodeTypesResponse_def handleRpcResponse_def split: option.split request_kind.split)

lemma room_sendOffer:
  "length (rn_openOffers (sendOffer env now r)) \<le> Suc (length (rn_openOffers r))
   \<and> rn_runningTasks (sendOffer env now r) = rn_runningTasks r \<and> rn_maxConcurrency (sendOffer env now r) = rn_maxConcurrency r"
  by (simp add: sendOffer_def Let_def runner_send_def length_obj_set)

lemma room_sendOffers_loop:
  "length (rn_openOffers ((sendOffer env now ^^ n) r)) \<le> n + length (rn_openOffers r)
   \<and> rn_runningTasks ((sendOffer env now ^^ n) r) = rn_runningTasks r
   \<and> rn_maxConcurrency ((sendOffer env now ^^ n) r) = rn_maxConcurrency r"
proof (induction n)
  case (Suc n)
  then show ?case using room_sendOffer [of env now "(sendOffer env now ^^ n) r"] by auto
qed simp

lemma room_sendOffers: "room_ok m r \<Longrightarrow> room_ok m (sendOffers env now r)"
proof -
  assume ok: "room_ok m r"
  let ?r = "deleteStaleOffers now r"
  let ?n = "nat (rn_maxConcurrency ?r - (int (length (rn_openOffers ?r)) + int (length (rn_runningTasks ?r))))"
  have len: "length (rn_openOffers ?r) \<le> length (rn_openOffers r)" by (simp add: deleteStaleOffers_def)
  have same: "rn_runningTasks ?r = rn_runningTasks r" "rn_maxConcurrency ?r = rn_maxConcurrency r"
    by (simp_all add: deleteStaleOffers_def)
  from ok len same have ok': "room_ok m ?r" unfolding room_ok_def same by linarith
  define r' where "r' = (sendOffer env now ^^ ?n) ?r"
  have r': "length (rn_openOffers r') \<le> ?n + length (rn_openOffers ?r)" "rn_runningTasks r' = rn_runningTasks ?r"
    "rn_maxConcurrency r' = rn_maxConcurrency ?r"
    using room_sendOffers_loop [where env = env and now = now and n = ?n and r = ?r] by (simp_all add: r'_def)
  from r'(1) have "int (length (rn_openOffers r')) \<le> int ?n + int (length (rn_openOffers ?r))" by linarith
  moreover have "int ?n = rn_maxConcurrency ?r - (int (length (rn_openOffers ?r)) + int (length (rn_runningTasks ?r)))"
    using ok' by (simp add: room_ok_def)
  ultimately have "room_ok m r'" using ok' unfolding room_ok_def r'(2,3) by linarith
  with ok' show ?thesis by (simp add: sendOffers_def Let_def r'_def)
qed

lemma room_finishTask: "room_ok m r \<Longrightarrow> room_ok m (finishTask env now ref s r)"
proof -
  assume "room_ok m r"
  let ?r = "change_state ref (\<lambda>s. s\<lparr>ts_timer := False\<rparr>) r"
  from room_ok_view [OF room_view_parts(6) \<open>room_ok m r\<close>] have "room_ok m ?r" .
  then have "room_ok m (?r\<lparr>rn_runningTasks := obj_del (ts_taskId s) (rn_runningTasks ?r)\<rparr>)"
    using length_obj_del [of "ts_taskId s" "rn_runningTasks ?r"] by (simp add: room_ok_def)
  from room_ok_view [OF room_view_parts(2) room_sendOffers [OF this]] show ?thesis
    by (simp add: finishTask_def Let_def)
qed

lemma room_offerAccepted:
  assumes ok: "room_ok m r"
  shows "room_ok m (offerAccepted i t r)"
proof -
  let ?r = "r\<lparr>rn_openOffers := obj_del i (rn_openOffers r)\<rparr>"
  have "int (length (obj_del i (rn_openOffers r))) \<le> int (length (rn_openOffers r))" by (simp add: length_obj_del)
  with ok have del: "room_ok m ?r" by (simp add: room_ok_def)
  show ?thesis
  proof (cases "hasOpenTaskSlots r \<and> obj_has i (rn_openOffers r)")
    case False
    then show ?thesis using ok del room_ok_view [OF room_view_parts(1)] by (auto simp: offerAccepted_def)
  next
    case True
    let ?r' = "offerAccepted i t r" and ?m = "obj_set t (rn_nextState r) (rn_runningTasks r)"
    have eqs: "rn_openOffers ?r' = obj_del i (rn_openOffers r)" "rn_runningTasks ?r' = ?m" "rn_maxConcurrency ?r' = rn_maxConcurrency r"
      using True by (simp_all add: offerAccepted_def Let_def runner_send_def resetIdleTimer_def)
    have "length (obj_del i (rn_openOffers r)) < length (rn_openOffers r)"
      by (rule length_obj_del_has) (use True in blast)
    moreover have "length ?m \<le> Suc (length (rn_runningTasks r))" by (rule length_obj_set)
    ultimately show ?thesis using ok unfolding room_ok_def eqs by linarith
  qed
qed

lemma room_cancelled: "room_ok m r \<Longrightarrow> room_ok m (snd (taskCancelled env now t why r))"
  by (auto simp: taskCancelled_def intro: room_finishTask room_ok_view [OF room_view_parts(8)] split: option.split task_status.split)

lemma room_timedOut: "room_ok m r \<Longrightarrow> room_ok m (snd (taskTimedOut env now t r))"
  by (auto simp: taskTimedOut_def intro: room_finishTask room_ok_view [OF room_view_parts(8)] room_ok_view [OF room_view_parts(1)]
      split: option.split task_status.split)

lemma room_settings: "room_ok m r \<Longrightarrow> room_ok m (snd (receivedSettings t st r))"
  by (rule room_ok_view [where r = r]) (auto simp: receivedSettings_def split: option.split)

lemma room_execution_ends: "room_ok m r \<Longrightarrow> room_ok m (snd (execution_ends env now ref result r))"
proof -
  assume ok: "room_ok m r"
  have "room_ok m (runner_send msg (r\<lparr>rn_executing := ex\<rparr>))" "room_ok m (r\<lparr>rn_executing := ex\<rparr>)" for msg ex
    by (rule room_ok_view [OF _ ok], simp)+
  then show ?thesis using ok
    by (simp add: execution_ends_def Let_def room_finishTask split: option.split task_status.split sum.split)
qed

lemmas room_ok_parts = room_view_parts [THEN room_ok_view]

lemma room_onMessage: "room_ok m r \<Longrightarrow> room_ok m (snd (onMessage env now msg r))"
  by (cases msg) (simp_all add: onMessage_def room_offerAccepted room_cancelled room_settings room_ok_parts)

lemma room_requests:
  "room_ok m r \<Longrightarrow> room_ok m (requestData env t ps r)" "room_ok m r \<Longrightarrow> room_ok m (requestNodeTypes env t ps r)"
  "room_ok m r \<Longrightarrow> room_ok m (makeRpcCall env t name ps r)"
  by (simp_all add: requestData_def requestNodeTypes_def makeRpcCall_def Let_def room_ok_parts)

lemma room_step:
  assumes "runner_step env r ev e r'" "room_ok m r"
  shows "room_ok m r'"
  using assms(1)
proof cases
  case (receives now msg)
  then show ?thesis using room_onMessage [OF assms(2), of env now msg] by simp
next
  case (times_out ref s r1 now)
  have "room_ok m r1" using times_out(4) assms(2) by (simp add: room_ok_parts)
  then show ?thesis using times_out(5) room_timedOut [of m r1 env now "ts_taskId s"] by simp
next
  case (ends ref now result)
  then show ?thesis using room_execution_ends [OF assms(2), of env now ref result] by simp
qed (use assms(2) in \<open>simp_all add: room_sendOffers room_requests room_ok_parts stop_def\<close>)

definition runner_does :: "runner_env \<Rightarrow> runner \<Rightarrow> runner_event \<Rightarrow> runner \<Rightarrow> bool" where
  "runner_does env r ev r' \<longleftrightarrow> (\<exists>e. runner_step env r ev e r')"

interpretation room: safe_machine "\<lambda>r. \<exists>ty idle err. 0 \<le> m \<and> r = newRunner ty m idle err" "runner_does env"
  "\<lambda>r es. room_ok m r" for m env
proof unfold_locales
  show "room_ok m r" if "\<exists>ty idle err. 0 \<le> m \<and> r = newRunner ty m idle err" for r
    using that by (auto simp: newRunner_def room_ok_def resetIdleTimer_def)
  show "room_ok m r'" if "room_ok m r" "runner_does env r ev r'" for r ev r'
    using that room_step unfolding runner_does_def by blast
qed

lemma offer_taken:
  assumes "room_ok m r" "obj_has i (rn_openOffers r)"
  shows "rn_sent (offerAccepted i t r) = rn_sent r @ [TaskAccepted t]"
proof -
  have "length (obj_del i (rn_openOffers r)) < length (rn_openOffers r)" by (rule length_obj_del_has) fact
  then have "hasOpenTaskSlots r" using assms(1) unfolding room_ok_def hasOpenTaskSlots_def by linarith
  with assms(2) show ?thesis by (simp add: offerAccepted_def Let_def runner_send_def resetIdleTimer_def)
qed

text \<open>
  C22: In every history of a runner its open offers and its running tasks together fit into its concurrency;
  hence a task for an offer that is still open is always accepted, never rejected for lack of room.
\<close>

theorem runner_capacity:
  assumes "history (runner_does env) (newRunner taskType m idle err) es r" "0 \<le> m"
  shows "int (length (rn_openOffers r)) + int (length (rn_runningTasks r)) \<le> m
    \<and> (\<forall>i t. \<not> obj_has i (rn_openOffers r) \<or> rn_sent (offerAccepted i t r) = rn_sent r @ [TaskAccepted t])"
proof -
  have "room_ok m r" by (rule room.inv_history [OF assms(1)]) (use assms(2) in blast)
  then show ?thesis using offer_taken [of m r] by (auto simp: room_ok_def)
qed

end
