(* ===== verification/TaskRunnerLife.thy ===== *)
theory TaskRunnerLife
  imports TaskRunnerFacts
begin

section \<open>The life of a task\<close>

text \<open>
  The life cycle that \<open>task-state.ts\<close> draws, and that every history of the runner follows it. The
  proofs look at a runner through its \<open>core\<close>: states, running tasks, executions, and how many ends
  of each task were sent. Each operation is one of a few changes of the core.
\<close>

subsection \<open>The core of a runner\<close>

record core =
  c_states :: "nat \<Rightarrow> task_state option"
  c_running :: "string \<Rightarrow> nat option"
  c_executing :: "nat list"
  c_next :: nat
  c_ends :: "string \<Rightarrow> nat"

definition is_task_end :: "string \<Rightarrow> runner_message \<Rightarrow> bool" where
  "is_task_end t msg = (case msg of TaskDone t' _ \<Rightarrow> t' = t | TaskError t' _ \<Rightarrow> t' = t | _ \<Rightarrow> False)"

definition ends_sent :: "string \<Rightarrow> runner \<Rightarrow> nat" where
  "ends_sent t r = length (filter (is_task_end t) (rn_sent r))"

definition core_of :: "runner \<Rightarrow> core" where
  "core_of r = \<lparr>c_states = obj_get (rn_states r), c_running = obj_get (rn_runningTasks r), c_executing = rn_executing r,
     c_next = rn_nextState r, c_ends = (\<lambda>t. ends_sent t r)\<rparr>"

definition c_set :: "nat \<Rightarrow> (task_state \<Rightarrow> task_state) \<Rightarrow> core \<Rightarrow> core" where
  "c_set ref f c = c\<lparr>c_states := (c_states c)(ref := map_option f (c_states c ref))\<rparr>"

definition c_create :: "string \<Rightarrow> core \<Rightarrow> core" where
  "c_create t c = c\<lparr>c_states := (c_states c)(c_next c \<mapsto>
       \<lparr>ts_taskId = t, ts_status = WaitingForSettings, ts_timer = True, ts_aborted = None\<rparr>),
     c_running := (c_running c)(t \<mapsto> c_next c), c_next := Suc (c_next c)\<rparr>"

definition c_end :: "string \<Rightarrow> core \<Rightarrow> core" where
  "c_end t c = c\<lparr>c_ends := (c_ends c)(t := Suc (c_ends c t))\<rparr>"

definition c_finish :: "nat \<Rightarrow> string \<Rightarrow> core \<Rightarrow> core" where
  "c_finish ref t c = (c_set ref (\<lambda>s. s\<lparr>ts_timer := False\<rparr>) c)\<lparr>c_running := (c_running c)(t := None)\<rparr>"

lemma core_send: "\<not> is_task_end t msg \<Longrightarrow> ends_sent t (runner_send msg r) = ends_sent t r"
  by (simp add: ends_sent_def runner_send_def)

lemma core_of_send:
  "(\<And>t. \<not> is_task_end t msg) \<Longrightarrow> core_of (runner_send msg r) = core_of r"
  by (simp add: core_of_def core_send) (simp add: runner_send_def)

lemma is_task_end_simps [simp]:
  "\<not> is_task_end t RunnerInfo" "\<not> is_task_end t (TaskAccepted x)" "\<not> is_task_end t (TaskRejected x y)" "\<not> is_task_end t (TaskOffer x y z)"
  "\<not> is_task_end t (TaskDataRequest x y w)" "\<not> is_task_end t (NodeTypesRequest x y w)" "\<not> is_task_end t (Rpc x y y' w)"
  by (simp_all add: is_task_end_def)

lemma core_same [simp]:
  "core_of (r\<lparr>rn_openOffers := m\<rparr>) = core_of r" "core_of (r\<lparr>rn_nextName := n\<rparr>) = core_of r"
  "core_of (resetIdleTimer r) = core_of r" "core_of (clearIdleTimer r) = core_of r"
  "core_of (startTaskOffers r) = core_of r" "core_of (stopTaskOffers r) = core_of r"
  "core_of (cancelTaskRequests t r) = core_of r" "core_of (add_request k i t r) = core_of r"
  "core_of (request_continues k i r) = core_of r" "core_of (processDataResponse i d r) = core_of r"
  "core_of (processNodeTypesResponse i d r) = core_of r" "core_of (handleRpcResponse i code d r) = core_of r"
  "core_of (stop r) = core_of r" "core_of (deleteStaleOffers now r) = core_of r"
  by (simp_all add: core_of_def ends_sent_def resetIdleTimer_def clearIdleTimer_def startTaskOffers_def stopTaskOffers_def
      cancelTaskRequests_def add_request_def Let_def request_continues_def processDataResponse_def
      processNodeTypesResponse_def handleRpcResponse_def stop_def deleteStaleOffers_def split: request_kind.split)

lemma core_requests [simp]:
  "core_of (requestData env t ps r) = core_of r" "core_of (requestNodeTypes env t ps r) = core_of r"
  "core_of (makeRpcCall env t name ps r) = core_of r"
  by (simp_all add: requestData_def requestNodeTypes_def makeRpcCall_def Let_def core_of_send)

lemma core_sendOffer: "core_of (sendOffer env now r) = core_of r"
proof -
  have "core_of (r\<lparr>rn_openOffers := m, rn_nextName := n\<rparr>) = core_of r" for m n by (simp add: core_of_def ends_sent_def)
  then show ?thesis by (simp add: sendOffer_def Let_def core_of_send)
qed

lemma core_sendOffers [simp]: "core_of (sendOffers env now r) = core_of r"
proof -
  have "core_of ((sendOffer env now ^^ n) r') = core_of r'" for n r'
    by (induction n) (simp_all add: core_sendOffer)
  then show ?thesis by (simp add: sendOffers_def Let_def)
qed

lemma core_change_state [simp]: "core_of (change_state ref f r) = c_set ref f (core_of r)"
  by (auto simp: change_state_def core_of_def c_set_def ends_sent_def obj_get_set split: option.split)

lemma core_executing [simp]: "core_of (r\<lparr>rn_executing := ex\<rparr>) = (core_of r)\<lparr>c_executing := ex\<rparr>"
  by (simp add: core_of_def ends_sent_def)

lemma core_end:
  "(\<And>t'. is_task_end t' msg \<longleftrightarrow> t' = t) \<Longrightarrow> core_of (runner_send msg r) = c_end t (core_of r)"
  by (simp add: core_of_def c_end_def ends_sent_def runner_send_def fun_eq_iff)

lemma core_ends [simp]:
  "core_of (runner_send (TaskDone t d) r) = c_end t (core_of r)" "core_of (runner_send (TaskError t d) r) = c_end t (core_of r)"
  by (rule core_end, auto simp: is_task_end_def)+

lemma core_finishTask [simp]: "core_of (finishTask env now ref s r) = c_finish ref (ts_taskId s) (core_of r)"
proof -
  have "core_of (r\<lparr>rn_runningTasks := obj_del t (rn_runningTasks r)\<rparr>) = (core_of r)\<lparr>c_running := (c_running (core_of r))(t := None)\<rparr>" for r t
    by (simp add: core_of_def ends_sent_def obj_get_del fun_eq_iff)
  then show ?thesis by (simp add: finishTask_def Let_def c_finish_def c_set_def)
qed

lemma core_accept:
  "core_of (r\<lparr>rn_states := obj_set (rn_nextState r) \<lparr>ts_taskId = t, ts_status = WaitingForSettings, ts_timer = True, ts_aborted = None\<rparr>
      (rn_states r), rn_runningTasks := obj_set t (rn_nextState r) (rn_runningTasks r), rn_nextState := Suc (rn_nextState r)\<rparr>)
   = c_create t (core_of r)"
  by (simp add: core_of_def c_create_def ends_sent_def obj_get_set fun_eq_iff)

lemma core_offerAccepted:
  "core_of (offerAccepted i t r) =
     (if hasOpenTaskSlots r \<and> obj_has i (rn_openOffers r) then c_create t (core_of r) else core_of r)"
  by (simp add: offerAccepted_def Let_def core_of_send core_accept)

lemma core_parts:
  "c_states (core_of r) = obj_get (rn_states r)" "c_running (core_of r) = obj_get (rn_runningTasks r)"
  "c_executing (core_of r) = rn_executing r" "c_ends (core_of r) t = ends_sent t r"
  by (simp_all add: core_of_def)

subsection \<open>What holds of the core\<close>

definition links_ok :: "core \<Rightarrow> bool" where
  "links_ok c \<longleftrightarrow> (\<forall>t ref. c_running c t = Some ref \<longrightarrow> map_option ts_taskId (c_states c ref) = Some t)"

definition numbered_ok :: "string set \<Rightarrow> core \<Rightarrow> bool" where
  "numbered_ok ids c \<longleftrightarrow> (\<forall>ref s. c_states c ref = Some s \<longrightarrow> ref < c_next c \<and> ts_taskId s \<in> ids)"

definition unique_ok :: "core \<Rightarrow> bool" where
  "unique_ok c \<longleftrightarrow> (\<forall>ref ref' s s'. c_states c ref = Some s \<and> c_states c ref' = Some s' \<and> ts_taskId s = ts_taskId s' \<longrightarrow> ref = ref')"

text \<open>The executions are exactly those of the tasks that have their settings and are not finished.\<close>

definition executing_ok :: "core \<Rightarrow> bool" where
  "executing_ok c \<longleftrightarrow> distinct (c_executing c) \<and> (\<forall>ref. ref \<in> set (c_executing c) \<longleftrightarrow>
     (\<exists>s. c_states c ref = Some s \<and> ts_status s \<noteq> WaitingForSettings \<and> c_running c (ts_taskId s) = Some ref))"

definition timers_ok :: "core \<Rightarrow> bool" where
  "timers_ok c \<longleftrightarrow> (\<forall>ref s. c_states c ref = Some s \<and> ts_timer s \<longrightarrow>
     c_running c (ts_taskId s) = Some ref \<and> ts_status s \<noteq> AbortingTimeout)"

definition ends_ok :: "string set \<Rightarrow> core \<Rightarrow> bool" where
  "ends_ok ids c \<longleftrightarrow> (\<forall>t. c_ends c t \<le> 1 \<and> (c_ends c t = 1 \<longrightarrow> c_running c t = None \<and> t \<in> ids))"

definition core_ok :: "string set \<Rightarrow> core \<Rightarrow> bool" where
  "core_ok ids c \<longleftrightarrow> links_ok c \<and> numbered_ok ids c \<and> unique_ok c \<and> executing_ok c \<and> timers_ok c \<and> ends_ok ids c"

lemmas core_ok_defs = links_ok_def numbered_ok_def unique_ok_def executing_ok_def timers_ok_def ends_ok_def

lemma core_ok_mono: "core_ok ids c \<Longrightarrow> ids \<subseteq> ids' \<Longrightarrow> core_ok ids' c"
  by (auto simp: core_ok_def numbered_ok_def ends_ok_def)

lemma core_ok_ends:
  assumes "links_ok c" "numbered_ok ids c" "unique_ok c" "executing_ok c" "timers_ok c" "ends_ok ids (c\<lparr>c_ends := e\<rparr>)"
  shows "core_ok ids (c\<lparr>c_ends := e\<rparr>)"
proof -
  have "links_ok (c\<lparr>c_ends := e\<rparr>)" using assms(1) by (simp add: links_ok_def)
  moreover have "numbered_ok ids (c\<lparr>c_ends := e\<rparr>)" using assms(2) by (simp add: numbered_ok_def)
  moreover have "unique_ok (c\<lparr>c_ends := e\<rparr>)" using assms(3) by (simp add: unique_ok_def)
  moreover have "executing_ok (c\<lparr>c_ends := e\<rparr>)" using assms(4) by (simp add: executing_ok_def)
  moreover have "timers_ok (c\<lparr>c_ends := e\<rparr>)" using assms(5) by (auto simp: timers_ok_def)
  ultimately show ?thesis using assms(6) by (simp add: core_ok_def)
qed

lemma create_ok:
  assumes ok: "core_ok ids c" and new: "t \<notin> ids"
  shows "core_ok (insert t ids) (c_create t c)"
proof -
  from ok have l: "links_ok c" and n: "numbered_ok ids c" and u: "unique_ok c" and x: "executing_ok c" and ti: "timers_ok c" and e: "ends_ok ids c"
    by (simp_all add: core_ok_def)
  have fresh: "c_states c (c_next c) = None"
    using n unfolding numbered_ok_def by (metis less_irrefl not_None_eq)
  have run: "c_running c t = None"
  proof (rule ccontr)
    assume "c_running c t \<noteq> None"
    then obtain ref s where "c_states c ref = Some s" "ts_taskId s = t" using l unfolding links_ok_def by fastforce
    then show False using n new unfolding numbered_ok_def by blast
  qed
  have old: "ts_taskId s \<noteq> t" if "c_states c ref = Some s" for ref s using n new that unfolding numbered_ok_def by blast
  have "links_ok (c_create t c)"
    unfolding links_ok_def
  proof (intro allI impI)
    fix t' ref assume "c_running (c_create t c) t' = Some ref"
    then show "map_option ts_taskId (c_states (c_create t c) ref) = Some t'"
      using l [unfolded links_ok_def, rule_format, of t' ref] fresh by (auto simp: c_create_def split: if_splits)
  qed
  moreover have "numbered_ok (insert t ids) (c_create t c)" using n by (auto simp: numbered_ok_def c_create_def less_SucI)
  moreover have "unique_ok (c_create t c)" using u old by (auto simp: unique_ok_def c_create_def dest: old)
  moreover have "executing_ok (c_create t c)"
  proof -
    have "c_next c \<notin> set (c_executing c)" using x fresh by (auto simp: executing_ok_def)
    then show ?thesis using x old by (auto simp: executing_ok_def c_create_def)
  qed
  moreover have "timers_ok (c_create t c)" using ti old by (auto simp: timers_ok_def c_create_def)
  moreover have "ends_ok (insert t ids) (c_create t c)" using e new by (auto simp: ends_ok_def c_create_def)
  ultimately show ?thesis by (simp add: core_ok_def)
qed

text \<open>A change of the status of a running task, and a timer that has fired.\<close>

lemma set_ok:
  assumes ok: "core_ok ids c" and s: "c_states c ref = Some s" and r: "c_running c (ts_taskId s) = Some ref"
    and f: "ts_taskId (f s) = ts_taskId s" "ts_timer (f s) \<Longrightarrow> ts_timer s \<and> ts_status (f s) \<noteq> AbortingTimeout"
    and ex: "distinct ex" "set ex = (if ts_status (f s) = WaitingForSettings then set (c_executing c) - {ref} else insert ref (set (c_executing c)))"
  shows "core_ok ids ((c_set ref f c)\<lparr>c_executing := ex\<rparr>)"
proof -
  from ok have l: "links_ok c" and n: "numbered_ok ids c" and u: "unique_ok c" and x: "executing_ok c" and ti: "timers_ok c" and e: "ends_ok ids c"
    by (simp_all add: core_ok_def)
  let ?c = "(c_set ref f c)\<lparr>c_executing := ex\<rparr>"
  have "links_ok ?c"
    unfolding links_ok_def
  proof (intro allI impI)
    fix t' ref' assume "c_running ?c t' = Some ref'"
    then show "map_option ts_taskId (c_states ?c ref') = Some t'"
      using l [unfolded links_ok_def, rule_format, of t' ref'] s f(1) by (auto simp: c_set_def split: if_splits)
  qed
  moreover have "numbered_ok ids ?c" using n s f(1) by (auto simp: numbered_ok_def c_set_def)
  moreover have "unique_ok ?c" using u s f(1) by (auto simp: unique_ok_def c_set_def split: if_splits)
  moreover have "executing_ok ?c" using x s r f(1) ex by (auto simp: executing_ok_def c_set_def)
  moreover have "timers_ok ?c" using ti s r f by (auto simp: timers_ok_def c_set_def)
  moreover have "ends_ok ids ?c" using e by (auto simp: ends_ok_def c_set_def)
  ultimately show ?thesis by (simp add: core_ok_def)
qed

text \<open>A running task is finished, its execution, if any, is forgotten and its end is sent or not.\<close>

lemma finish_ok:
  assumes ok: "core_ok ids c" and s: "c_states c ref = Some s" and r: "c_running c (ts_taskId s) = Some ref"
    and ex: "distinct ex" "set ex = set (c_executing c) - {ref}"
  shows "core_ok ids (c_finish ref (ts_taskId s) (c\<lparr>c_executing := ex\<rparr>))"
    and "core_ok ids (c_finish ref (ts_taskId s) (c_end (ts_taskId s) (c\<lparr>c_executing := ex\<rparr>)))"
proof -
  from ok have l: "links_ok c" and n: "numbered_ok ids c" and u: "unique_ok c" and x: "executing_ok c" and ti: "timers_ok c" and e: "ends_ok ids c"
    by (simp_all add: core_ok_def)
  let ?c = "c_finish ref (ts_taskId s) (c\<lparr>c_executing := ex\<rparr>)"
  have other: "ref' = ref" if "c_states c ref' = Some s'" "ts_taskId s' = ts_taskId s" for ref' s'
    using u s that unfolding unique_ok_def by blast
  have "links_ok ?c"
    unfolding links_ok_def
  proof (intro allI impI)
    fix t' ref' assume "c_running ?c t' = Some ref'"
    then show "map_option ts_taskId (c_states ?c ref') = Some t'"
      using l [unfolded links_ok_def, rule_format, of t' ref'] s by (auto simp: c_finish_def c_set_def split: if_splits)
  qed
  moreover have "numbered_ok ids ?c" using n s by (auto simp: numbered_ok_def c_finish_def c_set_def)
  moreover have "unique_ok ?c" using u s by (auto simp: unique_ok_def c_finish_def c_set_def split: if_splits)
  moreover have "executing_ok ?c"
    unfolding executing_ok_def
  proof (intro conjI allI)
    show "distinct (c_executing ?c)" using ex by (simp add: c_finish_def c_set_def)
    fix ref'
    show "ref' \<in> set (c_executing ?c) \<longleftrightarrow>
      (\<exists>s. c_states ?c ref' = Some s \<and> ts_status s \<noteq> WaitingForSettings \<and> c_running ?c (ts_taskId s) = Some ref')"
    proof (cases "ref' = ref")
      case True
      then show ?thesis using s ex by (auto simp: c_finish_def c_set_def)
    next
      case False
      have "c_running ?c (ts_taskId s') = c_running c (ts_taskId s')" if "c_states c ref' = Some s'" for s'
        using other [OF that] False by (auto simp: c_finish_def c_set_def)
      moreover have "c_states ?c ref' = c_states c ref'" "ref' \<in> set (c_executing ?c) \<longleftrightarrow> ref' \<in> set (c_executing c)"
        using False ex by (simp_all add: c_finish_def c_set_def)
      ultimately show ?thesis using x unfolding executing_ok_def by (metis (no_types, lifting))
    qed
  qed
  moreover have "timers_ok ?c"
    unfolding timers_ok_def
  proof (intro allI impI)
    fix ref' s' assume a: "c_states ?c ref' = Some s' \<and> ts_timer s'"
    then have "ref' \<noteq> ref" using s by (auto simp: c_finish_def c_set_def)
    then have "c_states c ref' = Some s'" using a by (simp add: c_finish_def c_set_def)
    moreover from this have "ts_taskId s' \<noteq> ts_taskId s" using other \<open>ref' \<noteq> ref\<close> by blast
    ultimately show "c_running ?c (ts_taskId s') = Some ref' \<and> ts_status s' \<noteq> AbortingTimeout"
      using ti a unfolding timers_ok_def by (simp add: c_finish_def c_set_def)
  qed
  ultimately have rest: "links_ok ?c" "numbered_ok ids ?c" "unique_ok ?c" "executing_ok ?c" "timers_ok ?c" by simp_all
  have "ends_ok ids ?c" using e by (auto simp: ends_ok_def c_finish_def c_set_def)
  with rest show "core_ok ids ?c" by (simp add: core_ok_def)
  let ?e = "c_finish ref (ts_taskId s) (c_end (ts_taskId s) (c\<lparr>c_executing := ex\<rparr>))"
  have in_ids: "ts_taskId s \<in> ids" using n s unfolding numbered_ok_def by blast
  have none: "c_ends c (ts_taskId s) = 0" using e r unfolding ends_ok_def by (metis le_neq_implies_less less_one option.distinct(1))
  have "ends_ok ids ?e" using e in_ids none by (auto simp: ends_ok_def c_finish_def c_set_def c_end_def)
  moreover have "?e = ?c\<lparr>c_ends := c_ends ?e\<rparr>" by (simp add: c_finish_def c_set_def c_end_def)
  ultimately show "core_ok ids ?e" using rest core_ok_ends by metis
qed

subsection \<open>The life cycle\<close>

text \<open>A task is unknown, has a status, or is finished; \<open>life t ref\<close> is the diagram, with the events that label it.\<close>

datatype life_phase = Unknown | Phase task_status | Finished

definition phase_of :: "core \<Rightarrow> nat \<Rightarrow> life_phase" where
  "phase_of c ref =
     (case c_states c ref of
        None \<Rightarrow> Unknown
      | Some s \<Rightarrow> if c_running c (ts_taskId s) = Some ref then Phase (ts_status s) else Finished)"

definition task_phase :: "runner \<Rightarrow> nat \<Rightarrow> life_phase" where
  "task_phase r = phase_of (core_of r)"

inductive life :: "string \<Rightarrow> nat \<Rightarrow> runner_event \<Rightarrow> life_phase \<Rightarrow> life_phase \<Rightarrow> bool" for t ref where
  life_same: "life t ref ev p p"
| life_created: "life t ref (Receives (TaskOfferAccept i t)) Unknown (Phase WaitingForSettings)"
| life_started: "life t ref (Receives (RunnerTaskSettings t st)) (Phase WaitingForSettings) (Phase TaskRunning)"
| life_cancelled_early: "life t ref (Receives (RunnerTaskCancel t why)) (Phase WaitingForSettings) Finished"
| life_timed_out_early: "life t ref (TimesOut t) (Phase WaitingForSettings) Finished"
| life_cancelled: "life t ref (Receives (RunnerTaskCancel t why)) (Phase TaskRunning) (Phase AbortingCancelled)"
| life_timed_out: "life t ref (TimesOut t) (Phase TaskRunning) (Phase AbortingTimeout)"
| life_ended: "st \<noteq> WaitingForSettings \<Longrightarrow> life t ref (ExecutionEnds ref result) (Phase st) Finished"

text \<open>A step of the core that keeps what holds and moves every task along the diagram.\<close>

definition moves_along :: "string set \<Rightarrow> runner_event \<Rightarrow> core \<Rightarrow> core \<Rightarrow> bool" where
  "moves_along ids ev c c' \<longleftrightarrow> core_ok ids c' \<and>
     (\<forall>ref s. c_states c' ref = Some s \<longrightarrow> life (ts_taskId s) ref ev (phase_of c ref) (phase_of c' ref))"

lemma follows_same: "core_ok ids c \<Longrightarrow> moves_along ids ev c c"
  by (simp add: moves_along_def life_same)

lemma follows_created:
  assumes "core_ok ids c" "t \<notin> ids"
  shows "moves_along (insert t ids) (Receives (TaskOfferAccept i t)) c (c_create t c)"
proof -
  have "phase_of (c_create t c) ref = phase_of c ref" if "c_states c ref = Some s" for ref s
  proof -
    have "ts_taskId s \<noteq> t" "ref < c_next c" using assms that by (auto simp: core_ok_def numbered_ok_def)
    then show ?thesis using that by (simp add: phase_of_def c_create_def)
  qed
  moreover have "c_states c (c_next c) = None"
    using assms(1) unfolding core_ok_def numbered_ok_def by (metis less_irrefl not_None_eq)
  moreover have "c_states (c_create t c) ref = (if ref = c_next c
      then Some \<lparr>ts_taskId = t, ts_status = WaitingForSettings, ts_timer = True, ts_aborted = None\<rparr> else c_states c ref)" for ref
    by (simp add: c_create_def)
  moreover have "phase_of (c_create t c) (c_next c) = Phase WaitingForSettings" by (simp add: phase_of_def c_create_def)
  moreover have "phase_of c (c_next c) = Unknown" if "c_states c (c_next c) = None" using that by (simp add: phase_of_def)
  ultimately show ?thesis
    using create_ok [OF assms] unfolding moves_along_def by (auto intro: life_created life_same split: if_splits)
qed

text \<open>When only the task \<open>ref\<close> is touched, the others stay in their phase.\<close>

lemma phase_other:
  assumes "core_ok ids c" "c_states c ref = Some s" "ref' \<noteq> ref"
    and "c_states c' = (c_states c)(ref := x)" "c_running c' = c_running c \<or> c_running c' = (c_running c)(ts_taskId s := None)"
  shows "phase_of c' ref' = phase_of c ref'"
proof (cases "c_states c ref'")
  case (Some s')
  then have "ts_taskId s' \<noteq> ts_taskId s" using assms(1-3) unfolding core_ok_def unique_ok_def by blast
  then show ?thesis using assms(3-5) Some by (auto simp: phase_of_def)
qed (use assms(3,4) in \<open>simp add: phase_of_def\<close>)

lemma follows_one:
  assumes "core_ok ids c" "c_states c ref = Some s" "core_ok ids c'"
    and "c_states c' = (c_states c)(ref \<mapsto> s')" "ts_taskId s' = ts_taskId s"
    and "c_running c' = c_running c \<or> c_running c' = (c_running c)(ts_taskId s := None)"
    and "life (ts_taskId s) ref ev (phase_of c ref) (phase_of c' ref)"
  shows "moves_along ids ev c c'"
  unfolding moves_along_def
proof (intro conjI allI impI)
  fix ref' s'' assume st: "c_states c' ref' = Some s''"
  show "life (ts_taskId s'') ref' ev (phase_of c ref') (phase_of c' ref')"
  proof (cases "ref' = ref")
    case True
    then show ?thesis using assms(4,5,7) st by simp
  next
    case False
    then show ?thesis using phase_other [OF assms(1,2) False assms(4,6)] by (simp add: life_same)
  qed
qed (rule assms(3))

lemma phase_running:
  "c_states c ref = Some s \<Longrightarrow> c_running c (ts_taskId s) = Some ref \<Longrightarrow> phase_of c ref = Phase (ts_status s)"
  by (simp add: phase_of_def)

lemma follows_set:
  assumes ok: "core_ok ids c" and s: "c_states c ref = Some s" and r: "c_running c (ts_taskId s) = Some ref"
    and f: "ts_taskId (f s) = ts_taskId s" "ts_timer (f s) \<Longrightarrow> ts_timer s \<and> ts_status (f s) \<noteq> AbortingTimeout"
    and ex: "distinct ex" "set ex = (if ts_status (f s) = WaitingForSettings then set (c_executing c) - {ref} else insert ref (set (c_executing c)))"
    and life: "life (ts_taskId s) ref ev (Phase (ts_status s)) (Phase (ts_status (f s)))"
  shows "moves_along ids ev c ((c_set ref f c)\<lparr>c_executing := ex\<rparr>)"
proof (rule follows_one [where s' = "f s", OF ok s set_ok [where f = f, OF ok s r f ex]])
  show "life (ts_taskId s) ref ev (phase_of c ref) (phase_of ((c_set ref f c)\<lparr>c_executing := ex\<rparr>) ref)"
    using life r s f(1) by (simp add: phase_running) (simp add: phase_of_def c_set_def)
qed (use s f(1) in \<open>auto simp: c_set_def\<close>)

lemma follows_finish:
  assumes ok: "core_ok ids c" and s: "c_states c ref = Some s" and r: "c_running c (ts_taskId s) = Some ref"
    and ex: "distinct ex" "set ex = set (c_executing c) - {ref}"
    and life: "life (ts_taskId s) ref ev (Phase (ts_status s)) Finished"
  shows "moves_along ids ev c (c_finish ref (ts_taskId s) (c\<lparr>c_executing := ex\<rparr>))"
    and "moves_along ids ev c (c_finish ref (ts_taskId s) (c_end (ts_taskId s) (c\<lparr>c_executing := ex\<rparr>)))"
proof -
  have ph: "phase_of (c_finish ref (ts_taskId s) (c\<lparr>c_executing := ex\<rparr>)) ref = Finished"
    "phase_of (c_finish ref (ts_taskId s) (c_end (ts_taskId s) (c\<lparr>c_executing := ex\<rparr>))) ref = Finished"
    using s by (simp_all add: phase_of_def c_finish_def c_set_def c_end_def)
  show "moves_along ids ev c (c_finish ref (ts_taskId s) (c\<lparr>c_executing := ex\<rparr>))"
    by (rule follows_one [OF ok s finish_ok(1) [OF ok s r ex], where s' = "s\<lparr>ts_timer := False\<rparr>"])
      (use s life in \<open>simp_all add: ph phase_running [OF s r], simp_all add: c_finish_def c_set_def\<close>)
  show "moves_along ids ev c (c_finish ref (ts_taskId s) (c_end (ts_taskId s) (c\<lparr>c_executing := ex\<rparr>)))"
    by (rule follows_one [OF ok s finish_ok(2) [OF ok s r ex], where s' = "s\<lparr>ts_timer := False\<rparr>"])
      (use s life in \<open>simp_all add: ph phase_running [OF s r], simp_all add: c_finish_def c_set_def c_end_def\<close>)
qed

subsection \<open>Every step of the runner follows the life cycle\<close>

lemma executing_iff:
  assumes "core_ok ids c" "c_states c ref = Some s" "c_running c (ts_taskId s) = Some ref"
  shows "ref \<in> set (c_executing c) \<longleftrightarrow> ts_status s \<noteq> WaitingForSettings"
  using assms unfolding core_ok_def executing_ok_def by auto

lemma distinct_executing: "core_ok ids c \<Longrightarrow> distinct (c_executing c)"
  by (simp add: core_ok_def executing_ok_def)

lemma running_stateD:
  assumes "running_state r t = Some (ref, s)" "core_ok ids (core_of r)"
  shows "c_states (core_of r) ref = Some s" "c_running (core_of r) (ts_taskId s) = Some ref" "ts_taskId s = t"
proof -
  from assms(1) have st: "c_states (core_of r) ref = Some s" "c_running (core_of r) t = Some ref"
    by (auto simp: running_state_def core_parts split: option.splits)
  moreover have "links_ok (core_of r)" using assms(2) by (simp add: core_ok_def)
  ultimately show t: "ts_taskId s = t" unfolding links_ok_def by fastforce
  from st t show "c_states (core_of r) ref = Some s" "c_running (core_of r) (ts_taskId s) = Some ref" by simp_all
qed

lemma core_abort: "core_of (abort_task status why ref t r) = c_set ref (\<lambda>s. s\<lparr>ts_status := status, ts_aborted := Some why\<rparr>) (core_of r)"
  by (simp add: abort_task_def)

lemma c_set_executing: "(c_set ref f c)\<lparr>c_executing := c_executing c\<rparr> = c_set ref f c"
  by (simp add: c_set_def)

lemma follows_cancelled:
  assumes ok: "core_ok ids (core_of r)" and run: "taskCancelled env now t why r = (e, r')"
  shows "e = None \<and> moves_along ids (Receives (RunnerTaskCancel t why)) (core_of r) (core_of r')"
proof (cases "running_state r t")
  case None
  then show ?thesis using run ok by (simp add: taskCancelled_def follows_same)
next
  case (Some p)
  obtain ref s where p: "running_state r t = Some (ref, s)" using Some by (cases p) simp
  note st = running_stateD [OF p ok]
  note ex = executing_iff [OF ok st(1,2)] and d = distinct_executing [OF ok]
  show ?thesis
  proof (cases "ts_status s")
    case WaitingForSettings
    then have "moves_along ids (Receives (RunnerTaskCancel t why)) (core_of r) (c_finish ref t (core_of r))"
      using follows_finish(1) [OF ok st(1,2) d] ex st(3) life_cancelled_early [of t ref why] by auto
    then show ?thesis using run p st(3) WaitingForSettings by (auto simp: taskCancelled_def)
  next
    case TaskRunning
    have "moves_along ids (Receives (RunnerTaskCancel t why)) (core_of r)
        ((c_set ref (\<lambda>s. s\<lparr>ts_status := AbortingCancelled, ts_aborted := Some ''cancelled''\<rparr>) (core_of r))
          \<lparr>c_executing := c_executing (core_of r)\<rparr>)"
      by (rule follows_set [OF ok st(1,2)]) (use TaskRunning ex d st(3) in \<open>auto simp: life_cancelled core_ok_def timers_ok_def\<close>)
    then show ?thesis using run p TaskRunning by (auto simp: taskCancelled_def c_set_executing core_abort)
  qed (use run p ok in \<open>auto simp: taskCancelled_def follows_same\<close>)
qed

lemma follows_settings:
  assumes ok: "core_ok ids (core_of r)" and run: "receivedSettings t st r = (e, r')"
  shows "moves_along ids (Receives (RunnerTaskSettings t st)) (core_of r) (core_of r')
    \<and> (e \<noteq> None \<longrightarrow> (\<exists>ref s. running_state r t = Some (ref, s) \<and> ts_status s \<noteq> WaitingForSettings))"
proof (cases "running_state r t")
  case None
  then show ?thesis using run ok by (simp add: receivedSettings_def follows_same)
next
  case (Some p)
  obtain ref s where p: "running_state r t = Some (ref, s)" using Some by (cases p) simp
  note st = running_stateD [OF p ok]
  note ex = executing_iff [OF ok st(1,2)] and d = distinct_executing [OF ok]
  show ?thesis
  proof (cases "ts_status s = WaitingForSettings")
    case True
    have "moves_along ids (Receives (RunnerTaskSettings t st)) (core_of r)
        ((c_set ref (\<lambda>s. s\<lparr>ts_status := TaskRunning\<rparr>) (core_of r))\<lparr>c_executing := rn_executing r @ [ref]\<rparr>)"
      by (rule follows_set [OF ok st(1,2)]) (use True ex d st(3) in \<open>auto simp: life_started core_parts\<close>)
    moreover have "core_of r' = (c_set ref (\<lambda>s. s\<lparr>ts_status := TaskRunning\<rparr>) (core_of r))\<lparr>c_executing := rn_executing r @ [ref]\<rparr>"
      using run p True by (auto simp: receivedSettings_def)
    ultimately show ?thesis using run p True by (auto simp: receivedSettings_def)
  next
    case False
    then show ?thesis using run p ok by (auto simp: receivedSettings_def follows_same)
  qed
qed

text \<open>The timer of a task that has fired is off; the status is looked at after that.\<close>

lemma c_finish_off:
  "c_finish ref t (c_end t (c_set ref (\<lambda>s. s\<lparr>ts_timer := False\<rparr>) c)) = c_finish ref t (c_end t c)"
  by (simp add: c_finish_def c_set_def c_end_def option.map_comp comp_def)

lemma c_set_twice: "c_set ref f (c_set ref g c) = c_set ref (\<lambda>s. f (g s)) c"
  by (simp add: c_set_def option.map_comp comp_def)

lemma follows_timed_out:
  assumes ok: "core_ok ids (core_of r)" and s: "obj_get (rn_states r) ref = Some s" "ts_timer s"
    and run: "taskTimedOut env now (ts_taskId s) (change_state ref (\<lambda>s. s\<lparr>ts_timer := False\<rparr>) r) = (e, r')"
  shows "e = None \<and> moves_along ids (TimesOut (ts_taskId s)) (core_of r) (core_of r')"
proof -
  let ?off = "\<lambda>s. s\<lparr>ts_timer := False\<rparr>"
  let ?r = "change_state ref ?off r"
  have st: "c_states (core_of r) ref = Some s" using s by (simp add: core_parts)
  have on: "c_running (core_of r) (ts_taskId s) = Some ref" "ts_status s \<noteq> AbortingTimeout"
    using ok st s(2) unfolding core_ok_def timers_ok_def by auto
  note ex = executing_iff [OF ok st on(1)] and d = distinct_executing [OF ok]
  have "obj_get (rn_runningTasks ?r) (ts_taskId s) = Some ref" "obj_get (rn_states ?r) ref = Some (?off s)"
    using on(1) st core_change_state [of ref ?off r] by (auto simp: core_parts c_set_def change_state_def obj_get_set)
  then have p: "running_state ?r (ts_taskId s) = Some (ref, ?off s)" by (simp add: running_state_def)
  show ?thesis
  proof (cases "ts_status s")
    case WaitingForSettings
    then have "moves_along ids (TimesOut (ts_taskId s)) (core_of r) (c_finish ref (ts_taskId s) (c_end (ts_taskId s) (core_of r)))"
      using follows_finish(2) [OF ok st on(1) d] ex life_timed_out_early [of "ts_taskId s" ref] by auto
    then show ?thesis using run p WaitingForSettings by (auto simp: taskTimedOut_def c_finish_off)
  next
    case TaskRunning
    have "moves_along ids (TimesOut (ts_taskId s)) (core_of r)
        ((c_set ref (\<lambda>s. s\<lparr>ts_timer := False, ts_status := AbortingTimeout, ts_aborted := Some ''timeout''\<rparr>) (core_of r))
          \<lparr>c_executing := c_executing (core_of r)\<rparr>)"
      by (rule follows_set [OF ok st on(1)]) (use TaskRunning ex d in \<open>auto simp: life_timed_out\<close>)
    then show ?thesis using run p TaskRunning by (auto simp: taskTimedOut_def c_set_executing core_abort c_set_twice)
  next
    case AbortingCancelled
    have "moves_along ids (TimesOut (ts_taskId s)) (core_of r)
        ((c_set ref ?off (core_of r))\<lparr>c_executing := c_executing (core_of r)\<rparr>)"
      by (rule follows_set [OF ok st on(1)]) (use AbortingCancelled ex d in \<open>auto simp: life_same\<close>)
    then show ?thesis using run p AbortingCancelled by (auto simp: taskTimedOut_def c_set_executing)
  qed (use on(2) in simp)
qed

lemma follows_ends:
  assumes ok: "core_ok ids (core_of r)" and ref: "ref \<in> set (rn_executing r)"
    and run: "execution_ends env now ref result r = (e, r')"
  shows "e = None \<and> moves_along ids (ExecutionEnds ref result) (core_of r) (core_of r')"
proof -
  obtain s where st: "c_states (core_of r) ref = Some s" "c_running (core_of r) (ts_taskId s) = Some ref"
    and w: "ts_status s \<noteq> WaitingForSettings"
    using ok ref unfolding core_ok_def executing_ok_def by (auto simp: core_parts)
  have d: "distinct (remove1 ref (rn_executing r))" "set (remove1 ref (rn_executing r)) = set (c_executing (core_of r)) - {ref}"
    using distinct_executing [OF ok] by (simp_all add: core_parts)
  note fin = follows_finish [OF ok st d life_ended [OF w]]
  have "e = None \<and> (core_of r' = c_finish ref (ts_taskId s) ((core_of r)\<lparr>c_executing := remove1 ref (rn_executing r)\<rparr>)
      \<or> core_of r' = c_finish ref (ts_taskId s) (c_end (ts_taskId s) ((core_of r)\<lparr>c_executing := remove1 ref (rn_executing r)\<rparr>)))"
    using run st(1) w by (cases "ts_status s"; cases result) (auto simp: execution_ends_def core_parts)
  then show ?thesis using fin by auto
qed

definition id_of :: "runner_event \<Rightarrow> string list" where
  "id_of ev = (case ev of Receives (TaskOfferAccept i t) \<Rightarrow> [t] | _ \<Rightarrow> [])"

definition ids_of :: "runner_event list \<Rightarrow> string list" where
  "ids_of es = concat (map id_of es)"

lemma follows_message:
  assumes ok: "core_ok ids (core_of r)" and run: "onMessage env now msg r = (e, r')"
    and new: "set (id_of (Receives msg)) \<inter> ids = {}"
  shows "moves_along (ids \<union> set (id_of (Receives msg))) (Receives msg) (core_of r) (core_of r')
    \<and> (e \<noteq> None \<longrightarrow> (\<exists>t st ref s. msg = RunnerTaskSettings t st \<and> running_state r t = Some (ref, s) \<and> ts_status s \<noteq> WaitingForSettings))"
proof (cases msg)
  case (TaskOfferAccept i t)
  have "moves_along (insert t ids) (Receives msg) (core_of r) (core_of (offerAccepted i t r))"
    using follows_created [OF ok, of t i] new ok core_ok_mono [OF ok subset_insertI]
    by (simp add: core_offerAccepted TaskOfferAccept id_of_def follows_same)
  then show ?thesis using run TaskOfferAccept by (auto simp: onMessage_def id_of_def)
next
  case (RunnerTaskCancel t why)
  then show ?thesis using run follows_cancelled [OF ok, of env now t why e r'] by (simp add: onMessage_def id_of_def)
next
  case (RunnerTaskSettings t st)
  then show ?thesis using run follows_settings [OF ok, of t st e r'] by (simp add: onMessage_def id_of_def)
qed (use run ok in \<open>auto simp: onMessage_def id_of_def follows_same core_of_send\<close>)

lemma follows_step:
  assumes ok: "core_ok ids (core_of r)" and step: "runner_step env r ev e r'" and new: "set (id_of ev) \<inter> ids = {}"
  shows "moves_along (ids \<union> set (id_of ev)) ev (core_of r) (core_of r')
    \<and> (e \<noteq> None \<longrightarrow> (\<exists>t st ref s. ev = Receives (RunnerTaskSettings t st)
          \<and> running_state r t = Some (ref, s) \<and> ts_status s \<noteq> WaitingForSettings))"
  using step
proof cases
  case (receives now msg)
  then show ?thesis using follows_message [OF ok, of env now msg e r'] new by auto
next
  case (times_out ref s r1 now)
  then show ?thesis using follows_timed_out [OF ok, of ref s env now e r'] by (simp add: id_of_def)
next
  case (ends ref now result)
  then show ?thesis using follows_ends [OF ok, of ref env now result e r'] by (simp add: id_of_def)
qed (use ok in \<open>simp_all add: id_of_def follows_same\<close>)

interpretation life_cycle: safe_machine "\<lambda>r. \<exists>ty m idle err. r = newRunner ty m idle err" "runner_does env"
  "\<lambda>r es. distinct (ids_of es) \<longrightarrow> core_ok (set (ids_of es)) (core_of r)" for env
proof unfold_locales
  show "distinct (ids_of []) \<longrightarrow> core_ok (set (ids_of [])) (core_of r)" if "\<exists>ty m idle err. r = newRunner ty m idle err" for r
    using that by (auto simp: newRunner_def core_ok_def core_ok_defs) (auto simp: core_of_def ends_sent_def)
  show "distinct (ids_of (es @ [ev])) \<longrightarrow> core_ok (set (ids_of (es @ [ev]))) (core_of r')"
    if "distinct (ids_of es) \<longrightarrow> core_ok (set (ids_of es)) (core_of r)" "runner_does env r ev r'" for r es ev r'
  proof
    assume "distinct (ids_of (es @ [ev]))"
    then have d: "distinct (ids_of es)" "set (id_of ev) \<inter> set (ids_of es) = {}" by (auto simp: ids_of_def)
    from that(2) obtain e where "runner_step env r ev e r'" by (auto simp: runner_does_def)
    from follows_step [OF _ this d(2)] that(1) d(1) show "core_ok (set (ids_of (es @ [ev]))) (core_of r')"
      by (auto simp: moves_along_def ids_of_def)
  qed
qed

lemma history_core:
  assumes "history (runner_does env) (newRunner taskType m idle err) es r" "distinct (ids_of es)"
  shows "core_ok (set (ids_of es)) (core_of r)"
  using life_cycle.inv_history [OF assms(1)] assms(2) by blast

text \<open>
  C21: When no task is given twice to a runner, each of its tasks follows the life cycle drawn in
  \<open>task-state.ts\<close>: whatever happens moves the task along an arrow of the diagram that is labelled with it, or not at all.
\<close>

theorem runner_follows_life_cycle:
  assumes "history (runner_does env) (newRunner taskType m idle err) es r" "runner_step env r ev e r'"
    and "distinct (ids_of (es @ [ev]))" "obj_get (rn_states r') ref = Some s"
  shows "life (ts_taskId s) ref ev (task_phase r ref) (task_phase r' ref)"
proof -
  have d: "distinct (ids_of es)" "set (id_of ev) \<inter> set (ids_of es) = {}" using assms(3) by (auto simp: ids_of_def)
  from follows_step [OF history_core [OF assms(1) d(1)] assms(2) d(2)] assms(4)
  show ?thesis by (auto simp: moves_along_def task_phase_def core_parts)
qed

text \<open>
  When no task is given twice to a runner, the only thing that makes it throw the assertion that a status is
  unexpected are settings for a task that has got its settings already: timers and executions never do.
\<close>

theorem runner_unexpected_status:
  assumes "history (runner_does env) (newRunner taskType m idle err) es r" "runner_step env r ev (Some e) r'"
    and "distinct (ids_of (es @ [ev]))"
  shows "\<exists>t st ref s. ev = Receives (RunnerTaskSettings t st) \<and> running_state r t = Some (ref, s) \<and> ts_status s \<noteq> WaitingForSettings"
proof -
  have d: "distinct (ids_of es)" "set (id_of ev) \<inter> set (ids_of es) = {}" using assms(3) by (auto simp: ids_of_def)
  from follows_step [OF history_core [OF assms(1) d(1)] assms(2) d(2)] show ?thesis by blast
qed

text \<open>
  When no task is given twice to a runner, it sends the end of a task at most once, and only when the task is
  not running any more; and it executes exactly the running tasks that have their settings, each once.
\<close>

theorem runner_ends_once:
  assumes "history (runner_does env) (newRunner taskType m idle err) es r" "distinct (ids_of es)"
  shows "ends_sent t r \<le> 1 \<and> (ends_sent t r = 0 \<or> \<not> obj_has t (rn_runningTasks r)) \<and> distinct (rn_executing r)
    \<and> set (rn_executing r) = {ref. \<exists>st. st \<noteq> WaitingForSettings \<and> task_phase r ref = Phase st}"
proof -
  note ok = history_core [OF assms]
  have "ends_sent t r \<le> 1" "ends_sent t r = 1 \<Longrightarrow> obj_get (rn_runningTasks r) t = None"
    using ok unfolding core_ok_def ends_ok_def by (auto simp: core_parts)
  then have "ends_sent t r \<le> 1 \<and> (ends_sent t r = 0 \<or> \<not> obj_has t (rn_runningTasks r))"
    by (cases "ends_sent t r") (auto simp: obj_has_iff)
  moreover have "ref \<in> set (rn_executing r) \<longleftrightarrow> (\<exists>st. st \<noteq> WaitingForSettings \<and> task_phase r ref = Phase st)" for ref
    using ok unfolding core_ok_def executing_ok_def by (auto simp: core_parts task_phase_def phase_of_def split: option.splits)
  moreover have "distinct (rn_executing r)" using distinct_executing [OF ok] by (simp add: core_parts)
  ultimately show ?thesis by blast
qed

subsection \<open>A runner that executes one task\<close>

definition demo_env :: runner_env where
  "demo_env = \<lparr>re_nanoid = (\<lambda>n. replicate n (CHR ''x'')), re_randomInt = (\<lambda>_. 0)\<rparr>"

definition demo0 :: runner where "demo0 = newRunner ''js'' 1 0 JNull"
definition demo1 :: runner where "demo1 = startTaskOffers demo0"
definition demo2 :: runner where "demo2 = sendOffers demo_env 0 demo1"
definition demo3 :: runner where "demo3 = offerAccepted [] ''t'' demo2"
definition demo4 :: runner where "demo4 = snd (receivedSettings ''t'' JNull demo3)"
definition demo5 :: runner where "demo5 = snd (execution_ends demo_env 9 0 (Inr JNull) demo4)"

definition demo_events :: "runner_event list" where
  "demo_events = [Receives RunnerRegistered, OfferInterval, Receives (TaskOfferAccept [] ''t''),
     Receives (RunnerTaskSettings ''t'' JNull)]"

lemma demo_sent:
  "rn_sent demo5 = [TaskOffer [] ''js'' 5000, TaskAccepted ''t'', TaskDone ''t'' JNull, TaskOffer ''x'' ''js'' 5000]"
  by code_simp

lemma demo_ends: "runner_step demo_env demo4 (ExecutionEnds 0 (Inr JNull)) None demo5"
proof (rule runner_step.ends)
  show "0 \<in> set (rn_executing demo4)" by code_simp
  have "fst (execution_ends demo_env 9 0 (Inr JNull) demo4) = None" by code_simp
  then show "execution_ends demo_env 9 0 (Inr JNull) demo4 = (None, demo5)" by (simp add: demo5_def prod_eq_iff)
qed

lemma demo_history: "history (runner_does demo_env) (newRunner ''js'' 1 0 JNull) demo_events demo4"
proof -
  note more = history_more [where step = "runner_does demo_env"]
  have 0: "history (runner_does demo_env) demo0 [] demo0" by (rule history_start)
  have "runner_does demo_env demo0 (Receives RunnerRegistered) demo1"
    unfolding runner_does_def by (rule exI [of _ None], rule receives [where now = 0]) (simp add: onMessage_def demo1_def)
  note 1 = more [OF 0 this]
  have "rn_offerInterval demo1" by code_simp
  then have "runner_does demo_env demo1 OfferInterval demo2"
    unfolding runner_does_def demo2_def by (blast intro: offers)
  note 2 = more [OF 1 this]
  have "runner_does demo_env demo2 (Receives (TaskOfferAccept [] ''t'')) demo3"
    unfolding runner_does_def by (rule exI [of _ None], rule receives [where now = 0]) (simp add: onMessage_def demo3_def)
  note 3 = more [OF 2 this]
  have "fst (receivedSettings ''t'' JNull demo3) = None" by code_simp
  then have "runner_does demo_env demo3 (Receives (RunnerTaskSettings ''t'' JNull)) demo4"
    unfolding runner_does_def
    by (intro exI [of _ None], intro receives [where now = 0]) (simp add: onMessage_def demo4_def prod_eq_iff)
  from more [OF 3 this] show ?thesis by (simp add: demo_events_def demo0_def)
qed

lemma runner_capacity_witness: "int (length (rn_openOffers demo4)) + int (length (rn_runningTasks demo4)) \<le> 1"
  using runner_capacity [OF demo_history] by simp

lemma runner_follows_life_cycle_witness: "life ''t'' 0 (ExecutionEnds 0 (Inr JNull)) (Phase TaskRunning) Finished"
proof -
  have "task_phase demo4 0 = Phase TaskRunning" "task_phase demo5 0 = Finished" by code_simp+
  moreover have "distinct (ids_of (demo_events @ [ExecutionEnds 0 (Inr JNull)]))" by code_simp
  moreover have "obj_get (rn_states demo5) 0 = Some \<lparr>ts_taskId = ''t'', ts_status = TaskRunning, ts_timer = False, ts_aborted = None\<rparr>"
    by code_simp
  ultimately show ?thesis using runner_follows_life_cycle [OF demo_history demo_ends, of 0] by simp
qed

lemma runner_ends_once_witness: "distinct (rn_executing demo4) \<and> ends_sent ''t'' demo4 = 0"
proof -
  have "distinct (ids_of demo_events)" "obj_has ''t'' (rn_runningTasks demo4)" by code_simp+
  then show ?thesis using runner_ends_once [OF demo_history, of "''t''"] by simp
qed

lemma demo_twice: "runner_step demo_env demo4 (Receives (RunnerTaskSettings ''t'' JNull)) (Some AssertionError) demo4"
proof (rule receives [where now = 0])
  obtain s where "running_state demo4 ''t'' = Some (0, s)" "ts_status s \<noteq> WaitingForSettings"
  proof -
    have "map_option fst (running_state demo4 ''t'') = Some 0"
      "map_option (ts_status \<circ> snd) (running_state demo4 ''t'') = Some TaskRunning" by code_simp+
    then show ?thesis using that by auto
  qed
  then show "onMessage demo_env 0 (RunnerTaskSettings ''t'' JNull) demo4 = (Some AssertionError, demo4)"
    by (simp add: onMessage_def receivedSettings_def)
qed

lemma runner_unexpected_status_witness:
  "\<exists>ref s. running_state demo4 ''t'' = Some (ref, s) \<and> ts_status s \<noteq> WaitingForSettings"
proof -
  have "distinct (ids_of (demo_events @ [Receives (RunnerTaskSettings ''t'' JNull)]))" by code_simp
  from runner_unexpected_status [OF demo_history demo_twice this] show ?thesis by auto
qed

end
