(* ===== verification/LeaderElection.thy ===== *)
theory LeaderElection
  imports Machines
begin

section \<open>Leader and followers among several main processes\<close>

text \<open>
  \<open>packages/cli/src/scaling/multi-main-setup.ee.ts\<close>: every main process tries to write its host into one key of
  Redis, which expires unless the leader renews it, and checks the key at an interval. Redis is outside: its four
  commands are the arguments in \<open>store_ops\<close>, and what the code relies on is \<open>store_laws\<close>. A command takes effect when
  it is sent; its reply is an event of its own, so the rest of a call is suspended until then, and the interval
  may begin another check before.
\<close>

subsection \<open>Redis\<close>

text \<open>The commands take the time, a number of seconds, at which they are executed.\<close>

record 's store_ops =
  so_get :: "string \<Rightarrow> nat \<Rightarrow> 's \<Rightarrow> string option"
  so_setNX :: "string \<Rightarrow> string \<Rightarrow> nat \<Rightarrow> nat \<Rightarrow> 's \<Rightarrow> bool \<times> 's"
  so_expire :: "string \<Rightarrow> nat \<Rightarrow> nat \<Rightarrow> 's \<Rightarrow> 's"
  so_del :: "string \<Rightarrow> 's \<Rightarrow> 's"

text \<open>\<open>lease key st\<close> is the value of the key and the time at which it expires.\<close>

definition live_lease :: "nat \<Rightarrow> (string \<times> nat) option \<Rightarrow> string option" where
  "live_lease now l = (case l of Some (v, t) \<Rightarrow> if now < t then Some v else None | None \<Rightarrow> None)"

definition store_laws :: "(string \<Rightarrow> 's \<Rightarrow> (string \<times> nat) option) \<Rightarrow> 's store_ops \<Rightarrow> bool" where
  "store_laws lease ops \<longleftrightarrow>
     (\<forall>k now st. so_get ops k now st = live_lease now (lease k st))
   \<and> (\<forall>k v ttl now st. live_lease now (lease k st) = None \<longrightarrow>
        fst (so_setNX ops k v ttl now st) \<and> lease k (snd (so_setNX ops k v ttl now st)) = Some (v, now + ttl))
   \<and> (\<forall>k v ttl now st. live_lease now (lease k st) \<noteq> None \<longrightarrow> so_setNX ops k v ttl now st = (False, st))
   \<and> (\<forall>k ttl now st v. live_lease now (lease k st) = Some v \<longrightarrow> lease k (so_expire ops k ttl now st) = Some (v, now + ttl))
   \<and> (\<forall>k ttl now st. live_lease now (lease k st) = None \<longrightarrow> so_expire ops k ttl now st = st)
   \<and> (\<forall>k st. lease k (so_del ops k st) = None)"

subsection \<open>Publisher\<close>

definition setIfNotExists :: "'s store_ops \<Rightarrow> string \<Rightarrow> string \<Rightarrow> nat \<Rightarrow> nat \<Rightarrow> 's \<Rightarrow> bool \<times> 's" where
  "setIfNotExists ops key v ttl now st = so_setNX ops key v ttl now st"

definition setExpiration :: "'s store_ops \<Rightarrow> string \<Rightarrow> nat \<Rightarrow> nat \<Rightarrow> 's \<Rightarrow> 's" where
  "setExpiration ops key ttl now st = so_expire ops key ttl now st"

definition publisher_get :: "'s store_ops \<Rightarrow> string \<Rightarrow> nat \<Rightarrow> 's \<Rightarrow> string option" where
  "publisher_get ops key now st = so_get ops key now st"

definition publisher_clear :: "'s store_ops \<Rightarrow> string \<Rightarrow> 's \<Rightarrow> 's" where
  "publisher_clear ops key st = so_del ops key st"

subsection \<open>MultiMainSetup\<close>

datatype instance_role = RoleUnset | RoleLeader | RoleFollower

datatype leader_event = LeaderStepdown | LeaderTakeover

text \<open>A suspended call and the reply it waits for; \<open>BecomingLeader ok fromInit\<close> tells who called \<open>tryBecomeLeader\<close>.\<close>

datatype main_call = CheckingLeader "string option" | BecomingLeader bool bool

datatype main_process = ProcessGone | ProcessUp | ProcessStopping

record main_instance =
  mi_process :: main_process
  mi_instanceRole :: instance_role
  mi_leaderCheckInterval :: bool
  mi_calls :: "main_call list"
  mi_emitted :: "leader_event list"

record mm_config =
  mm_leaderKey :: string
  mm_leaderKeyTtl :: nat

record 's cluster =
  cl_store :: 's
  cl_now :: nat
  cl_mains :: "string \<Rightarrow> main_instance"

definition isLeader :: "main_instance \<Rightarrow> bool" where
  "isLeader m \<longleftrightarrow> mi_instanceRole m = RoleLeader"

definition markAsLeader :: "main_instance \<Rightarrow> main_instance" where
  "markAsLeader m = m\<lparr>mi_instanceRole := RoleLeader\<rparr>"

definition markAsFollower :: "main_instance \<Rightarrow> main_instance" where
  "markAsFollower m = m\<lparr>mi_instanceRole := RoleFollower\<rparr>"

definition emit_leader :: "leader_event \<Rightarrow> main_instance \<Rightarrow> main_instance" where
  "emit_leader e m = m\<lparr>mi_emitted := mi_emitted m @ [e]\<rparr>"

definition suspend :: "main_call \<Rightarrow> main_instance \<Rightarrow> main_instance" where
  "suspend c m = m\<lparr>mi_calls := mi_calls m @ [c]\<rparr>"

definition on_main :: "string \<Rightarrow> (main_instance \<Rightarrow> main_instance) \<Rightarrow> 's cluster \<Rightarrow> 's cluster" where
  "on_main hostId f c = c\<lparr>cl_mains := (cl_mains c)(hostId := f (cl_mains c hostId))\<rparr>"

definition tryBecomeLeader :: "'s store_ops \<Rightarrow> mm_config \<Rightarrow> string \<Rightarrow> bool \<Rightarrow> 's cluster \<Rightarrow> 's cluster" where
  "tryBecomeLeader ops cfg hostId fromInit c =
     (case setIfNotExists ops (mm_leaderKey cfg) hostId (mm_leaderKeyTtl cfg) (cl_now c) (cl_store c) of
        (keySetSuccessfully, st) \<Rightarrow> on_main hostId (suspend (BecomingLeader keySetSuccessfully fromInit)) (c\<lparr>cl_store := st\<rparr>))"

definition tryBecomeLeader_replied :: "bool \<Rightarrow> main_instance \<Rightarrow> main_instance" where
  "tryBecomeLeader_replied keySetSuccessfully m =
     (if keySetSuccessfully then emit_leader LeaderTakeover (markAsLeader m) else markAsFollower m)"

definition checkLeader :: "'s store_ops \<Rightarrow> mm_config \<Rightarrow> string \<Rightarrow> 's cluster \<Rightarrow> 's cluster" where
  "checkLeader ops cfg hostId c =
     on_main hostId (suspend (CheckingLeader (publisher_get ops (mm_leaderKey cfg) (cl_now c) (cl_store c)))) c"

definition checkLeader_replied :: "'s store_ops \<Rightarrow> mm_config \<Rightarrow> string \<Rightarrow> string option \<Rightarrow> 's cluster \<Rightarrow> 's cluster" where
  "checkLeader_replied ops cfg hostId leaderId c =
     (if leaderId = Some hostId
      then c\<lparr>cl_store := setExpiration ops (mm_leaderKey cfg) (mm_leaderKeyTtl cfg) (cl_now c) (cl_store c)\<rparr>
      else if leaderId \<noteq> None \<and> leaderId \<noteq> Some []
      then on_main hostId (\<lambda>m. if isLeader m then emit_leader LeaderStepdown (markAsFollower m) else m) c
      else tryBecomeLeader ops cfg hostId False (on_main hostId (\<lambda>m. emit_leader LeaderStepdown (markAsFollower m)) c))"

text \<open>\<open>init\<close> arms the interval when its attempt to become leader has been answered.\<close>

definition reply_main :: "'s store_ops \<Rightarrow> mm_config \<Rightarrow> string \<Rightarrow> 's cluster \<Rightarrow> 's cluster" where
  "reply_main ops cfg hostId c =
     (case mi_calls (cl_mains c hostId) of
        [] \<Rightarrow> c
      | call # rest \<Rightarrow>
          (let c' = on_main hostId (\<lambda>m. m\<lparr>mi_calls := rest\<rparr>) c
           in case call of
                CheckingLeader leaderId \<Rightarrow> checkLeader_replied ops cfg hostId leaderId c'
              | BecomingLeader ok fromInit \<Rightarrow>
                  on_main hostId (\<lambda>m. let m' = tryBecomeLeader_replied ok m
                                      in if fromInit then m'\<lparr>mi_leaderCheckInterval := True\<rparr> else m') c'))"

definition gone_main :: main_instance where
  "gone_main = \<lparr>mi_process = ProcessGone, mi_instanceRole = RoleUnset, mi_leaderCheckInterval = False, mi_calls = [], mi_emitted = []\<rparr>"

definition init_main :: "'s store_ops \<Rightarrow> mm_config \<Rightarrow> string \<Rightarrow> 's cluster \<Rightarrow> 's cluster" where
  "init_main ops cfg hostId c =
     tryBecomeLeader ops cfg hostId True (on_main hostId (\<lambda>_. gone_main\<lparr>mi_process := ProcessUp\<rparr>) c)"

definition shutdown_main :: "'s store_ops \<Rightarrow> mm_config \<Rightarrow> string \<Rightarrow> 's cluster \<Rightarrow> 's cluster" where
  "shutdown_main ops cfg hostId c =
     (let c' = on_main hostId (\<lambda>m. m\<lparr>mi_process := ProcessStopping, mi_leaderCheckInterval := False\<rparr>) c
      in if isLeader (cl_mains c hostId) then c'\<lparr>cl_store := publisher_clear ops (mm_leaderKey cfg) (cl_store c)\<rparr> else c')"

subsection \<open>What may happen\<close>

text \<open>A process that has crashed may be started again under the same name, as a container is.\<close>

datatype cluster_event = Boot string | Check string | Reply string | Stop string | Vanish string | Clock nat

inductive cluster_step :: "'s store_ops \<Rightarrow> mm_config \<Rightarrow> 's cluster \<Rightarrow> cluster_event \<Rightarrow> 's cluster \<Rightarrow> bool" for ops cfg where
  boot: "mi_process (cl_mains c h) = ProcessGone \<Longrightarrow> cluster_step ops cfg c (Boot h) (init_main ops cfg h c)"
| check: "mi_leaderCheckInterval (cl_mains c h) \<Longrightarrow> cluster_step ops cfg c (Check h) (checkLeader ops cfg h c)"
| reply: "mi_calls (cl_mains c h) \<noteq> [] \<Longrightarrow> cluster_step ops cfg c (Reply h) (reply_main ops cfg h c)"
| stop: "mi_process (cl_mains c h) = ProcessUp \<Longrightarrow> cluster_step ops cfg c (Stop h) (shutdown_main ops cfg h c)"
| vanish: "cluster_step ops cfg c (Vanish h) (on_main h (\<lambda>_. gone_main) c)"
| clock: "cl_now c \<le> t \<Longrightarrow> cluster_step ops cfg c (Clock t) (c\<lparr>cl_now := t\<rparr>)"

inductive_cases cluster_stepE: "cluster_step ops cfg c e c'"

definition new_cluster :: "'s \<Rightarrow> 's cluster" where
  "new_cluster st = \<lparr>cl_store = st, cl_now = 0, cl_mains = (\<lambda>_. gone_main)\<rparr>"

text \<open>The events as a function, for concrete histories.\<close>

fun cluster_run :: "'s store_ops \<Rightarrow> mm_config \<Rightarrow> cluster_event \<Rightarrow> 's cluster \<Rightarrow> 's cluster" where
  "cluster_run ops cfg (Boot h) c = init_main ops cfg h c"
| "cluster_run ops cfg (Check h) c = checkLeader ops cfg h c"
| "cluster_run ops cfg (Reply h) c = reply_main ops cfg h c"
| "cluster_run ops cfg (Stop h) c = shutdown_main ops cfg h c"
| "cluster_run ops cfg (Vanish h) c = on_main h (\<lambda>_. gone_main) c"
| "cluster_run ops cfg (Clock t) c = c\<lparr>cl_now := t\<rparr>"

fun cluster_may :: "cluster_event \<Rightarrow> 's cluster \<Rightarrow> bool" where
  "cluster_may (Boot h) c = (mi_process (cl_mains c h) = ProcessGone)"
| "cluster_may (Check h) c = mi_leaderCheckInterval (cl_mains c h)"
| "cluster_may (Reply h) c = (mi_calls (cl_mains c h) \<noteq> [])"
| "cluster_may (Stop h) c = (mi_process (cl_mains c h) = ProcessUp)"
| "cluster_may (Vanish h) c = True"
| "cluster_may (Clock t) c = (cl_now c \<le> t)"

lemma cluster_step_iff: "cluster_step ops cfg c e c' \<longleftrightarrow> cluster_may e c \<and> c' = cluster_run ops cfg e c"
  by (cases e) (auto intro: cluster_step.intros elim: cluster_stepE)

end
