(* ===== verification/LeaderElectionFacts.thy ===== *)
theory LeaderElectionFacts
  imports LeaderElection
begin

section \<open>At most one leader, and at least one\<close>

text \<open>
  As long as a leader renews its key before it expires no other main process becomes leader. When nobody holds the key
  and the checks of a process do not overlap, somebody leads as soon as all calls have been answered. Both need what they
  assume: the last part has histories with two leaders, and with none for good.
\<close>

subsection \<open>Who holds the key\<close>

definition holder :: "(string \<Rightarrow> 's \<Rightarrow> (string \<times> nat) option) \<Rightarrow> mm_config \<Rightarrow> 's cluster \<Rightarrow> string option" where
  "holder lease cfg c = live_lease (cl_now c) (lease (mm_leaderKey cfg) (cl_store c))"

definition leads :: "'s cluster \<Rightarrow> string \<Rightarrow> bool" where
  "leads c h \<longleftrightarrow> mi_process (cl_mains c h) = ProcessUp \<and> isLeader (cl_mains c h)"

text \<open>A process that leads, or will when its reply arrives.\<close>

definition claims :: "'s cluster \<Rightarrow> string \<Rightarrow> bool" where
  "claims c h \<longleftrightarrow> mi_process (cl_mains c h) = ProcessUp
     \<and> (isLeader (cl_mains c h) \<or> (\<exists>i. BecomingLeader True i \<in> set (mi_calls (cl_mains c h))))"

text \<open>The clock does not pass the time at which the key of such a process expires.\<close>

definition in_time :: "(string \<Rightarrow> 's \<Rightarrow> (string \<times> nat) option) \<Rightarrow> mm_config \<Rightarrow> 's cluster \<Rightarrow> cluster_event \<Rightarrow> bool" where
  "in_time lease cfg c e \<longleftrightarrow>
     (case e of Clock t \<Rightarrow> (\<forall>h. claims c h \<and> holder lease cfg c = Some h \<longrightarrow> holder lease cfg (c\<lparr>cl_now := t\<rparr>) = Some h) | _ \<Rightarrow> True)"

definition timely_step ::
  "(string \<Rightarrow> 's \<Rightarrow> (string \<times> nat) option) \<Rightarrow> 's store_ops \<Rightarrow> mm_config \<Rightarrow> 's cluster \<Rightarrow> cluster_event \<Rightarrow> 's cluster \<Rightarrow> bool" where
  "timely_step lease ops cfg c e c' \<longleftrightarrow> cluster_step ops cfg c e c' \<and> in_time lease cfg c e"

subsection \<open>The operations\<close>

lemma on_main_simps [simp]:
  "cl_store (on_main h f c) = cl_store c" "cl_now (on_main h f c) = cl_now c"
  "cl_mains (on_main h f c) k = (if k = h then f (cl_mains c h) else cl_mains c k)"
  by (simp_all add: on_main_def)

lemma holder_on_main [simp]: "holder lease cfg (on_main h f c) = holder lease cfg c"
  by (simp add: holder_def)

lemma store_setNX_free:
  "store_laws lease ops \<Longrightarrow> live_lease now (lease k st) = None \<Longrightarrow>
   fst (so_setNX ops k v ttl now st) \<and> lease k (snd (so_setNX ops k v ttl now st)) = Some (v, now + ttl)"
  by (simp add: store_laws_def)

lemma store_setNX_held:
  "store_laws lease ops \<Longrightarrow> live_lease now (lease k st) \<noteq> None \<Longrightarrow> so_setNX ops k v ttl now st = (False, st)"
  by (simp add: store_laws_def)

lemma store_expire:
  "store_laws lease ops \<Longrightarrow> live_lease now (lease k st) = Some v \<Longrightarrow> lease k (so_expire ops k ttl now st) = Some (v, now + ttl)"
  "store_laws lease ops \<Longrightarrow> live_lease now (lease k st) = None \<Longrightarrow> so_expire ops k ttl now st = st"
  by (simp_all add: store_laws_def)

lemma get_holder: "store_laws lease ops \<Longrightarrow> publisher_get ops (mm_leaderKey cfg) (cl_now c) (cl_store c) = holder lease cfg c"
  by (simp add: store_laws_def holder_def publisher_get_def)

lemma live_new: "0 < ttl \<Longrightarrow> live_lease now (Some (h, now + ttl)) = Some h"
  by (simp add: live_lease_def)

text \<open>\<open>tryBecomeLeader\<close> takes a key that nobody holds, and changes nothing otherwise.\<close>

lemma tryBecomeLeader_free:
  assumes "store_laws lease ops" "0 < mm_leaderKeyTtl cfg" "holder lease cfg c = None"
  shows "holder lease cfg (tryBecomeLeader ops cfg h i c) = Some h"
    "cl_mains (tryBecomeLeader ops cfg h i c) = (cl_mains c)(h := suspend (BecomingLeader True i) (cl_mains c h))"
    "cl_now (tryBecomeLeader ops cfg h i c) = cl_now c"
proof -
  obtain ok st where r: "so_setNX ops (mm_leaderKey cfg) h (mm_leaderKeyTtl cfg) (cl_now c) (cl_store c) = (ok, st)"
    by (cases "so_setNX ops (mm_leaderKey cfg) h (mm_leaderKeyTtl cfg) (cl_now c) (cl_store c)")
  have "fst (so_setNX ops (mm_leaderKey cfg) h (mm_leaderKeyTtl cfg) (cl_now c) (cl_store c)) \<and>
      lease (mm_leaderKey cfg) (snd (so_setNX ops (mm_leaderKey cfg) h (mm_leaderKeyTtl cfg) (cl_now c) (cl_store c)))
        = Some (h, cl_now c + mm_leaderKeyTtl cfg)"
    using assms(3) by (intro store_setNX_free [OF assms(1)]) (simp add: holder_def)
  then have ok: ok and "lease (mm_leaderKey cfg) st = Some (h, cl_now c + mm_leaderKeyTtl cfg)"
    by (simp_all add: r)
  then show "holder lease cfg (tryBecomeLeader ops cfg h i c) = Some h"
    using assms(2) by (simp add: tryBecomeLeader_def setIfNotExists_def r holder_def live_new)
  show "cl_mains (tryBecomeLeader ops cfg h i c) = (cl_mains c)(h := suspend (BecomingLeader True i) (cl_mains c h))"
    using ok by (simp add: tryBecomeLeader_def setIfNotExists_def r on_main_def)
  show "cl_now (tryBecomeLeader ops cfg h i c) = cl_now c"
    by (simp add: tryBecomeLeader_def setIfNotExists_def r)
qed

lemma tryBecomeLeader_held:
  assumes "store_laws lease ops" "holder lease cfg c \<noteq> None"
  shows "tryBecomeLeader ops cfg h i c = on_main h (suspend (BecomingLeader False i)) c"
proof -
  have "so_setNX ops (mm_leaderKey cfg) h (mm_leaderKeyTtl cfg) (cl_now c) (cl_store c) = (False, cl_store c)"
    using assms(2) by (intro store_setNX_held [OF assms(1)]) (simp add: holder_def)
  then show ?thesis by (simp add: tryBecomeLeader_def setIfNotExists_def)
qed

lemma setExpiration_holder:
  assumes "store_laws lease ops" "0 < mm_leaderKeyTtl cfg"
  shows "holder lease cfg (c\<lparr>cl_store := setExpiration ops (mm_leaderKey cfg) (mm_leaderKeyTtl cfg) (cl_now c) (cl_store c)\<rparr>) = holder lease cfg c"
proof (cases "holder lease cfg c")
  case None
  then have "so_expire ops (mm_leaderKey cfg) (mm_leaderKeyTtl cfg) (cl_now c) (cl_store c) = cl_store c"
    by (intro store_expire(2) [OF assms(1)]) (simp add: holder_def)
  then show ?thesis by (simp add: setExpiration_def)
next
  case (Some v)
  then have "lease (mm_leaderKey cfg) (so_expire ops (mm_leaderKey cfg) (mm_leaderKeyTtl cfg) (cl_now c) (cl_store c))
      = Some (v, cl_now c + mm_leaderKeyTtl cfg)"
    by (intro store_expire(1) [OF assms(1)]) (simp add: holder_def)
  then show ?thesis using Some assms(2) by (simp add: setExpiration_def holder_def live_new)
qed

lemma role_simps [simp]:
  "mi_process (suspend x m) = mi_process m" "mi_instanceRole (suspend x m) = mi_instanceRole m"
  "mi_calls (suspend x m) = mi_calls m @ [x]"
  "mi_process (emit_leader e m) = mi_process m" "mi_instanceRole (emit_leader e m) = mi_instanceRole m"
  "mi_calls (emit_leader e m) = mi_calls m"
  "mi_process (markAsLeader m) = mi_process m" "mi_calls (markAsLeader m) = mi_calls m" "mi_instanceRole (markAsLeader m) = RoleLeader"
  "mi_process (markAsFollower m) = mi_process m" "mi_calls (markAsFollower m) = mi_calls m" "mi_instanceRole (markAsFollower m) = RoleFollower"
  by (simp_all add: suspend_def emit_leader_def markAsLeader_def markAsFollower_def)

lemma gone_simps [simp]: "mi_process gone_main = ProcessGone" "mi_calls gone_main = []" "mi_instanceRole gone_main = RoleUnset"
  by (simp_all add: gone_main_def)

subsection \<open>At most one leader\<close>

definition claims_hold :: "(string \<Rightarrow> 's \<Rightarrow> (string \<times> nat) option) \<Rightarrow> mm_config \<Rightarrow> 's cluster \<Rightarrow> bool" where
  "claims_hold lease cfg c \<longleftrightarrow> (\<forall>h. claims c h \<longrightarrow> holder lease cfg c = Some h)"

lemma claims_holdI: "(\<And>k. claims c' k \<Longrightarrow> claims c k \<and> holder lease cfg c' = holder lease cfg c) \<Longrightarrow>
    claims_hold lease cfg c \<Longrightarrow> claims_hold lease cfg c'"
  by (simp add: claims_hold_def)

lemma claims_tryBecomeLeader:
  assumes "store_laws lease ops" "0 < mm_leaderKeyTtl cfg" "claims_hold lease cfg c"
  shows "claims_hold lease cfg (tryBecomeLeader ops cfg h i c)"
proof (cases "holder lease cfg c")
  case None
  note free = tryBecomeLeader_free [OF assms(1,2) None, of h i]
  have "\<not> claims c k" for k using assms(3) None by (auto simp: claims_hold_def)
  then have "claims (tryBecomeLeader ops cfg h i c) k \<Longrightarrow> k = h" for k
    by (auto simp: claims_def free(2) split: if_splits)
  then show ?thesis using free(1) by (auto simp: claims_hold_def)
next
  case (Some v)
  then have "tryBecomeLeader ops cfg h i c = on_main h (suspend (BecomingLeader False i)) c"
    using tryBecomeLeader_held [OF assms(1)] by blast
  then show ?thesis using assms(3) by (auto simp: claims_hold_def claims_def isLeader_def split: if_splits)
qed

lemma claims_on_main:
  assumes "claims_hold lease cfg c"
    and "mi_process (f (cl_mains c h)) = ProcessUp \<Longrightarrow> mi_process (cl_mains c h) = ProcessUp"
    and "isLeader (f (cl_mains c h)) \<Longrightarrow> claims c h \<or> mi_process (cl_mains c h) \<noteq> ProcessUp"
    and "set (mi_calls (f (cl_mains c h))) \<inter> range (BecomingLeader True) \<subseteq> set (mi_calls (cl_mains c h))"
  shows "claims_hold lease cfg (on_main h f c)"
  using assms(1)
proof (rule claims_holdI [rotated])
  fix k assume "claims (on_main h f c) k"
  then show "claims c k \<and> holder lease cfg (on_main h f c) = holder lease cfg c"
    using assms(2-4) by (auto simp: claims_def split: if_splits)
qed

lemma claims_step:
  assumes laws: "store_laws lease ops" and ttl: "0 < mm_leaderKeyTtl cfg"
    and inv: "claims_hold lease cfg c" and step: "timely_step lease ops cfg c e c'"
  shows "claims_hold lease cfg c'"
proof -
  from step have may: "cluster_may e c" and c': "c' = cluster_run ops cfg e c" and time: "in_time lease cfg c e"
    by (simp_all add: timely_step_def cluster_step_iff)
  show ?thesis
  proof (cases e)
    case (Boot h)
    have "claims_hold lease cfg (on_main h (\<lambda>_. gone_main\<lparr>mi_process := ProcessUp\<rparr>) c)"
      using inv may Boot by (auto simp: claims_hold_def claims_def isLeader_def gone_main_def split: if_splits)
    then show ?thesis unfolding c' Boot by (simp add: init_main_def claims_tryBecomeLeader laws ttl)
  next
    case (Check h)
    show ?thesis unfolding c' Check cluster_run.simps checkLeader_def
      by (rule claims_on_main [OF inv]) (auto simp: claims_def isLeader_def)
  next
    case (Reply h)
    then obtain call rest where calls: "mi_calls (cl_mains c h) = call # rest"
      using may by (cases "mi_calls (cl_mains c h)") auto
    let ?c = "on_main h (\<lambda>m. m\<lparr>mi_calls := rest\<rparr>) c"
    have rest: "claims_hold lease cfg ?c"
      by (rule claims_on_main [OF inv]) (auto simp: calls claims_def isLeader_def)
    show ?thesis
    proof (cases call)
      case (CheckingLeader l)
      have down: "claims_hold lease cfg (on_main h (\<lambda>m. emit_leader LeaderStepdown (markAsFollower m)) ?c)"
        "claims_hold lease cfg (on_main h (\<lambda>m. if isLeader m then emit_leader LeaderStepdown (markAsFollower m) else m) ?c)"
        by (rule claims_on_main [OF rest], auto simp: isLeader_def split: if_splits)+
      have renew: "claims_hold lease cfg (?c\<lparr>cl_store := setExpiration ops (mm_leaderKey cfg) (mm_leaderKeyTtl cfg) (cl_now ?c) (cl_store ?c)\<rparr>)"
        using rest by (rule claims_holdI [rotated]) (simp only: setExpiration_holder [OF laws ttl], simp add: claims_def)
      show ?thesis unfolding c' Reply
        using down renew claims_tryBecomeLeader [OF laws ttl down(1)]
        by (simp add: reply_main_def calls CheckingLeader checkLeader_replied_def Let_def)
    next
      case (BecomingLeader ok i)
      let ?f = "\<lambda>m. let m' = tryBecomeLeader_replied ok m in if i then m'\<lparr>mi_leaderCheckInterval := True\<rparr> else m'"
      have run: "c' = on_main h (?f \<circ> (\<lambda>m. m\<lparr>mi_calls := rest\<rparr>)) c"
        unfolding c' Reply by (simp add: reply_main_def calls BecomingLeader on_main_def)
      have f: "mi_process (?f m) = mi_process m" "mi_calls (?f m) = mi_calls m" "isLeader (?f m) \<longleftrightarrow> ok" for m
        by (simp_all add: tryBecomeLeader_replied_def isLeader_def Let_def)
      show ?thesis unfolding run
        by (rule claims_on_main [OF inv]) (use calls BecomingLeader in \<open>auto simp: f claims_def\<close>)
    qed
  next
    case (Stop h)
    let ?c = "on_main h (\<lambda>m. m\<lparr>mi_process := ProcessStopping, mi_leaderCheckInterval := False\<rparr>) c"
    have stopped: "claims_hold lease cfg ?c" by (rule claims_on_main [OF inv]) (auto simp: claims_def isLeader_def)
    show ?thesis
    proof (cases "isLeader (cl_mains c h)")
      case True
      then have "claims c h" using may Stop by (simp add: claims_def)
      then have "holder lease cfg c = Some h" using inv by (simp add: claims_hold_def)
      then have "\<not> claims ?c k" for k
        using inv by (auto simp: claims_hold_def claims_def split: if_splits)
      moreover have "claims c' k \<longleftrightarrow> claims ?c k" for k
        using True by (simp add: c' Stop shutdown_main_def claims_def)
      ultimately show ?thesis by (simp add: claims_hold_def)
    qed (use stopped in \<open>simp add: c' Stop shutdown_main_def\<close>)
  next
    case (Vanish h)
    show ?thesis unfolding c' Vanish cluster_run.simps by (rule claims_on_main [OF inv]) (auto simp: isLeader_def)
  next
    case (Clock t)
    have "claims (c\<lparr>cl_now := t\<rparr>) k \<longleftrightarrow> claims c k" for k by (simp add: claims_def)
    then show ?thesis unfolding c' Clock using inv time Clock by (simp add: claims_hold_def in_time_def)
  qed
qed

lemma one_leader':
  assumes "store_laws lease ops" "0 < mm_leaderKeyTtl cfg" "history (timely_step lease ops cfg) (new_cluster st) es c"
  shows "claims_hold lease cfg c"
  using assms(3)
proof (rule safe_machine.inv_history [rotated, where init = "\<lambda>c. c = new_cluster st" and inv = "\<lambda>c es. claims_hold lease cfg c"])
  show "safe_machine (\<lambda>c. c = new_cluster st) (timely_step lease ops cfg) (\<lambda>c es. claims_hold lease cfg c)"
    by unfold_locales (simp add: claims_hold_def claims_def new_cluster_def, rule claims_step [OF assms(1,2)])
qed simp

text \<open>
  C30: At most one main process leads, and it holds the key, in every history in which a leader renews the key before it
  expires: processes may start, check, stop, crash and restart in any order, and replies of Redis may be late.
\<close>

theorem one_leader:
  assumes "store_laws lease ops" "0 < mm_leaderKeyTtl cfg"
    and "history (timely_step lease ops cfg) (new_cluster st) es c"
    and "leads c h" "leads c h'"
  shows "h = h' \<and> holder lease cfg c = Some h"
proof -
  have "claims c h" "claims c h'" using assms(4,5) by (simp_all add: claims_def leads_def)
  then have "holder lease cfg c = Some h" "holder lease cfg c = Some h'"
    using one_leader' [OF assms(1-3)] unfolding claims_hold_def by blast+
  then show ?thesis by simp
qed

subsection \<open>Some leader\<close>

text \<open>No call is suspended, and whatever checks is up.\<close>

definition attentive :: "'s cluster \<Rightarrow> bool" where
  "attentive c \<longleftrightarrow> (\<forall>h. mi_leaderCheckInterval (cl_mains c h) \<or> mi_calls (cl_mains c h) \<noteq> [] \<longrightarrow> mi_process (cl_mains c h) = ProcessUp)"

definition answered :: "'s cluster \<Rightarrow> bool" where
  "answered c \<longleftrightarrow> (\<forall>h. mi_calls (cl_mains c h) = [])"

text \<open>Nothing stops, and a process checks only when its last check has been answered.\<close>

definition calm_event :: "'s cluster \<Rightarrow> cluster_event \<Rightarrow> bool" where
  "calm_event c e \<longleftrightarrow> (case e of Check h \<Rightarrow> mi_calls (cl_mains c h) = [] | Stop h \<Rightarrow> False | Vanish h \<Rightarrow> False | _ \<Rightarrow> True)"

definition calm_step ::
  "(string \<Rightarrow> 's \<Rightarrow> (string \<times> nat) option) \<Rightarrow> 's store_ops \<Rightarrow> mm_config \<Rightarrow> 's cluster \<Rightarrow> cluster_event \<Rightarrow> 's cluster \<Rightarrow> bool" where
  "calm_step lease ops cfg c e c' \<longleftrightarrow> timely_step lease ops cfg c e c' \<and> calm_event c e"

definition is_attempt :: "cluster_event \<Rightarrow> bool" where
  "is_attempt e \<longleftrightarrow> (case e of Check h \<Rightarrow> True | Boot h \<Rightarrow> True | _ \<Rightarrow> False)"

definition vacant :: "(string \<Rightarrow> 's \<Rightarrow> (string \<times> nat) option) \<Rightarrow> mm_config \<Rightarrow> 's cluster \<Rightarrow> bool" where
  "vacant lease cfg c \<longleftrightarrow> holder lease cfg c = None
     \<and> (\<forall>k. mi_calls (cl_mains c k) = [] \<or> mi_calls (cl_mains c k) = [CheckingLeader None])"

text \<open>The process that got the key leads, or will when its reply arrives.\<close>

definition taken :: "(string \<Rightarrow> 's \<Rightarrow> (string \<times> nat) option) \<Rightarrow> mm_config \<Rightarrow> 's cluster \<Rightarrow> string \<Rightarrow> bool" where
  "taken lease cfg c h \<longleftrightarrow> holder lease cfg c = Some h \<and> mi_process (cl_mains c h) = ProcessUp
     \<and> ((\<exists>i. mi_calls (cl_mains c h) = [BecomingLeader True i])
        \<or> isLeader (cl_mains c h) \<and> (mi_calls (cl_mains c h) = [] \<or> mi_calls (cl_mains c h) = [CheckingLeader (Some h)]))"

definition succession :: "(string \<Rightarrow> 's \<Rightarrow> (string \<times> nat) option) \<Rightarrow> mm_config \<Rightarrow> 's cluster \<Rightarrow> cluster_event list \<Rightarrow> bool" where
  "succession lease cfg c es \<longleftrightarrow> attentive c
     \<and> (vacant lease cfg c \<and> (list_ex is_attempt es \<longrightarrow> \<not> answered c) \<or> (\<exists>h. taken lease cfg c h))"

lemma live_later: "live_lease now l = None \<Longrightarrow> now \<le> t \<Longrightarrow> live_lease t l = None"
  by (auto simp: live_lease_def split: option.splits if_splits)

lemma attentive_on_main:
  assumes "attentive c"
    and "mi_leaderCheckInterval (f (cl_mains c h)) \<or> mi_calls (f (cl_mains c h)) \<noteq> [] \<Longrightarrow> mi_process (f (cl_mains c h)) = ProcessUp"
  shows "attentive (on_main h f c)"
  using assms by (auto simp: attentive_def)

lemma attentive_try:
  assumes "store_laws lease ops" "0 < mm_leaderKeyTtl cfg" "attentive c" "mi_process (cl_mains c h) = ProcessUp"
  shows "attentive (tryBecomeLeader ops cfg h i c)"
proof (cases "holder lease cfg c")
  case None
  then show ?thesis using tryBecomeLeader_free [OF assms(1,2) None, of h i] assms(3,4) by (simp add: attentive_def)
next
  case (Some v)
  then have "tryBecomeLeader ops cfg h i c = on_main h (suspend (BecomingLeader False i)) c"
    using tryBecomeLeader_held [OF assms(1)] by blast
  then show ?thesis using attentive_on_main [OF assms(3)] assms(4) by simp
qed

text \<open>An attempt of any process leaves the key with a process that will lead.\<close>

lemma taken_try:
  assumes "store_laws lease ops" "0 < mm_leaderKeyTtl cfg" "mi_process (cl_mains c k) = ProcessUp"
    and "taken lease cfg c h \<and> k \<noteq> h \<or> holder lease cfg c = None \<and> mi_calls (cl_mains c k) = []"
  shows "\<exists>h. taken lease cfg (tryBecomeLeader ops cfg k i c) h"
proof (cases "holder lease cfg c")
  case None
  with assms(4) have "mi_calls (cl_mains c k) = []" by (simp add: taken_def)
  then have "taken lease cfg (tryBecomeLeader ops cfg k i c) k"
    using tryBecomeLeader_free [OF assms(1,2) None, of k i] assms(3) by (simp add: taken_def)
  then show ?thesis ..
next
  case (Some v)
  then have "tryBecomeLeader ops cfg k i c = on_main k (suspend (BecomingLeader False i)) c"
    using tryBecomeLeader_held [OF assms(1)] by blast
  then have "taken lease cfg (tryBecomeLeader ops cfg k i c) h" using assms(4) Some by (auto simp: taken_def)
  then show ?thesis ..
qed

lemma taken_other: "taken lease cfg c h \<Longrightarrow> k \<noteq> h \<Longrightarrow> taken lease cfg (on_main k f c) h"
  by (simp add: taken_def)

lemma succession_boot:
  assumes "store_laws lease ops" "0 < mm_leaderKeyTtl cfg" "succession lease cfg c es" "mi_process (cl_mains c k) = ProcessGone"
  shows "succession lease cfg (init_main ops cfg k c) es'"
proof -
  let ?c = "on_main k (\<lambda>_. gone_main\<lparr>mi_process := ProcessUp\<rparr>) c"
  have "attentive ?c" using assms(3) by (intro attentive_on_main) (simp_all add: succession_def)
  moreover have "taken lease cfg ?c h \<and> k \<noteq> h" if "taken lease cfg c h" for h
    using that assms(4) by (auto simp: taken_def)
  then have "\<exists>h. taken lease cfg (init_main ops cfg k c) h"
    using taken_try [OF assms(1,2), of ?c k _ True] assms(3) by (auto simp: succession_def vacant_def init_main_def)
  ultimately show ?thesis
    using attentive_try [OF assms(1,2), of ?c k True] by (simp add: succession_def init_main_def)
qed

lemma succession_check:
  assumes laws: "store_laws lease ops" and inv: "succession lease cfg c es"
    and may: "mi_leaderCheckInterval (cl_mains c k)" "mi_calls (cl_mains c k) = []"
  shows "succession lease cfg (checkLeader ops cfg k c) es'"
proof -
  have c': "checkLeader ops cfg k c = on_main k (suspend (CheckingLeader (holder lease cfg c))) c"
    using get_holder [OF laws] by (simp add: checkLeader_def)
  have up: "mi_process (cl_mains c k) = ProcessUp" using inv may(1) by (simp add: succession_def attentive_def)
  then have "attentive (checkLeader ops cfg k c)"
    unfolding c' using inv by (intro attentive_on_main) (simp_all add: succession_def)
  moreover have "taken lease cfg (checkLeader ops cfg k c) h" if "taken lease cfg c h" for h
    unfolding c' using that may(2) by (cases "k = h") (auto simp: taken_def isLeader_def)
  moreover have "vacant lease cfg (checkLeader ops cfg k c) \<and> \<not> answered (checkLeader ops cfg k c)" if "vacant lease cfg c"
    unfolding c' using that may(2) by (auto simp: vacant_def answered_def intro!: exI [of _ k])
  ultimately show ?thesis using inv by (auto simp: succession_def)
qed

lemma succession_reply:
  assumes laws: "store_laws lease ops" and ttl: "0 < mm_leaderKeyTtl cfg" and inv: "succession lease cfg c es"
    and may: "mi_calls (cl_mains c k) = call # rest"
  shows "succession lease cfg (reply_main ops cfg k c) es'"
proof -
  have up: "mi_process (cl_mains c k) = ProcessUp" using inv may by (simp add: succession_def attentive_def)
  let ?c = "on_main k (\<lambda>m. m\<lparr>mi_calls := rest\<rparr>) c"
  have att: "attentive (on_main k f c)" if "\<And>m. mi_process (f m) = mi_process m" for f
    using inv up that by (intro attentive_on_main) (simp_all add: succession_def)
  show ?thesis
  proof (cases call)
    case (CheckingLeader l)
    let ?down = "\<lambda>m. emit_leader LeaderStepdown (markAsFollower m)"
    have run: "reply_main ops cfg k c = checkLeader_replied ops cfg k l ?c" by (simp add: reply_main_def may CheckingLeader Let_def)
    have comp: "on_main k f ?c = on_main k (f \<circ> (\<lambda>m. m\<lparr>mi_calls := rest\<rparr>)) c" for f by (simp add: on_main_def)
    have a: "attentive (reply_main ops cfg k c)"
    proof -
      have "attentive ?c" by (rule att) simp
      moreover have "attentive (on_main k ?down ?c)" unfolding comp by (rule att) simp
      moreover from this have "attentive (tryBecomeLeader ops cfg k False (on_main k ?down ?c))"
        by (rule attentive_try [OF laws ttl]) (simp add: up)
      moreover have "attentive (on_main k (\<lambda>m. if isLeader m then ?down m else m) ?c)" unfolding comp by (rule att) simp
      ultimately show ?thesis unfolding run by (simp add: checkLeader_replied_def attentive_def)
    qed
    from inv consider h where "taken lease cfg c h" | "vacant lease cfg c" by (auto simp: succession_def)
    then have "\<exists>h. taken lease cfg (reply_main ops cfg k c) h"
    proof cases
      case (1 h)
      show ?thesis
      proof (cases "k = h")
        case True
        with 1 may CheckingLeader have l: "l = Some h" "rest = []" "isLeader (cl_mains c h)" by (auto simp: taken_def)
        let ?c' = "?c\<lparr>cl_store := setExpiration ops (mm_leaderKey cfg) (mm_leaderKeyTtl cfg) (cl_now ?c) (cl_store ?c)\<rparr>"
        have "holder lease cfg ?c' = Some h"
          using setExpiration_holder [OF laws ttl, of ?c] 1 by (simp add: taken_def)
        then have "taken lease cfg ?c' h" using l up True by (simp add: taken_def isLeader_def)
        then show ?thesis unfolding run using l True by (auto simp: checkLeader_replied_def)
      next
        case False
        let ?c' = "?c\<lparr>cl_store := setExpiration ops (mm_leaderKey cfg) (mm_leaderKeyTtl cfg) (cl_now ?c) (cl_store ?c)\<rparr>"
        have renew: "taken lease cfg ?c' h"
          using setExpiration_holder [OF laws ttl, of ?c] taken_other [OF 1 False] by (simp add: taken_def False)
        have "taken lease cfg (on_main k ?down ?c) h" "taken lease cfg (on_main k (\<lambda>m. if isLeader m then ?down m else m) ?c) h"
          unfolding comp by (rule taken_other [OF 1 False])+
        then show ?thesis unfolding run checkLeader_replied_def
          using renew taken_try [OF laws ttl, of "on_main k ?down ?c" k h False] up False by (auto split: if_splits)
      qed
    next
      case 2
      then have "mi_calls (cl_mains c k) = [] \<or> mi_calls (cl_mains c k) = [CheckingLeader None]" unfolding vacant_def by blast
      with may CheckingLeader have l: "l = None" "rest = []" by auto
      have "\<exists>h. taken lease cfg (tryBecomeLeader ops cfg k False (on_main k ?down ?c)) h"
        using taken_try [OF laws ttl, of "on_main k ?down ?c" k _ False] 2 l up by (simp add: vacant_def)
      then show ?thesis unfolding run by (simp add: l checkLeader_replied_def)
    qed
    with a show ?thesis by (simp add: succession_def)
  next
    case (BecomingLeader ok i)
    obtain F where run: "reply_main ops cfg k c = on_main k F c"
      and F: "\<And>m. mi_process (F m) = mi_process m" "\<And>m. mi_calls (F m) = rest" "\<And>m. isLeader (F m) = ok"
    proof
      show "reply_main ops cfg k c = on_main k (\<lambda>m. (if i then (\<lambda>m. m\<lparr>mi_leaderCheckInterval := True\<rparr>) else id)
          (tryBecomeLeader_replied ok (m\<lparr>mi_calls := rest\<rparr>))) c"
        by (simp add: reply_main_def may BecomingLeader on_main_def Let_def)
    qed (simp_all add: tryBecomeLeader_replied_def isLeader_def)
    have "attentive (reply_main ops cfg k c)" unfolding run by (rule att) (rule F)
    moreover have "\<not> vacant lease cfg c"
    proof
      assume "vacant lease cfg c"
      then have "mi_calls (cl_mains c k) = [] \<or> mi_calls (cl_mains c k) = [CheckingLeader None]" unfolding vacant_def by blast
      then show False using may BecomingLeader by simp
    qed
    then obtain h where h: "taken lease cfg c h" using inv by (auto simp: succession_def)
    have "taken lease cfg (reply_main ops cfg k c) h"
    proof (cases "k = h")
      case True
      with h may BecomingLeader have "ok" "rest = []" by (auto simp: taken_def)
      show ?thesis unfolding run using h True \<open>ok\<close> \<open>rest = []\<close> by (auto simp: taken_def F)
    qed (use h in \<open>simp add: run taken_other\<close>)
    ultimately show ?thesis by (auto simp: succession_def)
  qed
qed

lemma succession_step:
  assumes laws: "store_laws lease ops" and ttl: "0 < mm_leaderKeyTtl cfg"
    and inv: "succession lease cfg c es" and step: "calm_step lease ops cfg c e c'"
  shows "succession lease cfg c' (es @ [e])"
proof -
  from step have may: "cluster_may e c" and c': "c' = cluster_run ops cfg e c" and time: "in_time lease cfg c e" and calm_event: "calm_event c e"
    by (simp_all add: calm_step_def timely_step_def cluster_step_iff)
  show ?thesis
  proof (cases e)
    case (Boot h)
    then show ?thesis using succession_boot [OF laws ttl inv] may by (simp add: c')
  next
    case (Check h)
    then show ?thesis using succession_check [OF laws inv] may calm_event by (simp add: c' calm_event_def)
  next
    case (Reply h)
    then obtain call rest where "mi_calls (cl_mains c h) = call # rest"
      using may by (cases "mi_calls (cl_mains c h)") auto
    then show ?thesis using succession_reply [OF laws ttl inv] Reply by (simp add: c')
  next
    case (Clock t)
    let ?c = "c\<lparr>cl_now := t\<rparr>"
    have same: "attentive ?c \<longleftrightarrow> attentive c" "answered ?c \<longleftrightarrow> answered c" by (simp_all add: attentive_def answered_def)
    have "vacant lease cfg c \<Longrightarrow> vacant lease cfg ?c" using may Clock by (auto simp: vacant_def holder_def intro: live_later)
    moreover have "taken lease cfg ?c h" if h: "taken lease cfg c h" for h
    proof -
      have "claims c h" using h by (auto simp: taken_def claims_def)
      then have "holder lease cfg ?c = Some h" using time h Clock by (simp add: in_time_def taken_def)
      then show ?thesis using h by (simp add: taken_def)
    qed
    ultimately show ?thesis using inv Clock by (auto simp: c' succession_def same is_attempt_def)
  qed (use calm_event in \<open>simp_all add: calm_event_def\<close>)
qed

text \<open>
  C31: When nobody holds the key, no call is open and every process that checks is up, somebody leads and holds the key as
  soon as a process has started or checked and all calls have been answered, however the checks and the replies of the
  processes interleave, provided that a process checks only when its last check has been answered (otherwise nobody may
  lead, lemma \<open>overlapping_checks_stuck\<close>), that nothing stops, crashes or shuts down, and that the key of a leader
  does not expire.
\<close>

theorem some_leader:
  assumes "store_laws lease ops" "0 < mm_leaderKeyTtl cfg"
    and "holder lease cfg c = None" "attentive c" "answered c"
    and "history (calm_step lease ops cfg) c es c'" "list_ex is_attempt es" "answered c'"
  shows "\<exists>h. leads c' h \<and> holder lease cfg c' = Some h"
proof -
  have "succession lease cfg c' es" using assms(6)
  proof (rule safe_machine.inv_history [rotated, where init = "\<lambda>c0. c0 = c" and inv = "succession lease cfg"])
    show "safe_machine (\<lambda>c0. c0 = c) (calm_step lease ops cfg) (succession lease cfg)"
    proof
      show "succession lease cfg c0 []" if "c0 = c" for c0
        using that assms(3-5) by (simp add: succession_def vacant_def answered_def)
    qed (rule succession_step [OF assms(1,2)])
  qed simp
  then obtain h where "taken lease cfg c' h" using assms(7,8) by (auto simp: succession_def)
  then have "leads c' h" "holder lease cfg c' = Some h" using assms(8) by (auto simp: taken_def leads_def answered_def)
  then show ?thesis by blast
qed

subsection \<open>Nobody leads\<close>

text \<open>
  The key is held, but no process leads nor waits to hear that it does. Checks keep it so: the holder only renews the
  key, and the others see that there is a holder.
\<close>

definition stuck :: "(string \<Rightarrow> 's \<Rightarrow> (string \<times> nat) option) \<Rightarrow> mm_config \<Rightarrow> 's cluster \<Rightarrow> bool" where
  "stuck lease cfg c \<longleftrightarrow> holder lease cfg c \<noteq> None
     \<and> (\<forall>h. \<not> isLeader (cl_mains c h)
          \<and> (\<forall>x \<in> set (mi_calls (cl_mains c h)). x \<noteq> CheckingLeader None \<and> (\<forall>i. x \<noteq> BecomingLeader True i)))"

lemma stuck_on_main:
  "stuck lease cfg c \<Longrightarrow> \<not> isLeader (f (cl_mains c h)) \<Longrightarrow>
   (\<And>x. x \<in> set (mi_calls (f (cl_mains c h))) \<Longrightarrow> x \<in> set (mi_calls (cl_mains c h)) \<or> x \<noteq> CheckingLeader None \<and> (\<forall>i. x \<noteq> BecomingLeader True i)) \<Longrightarrow>
   stuck lease cfg (on_main h f c)"
  unfolding stuck_def by simp blast

lemma stuck_try:
  assumes "store_laws lease ops" "stuck lease cfg c"
  shows "stuck lease cfg (tryBecomeLeader ops cfg h i c)"
proof -
  have "tryBecomeLeader ops cfg h i c = on_main h (suspend (BecomingLeader False i)) c"
    using assms(2) by (intro tryBecomeLeader_held [OF assms(1)]) (simp add: stuck_def)
  then show ?thesis using stuck_on_main [OF assms(2)] assms(2) by (simp add: stuck_def isLeader_def)
qed

lemma stuck_step:
  assumes laws: "store_laws lease ops" and ttl: "0 < mm_leaderKeyTtl cfg" and inv: "stuck lease cfg c"
    and step: "cluster_step ops cfg c e c'" and alive: "holder lease cfg c' \<noteq> None"
  shows "stuck lease cfg c'"
proof -
  from step have may: "cluster_may e c" and c': "c' = cluster_run ops cfg e c" by (simp_all add: cluster_step_iff)
  have nl: "\<not> isLeader (cl_mains c h)" for h using inv by (simp add: stuck_def)
  show ?thesis
  proof (cases e)
    case (Boot h)
    then show ?thesis unfolding c' by (simp add: init_main_def, intro stuck_try [OF laws] stuck_on_main [OF inv]) (simp_all add: isLeader_def)
  next
    case (Check h)
    have "publisher_get ops (mm_leaderKey cfg) (cl_now c) (cl_store c) \<noteq> None"
      using inv get_holder [OF laws, of cfg c] by (simp add: stuck_def)
    then show ?thesis unfolding c' Check cluster_run.simps checkLeader_def using nl [of h]
      by (intro stuck_on_main [OF inv]) (auto simp: isLeader_def)
  next
    case (Reply h)
    then obtain call rest where calls: "mi_calls (cl_mains c h) = call # rest"
      using may by (cases "mi_calls (cl_mains c h)") auto
    let ?c = "on_main h (\<lambda>m. m\<lparr>mi_calls := rest\<rparr>) c"
    have rest: "stuck lease cfg ?c" using nl [of h] by (intro stuck_on_main [OF inv]) (auto simp: calls isLeader_def)
    from inv have call: "call \<noteq> CheckingLeader None" "call \<noteq> BecomingLeader True i" for i
      using calls unfolding stuck_def by (metis list.set_intros(1))+
    show ?thesis
    proof (cases call)
      case (CheckingLeader l)
      let ?down = "\<lambda>m. emit_leader LeaderStepdown (markAsFollower m)"
      have down: "stuck lease cfg (on_main h ?down ?c)" "stuck lease cfg (on_main h (\<lambda>m. if isLeader m then ?down m else m) ?c)"
        by (rule stuck_on_main [OF rest], use nl [of h] in \<open>auto simp: isLeader_def split: if_splits\<close>)+
      have "stuck lease cfg (?c\<lparr>cl_store := setExpiration ops (mm_leaderKey cfg) (mm_leaderKeyTtl cfg) (cl_now ?c) (cl_store ?c)\<rparr>)"
        using rest setExpiration_holder [OF laws ttl, of ?c] by (simp add: stuck_def)
      then show ?thesis unfolding c' Reply using down stuck_try [OF laws down(1)]
        by (simp add: reply_main_def calls CheckingLeader checkLeader_replied_def Let_def)
    next
      case (BecomingLeader ok i)
      with call have "\<not> ok" by auto
      then show ?thesis unfolding c' Reply cluster_run.simps reply_main_def calls list.case BecomingLeader main_call.case Let_def
        by (intro stuck_on_main [OF rest]) (auto simp: tryBecomeLeader_replied_def isLeader_def split: if_splits)
    qed
  next
    case (Stop h)
    then show ?thesis unfolding c' using nl [of h]
      by (simp add: shutdown_main_def) (rule stuck_on_main [OF inv], auto simp: isLeader_def)
  next
    case (Vanish h)
    then show ?thesis unfolding c' by (simp, intro stuck_on_main [OF inv]) (simp_all add: isLeader_def)
  next
    case (Clock t)
    then show ?thesis using inv alive by (simp add: c' stuck_def)
  qed
qed

lemma stuck_nobody: "stuck lease cfg c \<Longrightarrow> \<not> leads c h"
  by (simp add: stuck_def leads_def)

subsection \<open>Examples\<close>

definition simple_store :: "(string \<Rightarrow> (string \<times> nat) option) store_ops" where
  "simple_store = \<lparr>so_get = (\<lambda>k now st. live_lease now (st k)),
     so_setNX = (\<lambda>k v ttl now st. if live_lease now (st k) = None then (True, st(k := Some (v, now + ttl))) else (False, st)),
     so_expire = (\<lambda>k ttl now st. case live_lease now (st k) of Some v \<Rightarrow> st(k := Some (v, now + ttl)) | None \<Rightarrow> st),
     so_del = (\<lambda>k st. st(k := None))\<rparr>"

abbreviation simple_lease :: "string \<Rightarrow> (string \<Rightarrow> (string \<times> nat) option) \<Rightarrow> (string \<times> nat) option" where
  "simple_lease k st \<equiv> st k"

lemma simple_store_laws: "store_laws simple_lease simple_store"
  by (auto simp: store_laws_def simple_store_def)

definition example_config :: mm_config where
  "example_config = \<lparr>mm_leaderKey = ''leader'', mm_leaderKeyTtl = 10\<rparr>"

text \<open>The events of a history one after the other; \<open>None\<close> when one may not happen.\<close>

fun cluster_runs ::
  "('s cluster \<Rightarrow> cluster_event \<Rightarrow> bool) \<Rightarrow> 's store_ops \<Rightarrow> mm_config \<Rightarrow> cluster_event list \<Rightarrow> 's cluster \<Rightarrow> 's cluster option" where
  "cluster_runs ok ops cfg [] c = Some c"
| "cluster_runs ok ops cfg (e # es) c = (if cluster_may e c \<and> ok c e then cluster_runs ok ops cfg es (cluster_run ops cfg e c) else None)"

lemma cluster_runs_history:
  assumes "\<And>c e. cluster_may e c \<Longrightarrow> ok c e \<Longrightarrow> step c e (cluster_run ops cfg e c)"
  shows "history step c0 es0 c \<Longrightarrow> cluster_runs ok ops cfg es c = Some c' \<Longrightarrow> history step c0 (es0 @ es) c'"
proof (induction es arbitrary: es0 c)
  case (Cons e es)
  from Cons.prems have "cluster_may e c" "ok c e" "cluster_runs ok ops cfg es (cluster_run ops cfg e c) = Some c'"
    by (auto split: if_splits)
  then show ?case using Cons.IH [OF history_more [OF Cons.prems(1) assms]] by simp
qed simp

end
