(* ===== verification/LeaderExamples.thy ===== *)
theory LeaderExamples
  imports LeaderElectionFacts
begin

section \<open>Histories of main processes\<close>

text \<open>
  Two processes that take turns, and histories outside what the properties assume: a leader that is too slow, checks
  that overlap, and a leader that crashes and is started again under the same name.
\<close>

abbreviation hostA :: string where "hostA \<equiv> ''main-a''"
abbreviation hostB :: string where "hostB \<equiv> ''main-b''"

abbreviation empty_cluster :: "(string \<Rightarrow> (string \<times> nat) option) cluster" where
  "empty_cluster \<equiv> new_cluster (\<lambda>_. None)"

text \<open>\<open>in_time\<close> and \<open>calm_event\<close> in a form that computes.\<close>

definition claiming :: "main_instance \<Rightarrow> bool" where
  "claiming m = (mi_process m = ProcessUp \<and> (isLeader m \<or> list_ex (\<lambda>x. case x of BecomingLeader ok i \<Rightarrow> ok | _ \<Rightarrow> False) (mi_calls m)))"

lemma claims_claiming: "claims c h \<longleftrightarrow> claiming (cl_mains c h)"
proof -
  have "list_ex (\<lambda>x. case x of BecomingLeader ok i \<Rightarrow> ok | _ \<Rightarrow> False) cs \<longleftrightarrow> (\<exists>i. BecomingLeader True i \<in> set cs)" for cs
    by (induction cs) (auto split: main_call.split)
  then show ?thesis by (simp add: claims_def claiming_def)
qed

definition punctual :: "(string \<Rightarrow> (string \<times> nat) option) cluster \<Rightarrow> cluster_event \<Rightarrow> bool" where
  "punctual c e = (case e of
     Clock t \<Rightarrow> (case holder simple_lease example_config c of
                 None \<Rightarrow> True
               | Some h \<Rightarrow> \<not> claiming (cl_mains c h) \<or> holder simple_lease example_config (c\<lparr>cl_now := t\<rparr>) = Some h)
   | _ \<Rightarrow> True)"

lemma punctual_step:
  "cluster_may e c \<Longrightarrow> punctual c e \<Longrightarrow>
   timely_step simple_lease simple_store example_config c e (cluster_run simple_store example_config e c)"
  by (auto simp: timely_step_def cluster_step_iff in_time_def punctual_def claims_claiming split: cluster_event.splits)

definition punctual_calm :: "(string \<Rightarrow> (string \<times> nat) option) cluster \<Rightarrow> cluster_event \<Rightarrow> bool" where
  "punctual_calm c e \<longleftrightarrow> punctual c e \<and> calm_event c e"

lemma punctual_calm_step:
  "cluster_may e c \<Longrightarrow> punctual_calm c e \<Longrightarrow>
   calm_step simple_lease simple_store example_config c e (cluster_run simple_store example_config e c)"
  by (simp add: calm_step_def punctual_calm_def punctual_step)

subsection \<open>Turns\<close>

text \<open>The first process leads, renews the key and stops; the second one follows, and takes over.\<close>

definition turn_events :: "cluster_event list" where
  "turn_events = [Boot hostA, Reply hostA, Boot hostB, Reply hostB, Clock 3, Check hostA, Reply hostA, Clock 12, Check hostB, Reply hostB]"

lemmas cluster_eval = init_main_def tryBecomeLeader_def tryBecomeLeader_replied_def checkLeader_def checkLeader_replied_def reply_main_def
  shutdown_main_def on_main_def suspend_def emit_leader_def markAsLeader_def markAsFollower_def gone_main_def isLeader_def new_cluster_def
  setIfNotExists_def setExpiration_def publisher_get_def publisher_clear_def simple_store_def live_lease_def example_config_def
  punctual_def punctual_calm_def calm_event_def holder_def claiming_def

definition main_state :: "instance_role \<Rightarrow> leader_event list \<Rightarrow> main_instance" where
  "main_state r es = \<lparr>mi_process = ProcessUp, mi_instanceRole = r, mi_leaderCheckInterval = True, mi_calls = [], mi_emitted = es\<rparr>"

definition after_turn :: "(string \<Rightarrow> (string \<times> nat) option) cluster" where
  "after_turn = \<lparr>cl_store = (\<lambda>_. None)(''leader'' := Some (hostA, 13)), cl_now = 12,
     cl_mains = (\<lambda>_. gone_main)(hostA := main_state RoleLeader [LeaderTakeover], hostB := main_state RoleFollower [])\<rparr>"

lemma turn_runs: "cluster_runs punctual simple_store example_config turn_events empty_cluster = Some after_turn"
  by (simp add: turn_events_def after_turn_def main_state_def cluster_eval fun_upd_twist)

lemma turn_history: "history (timely_step simple_lease simple_store example_config) empty_cluster turn_events after_turn"
  using cluster_runs_history [where step = "timely_step simple_lease simple_store example_config", OF punctual_step history_start turn_runs]
  by simp

lemma turn_leader: "leads after_turn hostA" "\<not> leads after_turn hostB"
  by (simp_all add: after_turn_def main_state_def leads_def isLeader_def)

lemma one_leader_witness: "leads after_turn hostA \<and> holder simple_lease example_config after_turn = Some hostA"
  using one_leader [OF simple_store_laws _ turn_history turn_leader(1) turn_leader(1)] turn_leader(1)
  by (simp add: example_config_def)

text \<open>The leader stops.\<close>

definition after_stop :: "(string \<Rightarrow> (string \<times> nat) option) cluster" where
  "after_stop = cluster_run simple_store example_config (Stop hostA) after_turn"

definition after_handover :: "(string \<Rightarrow> (string \<times> nat) option) cluster" where
  "after_handover = after_stop\<lparr>cl_store := (\<lambda>_. None)(''leader'' := Some (hostB, 22)),
     cl_mains := (cl_mains after_stop)(hostB := main_state RoleLeader [LeaderStepdown, LeaderTakeover])\<rparr>"

lemma handover_runs:
  "cluster_runs punctual_calm simple_store example_config [Check hostB, Reply hostB, Reply hostB] after_stop = Some after_handover"
  by (simp add: after_handover_def after_stop_def after_turn_def main_state_def cluster_eval)

lemma handover_history:
  "history (calm_step simple_lease simple_store example_config) after_stop [Check hostB, Reply hostB, Reply hostB] after_handover"
  using cluster_runs_history [where step = "calm_step simple_lease simple_store example_config", OF punctual_calm_step history_start handover_runs]
  by simp

lemma after_stop_ok: "holder simple_lease example_config after_stop = None" "attentive after_stop" "answered after_stop"
  by (simp_all add: after_stop_def after_turn_def main_state_def attentive_def answered_def cluster_eval)

lemma after_handover_ok: "answered after_handover"
  by (simp add: after_handover_def after_stop_def after_turn_def main_state_def answered_def cluster_eval)

lemma some_leader_witness: "\<exists>h. leads after_handover h \<and> holder simple_lease example_config after_handover = Some h"
  using some_leader [OF simple_store_laws _ after_stop_ok handover_history _ after_handover_ok]
  by (simp add: example_config_def is_attempt_def)

subsection \<open>Outside the assumptions\<close>

text \<open>A leader that does not renew its key in time still leads, until it checks, when another one already does.\<close>

abbreviation any_time :: "(string \<Rightarrow> (string \<times> nat) option) cluster \<Rightarrow> cluster_event \<Rightarrow> bool" where
  "any_time c e \<equiv> True"

lemma slow_leader_leads:
  "\<exists>c. cluster_runs any_time simple_store example_config
         [Boot hostA, Reply hostA, Clock 10, Boot hostB, Reply hostB] empty_cluster = Some c
     \<and> leads c hostA \<and> leads c hostB"
  by (simp add: leads_def cluster_eval)

text \<open>
  Two checks of one process that overlap: both find the key free, the first takes it and the second does not, so the process
  holds the key as a follower.
\<close>

lemma overlapping_checks_stuck:
  "\<exists>c. cluster_runs any_time simple_store example_config
         [Check hostB, Check hostB, Reply hostB, Reply hostB, Reply hostB, Reply hostB] after_stop = Some c
     \<and> holder simple_lease example_config c = Some hostB \<and> \<not> isLeader (cl_mains c hostB) \<and> mi_calls (cl_mains c hostB) = []"
  by (simp add: after_stop_def after_turn_def main_state_def cluster_eval)

text \<open>
  A leader that crashes and is started again under the same name before its key expires: it is a follower, and renews the
  key of the leader that it was. From here on nobody leads, as long as it does.
\<close>

lemma restarted_leader_stuck:
  "\<exists>c. cluster_runs any_time simple_store example_config
         [Boot hostA, Reply hostA, Vanish hostA, Clock 5, Boot hostA, Reply hostA] empty_cluster = Some c
     \<and> stuck simple_lease example_config c"
  by (simp add: stuck_def cluster_eval)

end
