(* ===== verification/WaitTracker.thy ===== *)
theory WaitTracker
  imports LeaderElection
begin

section \<open>Resuming executions that wait\<close>

text \<open>
  \<open>packages/cli/src/wait-tracker.ts\<close>: the leader asks the database every minute which executions are due soon and sets a
  timer for each. A timer has a number; an entry of \<open>waitingExecutions\<close> keeps the number of its timer also when the
  timer has been cleared. The database and the runner are outside: their answers come with the events. Times are
  milliseconds.
\<close>

subsection \<open>The code\<close>

datatype timer_kind = PollTimer | StartTimer string int

record wait_tracker =
  wt_waitingExecutions :: "nat obj"
  wt_mainTimer :: "nat option"
  wt_timers :: "(nat \<times> timer_kind) list"
  wt_nextTimer :: nat
  wt_queries :: nat
  wt_started :: "string list"
  wt_children :: "(string \<times> string) list"

definition wt_setTimer :: "timer_kind \<Rightarrow> wait_tracker \<Rightarrow> wait_tracker" where
  "wt_setTimer k w = w\<lparr>wt_timers := wt_timers w @ [(wt_nextTimer w, k)], wt_nextTimer := wt_nextTimer w + 1\<rparr>"

definition wt_clearTimer :: "nat \<Rightarrow> wait_tracker \<Rightarrow> wait_tracker" where
  "wt_clearTimer n w = w\<lparr>wt_timers := filter (\<lambda>(m, _). m \<noteq> n) (wt_timers w)\<rparr>"

definition wt_has :: "string \<Rightarrow> wait_tracker \<Rightarrow> bool" where
  "wt_has executionId w \<longleftrightarrow> obj_get (wt_waitingExecutions w) executionId \<noteq> None"

text \<open>\<open>getWaitingExecutions\<close> up to its query, and from the answer on.\<close>

definition query_waiting :: "wait_tracker \<Rightarrow> wait_tracker" where
  "query_waiting w = w\<lparr>wt_queries := wt_queries w + 1\<rparr>"

definition wait_for_execution :: "int \<Rightarrow> string \<times> int \<Rightarrow> wait_tracker \<Rightarrow> wait_tracker" where
  "wait_for_execution now execution w =
     (case execution of (executionId, waitTill) \<Rightarrow>
        if wt_has executionId w then w
        else (wt_setTimer (StartTimer executionId (now + (waitTill - now))) w)
               \<lparr>wt_waitingExecutions := obj_set executionId (wt_nextTimer w) (wt_waitingExecutions w)\<rparr>)"

definition getWaitingExecutions :: "int \<Rightarrow> (string \<times> int) list \<Rightarrow> wait_tracker \<Rightarrow> wait_tracker" where
  "getWaitingExecutions now executions w = fold (wait_for_execution now) executions w"

definition startTracking :: "wait_tracker \<Rightarrow> wait_tracker" where
  "startTracking w = query_waiting ((wt_setTimer PollTimer w)\<lparr>wt_mainTimer := Some (wt_nextTimer w)\<rparr>)"

definition stopTracking :: "wait_tracker \<Rightarrow> wait_tracker" where
  "stopTracking w =
     (case wt_mainTimer w of
        None \<Rightarrow> w
      | Some mainTimer \<Rightarrow> fold (\<lambda>(_, timer). wt_clearTimer timer) (wt_waitingExecutions w) (wt_clearTimer mainTimer w))"

definition wt_stopExecution :: "string \<Rightarrow> wait_tracker \<Rightarrow> wait_tracker" where
  "wt_stopExecution executionId w =
     (case obj_get (wt_waitingExecutions w) executionId of
        None \<Rightarrow> w
      | Some timer \<Rightarrow> (wt_clearTimer timer w)\<lparr>wt_waitingExecutions := obj_del executionId (wt_waitingExecutions w)\<rparr>)"

text \<open>What the database knows of an execution: whether it has finished, whether its workflow is saved, and its parent.\<close>

record parent_execution =
  pe_executionId :: string
  pe_shouldResume :: "bool option"

record full_execution =
  fe_finished :: bool
  fe_saved :: bool
  fe_parent :: "parent_execution option"

definition shouldRestartParentExecution :: "parent_execution option \<Rightarrow> bool" where
  "shouldRestartParentExecution p =
     (case p of None \<Rightarrow> False | Some p \<Rightarrow> (case pe_shouldResume p of None \<Rightarrow> True | Some b \<Rightarrow> b))"

text \<open>\<open>accepted\<close> is false when another process is resuming the execution already.\<close>

definition startExecution :: "string \<Rightarrow> full_execution option \<Rightarrow> bool \<Rightarrow> wait_tracker \<Rightarrow> js_error option \<times> wait_tracker" where
  "startExecution executionId found accepted w =
     (let w1 = w\<lparr>wt_waitingExecutions := obj_del executionId (wt_waitingExecutions w)\<rparr>
      in case found of
           None \<Rightarrow> (Some (UnexpectedError ''Execution does not exist.''), w1)
         | Some e \<Rightarrow>
             if fe_finished e then (Some (UnexpectedError ''The execution did succeed and can so not be started again.''), w1)
             else if \<not> fe_saved e then (Some (UnexpectedError ''Only saved workflows can be resumed.''), w1)
             else if \<not> accepted then (None, w1)
             else (None, w1\<lparr>wt_started := wt_started w1 @ [executionId],
                      wt_children := (if shouldRestartParentExecution (fe_parent e)
                        then wt_children w1 @ [(executionId, pe_executionId (the (fe_parent e)))] else wt_children w1)\<rparr>))"

subsection \<open>What may happen\<close>

datatype wait_event =
    TakeOver
  | StepDown
  | Answered int "(string \<times> int) list"
  | MainTimer
  | Due string int "full_execution option" bool
  | StopWaiting string
  | ChildEnds string string bool "full_execution option" bool

inductive wait_step :: "wait_tracker \<Rightarrow> wait_event \<Rightarrow> wait_tracker \<Rightarrow> bool" where
  take_over: "wait_step w TakeOver (startTracking w)"
| step_down: "wait_step w StepDown (stopTracking w)"
| answered: "0 < wt_queries w \<Longrightarrow>
    wait_step w (Answered now executions) (getWaitingExecutions now executions (w\<lparr>wt_queries := wt_queries w - 1\<rparr>))"
| main_timer: "PollTimer \<in> snd ` set (wt_timers w) \<Longrightarrow> wait_step w MainTimer (query_waiting w)"
| due: "(n, StartTimer i t) \<in> set (wt_timers w) \<Longrightarrow> t \<le> now \<Longrightarrow>
    wait_step w (Due i now found accepted) (snd (startExecution i found accepted (wt_clearTimer n w)))"
| stop_waiting: "wait_step w (StopWaiting i) (wt_stopExecution i w)"
| child_ends: "(child, parent) \<in> set (wt_children w) \<Longrightarrow>
    wait_step w (ChildEnds child parent resumes found accepted)
      (let w' = w\<lparr>wt_children := remove1 (child, parent) (wt_children w)\<rparr>
       in if resumes then snd (startExecution parent found accepted w') else w')"

inductive_cases wait_stepE: "wait_step w e w'"

definition new_tracker :: wait_tracker where
  "new_tracker = \<lparr>wt_waitingExecutions = [], wt_mainTimer = None, wt_timers = [], wt_nextTimer = 0, wt_queries = 0,
     wt_started = [], wt_children = []\<rparr>"

end
