(* ===== verification/WaitTrackerFacts.thy ===== *)
theory WaitTrackerFacts
  imports WaitTracker
begin

section \<open>What the wait tracker promises\<close>

text \<open>
  An execution is resumed at most as often as it was reported by the database or its child ended. As long as the process
  leads, every execution that it keeps has its timer; a timer may outlive its entry when a child resumes its parent. When it stops to lead it clears the timers and keeps the
  executions, so that it never resumes them, even when it leads again.
\<close>

lemma wait_step_cases:
  assumes "wait_step w e w'"
  obtains (take_over) "e = TakeOver" "w' = startTracking w"
    | (step_down) "e = StepDown" "w' = stopTracking w"
    | (answered) now executions where "e = Answered now executions" "0 < wt_queries w"
        "w' = getWaitingExecutions now executions (w\<lparr>wt_queries := wt_queries w - 1\<rparr>)"
    | (main_timer) "e = MainTimer" "w' = query_waiting w"
    | (due) n j t now found accepted where "e = Due j now found accepted" "(n, StartTimer j t) \<in> set (wt_timers w)"
        "w' = snd (startExecution j found accepted (wt_clearTimer n w))"
    | (stop_waiting) j where "e = StopWaiting j" "w' = wt_stopExecution j w"
    | (child_ends) child parent resumes found accepted where "e = ChildEnds child parent resumes found accepted"
        "w' = (let w' = w\<lparr>wt_children := remove1 (child, parent) (wt_children w)\<rparr>
               in if resumes then snd (startExecution parent found accepted w') else w')"
  using assms by (cases rule: wait_step.cases) blast+

lemma length_filter_filter: "length (filter P (filter Q xs)) \<le> length (filter P xs)"
  by (induction xs) auto

subsection \<open>No execution is resumed too often\<close>

definition armed_for :: "string \<Rightarrow> wait_tracker \<Rightarrow> nat" where
  "armed_for i w = length (filter (\<lambda>(_, k). case k of StartTimer j _ \<Rightarrow> j = i | _ \<Rightarrow> False) (wt_timers w))"

text \<open>The events after which an execution may be resumed once.\<close>

definition grants :: "string \<Rightarrow> wait_event \<Rightarrow> bool" where
  "grants i e \<longleftrightarrow> (case e of Answered now executions \<Rightarrow> i \<in> fst ` set executions | ChildEnds child parent resumes found accepted \<Rightarrow> resumes \<and> parent = i | _ \<Rightarrow> False)"

definition resume_ok :: "string \<Rightarrow> wait_tracker \<Rightarrow> wait_event list \<Rightarrow> bool" where
  "resume_ok i w es \<longleftrightarrow> count_list (wt_started w) i + armed_for i w \<le> length (filter (grants i) es)"

lemma armed_clear: "armed_for i (wt_clearTimer n w) \<le> armed_for i w"
  by (simp add: armed_for_def wt_clearTimer_def length_filter_filter del: filter_filter)

lemma clear_timers_started: "wt_started (fold (\<lambda>(_, t). wt_clearTimer t) xs w) = wt_started w"
  by (induction xs arbitrary: w) (auto simp: wt_clearTimer_def)

lemma armed_clears: "armed_for i (fold (\<lambda>(_, t). wt_clearTimer t) xs w) \<le> armed_for i w"
proof (induction xs arbitrary: w)
  case (Cons p xs)
  then show ?case using armed_clear [of i "snd p" w] by (fastforce simp: case_prod_unfold intro: order_trans)
qed simp

lemma armed_clear_less:
  assumes "(n, StartTimer i t) \<in> set (wt_timers w)"
  shows "armed_for i (wt_clearTimer n w) < armed_for i w"
proof -
  let ?P = "\<lambda>(_, k). case k of StartTimer j _ \<Rightarrow> j = i | _ \<Rightarrow> False"
  have "length (filter ?P (filter (\<lambda>(m, _). m \<noteq> n) xs)) < length (filter ?P xs)" if "(n, StartTimer i t) \<in> set xs" for xs
    using that
  proof (induction xs)
    case (Cons x xs)
    have "length (filter ?P (filter (\<lambda>(m, _). m \<noteq> n) xs)) \<le> length (filter ?P xs)" by (rule length_filter_filter)
    then show ?case using Cons by (cases "x = (n, StartTimer i t)") (auto split: prod.splits)
  qed simp
  then show ?thesis using assms unfolding armed_for_def wt_clearTimer_def by simp
qed

lemma wait_for_armed:
  "armed_for i (wait_for_execution now e w) = armed_for i w + (if fst e = i \<and> \<not> wt_has i w then 1 else 0)"
  "wt_started (wait_for_execution now e w) = wt_started w"
  "wt_has i (wait_for_execution now e w) \<longleftrightarrow> wt_has i w \<or> fst e = i"
  by (cases e; auto simp: wait_for_execution_def wt_setTimer_def armed_for_def wt_has_def obj_get_set)+

lemma answered_armed:
  "armed_for i (getWaitingExecutions now es w) = armed_for i w + (if i \<in> fst ` set es \<and> \<not> wt_has i w then 1 else 0)
   \<and> wt_started (getWaitingExecutions now es w) = wt_started w"
  unfolding getWaitingExecutions_def
  by (induction es arbitrary: w) (auto simp: wait_for_armed)

lemma startExecution_armed:
  "armed_for i (snd (startExecution j found accepted w)) = armed_for i w"
  "count_list (wt_started (snd (startExecution j found accepted w))) i \<le> count_list (wt_started w) i + (if j = i then 1 else 0)"
  by (auto simp: startExecution_def armed_for_def Let_def split: option.split)

lemma resume_step:
  assumes "resume_ok i w es" "wait_step w e w'"
  shows "resume_ok i w' (es @ [e])"
  using assms(2)
proof (cases rule: wait_step_cases)
  case step_down
  have "armed_for i (stopTracking w) \<le> armed_for i w" "wt_started (stopTracking w) = wt_started w"
    using armed_clears [of i "wt_waitingExecutions w"] armed_clear [of i _ w]
    by (auto simp: stopTracking_def clear_timers_started split: option.split intro: order_trans) (simp add: wt_clearTimer_def)
  then show ?thesis using assms(1) step_down by (simp add: resume_ok_def)
next
  case (answered now executions)
  let ?w = "w\<lparr>wt_queries := wt_queries w - 1\<rparr>"
  have "armed_for i ?w = armed_for i w" by (simp add: armed_for_def)
  then show ?thesis using assms(1) answered answered_armed [of i now executions ?w] by (auto simp: resume_ok_def grants_def)
next
  case (due n j t now found accepted)
  have started: "wt_started (wt_clearTimer n w) = wt_started w" by (simp add: wt_clearTimer_def)
  show ?thesis
  proof (cases "j = i")
    case True
    then have "armed_for i (wt_clearTimer n w) < armed_for i w" using armed_clear_less due by simp
    then show ?thesis using assms(1) due started startExecution_armed [where i = i and j = j and found = found and accepted = accepted and w = "wt_clearTimer n w"] True
      by (simp add: resume_ok_def)
  next
    case False
    then show ?thesis using assms(1) due started startExecution_armed [where i = i and j = j and found = found and accepted = accepted and w = "wt_clearTimer n w"] armed_clear [of i n w]
      by (simp add: resume_ok_def)
  qed
next
  case (stop_waiting j)
  have "armed_for i (wt_stopExecution j w) \<le> armed_for i w" "wt_started (wt_stopExecution j w) = wt_started w"
    using armed_clear [of i _ w] by (auto simp: wt_stopExecution_def armed_for_def wt_clearTimer_def split: option.split)
  then show ?thesis using assms(1) stop_waiting by (simp add: resume_ok_def)
next
  case (child_ends child parent resumes found accepted)
  let ?w = "w\<lparr>wt_children := remove1 (child, parent) (wt_children w)\<rparr>"
  have "armed_for i ?w = armed_for i w" by (simp add: armed_for_def)
  then show ?thesis using assms(1) child_ends startExecution_armed [where i = i and j = parent and found = found and accepted = accepted and w = ?w]
    by (auto simp: resume_ok_def grants_def Let_def)
qed (use assms(1) in \<open>simp_all add: resume_ok_def startTracking_def query_waiting_def wt_setTimer_def armed_for_def\<close>)

interpretation resumes: safe_machine "\<lambda>w. w = new_tracker" wait_step "resume_ok i" for i
proof
  show "resume_ok i w []" if "w = new_tracker" for w
    using that by (simp add: resume_ok_def new_tracker_def armed_for_def)
qed (rule resume_step)

text \<open>
  C36: Whatever happens, an execution is resumed at most once for each answer of the database that reports it and for each
  child of it that ends.
\<close>

theorem resumed_at_most:
  assumes "history wait_step new_tracker es w"
  shows "count_list (wt_started w) i \<le> length (filter (grants i) es)"
  using resumes.inv_history [OF assms refl, of i] by (simp add: resume_ok_def)

subsection \<open>No execution is forgotten\<close>

text \<open>\<open>held\<close>: the tracker keeps the execution with this timer; \<open>armed\<close>: the timer is set for it.\<close>

definition held :: "wait_tracker \<Rightarrow> string \<Rightarrow> nat \<Rightarrow> bool" where
  "held w i n \<longleftrightarrow> obj_get (wt_waitingExecutions w) i = Some n"

definition armed :: "wait_tracker \<Rightarrow> string \<Rightarrow> nat \<Rightarrow> bool" where
  "armed w i n \<longleftrightarrow> (\<exists>t. (n, StartTimer i t) \<in> set (wt_timers w))"

definition wait_timers_ok :: "wait_tracker \<Rightarrow> bool" where
  "wait_timers_ok w \<longleftrightarrow> distinct (map fst (wt_timers w)) \<and> (\<forall>n \<in> fst ` set (wt_timers w). n < wt_nextTimer w)
     \<and> (\<forall>i n. held w i n \<longrightarrow> armed w i n)"

text \<open>The converse, that no other timer is set for an execution, holds until a child resumes its parent.\<close>

definition timers_held :: "wait_tracker \<Rightarrow> bool" where
  "timers_held w \<longleftrightarrow> (\<forall>i n. armed w i n \<longrightarrow> held w i n)"

lemma wait_timers_ok_same:
  assumes "wt_timers w' = wt_timers w" "wt_nextTimer w' = wt_nextTimer w" "wt_waitingExecutions w' = wt_waitingExecutions w"
  shows "wait_timers_ok w' = wait_timers_ok w" "wt_has i w' = wt_has i w" "timers_held w' = timers_held w"
  by (simp_all only: wait_timers_ok_def timers_held_def held_def armed_def wt_has_def assms)

lemma held_unique: "held w i n \<Longrightarrow> held w i m \<Longrightarrow> m = n" by (simp add: held_def)

lemma has_held: "wt_has i w \<longleftrightarrow> (\<exists>n. held w i n)" by (simp add: wt_has_def held_def)

lemma timers_armed: "wait_timers_ok w \<Longrightarrow> wt_has i w \<Longrightarrow> \<exists>n. armed w i n"
  by (auto simp: wait_timers_ok_def has_held)

lemma armed_once:
  assumes "wait_timers_ok w" "armed w i n" "armed w j n"
  shows "j = i"
proof -
  obtain t u where "(n, StartTimer i t) \<in> set (wt_timers w)" "(n, StartTimer j u) \<in> set (wt_timers w)"
    using assms(2,3) by (auto simp: armed_def)
  moreover have "distinct (map fst (wt_timers w))" using assms(1) by (simp add: wait_timers_ok_def)
  ultimately have "StartTimer i t = StartTimer j u" by (metis eq_key_imp_eq_value)
  then show ?thesis by simp
qed

text \<open>The events of a process that leads, and those without executions that are resumed for their children.\<close>

definition keeps_leading :: "wait_event \<Rightarrow> bool" where
  "keeps_leading e \<longleftrightarrow> (case e of StepDown \<Rightarrow> False | _ \<Rightarrow> True)"

definition no_child_resumes :: "wait_event \<Rightarrow> bool" where
  "no_child_resumes e \<longleftrightarrow> (case e of ChildEnds child parent resumes found accepted \<Rightarrow> \<not> resumes | _ \<Rightarrow> True)"

lemma wait_for_held:
  assumes "\<not> wt_has i w"
  shows "held (wait_for_execution now (i, t) w) j n \<longleftrightarrow> (if j = i then n = wt_nextTimer w else held w j n)"
    "armed (wait_for_execution now (i, t) w) j n \<longleftrightarrow> armed w j n \<or> j = i \<and> n = wt_nextTimer w"
  using assms by (auto simp: wait_for_execution_def wt_setTimer_def held_def armed_def obj_get_set)

lemma timers_wait_for:
  assumes "wait_timers_ok w"
  shows "wait_timers_ok (wait_for_execution now (i, t) w)" "timers_held w \<Longrightarrow> timers_held (wait_for_execution now (i, t) w)"
proof -
  show "timers_held w \<Longrightarrow> timers_held (wait_for_execution now (i, t) w)"
  proof (cases "wt_has i w")
    case False
    then show "timers_held w \<Longrightarrow> timers_held (wait_for_execution now (i, t) w)"
      by (auto simp: timers_held_def wait_for_held [OF False] has_held)
  qed (simp add: wait_for_execution_def)
  show "wait_timers_ok (wait_for_execution now (i, t) w)"
  proof (cases "wt_has i w")
    case False
    let ?w = "wait_for_execution now (i, t) w"
    have new: "wt_timers ?w = wt_timers w @ [(wt_nextTimer w, StartTimer i (now + (t - now)))]" "wt_nextTimer ?w = wt_nextTimer w + 1"
      using False by (simp_all add: wait_for_execution_def wt_setTimer_def)
    have "armed ?w j n" if "held ?w j n" for j n
      using assms that by (auto simp: wait_for_held [OF False] wait_timers_ok_def split: if_splits)
    moreover have "wt_nextTimer w \<notin> fst ` set (wt_timers w)" using assms by (auto simp: wait_timers_ok_def)
    ultimately show ?thesis using assms by (auto simp: wait_timers_ok_def new)
  qed (use assms in \<open>simp add: wait_for_execution_def\<close>)
qed

lemma timers_answered:
  "wait_timers_ok w \<Longrightarrow> wait_timers_ok (getWaitingExecutions now es w)"
  "wait_timers_ok w \<Longrightarrow> timers_held w \<Longrightarrow> timers_held (getWaitingExecutions now es w)"
  unfolding getWaitingExecutions_def by (induction es arbitrary: w) (auto simp: timers_wait_for)

lemma clear_held:
  "held ((wt_clearTimer n w)\<lparr>wt_waitingExecutions := obj_del i (wt_waitingExecutions w)\<rparr>) j m \<longleftrightarrow> j \<noteq> i \<and> held w j m"
  "armed ((wt_clearTimer n w)\<lparr>wt_waitingExecutions := obj_del i (wt_waitingExecutions w)\<rparr>) j m \<longleftrightarrow> m \<noteq> n \<and> armed w j m"
  by (auto simp: held_def armed_def wt_clearTimer_def obj_get_del)

lemma timers_drop:
  assumes "wait_timers_ok w" "armed w i n"
  shows "wait_timers_ok ((wt_clearTimer n w)\<lparr>wt_waitingExecutions := obj_del i (wt_waitingExecutions w)\<rparr>)"
    "timers_held w \<Longrightarrow> timers_held ((wt_clearTimer n w)\<lparr>wt_waitingExecutions := obj_del i (wt_waitingExecutions w)\<rparr>)"
proof -
  let ?w = "(wt_clearTimer n w)\<lparr>wt_waitingExecutions := obj_del i (wt_waitingExecutions w)\<rparr>"
  have "armed ?w j m" if "held ?w j m" for j m
  proof -
    have "held w j m" "j \<noteq> i" using that by (simp_all add: clear_held)
    moreover from this have "armed w j m" using assms(1) by (simp add: wait_timers_ok_def)
    ultimately show ?thesis using armed_once [OF assms(1)] assms(2) by (auto simp: clear_held)
  qed
  then show "wait_timers_ok ?w" using assms(1)
    by (auto simp: wait_timers_ok_def wt_clearTimer_def distinct_map_filter)
  show "timers_held ?w" if "timers_held w"
    using that assms(2) held_unique [of w i] by (auto simp: clear_held timers_held_def)
qed

lemma startExecution_timers:
  "wt_timers (snd (startExecution i found accepted w)) = wt_timers w"
  "wt_nextTimer (snd (startExecution i found accepted w)) = wt_nextTimer w"
  "wt_waitingExecutions (snd (startExecution i found accepted w)) = obj_del i (wt_waitingExecutions w)"
  by (simp_all add: startExecution_def Let_def split: option.split)

lemma timers_step:
  assumes "wait_timers_ok w" "wait_step w e w'" "keeps_leading e"
  shows "wait_timers_ok w' \<and> (timers_held w \<and> no_child_resumes e \<longrightarrow> timers_held w')"
  using assms(2)
proof (cases rule: wait_step_cases)
  case take_over
  have new: "wt_timers w' = wt_timers w @ [(wt_nextTimer w, PollTimer)]" "wt_nextTimer w' = wt_nextTimer w + 1"
    "wt_waitingExecutions w' = wt_waitingExecutions w"
    by (simp_all add: take_over startTracking_def query_waiting_def wt_setTimer_def)
  have "held w' i n \<longleftrightarrow> held w i n" "armed w' i n \<longleftrightarrow> armed w i n" for i n by (simp_all add: held_def armed_def new)
  moreover have "wt_nextTimer w \<notin> fst ` set (wt_timers w)" using assms by (auto simp: wait_timers_ok_def)
  ultimately show ?thesis using assms(1) by (auto simp: wait_timers_ok_def timers_held_def new)
next
  case step_down
  then show ?thesis using assms(3) by (simp add: keeps_leading_def)
next
  case (answered now executions)
  let ?w = "w\<lparr>wt_queries := wt_queries w - 1\<rparr>"
  have "wait_timers_ok ?w \<longleftrightarrow> wait_timers_ok w" "timers_held ?w \<longleftrightarrow> timers_held w"
    by (rule wait_timers_ok_same; simp)+
  then show ?thesis unfolding answered(3) using assms(1) timers_answered by blast
next
  case main_timer
  then show ?thesis using assms(1) wait_timers_ok_same [of w' w] by (simp add: query_waiting_def)
next
  case (due n i t now found accepted)
  let ?w = "(wt_clearTimer n w)\<lparr>wt_waitingExecutions := obj_del i (wt_waitingExecutions w)\<rparr>"
  have "armed w i n" using due(2) by (auto simp: armed_def)
  then have "wait_timers_ok ?w" "timers_held w \<Longrightarrow> timers_held ?w" using timers_drop assms(1) by blast+
  then show ?thesis using wait_timers_ok_same [of w' ?w] by (simp add: due startExecution_timers wt_clearTimer_def)
next
  case (stop_waiting i)
  have "armed w i n" if "obj_get (wt_waitingExecutions w) i = Some n" for n
    using assms(1) that by (simp add: wait_timers_ok_def held_def)
  then show ?thesis using assms(1) timers_drop [OF assms(1)] stop_waiting by (simp add: wt_stopExecution_def split: option.split)
next
  case (child_ends child parent resumes found accepted)
  let ?w = "w\<lparr>wt_children := remove1 (child, parent) (wt_children w)\<rparr>"
  show ?thesis
  proof (cases resumes)
    case True
    have new: "wt_timers w' = wt_timers w" "wt_nextTimer w' = wt_nextTimer w"
      "wt_waitingExecutions w' = obj_del parent (wt_waitingExecutions w)"
      by (simp_all add: child_ends(2) True startExecution_timers)
    then have "wait_timers_ok w'" using assms(1) by (auto simp: wait_timers_ok_def held_def armed_def obj_get_del)
    then show ?thesis using child_ends(1) True by (simp add: no_child_resumes_def)
  next
    case False
    then show ?thesis using assms(1) wait_timers_ok_same [of w' w] by (simp add: child_ends(2))
  qed
qed

lemma timers_history:
  "history wait_step w0 es w \<Longrightarrow> wait_timers_ok w0 \<Longrightarrow> list_all keeps_leading es \<Longrightarrow>
   wait_timers_ok w \<and> (timers_held w0 \<and> list_all no_child_resumes es \<longrightarrow> timers_held w)"
  by (induction rule: history.induct) (auto dest: timers_step)

text \<open>
  When a child resumes its parent, the entry of the parent is deleted and its timer stays: the parent is resumed once
  more when the timer fires.
\<close>

lemma child_resume_keeps_timer:
  assumes "wait_timers_ok w" "held w i n"
  shows "\<not> wt_has i (snd (startExecution i found accepted w))" "armed (snd (startExecution i found accepted w)) i n"
  using assms by (simp_all add: wait_timers_ok_def armed_def wt_has_def startExecution_timers obj_get_del)

lemma answered_has: "i \<in> fst ` set es \<or> wt_has i w \<Longrightarrow> wt_has i (getWaitingExecutions now es w)"
  unfolding getWaitingExecutions_def
  by (induction es arbitrary: w) (auto simp: wait_for_armed(3))

text \<open>
  C37: In every history without \<open>StepDown\<close>, so of a process that has not yet stopped to lead, a timer is set for every
  execution that the tracker keeps, and after an answer of the database for every execution that the answer reports,
  also when children resume their parents in between. (Other timers may be set too: lemma \<open>child_resume_keeps_timer\<close>.)
\<close>

theorem waiting_not_forgotten:
  assumes "history wait_step new_tracker es w" "list_all keeps_leading es"
  shows "(wt_has i w \<longrightarrow> (\<exists>n t. (n, StartTimer i t) \<in> set (wt_timers w)))
    \<and> (\<forall>now executions w'. wait_step w (Answered now executions) w' \<and> i \<in> fst ` set executions \<longrightarrow>
         (\<exists>n t. (n, StartTimer i t) \<in> set (wt_timers w')))"
proof (intro conjI allI impI)
  have "wait_timers_ok new_tracker" by (simp add: wait_timers_ok_def new_tracker_def held_def armed_def)
  then have ok: "wait_timers_ok w" using timers_history assms by blast
  then show "\<exists>n t. (n, StartTimer i t) \<in> set (wt_timers w)" if "wt_has i w" using timers_armed armed_def that by metis
  fix now executions w'
  assume a: "wait_step w (Answered now executions) w' \<and> i \<in> fst ` set executions"
  then have "wait_timers_ok w'" using timers_step [OF ok] by (auto simp: keeps_leading_def)
  moreover have "wt_has i w'" using a by (auto elim!: wait_step_cases intro!: answered_has)
  ultimately show "\<exists>n t. (n, StartTimer i t) \<in> set (wt_timers w')" using timers_armed armed_def by metis
qed

subsection \<open>After stepping down\<close>

text \<open>An entry without a timer: nothing sets one, and only stopping the execution removes it.\<close>

definition forgotten :: "string \<Rightarrow> wait_tracker \<Rightarrow> bool" where
  "forgotten i w \<longleftrightarrow> wt_has i w \<and> (\<forall>n t. (n, StartTimer i t) \<notin> set (wt_timers w))"

lemma clear_timers_subset: "set (wt_timers (fold (\<lambda>(_, t). wt_clearTimer t) xs w)) \<subseteq> set (wt_timers w)"
  by (induction xs arbitrary: w) (fastforce simp: wt_clearTimer_def)+

lemma clear_timers_waiting: "wt_waitingExecutions (fold (\<lambda>(_, t). wt_clearTimer t) xs w) = wt_waitingExecutions w"
  by (induction xs arbitrary: w) (auto simp: wt_clearTimer_def)

lemma forgotten_wait_for: "forgotten i w \<Longrightarrow> forgotten i (wait_for_execution now e w)"
  by (cases e) (auto simp: forgotten_def wait_for_execution_def wt_setTimer_def wt_has_def obj_get_set)

lemma forgotten_answered: "forgotten i w \<Longrightarrow> forgotten i (getWaitingExecutions now es w)"
  unfolding getWaitingExecutions_def by (induction es arbitrary: w) (auto simp: forgotten_wait_for)

lemma forgotten_step:
  assumes "forgotten i w" "wait_step w e w'" "e \<noteq> StopWaiting i" "\<nexists>child found accepted. e = ChildEnds child i True found accepted"
  shows "forgotten i w' \<and> count_list (wt_started w') i = count_list (wt_started w) i"
  using assms(2)
proof (cases rule: wait_step_cases)
  case step_down
  show ?thesis using assms(1) step_down clear_timers_subset [of "wt_waitingExecutions w"]
    by (auto simp: stopTracking_def forgotten_def wt_has_def clear_timers_waiting clear_timers_started split: option.split)
      (fastforce simp: wt_clearTimer_def)+
next
  case (answered now executions)
  then show ?thesis using assms(1) answered_armed [of i now executions "w\<lparr>wt_queries := wt_queries w - 1\<rparr>"]
    by (auto intro!: forgotten_answered) (simp add: forgotten_def wt_has_def)
next
  case (due n j t now found accepted)
  then have "j \<noteq> i" using assms(1) by (auto simp: forgotten_def)
  then show ?thesis using assms(1) due
    by (auto simp: forgotten_def startExecution_def Let_def wt_clearTimer_def wt_has_def obj_get_del split: option.split)
next
  case (stop_waiting j)
  then show ?thesis using assms(1,3)
    by (auto simp: forgotten_def wt_stopExecution_def wt_clearTimer_def wt_has_def obj_get_del split: option.split)
next
  case (child_ends child parent resumes found accepted)
  then show ?thesis using assms(1,4)
    by (auto simp: forgotten_def startExecution_def Let_def wt_has_def obj_get_del split: option.split)
qed (use assms(1) in \<open>auto simp: forgotten_def startTracking_def query_waiting_def wt_setTimer_def wt_has_def\<close>)

lemma step_down_forgets:
  assumes "timers_held w" "wt_mainTimer w \<noteq> None" "wt_has i w"
  shows "forgotten i (stopTracking w)"
proof -
  obtain m where m: "wt_mainTimer w = Some m" using assms(2) by blast
  have gone: "(n, k) \<notin> set (wt_timers (fold (\<lambda>(_, t). wt_clearTimer t) xs v))" if "n \<in> snd ` set xs" for n k v and xs :: "nat obj"
    using that
  proof (induction xs arbitrary: v)
    case (Cons p xs)
    have "(n, k) \<notin> set (wt_timers (wt_clearTimer n v))" by (simp add: wt_clearTimer_def)
    then have "(n, k) \<notin> set (wt_timers (fold (\<lambda>(_, t). wt_clearTimer t) xs (wt_clearTimer n v)))"
      using clear_timers_subset by blast
    then show ?case using Cons by (cases p) auto
  qed simp
  have stop: "stopTracking w = fold (\<lambda>(_, t). wt_clearTimer t) (wt_waitingExecutions w) (wt_clearTimer m w)"
    by (simp add: stopTracking_def m)
  have "(n, StartTimer i t) \<notin> set (wt_timers (stopTracking w))" for n t
  proof
    assume a: "(n, StartTimer i t) \<in> set (wt_timers (stopTracking w))"
    then have "(n, StartTimer i t) \<in> set (wt_timers (wt_clearTimer m w))" unfolding stop using clear_timers_subset by blast
    then have "armed w i n" by (auto simp: armed_def wt_clearTimer_def)
    then have "held w i n" using assms(1) by (simp add: timers_held_def)
    then have "(i, n) \<in> set (wt_waitingExecutions w)" unfolding held_def by (rule map_of_SomeD)
    then have "n \<in> snd ` set (wt_waitingExecutions w)" by force
    then show False using a gone unfolding stop by blast
  qed
  moreover have "wt_has i (stopTracking w)" using assms(3)
    by (simp add: stop wt_has_def clear_timers_waiting) (simp add: wt_clearTimer_def)
  ultimately show ?thesis by (simp add: forgotten_def)
qed

text \<open>
  After the process has stopped to lead, an execution that it kept is not resumed by any poll or timer, also when it leads
  again: the timer is gone and the entry is not.
\<close>

definition leaves_alone :: "string \<Rightarrow> wait_event \<Rightarrow> bool" where
  "leaves_alone i e \<longleftrightarrow> (case e of StopWaiting j \<Rightarrow> j \<noteq> i
     | ChildEnds child parent resumes found accepted \<Rightarrow> \<not> (resumes \<and> parent = i) | _ \<Rightarrow> True)"

lemma forgotten_history:
  "history wait_step w0 es w \<Longrightarrow> forgotten i w0 \<Longrightarrow> list_all (leaves_alone i) es \<Longrightarrow>
   forgotten i w \<and> count_list (wt_started w) i = count_list (wt_started w0) i"
proof (induction rule: history.induct)
  case (history_more w0 es w e w')
  then have "forgotten i w" "leaves_alone i e" by simp_all
  then have "forgotten i w' \<and> count_list (wt_started w') i = count_list (wt_started w) i"
    using history_more.hyps(2) by (intro forgotten_step) (auto simp: leaves_alone_def)
  then show ?case using history_more by simp
qed simp

lemma main_timer_kept:
  assumes "wait_step w e w'" "wt_mainTimer w \<noteq> None"
  shows "wt_mainTimer w' \<noteq> None"
proof -
  have clears: "wt_mainTimer (fold (\<lambda>(_, t). wt_clearTimer t) xs v) = wt_mainTimer v" for xs :: "nat obj" and v
    by (induction xs arbitrary: v) (auto simp: wt_clearTimer_def)
  have waits: "wt_mainTimer (getWaitingExecutions now es v) = wt_mainTimer v" for now es v
    unfolding getWaitingExecutions_def
    by (induction es arbitrary: v) (auto simp: wait_for_execution_def wt_setTimer_def split: prod.splits)
  have starts: "wt_mainTimer (snd (startExecution i found accepted v)) = wt_mainTimer v" for i found accepted v
    by (simp add: startExecution_def Let_def split: option.split)
  show ?thesis using assms
    by (cases rule: wait_step_cases)
      (auto simp: startTracking_def query_waiting_def stopTracking_def wt_stopExecution_def waits starts clears Let_def
        wt_clearTimer_def split: option.split)
qed

lemma stepped_down_never_resumes:
  assumes "history wait_step w0 es w" "wait_timers_ok w0" "timers_held w0" "list_all keeps_leading es" "list_all no_child_resumes es"
    and "wt_mainTimer w \<noteq> None" "wt_has i w"
    and "history wait_step (stopTracking w) fs w'" "list_all (leaves_alone i) fs"
  shows "count_list (wt_started w') i = count_list (wt_started w) i"
proof -
  have "timers_held w" using timers_history assms(1-5) by blast
  then have "forgotten i (stopTracking w)" using step_down_forgets assms(6,7) by blast
  moreover have "wt_started (stopTracking w) = wt_started w"
    by (simp add: stopTracking_def clear_timers_started split: option.split) (simp add: wt_clearTimer_def)
  ultimately show ?thesis using forgotten_history [OF assms(8)] assms(9) by simp
qed

subsection \<open>A history\<close>

text \<open>The process takes over, hears of one execution and resumes it when it is due.\<close>

abbreviation exec1 :: string where "exec1 \<equiv> ''exec-1''"

definition saved_execution :: full_execution where
  "saved_execution = \<lparr>fe_finished = False, fe_saved = True, fe_parent = None\<rparr>"

definition tracking :: wait_tracker where
  "tracking = startTracking new_tracker"

definition heard :: wait_tracker where
  "heard = getWaitingExecutions 100 [(exec1, 500)] (tracking\<lparr>wt_queries := wt_queries tracking - 1\<rparr>)"

definition resumed_tracker :: wait_tracker where
  "resumed_tracker = snd (startExecution exec1 (Some saved_execution) True (wt_clearTimer 1 heard))"

lemma tracking_history: "history wait_step new_tracker [TakeOver] tracking"
  unfolding tracking_def by (intro history_single take_over)

lemma heard_history: "history wait_step new_tracker [TakeOver, Answered 100 [(exec1, 500)]] heard"
proof -
  have "wait_step tracking (Answered 100 [(exec1, 500)]) heard" unfolding heard_def
    by (rule answered) (simp add: tracking_def startTracking_def query_waiting_def wt_setTimer_def)
  then show ?thesis using history_more [OF tracking_history] by simp
qed

lemmas wait_eval = resumed_tracker_def heard_def tracking_def startTracking_def query_waiting_def wt_setTimer_def new_tracker_def
  getWaitingExecutions_def wait_for_execution_def wt_has_def startExecution_def wt_clearTimer_def saved_execution_def

lemma resumed_history: "history wait_step new_tracker [TakeOver, Answered 100 [(exec1, 500)], Due exec1 500 (Some saved_execution) True] resumed_tracker"
proof -
  have "wait_step heard (Due exec1 500 (Some saved_execution) True) resumed_tracker" unfolding resumed_tracker_def
    by (rule due [where t = 500]) (simp_all add: wait_eval)
  then show ?thesis using history_more [OF heard_history] by simp
qed

lemma resumed_at_most_witness:
  "count_list (wt_started resumed_tracker) exec1
     \<le> length (filter (grants exec1) [TakeOver, Answered 100 [(exec1, 500)], Due exec1 500 (Some saved_execution) True])
   \<and> wt_started resumed_tracker = [exec1]"
proof
  show "wt_started resumed_tracker = [exec1]" by (simp add: wait_eval Let_def)
qed (rule resumed_at_most [OF resumed_history])

lemma waiting_not_forgotten_witness: "wt_has exec1 heard \<and> (\<exists>n t. (n, StartTimer exec1 t) \<in> set (wt_timers heard))"
proof -
  have "wt_has exec1 heard" by (simp add: wait_eval)
  moreover have "list_all keeps_leading [TakeOver, Answered 100 [(exec1, 500)]]" by (simp add: keeps_leading_def)
  ultimately show ?thesis using waiting_not_forgotten [OF heard_history, of exec1] by simp
qed

end
