(* ===== verification/CircuitBreaker.thy ===== *)
theory CircuitBreaker
  imports Machines
begin

section \<open>A circuit breaker\<close>

text \<open>
  \<open>packages/cli/src/utils/sliding-window.ts\<close> and \<open>circuit-breaker.ts\<close>: calls of a service that fails too often are
  rejected for a while. Times are milliseconds. A call that is let through is suspended until the service answers;
  it remembers in which state it was let through, since that decides how its result is counted.
\<close>

subsection \<open>SlidingWindow\<close>

record sliding_window =
  sw_maxEvents :: nat
  sw_durationMs :: int
  sw_eventTimestamps :: "int list"

text \<open>\<open>slice(-n)\<close>: the last \<open>n\<close> elements, but all of them when \<open>n\<close> is zero.\<close>

definition slice_last :: "nat \<Rightarrow> 'a list \<Rightarrow> 'a list" where
  "slice_last n xs = (if n = 0 then xs else drop (length xs - n) xs)"

definition addEvent :: "int \<Rightarrow> sliding_window \<Rightarrow> sliding_window" where
  "addEvent timestamp w =
     (let timestamps = sw_eventTimestamps w @ [timestamp]
      in w\<lparr>sw_eventTimestamps :=
             (if length timestamps > sw_maxEvents w * 2 then slice_last (sw_maxEvents w * 2) timestamps else timestamps)\<rparr>)"

definition getCount :: "int \<Rightarrow> sliding_window \<Rightarrow> nat \<times> sliding_window" where
  "getCount now w =
     (let timestamps = filter (\<lambda>t. t \<ge> now - sw_durationMs w) (sw_eventTimestamps w)
      in (length timestamps, w\<lparr>sw_eventTimestamps := timestamps\<rparr>))"

definition window_clear :: "sliding_window \<Rightarrow> sliding_window" where
  "window_clear w = w\<lparr>sw_eventTimestamps := []\<rparr>"

subsection \<open>CircuitBreaker\<close>

datatype breaker_state = BreakerClosed | BreakerOpen | BreakerHalfOpen

record breaker_options =
  bo_timeout :: int
  bo_maxFailures :: nat
  bo_halfOpenRequests :: nat
  bo_failureWindow :: int
  bo_maxConcurrentHalfOpenRequests :: "nat option"

record breaker =
  br_state :: breaker_state
  br_halfOpenCount :: nat
  br_lastFailureTime :: int
  br_pendingHalfOpenRequests :: int
  br_inflightRequests :: int
  br_slidingWindow :: sliding_window

definition max_concurrent :: "breaker_options \<Rightarrow> nat" where
  "max_concurrent opts = (case bo_maxConcurrentHalfOpenRequests opts of Some n \<Rightarrow> n | None \<Rightarrow> 1)"

definition new_breaker :: "breaker_options \<Rightarrow> breaker" where
  "new_breaker opts = \<lparr>br_state = BreakerClosed, br_halfOpenCount = 0, br_lastFailureTime = 0, br_pendingHalfOpenRequests = 0,
     br_inflightRequests = 0,
     br_slidingWindow = \<lparr>sw_maxEvents = bo_maxFailures opts, sw_durationMs = bo_failureWindow opts, sw_eventTimestamps = []\<rparr>\<rparr>"

definition recordFailure :: "int \<Rightarrow> breaker \<Rightarrow> breaker" where
  "recordFailure now b = b\<lparr>br_lastFailureTime := now, br_slidingWindow := addEvent now (br_slidingWindow b)\<rparr>"

definition changeToState :: "breaker_state \<Rightarrow> breaker \<Rightarrow> breaker" where
  "changeToState newState b = b\<lparr>br_state := newState\<rparr>"

definition getFailureCount :: "int \<Rightarrow> breaker \<Rightarrow> nat \<times> breaker" where
  "getFailureCount now b = (case getCount now (br_slidingWindow b) of (n, w) \<Rightarrow> (n, b\<lparr>br_slidingWindow := w\<rparr>))"

definition clearFailures :: "breaker \<Rightarrow> breaker" where
  "clearFailures b = b\<lparr>br_slidingWindow := window_clear (br_slidingWindow b)\<rparr>"

text \<open>A call that was let through; \<open>None\<close> as the result of an operation means that it is rejected.\<close>

datatype breaker_call = ClosedCall | HalfOpenCall

definition call_begins :: "breaker \<Rightarrow> breaker" where
  "call_begins b = b\<lparr>br_inflightRequests := br_inflightRequests b + 1\<rparr>"

definition call_ends :: "breaker \<Rightarrow> breaker" where
  "call_ends b = b\<lparr>br_inflightRequests := br_inflightRequests b - 1\<rparr>"

definition handleHalfOpenState :: "breaker_options \<Rightarrow> breaker \<Rightarrow> breaker_call option \<times> breaker" where
  "handleHalfOpenState opts b =
     (if br_pendingHalfOpenRequests b \<ge> int (max_concurrent opts) then (None, b)
      else (Some HalfOpenCall, call_begins (b\<lparr>br_pendingHalfOpenRequests := br_pendingHalfOpenRequests b + 1\<rparr>)))"

definition handleOpenState :: "breaker_options \<Rightarrow> int \<Rightarrow> breaker \<Rightarrow> breaker_call option \<times> breaker" where
  "handleOpenState opts now b =
     (if now - br_lastFailureTime b \<ge> bo_timeout opts
      then handleHalfOpenState opts (changeToState BreakerHalfOpen (b\<lparr>br_halfOpenCount := 0\<rparr>))
      else (None, b))"

definition execute_call :: "breaker_options \<Rightarrow> int \<Rightarrow> breaker \<Rightarrow> breaker_call option \<times> breaker" where
  "execute_call opts now b =
     (case br_state b of
        BreakerOpen \<Rightarrow> handleOpenState opts now b
      | BreakerHalfOpen \<Rightarrow> handleHalfOpenState opts b
      | BreakerClosed \<Rightarrow> (Some ClosedCall, call_begins b))"

text \<open>The service has answered a call.\<close>

definition halfOpen_answered :: "breaker_options \<Rightarrow> int \<Rightarrow> bool \<Rightarrow> breaker \<Rightarrow> breaker" where
  "halfOpen_answered opts now ok b =
     (let b1 = (if ok then let n = br_halfOpenCount b + 1; b' = b\<lparr>br_halfOpenCount := n\<rparr>
                           in if n \<ge> bo_halfOpenRequests opts then clearFailures (changeToState BreakerClosed b') else b'
                else changeToState BreakerOpen (recordFailure now b))
      in b1\<lparr>br_pendingHalfOpenRequests := br_pendingHalfOpenRequests b1 - 1\<rparr>)"

definition closed_answered :: "breaker_options \<Rightarrow> int \<Rightarrow> bool \<Rightarrow> breaker \<Rightarrow> breaker" where
  "closed_answered opts now ok b =
     (if ok then b
      else case getFailureCount now (recordFailure now b) of
             (n, b') \<Rightarrow> if n \<ge> bo_maxFailures opts then changeToState BreakerOpen b' else b')"

definition call_answered :: "breaker_options \<Rightarrow> int \<Rightarrow> breaker_call \<Rightarrow> bool \<Rightarrow> breaker \<Rightarrow> breaker" where
  "call_answered opts now call ok b =
     (case call of
        HalfOpenCall \<Rightarrow> halfOpen_answered opts now ok (call_ends b)
      | ClosedCall \<Rightarrow> closed_answered opts now ok (call_ends b))"

subsection \<open>What may happen\<close>

text \<open>
  The breaker with the calls it has let through. The time does not go back. Beside them is kept what the breaker is meant
  to count: the times of all failures since the counting began anew.
\<close>

record guarded =
  gd_breaker :: breaker
  gd_calls :: "breaker_call list"
  gd_now :: int
  gd_failures :: "int list"

datatype guard_event = Request int | Answer breaker_call bool int

definition begins :: "breaker_options \<Rightarrow> int \<Rightarrow> guarded \<Rightarrow> guarded" where
  "begins opts now g =
     (case execute_call opts now (gd_breaker g) of
        (c, b) \<Rightarrow> g\<lparr>gd_breaker := b, gd_calls := gd_calls g @ (case c of None \<Rightarrow> [] | Some c \<Rightarrow> [c]), gd_now := now\<rparr>)"

definition closes :: "breaker_options \<Rightarrow> breaker_call \<Rightarrow> bool \<Rightarrow> breaker \<Rightarrow> bool" where
  "closes opts c ok b \<longleftrightarrow> c = HalfOpenCall \<and> ok \<and> br_halfOpenCount b + 1 \<ge> bo_halfOpenRequests opts"

definition answers :: "breaker_options \<Rightarrow> breaker_call \<Rightarrow> bool \<Rightarrow> int \<Rightarrow> guarded \<Rightarrow> guarded" where
  "answers opts c ok now g =
     g\<lparr>gd_breaker := call_answered opts now c ok (gd_breaker g), gd_calls := remove1 c (gd_calls g), gd_now := now,
       gd_failures := (if \<not> ok then gd_failures g @ [now] else if closes opts c ok (gd_breaker g) then [] else gd_failures g)\<rparr>"

inductive guard_step :: "breaker_options \<Rightarrow> guarded \<Rightarrow> guard_event \<Rightarrow> guarded \<Rightarrow> bool" for opts where
  request: "gd_now g \<le> now \<Longrightarrow> guard_step opts g (Request now) (begins opts now g)"
| answer: "gd_now g \<le> now \<Longrightarrow> c \<in> set (gd_calls g) \<Longrightarrow> guard_step opts g (Answer c ok now) (answers opts c ok now g)"

inductive_cases guard_stepE: "guard_step opts g e g'"

definition new_guarded :: "breaker_options \<Rightarrow> guarded" where
  "new_guarded opts = \<lparr>gd_breaker = new_breaker opts, gd_calls = [], gd_now = 0, gd_failures = []\<rparr>"

end
