(* ===== verification/CircuitBreakerFacts.thy ===== *)
theory CircuitBreakerFacts
  imports CircuitBreaker
begin

section \<open>What a circuit breaker counts\<close>

text \<open>
  The window forgets events for two reasons, because they are old and because there are many. Neither matters to the
  question it is asked, whether the limit is reached. The breaker therefore opens when, and only when, a call let through
  while it was closed fails and as many failures as allowed lie in the window, or a trial call fails.
\<close>

subsection \<open>The window\<close>

definition count_from :: "int \<Rightarrow> int list \<Rightarrow> nat" where
  "count_from start ts = length (filter (\<lambda>t. t \<ge> start) ts)"

text \<open>The stored times count as all of them do, up to twice the limit, for every window from \<open>start\<close> on.\<close>

definition window_ok :: "int \<Rightarrow> int list \<Rightarrow> sliding_window \<Rightarrow> bool" where
  "window_ok start ts w \<longleftrightarrow>
     sorted (sw_eventTimestamps w) \<and> set (sw_eventTimestamps w) \<subseteq> set ts
   \<and> (\<forall>s \<ge> start. min (count_from s (sw_eventTimestamps w)) (2 * sw_maxEvents w) = min (count_from s ts) (2 * sw_maxEvents w))"

lemma count_from_append [simp]: "count_from s (xs @ ys) = count_from s xs + count_from s ys"
  by (simp add: count_from_def)

lemma count_from_le: "count_from s xs \<le> length xs"
  by (simp add: count_from_def)

text \<open>In a sorted list the last elements are the largest.\<close>

lemma count_from_last:
  assumes "sorted ts" "n \<le> length ts"
  shows "min (count_from s (drop (length ts - n) ts)) n = min (count_from s ts) n"
proof -
  let ?xs = "take (length ts - n) ts" and ?ys = "drop (length ts - n) ts"
  have split: "count_from s ts = count_from s ?xs + count_from s ?ys"
    by (metis append_take_drop_id count_from_append)
  show ?thesis
  proof (cases "count_from s ?xs = 0")
    case False
    then obtain x where x: "x \<in> set ?xs" "x \<ge> s" by (auto simp: count_from_def filter_empty_conv)
    have "sorted (?xs @ ?ys)" using assms(1) by simp
    then have "\<forall>y \<in> set ?ys. s \<le> y" using x unfolding sorted_append by (meson order_trans)
    then have "count_from s ?ys = length ?ys" by (simp add: count_from_def)
    then show ?thesis using split assms(2) by simp
  qed (simp add: split)
qed

lemma window_add:
  assumes "window_ok start ts w" "\<forall>t' \<in> set ts. t' \<le> t"
  shows "window_ok start (ts @ [t]) (addEvent t w)"
proof -
  let ?ts = "sw_eventTimestamps w @ [t]" and ?m = "2 * sw_maxEvents w"
  have old: "sorted (sw_eventTimestamps w)" "set (sw_eventTimestamps w) \<subseteq> set ts"
    "\<And>s. s \<ge> start \<Longrightarrow> min (count_from s (sw_eventTimestamps w)) ?m = min (count_from s ts) ?m"
    using assms(1) by (simp_all add: window_ok_def)
  have sorted: "sorted ?ts" using old(1,2) assms(2) by (auto simp: sorted_append)
  have count: "min (count_from s ?ts) ?m = min (count_from s (ts @ [t])) ?m" if "s \<ge> start" for s
    using old(3) [OF that] by (simp add: min_def split: if_splits)
  have max: "sw_maxEvents (addEvent t w) = sw_maxEvents w" by (simp add: addEvent_def Let_def)
  show ?thesis
  proof (cases "length ?ts > ?m \<and> ?m \<noteq> 0")
    case True
    then have new: "sw_eventTimestamps (addEvent t w) = drop (length ?ts - ?m) ?ts"
      by (simp add: addEvent_def slice_last_def mult.commute)
    have "set (drop (length ?ts - ?m) ?ts) \<subseteq> set ?ts" by (rule set_drop_subset)
    then have "set (drop (length ?ts - ?m) ?ts) \<subseteq> set (ts @ [t])" using old(2) by auto
    moreover have "sorted (drop (length ?ts - ?m) ?ts)" using sorted by (rule sorted_wrt_drop)
    moreover have "min (count_from s (drop (length ?ts - ?m) ?ts)) ?m = min (count_from s (ts @ [t])) ?m" if "s \<ge> start" for s
      using count_from_last [OF sorted, of ?m s] True count [OF that] by simp
    ultimately show ?thesis unfolding window_ok_def new max by blast
  next
    case False
    then have "sw_eventTimestamps (addEvent t w) = ?ts"
      by (auto simp: addEvent_def slice_last_def mult.commute)
    then show ?thesis using sorted count old(2) unfolding window_ok_def max by auto
  qed
qed

lemma window_count:
  assumes "window_ok start ts w" "start \<le> now - sw_durationMs w" "getCount now w = (n, w')"
  shows "window_ok (now - sw_durationMs w) ts w'"
    "min n (2 * sw_maxEvents w) = min (count_from (now - sw_durationMs w) ts) (2 * sw_maxEvents w)"
proof -
  let ?s = "now - sw_durationMs w"
  have n: "n = count_from ?s (sw_eventTimestamps w)" and w': "w' = w\<lparr>sw_eventTimestamps := filter (\<lambda>t. t \<ge> ?s) (sw_eventTimestamps w)\<rparr>"
    using assms(3) by (auto simp: getCount_def count_from_def Let_def)
  have same: "count_from s (filter (\<lambda>t. t \<ge> ?s) ts') = count_from s ts'" if "s \<ge> ?s" for s ts'
    using that by (auto simp: count_from_def intro!: arg_cong [of _ _ length] filter_cong)
  show "window_ok ?s ts w'" using assms(1,2) by (auto simp: window_ok_def w' same intro: sorted_wrt_filter)
  show "min n (2 * sw_maxEvents w) = min (count_from ?s ts) (2 * sw_maxEvents w)"
    using assms(1,2) by (simp add: window_ok_def n)
qed

text \<open>So the limit is reached by the stored times exactly when it is reached by all.\<close>

lemma reaches_limit:
  "min n (2 * m) = min k (2 * m) \<Longrightarrow> m \<le> n \<longleftrightarrow> m \<le> k" for n m k :: nat
  by (auto simp: min_def split: if_splits)

subsection \<open>The accounts of the breaker\<close>

definition trials :: "breaker_call list \<Rightarrow> nat" where
  "trials cs = count_list cs HalfOpenCall"

definition guard_ok :: "breaker_options \<Rightarrow> guarded \<Rightarrow> bool" where
  "guard_ok opts g \<longleftrightarrow>
     br_pendingHalfOpenRequests (gd_breaker g) = int (trials (gd_calls g))
   \<and> br_inflightRequests (gd_breaker g) = int (length (gd_calls g))
   \<and> trials (gd_calls g) \<le> max_concurrent opts
   \<and> sw_maxEvents (br_slidingWindow (gd_breaker g)) = bo_maxFailures opts
   \<and> sw_durationMs (br_slidingWindow (gd_breaker g)) = bo_failureWindow opts
   \<and> (\<forall>t \<in> set (gd_failures g). t \<le> gd_now g)
   \<and> window_ok (gd_now g - bo_failureWindow opts) (gd_failures g) (br_slidingWindow (gd_breaker g))"

text \<open>What the breaker is meant to do, in terms of all failures and of the calls that run.\<close>

definition lets_through :: "breaker_options \<Rightarrow> int \<Rightarrow> guarded \<Rightarrow> bool" where
  "lets_through opts now g \<longleftrightarrow> br_state (gd_breaker g) = BreakerClosed
     \<or> (br_state (gd_breaker g) = BreakerHalfOpen \<or> now - br_lastFailureTime (gd_breaker g) \<ge> bo_timeout opts)
        \<and> trials (gd_calls g) < max_concurrent opts"

definition state_after :: "breaker_options \<Rightarrow> breaker_call \<Rightarrow> bool \<Rightarrow> int \<Rightarrow> guarded \<Rightarrow> breaker_state" where
  "state_after opts c ok now g =
     (if ok then (if closes opts c ok (gd_breaker g) then BreakerClosed else br_state (gd_breaker g))
      else if c = HalfOpenCall \<or> count_from (now - bo_failureWindow opts) (gd_failures g @ [now]) \<ge> bo_maxFailures opts
      then BreakerOpen else br_state (gd_breaker g))"

lemma window_later: "window_ok s ts w \<Longrightarrow> s \<le> s' \<Longrightarrow> window_ok s' ts w"
  by (simp add: window_ok_def)

lemma window_empty: "window_ok s [] (window_clear w)"
  by (simp add: window_ok_def window_clear_def count_from_def)

lemma addEvent_limits [simp]: "sw_maxEvents (addEvent t w) = sw_maxEvents w" "sw_durationMs (addEvent t w) = sw_durationMs w"
  by (simp_all add: addEvent_def Let_def)

lemma trials_simps [simp]: "trials [] = 0" "trials (xs @ ys) = trials xs + trials ys" "trials [c] = (if c = HalfOpenCall then 1 else 0)"
  by (simp_all add: trials_def)

lemma trials_remove: "c \<in> set cs \<Longrightarrow> int (trials (remove1 c cs)) = int (trials cs) - (if c = HalfOpenCall then 1 else 0)"
  by (induction cs) (auto simp: trials_def)

definition begins_well :: "breaker_options \<Rightarrow> breaker \<Rightarrow> breaker_call option \<times> breaker \<Rightarrow> bool" where
  "begins_well opts b rb \<longleftrightarrow>
     br_slidingWindow (snd rb) = br_slidingWindow b
   \<and> br_pendingHalfOpenRequests (snd rb) = br_pendingHalfOpenRequests b + (if fst rb = Some HalfOpenCall then 1 else 0)
   \<and> br_inflightRequests (snd rb) = br_inflightRequests b + (if fst rb = None then 0 else 1)
   \<and> (fst rb = Some HalfOpenCall \<longrightarrow> br_pendingHalfOpenRequests b < int (max_concurrent opts))"

lemma halfOpen_begins_well: "begins_well opts b (handleHalfOpenState opts b)"
  by (simp add: begins_well_def handleHalfOpenState_def call_begins_def)

lemma execute_begins_well: "begins_well opts b (execute_call opts now b)"
proof (cases "br_state b")
  case BreakerOpen
  have "begins_well opts b (handleHalfOpenState opts (changeToState BreakerHalfOpen (b\<lparr>br_halfOpenCount := 0\<rparr>)))"
    using halfOpen_begins_well [of opts "changeToState BreakerHalfOpen (b\<lparr>br_halfOpenCount := 0\<rparr>)"]
    by (simp add: begins_well_def changeToState_def)
  then show ?thesis using BreakerOpen by (simp add: execute_call_def handleOpenState_def) (simp add: begins_well_def)
qed (simp_all add: execute_call_def halfOpen_begins_well, simp add: begins_well_def call_begins_def)

lemma guard_request:
  assumes "guard_ok opts g" "gd_now g \<le> now"
  shows "guard_ok opts (begins opts now g)"
proof -
  obtain r b' where e: "execute_call opts now (gd_breaker g) = (r, b')" by (cases "execute_call opts now (gd_breaker g)")
  from assms have w: "window_ok (now - bo_failureWindow opts) (gd_failures g) (br_slidingWindow (gd_breaker g))"
    "\<forall>t \<in> set (gd_failures g). t \<le> now"
    by (auto simp: guard_ok_def intro: window_later)
  have "begins_well opts (gd_breaker g) (r, b')" using execute_begins_well [of opts "gd_breaker g" now] by (simp add: e)
  then show ?thesis using assms(1) w unfolding guard_ok_def begins_def e begins_well_def
    by (cases r; cases "r = Some HalfOpenCall") auto
qed

lemma closed_failure:
  assumes "guard_ok opts g" "gd_now g \<le> now" and b: "br_slidingWindow b = br_slidingWindow (gd_breaker g)"
  obtains w n where "getFailureCount now (recordFailure now b) = (n, b\<lparr>br_lastFailureTime := now, br_slidingWindow := w\<rparr>)"
    "n \<ge> bo_maxFailures opts \<longleftrightarrow> count_from (now - bo_failureWindow opts) (gd_failures g @ [now]) \<ge> bo_maxFailures opts"
    "window_ok (now - bo_failureWindow opts) (gd_failures g @ [now]) w" "sw_maxEvents w = bo_maxFailures opts" "sw_durationMs w = bo_failureWindow opts"
proof -
  let ?w = "addEvent now (br_slidingWindow (gd_breaker g))"
  obtain n w where gc: "getCount now ?w = (n, w)" by (cases "getCount now ?w")
  have limits: "sw_maxEvents ?w = bo_maxFailures opts" "sw_durationMs ?w = bo_failureWindow opts"
    using assms(1) by (simp_all add: guard_ok_def)
  have "\<forall>t \<in> set (gd_failures g). t \<le> now" using assms(1,2) by (auto simp: guard_ok_def)
  then have ok: "window_ok (gd_now g - bo_failureWindow opts) (gd_failures g @ [now]) ?w"
    using assms(1) by (intro window_add) (simp_all add: guard_ok_def)
  note counted = window_count [OF ok _ gc, unfolded limits]
  show ?thesis
  proof
    show "getFailureCount now (recordFailure now b) = (n, b\<lparr>br_lastFailureTime := now, br_slidingWindow := w\<rparr>)"
      by (simp add: getFailureCount_def recordFailure_def b gc)
    show "n \<ge> bo_maxFailures opts \<longleftrightarrow> count_from (now - bo_failureWindow opts) (gd_failures g @ [now]) \<ge> bo_maxFailures opts"
      using counted(2) assms(2) by (intro reaches_limit) simp
    show "window_ok (now - bo_failureWindow opts) (gd_failures g @ [now]) w" using counted(1) assms(2) by simp
    show "sw_maxEvents w = bo_maxFailures opts" "sw_durationMs w = bo_failureWindow opts"
      using gc limits by (auto simp: getCount_def Let_def)
  qed
qed

lemma guard_answer:
  assumes "guard_ok opts g" "gd_now g \<le> now" "c \<in> set (gd_calls g)"
  shows "guard_ok opts (answers opts c ok now g)"
    "br_state (gd_breaker (answers opts c ok now g)) = state_after opts c ok now g"
proof -
  note ok' = assms(1) [unfolded guard_ok_def]
  have later: "window_ok (now - bo_failureWindow opts) (gd_failures g) (br_slidingWindow (gd_breaker g))"
    "\<forall>t \<in> set (gd_failures g). t \<le> now"
    using ok' assms(2) by (auto intro: window_later)
  have calls: "int (length (remove1 c (gd_calls g))) = int (length (gd_calls g)) - 1"
    using assms(3) length_pos_if_in_set [OF assms(3)] by (simp add: length_remove1 of_nat_diff Suc_le_eq)
  note counts = trials_remove [OF assms(3)] calls
  have "guard_ok opts (answers opts c ok now g) \<and> br_state (gd_breaker (answers opts c ok now g)) = state_after opts c ok now g"
  proof (cases c)
    case ClosedCall
    show ?thesis
    proof (cases ok)
      case True
      then show ?thesis using ok' later counts ClosedCall
        by (simp add: guard_ok_def answers_def call_answered_def closed_answered_def call_ends_def closes_def state_after_def)
    next
      case False
      obtain w n where gc: "getFailureCount now (recordFailure now (call_ends (gd_breaker g)))
            = (n, (call_ends (gd_breaker g))\<lparr>br_lastFailureTime := now, br_slidingWindow := w\<rparr>)"
        and n: "n \<ge> bo_maxFailures opts \<longleftrightarrow> count_from (now - bo_failureWindow opts) (gd_failures g @ [now]) \<ge> bo_maxFailures opts"
        and w: "window_ok (now - bo_failureWindow opts) (gd_failures g @ [now]) w" "sw_maxEvents w = bo_maxFailures opts"
          "sw_durationMs w = bo_failureWindow opts"
        by (rule closed_failure [OF assms(1,2), of "call_ends (gd_breaker g)"]) (simp_all add: call_ends_def)
      let ?b = "(call_ends (gd_breaker g))\<lparr>br_lastFailureTime := now, br_slidingWindow := w\<rparr>"
      have "call_answered opts now c ok (gd_breaker g) =
          (if count_from (now - bo_failureWindow opts) (gd_failures g @ [now]) \<ge> bo_maxFailures opts then changeToState BreakerOpen ?b else ?b)"
        by (simp only: call_answered_def ClosedCall breaker_call.case closed_answered_def False if_False gc prod.case n)
      then show ?thesis using ok' later(2) counts ClosedCall False w
        by (simp add: guard_ok_def answers_def state_after_def changeToState_def call_ends_def del: count_from_append)
    qed
  next
    case HalfOpenCall
    show ?thesis
    proof (cases ok)
      case True
      then show ?thesis using ok' later counts HalfOpenCall
        by (simp add: guard_ok_def answers_def call_answered_def halfOpen_answered_def call_ends_def closes_def state_after_def
            clearFailures_def changeToState_def window_empty Let_def) (simp add: window_clear_def)
    next
      case False
      have "window_ok (now - bo_failureWindow opts) (gd_failures g @ [now]) (addEvent now (br_slidingWindow (gd_breaker g)))"
        using later by (intro window_add)
      then show ?thesis using ok' later(2) counts HalfOpenCall False
        by (simp add: guard_ok_def answers_def call_answered_def halfOpen_answered_def call_ends_def state_after_def
            recordFailure_def changeToState_def Let_def)
    qed
  qed
  then show "guard_ok opts (answers opts c ok now g)" "br_state (gd_breaker (answers opts c ok now g)) = state_after opts c ok now g"
    by simp_all
qed

interpretation breaker: safe_machine "\<lambda>g. g = new_guarded opts" "guard_step opts" "\<lambda>g es. guard_ok opts g" for opts
proof
  show "guard_ok opts g" if "g = new_guarded opts" for g
    using that by (simp add: guard_ok_def new_guarded_def new_breaker_def window_ok_def count_from_def)
  show "guard_ok opts g'" if "guard_ok opts g" "guard_step opts g e g'" for g e g'
    using that(2) by cases (use that(1) in \<open>auto intro: guard_request guard_answer(1)\<close>)
qed

subsection \<open>What it promises\<close>

text \<open>
  In every history a circuit breaker knows how many calls run, and how many of them are trials in the state half-open, of
  which there are never more than the options allow.
\<close>

theorem breaker_accounts:
  assumes "history (guard_step opts) (new_guarded opts) es g"
  shows "br_inflightRequests (gd_breaker g) = int (length (gd_calls g))
    \<and> br_pendingHalfOpenRequests (gd_breaker g) = int (count_list (gd_calls g) HalfOpenCall)
    \<and> count_list (gd_calls g) HalfOpenCall \<le> max_concurrent opts"
  using breaker.inv_history [OF assms refl] by (simp add: guard_ok_def trials_def)

lemma request_through:
  assumes "guard_ok opts g"
  shows "gd_calls (begins opts now g) \<noteq> gd_calls g \<longleftrightarrow> lets_through opts now g"
    "br_state (gd_breaker (begins opts now g)) =
       (if br_state (gd_breaker g) = BreakerOpen \<and> now - br_lastFailureTime (gd_breaker g) \<ge> bo_timeout opts
        then BreakerHalfOpen else br_state (gd_breaker g))"
proof -
  have p: "br_pendingHalfOpenRequests (gd_breaker g) = int (trials (gd_calls g))" using assms by (simp add: guard_ok_def)
  show "gd_calls (begins opts now g) \<noteq> gd_calls g \<longleftrightarrow> lets_through opts now g"
    by (cases "br_state (gd_breaker g)")
      (simp_all add: begins_def execute_call_def handleOpenState_def handleHalfOpenState_def changeToState_def lets_through_def p linorder_not_le)
  show "br_state (gd_breaker (begins opts now g)) =
       (if br_state (gd_breaker g) = BreakerOpen \<and> now - br_lastFailureTime (gd_breaker g) \<ge> bo_timeout opts
        then BreakerHalfOpen else br_state (gd_breaker g))"
    by (cases "br_state (gd_breaker g)")
      (simp_all add: begins_def execute_call_def handleOpenState_def handleHalfOpenState_def changeToState_def call_begins_def)
qed

text \<open>
  C32: A circuit breaker decides as if it kept the times of all failures since it was last closed by a trial, although it
  keeps at most twice as many as the limit and forgets old ones. A request is let through exactly when the breaker is
  closed, or it is half-open or the timeout has passed and there is room for a trial. A failed call opens it exactly when
  it was a trial or the failures within the window reach the limit; a successful one closes it exactly when it completes
  the trials; otherwise the state stays.
\<close>

theorem breaker_decides:
  assumes "history (guard_step opts) (new_guarded opts) es g" "gd_now g \<le> now"
  shows "(gd_calls (begins opts now g) \<noteq> gd_calls g \<longleftrightarrow> lets_through opts now g)
    \<and> br_state (gd_breaker (begins opts now g)) =
       (if br_state (gd_breaker g) = BreakerOpen \<and> now - br_lastFailureTime (gd_breaker g) \<ge> bo_timeout opts
        then BreakerHalfOpen else br_state (gd_breaker g))
    \<and> (\<forall>c \<in> set (gd_calls g). br_state (gd_breaker (answers opts c ok now g)) = state_after opts c ok now g)"
  using breaker.inv_history [OF assms(1) refl] assms(2) by (simp add: request_through guard_answer(2))

subsection \<open>Examples\<close>

definition example_breaker :: breaker_options where
  "example_breaker = \<lparr>bo_timeout = 1000, bo_maxFailures = 2, bo_halfOpenRequests = 1, bo_failureWindow = 5000,
     bo_maxConcurrentHalfOpenRequests = None\<rparr>"

fun guard_run :: "breaker_options \<Rightarrow> guard_event list \<Rightarrow> guarded \<Rightarrow> guarded option" where
  "guard_run opts [] g = Some g"
| "guard_run opts (Request now # es) g = (if gd_now g \<le> now then guard_run opts es (begins opts now g) else None)"
| "guard_run opts (Answer c ok now # es) g =
     (if gd_now g \<le> now \<and> c \<in> set (gd_calls g) then guard_run opts es (answers opts c ok now g) else None)"

lemma guard_run_history:
  "history (guard_step opts) g0 es0 g \<Longrightarrow> guard_run opts es g = Some g' \<Longrightarrow> history (guard_step opts) g0 (es0 @ es) g'"
proof (induction opts es g arbitrary: es0 rule: guard_run.induct)
  case (2 opts now es g)
  from 2 have "guard_step opts g (Request now) (begins opts now g)" by (auto intro: guard_step.intros split: if_splits)
  from 2(1) [OF _ history_more [OF 2(2) this]] show ?case using 2(3) by (auto split: if_splits)
next
  case (3 opts c ok now es g)
  from 3 have "guard_step opts g (Answer c ok now) (answers opts c ok now g)" by (auto intro: guard_step.intros split: if_splits)
  from 3(1) [OF _ history_more [OF 3(2) this]] show ?case using 3(3) by (auto split: if_splits)
qed simp

text \<open>Three calls begin, two of them fail, and after the timeout one is tried.\<close>

definition opening_events :: "guard_event list" where
  "opening_events = [Request 0, Request 0, Request 0, Answer ClosedCall False 10, Answer ClosedCall False 20, Request 30, Request 1020]"

definition after_opening :: guarded where
  "after_opening = the (guard_run example_breaker opening_events (new_guarded example_breaker))"

lemma opening_history: "history (guard_step example_breaker) (new_guarded example_breaker) opening_events after_opening"
proof -
  have "guard_run example_breaker opening_events (new_guarded example_breaker) \<noteq> None" by code_simp
  then show ?thesis using guard_run_history [OF history_start, where es = opening_events] by (auto simp: after_opening_def)
qed

lemma breaker_accounts_witness: "gd_calls after_opening = [ClosedCall, HalfOpenCall] \<and> br_inflightRequests (gd_breaker after_opening) = 2"
proof -
  have "gd_calls after_opening = [ClosedCall, HalfOpenCall]" by code_simp
  then show ?thesis using breaker_accounts [OF opening_history] by simp
qed

lemma breaker_decides_witness: "br_state (gd_breaker (answers example_breaker HalfOpenCall False 2000 after_opening)) = BreakerOpen"
proof -
  have "gd_now after_opening \<le> 2000" "HalfOpenCall \<in> set (gd_calls after_opening)"
    "state_after example_breaker HalfOpenCall False 2000 after_opening = BreakerOpen" by code_simp+
  then show ?thesis using breaker_decides [OF opening_history, of 2000 False] by simp
qed

text \<open>
  A call that was let through while the breaker was closed fails during the trial and opens it; then the trial succeeds and
  closes it at once, without a timeout.
\<close>

lemma open_closes_without_timeout:
  "br_state (gd_breaker (answers example_breaker ClosedCall False 1030 after_opening)) = BreakerOpen"
  "br_state (gd_breaker (answers example_breaker HalfOpenCall True 1040 (answers example_breaker ClosedCall False 1030 after_opening))) = BreakerClosed"
  by code_simp+

end
