(* ===== verification/NodeProperties.thy ===== *)
theory NodeProperties
  imports Interfaces
begin

section \<open>Descriptions of node parameters\<close>

text \<open>
  The properties by which a node type describes its parameters, \<open>INodeProperties\<close> of
  \<open>packages/workflow/src/interfaces.ts\<close>, and \<open>displayParameter\<close> of
  \<open>packages/workflow/src/node-helpers.ts\<close>, which decides from the values of other parameters whether a
  parameter is shown. A value is \<open>json\<close>, \<open>undefined\<close> is \<open>None\<close>. The functions of lodash, regular
  expressions and the conversion of a string to a number are the arguments of \<open>param_env\<close>.
\<close>

subsection \<open>Properties\<close>

datatype prop_type =
    PBoolean | PButton | PCollection | PColor | PDateTime | PFixedCollection | PHidden | PJson | PCallout | PNotice
  | PMultiOptions | PNumber | POptions | PString | PCredentialsSelect | PResourceLocator | PCurlImport
  | PResourceMapper | PFilter | PAssignmentCollection | PCredentials | PWorkflowSelector

datatype condition =
    CndEq json | CndNot json | CndGte json | CndLte json | CndGt json | CndLt json | CndBetween json json
  | CndStartsWith string | CndEndsWith string | CndIncludes string | CndRegex string | CndExists

datatype display_value = IsValue json | Cnd condition

record display_options =
  do_show :: "display_value list obj option"
  do_hide :: "display_value list obj option"

record prop_info =
  pi_name :: string
  pi_displayName :: string
  pi_type :: prop_type
  pi_multipleValues :: "bool option"
  pi_minRequiredFields :: "nat option"
  pi_maxAllowedFields :: "nat option"
  pi_default :: json
  pi_displayOptions :: "display_options option"
  pi_required :: "bool option"
  pi_validateType :: "string option"
  pi_doNotInherit :: "bool option"

text \<open>The options of a property are values to choose from, properties of a collection, or named groups of properties.\<close>

datatype node_property = NodeProperty (np_info: prop_info) (np_options: "prop_option list option")
  and prop_option = OptionValue string json | OptionProperty node_property | OptionCollection string "node_property list"

abbreviation np_name :: "node_property \<Rightarrow> string" where "np_name p \<equiv> pi_name (np_info p)"
abbreviation np_type :: "node_property \<Rightarrow> prop_type" where "np_type p \<equiv> pi_type (np_info p)"
abbreviation np_default :: "node_property \<Rightarrow> json" where "np_default p \<equiv> pi_default (np_info p)"
abbreviation np_display :: "node_property \<Rightarrow> display_options option" where "np_display p \<equiv> pi_displayOptions (np_info p)"

fun put_property :: "node_property \<Rightarrow> node_property list \<Rightarrow> node_property list" where
  "put_property property [] = [property]"
| "put_property property (element # rest) =
     (if np_name element = np_name property then property # rest else element # put_property property rest)"

definition mergeNodeProperties :: "node_property list \<Rightarrow> node_property list \<Rightarrow> node_property list" where
  "mergeNodeProperties mainProperties addProperties =
     fold (\<lambda>property main. if pi_doNotInherit (np_info property) = Some True then main else put_property property main)
       addProperties mainProperties"

subsection \<open>What is outside\<close>

text \<open>
  \<open>pe_get\<close> and \<open>pe_isEqual\<close> are \<open>get\<close> and \<open>isEqual\<close> of lodash, \<open>pe_test re v\<close> is \<open>new RegExp(re).test(v)\<close>, which
  throws when the pattern is not valid, and \<open>pe_Number\<close> gives the number a string stands for.
\<close>

record param_env =
  pe_get :: "json obj \<Rightarrow> string \<Rightarrow> json option"
  pe_isEqual :: "json option \<Rightarrow> json \<Rightarrow> bool"
  pe_test :: "string \<Rightarrow> json option \<Rightarrow> js_error + bool"
  pe_Number :: "string \<Rightarrow> rat option"

text \<open>The node, of which only the version is used, and the description of its type.\<close>

record node_type_description =
  nt_name :: string
  nt_features :: "display_value list obj option"

record node_ctx =
  nc_typeVersion :: "rat option"
  nc_type :: "node_type_description option"

subsection \<open>Comparing values\<close>

definition js_number :: "param_env \<Rightarrow> json option \<Rightarrow> rat option" where
  "js_number env v =
     (case v of
        Some JNull \<Rightarrow> Some 0
      | Some (JBool b) \<Rightarrow> Some (if b then 1 else 0)
      | Some (JNum n) \<Rightarrow> Some n
      | Some (JStr s) \<Rightarrow> pe_Number env s
      | _ \<Rightarrow> None)"

text \<open>A relational operator: two strings are compared as strings, anything else as numbers.\<close>

definition js_relation ::
  "(string \<Rightarrow> string \<Rightarrow> bool) \<Rightarrow> (rat \<Rightarrow> rat \<Rightarrow> bool) \<Rightarrow> param_env \<Rightarrow> json option \<Rightarrow> json \<Rightarrow> bool" where
  "js_relation strings numbers env a b =
     (case (a, b) of
        (Some (JStr x), JStr y) \<Rightarrow> strings x y
      | _ \<Rightarrow> (case (js_number env a, js_number env (Some b)) of (Some x, Some y) \<Rightarrow> numbers x y | _ \<Rightarrow> False))"

definition js_le :: "param_env \<Rightarrow> json option \<Rightarrow> json \<Rightarrow> bool" where "js_le = js_relation (\<le>) (\<le>)"
definition js_less :: "param_env \<Rightarrow> json option \<Rightarrow> json \<Rightarrow> bool" where "js_less = js_relation (<) (<)"
definition js_ge :: "param_env \<Rightarrow> json option \<Rightarrow> json \<Rightarrow> bool" where "js_ge = js_relation (\<ge>) (\<ge>)"
definition js_greater :: "param_env \<Rightarrow> json option \<Rightarrow> json \<Rightarrow> bool" where "js_greater = js_relation (>) (>)"

fun starts_with :: "string \<Rightarrow> string \<Rightarrow> bool" where
  "starts_with [] s = True"
| "starts_with (c # cs) [] = False"
| "starts_with (c # cs) (d # ds) = (c = d \<and> starts_with cs ds)"

definition ends_in :: "string \<Rightarrow> string \<Rightarrow> bool" where
  "ends_in suffix s = starts_with (rev suffix) (rev s)"

fun includes_str :: "string \<Rightarrow> string \<Rightarrow> bool" where
  "includes_str sub [] = (sub = [])"
| "includes_str sub (c # cs) = (starts_with sub (c # cs) \<or> includes_str sub cs)"

text \<open>A method of strings; calling it on another value throws.\<close>

definition on_string :: "(string \<Rightarrow> bool) \<Rightarrow> json option \<Rightarrow> js_error + bool" where
  "on_string f v = (case v of Some (JStr s) \<Rightarrow> Inr (f s) | _ \<Rightarrow> Inl TypeError)"

text \<open>\<open>every\<close> and \<open>some\<close> with a predicate that may throw; they stop at the first element that decides.\<close>

fun everyE :: "('a \<Rightarrow> 'e + bool) \<Rightarrow> 'a list \<Rightarrow> 'e + bool" where
  "everyE P [] = Inr True"
| "everyE P (x # xs) = bindE (P x) (\<lambda>b. if b then everyE P xs else Inr False)"

fun someE :: "('a \<Rightarrow> 'e + bool) \<Rightarrow> 'a list \<Rightarrow> 'e + bool" where
  "someE P [] = Inr False"
| "someE P (x # xs) = bindE (P x) (\<lambda>b. if b then Inr True else someE P xs)"

subsection \<open>Conditions\<close>

fun meets :: "param_env \<Rightarrow> condition \<Rightarrow> json option \<Rightarrow> js_error + bool" where
  "meets env (CndEq t) v = Inr (pe_isEqual env v t)"
| "meets env (CndNot t) v = Inr (\<not> pe_isEqual env v t)"
| "meets env (CndGte t) v = Inr (js_ge env v t)"
| "meets env (CndLte t) v = Inr (js_le env v t)"
| "meets env (CndGt t) v = Inr (js_greater env v t)"
| "meets env (CndLt t) v = Inr (js_less env v t)"
| "meets env (CndBetween from to) v = Inr (js_ge env v from \<and> js_le env v to)"
| "meets env (CndIncludes t) v = on_string (includes_str t) v"
| "meets env (CndStartsWith t) v = on_string (starts_with t) v"
| "meets env (CndEndsWith t) v = on_string (ends_in t) v"
| "meets env (CndRegex t) v = pe_test env t v"
| "meets env CndExists v = Inr (v \<noteq> Some JNull \<and> v \<noteq> None \<and> v \<noteq> Some (JStr []))"

definition is_not :: "condition \<Rightarrow> bool" where
  "is_not c = (case c of CndNot _ \<Rightarrow> True | _ \<Rightarrow> False)"

text \<open>\<open>includes\<close> compares objects by reference, so an object of a rule is never among the values.\<close>

definition is_reference :: "json \<Rightarrow> bool" where
  "is_reference v = (case v of JArr _ \<Rightarrow> True | JObj _ \<Rightarrow> True | _ \<Rightarrow> False)"

fun checkCondition :: "param_env \<Rightarrow> json option list \<Rightarrow> display_value \<Rightarrow> js_error + bool" where
  "checkCondition env actualValues (Cnd c) =
     (if actualValues = [] then Inr (is_not c) else everyE (meets env c) actualValues)"
| "checkCondition env actualValues (IsValue v) = Inr (\<not> is_reference v \<and> Some v \<in> set actualValues)"

definition checkConditions :: "param_env \<Rightarrow> display_value list \<Rightarrow> json option list \<Rightarrow> js_error + bool" where
  "checkConditions env conditions actualValues = someE (checkCondition env actualValues) conditions"

definition getNodeFeatures :: "param_env \<Rightarrow> display_value list obj option \<Rightarrow> rat \<Rightarrow> js_error + bool obj" where
  "getNodeFeatures env featuresDef nodeVersion =
     (case featuresDef of
        None \<Rightarrow> Inr []
      | Some fs \<Rightarrow> foldE (\<lambda>(featureName, condition) features.
          bindE (checkConditions env condition [Some (JNum nodeVersion)]) (\<lambda>b. Inr (obj_set featureName b features)))
          (obj_entries fs) [])"

definition resource_value :: "json option \<Rightarrow> json option" where
  "resource_value v =
     (case v of
        Some (JObj kvs) \<Rightarrow>
          (case obj_get kvs ''__rl'' of
             Some rl \<Rightarrow> if truthy rl then obj_get kvs ''value'' else v
           | None \<Rightarrow> v)
      | _ \<Rightarrow> v)"

definition as_values :: "json option \<Rightarrow> json option list" where
  "as_values v = (case resource_value v of Some (JArr xs) \<Rightarrow> map Some xs | v' \<Rightarrow> [v'])"

definition getPropertyValues ::
  "param_env \<Rightarrow> node_ctx \<Rightarrow> json obj \<Rightarrow> json obj \<Rightarrow> string \<Rightarrow> js_error + json option list" where
  "getPropertyValues env ctx nodeValues nodeValuesRoot propertyName =
     (if starts_with ''/'' propertyName then Inr (as_values (pe_get env nodeValuesRoot (tl propertyName)))
      else if propertyName = ''@version'' then
        Inr [Some (JNum (case nc_typeVersion ctx of Some v \<Rightarrow> v | None \<Rightarrow> 0))]
      else if propertyName = ''@tool'' then
        Inr [Some (JBool (case nc_type ctx of Some t \<Rightarrow> ends_in ''Tool'' (nt_name t) | None \<Rightarrow> False))]
      else if propertyName = ''@feature'' then
        (case (nc_type ctx, nc_typeVersion ctx) of
           (Some t, Some v) \<Rightarrow>
             if nt_features t = None \<or> v = 0 then Inr []
             else bindE (getNodeFeatures env (nt_features t) v)
                    (\<lambda>fs. Inr (map (\<lambda>(name, _). Some (JStr name)) (filter snd (obj_entries fs))))
         | _ \<Rightarrow> Inr [])
      else Inr (as_values (pe_get env nodeValues propertyName)))"

definition is_expression :: "json option \<Rightarrow> bool" where
  "is_expression v = (case v of Some (JStr s) \<Rightarrow> starts_with ''='' s | _ \<Rightarrow> False)"

subsection \<open>Displaying a parameter\<close>

text \<open>The loops over the rules; \<open>Some b\<close> when one of them returns.\<close>

fun show_rules ::
  "param_env \<Rightarrow> (string \<Rightarrow> js_error + json option list) \<Rightarrow> display_value list obj \<Rightarrow> js_error + bool option" where
  "show_rules env values [] = Inr None"
| "show_rules env values ((propertyName, conditions) # rest) =
     bindE (values propertyName) (\<lambda>vs.
       if list_ex is_expression vs then Inr (Some True)
       else bindE (checkConditions env conditions vs) (\<lambda>b. if b then show_rules env values rest else Inr (Some False)))"

fun hide_rules ::
  "param_env \<Rightarrow> (string \<Rightarrow> js_error + json option list) \<Rightarrow> display_value list obj \<Rightarrow> js_error + bool" where
  "hide_rules env values [] = Inr True"
| "hide_rules env values ((propertyName, conditions) # rest) =
     bindE (values propertyName) (\<lambda>vs.
       if vs = [] then hide_rules env values rest
       else bindE (checkConditions env conditions vs) (\<lambda>b. if b then Inr False else hide_rules env values rest))"

definition rules_of :: "display_value list obj option \<Rightarrow> display_value list obj" where
  "rules_of rs = (case rs of None \<Rightarrow> [] | Some rs \<Rightarrow> obj_entries rs)"

definition displayParameter ::
  "param_env \<Rightarrow> node_ctx \<Rightarrow> json obj \<Rightarrow> display_options option \<Rightarrow> json obj option \<Rightarrow> js_error + bool" where
  "displayParameter env ctx nodeValues options nodeValuesRoot =
     (case options of
        None \<Rightarrow> Inr True
      | Some d \<Rightarrow>
          let values = getPropertyValues env ctx nodeValues
                (case nodeValuesRoot of Some r \<Rightarrow> r | None \<Rightarrow> nodeValues)
          in bindE (show_rules env values (rules_of (do_show d))) (\<lambda>r.
               case r of Some b \<Rightarrow> Inr b | None \<Rightarrow> hide_rules env values (rules_of (do_hide d))))"

text \<open>
  \<open>displayParameterPath\<close>: the values at the path, and the parameters as the root when the path starts with
  them. A value that is not an object has no properties to read.
\<close>

definition object_at :: "json option \<Rightarrow> json obj" where
  "object_at v = (case v of Some (JObj kvs) \<Rightarrow> kvs | _ \<Rightarrow> [])"

definition displayParameterPath ::
  "param_env \<Rightarrow> node_ctx \<Rightarrow> json obj \<Rightarrow> display_options option \<Rightarrow> string \<Rightarrow> js_error + bool" where
  "displayParameterPath env ctx nodeValues options path =
     (let resolvedNodeValues = (if path \<noteq> [] then object_at (pe_get env nodeValues path) else nodeValues);
          nodeValuesRoot =
            (if takeWhile (\<lambda>c. c \<noteq> CHR ''.'') path = ''parameters''
             then (case pe_get env nodeValues ''parameters'' of
                     None \<Rightarrow> None
                   | Some v \<Rightarrow> if truthy v then Some (object_at (Some v)) else None)
             else Some nodeValues)
      in displayParameter env ctx resolvedNodeValues options nodeValuesRoot)"

end
