(* ===== verification/NodeResolve.thy ===== *)
theory NodeResolve
  imports NodeProperties
begin

section \<open>The order in which parameters are resolved\<close>

text \<open>
  \<open>getParameterDependencies\<close> and \<open>getParameterResolveOrder\<close> of \<open>packages/workflow/src/node-helpers.ts\<close>: a
  queue of the indexes of the properties. A property some of whose dependencies have not been
  resolved is put back, once for each of them; in either case it is added to the order. The loop is
  a total function; the theorems say when it throws, and what its order is good for.
\<close>

subsection \<open>Dependencies\<close>

definition add_dependency :: "string \<Rightarrow> string \<Rightarrow> string list obj \<Rightarrow> string list obj" where
  "add_dependency name parameterName dependencies =
     (case obj_get dependencies name of
        None \<Rightarrow> dependencies
      | Some ds \<Rightarrow>
          if parameterName \<in> set ds \<or> starts_with ''@'' parameterName then dependencies
          else obj_set name (ds @ [parameterName]) dependencies)"

definition rule_names :: "display_options \<Rightarrow> string list" where
  "rule_names d = map fst (rules_of (do_show d)) @ map fst (rules_of (do_hide d))"

definition add_dependencies :: "node_property \<Rightarrow> string list obj \<Rightarrow> string list obj" where
  "add_dependencies p dependencies =
     (let deps = (if obj_has (np_name p) dependencies then dependencies else obj_set (np_name p) [] dependencies)
      in case np_display p of
           None \<Rightarrow> deps
         | Some d \<Rightarrow> fold (add_dependency (np_name p)) (rule_names d) deps)"

definition getParameterDependencies :: "node_property list \<Rightarrow> string list obj" where
  "getParameterDependencies nodePropertiesArray = fold add_dependencies nodePropertiesArray []"

subsection \<open>The order\<close>

record resolving =
  rs_queue :: "nat list"
  rs_order :: "nat list"
  rs_resolved :: "string list"
  rs_lastLength :: nat
  rs_lastReduction :: int
  rs_iterations :: int

text \<open>Dependencies that are still missing; those of the root level are assumed to be resolved.\<close>

definition missing :: "string list \<Rightarrow> string list \<Rightarrow> string list" where
  "missing resolved ds = filter (\<lambda>d. d \<notin> set resolved \<and> \<not> starts_with ''/'' d) ds"

definition resolve_plain :: "string \<Rightarrow> nat \<Rightarrow> nat list \<Rightarrow> resolving \<Rightarrow> resolving" where
  "resolve_plain name index rest st =
     st\<lparr>rs_queue := rest, rs_order := rs_order st @ [index], rs_resolved := rs_resolved st @ [name],
        rs_iterations := rs_iterations st + 1\<rparr>"

definition resolve_dependent :: "string \<Rightarrow> string list \<Rightarrow> nat \<Rightarrow> nat list \<Rightarrow> resolving \<Rightarrow> resolving" where
  "resolve_dependent name ds index rest st =
     (let queue = rest @ replicate (length (missing (rs_resolved st) ds)) index; iterations = rs_iterations st + 1
      in st\<lparr>rs_queue := queue, rs_order := rs_order st @ [index], rs_resolved := rs_resolved st @ [name],
            rs_lastLength := length queue,
            rs_lastReduction := (if length queue < rs_lastLength st then iterations else rs_lastReduction st),
            rs_iterations := iterations\<rparr>)"

definition dependencies_unresolved :: js_error where
  "dependencies_unresolved = ApplicationError ''Could not resolve parameter dependencies. Max iterations reached!''"

text \<open>What the termination argument looks at.\<close>

definition unresolved_names :: "node_property list \<Rightarrow> resolving \<Rightarrow> nat" where
  "unresolved_names ps st = card (np_name ` set ps - set (rs_resolved st))"

definition is_ready_index :: "node_property list \<Rightarrow> string list obj \<Rightarrow> string list \<Rightarrow> nat \<Rightarrow> bool" where
  "is_ready_index ps deps resolved i =
     (case idx ps i of
        None \<Rightarrow> True
      | Some p \<Rightarrow> (case obj_get deps (np_name p) of None \<Rightarrow> True | Some ds \<Rightarrow> missing resolved ds = []))"

definition ready_indexes :: "node_property list \<Rightarrow> string list obj \<Rightarrow> resolving \<Rightarrow> nat" where
  "ready_indexes ps deps st = length (filter (is_ready_index ps deps (rs_resolved st)) (rs_queue st))"

definition shrunk :: "resolving \<Rightarrow> nat" where
  "shrunk st = (if length (rs_queue st) < rs_lastLength st then 1 else 0)"

definition iterations_left :: "node_property list \<Rightarrow> resolving \<Rightarrow> nat" where
  "iterations_left ps st = nat (rs_lastReduction st + int (length ps) + 1 - rs_iterations st)"

lemma unresolved_less:
  "idx ps i = Some p \<Longrightarrow> np_name p \<notin> set (rs_resolved st) \<Longrightarrow> set (rs_resolved st') = insert (np_name p) (set (rs_resolved st)) \<Longrightarrow>
   unresolved_names ps st' < unresolved_names ps st"
  unfolding unresolved_names_def by (intro psubset_card_mono) (auto simp: idx_Some_iff)

lemma is_ready_index_cong: "set r = set r' \<Longrightarrow> is_ready_index ps deps r = is_ready_index ps deps r'"
  by (rule ext) (simp add: is_ready_index_def missing_def split: option.split)

function resolve_loop :: "node_property list \<Rightarrow> string list obj \<Rightarrow> resolving \<Rightarrow> js_error + nat list" where
  "resolve_loop ps deps st =
     (case rs_queue st of
        [] \<Rightarrow> Inr (rs_order st)
      | index # rest \<Rightarrow>
          (case idx ps index of
             None \<Rightarrow> Inl TypeError
           | Some p \<Rightarrow>
               (case obj_get deps (np_name p) of
                  None \<Rightarrow> Inl TypeError
                | Some ds \<Rightarrow>
                    if ds = [] then resolve_loop ps deps (resolve_plain (np_name p) index rest st)
                    else if rs_iterations (resolve_dependent (np_name p) ds index rest st)
                              > rs_lastReduction (resolve_dependent (np_name p) ds index rest st) + int (length ps)
                    then Inl dependencies_unresolved
                    else resolve_loop ps deps (resolve_dependent (np_name p) ds index rest st))))"
  by pat_completeness auto

definition resolve_measures :: "((node_property list \<times> string list obj \<times> resolving) \<Rightarrow> nat) list" where
  "resolve_measures = [\<lambda>(ps, deps, st). unresolved_names ps st, \<lambda>(ps, deps, st). ready_indexes ps deps st,
     \<lambda>(ps, deps, st). shrunk st, \<lambda>(ps, deps, st). iterations_left ps st]"

lemma resolve_measuresI:
  assumes "unresolved_names ps st' < unresolved_names ps st
    \<or> unresolved_names ps st' = unresolved_names ps st \<and> (ready_indexes ps deps st' < ready_indexes ps deps st
      \<or> ready_indexes ps deps st' = ready_indexes ps deps st \<and> (shrunk st' < shrunk st
        \<or> shrunk st' = shrunk st \<and> iterations_left ps st' < iterations_left ps st))"
  shows "((ps, deps, st'), (ps, deps, st)) \<in> measures resolve_measures"
  using assms by (auto simp: resolve_measures_def)

lemma unresolved_same: "set (rs_resolved st') = set (rs_resolved st) \<Longrightarrow> unresolved_names ps st' = unresolved_names ps st"
  by (simp add: unresolved_names_def)

lemma ready_less:
  assumes "rs_queue st = i # rest" "is_ready_index ps deps (rs_resolved st) i" "rs_queue st' = rest" "set (rs_resolved st') = set (rs_resolved st)"
  shows "ready_indexes ps deps st' < ready_indexes ps deps st"
  using assms(1-3) is_ready_index_cong [OF assms(4)] by (simp add: ready_indexes_def)

lemma plain_decreases:
  assumes "rs_queue st = i # rest" "idx ps i = Some p" "obj_get deps (np_name p) = Some []"
  shows "((ps, deps, resolve_plain (np_name p) i rest st), (ps, deps, st)) \<in> measures resolve_measures"
proof (cases "np_name p \<in> set (rs_resolved st)")
  let ?st = "resolve_plain (np_name p) i rest st"
  case True
  then have same: "set (rs_resolved ?st) = set (rs_resolved st)" by (auto simp: resolve_plain_def)
  have "is_ready_index ps deps (rs_resolved st) i" using assms(2,3) by (simp add: is_ready_index_def missing_def)
  from ready_less [OF assms(1) this _ same] unresolved_same [OF same] show ?thesis
    by (intro resolve_measuresI) (simp add: resolve_plain_def)
next
  case False
  with unresolved_less [OF assms(2) False, of "resolve_plain (np_name p) i rest st"]
  show ?thesis by (intro resolve_measuresI) (simp add: resolve_plain_def)
qed

lemma dependent_decreases:
  assumes q: "rs_queue st = i # rest" and p: "idx ps i = Some p" and ds: "obj_get deps (np_name p) = Some ds"
    and go: "\<not> rs_iterations (resolve_dependent (np_name p) ds i rest st)
              > rs_lastReduction (resolve_dependent (np_name p) ds i rest st) + int (length ps)"
  shows "((ps, deps, resolve_dependent (np_name p) ds i rest st), (ps, deps, st)) \<in> measures resolve_measures"
proof (cases "np_name p \<in> set (rs_resolved st)")
  let ?st = "resolve_dependent (np_name p) ds i rest st" and ?k = "length (missing (rs_resolved st) ds)"
  case True
  then have same: "set (rs_resolved ?st) = set (rs_resolved st)" by (auto simp: resolve_dependent_def Let_def)
  note u = unresolved_same [OF same]
  show ?thesis
  proof (cases "?k = 0")
    case True
    then have "is_ready_index ps deps (rs_resolved st) i" using p ds by (simp add: is_ready_index_def)
    from ready_less [OF q this _ same] u True show ?thesis
      by (intro resolve_measuresI) (simp add: resolve_dependent_def Let_def)
  next
    case False
    have not_ready: "\<not> is_ready_index ps deps (rs_resolved st) i" using p ds False by (simp add: is_ready_index_def)
    have r: "ready_indexes ps deps ?st = ready_indexes ps deps st"
      using q not_ready is_ready_index_cong [OF same] by (simp add: ready_indexes_def resolve_dependent_def Let_def)
    have len: "length (rs_queue st) \<le> length (rs_queue ?st)" using q False by (simp add: resolve_dependent_def Let_def Suc_le_eq)
    have zero: "shrunk ?st = 0" by (simp add: shrunk_def resolve_dependent_def Let_def)
    show ?thesis
    proof (cases "shrunk st = 0")
      case True
      then have "\<not> length (rs_queue ?st) < rs_lastLength st" using len by (simp add: shrunk_def split: if_splits)
      then have "rs_lastReduction ?st = rs_lastReduction st" "rs_iterations ?st = rs_iterations st + 1"
        by (simp_all add: resolve_dependent_def Let_def)
      with go have "iterations_left ps ?st < iterations_left ps st" by (simp add: iterations_left_def)
      with u r zero True show ?thesis by (intro resolve_measuresI) simp
    qed (use u r zero in \<open>intro resolve_measuresI, simp\<close>)
  qed
next
  case False
  with unresolved_less [OF p False, of "resolve_dependent (np_name p) ds i rest st"]
  show ?thesis by (intro resolve_measuresI) (simp add: resolve_dependent_def Let_def)
qed

termination resolve_loop
  by (relation "measures resolve_measures") (simp_all add: plain_decreases dependent_decreases)

declare resolve_loop.simps [simp del]

definition getParameterResolveOrder :: "node_property list \<Rightarrow> string list obj \<Rightarrow> js_error + nat list" where
  "getParameterResolveOrder nodePropertiesArray parameterDependencies =
     resolve_loop nodePropertiesArray parameterDependencies
       \<lparr>rs_queue = [0..<length nodePropertiesArray], rs_order = [], rs_resolved = [],
         rs_lastLength = length nodePropertiesArray, rs_lastReduction = -1, rs_iterations = 0\<rparr>"

end
