(* ===== verification/NodeParameters.thy ===== *)
theory NodeParameters
  imports NodeResolve
begin

section \<open>The values of node parameters\<close>

text \<open>
  \<open>getNodeParameters\<close> of \<open>packages/workflow/src/node-helpers.ts\<close>: from the values a node stores it computes
  those it has, with all defaults filled in or with all defaults left out. The body of its loop
  is \<open>parameter_step\<close>, with a case for each kind of property; \<open>rec\<close> is the recursive call. Without
  resolved data the displayed parameters are computed first; otherwise the display is checked
  against the object that is being filled. A key whose value is \<open>undefined\<close> is absent.
\<close>

type_synonym params = "json obj"

subsection \<open>Values\<close>

definition is_object :: "json \<Rightarrow> bool" where
  "is_object v = (case v of JNull \<Rightarrow> True | JArr _ \<Rightarrow> True | JObj _ \<Rightarrow> True | _ \<Rightarrow> False)"

text \<open>A value that is read as parameters; \<open>None\<close> when it is falsy. Only objects have parameters.\<close>

definition as_params :: "json option \<Rightarrow> params option" where
  "as_params v =
     (case v of
        None \<Rightarrow> None
      | Some (JObj kvs) \<Rightarrow> Some kvs
      | Some x \<Rightarrow> if truthy x then Some [] else None)"

definition entries_of :: "json \<Rightarrow> params" where
  "entries_of v =
     (case v of
        JObj kvs \<Rightarrow> obj_entries kvs
      | JArr xs \<Rightarrow> zip (map nat_str [0..<length xs]) xs
      | JStr s \<Rightarrow> zip (map nat_str [0..<length s]) (map (\<lambda>c. JStr [c]) s)
      | _ \<Rightarrow> [])"

text \<open>What \<open>for \<dots> of\<close> iterates over.\<close>

definition elements_of :: "json option \<Rightarrow> js_error + json list" where
  "elements_of v =
     (case v of Some (JArr xs) \<Rightarrow> Inr xs | Some (JStr s) \<Rightarrow> Inr (map (\<lambda>c. JStr [c]) s) | _ \<Rightarrow> Inl TypeError)"

subsection \<open>Nested properties\<close>

definition option_name :: "prop_option \<Rightarrow> string" where
  "option_name o' = (case o' of OptionValue n _ \<Rightarrow> n | OptionProperty p \<Rightarrow> np_name p | OptionCollection n _ \<Rightarrow> n)"

definition option_properties :: "prop_option \<Rightarrow> node_property list option" where
  "option_properties o' = (case o' of OptionCollection _ ps \<Rightarrow> Some ps | _ \<Rightarrow> None)"

definition collection_properties :: "node_property \<Rightarrow> node_property list option" where
  "collection_properties p =
     map_option (\<lambda>os. concat (map (\<lambda>o'. case o' of OptionProperty q \<Rightarrow> [q] | _ \<Rightarrow> []) os)) (np_options p)"

text \<open>The lists of properties that \<open>getNodeParameters\<close> is called with for a property.\<close>

definition nested :: "node_property \<Rightarrow> node_property list set" where
  "nested p = set_option (collection_properties p)
     \<union> (case np_options p of None \<Rightarrow> {} | Some os \<Rightarrow> \<Union> (set_option ` option_properties ` set os))"

lemma size_collection: "collection_properties p = Some ps \<Longrightarrow> size_list size ps < size p"
proof -
  assume "collection_properties p = Some ps"
  then obtain os where os: "np_options p = Some os"
    and ps: "ps = concat (map (\<lambda>o'. case o' of OptionProperty q \<Rightarrow> [q] | _ \<Rightarrow> []) os)"
    by (auto simp: collection_properties_def)
  have "size_list size (concat (map (\<lambda>o'. case o' of OptionProperty q \<Rightarrow> [q] | _ \<Rightarrow> []) os)) \<le> size_list size os"
    by (induction os) (auto split: prop_option.split)
  then show ?thesis using os ps by (cases p) simp
qed

lemma size_option: "np_options p = Some os \<Longrightarrow> o' \<in> set os \<Longrightarrow> option_properties o' = Some ps \<Longrightarrow> size_list size ps < size p"
proof -
  assume os: "np_options p = Some os" and o': "o' \<in> set os" "option_properties o' = Some ps"
  have "size_list size ps < size o'" using o'(2) by (cases o') (auto simp: option_properties_def)
  moreover have "size o' \<le> size_list size os" using o'(1) by (rule size_list_estimation') simp
  ultimately show ?thesis using os by (cases p) simp
qed

lemma size_nested: "p \<in> set props \<Longrightarrow> ps \<in> nested p \<Longrightarrow> size_list size ps < size_list size props"
proof -
  assume p: "p \<in> set props" and "ps \<in> nested p"
  then have "size_list size ps < size p"
    by (auto simp: nested_def size_collection size_option split: option.splits)
  moreover have "size p \<le> size_list size props" using p by (rule size_list_estimation') simp
  ultimately show ?thesis by simp
qed

subsection \<open>One parameter\<close>

record gnp_state =
  gs_params :: params
  gs_full :: params
  gs_returned :: "params option"

type_synonym resolve_nested = "node_property list \<Rightarrow> params option \<Rightarrow> prop_type \<Rightarrow> params \<Rightarrow> js_error + params"

text \<open>\<open>nodeParametersFull[name] = nodeParameters[name]\<close>.\<close>

definition copy_full :: "string \<Rightarrow> gnp_state \<Rightarrow> gnp_state" where
  "copy_full name st =
     (case obj_get (gs_params st) name of
        None \<Rightarrow> st\<lparr>gs_full := obj_del name (gs_full st)\<rparr>
      | Some v \<Rightarrow> st\<lparr>gs_full := obj_set name v (gs_full st)\<rparr>)"

definition put_param :: "string \<Rightarrow> json \<Rightarrow> gnp_state \<Rightarrow> gnp_state" where
  "put_param name v st = copy_full name (st\<lparr>gs_params := obj_set name v (gs_params st)\<rparr>)"

definition spread_rl :: "json \<Rightarrow> json" where
  "spread_rl d = JObj (fold (\<lambda>(k, v). obj_set k v) (entries_of d) [(''__rl'', JBool True)])"

definition value_or_default :: "node_property \<Rightarrow> json option \<Rightarrow> json" where
  "value_or_default p v =
     (if np_type p \<in> {PBoolean, PNumber, POptions} then (case v of Some x \<Rightarrow> x | None \<Rightarrow> np_default p)
      else if np_type p = PResourceLocator \<and> is_object (np_default p)
      then (case v of Some x \<Rightarrow> x | None \<Rightarrow> spread_rl (np_default p))
      else (case v of Some JNull \<Rightarrow> np_default p | Some x \<Rightarrow> x | None \<Rightarrow> np_default p))"

definition differs_from_default :: "param_env \<Rightarrow> node_property \<Rightarrow> prop_type option \<Rightarrow> json \<Rightarrow> bool" where
  "differs_from_default env p parentType x \<longleftrightarrow>
     x \<noteq> np_default p \<and> \<not> is_object x \<or> is_object x \<and> \<not> pe_isEqual env (Some x) (np_default p) \<or> parentType = Some PCollection"

definition simple_parameter ::
  "param_env \<Rightarrow> node_property \<Rightarrow> json option \<Rightarrow> bool \<Rightarrow> prop_type option \<Rightarrow> gnp_state \<Rightarrow> gnp_state" where
  "simple_parameter env p v returnDefaults parentType st =
     (if returnDefaults then put_param (np_name p) (value_or_default p v) st
      else case v of
             None \<Rightarrow> st
           | Some x \<Rightarrow> if differs_from_default env p parentType x then put_param (np_name p) x st else st)"

definition collection_parameter ::
  "resolve_nested \<Rightarrow> node_property \<Rightarrow> json option \<Rightarrow> bool \<Rightarrow> params \<Rightarrow> gnp_state \<Rightarrow> js_error + gnp_state" where
  "collection_parameter rec p v returnDefaults rootv st =
     (let name = np_name p
      in if pi_multipleValues (np_info p) = Some True then
           (case v of
              Some x \<Rightarrow> Inr (put_param name x st)
            | None \<Rightarrow>
                if returnDefaults then Inr (put_param name (case np_default p of JArr xs \<Rightarrow> JArr xs | _ \<Rightarrow> JArr []) st)
                else Inr (copy_full name st))
         else (case v of
                 Some x \<Rightarrow>
                   (case collection_properties p of
                      None \<Rightarrow> Inl TypeError
                    | Some ps \<Rightarrow> bindE (rec ps (as_params (Some x)) PCollection rootv) (\<lambda>r. Inr (put_param name (JObj r) st)))
               | None \<Rightarrow> if returnDefaults then Inr (put_param name (np_default p) st) else Inr st))"

text \<open>The values of one item of a fixed collection that may have several.\<close>

definition item_values ::
  "resolve_nested \<Rightarrow> node_property \<Rightarrow> string \<Rightarrow> json option \<Rightarrow> params \<Rightarrow> js_error + json list" where
  "item_values rec p itemName value rootv =
     bindE (elements_of value) (\<lambda>elements.
       foldE (\<lambda>nodeValue acc.
         case np_options p of
           None \<Rightarrow> Inl TypeError
         | Some os \<Rightarrow>
             (case find (\<lambda>o'. option_name o' = itemName) os of
                None \<Rightarrow> Inl (ApplicationError ''Could not find property option'')
              | Some o' \<Rightarrow>
                  (case option_properties o' of
                     None \<Rightarrow> Inl TypeError
                   | Some ps \<Rightarrow> bindE (rec ps (as_params (Some nodeValue)) PFixedCollection rootv) (\<lambda>r. Inr (acc @ [JObj r])))))
         elements [])"

text \<open>The value of one item of a fixed collection that has one. It is read from the stored value, also when
  the default is iterated over.\<close>

definition item_value ::
  "resolve_nested \<Rightarrow> node_property \<Rightarrow> string \<Rightarrow> json option \<Rightarrow> params \<Rightarrow> js_error + params" where
  "item_value rec p itemName stored rootv =
     (case np_options p of
        None \<Rightarrow> Inl TypeError
      | Some os \<Rightarrow>
          (case find (\<lambda>o'. option_name o' = itemName) os of
             None \<Rightarrow> Inr []
           | Some o' \<Rightarrow>
               (case (option_properties o', stored) of
                  (Some ps, Some s) \<Rightarrow>
                    if s = JNull then Inl TypeError
                    else rec ps (as_params (obj_get (entries_of s) itemName)) PFixedCollection rootv
                | _ \<Rightarrow> Inl TypeError)))"

definition fixed_items ::
  "resolve_nested \<Rightarrow> node_property \<Rightarrow> json option \<Rightarrow> json \<Rightarrow> params \<Rightarrow> js_error + params" where
  "fixed_items rec p stored propertyValues rootv =
     foldE (\<lambda>itemName items.
       if pi_multipleValues (np_info p) = Some True then
         (case propertyValues of
            JObj kvs \<Rightarrow> bindE (item_values rec p itemName (obj_get kvs itemName) rootv) (\<lambda>vs. Inr (obj_set itemName (JArr vs) items))
          | _ \<Rightarrow> Inr items)
       else bindE (item_value rec p itemName stored rootv) (\<lambda>r. Inr (if r = [] then items else obj_set itemName (JObj r) items)))
       (if truthy propertyValues then map fst (entries_of propertyValues) else []) []"

definition fixed_collection_parameter ::
  "resolve_nested \<Rightarrow> node_property \<Rightarrow> params \<Rightarrow> json option \<Rightarrow> bool \<Rightarrow> params \<Rightarrow> gnp_state \<Rightarrow> js_error + gnp_state" where
  "fixed_collection_parameter rec p nodeValues v returnDefaults rootv st =
     (let name = np_name p;
          propertyValues = (case v of Some x \<Rightarrow> x | None \<Rightarrow> if returnDefaults then np_default p else JNull);
          onlyOne = (\<not> returnDefaults \<and> pi_multipleValues (np_info p) = Some False \<and> truthy propertyValues)
      in if onlyOne \<and> entries_of propertyValues = [] then Inr (st\<lparr>gs_returned := Some nodeValues\<rparr>)
         else bindE (fixed_items rec p v propertyValues rootv) (\<lambda>items.
           let st1 = (case propertyValues of
                  JObj kvs \<Rightarrow>
                    if onlyOne \<and> items = [] \<and> kvs \<noteq> []
                    then st\<lparr>gs_params := obj_set name (JObj (map (\<lambda>(k, _). (k, JObj [])) (entries_of propertyValues))) (gs_params st)\<rparr>
                    else st
                | _ \<Rightarrow> st)
           in Inr (if items \<noteq> [] \<or> returnDefaults then put_param name (JObj items) st1 else st1)))"

text \<open>The body of the loop. \<open>shown\<close> is the fixed object to check the display against, if there is one.\<close>

definition parameter_step ::
  "param_env \<Rightarrow> node_ctx \<Rightarrow> resolve_nested \<Rightarrow> node_property list \<Rightarrow> params option \<Rightarrow> bool \<Rightarrow> bool \<Rightarrow> bool \<Rightarrow>
   prop_type option \<Rightarrow> params option \<Rightarrow> params option \<Rightarrow> nat \<Rightarrow> gnp_state \<Rightarrow> js_error + gnp_state" where
  "parameter_step env ctx rec props nodeValues returnDefaults returnNoneDisplayed onlySimpleTypes parentType shown nodeValuesRoot i st =
     (if gs_returned st \<noteq> None then Inr st
      else case (idx props i, nodeValues) of
        (None, _) \<Rightarrow> Inl TypeError
      | (Some p, None) \<Rightarrow> Inr st
      | (Some p, Some values) \<Rightarrow>
          let v = obj_get values (np_name p);
              check = (case shown of Some d \<Rightarrow> d | None \<Rightarrow> gs_full st);
              rootv = (case nodeValuesRoot of Some r \<Rightarrow> r | None \<Rightarrow> check);
              displayed = displayParameter env ctx check (np_display p) (Some rootv)
          in if v = None \<and> (\<not> returnDefaults \<or> parentType = Some PCollection) then Inr st
             else bindE (if returnNoneDisplayed then Inr True else displayed) (\<lambda>show.
               if \<not> show then Inr st
               else if np_type p = PCollection then
                 (if onlySimpleTypes then Inr st else collection_parameter rec p v returnDefaults rootv st)
               else if np_type p = PFixedCollection then
                 (if onlySimpleTypes then Inr st else fixed_collection_parameter rec p values v returnDefaults rootv st)
               else bindE (if length (filter (\<lambda>q. np_name q = np_name p) props) > 1 then displayed else Inr True) (\<lambda>show.
                 Inr (if show then simple_parameter env p v returnDefaults parentType st else st))))"

lemma item_values_cong:
  assumes "\<And>ps nv rootv. ps \<in> nested p \<Longrightarrow> rec ps nv PFixedCollection rootv = rec' ps nv PFixedCollection rootv"
  shows "item_values rec p n v rootv = item_values rec' p n v rootv"
proof -
  have "rec ps nv PFixedCollection rootv = rec' ps nv PFixedCollection rootv"
    if "np_options p = Some os" "find (\<lambda>o'. option_name o' = n) os = Some o'" "option_properties o' = Some ps" for os o' ps nv rootv
    using that by (intro assms) (auto simp: nested_def find_Some_iff intro!: bexI [of _ o'])
  then show ?thesis
    unfolding item_values_def
    by (intro bindE_cong foldE_cong refl) (auto split: option.split)
qed

lemma item_value_cong:
  assumes "\<And>ps nv rootv. ps \<in> nested p \<Longrightarrow> rec ps nv PFixedCollection rootv = rec' ps nv PFixedCollection rootv"
  shows "item_value rec p n v rootv = item_value rec' p n v rootv"
proof -
  have "rec ps nv PFixedCollection rootv = rec' ps nv PFixedCollection rootv"
    if "np_options p = Some os" "find (\<lambda>o'. option_name o' = n) os = Some o'" "option_properties o' = Some ps" for os o' ps nv rootv
    using that by (intro assms) (auto simp: nested_def find_Some_iff intro!: bexI [of _ o'])
  then show ?thesis unfolding item_value_def by (auto split: option.split)
qed

lemma parameter_step_cong [fundef_cong]:
  assumes "\<And>p ps nv pt rootv. p \<in> set props' \<Longrightarrow> ps \<in> nested p \<Longrightarrow> rec ps nv pt rootv = rec' ps nv pt rootv" "props = props'"
  shows "parameter_step env ctx rec props = parameter_step env ctx rec' props'"
proof -
  have c: "collection_parameter rec p = collection_parameter rec' p" if p: "p \<in> set props'" for p
  proof (intro ext, cases "collection_properties p")
    fix v rd rootv st ps
    assume "collection_properties p = Some ps"
    moreover from this have "rec ps = rec' ps" using assms(1) [OF p] by (intro ext) (simp add: nested_def)
    ultimately show "collection_parameter rec p v rd rootv st = collection_parameter rec' p v rd rootv st"
      by (simp add: collection_parameter_def Let_def split: option.split)
  qed (simp add: collection_parameter_def Let_def split: option.split)
  have f: "fixed_collection_parameter rec p = fixed_collection_parameter rec' p" if p: "p \<in> set props'" for p
  proof -
    have vs: "item_values rec p = item_values rec' p"
      by (intro ext, rule item_values_cong, rule assms(1) [OF p])
    have v: "item_value rec p = item_value rec' p"
      by (intro ext, rule item_value_cong, rule assms(1) [OF p])
    show ?thesis by (intro ext) (unfold fixed_collection_parameter_def fixed_items_def vs v, rule refl)
  qed
  show ?thesis
  proof (intro ext)
    fix nodeValues rd rnd ost pt sh nvr i st
    show "parameter_step env ctx rec props nodeValues rd rnd ost pt sh nvr i st
      = parameter_step env ctx rec' props' nodeValues rd rnd ost pt sh nvr i st"
    proof (cases "idx props' i")
      case (Some p)
      then have "p \<in> set props'" by (auto simp: idx_Some_iff)
      note eqs = c [OF this] f [OF this]
      show ?thesis unfolding parameter_step_def assms(2) Some prod.case option.case eqs ..
    qed (simp add: parameter_step_def assms(2))
  qed
qed

subsection \<open>All parameters\<close>

record gnp_options =
  go_onlySimpleTypes :: bool
  go_dataIsResolved :: bool
  go_nodeValuesRoot :: "params option"
  go_parentType :: "prop_type option"
  go_dependencies :: "string list obj option"

definition no_options :: gnp_options where
  "no_options = \<lparr>go_onlySimpleTypes = False, go_dataIsResolved = False, go_nodeValuesRoot = None, go_parentType = None, go_dependencies = None\<rparr>"

function getNodeParameters ::
  "param_env \<Rightarrow> node_ctx \<Rightarrow> node_property list \<Rightarrow> params option \<Rightarrow> bool \<Rightarrow> bool \<Rightarrow> gnp_options \<Rightarrow> js_error + params" where
  "getNodeParameters env ctx props nodeValues returnDefaults returnNoneDisplayed opts =
     bindE (if \<not> go_dataIsResolved opts \<and> \<not> returnNoneDisplayed
            then bindE (getNodeParameters env ctx props nodeValues True True
                   \<lparr>go_onlySimpleTypes = True, go_dataIsResolved = True, go_nodeValuesRoot = go_nodeValuesRoot opts,
                     go_parentType = go_parentType opts,
                     go_dependencies = Some (case go_dependencies opts of Some d \<Rightarrow> d | None \<Rightarrow> getParameterDependencies props)\<rparr>)
                 (\<lambda>d. Inr (Some d))
            else Inr None) (\<lambda>shown.
     bindE (getParameterResolveOrder props
              (case go_dependencies opts of Some d \<Rightarrow> d | None \<Rightarrow> getParameterDependencies props)) (\<lambda>order.
     bindE (foldE
         (parameter_step env ctx
           (\<lambda>ps nv pt rootv. getNodeParameters env ctx ps nv returnDefaults returnNoneDisplayed
              \<lparr>go_onlySimpleTypes = False, go_dataIsResolved = False, go_nodeValuesRoot = Some rootv, go_parentType = Some pt,
                go_dependencies = None\<rparr>)
           props nodeValues returnDefaults returnNoneDisplayed (go_onlySimpleTypes opts) (go_parentType opts) shown
           (go_nodeValuesRoot opts))
         order \<lparr>gs_params = [], gs_full = [], gs_returned = None\<rparr>)
       (\<lambda>st. Inr (case gs_returned st of Some r \<Rightarrow> r | None \<Rightarrow> gs_params st))))"
  by pat_completeness auto

termination getNodeParameters
  by (relation "measures [\<lambda>(env, ctx, props, nv, rd, rnd, opts). size_list size props,
      \<lambda>(env, ctx, props, nv, rd, rnd, opts). if go_dataIsResolved opts then 0 else 1]") (auto dest: size_nested)

declare getNodeParameters.simps [simp del]

text \<open>For evaluation: the recursive call as a constant that is unfolded only when it is applied.\<close>

definition nested_call :: "param_env \<Rightarrow> node_ctx \<Rightarrow> bool \<Rightarrow> bool \<Rightarrow> resolve_nested" where
  "nested_call env ctx returnDefaults returnNoneDisplayed ps nv pt rootv =
     getNodeParameters env ctx ps nv returnDefaults returnNoneDisplayed
       \<lparr>go_onlySimpleTypes = False, go_dataIsResolved = False, go_nodeValuesRoot = Some rootv, go_parentType = Some pt,
         go_dependencies = None\<rparr>"

lemma getNodeParameters_code [code]:
  "getNodeParameters env ctx props nodeValues returnDefaults returnNoneDisplayed opts =
     (let deps = (case go_dependencies opts of Some d \<Rightarrow> d | None \<Rightarrow> getParameterDependencies props)
      in bindE (if \<not> go_dataIsResolved opts \<and> \<not> returnNoneDisplayed
            then bindE (getNodeParameters env ctx props nodeValues True True
                   \<lparr>go_onlySimpleTypes = True, go_dataIsResolved = True, go_nodeValuesRoot = go_nodeValuesRoot opts,
                     go_parentType = go_parentType opts, go_dependencies = Some deps\<rparr>)
                 (\<lambda>d. Inr (Some d))
            else Inr None) (\<lambda>shown.
     bindE (getParameterResolveOrder props deps) (\<lambda>order.
     bindE (foldE
         (parameter_step env ctx (nested_call env ctx returnDefaults returnNoneDisplayed)
           props nodeValues returnDefaults returnNoneDisplayed (go_onlySimpleTypes opts) (go_parentType opts) shown
           (go_nodeValuesRoot opts))
         order \<lparr>gs_params = [], gs_full = [], gs_returned = None\<rparr>)
       (\<lambda>st. Inr (case gs_returned st of Some r \<Rightarrow> r | None \<Rightarrow> gs_params st)))))"
  unfolding Let_def nested_call_def [abs_def] by (rule getNodeParameters.simps)

end
