(* ===== verification/NodeResolveFacts.thy ===== *)
theory NodeResolveFacts
  imports NodeResolve
begin

section \<open>What the order of the parameters is good for\<close>

text \<open>
  The loop throws when a property depends on a parameter that does not exist; when all
  exist and none depends on itself it ends with an order. In the order every property occurs, first
  of all in the order of declaration whatever its dependencies are, and the last time after
  everything that it depends on.
\<close>

subsection \<open>Dependencies\<close>

definition depends :: "node_property list \<Rightarrow> string \<Rightarrow> string set" where
  "depends ps n = {d. \<not> starts_with ''@'' d \<and> (\<exists>p \<in> set ps. np_name p = n \<and>
     (\<exists>o'. np_display p = Some o' \<and> d \<in> set (rule_names o')))}"

lemma add_dependency_get:
  assumes "obj_get deps name = Some ds"
  shows "\<exists>ds'. obj_get (fold (add_dependency name) rs deps) name = Some ds'
      \<and> set ds' = set ds \<union> {r \<in> set rs. \<not> starts_with ''@'' r}"
    and "n \<noteq> name \<Longrightarrow> obj_get (fold (add_dependency name) rs deps) n = obj_get deps n"
proof -
  show "\<exists>ds'. obj_get (fold (add_dependency name) rs deps) name = Some ds' \<and> set ds' = set ds \<union> {r \<in> set rs. \<not> starts_with ''@'' r}"
    using assms
  proof (induction rs arbitrary: deps ds)
    case (Cons r rs)
    let ?ds = "if r \<in> set ds \<or> starts_with ''@'' r then ds else ds @ [r]"
    have d: "obj_get (add_dependency name r deps) name = Some ?ds" "set ?ds = set ds \<union> {r' \<in> {r}. \<not> starts_with ''@'' r'}"
      using Cons.prems by (auto simp: add_dependency_def obj_get_set)
    from Cons.IH [OF d(1)] d(2) show ?case by auto
  qed simp
  show "obj_get (fold (add_dependency name) rs deps) n = obj_get deps n" if "n \<noteq> name"
    using that
    by (induction rs arbitrary: deps) (simp_all add: add_dependency_def obj_get_set split: option.split)
qed

lemma depends_snoc:
  "depends (ps @ [p]) n = depends ps n \<union> (if np_name p = n
     then (case np_display p of None \<Rightarrow> {} | Some o' \<Rightarrow> {d \<in> set (rule_names o'). \<not> starts_with ''@'' d}) else {})"
  by (auto simp: depends_def split: option.split)

lemma depends_new: "n \<notin> np_name ` set ps \<Longrightarrow> depends ps n = {}"
  by (auto simp: depends_def)

lemma dependencies_get:
  "(obj_get (getParameterDependencies ps) n = None \<longleftrightarrow> n \<notin> np_name ` set ps)
   \<and> (\<forall>ds. obj_get (getParameterDependencies ps) n = Some ds \<longrightarrow> set ds = depends ps n)"
proof (induction ps rule: rev_induct)
  case Nil
  then show ?case by (simp add: getParameterDependencies_def)
next
  case (snoc p ps)
  define D where "D = getParameterDependencies ps"
  define m where "m = np_name p"
  define D1 where "D1 = (if obj_has m D then D else obj_set m [] D)"
  have step: "getParameterDependencies (ps @ [p]) =
      (case np_display p of None \<Rightarrow> D1 | Some d \<Rightarrow> fold (add_dependency m) (rule_names d) D1)"
    unfolding D1_def D_def m_def getParameterDependencies_def by (simp only: fold_append fold.simps comp_apply id_apply add_dependencies_def Let_def)
  have other: "obj_get D1 n = obj_get D n" if "n \<noteq> m" for n using that by (simp add: D1_def obj_get_set)
  obtain ds0 where ds0: "obj_get D1 m = Some ds0" "obj_get D m = Some ds0 \<or> obj_get D m = None \<and> ds0 = []"
    by (cases "obj_get D m") (auto simp: D1_def obj_has_iff obj_get_set)
  show ?case
  proof (cases "n = m")
    case False
    then have "obj_get (getParameterDependencies (ps @ [p])) n = obj_get D n"
      using other [OF False] add_dependency_get(2) [OF ds0(1) False] unfolding step by (simp split: option.split)
    then show ?thesis using snoc.IH False by (auto simp: depends_snoc m_def D_def)
  next
    case True
    have set0: "set ds0 = depends ps m" using ds0(2) snoc.IH True depends_new [of m ps] unfolding D_def by auto
    show ?thesis
    proof (cases "np_display p")
      case None
      then show ?thesis using True ds0(1) set0 by (simp add: step depends_snoc) (simp add: m_def)
    next
      case (Some o')
      from add_dependency_get(1) [OF ds0(1), of "rule_names o'"] obtain ds' where
        "obj_get (fold (add_dependency m) (rule_names o') D1) m = Some ds'"
        "set ds' = set ds0 \<union> {r \<in> set (rule_names o'). \<not> starts_with ''@'' r}" by blast
      then show ?thesis using True Some set0 by (simp add: step depends_snoc) (auto simp: m_def)
    qed
  qed
qed

lemma dependencies_of:
  assumes "idx ps i = Some p"
  obtains ds where "obj_get (getParameterDependencies ps) (np_name p) = Some ds" "set ds = depends ps (np_name p)"
proof -
  have "np_name p \<in> np_name ` set ps" using assms by (auto simp: idx_Some_iff)
  then have "obj_get (getParameterDependencies ps) (np_name p) \<noteq> None" using dependencies_get by blast
  then show thesis using that dependencies_get [of ps "np_name p"] by auto
qed

subsection \<open>A dependency that does not exist\<close>

text \<open>Both kinds of step at once.\<close>

definition resolve_next :: "string \<Rightarrow> string list \<Rightarrow> nat \<Rightarrow> nat list \<Rightarrow> resolving \<Rightarrow> resolving" where
  "resolve_next name ds i rest st = (if ds = [] then resolve_plain name i rest st else resolve_dependent name ds i rest st)"

lemma resolve_next_fields [simp]:
  "rs_queue (resolve_next n ds i rest st) = rest @ replicate (length (missing (rs_resolved st) ds)) i"
  "rs_order (resolve_next n ds i rest st) = rs_order st @ [i]"
  "rs_resolved (resolve_next n ds i rest st) = rs_resolved st @ [n]"
  "rs_iterations (resolve_next n ds i rest st) = rs_iterations st + 1"
  by (simp_all add: resolve_next_def resolve_plain_def resolve_dependent_def Let_def missing_def)

definition gives_up :: "node_property list \<Rightarrow> string list \<Rightarrow> resolving \<Rightarrow> bool" where
  "gives_up ps ds st \<longleftrightarrow> ds \<noteq> [] \<and> rs_iterations st > rs_lastReduction st + int (length ps)"

lemma resolve_loop_step:
  assumes "rs_queue st = i # rest" "idx ps i = Some p" "obj_get deps (np_name p) = Some ds"
  shows "resolve_loop ps deps st =
    (if gives_up ps ds (resolve_next (np_name p) ds i rest st) then Inl dependencies_unresolved
     else resolve_loop ps deps (resolve_next (np_name p) ds i rest st))"
  using assms by (subst resolve_loop.simps) (auto simp: gives_up_def resolve_next_def)

lemma resolve_loop_induct:
  assumes "\<And>st. (\<And>i rest p ds. rs_queue st = i # rest \<Longrightarrow> idx ps i = Some p \<Longrightarrow> obj_get deps (np_name p) = Some ds \<Longrightarrow>
      \<not> gives_up ps ds (resolve_next (np_name p) ds i rest st) \<Longrightarrow> P (resolve_next (np_name p) ds i rest st)) \<Longrightarrow> P st"
  shows "P st"
proof (induction st rule: wf_induct_rule [OF wf_inv_image [OF wf_measures [of resolve_measures], of "\<lambda>st. (ps, deps, st)"]])
  case (1 st)
  show ?case
  proof (rule assms)
    fix i rest p ds
    assume "rs_queue st = i # rest" "idx ps i = Some p" "obj_get deps (np_name p) = Some ds"
      "\<not> gives_up ps ds (resolve_next (np_name p) ds i rest st)"
    then have "((ps, deps, resolve_next (np_name p) ds i rest st), (ps, deps, st)) \<in> measures resolve_measures"
      using plain_decreases dependent_decreases by (auto simp: resolve_next_def gives_up_def)
    then show "P (resolve_next (np_name p) ds i rest st)" using 1 by simp
  qed
qed

lemma resolve_head:
  assumes "rs_queue st = i # rest" "resolve_loop ps deps st = Inr order"
  obtains p ds where "idx ps i = Some p" "obj_get deps (np_name p) = Some ds"
  using assms by (subst (asm) resolve_loop.simps) (auto split: option.splits)

text \<open>An invariant of the steps holds when the loop returns.\<close>

lemma resolve_loop_invariant:
  assumes "\<And>st i rest p ds. I st \<Longrightarrow> rs_queue st = i # rest \<Longrightarrow> idx ps i = Some p \<Longrightarrow> obj_get deps (np_name p) = Some ds \<Longrightarrow>
      I (resolve_next (np_name p) ds i rest st)"
  shows "resolve_loop ps deps st = Inr order \<Longrightarrow> I st \<Longrightarrow> \<exists>st'. I st' \<and> rs_queue st' = [] \<and> rs_order st' = order"
proof (induction st rule: resolve_loop_induct [where ps = ps and deps = deps])
  case (1 st)
  show ?case
  proof (cases "rs_queue st")
    case Nil
    then have "rs_order st = order" using "1.prems"(1) by (subst (asm) resolve_loop.simps) simp
    then show ?thesis using Nil "1.prems"(2) by blast
  next
    case (Cons i rest)
    obtain p ds where pd: "idx ps i = Some p" "obj_get deps (np_name p) = Some ds" by (rule resolve_head [OF Cons "1.prems"(1)])
    note step = resolve_loop_step [OF Cons pd]
    then have "\<not> gives_up ps ds (resolve_next (np_name p) ds i rest st)"
      and "resolve_loop ps deps (resolve_next (np_name p) ds i rest st) = Inr order"
      using "1.prems"(1) by (auto split: if_splits)
    then show ?thesis using "1.IH" [OF Cons pd] assms [OF "1.prems"(2) Cons pd] by blast
  qed
qed

subsection \<open>When the loop throws\<close>

text \<open>A parameter that a property depends on, and that is neither a property nor one of the root level.\<close>

definition unknown :: "node_property list \<Rightarrow> string \<Rightarrow> bool" where
  "unknown ps d \<longleftrightarrow> d \<notin> np_name ` set ps \<and> \<not> starts_with ''/'' d"

lemma resolve_fails:
  assumes "idx ps b = Some p" "obj_get deps (np_name p) = Some ds" "d \<in> set ds" "unknown ps d"
  shows "b \<in> set (rs_queue st) \<Longrightarrow> set (rs_resolved st) \<subseteq> np_name ` set ps \<Longrightarrow> resolve_loop ps deps st \<noteq> Inr order"
proof (rule notI)
  assume st: "b \<in> set (rs_queue st)" "set (rs_resolved st) \<subseteq> np_name ` set ps" and run: "resolve_loop ps deps st = Inr order"
  let ?I = "\<lambda>st :: resolving. b \<in> set (rs_queue st) \<and> set (rs_resolved st) \<subseteq> np_name ` set ps"
  have "\<exists>st'. ?I st' \<and> rs_queue st' = [] \<and> rs_order st' = order"
  proof (rule resolve_loop_invariant [where I = ?I, OF _ run])
    fix st i rest p' ds'
    assume I: "?I st" and q: "rs_queue st = i # rest" and p': "idx ps i = Some p'" "obj_get deps (np_name p') = Some ds'"
    have "b \<in> set (rs_queue (resolve_next (np_name p') ds' i rest st))"
    proof (cases "b = i")
      case True
      then have "d \<in> set (missing (rs_resolved st) ds')"
        using assms p' I by (auto simp: missing_def unknown_def)
      then have "0 < length (missing (rs_resolved st) ds')" by (rule length_pos_if_in_set)
      then show ?thesis using True by simp
    qed (use I q in simp)
    then show "?I (resolve_next (np_name p') ds' i rest st)" using I p' by (auto simp: idx_Some_iff)
  qed (use st in blast)
  then show False by auto
qed

subsection \<open>When it returns\<close>

lemma resolve_next_reduces:
  assumes "rs_queue st = i # rest" "length (rs_queue st) \<le> rs_lastLength st" "missing (rs_resolved st) ds = []"
  shows "\<not> gives_up ps ds (resolve_next n ds i rest st)"
    and "length (rs_queue (resolve_next n ds i rest st)) \<le> rs_lastLength (resolve_next n ds i rest st)"
  using assms by (auto simp: gives_up_def resolve_next_def resolve_plain_def resolve_dependent_def Let_def)

text \<open>Once all names have been met, every step takes a property out of the queue.\<close>

lemma resolve_second_phase:
  assumes known: "\<And>i p. idx ps i = Some p \<Longrightarrow> \<exists>ds. obj_get deps (np_name p) = Some ds \<and> (\<forall>d \<in> set ds. \<not> unknown ps d)"
  shows "set (rs_queue st) \<subseteq> {..<length ps} \<Longrightarrow> np_name ` set ps \<subseteq> set (rs_resolved st) \<Longrightarrow>
    length (rs_queue st) \<le> rs_lastLength st \<Longrightarrow> \<exists>order. resolve_loop ps deps st = Inr order"
proof (induction st rule: resolve_loop_induct [where ps = ps and deps = deps])
  case (1 st)
  show ?case
  proof (cases "rs_queue st")
    case Nil
    then show ?thesis by (subst resolve_loop.simps) simp
  next
    case (Cons i rest)
    then have "idx ps i = Some (ps ! i)" using "1.prems"(1) by (simp add: idx_def)
    then obtain p ds where p: "idx ps i = Some p" "obj_get deps (np_name p) = Some ds" and ds: "\<forall>d \<in> set ds. \<not> unknown ps d"
      using known by blast
    have miss: "missing (rs_resolved st) ds = []" using ds "1.prems"(2) by (auto simp: missing_def unknown_def filter_empty_conv)
    note go = resolve_next_reduces(1) [where ps = ps and n = "np_name p", OF Cons "1.prems"(3) miss]
      resolve_next_reduces(2) [where n = "np_name p", OF Cons "1.prems"(3) miss]
    have "\<exists>order. resolve_loop ps deps (resolve_next (np_name p) ds i rest st) = Inr order"
      using "1.IH" [OF Cons p go(1)] go(2) "1.prems" Cons miss by auto
    then show ?thesis using resolve_loop_step [OF Cons p] go(1) by simp
  qed
qed

text \<open>Before that the properties are met in the order of declaration.\<close>

lemma resolve_first_phase:
  assumes known: "\<And>i p. idx ps i = Some p \<Longrightarrow> \<exists>ds. obj_get deps (np_name p) = Some ds \<and> (\<forall>d \<in> set ds. \<not> unknown ps d) \<and> np_name p \<notin> set ds"
  shows "k \<le> length ps \<Longrightarrow> rs_queue st = [k..<length ps] @ extra \<Longrightarrow> set extra \<subseteq> {..<length ps} \<Longrightarrow>
    np_name ` set (take k ps) \<subseteq> set (rs_resolved st) \<Longrightarrow> length (rs_queue st) \<le> rs_lastLength st \<Longrightarrow>
    rs_iterations st = int k \<Longrightarrow> -1 \<le> rs_lastReduction st \<Longrightarrow> \<exists>order. resolve_loop ps deps st = Inr order"
proof (induction "length ps - k" arbitrary: k st extra)
  case 0
  have "set (rs_queue st) \<subseteq> {..<length ps}" "np_name ` set ps \<subseteq> set (rs_resolved st)"
    using 0 by auto
  with resolve_second_phase [of ps deps st] known "0.prems"(5) show ?case by blast
next
  case (Suc m)
  then have k: "k < length ps" by simp
  let ?rest = "[Suc k..<length ps] @ extra"
  have q: "rs_queue st = k # ?rest" using Suc.prems(2) k by (simp add: upt_conv_Cons)
  have "idx ps k = Some (ps ! k)" using k by (simp add: idx_def)
  then obtain p ds where p: "idx ps k = Some p" "obj_get deps (np_name p) = Some ds" and ds: "\<forall>d \<in> set ds. \<not> unknown ps d" "np_name p \<notin> set ds"
    using known by blast
  have pk: "p = ps ! k" using p(1) by (simp add: idx_Some_iff)
  let ?st = "resolve_next (np_name p) ds k ?rest st"
  have len: "length (rs_queue ?st) \<le> rs_lastLength ?st"
    using Suc.prems(5) q by (auto simp: resolve_next_def resolve_plain_def resolve_dependent_def Let_def)
  have red: "-1 \<le> rs_lastReduction ?st"
    using Suc.prems(6,7) by (auto simp: resolve_next_def resolve_plain_def resolve_dependent_def Let_def)
  have go: "\<not> gives_up ps ds ?st"
  proof (cases "Suc k = length ps")
    case True
    have "d \<in> set (rs_resolved st) \<or> starts_with ''/'' d" if "d \<in> set ds" for d
    proof -
      have "set ps = insert p (set (take k ps))"
        using True pk by (metis insert_is_Un list.simps(15) set_append take_Suc_conv_app_nth take_all_iff k order_refl Un_commute empty_set)
      then show ?thesis using ds that Suc.prems(4) by (auto simp: unknown_def)
    qed
    then have "missing (rs_resolved st) ds = []" by (auto simp: missing_def filter_empty_conv)
    then show ?thesis by (rule resolve_next_reduces(1) [OF q Suc.prems(5)])
  next
    case False
    then show ?thesis using k red Suc.prems(6) by (simp add: gives_up_def)
  qed
  have "take (Suc k) ps = take k ps @ [p]" using k pk by (simp add: take_Suc_conv_app_nth)
  then have names: "np_name ` set (take (Suc k) ps) \<subseteq> set (rs_resolved ?st)" using Suc.prems(4) by auto
  have "\<exists>order. resolve_loop ps deps ?st = Inr order"
  proof (rule Suc.hyps(1) [of "Suc k" ?st "extra @ replicate (length (missing (rs_resolved st) ds)) k"])
    show "m = length ps - Suc k" using Suc.hyps(2) by simp
    show "Suc k \<le> length ps" using k by simp
    show "set (extra @ replicate (length (missing (rs_resolved st) ds)) k) \<subseteq> {..<length ps}" using Suc.prems(3) k by auto
    show "rs_iterations ?st = int (Suc k)" using Suc.prems(6) by simp
  qed (use names len red in simp_all)
  then show ?case using resolve_loop_step [OF q p] go by simp
qed

subsection \<open>What the order is good for\<close>

definition name_at :: "node_property list \<Rightarrow> nat \<Rightarrow> string" where
  "name_at ps i = np_name (ps ! i)"

text \<open>The last occurrence of a property comes after all that it depends on.\<close>

definition after_dependencies :: "node_property list \<Rightarrow> nat list \<Rightarrow> nat \<Rightarrow> bool" where
  "after_dependencies ps order i \<longleftrightarrow> (\<exists>xs ys. order = xs @ i # ys \<and> i \<notin> set ys \<and>
     (\<forall>d \<in> depends ps (name_at ps i). starts_with ''/'' d \<or> d \<in> name_at ps ` set xs))"

lemma after_dependencies_snoc: "after_dependencies ps order j \<Longrightarrow> j \<noteq> i \<Longrightarrow> after_dependencies ps (order @ [i]) j"
  unfolding after_dependencies_def by (metis append_Cons append_assoc set_ConsD set_append UnE empty_iff empty_set rotate1.simps(2) set_rotate1)

definition resolving_ok :: "node_property list \<Rightarrow> resolving \<Rightarrow> bool" where
  "resolving_ok ps st \<longleftrightarrow> set (rs_queue st) \<union> set (rs_order st) = {..<length ps}
     \<and> take (length ps) (rs_order st @ rs_queue st) = [0..<length ps]
     \<and> set (rs_resolved st) = name_at ps ` set (rs_order st)
     \<and> (\<forall>j \<in> set (rs_order st). j \<in> set (rs_queue st) \<or> after_dependencies ps (rs_order st) j)"

lemma resolving_ok_next:
  assumes ok: "resolving_ok ps st" and q: "rs_queue st = i # rest" and p: "idx ps i = Some p"
    and ds: "obj_get (getParameterDependencies ps) (np_name p) = Some ds"
  shows "resolving_ok ps (resolve_next (np_name p) ds i rest st)"
proof -
  let ?st = "resolve_next (np_name p) ds i rest st" and ?more = "replicate (length (missing (rs_resolved st) ds)) i"
  have i: "i < length ps" "name_at ps i = np_name p" using p by (auto simp: idx_Some_iff name_at_def)
  have set_ds: "set ds = depends ps (np_name p)" using dependencies_get ds by blast
  have "set (rs_queue ?st) \<union> set (rs_order ?st) = {..<length ps}"
    using ok q i(1) by (auto simp: resolving_ok_def)
  moreover have "take (length ps) (rs_order ?st @ rs_queue ?st) = [0..<length ps]"
  proof -
    have eq: "rs_order ?st @ rs_queue ?st = (rs_order st @ rs_queue st) @ ?more" using q by simp
    have "length ps \<le> length (rs_order st @ rs_queue st)"
      using ok unfolding resolving_ok_def by (metis length_take length_upt diff_zero min.cobounded1)
    then have "take (length ps) ((rs_order st @ rs_queue st) @ ?more) = take (length ps) (rs_order st @ rs_queue st)"
      by (simp only: take_append) simp
    then show ?thesis using ok unfolding eq resolving_ok_def by simp
  qed
  moreover have "set (rs_resolved ?st) = name_at ps ` set (rs_order ?st)"
    using ok i(2) by (auto simp: resolving_ok_def)
  moreover have "j \<in> set (rs_queue ?st) \<or> after_dependencies ps (rs_order ?st) j" if "j \<in> set (rs_order ?st)" for j
  proof (cases "j = i")
    case True
    show ?thesis
    proof (cases "missing (rs_resolved st) ds = []")
      case True
      then have "\<forall>d \<in> depends ps (name_at ps i). starts_with ''/'' d \<or> d \<in> name_at ps ` set (rs_order st)"
        using ok i(2) unfolding set_ds [symmetric] i(2) by (auto simp: missing_def filter_empty_conv resolving_ok_def set_ds)
      then have "after_dependencies ps (rs_order st @ [i]) i" unfolding after_dependencies_def by fastforce
      then show ?thesis using \<open>j = i\<close> by simp
    qed (use True in simp)
  next
    case False
    then have "j \<in> set (rs_order st)" using that by simp
    then show ?thesis using ok q False after_dependencies_snoc [of ps "rs_order st" j i] by (auto simp: resolving_ok_def)
  qed
  ultimately show ?thesis unfolding resolving_ok_def by blast
qed

lemma resolve_order_sound':
  assumes "getParameterResolveOrder ps (getParameterDependencies ps) = Inr order"
  shows "set order = {..<length ps} \<and> take (length ps) order = [0..<length ps] \<and> (\<forall>i < length ps. after_dependencies ps order i)"
proof -
  let ?st = "\<lparr>rs_queue = [0..<length ps], rs_order = [], rs_resolved = [], rs_lastLength = length ps,
    rs_lastReduction = -1, rs_iterations = 0\<rparr>"
  have "resolving_ok ps ?st" by (auto simp: resolving_ok_def)
  from resolve_loop_invariant [where I = "resolving_ok ps", OF resolving_ok_next assms [unfolded getParameterResolveOrder_def] this]
  obtain st' where "resolving_ok ps st'" "rs_queue st' = []" "rs_order st' = order" by blast
  then show ?thesis by (auto simp: resolving_ok_def)
qed

text \<open>
  C28: When the order of the parameters is computed, it consists of the properties and begins with all of them in the
  order of declaration, whatever they depend on: the \<open>continue\<close> of the inner loop over the dependencies does not keep
  a property from being added at once, against the comments there (still missing so try to add again later; all
  dependencies got found so add). The last occurrence of each property comes after an occurrence of each parameter it
  depends on, references to the root, with a leading slash, apart.
\<close>

theorem resolve_order_sound:
  assumes "getParameterResolveOrder ps (getParameterDependencies ps) = Inr order"
  shows "set order = {..<length ps} \<and> take (length ps) order = [0..<length ps] \<and> (\<forall>i < length ps. after_dependencies ps order i)"
  by (rule resolve_order_sound' [OF assms])

text \<open>
  C29: The computation of the order always ends. It throws when a property depends on a parameter that does not
  exist, and it returns when all exist and none depends on itself, also when they depend on each other.
\<close>

theorem resolve_order_exists:
  "((\<exists>p \<in> set ps. \<exists>d \<in> depends ps (np_name p). unknown ps d) \<longrightarrow>
      (\<exists>e. getParameterResolveOrder ps (getParameterDependencies ps) = Inl e))
   \<and> ((\<forall>p \<in> set ps. \<forall>d \<in> depends ps (np_name p). \<not> unknown ps d \<and> d \<noteq> np_name p) \<longrightarrow>
      (\<exists>order. getParameterResolveOrder ps (getParameterDependencies ps) = Inr order))"
proof (intro conjI impI)
  assume "\<exists>p \<in> set ps. \<exists>d \<in> depends ps (np_name p). unknown ps d"
  then obtain p d where p: "p \<in> set ps" "d \<in> depends ps (np_name p)" "unknown ps d" by blast
  then obtain i where i: "i < length ps" "idx ps i = Some p" by (auto simp: in_set_conv_nth idx_def)
  obtain ds where ds: "obj_get (getParameterDependencies ps) (np_name p) = Some ds" "set ds = depends ps (np_name p)"
    by (rule dependencies_of [OF i(2)])
  have "getParameterResolveOrder ps (getParameterDependencies ps) \<noteq> Inr order" for order
    unfolding getParameterResolveOrder_def
    by (rule resolve_fails [OF i(2) ds(1) _ p(3)]) (use ds(2) p(2) i(1) in auto)
  then show "\<exists>e. getParameterResolveOrder ps (getParameterDependencies ps) = Inl e" by (metis sum.exhaust)
next
  assume ok: "\<forall>p \<in> set ps. \<forall>d \<in> depends ps (np_name p). \<not> unknown ps d \<and> d \<noteq> np_name p"
  have known: "\<exists>ds. obj_get (getParameterDependencies ps) (np_name p) = Some ds \<and> (\<forall>d \<in> set ds. \<not> unknown ps d) \<and> np_name p \<notin> set ds"
    if p: "idx ps i = Some p" for i p
  proof -
    have "p \<in> set ps" using p by (auto simp: idx_Some_iff)
    moreover obtain ds where "obj_get (getParameterDependencies ps) (np_name p) = Some ds" "set ds = depends ps (np_name p)"
      by (rule dependencies_of [OF p])
    ultimately show ?thesis using ok by auto
  qed
  show "\<exists>order. getParameterResolveOrder ps (getParameterDependencies ps) = Inr order"
    unfolding getParameterResolveOrder_def
    by (rule resolve_first_phase [OF known, where k = 0 and extra = "[]"]) auto
qed

end
