(* ===== verification/NodeParametersFacts.thy ===== *)
theory NodeParametersFacts
  imports NodeParameters NodeResolveFacts
begin

section \<open>Storing parameters without their defaults\<close>

text \<open>
  The editor stores the parameters of a node without the values that are defaults, and fills the defaults in when it
  loads them. Values that loading does not change survive that, for properties that are simple or
  collections. The proof looks at a parameter through its \<open>outcome\<close>, the value it is given, which does not
  depend on the state of the loop.
\<close>

subsection \<open>The outcome of a parameter\<close>

definition simple_outcome :: "param_env \<Rightarrow> node_property \<Rightarrow> json option \<Rightarrow> bool \<Rightarrow> prop_type option \<Rightarrow> json option" where
  "simple_outcome env p v rd pt =
     (if rd then Some (value_or_default p v)
      else case v of None \<Rightarrow> None | Some x \<Rightarrow> if differs_from_default env p pt x then Some x else None)"

definition collection_outcome :: "resolve_nested \<Rightarrow> node_property \<Rightarrow> json option \<Rightarrow> params \<Rightarrow> js_error + json option" where
  "collection_outcome rec p v rootv =
     (if pi_multipleValues (np_info p) = Some True then
        Inr (Some (case v of Some x \<Rightarrow> x | None \<Rightarrow> (case np_default p of JArr xs \<Rightarrow> JArr xs | _ \<Rightarrow> JArr [])))
      else case v of
             None \<Rightarrow> Inr (Some (np_default p))
           | Some x \<Rightarrow>
               (case collection_properties p of
                  None \<Rightarrow> Inl TypeError
                | Some ps \<Rightarrow> bindE (rec ps (as_params (Some x)) PCollection rootv) (\<lambda>r. Inr (Some (JObj r)))))"

definition outcome ::
  "param_env \<Rightarrow> node_ctx \<Rightarrow> resolve_nested \<Rightarrow> bool \<Rightarrow> bool \<Rightarrow> prop_type option \<Rightarrow> params option \<Rightarrow> params \<Rightarrow> json option \<Rightarrow>
   node_property \<Rightarrow> js_error + json option" where
  "outcome env ctx rec rd simpleOnly pt check rootv v p =
     (if v = None \<and> (\<not> rd \<or> pt = Some PCollection) then Inr None
      else bindE (case check of None \<Rightarrow> Inr True | Some c \<Rightarrow> displayParameter env ctx c (np_display p) (Some rootv)) (\<lambda>show.
        if \<not> show then Inr None
        else if np_type p = PCollection then (if simpleOnly then Inr None else collection_outcome rec p v rootv)
        else Inr (simple_outcome env p v rd pt)))"

definition give :: "string \<Rightarrow> json option \<Rightarrow> gnp_state \<Rightarrow> gnp_state" where
  "give name x st = (case x of None \<Rightarrow> st | Some x \<Rightarrow> put_param name x st)"

lemma give_returned [simp]: "gs_returned (give n x st) = gs_returned st"
  by (simp add: give_def put_param_def copy_full_def split: option.split)

lemma give_params: "obj_get (gs_params (give n x st)) m = (if m = n \<and> x \<noteq> None then x else obj_get (gs_params st) m)"
  by (auto simp: give_def put_param_def copy_full_def obj_get_set split: option.split)

text \<open>Properties that are no fixed collections, with distinct names.\<close>

definition plain_properties :: "node_property list \<Rightarrow> bool" where
  "plain_properties props \<longleftrightarrow> distinct (map np_name props) \<and> (\<forall>p \<in> set props. np_type p \<noteq> PFixedCollection)"

lemma bindE_assoc: "bindE (bindE m f) g = bindE m (\<lambda>x. bindE (f x) g)"
  by (cases m) simp_all

lemma not_duplicate:
  assumes "distinct (map np_name props)" "p \<in> set props"
  shows "length (filter (\<lambda>q. np_name q = np_name p) props) = 1"
  using assms
proof (induction props)
  case (Cons q props)
  then show ?case by (cases "p = q") (auto simp: filter_empty_conv image_iff)
qed simp

lemma step_outcome:
  assumes "plain_properties props" "idx props i = Some p" "gs_returned st = None"
    and "\<not> rnd \<Longrightarrow> shown = Some c" "rnd \<Longrightarrow> simpleOnly"
  shows "parameter_step env ctx rec props (Some vals) rd rnd simpleOnly pt shown r i st =
    bindE (outcome env ctx rec rd simpleOnly pt (if rnd then None else shown) (case r of Some r \<Rightarrow> r | None \<Rightarrow> c)
             (obj_get vals (np_name p)) p)
      (\<lambda>x. Inr (give (np_name p) x st))"
proof -
  have p: "p \<in> set props" "np_type p \<noteq> PFixedCollection" "distinct (map np_name props)"
    using assms(1,2) by (auto simp: plain_properties_def idx_Some_iff)
  note one = not_duplicate [OF p(3) p(1)]
  let ?v = "obj_get vals (np_name p)"
  have simple: "simple_parameter env p ?v rd pt st = give (np_name p) (simple_outcome env p ?v rd pt) st"
    by (simp add: simple_parameter_def simple_outcome_def give_def split: option.split)
  have coll: "collection_parameter rec p ?v rd rootv st = bindE (collection_outcome rec p ?v rootv) (\<lambda>x. Inr (give (np_name p) x st))"
    if "?v \<noteq> None \<or> rd" for rootv
    using that by (cases ?v; cases "collection_properties p")
      (simp_all add: collection_parameter_def collection_outcome_def give_def Let_def bindE_assoc)
  show ?thesis
  proof (cases "?v = None \<and> (\<not> rd \<or> pt = Some PCollection)")
    case True
    then show ?thesis using assms(2,3) by (simp add: parameter_step_def outcome_def give_def)
  next
    case False
    have give_None: "give (np_name p) None st = st" by (simp add: give_def)
    let ?root = "case r of Some r \<Rightarrow> r | None \<Rightarrow> c"
    have coll': "collection_parameter rec p ?v rd rootv st = bindE (collection_outcome rec p ?v rootv) (\<lambda>x. Inr (give (np_name p) x st))" for rootv
      using coll [of rootv] False by auto
    show ?thesis
    proof (cases rnd)
      case True
      then show ?thesis using assms(2,3,5) p(2) one False
        by (auto simp: parameter_step_def outcome_def Let_def simple give_None)
    next
      case nrnd: False
      show ?thesis
        by (cases "displayParameter env ctx c (np_display p) (Some ?root)")
          (use assms(2,3,4) p(2) one False nrnd in \<open>auto simp: parameter_step_def outcome_def Let_def simple give_None coll'\<close>)
    qed
  qed
qed

subsection \<open>The loop over the outcomes\<close>

definition start :: gnp_state where
  "start = \<lparr>gs_params = [], gs_full = [], gs_returned = None\<rparr>"

lemma fold_gives:
  assumes "\<And>i st. i \<in> set order \<Longrightarrow> gs_returned st = None \<Longrightarrow> f i st = bindE (oc i) (\<lambda>x. Inr (give (nm i) x st))"
  shows "gs_returned st = None \<Longrightarrow> foldE f order st = Inr st' \<Longrightarrow>
    gs_returned st' = None \<and> (\<forall>i \<in> set order. \<exists>y. oc i = Inr y) \<and>
    (\<forall>k. (\<forall>i \<in> set order. nm i = nm k \<longrightarrow> i = k) \<longrightarrow>
       obj_get (gs_params st') (nm k) = (if k \<in> set order \<and> oc k \<noteq> Inr None then projr (oc k) else obj_get (gs_params st) (nm k)))"
  using assms
proof (induction order arbitrary: st)
  case (Cons i order)
  have "f i st = bindE (oc i) (\<lambda>x. Inr (give (nm i) x st))" using Cons.prems(1,3) by simp
  with Cons.prems(2) obtain y where y: "oc i = Inr y" "foldE f order (give (nm i) y st) = Inr st'"
    by (auto simp: bindE_eq_Inr)
  from Cons.IH [OF _ y(2)] Cons.prems(1,3) have IH: "gs_returned st' = None" "\<forall>i \<in> set order. \<exists>y. oc i = Inr y"
    "\<And>k. (\<forall>i \<in> set order. nm i = nm k \<longrightarrow> i = k) \<Longrightarrow> obj_get (gs_params st') (nm k) =
       (if k \<in> set order \<and> oc k \<noteq> Inr None then projr (oc k) else obj_get (gs_params (give (nm i) y st)) (nm k))"
    by auto
  show ?case
  proof (intro conjI allI impI)
    fix k assume k: "\<forall>j \<in> set (i # order). nm j = nm k \<longrightarrow> j = k"
    show "obj_get (gs_params st') (nm k) =
      (if k \<in> set (i # order) \<and> oc k \<noteq> Inr None then projr (oc k) else obj_get (gs_params st) (nm k))"
      using IH(3) [of k] k y(1) by (auto simp: give_params)
  qed (use IH y(1) in auto)
qed simp

lemma fold_returned:
  "foldE (\<lambda>i st. bindE (oc i) (\<lambda>x. Inr (give (nm i) x st))) order start = Inr st \<Longrightarrow> gs_returned st = None"
  using fold_gives [where oc = oc and nm = nm and order = order and st = start and st' = st, OF refl] by (simp add: start_def)

lemma fold_same:
  assumes "\<And>i st. i \<in> set order \<Longrightarrow> gs_returned st = None \<Longrightarrow> f i st = bindE (oc i) (\<lambda>x. Inr (give (nm i) x st))"
    and "\<And>i st. i \<in> set order \<Longrightarrow> gs_returned st = None \<Longrightarrow> g i st = bindE (oc i) (\<lambda>x. Inr (give (nm i) x st))"
  shows "gs_returned st = None \<Longrightarrow> foldE f order st = foldE g order st"
  using assms
proof (induction order arbitrary: st)
  case (Cons i order)
  have "f i st = g i st" "g i st = bindE (oc i) (\<lambda>x. Inr (give (nm i) x st))" using Cons.prems by simp_all
  then show ?case using Cons.IH [OF _ Cons.prems(2,3)] Cons.prems(1) by (cases "oc i") simp_all
qed simp

subsection \<open>Loading, storing, and checking the display\<close>

definition nested_options :: "params \<Rightarrow> prop_type \<Rightarrow> gnp_options" where
  "nested_options rootv pt = \<lparr>go_onlySimpleTypes = False, go_dataIsResolved = False, go_nodeValuesRoot = Some rootv,
     go_parentType = Some pt, go_dependencies = None\<rparr>"

definition display_options_of :: "node_property list \<Rightarrow> gnp_options \<Rightarrow> gnp_options" where
  "display_options_of props opts = \<lparr>go_onlySimpleTypes = True, go_dataIsResolved = True,
     go_nodeValuesRoot = go_nodeValuesRoot opts, go_parentType = go_parentType opts,
     go_dependencies = Some (getParameterDependencies props)\<rparr>"

text \<open>Calls as they are made from outside and for collections.\<close>

definition outer_options :: "gnp_options \<Rightarrow> bool" where
  "outer_options opts \<longleftrightarrow> \<not> go_onlySimpleTypes opts \<and> \<not> go_dataIsResolved opts \<and> go_dependencies opts = None"

lemma outer_nested [simp]: "outer_options (nested_options rootv pt)" "outer_options no_options"
  by (simp_all add: outer_options_def nested_options_def no_options_def)

definition resolve_with :: "param_env \<Rightarrow> node_ctx \<Rightarrow> bool \<Rightarrow> resolve_nested" where
  "resolve_with env ctx rd ps nv pt rootv = getNodeParameters env ctx ps nv rd False (nested_options rootv pt)"

definition shown_values :: "param_env \<Rightarrow> node_ctx \<Rightarrow> node_property list \<Rightarrow> params \<Rightarrow> gnp_options \<Rightarrow> js_error + params" where
  "shown_values env ctx props vals opts = getNodeParameters env ctx props (Some vals) True True (display_options_of props opts)"

definition root_of :: "gnp_options \<Rightarrow> params \<Rightarrow> params" where
  "root_of opts c = (case go_nodeValuesRoot opts of Some r \<Rightarrow> r | None \<Rightarrow> c)"

definition outcome_of ::
  "param_env \<Rightarrow> node_ctx \<Rightarrow> bool \<Rightarrow> gnp_options \<Rightarrow> params \<Rightarrow> json option \<Rightarrow> node_property \<Rightarrow> js_error + json option" where
  "outcome_of env ctx rd opts c = outcome env ctx (resolve_with env ctx rd) rd False (go_parentType opts) (Some c) (root_of opts c)"

definition collect :: "node_property list \<Rightarrow> (node_property \<Rightarrow> js_error + json option) \<Rightarrow> js_error + gnp_state" where
  "collect props oc = bindE (getParameterResolveOrder props (getParameterDependencies props)) (\<lambda>order.
     foldE (\<lambda>i st. bindE (oc (props ! i)) (\<lambda>x. Inr (give (name_at props i) x st))) order start)"

lemma getNodeParameters_collect:
  assumes "outer_options opts" "plain_properties props"
  shows "getNodeParameters env ctx props (Some vals) rd False opts =
    bindE (shown_values env ctx props vals opts) (\<lambda>c.
      bindE (collect props (\<lambda>p. outcome_of env ctx rd opts c (obj_get vals (np_name p)) p)) (\<lambda>st. Inr (gs_params st)))"
proof -
  have fold: "bindE (foldE (parameter_step env ctx (resolve_with env ctx rd) props (Some vals) rd False False (go_parentType opts)
        (Some c) (go_nodeValuesRoot opts)) order start) (\<lambda>st. Inr (case gs_returned st of Some r \<Rightarrow> r | None \<Rightarrow> gs_params st))
    = bindE (foldE (\<lambda>i st. bindE (outcome_of env ctx rd opts c (obj_get vals (name_at props i)) (props ! i))
        (\<lambda>x. Inr (give (name_at props i) x st))) order start) (\<lambda>st. Inr (gs_params st))"
    if "getParameterResolveOrder props (getParameterDependencies props) = Inr order" for c order
  proof -
    have order: "set order = {..<length props}" using resolve_order_sound' [OF that] by blast
    let ?oc = "\<lambda>i. outcome_of env ctx rd opts c (obj_get vals (name_at props i)) (props ! i)"
    have step: "parameter_step env ctx (resolve_with env ctx rd) props (Some vals) rd False False (go_parentType opts)
        (Some c) (go_nodeValuesRoot opts) i st = bindE (?oc i) (\<lambda>x. Inr (give (name_at props i) x st))"
      if "i \<in> set order" "gs_returned st = None" for i st
      using step_outcome [OF assms(2) _ that(2), where i = i and p = "props ! i" and rnd = False and c = c and shown = "Some c" and simpleOnly = False]
        that(1) order by (simp add: idx_def outcome_of_def root_of_def name_at_def)
    have eq: "foldE (parameter_step env ctx (resolve_with env ctx rd) props (Some vals) rd False False (go_parentType opts)
        (Some c) (go_nodeValuesRoot opts)) order start = foldE (\<lambda>i st. bindE (?oc i) (\<lambda>x. Inr (give (name_at props i) x st))) order start"
      by (rule fold_same [where oc = ?oc and nm = "name_at props"]) (simp_all add: step start_def)
    show ?thesis
    proof (cases "foldE (\<lambda>i st. bindE (?oc i) (\<lambda>x. Inr (give (name_at props i) x st))) order start")
      case (Inr st)
      then have "gs_returned st = None" by (rule fold_returned)
      then show ?thesis using Inr by (simp add: eq)
    qed (simp add: eq)
  qed
  have unfold: "getNodeParameters env ctx props (Some vals) rd False opts =
    bindE (bindE (shown_values env ctx props vals opts) (\<lambda>d. Inr (Some d))) (\<lambda>shown.
      bindE (getParameterResolveOrder props (getParameterDependencies props)) (\<lambda>order.
        bindE (foldE (parameter_step env ctx (resolve_with env ctx rd) props (Some vals) rd False False (go_parentType opts)
            shown (go_nodeValuesRoot opts)) order start)
          (\<lambda>st. Inr (case gs_returned st of Some r \<Rightarrow> r | None \<Rightarrow> gs_params st))))"
    using assms(1)
    by (subst getNodeParameters.simps)
      (simp add: outer_options_def shown_values_def display_options_of_def start_def resolve_with_def [abs_def] nested_options_def)
  show ?thesis
    by (cases "shown_values env ctx props vals opts"; cases "getParameterResolveOrder props (getParameterDependencies props)")
      (simp_all add: unfold fold collect_def, simp_all add: name_at_def)
qed

lemma collect_values:
  assumes "plain_properties props" "collect props oc = Inr st" "p \<in> set props"
  shows "\<exists>y. oc p = Inr y \<and> obj_get (gs_params st) (np_name p) = y"
proof -
  from assms(2) obtain order where order: "getParameterResolveOrder props (getParameterDependencies props) = Inr order"
    and fold: "foldE (\<lambda>i st. bindE (oc (props ! i)) (\<lambda>x. Inr (give (name_at props i) x st))) order start = Inr st"
    by (auto simp: collect_def bindE_eq_Inr)
  have set_order: "set order = {..<length props}" using resolve_order_sound' [OF order] by blast
  obtain k where k: "k < length props" "props ! k = p" using assms(3) by (auto simp: in_set_conv_nth)
  have inj: "\<forall>i \<in> set order. name_at props i = name_at props k \<longrightarrow> i = k"
    using assms(1) k(1) unfolding set_order plain_properties_def name_at_def by (auto simp: distinct_conv_nth)
  from fold_gives [where oc = "\<lambda>i. oc (props ! i)" and nm = "name_at props", OF refl _ fold]
  have "\<forall>i \<in> set order. \<exists>y. oc (props ! i) = Inr y" and
    "obj_get (gs_params st) (name_at props k) = (if k \<in> set order \<and> oc (props ! k) \<noteq> Inr None then projr (oc (props ! k)) else None)"
    using inj by (auto simp: start_def)
  moreover from this(1) obtain y where "oc (props ! k) = Inr y" using k(1) set_order by blast
  ultimately show ?thesis using k set_order by (auto simp: name_at_def split: if_splits)
qed

lemma collect_cong:
  assumes "\<And>p. p \<in> set props \<Longrightarrow> oc p = oc' p"
  shows "collect props oc = collect props oc'"
proof (cases "getParameterResolveOrder props (getParameterDependencies props)")
  case (Inr order)
  then have "set order = {..<length props}" using resolve_order_sound' by blast
  then have "foldE (\<lambda>i st. bindE (oc (props ! i)) (\<lambda>x. Inr (give (name_at props i) x st))) order start
      = foldE (\<lambda>i st. bindE (oc' (props ! i)) (\<lambda>x. Inr (give (name_at props i) x st))) order start"
    using assms by (intro foldE_cong) auto
  then show ?thesis using Inr by (simp add: collect_def)
qed (simp add: collect_def)

text \<open>The values that the display is checked against depend on the simple parameters alone.\<close>

definition shown_outcome :: "prop_type option \<Rightarrow> json option \<Rightarrow> node_property \<Rightarrow> json option" where
  "shown_outcome pt v p =
     (if v = None \<and> pt = Some PCollection \<or> np_type p = PCollection then None else Some (value_or_default p v))"

lemma shown_values_collect:
  assumes "plain_properties props"
  shows "shown_values env ctx props vals opts =
    bindE (collect props (\<lambda>p. Inr (shown_outcome (go_parentType opts) (obj_get vals (np_name p)) p))) (\<lambda>st. Inr (gs_params st))"
proof (cases "getParameterResolveOrder props (getParameterDependencies props)")
  case (Inr order)
  let ?oc = "\<lambda>i. Inr (shown_outcome (go_parentType opts) (obj_get vals (name_at props i)) (props ! i)) :: js_error + json option"
  have set_order: "set order = {..<length props}" using resolve_order_sound' [OF Inr] by blast
  have oc: "outcome env ctx rec True True pt None rootv v p = Inr (shown_outcome pt v p)" for rec pt rootv v p
    by (simp add: outcome_def shown_outcome_def simple_outcome_def)
  have step: "parameter_step env ctx rec props (Some vals) True True True (go_parentType opts) None r i st
      = bindE (?oc i) (\<lambda>x. Inr (give (name_at props i) x st))"
    if "i \<in> set order" "gs_returned st = None" for rec r i st
    using step_outcome [OF assms _ that(2), where i = i and p = "props ! i" and rnd = True and simpleOnly = True and shown = None
        and env = env and ctx = ctx and rec = rec and vals = vals and rd = True and pt = "go_parentType opts" and r = r and c = "[]"]
      that(1) set_order by (simp add: idx_def oc name_at_def)
  have eq: "foldE (parameter_step env ctx rec props (Some vals) True True True (go_parentType opts) None r) order start
      = foldE (\<lambda>i st. bindE (?oc i) (\<lambda>x. Inr (give (name_at props i) x st))) order start" for rec r
    by (rule fold_same [where oc = ?oc and nm = "name_at props"]) (simp_all only: step, simp_all add: start_def)
  let ?F = "foldE (\<lambda>i st. bindE (?oc i) (\<lambda>x. Inr (give (name_at props i) x st))) order start"
  let ?rec = "\<lambda>ps nv pt rootv. getNodeParameters env ctx ps nv True True (nested_options rootv pt)"
  have "shown_values env ctx props vals opts =
      bindE (foldE (parameter_step env ctx ?rec props (Some vals) True True True (go_parentType opts) None (go_nodeValuesRoot opts)) order start)
        (\<lambda>st. Inr (case gs_returned st of Some r \<Rightarrow> r | None \<Rightarrow> gs_params st))"
    unfolding shown_values_def
    by (subst getNodeParameters.simps)
      (simp add: display_options_of_def start_def Inr nested_options_def)
  then have unfold: "shown_values env ctx props vals opts =
      bindE ?F (\<lambda>st. Inr (case gs_returned st of Some r \<Rightarrow> r | None \<Rightarrow> gs_params st))"
    unfolding eq .
  have "bindE ?F (\<lambda>st. Inr (case gs_returned st of Some r \<Rightarrow> r | None \<Rightarrow> gs_params st)) = bindE ?F (\<lambda>st. Inr (gs_params st))"
  proof (intro bindE_cong refl)
    fix st assume "?F = Inr st"
    then have "gs_returned st = None" by (rule fold_returned)
    then show "Inr (case gs_returned st of Some r \<Rightarrow> r | None \<Rightarrow> gs_params st) = (Inr (gs_params st) :: js_error + params)" by simp
  qed
  then show ?thesis unfolding unfold by (simp add: collect_def Inr name_at_def)
next
  case (Inl e)
  then show ?thesis unfolding shown_values_def
    by (subst getNodeParameters.simps) (simp add: display_options_of_def collect_def)
qed

subsection \<open>What survives\<close>

text \<open>
  A list of properties and values for which storing loses nothing: the properties are plain, a value that counts as equal
  to its default is the default, to the order of its keys, the default of a resource locator that is a value has its
  marker, and the same holds inside collections.
\<close>

definition default_ok :: "param_env \<Rightarrow> node_property \<Rightarrow> json option \<Rightarrow> bool" where
  "default_ok env p v \<longleftrightarrow>
     (case v of Some x \<Rightarrow> is_object x \<and> pe_isEqual env (Some x) (np_default p) \<longrightarrow> x = np_default p | None \<Rightarrow> True)
     \<and> (np_type p = PResourceLocator \<and> is_object (np_default p) \<and> v = Some (np_default p)
        \<longrightarrow> spread_rl (np_default p) = np_default p)"

function storable :: "param_env \<Rightarrow> node_property list \<Rightarrow> params \<Rightarrow> bool" where
  "storable env props vals \<longleftrightarrow> plain_properties props \<and> list_all (\<lambda>p.
     default_ok env p (obj_get vals (np_name p)) \<and>
     (case collection_properties p of
        None \<Rightarrow> True
      | Some ps \<Rightarrow> (case obj_get vals (np_name p) of Some (JObj kvs) \<Rightarrow> storable env ps kvs | _ \<Rightarrow> True))) props"
  by pat_completeness auto
termination
  by (relation "measure (\<lambda>(env, props, vals). size_list size props)") (simp_all add: size_nested nested_def)

declare storable.simps [simp del]

lemma omitted_default:
  assumes "default_ok env p (Some x)" "\<not> differs_from_default env p pt x"
  shows "value_or_default p None = x" "pt \<noteq> Some PCollection"
proof -
  from assms(2) have pt: "pt \<noteq> Some PCollection" and "x = np_default p \<or> is_object x \<and> pe_isEqual env (Some x) (np_default p)"
    by (auto simp: differs_from_default_def)
  with assms(1) have "x = np_default p" by (auto simp: default_ok_def)
  with assms(1) show "value_or_default p None = x" by (auto simp: default_ok_def value_or_default_def)
  show "pt \<noteq> Some PCollection" by (fact pt)
qed

text \<open>A parameter that loading leaves as it is.\<close>

lemma loaded_shown:
  assumes "outcome_of env ctx True opts c (Some x) p = Inr (Some x)"
  shows "displayParameter env ctx c (np_display p) (Some (root_of opts c)) = Inr True"
  using assms by (cases "displayParameter env ctx c (np_display p) (Some (root_of opts c))")
    (auto simp: outcome_of_def outcome_def split: if_splits)

lemma stored_simple:
  assumes "np_type p \<noteq> PCollection" "default_ok env p (Some x)"
    and "outcome_of env ctx True opts c (Some x) p = Inr (Some x)" "outcome_of env ctx False opts c (Some x) p = Inr y"
  shows "y = Some x \<or> y = None \<and> value_or_default p None = x \<and> go_parentType opts \<noteq> Some PCollection"
  using assms(1,4) loaded_shown [OF assms(3)] omitted_default [OF assms(2), of "go_parentType opts"]
  by (auto simp: outcome_of_def outcome_def simple_outcome_def split: if_splits)

lemma simple_value:
  assumes "np_type p \<noteq> PCollection" "outcome_of env ctx True opts c (Some x) p = Inr (Some x)"
  shows "value_or_default p (Some x) = x"
  using assms loaded_shown [OF assms(2)] by (simp add: outcome_of_def outcome_def simple_outcome_def)

lemma stored_none: "outcome_of env ctx False opts c None p = Inr None"
  by (simp add: outcome_of_def outcome_def)

lemma stored_shown:
  assumes "default_ok env p v"
    and "outcome_of env ctx True opts c v p = Inr v" "outcome_of env ctx False opts c v p = Inr y"
  shows "shown_outcome (go_parentType opts) y p = shown_outcome (go_parentType opts) v p"
proof (cases v)
  case None
  then show ?thesis using assms(3) stored_none by simp
next
  case (Some x)
  show ?thesis
  proof (cases "np_type p = PCollection")
    case False
    then show ?thesis using stored_simple [OF False] simple_value [OF False] assms unfolding Some
      by (fastforce simp: shown_outcome_def)
  qed (simp add: shown_outcome_def)
qed

text \<open>A collection, given that its values survive.\<close>

lemma stored_collection:
  assumes p: "np_type p = PCollection" and x: "outcome_of env ctx True opts c (Some x) p = Inr (Some x)"
    and y: "outcome_of env ctx False opts c (Some x) p = Inr y"
    and rec: "\<And>ps kvs kvs'. collection_properties p = Some ps \<Longrightarrow> x = JObj kvs
      \<Longrightarrow> resolve_with env ctx True ps (Some kvs) PCollection (root_of opts c) = Inr kvs
      \<Longrightarrow> resolve_with env ctx False ps (Some kvs) PCollection (root_of opts c) = Inr kvs'
      \<Longrightarrow> resolve_with env ctx True ps (Some kvs') PCollection (root_of opts c) = Inr kvs"
  shows "outcome_of env ctx True opts c y p = Inr (Some x)"
proof -
  note d = loaded_shown [OF x]
  have out: "outcome_of env ctx rd opts c (Some z) p = collection_outcome (resolve_with env ctx rd) p (Some z) (root_of opts c)" for rd z
    using d p by (simp add: outcome_of_def outcome_def)
  show ?thesis
  proof (cases "pi_multipleValues (np_info p) = Some True")
    case True
    with y have "y = Some x" unfolding out by (simp add: collection_outcome_def)
    with x show ?thesis by simp
  next
    case False
    from x False obtain ps r where ps: "collection_properties p = Some ps" and r: "x = JObj r"
      and load: "resolve_with env ctx True ps (as_params (Some x)) PCollection (root_of opts c) = Inr r"
      unfolding out by (auto simp: collection_outcome_def bindE_eq_Inr split: option.splits)
    have as: "as_params (Some (JObj kvs)) = Some kvs" for kvs by (simp add: as_params_def)
    from y False ps r obtain r' where r': "y = Some (JObj r')"
      and save: "resolve_with env ctx False ps (Some r) PCollection (root_of opts c) = Inr r'"
      unfolding out by (auto simp: collection_outcome_def bindE_eq_Inr as)
    have "resolve_with env ctx True ps (Some r') PCollection (root_of opts c) = Inr r"
      using rec [OF ps r _ save] load r by (simp add: as)
    then show ?thesis using False ps r unfolding r' out by (simp add: collection_outcome_def as)
  qed
qed

lemma stored_parameters_load':
  assumes "storable env props w" "outer_options opts"
    and "getNodeParameters env ctx props (Some w) True False opts = Inr w"
    and "getNodeParameters env ctx props (Some w) False False opts = Inr s"
  shows "getNodeParameters env ctx props (Some s) True False opts = Inr w"
  using assms
proof (induction env props w arbitrary: opts s rule: storable.induct)
  case (1 env props w)
  note st = \<open>storable env props w\<close> [unfolded storable.simps [of env props w] list_all_iff]
  from st have plain: "plain_properties props" by simp
  note coll = getNodeParameters_collect [OF \<open>outer_options opts\<close> plain]
  let ?n = "\<lambda>p. np_name p"
  from 1(4) obtain c st1 where c: "shown_values env ctx props w opts = Inr c"
    and load: "collect props (\<lambda>p. outcome_of env ctx True opts c (obj_get w (?n p)) p) = Inr st1" and w: "gs_params st1 = w"
    unfolding coll by (auto simp: bindE_eq_Inr)
  from 1(5) c obtain st2 where save: "collect props (\<lambda>p. outcome_of env ctx False opts c (obj_get w (?n p)) p) = Inr st2"
    and s: "gs_params st2 = s"
    unfolding coll by (auto simp: bindE_eq_Inr)
  have l: "outcome_of env ctx True opts c (obj_get w (?n p)) p = Inr (obj_get w (?n p))" if "p \<in> set props" for p
    using collect_values [OF plain load that] w by simp
  have sv: "outcome_of env ctx False opts c (obj_get w (?n p)) p = Inr (obj_get s (?n p))" if "p \<in> set props" for p
    using collect_values [OF plain save that] s by simp
  have ok: "default_ok env p (obj_get w (?n p))" if "p \<in> set props" for p using st that by blast
  have shown: "shown_values env ctx props s opts = Inr c"
    unfolding c [symmetric] shown_values_collect [OF plain]
    by (intro bindE_cong collect_cong refl) (simp add: stored_shown [OF ok l sv])
  have "outcome_of env ctx True opts c (obj_get s (?n p)) p = outcome_of env ctx True opts c (obj_get w (?n p)) p"
    if p: "p \<in> set props" for p
  proof (cases "obj_get w (?n p)")
    case None
    then show ?thesis using sv [OF p] stored_none [of env ctx opts c p] by simp
  next
    case (Some x)
    note ls = l [OF p, unfolded Some] sv [OF p, unfolded Some]
    show ?thesis
    proof (cases "np_type p = PCollection")
      case False
      from stored_simple [OF False ok [OF p, unfolded Some] ls] simple_value [OF False ls(1)] loaded_shown [OF ls(1)] False
      show ?thesis unfolding Some ls(1) by (auto simp: ls(1)) (simp add: outcome_of_def outcome_def simple_outcome_def)
    next
      case True
      have "outcome_of env ctx True opts c (obj_get s (?n p)) p = Inr (Some x)"
      proof (rule stored_collection [OF True ls])
        fix ps kvs kvs'
        assume ps: "collection_properties p = Some ps" and x: "x = JObj kvs"
        then have "storable env ps kvs" using st p Some by fastforce
        then show "resolve_with env ctx True ps (Some kvs') PCollection (root_of opts c) = Inr kvs"
          if "resolve_with env ctx True ps (Some kvs) PCollection (root_of opts c) = Inr kvs"
            "resolve_with env ctx False ps (Some kvs) PCollection (root_of opts c) = Inr kvs'"
          using 1(1) [OF p ps _ x] that Some unfolding resolve_with_def by simp
      qed
      then show ?thesis by (simp add: Some ls(1))
    qed
  qed
  then have "collect props (\<lambda>p. outcome_of env ctx True opts c (obj_get s (?n p)) p) = Inr st1"
    unfolding load [symmetric] by (intro collect_cong)
  then show ?case unfolding coll shown by (simp add: w)
qed

text \<open>
  C27: For properties with pairwise different names, none of them a fixed collection, also inside collections to any depth,
  where an object value that counts as equal to its default is the default itself and a resource locator that is the
  default carries its marker (\<open>storable\<close>): when the values of a node are those that loading them gives, then storing them,
  which leaves out the defaults and everything that is not displayed, and loading what was stored gives the same values
  again, whatever the properties depend on.
\<close>

theorem stored_parameters_load:
  assumes "storable env props w"
    and "getNodeParameters env ctx props (Some w) True False no_options = Inr w"
    and "getNodeParameters env ctx props (Some w) False False no_options = Inr s"
  shows "getNodeParameters env ctx props (Some s) True False no_options = Inr w"
  by (rule stored_parameters_load' [OF assms(1) _ assms(2,3)]) simp

end
