(* ===== verification/NodeExamples.thy ===== *)
theory NodeExamples
  imports NodeParametersFacts
begin

section \<open>Examples of node parameters\<close>

text \<open>
  A node with a parameter that depends on another and a collection, and small descriptions on which the code does
  something unexpected.
\<close>

subsection \<open>A node\<close>

definition plain_env :: param_env where
  "plain_env = \<lparr>pe_get = obj_get, pe_isEqual = (\<lambda>v t. v = Some t), pe_test = (\<lambda>_ _. Inr False), pe_Number = (\<lambda>_. None)\<rparr>"

definition no_ctx :: node_ctx where
  "no_ctx = \<lparr>nc_typeVersion = None, nc_type = None\<rparr>"

definition info :: "string \<Rightarrow> prop_type \<Rightarrow> json \<Rightarrow> prop_info" where
  "info name type d = \<lparr>pi_name = name, pi_displayName = name, pi_type = type, pi_multipleValues = None,
     pi_minRequiredFields = None, pi_maxAllowedFields = None, pi_default = d, pi_displayOptions = None,
     pi_required = None, pi_validateType = None, pi_doNotInherit = None\<rparr>"

definition shown_for :: "string \<Rightarrow> string \<Rightarrow> prop_info \<Rightarrow> prop_info" where
  "shown_for other v i = i\<lparr>pi_displayOptions := Some \<lparr>do_show = Some [(other, [IsValue (JStr v)])], do_hide = None\<rparr>\<rparr>"

definition node_properties :: "node_property list" where
  "node_properties =
     [NodeProperty (shown_for ''resource'' ''file'' (info ''name'' PString (JStr ''untitled''))) None,
      NodeProperty (info ''resource'' POptions (JStr ''file'')) None,
      NodeProperty (info ''options'' PCollection (JObj []))
        (Some [OptionProperty (NodeProperty (info ''append'' PBoolean (JBool False)) None),
               OptionProperty (NodeProperty (info ''sep'' PString (JStr '';'')) None)])]"

definition node_values :: params where
  "node_values = [(''name'', JStr ''untitled''), (''resource'', JStr ''file''), (''options'', JObj [(''append'', JBool False)])]"

definition stored_values :: params where
  "stored_values = [(''options'', JObj [(''append'', JBool False)])]"

lemma node_order: "getParameterResolveOrder node_properties (getParameterDependencies node_properties) = Inr [0, 1, 2, 0]"
  by code_simp

lemma node_stored: "getNodeParameters plain_env no_ctx node_properties (Some node_values) False False no_options = Inr stored_values"
  by code_simp

lemma node_loaded: "getNodeParameters plain_env no_ctx node_properties (Some node_values) True False no_options = Inr node_values"
  by code_simp

lemma node_storable: "storable plain_env node_properties node_values"
  by code_simp

lemma stored_parameters_load_witness:
  "storable plain_env node_properties node_values
   \<and> getNodeParameters plain_env no_ctx node_properties (Some node_values) False False no_options = Inr stored_values
   \<and> getNodeParameters plain_env no_ctx node_properties (Some stored_values) True False no_options = Inr node_values"
  using node_storable node_stored stored_parameters_load [OF node_storable node_loaded node_stored] by blast

lemma resolve_order_sound_witness:
  "set [0, 1, 2, 0] = {..<length node_properties} \<and> after_dependencies node_properties [0, 1, 2, 0] 0"
  using resolve_order_sound [OF node_order] by (simp add: node_properties_def)

lemma resolve_order_exists_witness:
  "\<exists>order. getParameterResolveOrder node_properties (getParameterDependencies node_properties) = Inr order"
  by (rule mp [OF conjunct2 [OF resolve_order_exists]])
    (auto simp: node_properties_def depends_def unknown_def shown_for_def info_def rule_names_def rules_of_def obj_entries_def)

subsection \<open>Surprises\<close>

text \<open>A property that is shown for one of its own values.\<close>

lemma self_dependent_throws:
  "getNodeParameters plain_env no_ctx [NodeProperty (shown_for ''mode'' ''x'' (info ''mode'' POptions (JStr ''x''))) None]
     (Some []) True False no_options = Inl dependencies_unresolved"
  by code_simp

definition fixed_property :: "bool option \<Rightarrow> json \<Rightarrow> node_property" where
  "fixed_property multiple d = NodeProperty ((info ''headers'' PFixedCollection d)\<lparr>pi_multipleValues := multiple\<rparr>)
     (Some [OptionCollection ''header'' [NodeProperty (info ''key'' PString (JStr [])) None]])"

text \<open>A group whose values are all defaults is stored when the type says that there is one value, not when it says
  nothing.\<close>

lemma default_group_lost:
  "getNodeParameters plain_env no_ctx [fixed_property None (JObj [])]
     (Some [(''headers'', JObj [(''header'', JObj [(''key'', JStr [])])])]) False False no_options = Inr []"
  "getNodeParameters plain_env no_ctx [fixed_property (Some False) (JObj [])]
     (Some [(''headers'', JObj [(''header'', JObj [(''key'', JStr [])])])]) False False no_options
     = Inr [(''headers'', JObj [(''header'', JObj [])])]"
  by code_simp+

text \<open>A list that was emptied is not stored, and is loaded with its default.\<close>

definition header_default :: json where
  "header_default = JObj [(''header'', JArr [JObj [(''key'', JStr ''Accept'')]])]"

lemma emptied_group_returns:
  "getNodeParameters plain_env no_ctx [fixed_property (Some True) header_default]
     (Some [(''headers'', JObj [])]) False False no_options = Inr []"
  "getNodeParameters plain_env no_ctx [fixed_property (Some True) header_default] (Some []) True False no_options
     = Inr [(''headers'', header_default)]"
  by code_simp+

text \<open>With a default and one value, the default is iterated over but the missing value is read.\<close>

lemma single_group_default_throws:
  "getNodeParameters plain_env no_ctx [fixed_property (Some False) (JObj [(''header'', JObj [(''key'', JStr ''Accept'')])])]
     (Some []) True False no_options = Inl TypeError"
  by code_simp

text \<open>An empty group makes the values be returned as they are, with defaults and values that are not displayed.\<close>

lemma empty_group_returns_all:
  "getNodeParameters plain_env no_ctx
     [NodeProperty (info ''name'' PString (JStr ''untitled'')) None, fixed_property (Some False) (JObj [])]
     (Some [(''name'', JStr ''untitled''), (''headers'', JObj [])]) False False no_options
   = Inr [(''name'', JStr ''untitled''), (''headers'', JObj [])]"
  by code_simp

end
