(* ===== verification/ExpressionParser.thy ===== *)
theory ExpressionParser
  imports NodeProperties
begin

section \<open>Splitting expressions\<close>

text \<open>
  \<open>packages/workflow/src/extensions/expression-parser.ts\<close>: an expression is text with code between double braces.
  Braces may be escaped by a backslash. The editor splits an expression into chunks, changes some, and joins them again.
  The theorem says when that gives the expression back; the lemmas at the end show what is lost otherwise.
\<close>

subsection \<open>The code\<close>

datatype chunk = TextChunk string | CodeChunk string bool

definition backslash :: char where "backslash = CHR 0x5C"

definition open2 :: string where "open2 = ''{{''"
definition close2 :: string where "close2 = ''}}''"

text \<open>The first match of \<open>OPEN_BRACKET\<close> or \<open>CLOSE_BRACKET\<close>: its index, and whether it has a backslash.\<close>

fun bracket_exec :: "char \<Rightarrow> string \<Rightarrow> (nat \<times> bool) option" where
  "bracket_exec b [] = None"
| "bracket_exec b (c # cs) =
     (if c = backslash \<and> starts_with [b, b] cs then Some (0, True)
      else if starts_with [b, b] (c # cs) then Some (0, False)
      else map_option (\<lambda>(i, e). (Suc i, e)) (bracket_exec b cs))"

text \<open>\<open>replace\<close> with a string as the pattern replaces the first occurrence.\<close>

fun replace_first :: "string \<Rightarrow> string \<Rightarrow> string \<Rightarrow> string" where
  "replace_first pat rep [] = (if pat = [] then rep else [])"
| "replace_first pat rep (c # cs) =
     (if starts_with pat (c # cs) then rep @ drop (length pat) (c # cs) else c # replace_first pat rep cs)"

definition escapeCode :: "string \<Rightarrow> string" where
  "escapeCode text = replace_first (backslash # close2) close2 text"

definition escapeTmplExpression :: "string \<Rightarrow> string" where
  "escapeTmplExpression part = replace_first close2 (backslash # close2) part"

lemma starts_with_iff: "starts_with p s \<longleftrightarrow> (\<exists>q. s = p @ q)"
  by (induction p s rule: starts_with.induct) auto

lemma bracket_exec_le: "bracket_exec b s = Some (i, e) \<Longrightarrow> i + 2 \<le> length s"
proof (induction s arbitrary: i)
  case (Cons c cs)
  from Cons.prems consider "starts_with [b, b] cs" "i = 0" | "starts_with [b, b] (c # cs)" "i = 0"
    | j where "bracket_exec b cs = Some (j, e)" "i = Suc j"
    by (auto simp del: starts_with.simps split: if_splits)
  then show ?case
  proof cases
    case (3 j)
    then show ?thesis using Cons.IH [OF 3(1)] by simp
  qed (auto simp: starts_with_iff)
qed simp

text \<open>\<open>expr\<close> is the part from \<open>index\<close> on; \<open>isOpen\<close> tells which bracket is searched for.\<close>

function split_loop :: "bool \<Rightarrow> string \<Rightarrow> string \<Rightarrow> chunk list \<Rightarrow> chunk list" where
  "split_loop isOpen buffer expr chunks =
     (if expr = [] then chunks
      else case bracket_exec (if isOpen then CHR ''{'' else CHR ''}'') expr of
             None \<Rightarrow> chunks @ [if isOpen then TextChunk (buffer @ expr) else CodeChunk (escapeCode (buffer @ expr)) False]
           | Some (i, True) \<Rightarrow> split_loop isOpen (buffer @ take (i + 3) expr) (drop (i + 3) expr) chunks
           | Some (i, False) \<Rightarrow>
               split_loop (\<not> isOpen) [] (drop (i + 2) expr)
                 (chunks @ [if isOpen then TextChunk (buffer @ take i expr)
                            else CodeChunk (escapeCode (buffer @ take i expr)) True]))"
  by pat_completeness auto
termination by (relation "measure (\<lambda>(isOpen, buffer, expr, chunks). length expr)") auto

declare split_loop.simps [simp del]

definition splitExpression :: "string \<Rightarrow> chunk list" where
  "splitExpression expression = split_loop True [] expression []"

definition join_chunk :: "chunk \<Rightarrow> string" where
  "join_chunk chunk =
     (case chunk of
        TextChunk text \<Rightarrow> text
      | CodeChunk text hasClosingBrackets \<Rightarrow> open2 @ escapeTmplExpression text @ (if hasClosingBrackets then close2 else []))"

definition joinExpression :: "chunk list \<Rightarrow> string" where
  "joinExpression parts = concat (map join_chunk parts)"

subsection \<open>Matches\<close>

lemma includes_str_iff: "includes_str p s \<longleftrightarrow> (\<exists>xs ys. s = xs @ p @ ys)"
proof (induction s)
  case (Cons c cs)
  show ?case
  proof
    assume "includes_str p (c # cs)"
    then consider "starts_with p (c # cs)" | "includes_str p cs" by auto
    then show "\<exists>xs ys. c # cs = xs @ p @ ys"
    proof cases
      case 1 then show ?thesis by (auto simp: starts_with_iff intro: exI [of _ "[]"])
    next
      case 2 then show ?thesis using Cons.IH by (metis append_Cons)
    qed
  next
    assume "\<exists>xs ys. c # cs = xs @ p @ ys"
    then obtain xs ys where "c # cs = xs @ p @ ys" by blast
    then show "includes_str p (c # cs)"
    proof (cases xs)
      case Nil
      then have "starts_with p (c # cs)" using \<open>c # cs = xs @ p @ ys\<close> by (auto simp: starts_with_iff)
      then show ?thesis by simp
    next
      case (Cons d ds)
      then show ?thesis using \<open>c # cs = xs @ p @ ys\<close> Cons.IH by auto
    qed
  qed
qed auto

lemma ends_in_iff: "ends_in p s \<longleftrightarrow> (\<exists>xs. s = xs @ p)"
  unfolding ends_in_def starts_with_iff by (metis rev_append rev_rev_ident)

lemma includes_within: "\<not> includes_str p (xs @ ys @ zs) \<Longrightarrow> \<not> includes_str p ys"
  unfolding includes_str_iff by (metis append.assoc)

text \<open>What a match says of the string.\<close>

lemma bracket_exec_split:
  assumes "bracket_exec b s = Some (i, e)" "b \<noteq> backslash"
  obtains p q where "s = p @ (if e then [backslash] else []) @ [b, b] @ q" "length p = i" "bracket_exec b p = None"
    "bracket_exec b (p @ (if e then [backslash] else []) @ [b, b]) = Some (i, e)"
  using assms(1)
proof (induction s arbitrary: i thesis)
  case (Cons c cs)
  show ?case
  proof (cases "c = backslash \<and> starts_with [b, b] cs")
    case True
    then obtain q where "cs = b # b # q" by (auto simp: starts_with_iff)
    then show ?thesis using Cons.prems True by (intro Cons.prems(1) [of "[]" q]) auto
  next
    case n1: False
    show ?thesis
    proof (cases "starts_with [b, b] (c # cs)")
      case True
      then obtain q where "c # cs = b # b # q" by (auto simp: starts_with_iff)
      then show ?thesis using Cons.prems True assms(2) by (intro Cons.prems(1) [of "[]" q]) auto
    next
      case False
      with n1 Cons.prems(2) obtain j where j: "bracket_exec b cs = Some (j, e)" "i = Suc j" by (auto simp del: starts_with.simps)
      obtain p q where pq: "cs = p @ (if e then [backslash] else []) @ [b, b] @ q" "length p = j" "bracket_exec b p = None"
        "bracket_exec b (p @ (if e then [backslash] else []) @ [b, b]) = Some (j, e)"
        by (rule Cons.IH [OF _ j(1)])
      have no: "\<not> (c = backslash \<and> starts_with [b, b] xs)" "\<not> starts_with [b, b] (c # xs)" if "cs = xs @ ys" for xs ys
        using n1 False that by (auto simp: starts_with_iff)
      show ?thesis
      proof (rule Cons.prems(1) [of "c # p" q])
        show "bracket_exec b (c # p) = None" using no [of p] pq(1,3) by simp
        show "bracket_exec b ((c # p) @ (if e then [backslash] else []) @ [b, b]) = Some (i, e)"
          using no [of "p @ (if e then [backslash] else []) @ [b, b]" q] pq(1,4) j(2) by simp
      qed (use pq j in auto)
    qed
  qed
qed simp

lemma bracket_exec_append:
  "bracket_exec b xs = Some (i, True) \<Longrightarrow> b \<noteq> backslash \<Longrightarrow> bracket_exec b (xs @ ys) = Some (i, True)"
proof (induction xs arbitrary: i)
  case (Cons c cs)
  show ?case
  proof (cases "c = backslash \<and> starts_with [b, b] cs")
    case True
    then have "starts_with [b, b] (cs @ ys)" by (auto simp: starts_with_iff)
    then show ?thesis using True Cons.prems by simp
  next
    case n1: False
    with Cons.prems(1) have n2: "\<not> starts_with [b, b] (c # cs)" by auto
    with n1 Cons.prems(1) obtain j where j: "bracket_exec b cs = Some (j, True)" "i = Suc j" by (auto simp del: starts_with.simps)
    obtain p q where "cs = p @ [backslash] @ [b, b] @ q" using bracket_exec_split [OF j(1) Cons.prems(2)] by (metis (full_types))
    then obtain d1 d2 ds where "cs = d1 # d2 # ds" by (cases p; cases "tl p") auto
    then have "starts_with [b, b] (cs @ ys) \<longleftrightarrow> starts_with [b, b] cs" "starts_with [b, b] (c # cs @ ys) \<longleftrightarrow> starts_with [b, b] (c # cs)"
      by simp_all
    then show ?thesis using n1 n2 j Cons.IH [OF j(1) Cons.prems(2)] by simp
  qed
qed simp

subsection \<open>Escaping\<close>

text \<open>A text in which the first pair of closing braces, if there is one, is escaped.\<close>

definition first_escaped :: "string \<Rightarrow> bool" where
  "first_escaped t \<longleftrightarrow> (\<forall>i. bracket_exec (CHR ''}'') t \<noteq> Some (i, False))"

lemma replace_first_skip: "\<not> includes_str pat s \<Longrightarrow> replace_first pat rep s = s"
  by (induction s) auto

lemma replace_first_at:
  "pat \<noteq> [] \<Longrightarrow> \<not> includes_str pat (p @ butlast pat) \<Longrightarrow> replace_first pat rep (p @ pat @ q) = p @ rep @ q"
proof (induction p)
  case Nil
  then have "starts_with pat (pat @ q)" by (auto simp: starts_with_iff)
  then show ?case using Nil by (cases pat) auto
next
  case (Cons c p)
  have "\<not> starts_with pat (c # p @ pat @ q)"
  proof
    assume "starts_with pat (c # p @ pat @ q)"
    then obtain r where r: "c # p @ pat @ q = pat @ r" by (auto simp: starts_with_iff)
    have "c # p @ butlast pat @ last pat # q = pat @ r" using r Cons.prems(1) by (metis append.assoc append_Cons append_Nil append_butlast_last_id)
    then have "(c # p @ butlast pat) @ last pat # q = pat @ r" by simp
    moreover have "length pat \<le> length (c # p @ butlast pat)" using Cons.prems(1) by simp
    ultimately have "starts_with pat (c # p @ butlast pat)"
      unfolding starts_with_iff by (metis append_eq_append_conv_if append_take_drop_id)
    then show False using Cons.prems(2) by simp
  qed
  moreover have "\<not> includes_str pat (p @ butlast pat)" using Cons.prems(2) by simp
  ultimately show ?case using Cons.IH Cons.prems(1) by simp
qed

lemma no_bracket: "bracket_exec b s = None \<Longrightarrow> \<not> includes_str [b, b] s"
  by (induction s) (auto split: if_splits)

lemma escape_back:
  assumes "first_escaped t" "\<not> includes_str (CHR ''}'' # backslash # close2) t"
  shows "escapeTmplExpression (escapeCode t) = t"
proof (cases "bracket_exec (CHR ''}'') t")
  case None
  then have n: "\<not> includes_str close2 t" using no_bracket by (simp add: close2_def)
  then have "\<not> includes_str (backslash # close2) t" unfolding includes_str_iff by (metis append.assoc append_Cons append_Nil)
  then show ?thesis using n by (simp add: escapeCode_def escapeTmplExpression_def replace_first_skip)
next
  case (Some r)
  then obtain i where i: "bracket_exec (CHR ''}'') t = Some (i, True)" using assms(1) by (cases r) (auto simp: first_escaped_def)
  have ne: "CHR ''}'' \<noteq> backslash" by (simp add: backslash_def)
  obtain p q where t: "t = p @ backslash # close2 @ q" and p: "bracket_exec (CHR ''}'') p = None"
    using bracket_exec_split [OF i ne, of thesis] by (simp add: close2_def)
  have np: "\<not> includes_str close2 p" using no_bracket [OF p] by (simp add: close2_def)
  have end': "p = [] \<or> last p \<noteq> CHR ''}''"
  proof (rule ccontr)
    assume "\<not> (p = [] \<or> last p \<noteq> CHR ''}'')"
    then have "p = butlast p @ [CHR ''}'']" by (metis append_butlast_last_id)
    then have "t = butlast p @ (CHR ''}'' # backslash # close2) @ q" using t by (metis append.assoc append_Cons append_Nil)
    then show False using assms(2) unfolding includes_str_iff by blast
  qed
  have b2: "butlast close2 = [CHR ''}'']" "butlast (backslash # close2) = [backslash, CHR ''}'']" by (simp_all add: close2_def)
  have "\<not> includes_str close2 (p @ [CHR ''}''])"
  proof
    assume "includes_str close2 (p @ [CHR ''}''])"
    then obtain xs ys where xy: "p @ [CHR ''}''] = xs @ [CHR ''}'', CHR ''}''] @ ys" unfolding includes_str_iff close2_def by auto
    show False
    proof (cases ys rule: rev_cases)
      case Nil
      then have "p = xs @ [CHR ''}'']" using xy by (metis append.assoc append_Cons append_Nil append_Nil2 butlast_snoc)
      then show False using end' by simp
    next
      case (snoc zs z)
      then have "p = xs @ close2 @ zs" using xy by (simp add: close2_def)
      then show False using np unfolding includes_str_iff by blast
    qed
  qed
  then have tmpl: "escapeTmplExpression (p @ close2 @ q) = p @ (backslash # close2) @ q"
    unfolding escapeTmplExpression_def by (intro replace_first_at) (simp_all add: b2 close2_def)
  have "\<not> includes_str (backslash # close2) (p @ [backslash, CHR ''}''])"
  proof
    assume "includes_str (backslash # close2) (p @ [backslash, CHR ''}''])"
    then obtain xs ys where xy: "p @ [backslash, CHR ''}''] = xs @ [backslash, CHR ''}'', CHR ''}''] @ ys"
      unfolding includes_str_iff close2_def by auto
    show False
    proof (cases ys rule: rev_cases)
      case Nil
      then have "p @ [backslash] = xs @ [backslash, CHR ''}'']"
        using xy by (metis append.assoc append_Cons append_Nil append_Nil2 butlast_snoc)
      then show False using ne by (metis append_Cons append_Nil append_assoc last_snoc)
    next
      case (snoc zs z)
      then have 1: "p @ [backslash] = xs @ [backslash, CHR ''}'', CHR ''}''] @ zs"
        using xy by (metis append.assoc append_Cons append_Nil butlast_snoc)
      show False
      proof (cases zs rule: rev_cases)
        case Nil
        then show False using 1 ne by (metis append_Cons append_Nil append_Nil2 append_assoc last_snoc)
      next
        case (snoc us u)
        then have "p = (xs @ [backslash]) @ close2 @ us" using 1 by (simp add: close2_def)
        then show False using np unfolding includes_str_iff by blast
      qed
    qed
  qed
  then have "\<not> includes_str (backslash # close2) (p @ butlast (backslash # close2))" by (simp only: b2 not_False_eq_True)
  then have "escapeCode t = p @ close2 @ q"
    unfolding escapeCode_def t using replace_first_at [of "backslash # close2" p close2 q] by simp
  then show ?thesis using tmpl t by simp
qed


subsection \<open>Splitting and joining\<close>

text \<open>What of an expression is in the chunks and the buffer, when the rest is still to be read.\<close>

definition read_so_far :: "bool \<Rightarrow> string \<Rightarrow> chunk list \<Rightarrow> string" where
  "read_so_far isOpen buffer chunks = joinExpression chunks @ (if isOpen then [] else open2) @ buffer"

definition buffer_ok :: "bool \<Rightarrow> string \<Rightarrow> bool" where
  "buffer_ok isOpen buffer \<longleftrightarrow> isOpen \<or> buffer = [] \<or> (\<exists>i. bracket_exec (CHR ''}'') buffer = Some (i, True))"

definition rest_ok :: "string \<Rightarrow> bool" where
  "rest_ok expr \<longleftrightarrow> \<not> ends_in open2 expr \<and> \<not> ends_in (backslash # close2) expr"

lemma joinExpression_snoc [simp]: "joinExpression (chunks @ [c]) = joinExpression chunks @ join_chunk c"
  by (simp add: joinExpression_def)

lemma rest_ok_suffix: "rest_ok (p @ q) \<Longrightarrow> rest_ok q"
  unfolding rest_ok_def ends_in_iff by (metis append.assoc)

lemma first_escaped_append:
  assumes "buffer_ok False buffer" "bracket_exec (CHR ''}'') p = None"
  shows "first_escaped (buffer @ p)"
proof (cases "buffer = []")
  case False
  then obtain i where "bracket_exec (CHR ''}'') buffer = Some (i, True)" using assms(1) by (auto simp: buffer_ok_def)
  then have "bracket_exec (CHR ''}'') (buffer @ p) = Some (i, True)" by (rule bracket_exec_append) (simp add: backslash_def)
  then show ?thesis by (simp add: first_escaped_def)
qed (simp add: first_escaped_def assms(2))

lemma code_back:
  assumes "buffer_ok False buffer" "bracket_exec (CHR ''}'') p = None" "\<not> includes_str (CHR ''}'' # backslash # close2) (buffer @ p @ q)"
  shows "escapeTmplExpression (escapeCode (buffer @ p)) = buffer @ p"
  using escape_back [OF first_escaped_append [OF assms(1,2)]] includes_within [of _ "[]" "buffer @ p" q] assms(3) by simp

lemma split_join':
  assumes "buffer_ok isOpen buffer" "rest_ok expr" "expr = [] \<longrightarrow> isOpen \<and> buffer = []"
    and "\<not> includes_str (CHR ''}'' # backslash # close2) (buffer @ expr)"
  shows "joinExpression (split_loop isOpen buffer expr chunks) = read_so_far isOpen buffer chunks @ expr"
  using assms
proof (induction isOpen buffer expr chunks rule: split_loop.induct)
  case (1 isOpen buffer expr chunks)
  let ?b = "if isOpen then CHR ''{'' else CHR ''}''"
  have ne: "?b \<noteq> backslash" by (simp add: backslash_def)
  show ?case
  proof (cases "expr = []")
    case True
    then show ?thesis using 1(5) by (simp add: split_loop.simps [of _ _ "[]"] read_so_far_def)
  next
    case expr: False
    show ?thesis
    proof (cases "bracket_exec ?b expr")
      case None
      then show ?thesis using expr code_back [of buffer expr "[]"] 1(3,6)
        by (subst split_loop.simps) (auto simp: read_so_far_def join_chunk_def)
    next
      case (Some r)
      obtain i e where r: "r = (i, e)" by (cases r)
      obtain p q where pq: "expr = p @ (if e then [backslash] else []) @ [?b, ?b] @ q" "length p = i" "bracket_exec ?b p = None"
        "bracket_exec ?b (p @ (if e then [backslash] else []) @ [?b, ?b]) = Some (i, e)"
        by (rule bracket_exec_split [OF Some [unfolded r] ne])
      have q_ok: "rest_ok q" using rest_ok_suffix [of "p @ (if e then [backslash] else []) @ [?b, ?b]" q] 1(4) pq(1) by simp
      show ?thesis
      proof (cases e)
        case True
        let ?m = "p @ [backslash, ?b, ?b]"
        have parts: "take (i + 3) expr = ?m" "drop (i + 3) expr = q" "expr = ?m @ q" using pq True by auto
        have q: "q \<noteq> []"
        proof
          assume "q = []"
          then have "expr = p @ (backslash # [?b, ?b])" using parts(3) by simp
          then have "if isOpen then ends_in open2 expr else ends_in (backslash # close2) expr"
            unfolding ends_in_iff open2_def close2_def by (auto intro: exI [of _ "p @ [backslash]"])
          then show False using 1(4) by (auto simp: rest_ok_def split: if_splits)
        qed
        have "buffer_ok isOpen (buffer @ ?m)"
        proof (cases "isOpen \<or> buffer = []")
          case True
          then show ?thesis using pq(4) \<open>e\<close> by (auto simp: buffer_ok_def)
        next
          case False
          then obtain j where "bracket_exec (CHR ''}'') buffer = Some (j, True)" using 1(3) by (auto simp: buffer_ok_def)
          then have "bracket_exec (CHR ''}'') (buffer @ ?m) = Some (j, True)" by (rule bracket_exec_append) (simp add: backslash_def)
          then show ?thesis by (simp add: buffer_ok_def)
        qed
        moreover have "\<not> includes_str (CHR ''}'' # backslash # close2) ((buffer @ ?m) @ q)" using 1(6) parts(3) by simp
        ultimately have "joinExpression (split_loop isOpen (buffer @ ?m) q chunks) = read_so_far isOpen (buffer @ ?m) chunks @ q"
          using 1(1) [OF expr Some r [symmetric], unfolded parts(1,2)] True q_ok q by blast
        then show ?thesis using expr Some r True parts
          by (subst split_loop.simps) (simp add: read_so_far_def)
      next
        case False
        have parts: "take i expr = p" "drop (i + 2) expr = q" "expr = p @ [?b, ?b] @ q" using pq False by auto
        have sub: "\<not> includes_str (CHR ''}'' # backslash # close2) q"
          using includes_within [of _ "buffer @ p @ [?b, ?b]" q "[]"] 1(6) parts(3) by simp
        have q: "q = [] \<longrightarrow> \<not> isOpen"
        proof (intro impI notI)
          assume "q = []" isOpen
          then have "ends_in open2 expr" using parts(3) by (auto simp: ends_in_iff open2_def)
          then show False using 1(4) by (simp add: rest_ok_def)
        qed
        let ?c = "if isOpen then TextChunk (buffer @ p) else CodeChunk (escapeCode (buffer @ p)) True"
        have "\<not> includes_str (CHR ''}'' # backslash # close2) (buffer @ p @ [?b, ?b] @ q)" using 1(6) parts(3) by simp
        then have rejoined: "joinExpression (chunks @ [?c]) @ (if isOpen then open2 else []) @ q = read_so_far isOpen buffer chunks @ expr"
          using code_back [of buffer p "[?b, ?b] @ q"] 1(3) pq(3) parts(3)
          by (cases isOpen) (simp_all add: read_so_far_def join_chunk_def open2_def close2_def)
        have "joinExpression (split_loop (\<not> isOpen) [] q (chunks @ [?c])) = read_so_far (\<not> isOpen) [] (chunks @ [?c]) @ q"
          using 1(2) [OF expr Some r [symmetric], unfolded parts(1,2)] False q_ok q sub by (simp add: buffer_ok_def)
        moreover have "split_loop isOpen buffer expr chunks = split_loop (\<not> isOpen) [] q (chunks @ [?c])"
          by (subst split_loop.simps) (use parts(1,2) in \<open>simp add: expr Some r False\<close>)
        moreover have "read_so_far (\<not> isOpen) [] (chunks @ [?c]) @ q = joinExpression (chunks @ [?c]) @ (if isOpen then open2 else []) @ q"
          by (simp add: read_so_far_def)
        ultimately show ?thesis using rejoined by (simp only:)
      qed
    qed
  qed
qed

text \<open>
  C33: An expression that does not end with two opening braces, does not end with escaped closing braces (a backslash and
  two closing braces) and does not contain a closing brace right before escaped closing braces is the same
  expression when it is split into chunks and joined again. Each exclusion is needed: lemmas \<open>trailing_escape_lost\<close>
  and \<open>brace_before_escape_changed\<close>.
\<close>

theorem split_join:
  assumes "\<not> ends_in open2 expression" "\<not> ends_in (backslash # close2) expression"
    and "\<not> includes_str (CHR ''}'' # backslash # close2) expression"
  shows "joinExpression (splitExpression expression) = expression"
  unfolding splitExpression_def
  by (subst split_join') (use assms in \<open>simp_all add: buffer_ok_def rest_ok_def read_so_far_def joinExpression_def\<close>)

lemma split_join_witness:
  "joinExpression (splitExpression (''a {{ x + 1 }} b {{ '' @ [backslash] @ ''}} }} c {{ d'')) = ''a {{ x + 1 }} b {{ '' @ [backslash] @ ''}} }} c {{ d''"
  by (rule split_join) code_simp+

subsection \<open>What is lost\<close>

lemma trailing_escape_lost:
  "splitExpression (''a '' @ [backslash] @ ''{{'') = []"
  "joinExpression (splitExpression (''a {{ b '' @ [backslash] @ ''}}'')) = ''a ''"
  "joinExpression (splitExpression ''a {{'') = ''a ''"
  by code_simp+

lemma brace_before_escape_changed:
  "joinExpression (splitExpression (''{{ }'' @ [backslash] @ ''}} }}'')) = ''{{ '' @ [backslash] @ ''}}} }}''"
  by code_simp

text \<open>Of several escaped pairs in one piece of code only the first is unescaped.\<close>

lemma second_escape_stays:
  "splitExpression (''{{a'' @ [backslash] @ ''}}b'' @ [backslash] @ ''}}c}}'')
   = [TextChunk [], CodeChunk (''a}}b'' @ [backslash] @ ''}}c'') True]"
  by code_simp

end
