(* ===== verification/TypeValidation.thy ===== *)
theory TypeValidation
  imports ExpressionParser
begin

section \<open>Validating values\<close>

text \<open>
  \<open>packages/workflow/src/type-validation.ts\<close>: a value is checked against the type of a field and converted to it where
  that is possible. Values are \<open>json\<close>. The conversions of the standard library that depend on the format of
  numbers, JSON texts, and the parsers of luxon and of URLs, are the arguments of \<open>std_env\<close>; the regular expressions
  are written out.
\<close>

subsection \<open>Outside\<close>

text \<open>\<open>None\<close> is a number that is not one, or a parser that throws; \<open>NumInfinite\<close> is an infinite number.\<close>

datatype js_num = NumFinite rat | NumInfinite bool

record 'd std_env =
  se_numberString :: "rat \<Rightarrow> string"
  se_Number :: "string \<Rightarrow> js_num option"
  se_stringify :: "json \<Rightarrow> string"
  se_JSONparse :: "string \<Rightarrow> json option"
  se_jsonParse :: "string \<Rightarrow> json option"
  se_dateParsers :: "(string \<Rightarrow> 'd option) list"
  se_urlProtocol :: "string \<Rightarrow> string option"

datatype 'd field_value = Plain json | Infinite bool | DateTime 'd

definition single_quote :: char where "single_quote = CHR 0x27"
definition double_quote :: char where "double_quote = CHR 0x22"

definition quoted :: "char \<Rightarrow> string \<Rightarrow> string" where
  "quoted q s = [q] @ s @ [q]"

fun join_with :: "string \<Rightarrow> string list \<Rightarrow> string" where
  "join_with sep [] = []"
| "join_with sep [s] = s"
| "join_with sep (s # ss) = s @ sep @ join_with sep ss"

definition js_typeof :: "json \<Rightarrow> string" where
  "js_typeof v = (case v of JStr s \<Rightarrow> ''string'' | JNum n \<Rightarrow> ''number'' | JBool b \<Rightarrow> ''boolean'' | _ \<Rightarrow> ''object'')"

definition isArray :: "json \<Rightarrow> bool" where
  "isArray v = (case v of JArr xs \<Rightarrow> True | _ \<Rightarrow> False)"

text \<open>\<open>String(value)\<close>.\<close>

fun js_String :: "'d std_env \<Rightarrow> json \<Rightarrow> string" where
  "js_String env JNull = ''null''"
| "js_String env (JBool b) = (if b then ''true'' else ''false'')"
| "js_String env (JNum n) = se_numberString env n"
| "js_String env (JStr s) = s"
| "js_String env (JArr xs) = join_with '','' (map (\<lambda>x. if x = JNull then [] else js_String env x) xs)"
| "js_String env (JObj kvs) = ''[object Object]''"

fun js_Number :: "'d std_env \<Rightarrow> json \<Rightarrow> js_num option" where
  "js_Number env JNull = Some (NumFinite 0)"
| "js_Number env (JBool b) = Some (NumFinite (if b then 1 else 0))"
| "js_Number env (JNum n) = Some (NumFinite n)"
| "js_Number env (JStr s) = se_Number env s"
| "js_Number env (JArr xs) = se_Number env (js_String env (JArr xs))"
| "js_Number env (JObj kvs) = se_Number env (js_String env (JObj kvs))"

definition is_space :: "char \<Rightarrow> bool" where
  "is_space c \<longleftrightarrow> c \<in> {CHR 0x20, CHR 0x09, CHR 0x0A, CHR 0x0B, CHR 0x0C, CHR 0x0D, CHR 0xA0}"

definition js_trim :: "string \<Rightarrow> string" where
  "js_trim s = rev (dropWhile is_space (rev (dropWhile is_space s)))"

definition lower :: "char \<Rightarrow> char" where
  "lower c = (if CHR ''A'' \<le> c \<and> c \<le> CHR ''Z'' then char_of (of_char c + 32 :: nat) else c)"

subsection \<open>Regular expressions\<close>

text \<open>What is left of a string after each way to match its beginning.\<close>

type_synonym matcher = "string \<Rightarrow> string list"

definition m_class :: "(char \<Rightarrow> bool) \<Rightarrow> matcher" where
  "m_class P s = (case s of c # cs \<Rightarrow> if P c then [cs] else [] | [] \<Rightarrow> [])"

definition m_seq :: "matcher \<Rightarrow> matcher \<Rightarrow> matcher" where
  "m_seq m n s = concat (map n (m s))"

definition m_opt :: "matcher \<Rightarrow> matcher" where
  "m_opt m s = m s @ [s]"

definition m_all :: "matcher \<Rightarrow> string \<Rightarrow> bool" where
  "m_all m s \<longleftrightarrow> [] \<in> set (m s)"

definition is_digit :: "char \<Rightarrow> bool" where "is_digit c \<longleftrightarrow> CHR ''0'' \<le> c \<and> c \<le> CHR ''9''"

definition is_letter :: "char \<Rightarrow> bool" where
  "is_letter c \<longleftrightarrow> CHR ''A'' \<le> c \<and> c \<le> CHR ''Z'' \<or> CHR ''a'' \<le> c \<and> c \<le> CHR ''z''"

abbreviation m_digit :: matcher where "m_digit \<equiv> m_class is_digit"

definition two_digits :: matcher where "two_digits = m_seq m_digit m_digit"

definition colon_digits :: matcher where "colon_digits = m_seq (m_class (\<lambda>c. c = CHR '':'')) two_digits"

definition m_sign :: matcher where "m_sign = m_class (\<lambda>c. c = CHR ''-'' \<or> c = CHR ''+'')"

definition is_time :: "string \<Rightarrow> bool" where
  "is_time = m_all (m_seq two_digits (m_seq colon_digits (m_seq (m_opt colon_digits)
     (m_seq (m_opt (m_seq m_sign (m_seq two_digits two_digits)))
            (m_opt (m_seq m_sign (m_seq m_digit (m_seq (m_opt m_digit) (m_opt colon_digits)))))))))"

definition is_alphanumeric :: "string \<Rightarrow> bool" where
  "is_alphanumeric s \<longleftrightarrow> (case s of
     [] \<Rightarrow> False
   | c # cs \<Rightarrow> (is_letter c \<or> c = CHR ''_'') \<and> list_all (\<lambda>d. is_letter d \<or> is_digit d \<or> d = CHR ''_'') cs)"

definition token_char :: "char \<Rightarrow> bool" where
  "token_char c \<longleftrightarrow> is_letter c \<or> is_digit c \<or> c = CHR ''-'' \<or> c = CHR ''_''"

definition is_jwt :: "string \<Rightarrow> bool" where
  "is_jwt s \<longleftrightarrow>
     (let a = takeWhile token_char s; r = dropWhile token_char s
      in a \<noteq> [] \<and> (case r of
           d # r' \<Rightarrow> d = CHR ''.'' \<and> takeWhile token_char r' \<noteq> []
             \<and> (case dropWhile token_char r' of
                  d' # r'' \<Rightarrow> d' = CHR ''.'' \<and> list_all (\<lambda>c. token_char c \<or> c \<in> {CHR ''.'', CHR ''+'', CHR ''/'', CHR ''=''}) r''
                | [] \<Rightarrow> False)
         | [] \<Rightarrow> False))"

subsection \<open>Parsing a value\<close>

definition failed :: "string \<Rightarrow> js_error + 'a" where
  "failed msg = Inl (ApplicationError msg)"

definition tryToParseNumber :: "'d std_env \<Rightarrow> json \<Rightarrow> js_error + 'd field_value" where
  "tryToParseNumber env value =
     (case js_Number env value of
        None \<Rightarrow> failed ''Failed to parse value to number''
      | Some (NumFinite n) \<Rightarrow> Inr (Plain (JNum n))
      | Some (NumInfinite neg) \<Rightarrow> Inr (Infinite neg))"

definition tryToParseString :: "'d std_env \<Rightarrow> json \<Rightarrow> string" where
  "tryToParseString env value = (if is_reference value \<or> value = JNull then se_stringify env value else js_String env value)"

definition tryToParseAlphanumericString :: "'d std_env \<Rightarrow> json \<Rightarrow> js_error + string" where
  "tryToParseAlphanumericString env value =
     (let parsed = tryToParseString env value
      in if is_alphanumeric parsed then Inr parsed else failed ''Value is not a valid alphanumeric string'')"

definition tryToParseBoolean :: "'d std_env \<Rightarrow> json \<Rightarrow> js_error + bool" where
  "tryToParseBoolean env value =
     (case value of
        JBool b \<Rightarrow> Inr b
      | _ \<Rightarrow>
          (let word = (case value of JStr s \<Rightarrow> Some (map lower s) | _ \<Rightarrow> None);
               blank = (case value of JStr s \<Rightarrow> js_trim s = [] | _ \<Rightarrow> False)
           in if word = Some ''true'' then Inr True
              else if word = Some ''false'' then Inr False
              else if \<not> blank \<and> js_Number env value = Some (NumFinite 0) then Inr False
              else if \<not> blank \<and> js_Number env value = Some (NumFinite 1) then Inr True
              else failed ''Failed to parse value as boolean''))"

fun first_valid :: "('a \<Rightarrow> 'b option) list \<Rightarrow> 'a \<Rightarrow> 'b option" where
  "first_valid [] x = None"
| "first_valid (f # fs) x = (case f x of Some y \<Rightarrow> Some y | None \<Rightarrow> first_valid fs x)"

definition tryToParseDateTime :: "'d std_env \<Rightarrow> json \<Rightarrow> js_error + 'd" where
  "tryToParseDateTime env value =
     (case first_valid (se_dateParsers env) (js_trim (js_String env value)) of
        Some d \<Rightarrow> Inr d
      | None \<Rightarrow> failed ''Value is not a valid date'')"

definition tryToParseTime :: "'d std_env \<Rightarrow> json \<Rightarrow> js_error + string" where
  "tryToParseTime env value =
     (if is_time (js_String env value) then Inr (js_String env value) else failed ''Value is not a valid time'')"

definition tryToParseArray :: "'d std_env \<Rightarrow> json \<Rightarrow> js_error + json list" where
  "tryToParseArray env value =
     (case value of
        JArr xs \<Rightarrow> Inr xs
      | _ \<Rightarrow>
          (let text = js_String env value;
               parsed = (case se_JSONparse env text of
                           Some v \<Rightarrow> Some v
                         | None \<Rightarrow> se_JSONparse env (map (\<lambda>c. if c = single_quote then double_quote else c) text))
           in case parsed of Some (JArr xs) \<Rightarrow> Inr xs | _ \<Rightarrow> failed ''Value is not a valid array''))"

definition tryToParseObject :: "'d std_env \<Rightarrow> json \<Rightarrow> js_error + json" where
  "tryToParseObject env value =
     (case value of
        JObj kvs \<Rightarrow> Inr value
      | _ \<Rightarrow>
          (case se_jsonParse env (js_String env value) of
             Some (JObj kvs) \<Rightarrow> Inr (JObj kvs)
           | Some JNull \<Rightarrow> Inr JNull
           | _ \<Rightarrow> failed ''Value is not a valid object''))"

definition ALLOWED_URL_PROTOCOLS :: "string list" where
  "ALLOWED_URL_PROTOCOLS = [''http:'', ''https:'', ''ftp:'', ''file:'']"

definition with_protocol :: "json \<Rightarrow> json" where
  "with_protocol value =
     (case value of JStr s \<Rightarrow> if includes_str ''://'' s then value else JStr (''https://'' @ s) | _ \<Rightarrow> value)"

definition not_valid_text :: "'d std_env \<Rightarrow> json \<Rightarrow> string \<Rightarrow> string" where
  "not_valid_text env value what = ''The value '' @ quoted double_quote (js_String env value) @ '' is not a valid '' @ what @ ''.''"

definition tryToParseUrl :: "'d std_env \<Rightarrow> json \<Rightarrow> js_error + string" where
  "tryToParseUrl env value =
     (let value' = with_protocol value; s = js_String env value'
      in case se_urlProtocol env s of
           Some protocol \<Rightarrow> if protocol \<in> set ALLOWED_URL_PROTOCOLS then Inr s else failed (not_valid_text env value' ''url'')
         | None \<Rightarrow> failed (not_valid_text env value' ''url''))"

definition tryToParseJwt :: "'d std_env \<Rightarrow> json \<Rightarrow> js_error + string" where
  "tryToParseJwt env value =
     (if truthy value \<and> is_jwt (js_String env value) then Inr (js_String env value)
      else failed (not_valid_text env value ''JWT token''))"

subsection \<open>Form fields\<close>

definition ALLOWED_FORM_FIELDS_KEYS :: "string list" where
  "ALLOWED_FORM_FIELDS_KEYS =
     [''fieldLabel'', ''fieldType'', ''placeholder'', ''defaultValue'', ''fieldOptions'', ''multiselect'', ''multipleFiles'',
      ''acceptFileTypes'', ''formatDate'', ''requiredField'', ''fieldValue'', ''elementName'', ''html'']"

definition ALLOWED_FIELD_TYPES :: "string list" where
  "ALLOWED_FIELD_TYPES =
     [''date'', ''dropdown'', ''email'', ''file'', ''number'', ''password'', ''text'', ''textarea'', ''checkbox'', ''radio'',
      ''html'', ''hiddenField'']"

definition escape_angles :: "string \<Rightarrow> string" where
  "escape_angles s = concat (map (\<lambda>c. if c = CHR ''<'' then ''&lt;'' else if c = CHR ''>'' then ''&gt;'' else [c]) s)"

definition not_json :: js_error where "not_json = ApplicationError ''Value is not valid JSON''"

text \<open>An option of a dropdown is an object with the one key \<open>option\<close>.\<close>

definition check_option :: "nat \<Rightarrow> nat \<Rightarrow> json \<Rightarrow> js_error + unit" where
  "check_option index optionIndex o' =
     (let bad = failed (''Field dropdown in field '' @ nat_str index @ '' has an invalid option '' @ nat_str optionIndex)
      in case o' of
           JNull \<Rightarrow> Inl not_json
         | JObj kvs \<Rightarrow> if length kvs \<noteq> 1 \<or> map_option js_typeof (obj_get kvs ''option'') \<noteq> Some ''string'' then bad else Inr ()
         | _ \<Rightarrow> bad)"

definition check_options :: "nat \<Rightarrow> json \<Rightarrow> js_error + json" where
  "check_options index v =
     (let v' = (case v of JArr xs \<Rightarrow> JObj [(''values'', JArr xs)] | _ \<Rightarrow> v);
          bad = failed (''Field dropdown in field '' @ nat_str index @ '' does has no '' @ quoted single_quote ''values'' @
                  '' property that contain an array of options'')
      in case v' of
           JNull \<Rightarrow> Inl not_json
         | JObj kvs \<Rightarrow>
             (case obj_get kvs ''values'' of
                None \<Rightarrow> bad
              | Some vs \<Rightarrow>
                  if \<not> truthy vs then bad
                  else case vs of
                         JArr os \<Rightarrow> bindE (foldE (\<lambda>(i, o') u. check_option index i o') (zip [0..<length os] os) ()) (\<lambda>u. Inr v')
                       | _ \<Rightarrow> Inl not_json)
         | _ \<Rightarrow> bad)"

definition clean_value :: "'d std_env \<Rightarrow> string \<Rightarrow> json \<Rightarrow> json" where
  "clean_value env key v =
     (if key \<noteq> ''fieldOptions'' \<and> (is_reference v \<or> v = JNull) then JStr (js_String env v)
      else case v of JStr s \<Rightarrow> if key \<noteq> ''html'' then JStr (escape_angles s) else v | _ \<Rightarrow> v)"

definition key_not_valid :: "nat \<Rightarrow> string \<Rightarrow> string" where
  "key_not_valid index key = ''Key '' @ quoted single_quote key @ '' in field '' @ nat_str index @ '' is not valid for form fields''"

definition form_key :: "'d std_env \<Rightarrow> nat \<Rightarrow> string \<Rightarrow> json obj \<Rightarrow> js_error + json obj" where
  "form_key env index key field =
     (if key \<notin> set ALLOWED_FORM_FIELDS_KEYS then failed (key_not_valid index key)
      else case obj_get field key of
             None \<Rightarrow> Inr field
           | Some v \<Rightarrow>
               (let v' = clean_value env key v
                in if key = ''fieldType'' \<and> v' \<notin> JStr ` set ALLOWED_FIELD_TYPES
                   then failed (''Field type '' @ quoted single_quote (js_String env v') @ '' in field '' @ nat_str index @
                          '' is not valid for form fields'')
                   else if key = ''fieldOptions'' then bindE (check_options index v') (\<lambda>w. Inr (obj_set key w field))
                   else Inr (obj_set key v' field)))"

text \<open>The keys of a string are indexes, which are not allowed; other values have none, and \<open>null\<close> throws.\<close>

definition form_field :: "'d std_env \<Rightarrow> nat \<Rightarrow> json \<Rightarrow> js_error + json" where
  "form_field env index field =
     (case field of
        JNull \<Rightarrow> Inl not_json
      | JObj kvs \<Rightarrow> bindE (foldE (form_key env index) (map fst (obj_entries kvs)) kvs) (\<lambda>kvs'. Inr (JObj kvs'))
      | JStr s \<Rightarrow> if s = [] then Inr field else failed (key_not_valid index ''0'')
      | JArr xs \<Rightarrow> if xs = [] then Inr field else failed (key_not_valid index ''0'')
      | _ \<Rightarrow> Inr field)"

text \<open>\<open>value as string\<close> does not convert; parsing what is no string reads what it is converted to.\<close>

definition tryToParseJsonToFormFields :: "'d std_env \<Rightarrow> json \<Rightarrow> js_error + json list" where
  "tryToParseJsonToFormFields env value =
     (case se_jsonParse env (js_String env value) of
        Some (JArr rawFields) \<Rightarrow> mapE (\<lambda>(i, f). form_field env i f) (zip [0..<length rawFields] rawFields)
      | _ \<Rightarrow> Inl not_json)"

subsection \<open>Validating a field\<close>

datatype field_type =
    FString | FAlphanumeric | FNumber | FBoolean | FDateTime | FTime | FObject | FArray | FOptions | FUrl | FJwt | FFormFields

definition type_text :: "field_type \<Rightarrow> string" where
  "type_text t = (case t of
     FString \<Rightarrow> ''string'' | FAlphanumeric \<Rightarrow> ''string-alphanumeric'' | FNumber \<Rightarrow> ''number'' | FBoolean \<Rightarrow> ''boolean''
   | FDateTime \<Rightarrow> ''dateTime'' | FTime \<Rightarrow> ''time'' | FObject \<Rightarrow> ''object'' | FArray \<Rightarrow> ''array'' | FOptions \<Rightarrow> ''options''
   | FUrl \<Rightarrow> ''url'' | FJwt \<Rightarrow> ''jwt'' | FFormFields \<Rightarrow> ''form-fields'')"

definition getValueDescription :: "'d std_env \<Rightarrow> json \<Rightarrow> string" where
  "getValueDescription env value =
     (case value of
        JArr xs \<Rightarrow> ''array''
      | JObj kvs \<Rightarrow> ''object''
      | _ \<Rightarrow> quoted single_quote (js_String env value))"

record validate_options =
  vo_valueOptions :: "json list"
  vo_strict :: bool
  vo_parseStrings :: bool

datatype 'd validation = Valid "'d field_value option" | Invalid string

definition attempt_value :: "(js_error \<Rightarrow> string) \<Rightarrow> ('a \<Rightarrow> 'd field_value) \<Rightarrow> js_error + 'a \<Rightarrow> 'd validation" where
  "attempt_value msg f r = (case r of Inl e \<Rightarrow> Invalid (msg e) | Inr v \<Rightarrow> Valid (Some (f v)))"

definition error_text :: "js_error \<Rightarrow> string" where
  "error_text e = (case e of ApplicationError s \<Rightarrow> s | _ \<Rightarrow> [])"

definition expects :: "'d std_env \<Rightarrow> string \<Rightarrow> string \<Rightarrow> json \<Rightarrow> string" where
  "expects env fieldName what value =
     quoted single_quote fieldName @ '' expects '' @ what @ '' but we got '' @ getValueDescription env value"

definition luxonDocsURL :: string where
  "luxonDocsURL = ''https://moment.github.io/luxon/api-docs/index.html#datetimefromformat''"

definition validateFieldType ::
  "'d std_env \<Rightarrow> string \<Rightarrow> json option \<Rightarrow> field_type \<Rightarrow> validate_options \<Rightarrow> 'd validation" where
  "validateFieldType env fieldName value' type options =
     (case value' of
        None \<Rightarrow> Valid None
      | Some JNull \<Rightarrow> Valid None
      | Some value \<Rightarrow>
          (let defaultErrorMessage = expects env fieldName (''a '' @ type_text type) value;
               default = (\<lambda>_. defaultErrorMessage); strict = vo_strict options
           in case type of
                FString \<Rightarrow>
                  if \<not> vo_parseStrings options then Valid (Some (Plain value))
                  else if strict \<and> js_typeof value \<noteq> ''string'' then Invalid defaultErrorMessage
                  else Valid (Some (Plain (JStr (tryToParseString env value))))
              | FAlphanumeric \<Rightarrow>
                  attempt_value (\<lambda>_. ''Value is not a valid alphanumeric string, only letters, numbers and underscore allowed'')
                    (Plain \<circ> JStr) (tryToParseAlphanumericString env value)
              | FNumber \<Rightarrow>
                  if strict \<and> js_typeof value \<noteq> ''number'' then Invalid defaultErrorMessage
                  else attempt_value default id (tryToParseNumber env value)
              | FBoolean \<Rightarrow>
                  if strict \<and> js_typeof value \<noteq> ''boolean'' then Invalid defaultErrorMessage
                  else attempt_value default (Plain \<circ> JBool) (tryToParseBoolean env value)
              | FDateTime \<Rightarrow>
                  attempt_value (\<lambda>_. defaultErrorMessage @ '' <br/><br/> Consider using <a href='' @ quoted double_quote luxonDocsURL @
                      '' target='' @ quoted double_quote ''_blank'' @
                      ''><code>DateTime.fromFormat</code></a> to work with custom date formats.'')
                    DateTime (tryToParseDateTime env value)
              | FTime \<Rightarrow> attempt_value (\<lambda>_. expects env fieldName ''time (hh:mm:(:ss))'' value @ ''.'') (Plain \<circ> JStr) (tryToParseTime env value)
              | FObject \<Rightarrow>
                  if strict \<and> \<not> is_reference value then Invalid defaultErrorMessage
                  else attempt_value default Plain (tryToParseObject env value)
              | FArray \<Rightarrow>
                  if strict \<and> \<not> isArray value then Invalid defaultErrorMessage
                  else attempt_value default (Plain \<circ> JArr) (tryToParseArray env value)
              | FOptions \<Rightarrow>
                  if is_reference value \<or> value \<notin> set (vo_valueOptions options)
                  then Invalid (expects env fieldName (''one of the following values: ['' @
                         join_with '', '' (map (js_String env) (vo_valueOptions options)) @ '']'') value)
                  else Valid (Some (Plain value))
              | FUrl \<Rightarrow> attempt_value default (Plain \<circ> JStr) (tryToParseUrl env value)
              | FJwt \<Rightarrow> attempt_value (\<lambda>_. ''Value is not a valid JWT token'') (Plain \<circ> JStr) (tryToParseJwt env value)
              | FFormFields \<Rightarrow> attempt_value error_text (Plain \<circ> JArr) (tryToParseJsonToFormFields env value)))"

end
