(* ===== verification/TypeValidationFacts.thy ===== *)
theory TypeValidationFacts
  imports TypeValidation
begin

section \<open>A valid value has its type\<close>

text \<open>
  The value that validation gives is of the type of the field, up to two surprises that are part of \<open>has_field_type\<close>:
  an object may be \<open>null\<close>, and a form field need not be an object. Validating the value again changes nothing, for most
  types.
\<close>

subsection \<open>Types\<close>

definition form_entry_ok :: "string \<Rightarrow> json \<Rightarrow> bool" where
  "form_entry_ok k v \<longleftrightarrow> k \<in> set ALLOWED_FORM_FIELDS_KEYS
     \<and> (k = ''fieldType'' \<longrightarrow> v \<in> JStr ` set ALLOWED_FIELD_TYPES)
     \<and> (k \<noteq> ''fieldOptions'' \<longrightarrow> js_typeof v \<in> {''string'', ''number'', ''boolean''})
     \<and> (k = ''fieldOptions'' \<longrightarrow> (\<exists>kvs os. v = JObj kvs \<and> obj_get kvs ''values'' = Some (JArr os)
          \<and> (\<forall>o' \<in> set os. \<exists>okvs s. o' = JObj okvs \<and> length okvs = 1 \<and> obj_get okvs ''option'' = Some (JStr s))))"

definition form_field_ok :: "json \<Rightarrow> bool" where
  "form_field_ok v \<longleftrightarrow> v \<noteq> JNull \<and> (\<forall>kvs k w. v = JObj kvs \<longrightarrow> obj_get kvs k = Some w \<longrightarrow> form_entry_ok k w)"

definition has_field_type :: "'d std_env \<Rightarrow> validate_options \<Rightarrow> field_type \<Rightarrow> 'd field_value \<Rightarrow> bool" where
  "has_field_type env options t v \<longleftrightarrow>
     (case t of
        FString \<Rightarrow> \<exists>s. v = Plain (JStr s)
      | FAlphanumeric \<Rightarrow> \<exists>s. v = Plain (JStr s) \<and> is_alphanumeric s
      | FNumber \<Rightarrow> (\<exists>n. v = Plain (JNum n)) \<or> (\<exists>neg. v = Infinite neg)
      | FBoolean \<Rightarrow> \<exists>b. v = Plain (JBool b)
      | FDateTime \<Rightarrow> \<exists>d. v = DateTime d
      | FTime \<Rightarrow> \<exists>s. v = Plain (JStr s) \<and> is_time s
      | FObject \<Rightarrow> (\<exists>kvs. v = Plain (JObj kvs)) \<or> v = Plain JNull
      | FArray \<Rightarrow> \<exists>xs. v = Plain (JArr xs)
      | FOptions \<Rightarrow> \<exists>w \<in> set (vo_valueOptions options). v = Plain w
      | FUrl \<Rightarrow> \<exists>s p. v = Plain (JStr s) \<and> se_urlProtocol env s = Some p \<and> p \<in> set ALLOWED_URL_PROTOCOLS
      | FJwt \<Rightarrow> \<exists>s. v = Plain (JStr s) \<and> is_jwt s
      | FFormFields \<Rightarrow> \<exists>xs. v = Plain (JArr xs) \<and> (\<forall>x \<in> set xs. form_field_ok x))"

subsection \<open>Form fields\<close>

lemma foldE_unit: "foldE (\<lambda>x u. f x) xs () = Inr () \<Longrightarrow> x \<in> set xs \<Longrightarrow> f x = Inr ()"
  by (induction xs) (auto simp: bindE_eq_Inr)

lemma check_option_ok:
  "check_option i j o' = Inr () \<Longrightarrow> \<exists>kvs s. o' = JObj kvs \<and> length kvs = 1 \<and> obj_get kvs ''option'' = Some (JStr s)"
  by (auto simp: check_option_def failed_def js_typeof_def Let_def split: json.splits if_splits option.splits)

lemma check_options_ok:
  assumes "check_options i v = Inr w"
  shows "form_entry_ok ''fieldOptions'' w"
proof -
  from assms obtain kvs os where w: "w = JObj kvs" "obj_get kvs ''values'' = Some (JArr os)"
    and os: "foldE (\<lambda>(j, o') u. check_option i j o') (zip [0..<length os] os) () = Inr ()"
    by (auto simp: check_options_def failed_def Let_def bindE_eq_Inr split: json.splits option.splits if_splits)
  have "\<exists>kvs s. o' = JObj kvs \<and> length kvs = 1 \<and> obj_get kvs ''option'' = Some (JStr s)" if o': "o' \<in> set os" for o'
  proof -
    from o' obtain j where "j < length os" "os ! j = o'" by (auto simp: in_set_conv_nth)
    then have "(j, o') \<in> set (zip [0..<length os] os)" by (auto simp: set_zip intro!: exI [of _ j])
    then have "check_option i j o' = Inr ()"
      using foldE_unit [of "\<lambda>(j, o'). check_option i j o'" "zip [0..<length os] os" "(j, o')"] os by (simp add: case_prod_unfold)
    then show ?thesis by (rule check_option_ok)
  qed
  then show ?thesis using w by (auto simp: form_entry_ok_def ALLOWED_FORM_FIELDS_KEYS_def)
qed

lemma clean_value_primitive: "k \<noteq> ''fieldOptions'' \<Longrightarrow> js_typeof (clean_value env k v) \<in> {''string'', ''number'', ''boolean''}"
  by (cases v) (auto simp: clean_value_def js_typeof_def is_reference_def)

text \<open>Afterwards the entry of the key is in order and the others are as they were.\<close>

lemma form_key_ok:
  assumes "form_key env i k kvs = Inr kvs'"
  shows "k \<in> set ALLOWED_FORM_FIELDS_KEYS" "obj_get kvs' k = Some w \<Longrightarrow> form_entry_ok k w"
    "k' \<noteq> k \<Longrightarrow> obj_get kvs' k' = obj_get kvs k'"
proof -
  from assms show k: "k \<in> set ALLOWED_FORM_FIELDS_KEYS" by (auto simp: form_key_def failed_def split: if_splits)
  consider (absent) "obj_get kvs k = None" "kvs' = kvs"
    | (options) v w where "k = ''fieldOptions''" "check_options i v = Inr w" "kvs' = obj_set k w kvs"
    | (cleaned) v where "k \<noteq> ''fieldOptions''" "kvs' = obj_set k (clean_value env k v) kvs"
        "k = ''fieldType'' \<longrightarrow> clean_value env k v \<in> JStr ` set ALLOWED_FIELD_TYPES"
    using assms k by (auto simp: form_key_def failed_def Let_def bindE_eq_Inr split: option.splits if_splits)
  then have "(obj_get kvs' k = Some w \<longrightarrow> form_entry_ok k w) \<and> (k' \<noteq> k \<longrightarrow> obj_get kvs' k' = obj_get kvs k')"
  proof cases
    case (options v w)
    then show ?thesis using check_options_ok by (auto simp: obj_get_set)
  next
    case (cleaned v)
    then show ?thesis using clean_value_primitive [of k env v] k by (auto simp: obj_get_set form_entry_ok_def)
  qed auto
  then show "obj_get kvs' k = Some w \<Longrightarrow> form_entry_ok k w" "k' \<noteq> k \<Longrightarrow> obj_get kvs' k' = obj_get kvs k'" by blast+
qed

lemma form_keys_ok:
  "foldE (form_key env i) ks kvs = Inr kvs' \<Longrightarrow>
   (\<forall>k \<in> set ks. \<forall>w. obj_get kvs' k = Some w \<longrightarrow> form_entry_ok k w) \<and> (\<forall>k. k \<notin> set ks \<longrightarrow> obj_get kvs' k = obj_get kvs k)"
proof (induction ks arbitrary: kvs)
  case (Cons k ks)
  then obtain m where m: "form_key env i k kvs = Inr m" "foldE (form_key env i) ks m = Inr kvs'" by (auto simp: bindE_eq_Inr)
  note IH = Cons.IH [OF m(2)] and ok = form_key_ok [OF m(1)]
  show ?case
  proof (intro conjI ballI allI impI)
    fix k' w assume "k' \<in> set (k # ks)" "obj_get kvs' k' = Some w"
    then show "form_entry_ok k' w" using IH ok(2) by (cases "k' \<in> set ks") auto
  next
    fix k' assume "k' \<notin> set (k # ks)"
    then show "obj_get kvs' k' = obj_get kvs k'" using IH ok(3) [of k'] by auto
  qed
qed simp

lemma form_field_typed:
  assumes "form_field env i v = Inr w"
  shows "form_field_ok w"
proof (cases v)
  case (JObj kvs)
  with assms obtain kvs' where kvs': "foldE (form_key env i) (map fst (obj_entries kvs)) kvs = Inr kvs'" "w = JObj kvs'"
    by (auto simp: form_field_def bindE_eq_Inr)
  note ok = form_keys_ok [OF kvs'(1)]
  have "form_entry_ok k x" if "obj_get kvs' k = Some x" for k x
  proof (cases "k \<in> set (map fst (obj_entries kvs))")
    case False
    then have "obj_get kvs k = Some x" using ok that by simp
    then have "k \<in> fst ` set kvs" by (auto dest: map_of_SomeD intro: rev_image_eqI)
    then show ?thesis using False by (auto simp: obj_entries_def)
  qed (use ok that in auto)
  then show ?thesis using kvs' by (simp add: form_field_ok_def)
qed (use assms in \<open>auto simp: form_field_def form_field_ok_def failed_def split: if_splits\<close>)

lemma mapE_all: "mapE f xs = Inr ys \<Longrightarrow> (\<And>x y. f x = Inr y \<Longrightarrow> P y) \<Longrightarrow> \<forall>y \<in> set ys. P y"
  by (induction xs arbitrary: ys) (auto simp: bindE_eq_Inr)

lemma form_fields_typed:
  assumes "tryToParseJsonToFormFields env v = Inr xs" "x \<in> set xs"
  shows "form_field_ok x"
proof -
  from assms(1) obtain raw where "mapE (\<lambda>(i, f). form_field env i f) (zip [0..<length raw] raw) = Inr xs"
    by (auto simp: tryToParseJsonToFormFields_def not_json_def split: option.splits json.splits)
  then have "\<forall>x \<in> set xs. form_field_ok x" by (rule mapE_all) (auto intro: form_field_typed)
  then show ?thesis using assms(2) by blast
qed

subsection \<open>Validation\<close>

lemma attempt_Valid: "attempt_value msg f r = Valid v \<longleftrightarrow> (\<exists>x. r = Inr x \<and> v = Some (f x))"
  by (auto simp: attempt_value_def split: sum.split)

lemma number_typed: "tryToParseNumber env w = Inr v \<Longrightarrow> (\<exists>n. v = Plain (JNum n)) \<or> (\<exists>neg. v = Infinite neg)"
  by (auto simp: tryToParseNumber_def failed_def split: option.splits js_num.splits)

lemma object_typed: "tryToParseObject env w = Inr v \<Longrightarrow> (\<exists>kvs. v = JObj kvs) \<or> v = JNull"
  by (auto simp: tryToParseObject_def failed_def split: json.splits option.splits)

lemma field_value_typed':
  assumes "validateFieldType env n (Some value) t options = Valid (Some v)"
    and "t = FString \<Longrightarrow> vo_parseStrings options"
  shows "has_field_type env options t v"
proof (cases t)
  case FFormFields
  then obtain xs where "tryToParseJsonToFormFields env value = Inr xs" "v = Plain (JArr xs)"
    using assms(1) by (auto simp: validateFieldType_def Let_def attempt_Valid split: json.splits)
  then show ?thesis using form_fields_typed FFormFields by (auto simp: has_field_type_def)
next
  case FNumber
  then have "tryToParseNumber env value = Inr v"
    using assms(1) by (auto simp: validateFieldType_def Let_def attempt_Valid split: json.splits if_splits)
  then show ?thesis using number_typed FNumber by (auto simp: has_field_type_def)
next
  case FObject
  then obtain w where "tryToParseObject env value = Inr w" "v = Plain w"
    using assms(1) by (auto simp: validateFieldType_def Let_def attempt_Valid split: json.splits if_splits)
  then show ?thesis using object_typed FObject by (auto simp: has_field_type_def)
next
  case FAlphanumeric
  then obtain s where "tryToParseAlphanumericString env value = Inr s" "v = Plain (JStr s)"
    using assms(1) by (auto simp: validateFieldType_def Let_def attempt_Valid split: json.splits)
  then show ?thesis using FAlphanumeric
    by (auto simp: has_field_type_def tryToParseAlphanumericString_def failed_def Let_def split: if_splits)
next
  case FTime
  then obtain s where "tryToParseTime env value = Inr s" "v = Plain (JStr s)"
    using assms(1) by (auto simp: validateFieldType_def Let_def attempt_Valid split: json.splits)
  then show ?thesis using FTime by (auto simp: has_field_type_def tryToParseTime_def failed_def split: if_splits)
next
  case FUrl
  then obtain s where "tryToParseUrl env value = Inr s" "v = Plain (JStr s)"
    using assms(1) by (auto simp: validateFieldType_def Let_def attempt_Valid split: json.splits)
  then show ?thesis using FUrl
    by (auto simp: has_field_type_def tryToParseUrl_def Let_def failed_def split: option.splits if_splits)
next
  case FJwt
  then obtain s where "tryToParseJwt env value = Inr s" "v = Plain (JStr s)"
    using assms(1) by (auto simp: validateFieldType_def Let_def attempt_Valid split: json.splits)
  then show ?thesis using FJwt by (auto simp: has_field_type_def tryToParseJwt_def failed_def split: if_splits)
qed (use assms in \<open>auto simp: validateFieldType_def has_field_type_def Let_def attempt_Valid split: json.splits if_splits\<close>)

lemma string_as_it_is:
  assumes "validateFieldType env n (Some value) FString options = Valid (Some v)" "\<not> vo_parseStrings options"
  shows "v = Plain value"
  using assms by (cases "value") (auto simp: validateFieldType_def)

text \<open>
  C34: A value that validation gives for a type is of that type, except that for a string, unless strings are to be
  parsed, any value is given back as it is. Here an object is an object or \<open>null\<close>, a number may be infinite, an option is one
  of the given values, a URL has an allowed protocol, alphanumeric texts, times and tokens match their patterns, and form
  fields are an array of entries that are not \<open>null\<close>: those that are objects have only allowed keys, known field
  types and primitive values, and every dropdown has a list of options; the others are not looked at.
\<close>

theorem field_value_typed:
  assumes "validateFieldType env n (Some value) t options = Valid (Some v)"
  shows "if t = FString \<and> \<not> vo_parseStrings options then v = Plain value else has_field_type env options t v"
proof (cases "t = FString \<and> \<not> vo_parseStrings options")
  case True
  then have "t = FString" "\<not> vo_parseStrings options" by simp_all
  then show ?thesis using string_as_it_is [of env n "value" options v] assms by simp
next
  case False
  then have "has_field_type env options t v" using field_value_typed' [OF assms] by blast
  then show ?thesis unfolding if_not_P [OF False] .
qed

subsection \<open>Validating again\<close>

lemma url_again:
  assumes "tryToParseUrl env (JStr s) = Inr u"
  shows "tryToParseUrl env (JStr u) = Inr u"
proof -
  have "includes_str ''://'' u"
  proof (cases "includes_str ''://'' s")
    case False
    then have "u = ''https://'' @ s"
      using assms by (auto simp: tryToParseUrl_def with_protocol_def Let_def failed_def split: option.splits if_splits)
    then have "u = ''https'' @ ''://'' @ s" by simp
    then show ?thesis unfolding includes_str_iff by blast
  qed (use assms in \<open>auto simp: tryToParseUrl_def with_protocol_def Let_def failed_def split: option.splits if_splits\<close>)
  moreover have "\<exists>p. se_urlProtocol env u = Some p \<and> p \<in> set ALLOWED_URL_PROTOCOLS"
    using assms by (auto simp: tryToParseUrl_def Let_def failed_def split: option.splits if_splits)
  ultimately show ?thesis by (auto simp: tryToParseUrl_def with_protocol_def Let_def)
qed

lemma string_again: "tryToParseString env (JStr s) = s"
  by (simp add: tryToParseString_def is_reference_def)

text \<open>
  Validating the value that a validation gave changes nothing: it is valid, and it is given back as it is. This is so
  for all types but dates and form fields, whose new value is no text any more, and for values other than \<open>null\<close>; for a
  URL the first value has to be a string.
\<close>

lemma field_value_stable:
  assumes "validateFieldType env n (Some value) t options = Valid (Some (Plain w))" "w \<noteq> JNull"
    and "t \<noteq> FFormFields" "t = FUrl \<Longrightarrow> js_typeof value = ''string''"
  shows "validateFieldType env n (Some w) t options = Valid (Some (Plain w))"
proof (cases t)
  case FString
  show ?thesis
  proof (cases "vo_parseStrings options")
    case True
    then have "w = JStr (tryToParseString env value)"
      using FString assms(1) by (auto simp: validateFieldType_def Let_def split: json.splits if_splits)
    then show ?thesis using FString True by (simp add: validateFieldType_def Let_def js_typeof_def string_again)
  next
    case False
    then show ?thesis using FString assms(1,2) by (cases w) (simp_all add: validateFieldType_def)
  qed
next
  case FAlphanumeric
  then obtain s where "tryToParseAlphanumericString env value = Inr s" "w = JStr s"
    using assms(1) by (auto simp: validateFieldType_def Let_def attempt_Valid split: json.splits)
  then show ?thesis using FAlphanumeric
    by (auto simp: validateFieldType_def attempt_Valid tryToParseAlphanumericString_def string_again failed_def Let_def split: if_splits)
next
  case FNumber
  then have "tryToParseNumber env value = Inr (Plain w)"
    using assms(1) by (auto simp: validateFieldType_def Let_def attempt_Valid split: json.splits if_splits)
  then obtain k where "w = JNum k" using number_typed by blast
  then show ?thesis using FNumber by (simp add: validateFieldType_def Let_def attempt_Valid js_typeof_def tryToParseNumber_def)
next
  case FBoolean
  then obtain b where "w = JBool b"
    using assms(1) by (auto simp: validateFieldType_def Let_def attempt_Valid split: json.splits if_splits)
  then show ?thesis using FBoolean by (simp add: validateFieldType_def Let_def attempt_Valid js_typeof_def tryToParseBoolean_def)
next
  case FDateTime
  then show ?thesis using assms(1) by (auto simp: validateFieldType_def Let_def attempt_Valid split: json.splits)
next
  case FTime
  then obtain s where "tryToParseTime env value = Inr s" "w = JStr s"
    using assms(1) by (auto simp: validateFieldType_def Let_def attempt_Valid split: json.splits)
  then show ?thesis using FTime
    by (auto simp: validateFieldType_def attempt_Valid tryToParseTime_def failed_def Let_def split: if_splits)
next
  case FObject
  then have "tryToParseObject env value = Inr w"
    using assms(1) by (auto simp: validateFieldType_def Let_def attempt_Valid split: json.splits if_splits)
  then obtain kvs where "w = JObj kvs" using object_typed assms(2) by blast
  then show ?thesis using FObject by (simp add: validateFieldType_def Let_def attempt_Valid is_reference_def tryToParseObject_def)
next
  case FArray
  then obtain xs where "w = JArr xs"
    using assms(1) by (auto simp: validateFieldType_def Let_def attempt_Valid split: json.splits if_splits)
  then show ?thesis using FArray by (simp add: validateFieldType_def Let_def attempt_Valid isArray_def tryToParseArray_def)
next
  case FOptions
  then have "w = value" using assms(1) by (auto simp: validateFieldType_def Let_def split: json.splits if_splits)
  then show ?thesis using assms(1) by simp
next
  case FUrl
  then obtain u where u: "tryToParseUrl env value = Inr u" "w = JStr u"
    using assms(1) by (auto simp: validateFieldType_def Let_def attempt_Valid split: json.splits)
  from FUrl assms(4) obtain s where "value = JStr s" by (cases "value") (auto simp: js_typeof_def)
  then show ?thesis using url_again u FUrl by (simp add: validateFieldType_def Let_def attempt_Valid)
next
  case FJwt
  then obtain s where "tryToParseJwt env value = Inr s" "w = JStr s"
    using assms(1) by (auto simp: validateFieldType_def Let_def attempt_Valid split: json.splits)
  then show ?thesis using FJwt
    by (auto simp: validateFieldType_def attempt_Valid tryToParseJwt_def is_jwt_def failed_def Let_def split: if_splits)
qed (use assms(3) in simp)

subsection \<open>Examples\<close>

definition example_std :: "nat std_env" where
  "example_std = \<lparr>se_numberString = (\<lambda>_. ''1''), se_Number = (\<lambda>s. if s = [] then Some (NumFinite 0) else if s = ''1'' then Some (NumFinite 1) else None),
     se_stringify = (\<lambda>_. ''{}''), se_JSONparse = (\<lambda>s. if s = ''null'' then Some JNull else None),
     se_jsonParse = (\<lambda>s. if s = ''null'' then Some JNull else if s = ''[1]'' then Some (JArr [JNum 1]) else None),
     se_dateParsers = [], se_urlProtocol = (\<lambda>s. if starts_with ''https:'' s then Some ''https:'' else None)\<rparr>"

definition lenient :: validate_options where
  "lenient = \<lparr>vo_valueOptions = [], vo_strict = False, vo_parseStrings = True\<rparr>"

lemma example_time: "validateFieldType example_std ''at'' (Some (JStr ''12:30:59+0200'')) FTime lenient = Valid (Some (Plain (JStr ''12:30:59+0200'')))"
  by code_simp

lemma field_value_typed_witness: "has_field_type example_std lenient FTime (Plain (JStr ''12:30:59+0200''))"
  using field_value_typed [OF example_time] by simp

lemma example_url: "validateFieldType example_std ''link'' (Some (JStr ''n8n.io'')) FUrl lenient = Valid (Some (Plain (JStr ''https://n8n.io'')))"
  by code_simp

lemma url_valid_again:
  "validateFieldType example_std ''link'' (Some (JStr ''https://n8n.io'')) FUrl lenient = Valid (Some (Plain (JStr ''https://n8n.io'')))"
  by (rule field_value_stable [OF example_url]) (simp_all add: js_typeof_def)

text \<open>What passes although it should not: the text \<open>null\<close> as an object, an empty text and an empty list as a number,
  a list of numbers as form fields, and anything as a string unless strings are parsed.\<close>

lemma null_text_is_object: "validateFieldType example_std ''o'' (Some (JStr ''null'')) FObject lenient = Valid (Some (Plain JNull))"
  by code_simp

lemma empty_is_zero:
  "validateFieldType example_std ''n'' (Some (JStr [])) FNumber lenient = Valid (Some (Plain (JNum 0)))"
  "validateFieldType example_std ''n'' (Some (JArr [])) FNumber lenient = Valid (Some (Plain (JNum 0)))"
  by (simp_all add: validateFieldType_def lenient_def tryToParseNumber_def example_std_def attempt_value_def Let_def)

lemma number_is_form_field: "validateFieldType example_std ''f'' (Some (JStr ''[1]'')) FFormFields lenient = Valid (Some (Plain (JArr [JNum 1])))"
  by (simp add: validateFieldType_def lenient_def tryToParseJsonToFormFields_def form_field_def example_std_def attempt_value_def Let_def)

lemma strict_string_unchecked:
  "validateFieldType example_std ''s'' (Some (JBool True)) FString \<lparr>vo_valueOptions = [], vo_strict = True, vo_parseStrings = False\<rparr>
     = Valid (Some (Plain (JBool True)))"
  by code_simp

end
