(* ===== verification/AugmentObject.thy ===== *)
theory AugmentObject
  imports Complex_Main Machines
begin

section \<open>Data that expressions may change without changing the original\<close>

text \<open>
  \<open>packages/workflow/src/augment-object.ts\<close>: an expression gets proxies of the data of other nodes. A proxy of an
  object keeps what was written and what was deleted beside the object; a proxy of an array copies the array
  before the first change. What is read from a proxy is wrapped in a proxy in turn.

  The objects live in a heap, the list of all cells ever made; a reference is the position of a cell. Properties are
  data properties: names of the prototypes are outside, but for \<open>constructor\<close>, which the handlers of the proxies answer
  themselves, and so are the methods that data may have. A cell can always be extended: what \<open>Object.freeze\<close>,
  \<open>Object.preventExtensions\<close> and \<open>Object.setPrototypeOf\<close> do to it, for which the proxies have no trap either, is
  not part of the model.
\<close>

subsection \<open>The heap\<close>

datatype aval = UndefV | NullV | BoolV bool | NumV rat | StrV string | FunV string | RefV nat

text \<open>The functions are the constructors \<open>Object\<close> and \<open>Array\<close>. A slot of an array that is \<open>None\<close> is a hole. The last two cells are the proxies with their closures.\<close>

datatype cell =
    ObjCell "aval obj"
  | ArrCell "aval option list"
  | DateCell int
  | BytesCell "nat list"
  | RegExpCell string
  | ObjProxy nat "aval obj" "string list"
  | ArrProxy nat "aval option list option"

type_synonym heap = "cell list"

definition alloc :: "heap \<Rightarrow> cell \<Rightarrow> aval \<times> heap" where
  "alloc h c = (RefV (length h), h @ [c])"

definition own_value :: "heap \<Rightarrow> nat \<Rightarrow> string \<Rightarrow> aval option" where
  "own_value h t k = (case h ! t of ObjCell m \<Rightarrow> obj_get m k | _ \<Rightarrow> None)"

definition own_names :: "heap \<Rightarrow> nat \<Rightarrow> string list" where
  "own_names h t = (case h ! t of ObjCell m \<Rightarrow> obj_keys m | _ \<Rightarrow> [])"

definition elements :: "heap \<Rightarrow> nat \<Rightarrow> aval option list" where
  "elements h t = (case h ! t of ArrCell xs \<Rightarrow> xs | _ \<Rightarrow> [])"

definition or_undef :: "aval option \<Rightarrow> aval" where
  "or_undef v = (case v of Some x \<Rightarrow> x | None \<Rightarrow> UndefV)"

definition slot :: "aval option list \<Rightarrow> nat \<Rightarrow> aval option" where
  "slot xs i = (if i < length xs then xs ! i else None)"

definition write_slot :: "nat \<Rightarrow> aval \<Rightarrow> aval option list \<Rightarrow> aval option list" where
  "write_slot i v xs =
     (if i < length xs then xs[i := Some v] else xs @ replicate (i - length xs) None @ [Some v])"

definition set_length :: "nat \<Rightarrow> aval option list \<Rightarrow> aval option list" where
  "set_length n xs = take n xs @ replicate (n - length xs) None"

text \<open>\<open>[...data]\<close> reads every slot, so that a hole becomes \<open>undefined\<close>.\<close>

definition spread_array :: "aval option list \<Rightarrow> aval option list" where
  "spread_array xs = map (\<lambda>x. Some (or_undef x)) xs"

subsection \<open>Proxies\<close>

text \<open>\<open>augmentedObjects\<close> holds exactly the proxies.\<close>

definition augmentArray :: "heap \<Rightarrow> nat \<Rightarrow> aval \<times> heap" where
  "augmentArray h data = (case h ! data of ArrProxy _ _ \<Rightarrow> (RefV data, h) | _ \<Rightarrow> alloc h (ArrProxy data None))"

definition augmentObject :: "heap \<Rightarrow> nat \<Rightarrow> aval \<times> heap" where
  "augmentObject h data = (case h ! data of ObjProxy _ _ _ \<Rightarrow> (RefV data, h) | _ \<Rightarrow> alloc h (ObjProxy data [] []))"

definition augment :: "heap \<Rightarrow> aval \<Rightarrow> aval \<times> heap" where
  "augment h v =
     (case v of
        RefV a \<Rightarrow>
          (case h ! a of
             RegExpCell s \<Rightarrow> (v, h)
           | DateCell d \<Rightarrow> alloc h (DateCell d)
           | BytesCell b \<Rightarrow> alloc h (BytesCell b)
           | ArrCell xs \<Rightarrow> augmentArray h a
           | ArrProxy t d \<Rightarrow> augmentArray h a
           | _ \<Rightarrow> augmentObject h a)
      | _ \<Rightarrow> (v, h))"

subsection \<open>The handlers of an object\<close>

text \<open>\<open>toISO\<close> is \<open>Date.prototype.toJSON\<close>.\<close>

definition object_get :: "(int \<Rightarrow> string) \<Rightarrow> heap \<Rightarrow> nat \<Rightarrow> nat \<Rightarrow> aval obj \<Rightarrow> string list \<Rightarrow> string \<Rightarrow> aval \<times> heap" where
  "object_get toISO h self target newData deleted key =
     (if key = ''constructor'' then (FunV ''Object'', h)
      else if key \<in> set deleted then (UndefV, h)
      else case obj_get newData key of
             Some v \<Rightarrow> (v, h)
           | None \<Rightarrow>
               (case or_undef (own_value h target key) of
                  RefV a \<Rightarrow>
                    (case h ! a of
                       RegExpCell s \<Rightarrow> (StrV s, h)
                     | DateCell d \<Rightarrow> (StrV (toISO d), h)
                     | _ \<Rightarrow>
                         (case augment h (RefV a) of (newValue, h') \<Rightarrow>
                            if newValue \<noteq> RefV a
                            then (newValue, h'[self := ObjProxy target (obj_set key newValue newData) deleted])
                            else (RefV a, h')))
                | v \<Rightarrow> (v, h)))"

definition object_delete :: "heap \<Rightarrow> nat \<Rightarrow> nat \<Rightarrow> aval obj \<Rightarrow> string list \<Rightarrow> string \<Rightarrow> heap" where
  "object_delete h self target newData deleted key =
     h[self := ObjProxy target (obj_del key newData)
                 (if own_value h target key \<noteq> None then set_add key deleted else deleted)]"

definition object_set :: "heap \<Rightarrow> nat \<Rightarrow> nat \<Rightarrow> aval obj \<Rightarrow> string list \<Rightarrow> string \<Rightarrow> aval \<Rightarrow> heap" where
  "object_set h self target newData deleted key newValue =
     (if newValue = UndefV then object_delete h self target newData deleted key
      else h[self := ObjProxy target (obj_set key newValue newData) (set_del key deleted)])"

definition object_has :: "heap \<Rightarrow> nat \<Rightarrow> aval obj \<Rightarrow> string list \<Rightarrow> string \<Rightarrow> bool" where
  "object_has h target newData deleted key \<longleftrightarrow>
     key \<notin> set deleted \<and> (obj_has key newData \<or> own_value h target key \<noteq> None)"

definition object_ownKeys :: "heap \<Rightarrow> nat \<Rightarrow> aval obj \<Rightarrow> string list \<Rightarrow> string list" where
  "object_ownKeys h target newData deleted =
     filter (\<lambda>key. key \<notin> set deleted) (mk_set (own_names h target @ obj_keys newData))"

text \<open>The value in the descriptor of a property.\<close>

definition object_descriptor :: "heap \<Rightarrow> nat \<Rightarrow> aval obj \<Rightarrow> string list \<Rightarrow> string \<Rightarrow> aval option" where
  "object_descriptor h target newData deleted key =
     (if key \<in> set deleted then None else if obj_has key newData then obj_get newData key else own_value h target key)"

subsection \<open>The handlers of an array\<close>

definition current :: "heap \<Rightarrow> nat \<Rightarrow> aval option list option \<Rightarrow> aval option list" where
  "current h target newData = (case newData of Some xs \<Rightarrow> xs | None \<Rightarrow> elements h target)"

definition getData :: "heap \<Rightarrow> nat \<Rightarrow> aval option list option \<Rightarrow> aval option list" where
  "getData h target newData = (case newData of Some xs \<Rightarrow> xs | None \<Rightarrow> spread_array (elements h target))"

definition array_get :: "heap \<Rightarrow> nat \<Rightarrow> nat \<Rightarrow> aval option list option \<Rightarrow> nat \<Rightarrow> aval \<times> heap" where
  "array_get h self target newData key =
     (let v = or_undef (slot (current h target newData) key)
      in case augment h v of (newValue, h') \<Rightarrow>
           if newValue \<noteq> v
           then (newValue, h'[self := ArrProxy target (Some (write_slot key newValue (getData h target newData)))])
           else (v, h'))"

definition array_set :: "heap \<Rightarrow> nat \<Rightarrow> nat \<Rightarrow> aval option list option \<Rightarrow> nat \<Rightarrow> aval \<Rightarrow> heap" where
  "array_set h self target newData key newValue =
     (case augment h newValue of (v, h') \<Rightarrow> h'[self := ArrProxy target (Some (write_slot key v (getData h target newData)))])"

definition array_set_length :: "heap \<Rightarrow> nat \<Rightarrow> nat \<Rightarrow> aval option list option \<Rightarrow> nat \<Rightarrow> heap" where
  "array_set_length h self target newData n = h[self := ArrProxy target (Some (set_length n (getData h target newData)))]"

definition array_delete :: "heap \<Rightarrow> nat \<Rightarrow> nat \<Rightarrow> aval option list option \<Rightarrow> nat \<Rightarrow> heap" where
  "array_delete h self target newData key = h[self := ArrProxy target (Some ((getData h target newData)[key := None]))]"

definition array_has :: "heap \<Rightarrow> nat \<Rightarrow> aval option list option \<Rightarrow> nat \<Rightarrow> bool" where
  "array_has h target newData key \<longleftrightarrow> slot (current h target newData) key \<noteq> None"

text \<open>The value in a descriptor comes from the original; the default descriptor has none.\<close>

definition array_descriptor :: "heap \<Rightarrow> nat \<Rightarrow> nat \<Rightarrow> aval option" where
  "array_descriptor h target key = slot (elements h target) key"

subsection \<open>What a client can do\<close>

text \<open>Operations on a reference, whatever is behind it; what a cell does not have is \<open>undefined\<close> and ignores writes.\<close>

definition get_prop :: "(int \<Rightarrow> string) \<Rightarrow> heap \<Rightarrow> nat \<Rightarrow> string \<Rightarrow> aval \<times> heap" where
  "get_prop toISO h a key =
     (case h ! a of
        ObjCell m \<Rightarrow> (or_undef (obj_get m key), h)
      | ObjProxy t nd del \<Rightarrow> object_get toISO h a t nd del key
      | ArrProxy t nd \<Rightarrow> (if key = ''constructor'' then FunV ''Array'' else UndefV, h)
      | _ \<Rightarrow> (UndefV, h))"

definition get_index :: "heap \<Rightarrow> nat \<Rightarrow> nat \<Rightarrow> aval \<times> heap" where
  "get_index h a key =
     (case h ! a of
        ArrCell xs \<Rightarrow> (or_undef (slot xs key), h)
      | ArrProxy t nd \<Rightarrow> array_get h a t nd key
      | _ \<Rightarrow> (UndefV, h))"

definition set_prop :: "heap \<Rightarrow> nat \<Rightarrow> string \<Rightarrow> aval \<Rightarrow> heap" where
  "set_prop h a key v =
     (case h ! a of
        ObjCell m \<Rightarrow> h[a := ObjCell (obj_set key v m)]
      | ObjProxy t nd del \<Rightarrow> object_set h a t nd del key v
      | _ \<Rightarrow> h)"

definition set_index :: "heap \<Rightarrow> nat \<Rightarrow> nat \<Rightarrow> aval \<Rightarrow> heap" where
  "set_index h a key v =
     (case h ! a of
        ArrCell xs \<Rightarrow> h[a := ArrCell (write_slot key v xs)]
      | ArrProxy t nd \<Rightarrow> array_set h a t nd key v
      | _ \<Rightarrow> h)"

definition change_length :: "heap \<Rightarrow> nat \<Rightarrow> nat \<Rightarrow> heap" where
  "change_length h a n =
     (case h ! a of
        ArrCell xs \<Rightarrow> h[a := ArrCell (set_length n xs)]
      | ArrProxy t nd \<Rightarrow> array_set_length h a t nd n
      | _ \<Rightarrow> h)"

definition delete_prop :: "heap \<Rightarrow> nat \<Rightarrow> string \<Rightarrow> heap" where
  "delete_prop h a key =
     (case h ! a of
        ObjCell m \<Rightarrow> h[a := ObjCell (obj_del key m)]
      | ObjProxy t nd del \<Rightarrow> object_delete h a t nd del key
      | _ \<Rightarrow> h)"

definition delete_index :: "heap \<Rightarrow> nat \<Rightarrow> nat \<Rightarrow> heap" where
  "delete_index h a key =
     (case h ! a of
        ArrCell xs \<Rightarrow> h[a := ArrCell (xs[key := None])]
      | ArrProxy t nd \<Rightarrow> array_delete h a t nd key
      | _ \<Rightarrow> h)"

definition descriptor_prop :: "heap \<Rightarrow> nat \<Rightarrow> string \<Rightarrow> aval" where
  "descriptor_prop h a key =
     or_undef (case h ! a of
        ObjCell m \<Rightarrow> obj_get m key
      | ObjProxy t nd del \<Rightarrow> object_descriptor h t nd del key
      | _ \<Rightarrow> None)"

definition descriptor_index :: "heap \<Rightarrow> nat \<Rightarrow> nat \<Rightarrow> aval" where
  "descriptor_index h a key =
     or_undef (case h ! a of
        ArrCell xs \<Rightarrow> slot xs key
      | ArrProxy t nd \<Rightarrow> array_descriptor h t key
      | _ \<Rightarrow> None)"

text \<open>
  \<open>Object.defineProperty\<close> with a value and all attributes set: neither proxy has a trap for it, so that it acts on the
  target of the proxy.
\<close>

definition define_prop :: "heap \<Rightarrow> nat \<Rightarrow> string \<Rightarrow> aval \<Rightarrow> heap" where
  "define_prop h a key v =
     (let t = (case h ! a of ObjProxy t nd del \<Rightarrow> t | _ \<Rightarrow> a)
      in case h ! t of ObjCell m \<Rightarrow> h[t := ObjCell (obj_set key v m)] | _ \<Rightarrow> h)"

definition define_index :: "heap \<Rightarrow> nat \<Rightarrow> nat \<Rightarrow> aval \<Rightarrow> heap" where
  "define_index h a key v =
     (let t = (case h ! a of ArrProxy t nd \<Rightarrow> t | _ \<Rightarrow> a)
      in case h ! t of ArrCell xs \<Rightarrow> h[t := ArrCell (write_slot key v xs)] | _ \<Rightarrow> h)"

text \<open>
  The client uses the values it holds: it reads, writes, deletes, makes objects and arrays of its own, asks for
  descriptors and defines properties.
\<close>

datatype client_event =
    ReadKey nat string | ReadIndex nat nat
  | WriteKey nat string aval | WriteIndex nat nat aval | WriteLength nat nat
  | DeleteKey nat string | DeleteIndex nat nat
  | MakeObject "aval obj" | MakeArray "aval option list"
  | DescribeKey nat string | DescribeIndex nat nat
  | DefineKey nat string aval | DefineIndex nat nat aval

type_synonym client = "aval list \<times> heap"

definition usable :: "aval list \<Rightarrow> aval \<Rightarrow> bool" where
  "usable held v \<longleftrightarrow> v \<in> set held \<or> (\<forall>a. v \<noteq> RefV a)"

definition keeping :: "aval list \<Rightarrow> aval \<times> heap \<Rightarrow> client" where
  "keeping held r = (held @ [fst r], snd r)"

inductive client_step :: "(int \<Rightarrow> string) \<Rightarrow> client \<Rightarrow> client_event \<Rightarrow> client \<Rightarrow> bool" for toISO where
  read_key: "RefV a \<in> set held \<Longrightarrow> client_step toISO (held, h) (ReadKey a k) (keeping held (get_prop toISO h a k))"
| read_index: "RefV a \<in> set held \<Longrightarrow> client_step toISO (held, h) (ReadIndex a i) (keeping held (get_index h a i))"
| write_key: "RefV a \<in> set held \<Longrightarrow> usable held v \<Longrightarrow> client_step toISO (held, h) (WriteKey a k v) (held, set_prop h a k v)"
| write_index: "RefV a \<in> set held \<Longrightarrow> usable held v \<Longrightarrow> client_step toISO (held, h) (WriteIndex a i v) (held, set_index h a i v)"
| write_length: "RefV a \<in> set held \<Longrightarrow> client_step toISO (held, h) (WriteLength a n) (held, change_length h a n)"
| delete_key: "RefV a \<in> set held \<Longrightarrow> client_step toISO (held, h) (DeleteKey a k) (held, delete_prop h a k)"
| delete_index: "RefV a \<in> set held \<Longrightarrow> client_step toISO (held, h) (DeleteIndex a i) (held, delete_index h a i)"
| make_object: "list_all (usable held) (map snd m) \<Longrightarrow> client_step toISO (held, h) (MakeObject m) (keeping held (alloc h (ObjCell m)))"
| make_array: "list_all (\<lambda>x. usable held (or_undef x)) xs \<Longrightarrow> client_step toISO (held, h) (MakeArray xs) (keeping held (alloc h (ArrCell xs)))"
| describe_key: "RefV a \<in> set held \<Longrightarrow> client_step toISO (held, h) (DescribeKey a k) (keeping held (descriptor_prop h a k, h))"
| describe_index: "RefV a \<in> set held \<Longrightarrow> client_step toISO (held, h) (DescribeIndex a i) (keeping held (descriptor_index h a i, h))"
| define_key: "RefV a \<in> set held \<Longrightarrow> usable held v \<Longrightarrow> client_step toISO (held, h) (DefineKey a k v) (held, define_prop h a k v)"
| define_index: "RefV a \<in> set held \<Longrightarrow> usable held v \<Longrightarrow> client_step toISO (held, h) (DefineIndex a i v) (held, define_index h a i v)"

inductive_cases client_stepE: "client_step toISO s e s'"

text \<open>The client starts with the proxy of one object of the data.\<close>

definition new_client :: "heap \<Rightarrow> nat \<Rightarrow> client" where
  "new_client h start = (case augment h (RefV start) of (v, h') \<Rightarrow> ([v], h'))"

end
