(* ===== verification/AugmentFacts.thy ===== *)
theory AugmentFacts
  imports AugmentObject
begin

section \<open>What the proxies promise\<close>

text \<open>
  Whatever a client does with the proxy of some data and with what it reads from it, the data stays as it was. A proxy of
  an object behaves like an object of its own that has the properties of the original at first. Reading along a path
  gives what the data has there. Descriptors are not wrapped, and let the original be changed; so does
  \<open>Object.defineProperty\<close>, for which the proxies have no trap.
\<close>

subsection \<open>The heap grows\<close>

lemma nth_alloc: "a < length h \<Longrightarrow> (h @ [c]) ! a = h ! a"
  by (simp add: nth_append)

definition extends :: "heap \<Rightarrow> heap \<Rightarrow> bool" where
  "extends h h' \<longleftrightarrow> length h \<le> length h' \<and> (\<forall>a < length h. h' ! a = h ! a)"

lemma extends_refl [simp]: "extends h h" by (simp add: extends_def)

lemma augment_ref:
  "h ! a = ObjCell m \<Longrightarrow> augment h (RefV a) = (RefV (length h), h @ [ObjProxy a [] []])"
  "h ! a = ArrCell xs \<Longrightarrow> augment h (RefV a) = (RefV (length h), h @ [ArrProxy a None])"
  "h ! a = DateCell d \<Longrightarrow> augment h (RefV a) = (RefV (length h), h @ [DateCell d])"
  "h ! a = BytesCell b \<Longrightarrow> augment h (RefV a) = (RefV (length h), h @ [BytesCell b])"
  "h ! a = RegExpCell s \<Longrightarrow> augment h (RefV a) = (RefV a, h)"
  "h ! a = ObjProxy t nd del \<Longrightarrow> augment h (RefV a) = (RefV a, h)"
  "h ! a = ArrProxy t d' \<Longrightarrow> augment h (RefV a) = (RefV a, h)"
  by (simp_all add: augment_def augmentObject_def augmentArray_def alloc_def)

lemma augment_value: "\<forall>a. v \<noteq> RefV a \<Longrightarrow> augment h v = (v, h)"
  by (cases v) (simp_all add: augment_def)

lemma augment_alloc:
  "augment h v = (w, h') \<Longrightarrow> h' = h \<and> w = v \<or> (\<exists>c. h' = h @ [c] \<and> w = RefV (length h))"
  by (auto simp: augment_def augmentArray_def augmentObject_def alloc_def split: aval.splits cell.splits)

lemma augment_extends: "augment h v = (w, h') \<Longrightarrow> extends h h'"
  using augment_alloc [of h v w h'] by (auto simp: extends_def nth_append)

subsection \<open>Apart from the data\<close>

definition inside :: "nat \<Rightarrow> aval \<Rightarrow> bool" where
  "inside L v \<longleftrightarrow> (\<forall>a. v = RefV a \<longrightarrow> a < L)"

definition own_ref :: "nat \<Rightarrow> nat \<Rightarrow> aval \<Rightarrow> bool" where
  "own_ref n L v \<longleftrightarrow> (\<forall>a. v = RefV a \<longrightarrow> n \<le> a \<and> a < L)"

text \<open>Data of objects, arrays, dates and bytes whose references stay within it.\<close>

definition plain_cell :: "nat \<Rightarrow> cell \<Rightarrow> bool" where
  "plain_cell n c \<longleftrightarrow> (case c of
     ObjCell m \<Rightarrow> list_all (inside n) (map snd m)
   | ArrCell xs \<Rightarrow> list_all (\<lambda>x. inside n (or_undef x)) xs
   | DateCell d \<Rightarrow> True
   | BytesCell b \<Rightarrow> True
   | _ \<Rightarrow> False)"

definition plain_data :: "heap \<Rightarrow> bool" where
  "plain_data h \<longleftrightarrow> list_all (plain_cell (length h)) h"

definition cell_apart :: "nat \<Rightarrow> nat \<Rightarrow> cell \<Rightarrow> bool" where
  "cell_apart n L c \<longleftrightarrow> (case c of
     ObjCell m \<Rightarrow> (\<forall>v \<in> snd ` set m. own_ref n L v)
   | ArrCell xs \<Rightarrow> (\<forall>x \<in> set xs. own_ref n L (or_undef x))
   | ObjProxy t nd del \<Rightarrow> t < L \<and> (\<forall>v \<in> snd ` set nd. own_ref n L v)
   | ArrProxy t d \<Rightarrow> t < L \<and> (\<forall>xs. d = Some xs \<longrightarrow> (\<forall>x \<in> set xs. inside L (or_undef x)))
   | RegExpCell s \<Rightarrow> False
   | _ \<Rightarrow> True)"

definition heap_apart :: "heap \<Rightarrow> heap \<Rightarrow> bool" where
  "heap_apart h0 h \<longleftrightarrow> length h0 \<le> length h \<and> take (length h0) h = h0
     \<and> (\<forall>a. length h0 \<le> a \<and> a < length h \<longrightarrow> cell_apart (length h0) (length h) (h ! a))"

lemma inside_mono: "inside L v \<Longrightarrow> L \<le> L' \<Longrightarrow> inside L' v"
  by (auto simp: inside_def)

lemma own_mono: "own_ref n L v \<Longrightarrow> L \<le> L' \<Longrightarrow> own_ref n L' v"
  by (auto simp: own_ref_def)

lemma own_inside: "own_ref n L v \<Longrightarrow> inside L v"
  by (auto simp: own_ref_def inside_def)

lemma inside_simps [simp]: "inside L UndefV" "inside L (StrV s)" "inside L (FunV s)"
    "own_ref n L UndefV" "own_ref n L (StrV s)" "own_ref n L (FunV s)"
  by (simp_all add: inside_def own_ref_def)

lemma cell_apart_mono: "cell_apart n L c \<Longrightarrow> L \<le> L' \<Longrightarrow> cell_apart n L' c"
  by (cases c) (auto simp: cell_apart_def intro: own_mono inside_mono)

lemma apart_cell: "heap_apart h0 h \<Longrightarrow> length h0 \<le> a \<Longrightarrow> a < length h \<Longrightarrow> cell_apart (length h0) (length h) (h ! a)"
  by (simp add: heap_apart_def)

lemma apart_source:
  assumes "heap_apart h0 h" "plain_data h0" "a < length h0"
  shows "plain_cell (length h0) (h ! a)"
proof -
  have "h ! a = h0 ! a" using assms(1,3) by (metis heap_apart_def nth_take)
  then show ?thesis using assms(2,3) by (simp add: plain_data_def list_all_length)
qed

lemma apart_alloc:
  assumes "heap_apart h0 h" "cell_apart (length h0) (length h + 1) c"
  shows "heap_apart h0 (h @ [c])"
  using assms by (auto simp: heap_apart_def nth_append less_Suc_eq intro: cell_apart_mono)

lemma apart_write:
  assumes "heap_apart h0 h" "length h0 \<le> a" "cell_apart (length h0) (length h) c"
  shows "heap_apart h0 (h[a := c])"
proof -
  have "cell_apart (length h0) (length h) (h[a := c] ! b)" if "length h0 \<le> b" "b < length h" for b
    using assms that by (cases "b = a") (simp_all add: heap_apart_def)
  then show ?thesis using assms by (simp add: heap_apart_def)
qed

lemma apart_target:
  assumes "heap_apart h0 h" "plain_data h0" "t < length h"
  shows "own_value h t k = Some v \<Longrightarrow> inside (length h) v" "x \<in> set (elements h t) \<Longrightarrow> inside (length h) (or_undef x)"
proof -
  have n: "length h0 \<le> length h" using assms(1) by (simp add: heap_apart_def)
  have p: "plain_cell (length h0) (h ! t)" if "t < length h0" using apart_source assms(1,2) that by blast
  have q: "cell_apart (length h0) (length h) (h ! t)" if "\<not> t < length h0" using apart_cell assms(1,3) that by simp
  show "inside (length h) v" if own: "own_value h t k = Some v"
  proof -
    obtain m where m: "h ! t = ObjCell m" "obj_get m k = Some v" using own by (cases "h ! t") (auto simp: own_value_def)
    then have "v \<in> snd ` set m" by (force dest: map_of_SomeD)
    then show ?thesis using p q m(1) n
      by (cases "t < length h0") (auto simp: plain_cell_def cell_apart_def list_all_iff intro: inside_mono own_inside)
  qed
  show "inside (length h) (or_undef x)" if mem: "x \<in> set (elements h t)"
  proof -
    obtain xs where m: "h ! t = ArrCell xs" "x \<in> set xs" using mem by (cases "h ! t") (auto simp: elements_def)
    then show ?thesis using p q n
      by (cases "t < length h0") (auto simp: plain_cell_def cell_apart_def list_all_iff intro: inside_mono own_inside)
  qed
qed

lemma not_regexp:
  assumes "heap_apart h0 h" "plain_data h0" "a < length h"
  shows "h ! a \<noteq> RegExpCell s"
  using apart_source [OF assms(1,2), of a] apart_cell [OF assms(1), of a] assms(3)
  by (cases "a < length h0") (auto simp: plain_cell_def cell_apart_def)

lemma source_no_proxy:
  assumes "heap_apart h0 h" "plain_data h0" "a < length h0"
  shows "h ! a \<noteq> ObjProxy t nd del" "h ! a \<noteq> ArrProxy t d"
  using apart_source [OF assms] by (auto simp: plain_cell_def)

text \<open>A value of any kind becomes a reference of the client's own.\<close>

lemma augment_apart:
  assumes apart: "heap_apart h0 h" "plain_data h0" and v: "inside (length h) v" and r: "augment h v = (w, h')"
  shows "heap_apart h0 h' \<and> own_ref (length h0) (length h') w"
proof (cases v)
  case (RefV a)
  have a: "a < length h" using v RefV by (simp add: inside_def)
  have n: "length h0 \<le> length h" using apart(1) by (simp add: heap_apart_def)
  have fresh: "heap_apart h0 (h @ [c]) \<and> own_ref (length h0) (length (h @ [c])) (RefV (length h))"
    if "cell_apart (length h0) (length h + 1) c" for c
    using apart_alloc [OF apart(1) that] n by (simp add: own_ref_def)
  have proxy: "length h0 \<le> a" if "h ! a = ObjProxy t nd del \<or> h ! a = ArrProxy t d" for t nd del d
    using source_no_proxy [OF apart, of a] that by (meson not_le)
  show ?thesis
  proof (cases "h ! a")
    case (ObjCell m)
    have "cell_apart (length h0) (length h + 1) (ObjProxy a [] [])" using a by (simp add: cell_apart_def)
    then show ?thesis using r fresh by (auto simp: RefV augment_ref(1) [OF ObjCell])
  next
    case (ArrCell xs)
    have "cell_apart (length h0) (length h + 1) (ArrProxy a None)" using a by (simp add: cell_apart_def)
    then show ?thesis using r fresh by (auto simp: RefV augment_ref(2) [OF ArrCell])
  next
    case (DateCell d)
    have "cell_apart (length h0) (length h + 1) (DateCell d)" by (simp add: cell_apart_def)
    then show ?thesis using r fresh by (auto simp: RefV augment_ref(3) [OF DateCell])
  next
    case (BytesCell b)
    have "cell_apart (length h0) (length h + 1) (BytesCell b)" by (simp add: cell_apart_def)
    then show ?thesis using r fresh by (auto simp: RefV augment_ref(4) [OF BytesCell])
  next
    case (RegExpCell s)
    then show ?thesis using not_regexp [OF apart a] by simp
  next
    case (ObjProxy t nd del)
    then show ?thesis using r apart(1) proxy a by (auto simp: RefV augment_ref(6) [OF ObjProxy] own_ref_def)
  next
    case (ArrProxy t d)
    then show ?thesis using r apart(1) proxy a by (auto simp: RefV augment_ref(7) [OF ArrProxy] own_ref_def)
  qed
qed (use r apart(1) in \<open>auto simp: augment_value own_ref_def\<close>)

subsection \<open>The operations\<close>

lemma values_obj_set: "\<forall>v \<in> snd ` set m. P v \<Longrightarrow> P w \<Longrightarrow> \<forall>v \<in> snd ` set (obj_set k w m). P v"
  using obj_set_values [of k w m] by blast

lemma values_obj_del: "\<forall>v \<in> snd ` set m. P v \<Longrightarrow> \<forall>v \<in> snd ` set (obj_del k m). P v"
  by (auto simp: obj_del_def)

lemma values_obj_get: "\<forall>v \<in> snd ` set m. P v \<Longrightarrow> obj_get m k = Some v \<Longrightarrow> P v"
  by (force dest: map_of_SomeD)

lemma slots_write:
  assumes "\<forall>x \<in> set xs. P (or_undef x)" "P v" "P UndefV"
  shows "\<forall>x \<in> set (write_slot i v xs). P (or_undef x)"
  using assms set_update_subset_insert [of xs i "Some v"] by (auto simp: write_slot_def or_undef_def)

lemma slots_length:
  assumes "\<forall>x \<in> set xs. P (or_undef x)" "P UndefV"
  shows "\<forall>x \<in> set (set_length n xs). P (or_undef x)"
  using assms by (auto simp: set_length_def or_undef_def dest: in_set_takeD)

lemma slots_delete:
  assumes "\<forall>x \<in> set xs. P (or_undef x)" "P UndefV"
  shows "\<forall>x \<in> set (xs[i := None]). P (or_undef x)"
  using assms set_update_subset_insert [of xs i None] by (auto simp: or_undef_def)

lemma slot_value: "\<forall>x \<in> set xs. P (or_undef x) \<Longrightarrow> P UndefV \<Longrightarrow> P (or_undef (slot xs i))"
  by (simp add: slot_def or_undef_def)

lemma apart_object:
  assumes "heap_apart h0 h" "length h0 \<le> a" "a < length h" "h ! a = ObjProxy t nd del"
  shows "t < length h" "\<forall>v \<in> snd ` set nd. own_ref (length h0) (length h) v"
  using apart_cell [OF assms(1-3)] assms(4) by (simp_all add: cell_apart_def)

lemma apart_array:
  assumes "heap_apart h0 h" "plain_data h0" "length h0 \<le> a" "a < length h" "h ! a = ArrProxy t nd"
  shows "t < length h" "\<forall>x \<in> set (current h t nd). inside (length h) (or_undef x)"
    "\<forall>x \<in> set (getData h t nd). inside (length h) (or_undef x)"
proof -
  have cell: "t < length h" "\<And>xs. nd = Some xs \<Longrightarrow> \<forall>x \<in> set xs. inside (length h) (or_undef x)"
    using apart_cell [OF assms(1,3,4)] assms(5) by (simp_all add: cell_apart_def)
  then show "t < length h" by simp
  show "\<forall>x \<in> set (current h t nd). inside (length h) (or_undef x)"
    using cell apart_target(2) [OF assms(1,2) cell(1)] by (auto simp: current_def split: option.splits)
  show "\<forall>x \<in> set (getData h t nd). inside (length h) (or_undef x)"
    using cell apart_target(2) [OF assms(1,2) cell(1)]
    by (auto simp: getData_def spread_array_def or_undef_def split: option.splits)
qed

text \<open>What an operation may do to the heap: it stays apart from the data and does not shrink.\<close>

definition stays_apart :: "heap \<Rightarrow> heap \<Rightarrow> heap \<Rightarrow> bool" where
  "stays_apart h0 h h' \<longleftrightarrow> heap_apart h0 h' \<and> length h \<le> length h'"

definition reads_apart :: "heap \<Rightarrow> heap \<Rightarrow> aval \<times> heap \<Rightarrow> bool" where
  "reads_apart h0 h r \<longleftrightarrow> stays_apart h0 h (snd r) \<and> own_ref (length h0) (length (snd r)) (fst r)"

lemma augment_reads:
  assumes "heap_apart h0 h" "plain_data h0" "inside (length h) v"
  shows "reads_apart h0 h (augment h v)"
proof -
  obtain w h' where r: "augment h v = (w, h')" by fastforce
  then show ?thesis using augment_apart [OF assms r] augment_extends [OF r] by (simp add: reads_apart_def stays_apart_def extends_def)
qed

lemma stays_write:
  assumes "heap_apart h0 h" "length h0 \<le> a" "cell_apart (length h0) (length h) c"
  shows "stays_apart h0 h (h[a := c])"
  using apart_write [OF assms] by (simp add: stays_apart_def)

lemma reads_same: "heap_apart h0 h \<Longrightarrow> own_ref (length h0) (length h) v \<Longrightarrow> reads_apart h0 h (v, h)"
  by (simp add: reads_apart_def stays_apart_def)

lemma reads_write:
  assumes "reads_apart h0 h (w, h')" "length h0 \<le> a" "cell_apart (length h0) (length h') c"
  shows "reads_apart h0 h (w, h'[a := c])"
  using assms stays_write [of h0 h' a c] by (auto simp: reads_apart_def stays_apart_def)

lemma object_get_apart:
  assumes apart: "heap_apart h0 h" "plain_data h0" and a: "length h0 \<le> a" "a < length h" and c: "h ! a = ObjProxy t nd del"
  shows "reads_apart h0 h (object_get toISO h a t nd del k)"
proof -
  note cell = apart_object [OF apart(1) a c]
  have undef: "reads_apart h0 h (UndefV, h)" using apart(1) by (simp add: reads_same)
  show ?thesis
  proof (cases "k \<in> set del \<or> obj_get nd k \<noteq> None")
    case True
    have "own_ref (length h0) (length h) v" if "obj_get nd k = Some v" for v
      by (rule values_obj_get [OF cell(2) that])
    then show ?thesis using True undef apart(1)
      by (cases "obj_get nd k") (auto simp: object_get_def intro!: reads_same)
  next
    case False
    let ?v = "or_undef (own_value h t k)"
    have v: "inside (length h) ?v" using apart_target(1) [OF apart cell(1), of k] by (simp add: or_undef_def split: option.split)
    show ?thesis
    proof (cases ?v)
      case (RefV r)
      then have "r < length h" using v by (simp add: inside_def)
      then have regexp: "h ! r \<noteq> RegExpCell s" for s using not_regexp [OF apart] by blast
      obtain w h' where aug: "augment h (RefV r) = (w, h')" by fastforce
      then have reads: "reads_apart h0 h (w, h')" using augment_reads [OF apart v] by (simp add: RefV)
      have mono: "length h \<le> length h'" using augment_extends [OF aug] by (simp add: extends_def)
      have "\<forall>x \<in> snd ` set (obj_set k w nd). own_ref (length h0) (length h') x"
      proof (rule values_obj_set [where P = "own_ref (length h0) (length h')"])
        show "\<forall>x \<in> snd ` set nd. own_ref (length h0) (length h') x" using cell(2) own_mono mono by blast
      qed (use reads in \<open>simp add: reads_apart_def\<close>)
      then have "reads_apart h0 h (w, h'[a := ObjProxy t (obj_set k w nd) del])"
        using a(1) cell(1) mono by (intro reads_write [OF reads]) (auto simp: cell_apart_def)
      then show ?thesis using False RefV regexp reads apart(1)
        by (cases "h ! r") (auto simp: object_get_def aug intro!: reads_same)
    qed (use False apart(1) in \<open>auto simp: object_get_def own_ref_def intro!: reads_same\<close>)
  qed
qed

lemma array_get_apart:
  assumes apart: "heap_apart h0 h" "plain_data h0" and a: "length h0 \<le> a" "a < length h" and c: "h ! a = ArrProxy t nd"
  shows "reads_apart h0 h (array_get h a t nd i)"
proof -
  note cell = apart_array [OF apart a c]
  let ?v = "or_undef (slot (current h t nd) i)"
  have v: "inside (length h) ?v" by (rule slot_value [OF cell(2)]) simp
  obtain w h' where aug: "augment h ?v = (w, h')" by fastforce
  then have reads: "reads_apart h0 h (w, h')" using augment_reads [OF apart v] by simp
  have mono: "length h \<le> length h'" using augment_extends [OF aug] by (simp add: extends_def)
  have "\<forall>x \<in> set (write_slot i w (getData h t nd)). inside (length h') (or_undef x)"
  proof (rule slots_write [where P = "inside (length h')"])
    show "\<forall>x \<in> set (getData h t nd). inside (length h') (or_undef x)" using cell(3) inside_mono mono by blast
    show "inside (length h') w" using reads own_inside by (auto simp: reads_apart_def)
  qed simp
  then have "reads_apart h0 h (w, h'[a := ArrProxy t (Some (write_slot i w (getData h t nd)))])"
    using a(1) cell(1) mono by (intro reads_write [OF reads]) (auto simp: cell_apart_def)
  then show ?thesis using reads by (auto simp: array_get_def Let_def aug)
qed

lemma array_set_apart:
  assumes apart: "heap_apart h0 h" "plain_data h0" and a: "length h0 \<le> a" "a < length h" and c: "h ! a = ArrProxy t nd"
    and v: "inside (length h) v"
  shows "stays_apart h0 h (array_set h a t nd i v)"
proof -
  note cell = apart_array [OF apart a c]
  obtain w h' where aug: "augment h v = (w, h')" by fastforce
  then have reads: "reads_apart h0 h (w, h')" using augment_reads [OF apart v] by simp
  have mono: "length h \<le> length h'" using augment_extends [OF aug] by (simp add: extends_def)
  have "\<forall>x \<in> set (write_slot i w (getData h t nd)). inside (length h') (or_undef x)"
  proof (rule slots_write [where P = "inside (length h')"])
    show "\<forall>x \<in> set (getData h t nd). inside (length h') (or_undef x)" using cell(3) inside_mono mono by blast
    show "inside (length h') w" using reads own_inside by (auto simp: reads_apart_def)
  qed simp
  then have "reads_apart h0 h (w, h'[a := ArrProxy t (Some (write_slot i w (getData h t nd)))])"
    using a(1) cell(1) mono by (intro reads_write [OF reads]) (auto simp: cell_apart_def)
  then show ?thesis by (simp add: array_set_def aug reads_apart_def)
qed

lemma object_write_apart:
  assumes apart: "heap_apart h0 h" and a: "length h0 \<le> a" "a < length h" and c: "h ! a = ObjProxy t nd del"
    and v: "own_ref (length h0) (length h) v"
  shows "stays_apart h0 h (object_set h a t nd del k v)" "stays_apart h0 h (object_delete h a t nd del k)"
proof -
  note cell = apart_object [OF apart a c]
  show del: "stays_apart h0 h (object_delete h a t nd del k)"
    unfolding object_delete_def using cell(1) values_obj_del [OF cell(2), of k]
    by (intro stays_write [OF apart a(1)]) (simp add: cell_apart_def)
  have "stays_apart h0 h (h[a := ObjProxy t (obj_set k v nd) (set_del k del)])"
    using cell(1) values_obj_set [OF cell(2) v] by (intro stays_write [OF apart a(1)]) (simp add: cell_apart_def)
  then show "stays_apart h0 h (object_set h a t nd del k v)" using del by (simp add: object_set_def)
qed

lemma array_write_apart:
  assumes apart: "heap_apart h0 h" "plain_data h0" and a: "length h0 \<le> a" "a < length h" and c: "h ! a = ArrProxy t nd"
  shows "stays_apart h0 h (array_set_length h a t nd n)" "stays_apart h0 h (array_delete h a t nd i)"
proof -
  note cell = apart_array [OF apart a c]
  show "stays_apart h0 h (array_set_length h a t nd n)"
    unfolding array_set_length_def using cell(1) slots_length [where P = "inside (length h)", OF cell(3)]
    by (intro stays_write [OF apart(1) a(1)]) (simp add: cell_apart_def)
  show "stays_apart h0 h (array_delete h a t nd i)"
    unfolding array_delete_def using cell(1) slots_delete [where P = "inside (length h)", OF cell(3)]
    by (intro stays_write [OF apart(1) a(1)]) (simp add: cell_apart_def)
qed

lemma own_object:
  assumes "heap_apart h0 h" "length h0 \<le> a" "a < length h"
  shows "h ! a = ObjCell m \<Longrightarrow> \<forall>v \<in> snd ` set m. own_ref (length h0) (length h) v"
    "h ! a = ArrCell xs \<Longrightarrow> \<forall>x \<in> set xs. own_ref (length h0) (length h) (or_undef x)"
  using apart_cell [OF assms] by (simp_all add: cell_apart_def)

lemma stays_refl: "heap_apart h0 h \<Longrightarrow> stays_apart h0 h h"
  by (simp add: stays_apart_def)

text \<open>\<open>held\<close> are the client's own references.\<close>

definition client_apart :: "heap \<Rightarrow> client \<Rightarrow> bool" where
  "client_apart h0 s \<longleftrightarrow> heap_apart h0 (snd s) \<and> (\<forall>v \<in> set (fst s). own_ref (length h0) (length (snd s)) v)"

lemma client_reads:
  assumes "client_apart h0 (held, h)" "reads_apart h0 h r"
  shows "client_apart h0 (keeping held r)"
  using assms own_mono by (fastforce simp: client_apart_def keeping_def reads_apart_def stays_apart_def)

lemma client_writes:
  assumes "client_apart h0 (held, h)" "stays_apart h0 h h'"
  shows "client_apart h0 (held, h')"
  using assms own_mono by (fastforce simp: client_apart_def stays_apart_def)

definition ordinary :: "client_event \<Rightarrow> bool" where
  "ordinary e \<longleftrightarrow> (case e of
     DescribeKey a k \<Rightarrow> False | DescribeIndex a i \<Rightarrow> False
   | DefineKey a k v \<Rightarrow> False | DefineIndex a i v \<Rightarrow> False | _ \<Rightarrow> True)"

lemma get_prop_apart:
  assumes apart: "heap_apart h0 h" "plain_data h0" and a: "length h0 \<le> a" "a < length h"
  shows "reads_apart h0 h (get_prop toISO h a k)"
proof (cases "h ! a")
  case (ObjCell m)
  have "own_ref (length h0) (length h) (or_undef (obj_get m k))"
    using values_obj_get [OF own_object(1) [OF apart(1) a ObjCell]] by (simp add: or_undef_def split: option.split)
  then show ?thesis by (simp add: get_prop_def ObjCell reads_same apart)
next
  case (ObjProxy t nd del)
  then show ?thesis using object_get_apart [OF apart a] by (simp add: get_prop_def)
qed (simp_all add: get_prop_def reads_same apart)

lemma get_index_apart:
  assumes apart: "heap_apart h0 h" "plain_data h0" and a: "length h0 \<le> a" "a < length h"
  shows "reads_apart h0 h (get_index h a i)"
proof (cases "h ! a")
  case (ArrCell xs)
  have "own_ref (length h0) (length h) (or_undef (slot xs i))"
    by (rule slot_value [OF own_object(2) [OF apart(1) a ArrCell]]) simp
  then show ?thesis by (simp add: get_index_def ArrCell reads_same apart)
next
  case (ArrProxy t nd)
  then show ?thesis using array_get_apart [OF apart a] by (simp add: get_index_def)
qed (simp_all add: get_index_def reads_same apart)

lemma set_prop_apart:
  assumes apart: "heap_apart h0 h" "plain_data h0" and a: "length h0 \<le> a" "a < length h"
    and v: "own_ref (length h0) (length h) v"
  shows "stays_apart h0 h (set_prop h a k v)"
proof (cases "h ! a")
  case (ObjCell m)
  then show ?thesis using values_obj_set [OF own_object(1) [OF apart(1) a ObjCell] v, of k]
    by (auto simp: set_prop_def cell_apart_def intro!: stays_write [OF apart(1) a(1)])
next
  case (ObjProxy t nd del)
  then show ?thesis using object_write_apart(1) [OF apart(1) a ObjProxy v] by (simp add: set_prop_def)
qed (simp_all add: set_prop_def stays_refl apart)

lemma delete_prop_apart:
  assumes apart: "heap_apart h0 h" "plain_data h0" and a: "length h0 \<le> a" "a < length h"
  shows "stays_apart h0 h (delete_prop h a k)"
proof (cases "h ! a")
  case (ObjCell m)
  then show ?thesis using values_obj_del [OF own_object(1) [OF apart(1) a ObjCell], of k]
    by (auto simp: delete_prop_def cell_apart_def intro!: stays_write [OF apart(1) a(1)])
next
  case (ObjProxy t nd del)
  then show ?thesis using object_write_apart(2) [OF apart(1) a ObjProxy, of UndefV] by (simp add: delete_prop_def)
qed (simp_all add: delete_prop_def stays_refl apart)

lemma set_index_apart:
  assumes apart: "heap_apart h0 h" "plain_data h0" and a: "length h0 \<le> a" "a < length h"
    and v: "own_ref (length h0) (length h) v"
  shows "stays_apart h0 h (set_index h a i v)"
proof (cases "h ! a")
  case (ArrCell xs)
  then show ?thesis using slots_write [OF own_object(2) [OF apart(1) a ArrCell] v, of i]
    by (auto simp: set_index_def cell_apart_def intro!: stays_write [OF apart(1) a(1)])
next
  case (ArrProxy t nd)
  then show ?thesis using array_set_apart [OF apart a ArrProxy own_inside [OF v]] by (simp add: set_index_def)
qed (simp_all add: set_index_def stays_refl apart)

lemma change_length_apart:
  assumes apart: "heap_apart h0 h" "plain_data h0" and a: "length h0 \<le> a" "a < length h"
  shows "stays_apart h0 h (change_length h a n)"
proof (cases "h ! a")
  case (ArrCell xs)
  then show ?thesis using slots_length [OF own_object(2) [OF apart(1) a ArrCell], of n]
    by (auto simp: change_length_def cell_apart_def intro!: stays_write [OF apart(1) a(1)])
next
  case (ArrProxy t nd)
  then show ?thesis using array_write_apart(1) [OF apart a ArrProxy] by (simp add: change_length_def)
qed (simp_all add: change_length_def stays_refl apart)

lemma delete_index_apart:
  assumes apart: "heap_apart h0 h" "plain_data h0" and a: "length h0 \<le> a" "a < length h"
  shows "stays_apart h0 h (delete_index h a i)"
proof (cases "h ! a")
  case (ArrCell xs)
  then show ?thesis using slots_delete [OF own_object(2) [OF apart(1) a ArrCell], of i]
    by (auto simp: delete_index_def cell_apart_def intro!: stays_write [OF apart(1) a(1)])
next
  case (ArrProxy t nd)
  then show ?thesis using array_write_apart(2) [OF apart a ArrProxy] by (simp add: delete_index_def)
qed (simp_all add: delete_index_def stays_refl apart)

lemma alloc_reads:
  assumes "heap_apart h0 h" "cell_apart (length h0) (length h + 1) c"
  shows "reads_apart h0 h (alloc h c)"
proof -
  have "length h0 \<le> length h" using assms(1) by (simp add: heap_apart_def)
  then show ?thesis using apart_alloc [OF assms] by (simp add: alloc_def reads_apart_def stays_apart_def own_ref_def)
qed

lemma client_step_apart:
  assumes ok: "client_apart h0 s" and data: "plain_data h0" and step: "client_step toISO s e s'" and e: "ordinary e"
  shows "client_apart h0 s'"
proof -
  have heap: "heap_apart h0 h" if "s = (held, h)" for held h using ok that by (simp add: client_apart_def)
  have ref: "length h0 \<le> a" "a < length h" if "s = (held, h)" "RefV a \<in> set held" for held h a
    using ok that by (auto simp: client_apart_def own_ref_def)
  have val: "own_ref (length h0) (length h) v" if "s = (held, h)" "usable held v" for held h v
    using ok that by (auto simp: client_apart_def own_ref_def usable_def)
  have more: "own_ref (length h0) (length h + 1) v" if "s = (held, h)" "usable held v" for held h v
    by (rule own_mono [OF val [OF that]]) simp
  show ?thesis using step
  proof cases
    case (read_key a held h k)
    note at = read_key(1,4)
    show ?thesis unfolding read_key(3)
      by (rule client_reads [OF _ get_prop_apart [OF heap [OF at(1)] data ref(1) [OF at] ref(2) [OF at]]]) (use ok at(1) in simp)
  next
    case (read_index a held h i)
    note at = read_index(1,4)
    show ?thesis unfolding read_index(3)
      by (rule client_reads [OF _ get_index_apart [OF heap [OF at(1)] data ref(1) [OF at] ref(2) [OF at]]]) (use ok at(1) in simp)
  next
    case (write_key a held v h k)
    note at = write_key(1,4)
    show ?thesis unfolding write_key(3)
      by (rule client_writes [OF _ set_prop_apart [OF heap [OF at(1)] data ref(1) [OF at] ref(2) [OF at] val [OF at(1) write_key(5)]]]) (use ok at(1) in simp)
  next
    case (write_index a held v h i)
    note at = write_index(1,4)
    show ?thesis unfolding write_index(3)
      by (rule client_writes [OF _ set_index_apart [OF heap [OF at(1)] data ref(1) [OF at] ref(2) [OF at] val [OF at(1) write_index(5)]]]) (use ok at(1) in simp)
  next
    case (write_length a held h n)
    note at = write_length(1,4)
    show ?thesis unfolding write_length(3)
      by (rule client_writes [OF _ change_length_apart [OF heap [OF at(1)] data ref(1) [OF at] ref(2) [OF at]]]) (use ok at(1) in simp)
  next
    case (delete_key a held h k)
    note at = delete_key(1,4)
    show ?thesis unfolding delete_key(3)
      by (rule client_writes [OF _ delete_prop_apart [OF heap [OF at(1)] data ref(1) [OF at] ref(2) [OF at]]]) (use ok at(1) in simp)
  next
    case (delete_index a held h i)
    note at = delete_index(1,4)
    show ?thesis unfolding delete_index(3)
      by (rule client_writes [OF _ delete_index_apart [OF heap [OF at(1)] data ref(1) [OF at] ref(2) [OF at]]]) (use ok at(1) in simp)
  next
    case (make_object held m h)
    have "cell_apart (length h0) (length h + 1) (ObjCell m)"
      using more [OF make_object(1)] make_object(4) by (auto simp: cell_apart_def list_all_iff)
    then have "reads_apart h0 h (alloc h (ObjCell m))" by (rule alloc_reads [OF heap [OF make_object(1)]])
    then show ?thesis using make_object(1-3) ok by (auto intro!: client_reads)
  next
    case (make_array held xs h)
    have "cell_apart (length h0) (length h + 1) (ArrCell xs)"
      using more [OF make_array(1)] make_array(4) by (auto simp: cell_apart_def list_all_iff)
    then have "reads_apart h0 h (alloc h (ArrCell xs))" by (rule alloc_reads [OF heap [OF make_array(1)]])
    then show ?thesis using make_array(1-3) ok by (auto intro!: client_reads)
  qed (use e in \<open>simp_all add: ordinary_def\<close>)
qed

definition ordinary_step :: "(int \<Rightarrow> string) \<Rightarrow> client \<Rightarrow> client_event \<Rightarrow> client \<Rightarrow> bool" where
  "ordinary_step toISO s e s' \<longleftrightarrow> client_step toISO s e s' \<and> ordinary e"

lemma new_client_apart:
  assumes "plain_data h0" "start < length h0"
  shows "client_apart h0 (new_client h0 start)"
proof -
  obtain w h' where r: "augment h0 (RefV start) = (w, h')" by fastforce
  have "heap_apart h0 h0" by (auto simp: heap_apart_def)
  then show ?thesis using augment_apart [OF _ assms(1) _ r] assms(2) by (simp add: new_client_def r client_apart_def inside_def)
qed

interpretation augmented: safe_machine "\<lambda>s. plain_data h0 \<and> start < length h0 \<and> s = new_client h0 start"
    "ordinary_step toISO" "\<lambda>s es. plain_data h0 \<and> client_apart h0 s" for toISO h0 start
  by unfold_locales (auto simp: ordinary_step_def intro: new_client_apart client_step_apart)

text \<open>
  C38: A client that gets, sets and deletes properties, elements and lengths of the proxy of some data (objects, arrays,
  dates and bytes), of what it reads from it and of objects and arrays of its own, however long, leaves every cell of the
  data as it was. The client does not ask for descriptors of properties and does not use \<open>Object.defineProperty\<close>, which
  do reach the data (lemmas \<open>descriptor_leaks\<close> and \<open>define_reaches_original\<close>).
\<close>

theorem original_untouched:
  assumes "plain_data h0" "start < length h0"
    and "history (ordinary_step toISO) (new_client h0 start) es s"
  shows "take (length h0) (snd s) = h0"
  using augmented.inv_history [OF assms(3)] assms(1,2) by (auto simp: client_apart_def heap_apart_def)

subsection \<open>An object of its own\<close>

text \<open>The properties that a proxy of an object shows: the object that a client takes it for.\<close>

definition shown :: "heap \<Rightarrow> nat \<Rightarrow> string \<Rightarrow> aval option" where
  "shown h a k =
     (case h ! a of
        ObjProxy t nd del \<Rightarrow>
          if k \<in> set del then None else (case obj_get nd k of Some v \<Rightarrow> Some v | None \<Rightarrow> own_value h t k)
      | _ \<Rightarrow> None)"

lemma own_value_update:
  assumes "h ! a = ObjProxy t nd del" "a < length h" "u < length h"
  shows "own_value (h[a := ObjProxy t nd' del']) u k = own_value h u k"
  using assms by (cases "u = a") (simp_all add: own_value_def)

lemma shown_update:
  assumes "h ! a = ObjProxy t nd del" "a < length h" "t < length h"
  shows "shown (h[a := ObjProxy t nd' del']) a k =
     (if k \<in> set del' then None else (case obj_get nd' k of Some v \<Rightarrow> Some v | None \<Rightarrow> own_value h t k))"
  using own_value_update [OF assms] assms(2) by (simp add: shown_def cong: option.case_cong)

lemma shown_proxy:
  assumes "h ! a = ObjProxy t nd del"
  shows "shown h a k = (if k \<in> set del then None else (case obj_get nd k of Some v \<Rightarrow> Some v | None \<Rightarrow> own_value h t k))"
  using assms by (simp add: shown_def)

lemma shown_writes:
  assumes "h ! a = ObjProxy t nd del" "a < length h" "t < length h"
  shows "shown (delete_prop h a k) a = (shown h a)(k := None)"
    "shown (set_prop h a k v) a = (shown h a)(k := (if v = UndefV then None else Some v))"
proof -
  show del: "shown (delete_prop h a k) a = (shown h a)(k := None)"
    by (rule ext) (auto simp: delete_prop_def object_delete_def assms(1) shown_update [OF assms] shown_proxy [OF assms(1)] obj_get_del)
  show "shown (set_prop h a k v) a = (shown h a)(k := (if v = UndefV then None else Some v))"
    using del by (auto simp: set_prop_def delete_prop_def object_set_def assms(1) shown_update [OF assms] shown_proxy [OF assms(1)]
        obj_get_set fun_eq_iff)
qed

lemma shown_names:
  assumes "h ! a = ObjProxy t nd del"
  shows "object_has h t nd del k \<longleftrightarrow> k \<in> dom (shown h a)"
    "set (object_ownKeys h t nd del) = dom (shown h a)" "distinct (object_ownKeys h t nd del)"
proof -
  show has: "object_has h t nd del k \<longleftrightarrow> k \<in> dom (shown h a)" for k
    by (cases "obj_get nd k") (auto simp: object_has_def shown_proxy [OF assms] obj_has_iff domIff)
  have "set (own_names h t) = {k. own_value h t k \<noteq> None}"
    by (cases "h ! t") (auto simp: own_names_def own_value_def map_of_eq_None_iff image_iff)
  then have "k \<in> set (object_ownKeys h t nd del) \<longleftrightarrow> object_has h t nd del k" for k
    by (auto simp: object_ownKeys_def object_has_def obj_has_def)
  then show "set (object_ownKeys h t nd del) = dom (shown h a)" using has by blast
  show "distinct (object_ownKeys h t nd del)" by (simp add: object_ownKeys_def)
qed

text \<open>
  What is read is what is shown. A reference that was written or read before is given as it is; of one that is still in
  the original, a regular expression is read as its text, a date as its text, and anything else is wrapped.
\<close>

definition wrapped :: "(int \<Rightarrow> string) \<Rightarrow> heap \<Rightarrow> nat \<Rightarrow> aval" where
  "wrapped toISO h b =
     (case h ! b of RegExpCell s \<Rightarrow> StrV s | DateCell d \<Rightarrow> StrV (toISO d) | _ \<Rightarrow> fst (augment h (RefV b)))"

lemma shown_is_read:
  assumes c: "h ! a = ObjProxy t nd del" and r: "get_prop toISO h a k = (v, h')" and k: "k \<noteq> ''constructor''"
  shows "v = (case shown h a k of
       Some (RefV b) \<Rightarrow> if obj_has k nd then RefV b else wrapped toISO h b
     | Some x \<Rightarrow> x
     | None \<Rightarrow> UndefV)"
proof -
  have get: "object_get toISO h a t nd del k = (v, h')" using r c by (simp add: get_prop_def)
  show ?thesis
  proof (cases "k \<in> set del \<or> obj_get nd k \<noteq> None")
    case True
    then show ?thesis using get k
      by (auto simp: object_get_def shown_proxy [OF c] obj_has_iff split: aval.splits if_splits)
  next
    case False
    show ?thesis
    proof (cases "own_value h t k")
      case (Some x)
      show ?thesis
      proof (cases x)
        case (RefV b)
        obtain w g where aug: "augment h (RefV b) = (w, g)" by fastforce
        moreover have "shown h a k = Some (RefV b)" "\<not> obj_has k nd"
          using False Some RefV by (simp_all add: shown_proxy [OF c] obj_has_iff)
        ultimately show ?thesis using get False Some RefV k
          by (cases "h ! b") (auto simp: object_get_def or_undef_def wrapped_def split: if_splits)
      qed (use get False Some k shown_proxy [OF c, of k] in \<open>auto simp: object_get_def or_undef_def\<close>)
    qed (use get False k shown_proxy [OF c, of k] in \<open>auto simp: object_get_def or_undef_def\<close>)
  qed
qed

text \<open>Reading changes at most the value that was read, which is then read again.\<close>

lemma shown_read:
  assumes c: "h ! a = ObjProxy t nd del" and a: "a < length h" and t: "t < length h"
    and data: "\<And>k x. own_value h t k = Some x \<Longrightarrow> inside (length h) x" and r: "get_prop toISO h a k = (v, h')"
  shows "\<forall>j. j \<noteq> k \<longrightarrow> shown h' a j = shown h a j" "k \<in> dom (shown h' a) \<longleftrightarrow> k \<in> dom (shown h a)"
    "get_prop toISO h' a k = (v, h')"
proof -
  have get: "object_get toISO h a t nd del k = (v, h')" using r c by (simp add: get_prop_def)
  have same: "(\<forall>j. j \<noteq> k \<longrightarrow> shown h' a j = shown h a j) \<and> (k \<in> dom (shown h' a) \<longleftrightarrow> k \<in> dom (shown h a))
      \<and> get_prop toISO h' a k = (v, h')" if "h' = h"
    using r that by simp
  have "h' = h \<or> (\<exists>b w g. k \<noteq> ''constructor'' \<and> k \<notin> set del \<and> obj_get nd k = None \<and> own_value h t k = Some (RefV b)
      \<and> augment h (RefV b) = (w, g) \<and> v = w \<and> h' = g[a := ObjProxy t (obj_set k w nd) del])"
  proof (cases "k = ''constructor'' \<or> k \<in> set del \<or> obj_get nd k \<noteq> None")
    case False
    show ?thesis
    proof (cases "own_value h t k")
      case (Some x)
      show ?thesis
      proof (cases x)
        case (RefV b)
        obtain w g where aug: "augment h (RefV b) = (w, g)" by fastforce
        have "b < length h" using data [OF Some] RefV by (simp add: inside_def)
        then show ?thesis using get False Some RefV aug augment_alloc [OF aug]
          by (cases "h ! b") (auto simp: object_get_def or_undef_def augment_ref split: if_splits)
      qed (use get False Some in \<open>auto simp: object_get_def or_undef_def\<close>)
    qed (use get False in \<open>auto simp: object_get_def or_undef_def\<close>)
  qed (use get in \<open>auto simp: object_get_def split: option.splits if_splits\<close>)
  then have "(\<forall>j. j \<noteq> k \<longrightarrow> shown h' a j = shown h a j) \<and> (k \<in> dom (shown h' a) \<longleftrightarrow> k \<in> dom (shown h a))
      \<and> get_prop toISO h' a k = (v, h')"
  proof (elim disjE exE conjE)
    fix b w g
    assume k: "k \<noteq> ''constructor''" "k \<notin> set del" "obj_get nd k = None" "own_value h t k = Some (RefV b)"
      and aug: "augment h (RefV b) = (w, g)" and v: "v = w" and h': "h' = g[a := ObjProxy t (obj_set k w nd) del]"
    have ext: "length h \<le> length g" "g ! a = ObjProxy t nd del" "own_value g t j = own_value h t j" for j
      using augment_extends [OF aug] a t c by (simp_all add: extends_def own_value_def)
    have "shown h' a j = (if j \<in> set del then None else (case obj_get (obj_set k w nd) j of Some v \<Rightarrow> Some v | None \<Rightarrow> own_value h t j))" for j
      unfolding h' using shown_update [OF ext(2)] ext(1,3) a t by (simp cong: option.case_cong)
    moreover have "get_prop toISO h' a k = (w, h')"
      using k ext(1) a by (simp add: get_prop_def object_get_def h' obj_get_set)
    ultimately show ?thesis using k c v by (auto simp: shown_proxy obj_get_set)
  qed (rule same)
  then show "\<forall>j. j \<noteq> k \<longrightarrow> shown h' a j = shown h a j" "k \<in> dom (shown h' a) \<longleftrightarrow> k \<in> dom (shown h a)"
    "get_prop toISO h' a k = (v, h')"
    by blast+
qed

text \<open>
  C39: The proxy of an object, whose target is an object of the heap, is like an object of its own: writing and deleting
  change just that property of what it shows, where writing \<open>undefined\<close> deletes; its keys are the properties that it
  shows, each once; reading a property other than \<open>constructor\<close> gives \<open>undefined\<close> when it is not shown and the shown
  value when it is, except that a reference still in the original is read as a text (regular expression, date) or
  wrapped; reading changes nothing but that such a reference is replaced by its proxy, and gives the same when repeated.
\<close>

theorem augmented_object_refines:
  assumes "h ! a = ObjProxy t nd del" "a < length h" "t < length h" "\<forall>k x. own_value h t k = Some x \<longrightarrow> inside (length h) x"
  shows "shown (set_prop h a k v) a = (shown h a)(k := (if v = UndefV then None else Some v))
    \<and> shown (delete_prop h a k) a = (shown h a)(k := None)
    \<and> (object_has h t nd del k \<longleftrightarrow> k \<in> dom (shown h a))
    \<and> set (object_ownKeys h t nd del) = dom (shown h a) \<and> distinct (object_ownKeys h t nd del)
    \<and> (\<forall>w h'. get_prop toISO h a k = (w, h') \<and> k \<noteq> ''constructor'' \<longrightarrow>
         w = (case shown h a k of
                Some (RefV b) \<Rightarrow> if obj_has k nd then RefV b else wrapped toISO h b
              | Some x \<Rightarrow> x
              | None \<Rightarrow> UndefV))
    \<and> (\<forall>w h'. get_prop toISO h a k = (w, h') \<longrightarrow>
         (\<forall>j. j \<noteq> k \<longrightarrow> shown h' a j = shown h a j) \<and> dom (shown h' a) = dom (shown h a) \<and> get_prop toISO h' a k = (w, h'))"
proof (intro conjI allI impI, goal_cases _ _ _ _ _ read _ _)
  case (read w h')
  then show ?case using shown_is_read [OF assms(1)] by blast
next
  fix w h'
  assume r: "get_prop toISO h a k = (w, h')"
  note read = shown_read [OF assms(1-3) _ r]
  show "get_prop toISO h' a k = (w, h')" by (rule read(3)) (use assms(4) in blast)
  show "shown h' a j = shown h a j" if "j \<noteq> k" for j using read(1) that assms(4) by blast
  have "j \<in> dom (shown h' a) \<longleftrightarrow> j \<in> dom (shown h a)" for j
    using read(1,2) assms(4) by (cases "j = k") (simp_all add: domIff)
  then show "dom (shown h' a) = dom (shown h a)" by blast
qed (rule shown_writes [OF assms(1-3)] shown_names [OF assms(1)])+

end
