(* ===== verification/AugmentReading.thy ===== *)
theory AugmentReading
  imports AugmentFacts
begin

section \<open>Reading the data through its proxies\<close>

text \<open>
  Reading along a path from the proxy gives what the data has at the end of the path: the same value, or a proxy of the
  very object that is there, whatever was read before. The data here consists of objects and arrays of primitive values,
  without dates and bytes, and the paths do not use \<open>constructor\<close>, which the proxies answer themselves.
\<close>

datatype path_step = AtKey string | AtIndex nat

definition read_step :: "(int \<Rightarrow> string) \<Rightarrow> heap \<Rightarrow> aval \<Rightarrow> path_step \<Rightarrow> aval \<times> heap" where
  "read_step toISO h v s =
     (case v of
        RefV a \<Rightarrow> (case s of AtKey k \<Rightarrow> get_prop toISO h a k | AtIndex i \<Rightarrow> get_index h a i)
      | _ \<Rightarrow> (UndefV, h))"

fun read_path :: "(int \<Rightarrow> string) \<Rightarrow> heap \<Rightarrow> aval \<Rightarrow> path_step list \<Rightarrow> aval \<times> heap" where
  "read_path toISO h v [] = (v, h)"
| "read_path toISO h v (s # ss) = (case read_step toISO h v s of (v', h') \<Rightarrow> read_path toISO h' v' ss)"

definition data_step :: "heap \<Rightarrow> aval \<Rightarrow> path_step \<Rightarrow> aval" where
  "data_step h w s =
     (case w of
        RefV a \<Rightarrow> or_undef (case s of AtKey k \<Rightarrow> own_value h a k | AtIndex i \<Rightarrow> slot (elements h a) i)
      | _ \<Rightarrow> UndefV)"

definition data_path :: "heap \<Rightarrow> aval \<Rightarrow> path_step list \<Rightarrow> aval" where
  "data_path h w ss = foldl (data_step h) w ss"

text \<open>What the data has at the end of a path is what the proxies show unless the path goes through \<open>constructor\<close>.\<close>

definition plain_path :: "path_step list \<Rightarrow> bool" where
  "plain_path ss \<longleftrightarrow> AtKey ''constructor'' \<notin> set ss"

text \<open>Data without dates and bytes.\<close>

definition json_data :: "heap \<Rightarrow> bool" where
  "json_data h \<longleftrightarrow> plain_data h \<and> list_all (\<lambda>c. case c of ObjCell m \<Rightarrow> True | ArrCell xs \<Rightarrow> True | _ \<Rightarrow> False) h"

definition mirrors :: "heap \<Rightarrow> heap \<Rightarrow> aval \<Rightarrow> aval \<Rightarrow> bool" where
  "mirrors h0 h v w \<longleftrightarrow>
     (case w of
        RefV a \<Rightarrow> a < length h0 \<and> (\<exists>p. v = RefV p \<and> length h0 \<le> p \<and> p < length h
          \<and> ((\<exists>m nd. h0 ! a = ObjCell m \<and> h ! p = ObjProxy a nd []) \<or> (\<exists>xs d. h0 ! a = ArrCell xs \<and> h ! p = ArrProxy a d)))
      | _ \<Rightarrow> v = w)"

definition cell_mirrors :: "heap \<Rightarrow> heap \<Rightarrow> cell \<Rightarrow> bool" where
  "cell_mirrors h0 h c \<longleftrightarrow>
     (case c of
        ObjProxy t nd del \<Rightarrow> t < length h0 \<and> (\<exists>m. h0 ! t = ObjCell m) \<and> del = []
          \<and> (\<forall>k v. obj_get nd k = Some v \<longrightarrow> (\<exists>w. own_value h0 t k = Some w \<and> mirrors h0 h v w))
      | ArrProxy t d \<Rightarrow> t < length h0 \<and> (\<exists>xs. h0 ! t = ArrCell xs)
          \<and> (\<forall>ys. d = Some ys \<longrightarrow> length ys = length (elements h0 t)
               \<and> (\<forall>i < length ys. or_undef (ys ! i) = or_undef (elements h0 t ! i)
                      \<or> mirrors h0 h (or_undef (ys ! i)) (or_undef (elements h0 t ! i))))
      | _ \<Rightarrow> False)"

definition mirrored :: "heap \<Rightarrow> heap \<Rightarrow> bool" where
  "mirrored h0 h \<longleftrightarrow> length h0 \<le> length h \<and> take (length h0) h = h0
     \<and> (\<forall>a. length h0 \<le> a \<and> a < length h \<longrightarrow> cell_mirrors h0 h (h ! a))"

text \<open>Proxies keep their targets.\<close>

definition same_target :: "cell \<Rightarrow> cell \<Rightarrow> bool" where
  "same_target c c' \<longleftrightarrow> (case c of
     ObjProxy t nd del \<Rightarrow> \<exists>nd'. c' = ObjProxy t nd' del
   | ArrProxy t d \<Rightarrow> \<exists>d'. c' = ArrProxy t d'
   | _ \<Rightarrow> c' = c)"

definition keeps_targets :: "heap \<Rightarrow> heap \<Rightarrow> bool" where
  "keeps_targets h h' \<longleftrightarrow> length h \<le> length h' \<and> (\<forall>a < length h. same_target (h ! a) (h' ! a))"

lemma mirrors_mono:
  assumes "mirrors h0 h v w" "keeps_targets h h'"
  shows "mirrors h0 h' v w"
proof (cases w)
  case (RefV a)
  then obtain p where p: "a < length h0" "v = RefV p" "length h0 \<le> p" "p < length h"
    and cells: "(\<exists>m nd. h0 ! a = ObjCell m \<and> h ! p = ObjProxy a nd []) \<or> (\<exists>xs d. h0 ! a = ArrCell xs \<and> h ! p = ArrProxy a d)"
    using assms(1) by (auto simp: mirrors_def)
  have "same_target (h ! p) (h' ! p)" "p < length h'" using assms(2) p(4) by (auto simp: keeps_targets_def)
  then have "(\<exists>m nd. h0 ! a = ObjCell m \<and> h' ! p = ObjProxy a nd []) \<or> (\<exists>xs d. h0 ! a = ArrCell xs \<and> h' ! p = ArrProxy a d)"
    using cells by (auto simp: same_target_def)
  then show ?thesis using p \<open>p < length h'\<close> by (auto simp: mirrors_def RefV)
qed (use assms(1) in \<open>simp_all add: mirrors_def\<close>)

lemma cell_mirrors_mono: "cell_mirrors h0 h c \<Longrightarrow> keeps_targets h h' \<Longrightarrow> cell_mirrors h0 h' c"
  by (cases c) (auto simp: cell_mirrors_def, (meson mirrors_mono)+)

lemma same_target_refl [simp]: "same_target c c"
  by (cases c) (simp_all add: same_target_def)

lemma targets_alloc: "keeps_targets h (h @ [c])"
  by (simp add: keeps_targets_def nth_append)

lemma targets_update:
  assumes "same_target (h ! a) c"
  shows "keeps_targets h (h[a := c])"
proof -
  have "same_target (h ! b) (h[a := c] ! b)" if "b < length h" for b using assms that by (cases "b = a") simp_all
  then show ?thesis by (simp add: keeps_targets_def)
qed

lemma targets_trans: "keeps_targets h h' \<Longrightarrow> keeps_targets h' h'' \<Longrightarrow> keeps_targets h h''"
proof -
  have "same_target c c' \<Longrightarrow> same_target c' c'' \<Longrightarrow> same_target c c''" for c c' c''
    by (cases c) (auto simp: same_target_def)
  then show "keeps_targets h h' \<Longrightarrow> keeps_targets h' h'' \<Longrightarrow> keeps_targets h h''"
    by (meson keeps_targets_def order_trans order_less_le_trans)
qed

lemma mirrored_cell: "mirrored h0 h \<Longrightarrow> length h0 \<le> a \<Longrightarrow> a < length h \<Longrightarrow> cell_mirrors h0 h (h ! a)"
  by (simp add: mirrored_def)

lemma mirrored_data: "mirrored h0 h \<Longrightarrow> a < length h0 \<Longrightarrow> h ! a = h0 ! a"
  by (metis mirrored_def nth_take)

lemma mirrored_alloc:
  assumes "mirrored h0 h" "cell_mirrors h0 h c"
  shows "mirrored h0 (h @ [c])"
proof -
  have "cell_mirrors h0 (h @ [c]) ((h @ [c]) ! a)" if "length h0 \<le> a" "a < length h + 1" for a
    using assms that cell_mirrors_mono [OF _ targets_alloc] by (cases "a = length h") (auto simp: mirrored_def nth_append)
  then show ?thesis using assms by (simp add: mirrored_def)
qed

lemma mirrored_update:
  assumes "mirrored h0 h" "length h0 \<le> a" "a < length h" "cell_mirrors h0 h c" "same_target (h ! a) c"
  shows "mirrored h0 (h[a := c])"
proof -
  have "cell_mirrors h0 (h[a := c]) (h[a := c] ! b)" if "length h0 \<le> b" "b < length h" for b
    using assms that cell_mirrors_mono [OF _ targets_update [OF assms(5)]]
    by (cases "b = a") (auto simp: mirrored_def)
  then show ?thesis using assms by (simp add: mirrored_def)
qed

text \<open>A nested object or array gets a proxy of its own.\<close>

lemma mirrored_augment:
  assumes data: "json_data h0" and m: "mirrored h0 h" and b: "b < length h0"
  shows "\<exists>c. augment h (RefV b) = (RefV (length h), h @ [c]) \<and> mirrored h0 (h @ [c]) \<and> mirrors h0 (h @ [c]) (RefV (length h)) (RefV b)
    \<and> (\<forall>d. h ! b \<noteq> DateCell d) \<and> (\<forall>s. h ! b \<noteq> RegExpCell s)"
proof -
  have hb: "h ! b = h0 ! b" by (rule mirrored_data [OF m b])
  have n: "length h0 \<le> length h" using m by (simp add: mirrored_def)
  have "case h0 ! b of ObjCell m \<Rightarrow> True | ArrCell xs \<Rightarrow> True | _ \<Rightarrow> False"
    using data b by (simp add: json_data_def list_all_length)
  then consider (object) m where "h0 ! b = ObjCell m" | (array) xs where "h0 ! b = ArrCell xs"
    by (cases "h0 ! b") auto
  then show ?thesis
  proof cases
    case (object m')
    have "mirrored h0 (h @ [ObjProxy b [] []])" using object b by (intro mirrored_alloc [OF m]) (simp add: cell_mirrors_def)
    then show ?thesis using object b n hb augment_ref(1) [of h b m']
      by (intro exI [of _ "ObjProxy b [] []"]) (simp add: mirrors_def)
  next
    case (array xs)
    have "mirrored h0 (h @ [ArrProxy b None])" using array b by (intro mirrored_alloc [OF m]) (simp add: cell_mirrors_def)
    then show ?thesis using array b n hb augment_ref(2) [of h b xs]
      by (intro exI [of _ "ArrProxy b None"]) (simp add: mirrors_def)
  qed
qed

subsection \<open>One step\<close>

definition reads_mirror :: "heap \<Rightarrow> heap \<Rightarrow> aval \<Rightarrow> aval \<times> heap \<Rightarrow> bool" where
  "reads_mirror h0 h w r \<longleftrightarrow> mirrored h0 (snd r) \<and> keeps_targets h (snd r) \<and> mirrors h0 (snd r) (fst r) w"

lemma targets_refl: "keeps_targets h h"
  by (simp add: keeps_targets_def)

lemma read_object:
  assumes data: "json_data h0" and m: "mirrored h0 h" and p: "length h0 \<le> p" "p < length h" and c: "h ! p = ObjProxy a nd []"
    and k: "k \<noteq> ''constructor''"
  shows "reads_mirror h0 h (or_undef (own_value h0 a k)) (object_get toISO h p a nd [] k)"
proof -
  have cell: "a < length h0" "\<exists>m. h0 ! a = ObjCell m"
    "\<And>k v. obj_get nd k = Some v \<Longrightarrow> \<exists>w. own_value h0 a k = Some w \<and> mirrors h0 h v w"
    using mirrored_cell [OF m p] c by (auto simp: cell_mirrors_def)
  have own: "own_value h a k = own_value h0 a k" by (simp add: own_value_def mirrored_data [OF m cell(1)])
  show ?thesis
  proof (cases "obj_get nd k")
    case (Some v)
    then show ?thesis using cell(3) [OF Some] m k by (auto simp: object_get_def reads_mirror_def or_undef_def targets_refl)
  next
    case None
    show ?thesis
    proof (cases "or_undef (own_value h0 a k)")
      case (RefV b)
      then have v: "own_value h0 a k = Some (RefV b)" by (auto simp: or_undef_def split: option.splits)
      have "heap_apart h0 h0" by (auto simp: heap_apart_def)
      then have "inside (length h0) (RefV b)"
        using apart_target(1) [OF _ _ cell(1) v] data by (simp add: json_data_def)
      then have b: "b < length h0" by (simp add: inside_def)
      obtain d where aug: "augment h (RefV b) = (RefV (length h), h @ [d])" and m': "mirrored h0 (h @ [d])"
        and r: "mirrors h0 (h @ [d]) (RefV (length h)) (RefV b)" and kinds: "\<forall>d. h ! b \<noteq> DateCell d" "\<forall>s. h ! b \<noteq> RegExpCell s"
        using mirrored_augment [OF data m b] by blast
      let ?c = "ObjProxy a (obj_set k (RefV (length h)) nd) []"
      have same: "same_target ((h @ [d]) ! p) ?c" using p(2) c by (simp add: same_target_def nth_append)
      have "\<exists>w. own_value h0 a j = Some w \<and> mirrors h0 (h @ [d]) v' w" if "obj_get (obj_set k (RefV (length h)) nd) j = Some v'" for j v'
        using that cell(3) v r mirrors_mono [OF _ targets_alloc] by (fastforce simp: obj_get_set split: if_splits)
      then have "cell_mirrors h0 (h @ [d]) ?c" using cell(1,2) by (simp add: cell_mirrors_def)
      then have new: "mirrored h0 ((h @ [d])[p := ?c])" using p by (intro mirrored_update [OF m' _ _ _ same]) simp_all
      have keeps: "keeps_targets h ((h @ [d])[p := ?c])" by (rule targets_trans [OF targets_alloc targets_update [OF same]])
      have "mirrors h0 ((h @ [d])[p := ?c]) (RefV (length h)) (RefV b)" by (rule mirrors_mono [OF r targets_update [OF same]])
      moreover have "length h \<noteq> b" using b m by (simp add: mirrored_def)
      ultimately show ?thesis using new keeps kinds None
        by (cases "h ! b") (simp_all add: object_get_def own v or_undef_def aug reads_mirror_def k)
    qed (use None m own k in \<open>simp_all add: object_get_def reads_mirror_def targets_refl mirrors_def\<close>)
  qed
qed

lemma read_array:
  assumes data: "json_data h0" and m: "mirrored h0 h" and p: "length h0 \<le> p" "p < length h" and c: "h ! p = ArrProxy a nd"
  shows "reads_mirror h0 h (or_undef (slot (elements h0 a) i)) (array_get h p a nd i)"
proof -
  let ?xs = "elements h0 a"
  have cell: "a < length h0" "\<And>ys. nd = Some ys \<Longrightarrow> length ys = length ?xs \<and> (\<forall>i < length ys. or_undef (ys ! i) = or_undef (?xs ! i)
      \<or> mirrors h0 h (or_undef (ys ! i)) (or_undef (?xs ! i)))" "\<exists>xs. h0 ! a = ArrCell xs"
    using mirrored_cell [OF m p] c by (auto simp: cell_mirrors_def)
  have own: "elements h a = ?xs" by (simp add: elements_def mirrored_data [OF m cell(1)])
  let ?v = "or_undef (slot (current h a nd) i)" and ?w = "or_undef (slot ?xs i)"
  have v: "?v = ?w \<or> i < length ?xs \<and> mirrors h0 h ?v ?w"
    using cell(2) by (cases nd) (auto simp: current_def own slot_def)
  have get: "array_get h p a nd i = (v', h')" if "augment h ?v = (v', h')" "v' = ?v" for v' h'
    using that by (simp add: array_get_def Let_def)
  consider (same) "augment h ?v = (?v, h)" "mirrors h0 h ?v ?w" | (wrap) b where "?v = RefV b" "?w = RefV b" "b < length h0" "i < length ?xs"
  proof (cases "\<forall>a. ?v \<noteq> RefV a")
    case True
    then have "mirrors h0 h ?v ?w" using v by (cases ?w) (auto simp: mirrors_def)
    then show ?thesis using that(1) augment_value [OF True] by blast
  next
    case False
    then obtain b where b: "?v = RefV b" by blast
    show ?thesis
    proof (cases "?v = ?w")
      case True
      then have w: "?w = RefV b" using b by simp
      then have i: "i < length ?xs" by (auto simp: slot_def or_undef_def split: if_splits)
      have "heap_apart h0 h0" by (auto simp: heap_apart_def)
      then have "inside (length h0) (RefV b)"
        using apart_target(2) [OF _ _ cell(1), of h0 "?xs ! i"] data i w by (simp add: json_data_def slot_def)
      then show ?thesis using that(2) b w i by (simp add: inside_def)
    next
      case False
      then have mir: "mirrors h0 h ?v ?w" using v by blast
      then obtain x where "?w = RefV x" using b by (cases ?w) (simp_all add: mirrors_def)
      then have "(\<exists>nd. h ! b = ObjProxy x nd []) \<or> (\<exists>d. h ! b = ArrProxy x d)" using mir b by (auto simp: mirrors_def)
      then have "augment h ?v = (?v, h)" unfolding b by (auto simp: augment_ref)
      then show ?thesis using that(1) mir by blast
    qed
  qed
  then show ?thesis
  proof cases
    case same
    then show ?thesis using m get [OF same(1)] by (simp add: reads_mirror_def targets_refl)
  next
    case (wrap b)
    obtain d where aug: "augment h (RefV b) = (RefV (length h), h @ [d])" and m': "mirrored h0 (h @ [d])"
      and r: "mirrors h0 (h @ [d]) (RefV (length h)) (RefV b)"
      using mirrored_augment [OF data m wrap(3)] by blast
    let ?ys = "getData h a nd"
    let ?c = "ArrProxy a (Some (write_slot i (RefV (length h)) ?ys))"
    have same: "same_target ((h @ [d]) ! p) ?c" using p(2) c by (simp add: same_target_def nth_append)
    have len: "length ?ys = length ?xs" using cell(2) by (cases nd) (simp_all add: getData_def spread_array_def own)
    have ys: "or_undef (?ys ! j) = or_undef (?xs ! j) \<or> mirrors h0 h (or_undef (?ys ! j)) (or_undef (?xs ! j))" if "j < length ?xs" for j
      using cell(2) that by (cases nd) (simp_all add: getData_def spread_array_def own or_undef_def)
    have w: "or_undef (?xs ! i) = RefV b" using wrap(2,4) by (simp add: slot_def)
    have new: "or_undef (write_slot i (RefV (length h)) ?ys ! j) = or_undef (?xs ! j)
        \<or> mirrors h0 (h @ [d]) (or_undef (write_slot i (RefV (length h)) ?ys ! j)) (or_undef (?xs ! j))" if "j < length ?xs" for j
    proof (cases "j = i")
      case True
      then show ?thesis using r w wrap(4) len by (simp add: write_slot_def or_undef_def)
    next
      case False
      then show ?thesis using ys [OF that] mirrors_mono [OF _ targets_alloc, of h0 h _ _ d] wrap(4) len by (auto simp: write_slot_def)
    qed
    then have "cell_mirrors h0 (h @ [d]) ?c" using cell(1,3) len wrap(4) by (simp add: cell_mirrors_def write_slot_def)
    then have "mirrored h0 ((h @ [d])[p := ?c])" using p by (intro mirrored_update [OF m' _ _ _ same]) simp_all
    moreover have "keeps_targets h ((h @ [d])[p := ?c])" by (rule targets_trans [OF targets_alloc targets_update [OF same]])
    moreover have "mirrors h0 ((h @ [d])[p := ?c]) (RefV (length h)) (RefV b)" by (rule mirrors_mono [OF r targets_update [OF same]])
    moreover have "length h \<noteq> b" using wrap(3) m by (simp add: mirrored_def)
    ultimately show ?thesis by (simp add: array_get_def Let_def wrap(1,2) aug reads_mirror_def)
  qed
qed

lemma read_one:
  assumes data: "json_data h0" and m: "mirrored h0 h" and v: "mirrors h0 h v w" and s: "s \<noteq> AtKey ''constructor''"
  shows "reads_mirror h0 h (data_step h0 w s) (read_step toISO h v s)"
proof (cases w)
  case (RefV a)
  then obtain p where p: "v = RefV p" "length h0 \<le> p" "p < length h"
    and cells: "(\<exists>m nd. h0 ! a = ObjCell m \<and> h ! p = ObjProxy a nd []) \<or> (\<exists>xs d. h0 ! a = ArrCell xs \<and> h ! p = ArrProxy a d)"
    using v by (auto simp: mirrors_def)
  have undef: "reads_mirror h0 h UndefV (UndefV, h)" using m by (simp add: reads_mirror_def targets_refl mirrors_def)
  from cells show ?thesis
  proof (elim disjE exE conjE)
    fix m' nd
    assume "h0 ! a = ObjCell m'" "h ! p = ObjProxy a nd []"
    then show ?thesis using read_object [OF data m p(2,3)] undef s
      by (cases s) (simp_all add: RefV p(1) data_step_def read_step_def get_prop_def get_index_def elements_def slot_def or_undef_def)
  next
    fix xs d
    assume "h0 ! a = ArrCell xs" "h ! p = ArrProxy a d"
    then show ?thesis using read_array [OF data m p(2,3)] undef s
      by (cases s) (simp_all add: RefV p(1) data_step_def read_step_def get_prop_def get_index_def own_value_def or_undef_def)
  qed
qed (use v m in \<open>simp_all add: mirrors_def data_step_def read_step_def reads_mirror_def targets_refl\<close>)

lemma read_all:
  assumes "json_data h0" "mirrored h0 h" "mirrors h0 h v w" "plain_path ss"
  shows "reads_mirror h0 h (data_path h0 w ss) (read_path toISO h v ss)"
  using assms(2-4)
proof (induction ss arbitrary: h v w)
  case Nil
  then show ?case by (simp add: reads_mirror_def data_path_def targets_refl)
next
  case (Cons s ss)
  obtain v' h' where step: "read_step toISO h v s = (v', h')" by fastforce
  then have r: "reads_mirror h0 h (data_step h0 w s) (v', h')" using read_one [OF assms(1) Cons.prems(1,2)] Cons.prems(3) by (metis list.set_intros(1) plain_path_def)
  then have "reads_mirror h0 h' (data_path h0 (data_step h0 w s) ss) (read_path toISO h' v' ss)"
    using Cons.prems(3) by (intro Cons.IH) (simp_all add: reads_mirror_def plain_path_def)
  then show ?case using r targets_trans by (simp add: step reads_mirror_def data_path_def) blast
qed

subsection \<open>What is read\<close>

text \<open>Reading along several paths, each from the first proxy.\<close>

definition read_paths :: "(int \<Rightarrow> string) \<Rightarrow> aval \<Rightarrow> path_step list list \<Rightarrow> heap \<Rightarrow> heap" where
  "read_paths toISO v paths h = fold (\<lambda>path h. snd (read_path toISO h v path)) paths h"

definition proxy_of :: "heap \<Rightarrow> aval \<Rightarrow> nat \<Rightarrow> bool" where
  "proxy_of h v a \<longleftrightarrow> (\<exists>p. v = RefV p \<and> ((\<exists>nd. h ! p = ObjProxy a nd []) \<or> (\<exists>d. h ! p = ArrProxy a d)))"

lemma new_mirrors:
  assumes "json_data h0" "start < length h0" "augment h0 (RefV start) = (v, h)"
  shows "mirrored h0 h" "mirrors h0 h v (RefV start)"
proof -
  have "mirrored h0 h0" by (auto simp: mirrored_def)
  then obtain c where "augment h0 (RefV start) = (RefV (length h0), h0 @ [c])" "mirrored h0 (h0 @ [c])"
    "mirrors h0 (h0 @ [c]) (RefV (length h0)) (RefV start)"
    using mirrored_augment [OF assms(1) _ assms(2)] by blast
  then show "mirrored h0 h" "mirrors h0 h v (RefV start)" using assms(3) by simp_all
qed

text \<open>
  C40: For data that consists of objects and arrays of primitive values (no dates, bytes or regular expressions):
  whatever was read before, along paths without \<open>constructor\<close>, reading along a path without \<open>constructor\<close> from the
  proxy of an object or array of the data gives what the data has there: the same primitive value (\<open>undefined\<close> where it
  has none), or a proxy of the very object or array that is there.
\<close>

theorem reading_mirrors:
  assumes "json_data h0" "start < length h0" "augment h0 (RefV start) = (v, h)"
    and "list_all plain_path (path # paths)"
    and "read_path toISO (read_paths toISO v paths h) v path = (v', h')"
  shows "case data_path h0 (RefV start) path of RefV a \<Rightarrow> proxy_of h' v' a | w \<Rightarrow> v' = w"
proof -
  have "mirrored h0 h" "mirrors h0 h v (RefV start)" by (rule new_mirrors [OF assms(1-3)])+
  moreover have "list_all plain_path paths" using assms(4) by simp
  ultimately have "mirrored h0 (read_paths toISO v paths h) \<and> mirrors h0 (read_paths toISO v paths h) v (RefV start)"
  proof (induction paths arbitrary: h)
    case (Cons q paths)
    have "reads_mirror h0 h (data_path h0 (RefV start) q) (read_path toISO h v q)"
      using read_all [OF assms(1) Cons.prems(1,2)] Cons.prems(3) by simp
    then show ?case using Cons.IH Cons.prems(3) mirrors_mono [OF Cons.prems(2)] by (simp add: read_paths_def reads_mirror_def)
  qed (simp add: read_paths_def)
  then have "reads_mirror h0 (read_paths toISO v paths h) (data_path h0 (RefV start) path) (v', h')"
    using read_all [OF assms(1), of "read_paths toISO v paths h" v "RefV start" path toISO] assms(4,5) by simp
  then show ?thesis by (auto simp: reads_mirror_def mirrors_def proxy_of_def split: aval.splits)
qed

end
