(* ===== verification/AugmentExamples.thy ===== *)
theory AugmentExamples
  imports AugmentReading
begin

section \<open>Proxies of some data\<close>

text \<open>An object with an array that contains it.\<close>

definition some_data :: heap where
  "some_data = [ObjCell [(''list'', RefV 1), (''n'', NumV 7)], ArrCell [Some (StrV ''x''), None, Some (RefV 0)]]"

lemma some_data_ok: "plain_data some_data" "json_data some_data"
  by (simp_all add: some_data_def plain_data_def json_data_def plain_cell_def inside_def or_undef_def)

definition no_iso :: "int \<Rightarrow> string" where
  "no_iso d = []"

text \<open>The client reads the array and writes an element of it.\<close>

lemmas augment_eval = some_data_def new_client_def augment_def augmentObject_def augmentArray_def alloc_def keeping_def
  get_prop_def object_get_def own_value_def or_undef_def set_index_def array_set_def array_set_length_def write_slot_def getData_def
  spread_array_def elements_def get_index_def array_get_def current_def slot_def

definition after_read :: client where
  "after_read = keeping [RefV 2] (get_prop no_iso (snd (new_client some_data 0)) 2 ''list'')"

definition after_write :: client where
  "after_write = (fst after_read, set_index (snd after_read) 3 0 (StrV ''y''))"

lemma new_held: "new_client some_data 0 = ([RefV 2], some_data @ [ObjProxy 0 [] []])"
  by (simp add: augment_eval)

lemma after_read_eq:
  "after_read = ([RefV 2, RefV 3], some_data @ [ObjProxy 0 [(''list'', RefV 3)] [], ArrProxy 1 None])"
  by (simp add: after_read_def augment_eval)

lemma read_history: "history (ordinary_step no_iso) (new_client some_data 0) [ReadKey 2 ''list''] after_read"
proof -
  have "client_step no_iso ([RefV 2], some_data @ [ObjProxy 0 [] []]) (ReadKey 2 ''list'') after_read"
    unfolding after_read_def new_held snd_conv by (rule read_key) simp
  then show ?thesis unfolding new_held by (intro history_single) (simp add: ordinary_step_def ordinary_def)
qed

lemma write_history:
  "history (ordinary_step no_iso) (new_client some_data 0) [ReadKey 2 ''list'', WriteIndex 3 0 (StrV ''y'')] after_write"
proof -
  have "client_step no_iso ([RefV 2, RefV 3], snd after_read) (WriteIndex 3 0 (StrV ''y'')) ([RefV 2, RefV 3], set_index (snd after_read) 3 0 (StrV ''y''))"
    by (rule write_index) (simp_all add: usable_def)
  then have "ordinary_step no_iso after_read (WriteIndex 3 0 (StrV ''y'')) after_write"
    by (simp add: after_write_def ordinary_step_def ordinary_def after_read_eq)
  then show ?thesis using history_more [OF read_history] by simp
qed

lemma original_untouched_witness:
  "take 2 (snd after_write) = some_data \<and> fst (get_index (snd after_write) 3 0) = StrV ''y''"
proof
  have two: "length some_data = 2" by (simp add: some_data_def)
  have "take (length some_data) (snd after_write) = some_data"
    by (rule original_untouched [OF some_data_ok(1) _ write_history]) (simp add: some_data_def)
  then show "take 2 (snd after_write) = some_data" unfolding two .
  show "fst (get_index (snd after_write) 3 0) = StrV ''y''" by (simp add: after_write_def after_read_eq augment_eval Let_def)
qed

lemma augmented_object_refines_witness:
  "shown (set_prop (snd after_read) 2 ''n'' (NumV 8)) 2 = (shown (snd after_read) 2)(''n'' \<mapsto> NumV 8)"
proof -
  have "snd after_read ! 2 = ObjProxy 0 [(''list'', RefV 3)] []" "length (snd after_read) = 4"
    by (simp_all add: after_read_eq some_data_def)
  moreover have "\<forall>k x. own_value (snd after_read) 0 k = Some x \<longrightarrow> inside (length (snd after_read)) x"
    by (simp add: after_read_eq some_data_def own_value_def inside_def)
  ultimately show ?thesis
    using augmented_object_refines [of "snd after_read" 2 0 _ _ "''n''" "NumV 8" no_iso] by simp
qed

lemma reading_mirrors_witness:
  "\<exists>v' h'. read_path no_iso (some_data @ [ObjProxy 0 [] []]) (RefV 2) [AtKey ''list'', AtIndex 2, AtKey ''n''] = (v', h') \<and> v' = NumV 7"
proof -
  have first: "augment some_data (RefV 0) = (RefV 2, some_data @ [ObjProxy 0 [] []])" by (simp add: augment_eval)
  obtain v' h' where r: "read_path no_iso (some_data @ [ObjProxy 0 [] []]) (RefV 2) [AtKey ''list'', AtIndex 2, AtKey ''n''] = (v', h')"
    by fastforce
  have "data_path some_data (RefV 0) [AtKey ''list'', AtIndex 2, AtKey ''n''] = NumV 7"
    by (simp add: data_path_def data_step_def own_value_def elements_def slot_def or_undef_def some_data_def)
  then have "v' = NumV 7"
    using reading_mirrors [OF some_data_ok(2) _ first, of "[AtKey ''list'', AtIndex 2, AtKey ''n'']" "[]" no_iso v' h'] r
    by (simp add: read_paths_def some_data_def plain_path_def)
  then show ?thesis using r by blast
qed

subsection \<open>Descriptors\<close>

text \<open>The descriptor of a property holds the nested object itself, which can then be written.\<close>

lemma descriptor_leaks:
  "\<exists>s. history (client_step no_iso) (new_client some_data 0) [DescribeKey 2 ''list'', WriteIndex 1 0 (StrV ''y'')] s
     \<and> snd s ! 1 = ArrCell [Some (StrV ''y''), None, Some (RefV 0)]"
proof -
  let ?h = "some_data @ [ObjProxy 0 [] []]"
  have "client_step no_iso ([RefV 2], ?h) (DescribeKey 2 ''list'') (keeping [RefV 2] (descriptor_prop ?h 2 ''list'', ?h))"
    by (rule describe_key) simp
  moreover have "keeping [RefV 2] (descriptor_prop ?h 2 ''list'', ?h) = ([RefV 2, RefV 1], ?h)"
    by (simp add: keeping_def descriptor_prop_def object_descriptor_def obj_has_def own_value_def some_data_def or_undef_def)
  ultimately have 1: "history (client_step no_iso) (new_client some_data 0) [DescribeKey 2 ''list''] ([RefV 2, RefV 1], ?h)"
    unfolding new_held by (intro history_single) simp
  have "client_step no_iso ([RefV 2, RefV 1], ?h) (WriteIndex 1 0 (StrV ''y'')) ([RefV 2, RefV 1], set_index ?h 1 0 (StrV ''y''))"
    by (rule write_index) (simp_all add: usable_def)
  from history_more [where step = "client_step no_iso", OF 1 this]
  have "history (client_step no_iso) (new_client some_data 0) [DescribeKey 2 ''list'', WriteIndex 1 0 (StrV ''y'')]
      ([RefV 2, RefV 1], set_index ?h 1 0 (StrV ''y''))" by simp
  moreover have "set_index ?h 1 0 (StrV ''y'') ! 1 = ArrCell [Some (StrV ''y''), None, Some (RefV 0)]"
    by (simp add: set_index_def some_data_def write_slot_def)
  ultimately show ?thesis by (metis snd_conv)
qed

text \<open>A property that is defined goes to the original, past the proxy.\<close>

lemma define_reaches_original:
  "\<exists>s. history (client_step no_iso) (new_client some_data 0) [DefineKey 2 ''n'' (NumV 8)] s
     \<and> snd s ! 0 = ObjCell [(''list'', RefV 1), (''n'', NumV 8)]"
proof -
  let ?h = "some_data @ [ObjProxy 0 [] []]"
  have "client_step no_iso ([RefV 2], ?h) (DefineKey 2 ''n'' (NumV 8)) ([RefV 2], define_prop ?h 2 ''n'' (NumV 8))"
    by (rule define_key) (simp_all add: usable_def)
  then have "history (client_step no_iso) (new_client some_data 0) [DefineKey 2 ''n'' (NumV 8)] ([RefV 2], define_prop ?h 2 ''n'' (NumV 8))"
    unfolding new_held by (intro history_single) simp
  moreover have "define_prop ?h 2 ''n'' (NumV 8) ! 0 = ObjCell [(''list'', RefV 1), (''n'', NumV 8)]"
    by (simp add: define_prop_def some_data_def)
  ultimately show ?thesis by (metis snd_conv)
qed

text \<open>The proxy answers \<open>constructor\<close> itself, even when the object has such a property or when it was deleted.\<close>

lemma constructor_hidden:
  "fst (object_get no_iso h a t nd del ''constructor'') = FunV ''Object''"
  by (simp add: object_get_def)

text \<open>The descriptor of an element that was written still holds the value of the original.\<close>

lemma descriptor_stale:
  "fst (get_index (snd after_write) 3 0) = StrV ''y''" "descriptor_index (snd after_write) 3 0 = StrV ''x''"
  by (simp_all add: after_write_def after_read_eq augment_eval descriptor_index_def array_descriptor_def Let_def)

text \<open>A hole of an array is an element once another one was written.\<close>

lemma hole_filled:
  "array_has (snd after_read) 1 None 1 = False"
  "snd after_write ! 3 = ArrProxy 1 (Some [Some (StrV ''y''), Some UndefV, Some (RefV 0)])"
  by (simp_all add: array_has_def after_write_def after_read_eq augment_eval)

end
