(* ===== verification/Spec2Isabelle.thy ===== *)
theory Spec2Isabelle
  imports PartialExamples SelectionExamples WorkflowDiffFacts ActiveExecutionsFacts TaskBrokerTokens TaskRunnerLife
    LeaderExamples WaitTrackerFacts CircuitBreakerFacts NodeExamples TypeValidationFacts AugmentExamples
begin

text \<open>
  The workflow graph, the execution engine, the parameters of nodes and the services around them, of n8n.

  A workflow is a set of nodes and the connections between them. The class \<open>Workflow\<close>
  (\<open>packages/workflow/src/workflow.ts\<close>) holds both and answers questions about them; the class
  \<open>WorkflowExecute\<close> (\<open>packages/core/src/execution-engine/workflow-execute.ts\<close>) executes a
  workflow: it takes an entry from a stack, calls the implementation of the entry's node, records a
  run and puts the nodes that come next on the stack; a node with several inputs waits until they
  have data. A partial execution first builds a \<open>DirectedGraph\<close> of the workflow and computes from
  it and from earlier run data where to start and what is on the stack
  (\<open>packages/core/src/execution-engine/partial-execution-utils\<close>). Around the engine the server
  limits how many executions run at once (\<open>packages/cli/src/concurrency\<close>) and keeps the book of those
  that are active (\<open>packages/cli/src/active-executions.ts\<close>). A node that executes code asks the task
  broker (\<open>packages/cli/src/task-runners/task-broker\<close>) for a runner; the broker matches the offers of
  runners (\<open>packages/@n8n/task-runner/src\<close>) with the requests. When several main processes run, one is elected
  as leader through a key in Redis (\<open>packages/cli/src/scaling\<close>), and only the leader resumes executions that
  wait (\<open>packages/cli/src/wait-tracker.ts\<close>). The parameters of a node are stored without what equals the
  default and are filled in from the description of its type (\<open>packages/workflow/src/node-helpers.ts\<close>).

  Theories and sources (paths below \<open>packages\<close>, \<open>core\<close> stands for
  \<open>core/src/execution-engine\<close>, \<open>workflow\<close> for \<open>workflow/src\<close>).

  \<^item> \<open>Prelude\<close>, \<open>JsObjects\<close>: results of code that may throw (\<open>js_error + 'a\<close>, composed with
    \<open>bindE\<close>, \<open>foldE\<close>, \<open>mapE\<close>), array slots that may be a hole or \<open>null\<close> (\<open>jsval\<close>), plain objects and
    \<open>Map\<close>s as lists of entries, \<open>Set\<close>s as distinct lists, the stable sort. The locale \<open>js_map\<close>
    states what the other theories rely on and is interpreted on the entry lists.
  \<^item> \<open>Interfaces\<close>: \<open>workflow/interfaces.ts\<close>, \<open>workflow/execution-status.ts\<close>.
  \<^item> \<open>Connections\<close>, \<open>ConnectedNodes\<close>: \<open>workflow/common/*.ts\<close>. \<open>GraphSearch\<close>: the locale
    \<open>err_search\<close> of a depth-first search that may throw, interpreted on the traversals of
    the graph along children and along parents.
  \<^item> \<open>WorkflowModel\<close>, \<open>WorkflowSearch\<close>, \<open>WorkflowFacts\<close>: \<open>workflow/workflow.ts\<close>,
    \<open>workflow/node-parameters/rename-node-utils.ts\<close>.
  \<^item> \<open>DirectedGraph\<close>, \<open>DirectedGraphFacts\<close>, \<open>SccFacts\<close>, \<open>GraphConversions\<close>:
    \<open>core/partial-execution-utils/directed-graph.ts\<close>, every method.
  \<^item> \<open>StartNodes\<close>, \<open>StartNodesFacts\<close>: \<open>get-incoming-data.ts\<close>, \<open>run-data-utils.ts\<close>,
    \<open>find-start-nodes.ts\<close>, \<open>clean-run-data.ts\<close>, \<open>filter-disabled-nodes.ts\<close>, \<open>handle-cycles.ts\<close>.
  \<^item> \<open>Subgraph\<close>, \<open>SubgraphFacts\<close>: \<open>find-subgraph.ts\<close>, \<open>find-trigger-for-partial-execution.ts\<close>,
    \<open>rewire-graph.ts\<close>.
  \<^item> \<open>StackRecreation\<close>, \<open>StackFacts\<close>: \<open>get-source-data-groups.ts\<close>,
    \<open>recreate-node-execution-stack.ts\<close>.
  \<^item> \<open>ExecState\<close>: the state, with \<open>workflow/run-execution-data-factory.ts\<close>. The record
    \<open>exec_state\<close> is \<open>IRunExecutionData\<close> flattened, with \<open>status\<close>, \<open>timedOut\<close> and
    \<open>additionalData.currentNodeExecutionIndex\<close>.
  \<^item> \<open>EngineQueue\<close>, \<open>EngineQueueFacts\<close>: \<open>addNodeToBeExecuted\<close> and what it calls.
  \<^item> \<open>EngineNodes\<close>: \<open>checkReadyForExecution\<close>, \<open>runNode\<close> and its helpers, \<open>ensureInputData\<close>.
  \<^item> \<open>EngineOutput\<close>, \<open>EngineTry\<close>, \<open>EngineTryFacts\<close>: the tries of a node and its output.
  \<^item> \<open>Requests\<close>, \<open>RequestsFacts\<close>: \<open>core/requests-response.ts\<close>, \<open>handleEngineRequest\<close>.
  \<^item> \<open>EngineWaiting\<close>, \<open>EngineWaitingFacts\<close>: the choice of a waiting node.
  \<^item> \<open>EngineLoop\<close>, \<open>EngineFrame\<close>, \<open>EngineLoopFacts\<close>: \<open>processRunExecutionData\<close>. One iteration is
    \<open>loop_step\<close>; the loop is \<open>run_loop\<close>; \<open>processSuccessExecution\<close> ends it.
  \<^item> \<open>PartialExecution\<close>, \<open>PartialExecutionFacts\<close>: \<open>run\<close> and \<open>runPartialWorkflow2\<close>, which compose
    the graph theories with the loop.
  \<^item> \<open>GraphUtils\<close>, \<open>GraphUtilsFacts\<close>: \<open>workflow/graph/graph-utils.ts\<close>.
  \<^item> \<open>WorkflowDiff\<close>, \<open>WorkflowDiffFacts\<close>: \<open>workflow/workflow-diff.ts\<close>.
  \<^item> \<open>Machines\<close>: services driven by events. A service is a state and a step relation; a history is a
    sequence of events that may happen. The locale \<open>safe_machine\<close> is the contract of an invariant
    and is interpreted on the services below.
  \<^item> \<open>Concurrency\<close>, \<open>ConcurrencyFacts\<close>: \<open>cli/src/concurrency/concurrency-queue.ts\<close>,
    \<open>concurrency-control.service.ts\<close>.
  \<^item> \<open>ActiveExecutions\<close>, \<open>ActiveExecutionsFacts\<close>: \<open>cli/src/active-executions.ts\<close> with the
    concurrency control it calls.
  \<^item> \<open>TaskBroker\<close>, \<open>TaskBrokerFacts\<close>, \<open>TaskBrokerTokens\<close>: \<open>task-broker.service.ts\<close> and the messages of
    \<open>@n8n/task-runner/src/message-types.ts\<close>.
  \<^item> \<open>TaskRunner\<close>, \<open>TaskRunnerFacts\<close>, \<open>TaskRunnerLife\<close>: \<open>@n8n/task-runner/src/task-runner.ts\<close> and
    \<open>task-state.ts\<close>.
  \<^item> \<open>LeaderElection\<close>, \<open>LeaderElectionFacts\<close>, \<open>LeaderExamples\<close>: \<open>cli/src/scaling/multi-main-setup.ee.ts\<close> with
    the roles of \<open>core/src/instance-settings\<close>.
  \<^item> \<open>WaitTracker\<close>, \<open>WaitTrackerFacts\<close>: \<open>cli/src/wait-tracker.ts\<close>.
  \<^item> \<open>CircuitBreaker\<close>, \<open>CircuitBreakerFacts\<close>: \<open>cli/src/utils/circuit-breaker.ts\<close>, \<open>sliding-window.ts\<close>.
  \<^item> \<open>NodeProperties\<close>: when \<open>workflow/node-helpers.ts\<close> displays a parameter. \<open>NodeResolve\<close>,
    \<open>NodeResolveFacts\<close>: the order in which parameters are resolved. \<open>NodeParameters\<close>,
    \<open>NodeParametersFacts\<close>, \<open>NodeExamples\<close>: \<open>getNodeParameters\<close> with collections and fixed collections.
  \<^item> \<open>AugmentObject\<close>, \<open>AugmentFacts\<close>, \<open>AugmentReading\<close>, \<open>AugmentExamples\<close>: \<open>workflow/augment-object.ts\<close>, the
    proxies of data, on a heap.
  \<^item> \<open>ExpressionParser\<close>: \<open>workflow/extensions/expression-parser.ts\<close>.
  \<^item> \<open>TypeValidation\<close>, \<open>TypeValidationFacts\<close>: \<open>workflow/type-validation.ts\<close>.
  \<^item> \<open>GraphExamples\<close>, \<open>EngineExamples\<close>, \<open>LoopExamples\<close>, \<open>PartialExamples\<close>, \<open>SelectionExamples\<close>:
    concrete workflows, graphs and executions. They apply the properties, and they show by evaluation
    where the code does something unexpected.

  What is shown. The traversals end, never throw on a well-formed graph and return exactly what is
  reachable; conversions between workflows and graphs lose nothing; a partial execution starts from
  exactly the nodes at which a branch from the trigger stops, on cleaned run data, with a stack that
  has one entry per complete group of inputs. The engine keeps, in every state it reaches, an
  invariant: the two waiting maps have the same keys, runs are numbered below the counter, no run
  disappears, only nodes of the filter begin. The invariant is the relation \<open>keeps\<close> between the
  states before and after an operation, so that the loop gets it from its parts, and a partial
  execution establishes it. Each step of an iteration is described on every branch, errors included.

  The services promise something about every history, whatever their clients do and however the
  asynchronous parts interleave: the capacity of concurrency control is accounted for; a task ends once
  (when nothing happens while its end is being reported), a request is answered once, an offer is accepted once (each by a token that an event can only move or
  consume); a runner never has more tasks and offers than it has room for, and each of its tasks follows
  the life cycle that the source draws; as long as leaders check in time at most one process leads, and when the
  key is free and a process attempts, one leads; an execution that waits is resumed at most as often as
  it was reported; a circuit breaker decides as if it remembered all failures.

  Reading, writing and deleting through the proxies of data does not change the data (descriptors and
  \<open>Object.defineProperty\<close> do reach it), a proxy behaves like an object of its own, and reading through it gives the data.

  The parameters of a node come back when they are stored without their defaults and loaded again; the order of
  resolution always comes to an end, with the last place of every parameter after those it depends on. A value that
  validation accepts has the type asked for. Splitting an expression and joining the parts gives it back. Each
  under the conditions that the text of the theorem names.

  Code from outside. What a node type does when it is called is code loaded at run time: the
  argument \<open>node_calls\<close>, which gives for each call its output, a request, or an error. The record
  \<open>engine_env\<close> holds what the loop asks other components for: the error value of a thrown engine error,
  the outputs and required inputs of a node type (they may be expressions), the issues of a node's
  parameters, the pairing of items, the timeout. \<open>localeCompare\<close> is an argument where the code sorts
  by it. Clock, cancellation and the abort signal are inputs of each iteration. No law is assumed of any
  of them. \<open>nanoid\<close> is a function from the number of the call to a name; where it matters that names
  differ, \<open>inj nanoid\<close> is a hypothesis. Results of \<open>randomInt\<close> are an argument as well. Redis is the
  record \<open>store_ops\<close> of its four commands; \<open>store_laws\<close> says what their documentation says of keys that
  expire. \<open>param_env\<close> holds what the parameters need of lodash and of regular expressions, \<open>std_env\<close> the
  conversions of numbers and JSON texts and the parsers of luxon and of URLs; no law is assumed of them except where a
  theorem names one. What the database knows of an execution comes with the events of the wait tracker.

  Termination and fuel. The graph searches are total functions whose measure counts the nodes not
  seen; the tries of a node and the choice of a waiting node are total as well. The loop over the
  stack need not end (a workflow may contain an endless cycle), so \<open>run_loop\<close> has a bound on the
  number of iterations and returns \<open>None\<close> when it is reached. \<open>run_loop_more\<close> shows that a result
  does not depend on the bound; the properties of the loop hold of every iteration, whether the loop
  ends or not.

  Conventions. A number is \<open>nat\<close> where the code uses it as an index or a count. An asynchronous
  method is a function, since the loop awaits each call. The code mutates shared objects; where that is
  visible (\<open>recreateNodeExecutionStack\<close>, the requests) the operation returns the changed state, also with an
  error. Node objects are compared by reference in the code and by value here; two nodes of one
  workflow differ in their name. In the services a call that is suspended at an \<open>await\<close> is part of the
  state and going on with it is an event of its own, a timer is armed as long as it is in the state, the
  clock is read once per event. Of the callbacks that pass messages the broker's handlers that end a task are
  suspended until the requester's has returned; after the others the code does nothing that depends on when they
  return. The deletion of an entry, the database reads and the start of an execution in the wait tracker are one step.

  Not modelled: the evaluation of expressions and the proxies of execution data; the issues of parameters and the
  checks of node names; the contexts handed to
  node implementations; the promise machinery of \<open>processRunExecutionData\<close> (\<open>PCancelable\<close>, closing of
  triggers), error reporting and static data; triggers and schedules; the requester side of tasks and the
  sandbox that executes code; the rest of the server, database, scaling and editor. They are calls to third-party code or glue around it.
\<close>

end
